(* ===== verification/Prelude.thy ===== *)
theory Prelude
  imports Main "HOL-Library.Word"
begin

text \<open>
  Shared vocabulary of the development: the machine integer types of the C++ code, the
  lemma collections the component theories extend, and generic facts about lists, options
  and words that more than one component uses.
\<close>

type_synonym byte = "8 word"
type_synonym uint16_t = "16 word"
type_synonym uint32_t = "32 word"
type_synonym uint64_t = "64 word"

named_theorems config_defs \<open>definitions of the numeric constants of Config.hpp\<close>
named_theorems fm_simps \<open>lookup laws of the sorted flat map\<close>
named_theorems lock_defs \<open>definitions of the operations of a single lock\<close>
named_theorems codec_simps \<open>length and round-trip laws of the byte codecs\<close>

section \<open>Lists\<close>

lemma takeWhile_eq_take_count:
  "takeWhile P xs = take (length (takeWhile P xs)) xs"
  by (metis takeWhile_eq_take)

lemma nth_takeWhile_length:
  "length (takeWhile P xs) < length xs \<Longrightarrow> \<not> P (xs ! length (takeWhile P xs))"
  by (rule nth_length_takeWhile)

lemma nth_in_takeWhile:
  "i < length (takeWhile P xs) \<Longrightarrow> P (xs ! i)"
  by (metis nth_mem set_takeWhileD takeWhile_nth)

lemma sorted_wrt_less_nth:
  fixes xs :: "'a::linorder list"
  shows "sorted_wrt (<) xs \<Longrightarrow> i < j \<Longrightarrow> j < length xs \<Longrightarrow> xs ! i < xs ! j"
  by (simp add: sorted_wrt_iff_nth_less)

lemma filter_id_length:
  "length (filter P xs) = length xs \<longleftrightarrow> filter P xs = xs"
  by (metis filter_id_conv length_filter_less less_irrefl)

lemma alist_from_keys:
  "distinct (map fst xs) \<Longrightarrow> map (\<lambda>k. (k, the (map_of xs k))) (map fst xs) = xs"
  by (auto simp: comp_def intro!: map_idI)

lemma alist_eqI:
  assumes "map fst xs = map fst ys" "distinct (map fst ys)" "map_of xs = map_of ys"
  shows "xs = ys"
proof -
  have "xs = map (\<lambda>k. (k, the (map_of xs k))) (map fst xs)"
    using assms by (intro alist_from_keys [symmetric]) simp
  also have "\<dots> = map (\<lambda>k. (k, the (map_of ys k))) (map fst ys)"
    using assms by simp
  also have "\<dots> = ys"
    using assms(2) by (rule alist_from_keys)
  finally show ?thesis .
qed

section \<open>Unsigned words\<close>

lemma unat_add_no_wrap:
  fixes a b :: "'a::len word"
  shows "unat a + unat b < 2 ^ LENGTH('a) \<Longrightarrow> unat (a + b) = unat a + unat b"
  by (simp add: unat_word_ariths)

lemma unat_sub_le:
  fixes a b :: "'a::len word"
  shows "b \<le> a \<Longrightarrow> unat (a - b) = unat a - unat b"
  by (rule unat_sub)

lemma unat_Suc_no_wrap:
  fixes a :: "'a::len word"
  shows "a < b \<Longrightarrow> unat (a + 1) = Suc (unat a)"
proof -
  assume "a < b"
  then have "unat a < unat b"
    by (simp add: word_less_nat_alt)
  moreover have "unat b < 2 ^ LENGTH('a)"
    by simp
  ultimately have "unat a + 1 < 2 ^ LENGTH('a)"
    by linarith
  then show ?thesis
    by (simp add: unat_word_ariths)
qed

end
