(* ===== verification/Config.thy ===== *)
theory Config
  imports Prelude
begin

text \<open>
  The type choices and reserved identifiers of ClientLib/include/blobs/Config.hpp. All
  identifiers are fixed-width unsigned integers, the reserved ones sit in the topmost 256
  values of their type.
\<close>

type_synonym message_size = uint32_t
type_synonym client_id = uint16_t
type_synonym database_id = "8 word"
type_synonym segment_id = uint32_t
type_synonym cluster_id = uint32_t
type_synonym blob_id = uint32_t
type_synonym blob_size = uint32_t
type_synonym commit_id = uint64_t
type_synonym transaction_priority = "16 word"

definition BlobMessageSize :: message_size where [config_defs]:
  "BlobMessageSize = 0x100"

definition MaxBlobSize :: blob_size where [config_defs]:
  "MaxBlobSize = - 1 - BlobMessageSize"

definition DeleteBlobSize :: blob_size where [config_defs]:
  "DeleteBlobSize = MaxBlobSize + 1"

definition MaxBlobId :: blob_id where [config_defs]:
  "MaxBlobId = - 1 - 0x100"

definition NextFreeBlobId :: blob_id where [config_defs]:
  "NextFreeBlobId = MaxBlobId + 1"

definition ClusterDeleteId :: blob_id where [config_defs]:
  "ClusterDeleteId = MaxBlobId + 2"

definition BlobListId :: blob_id where [config_defs]:
  "BlobListId = MaxBlobId + 3"

definition MaxClusterId :: cluster_id where [config_defs]:
  "MaxClusterId = - 1 - 0x100"

definition NextFreeClusterId :: cluster_id where [config_defs]:
  "NextFreeClusterId = MaxClusterId + 1"

definition SegmentDeleteId :: cluster_id where [config_defs]:
  "SegmentDeleteId = MaxClusterId + 2"

definition ClusterListId :: cluster_id where [config_defs]:
  "ClusterListId = MaxClusterId + 3"

definition MaxSegmentId :: segment_id where [config_defs]:
  "MaxSegmentId = - 1 - 0x100"

definition NextFreeSegmentId :: segment_id where [config_defs]:
  "NextFreeSegmentId = MaxSegmentId + 1"

definition SegmentListId :: segment_id where [config_defs]:
  "SegmentListId = MaxSegmentId + 2"

section \<open>The reserved identifiers are distinct and lie above the regular ones\<close>

lemma special_blob_ids_distinct [simp]:
  "NextFreeBlobId \<noteq> ClusterDeleteId" "ClusterDeleteId \<noteq> NextFreeBlobId"
  "NextFreeBlobId \<noteq> BlobListId" "BlobListId \<noteq> NextFreeBlobId"
  "ClusterDeleteId \<noteq> BlobListId" "BlobListId \<noteq> ClusterDeleteId"
  by (simp_all add: config_defs)

lemma special_cluster_ids_distinct [simp]:
  "NextFreeClusterId \<noteq> SegmentDeleteId" "SegmentDeleteId \<noteq> NextFreeClusterId"
  "NextFreeClusterId \<noteq> ClusterListId" "ClusterListId \<noteq> NextFreeClusterId"
  "SegmentDeleteId \<noteq> ClusterListId" "ClusterListId \<noteq> SegmentDeleteId"
  by (simp_all add: config_defs)

lemma special_segment_ids_distinct [simp]:
  "NextFreeSegmentId \<noteq> SegmentListId" "SegmentListId \<noteq> NextFreeSegmentId"
  by (simp_all add: config_defs)

lemma regular_blob_id_not_special:
  "b \<le> MaxBlobId \<Longrightarrow> b \<noteq> NextFreeBlobId \<and> b \<noteq> ClusterDeleteId \<and> b \<noteq> BlobListId"
  by (auto simp: config_defs)

lemma regular_cluster_id_not_special:
  "c \<le> MaxClusterId \<Longrightarrow> c \<noteq> NextFreeClusterId \<and> c \<noteq> SegmentDeleteId \<and> c \<noteq> ClusterListId"
  by (auto simp: config_defs)

lemma regular_segment_id_not_special:
  "s \<le> MaxSegmentId \<Longrightarrow> s \<noteq> NextFreeSegmentId \<and> s \<noteq> SegmentListId"
  by (auto simp: config_defs)

lemma zero_id_not_special [simp]:
  "0 \<noteq> NextFreeBlobId" "0 \<noteq> ClusterDeleteId" "0 \<noteq> BlobListId"
  "0 \<noteq> NextFreeClusterId" "0 \<noteq> SegmentDeleteId" "0 \<noteq> ClusterListId"
  by (simp_all add: config_defs)

end
