(* ===== verification/Sorted_Flat_Map.thy ===== *)
theory Sorted_Flat_Map
  imports Prelude
begin

text \<open>
  ServerLib/include/server/sorted_flat_map.hpp: a map kept as a vector of key/value pairs
  sorted by key. Iterators are positions in the list, the past-the-end iterator is the
  length. The standard library's \<open>lower_bound\<close> is modelled as the binary search it performs.
  The contract of the container is the locale \<open>ordered_map\<close>, interpreted on this model.
\<close>

type_synonym ('k, 'v) flat_map = "('k \<times> 'v) list"

section \<open>Model\<close>

text \<open>The half-interval loop of \<open>std::lower_bound\<close> with the comparator
  \<open>entry.first < key\<close>.\<close>

function lower_bound_loop ::
  "('k::linorder, 'v) flat_map \<Rightarrow> 'k \<Rightarrow> nat \<Rightarrow> nat \<Rightarrow> nat" where
  "lower_bound_loop m key first len =
     (if len = 0 then first
      else let half = len div 2; mid = first + half in
        if fst (m ! mid) < key
        then lower_bound_loop m key (mid + 1) (len - (half + 1))
        else lower_bound_loop m key first half)"
  by pat_completeness auto
termination
  by (relation "measure (\<lambda>(m, key, first, len). len)") auto

declare lower_bound_loop.simps [simp del]

definition lower_bound :: "('k::linorder, 'v) flat_map \<Rightarrow> 'k \<Rightarrow> nat" where
  "lower_bound m key = lower_bound_loop m key 0 (length m)"

definition fm_find :: "('k::linorder, 'v) flat_map \<Rightarrow> 'k \<Rightarrow> nat" where
  "fm_find m key =
     (let pos = lower_bound m key in
      if pos \<noteq> length m \<and> fst (m ! pos) = key then pos else length m)"

definition fm_erase_pos :: "('k, 'v) flat_map \<Rightarrow> nat \<Rightarrow> ('k, 'v) flat_map" where
  "fm_erase_pos m pos = take pos m @ drop (Suc pos) m"

definition fm_clear :: "('k, 'v) flat_map \<Rightarrow> ('k, 'v) flat_map" where
  "fm_clear m = []"

definition fm_erase_key ::
  "('k::linorder, 'v) flat_map \<Rightarrow> 'k \<Rightarrow> nat \<times> ('k, 'v) flat_map" where
  "fm_erase_key m key =
     (let pos = fm_find m key in
      if pos \<noteq> length m then (1, fm_erase_pos m pos) else (0, m))"

definition fm_size :: "('k, 'v) flat_map \<Rightarrow> nat" where
  "fm_size m = length m"

text \<open>\<open>operator[]\<close> returns a reference to the entry, inserting a default one at the sorted
  position when the key is absent. The reference is the position in the returned map.\<close>

definition fm_index ::
  "'v \<Rightarrow> ('k::linorder, 'v) flat_map \<Rightarrow> 'k \<Rightarrow> nat \<times> ('k, 'v) flat_map" where
  "fm_index dflt m key =
     (let pos = lower_bound m key in
      if pos \<noteq> length m \<and> fst (m ! pos) = key then (pos, m)
      else (pos, take pos m @ (key, dflt) # drop pos m))"

text \<open>The two ways the server uses the container: dereferencing the iterator returned by
  \<open>find\<close>, and assigning through the reference returned by \<open>operator[]\<close>.\<close>

definition fm_lookup :: "('k::linorder, 'v) flat_map \<Rightarrow> 'k \<Rightarrow> 'v option" where
  "fm_lookup m key =
     (let pos = fm_find m key in if pos \<noteq> length m then Some (snd (m ! pos)) else None)"

definition fm_assign ::
  "('k::linorder, 'v) flat_map \<Rightarrow> 'k \<Rightarrow> 'v \<Rightarrow> ('k, 'v) flat_map" where
  "fm_assign m key v = (case fm_index v m key of (pos, m') \<Rightarrow> m'[pos := (key, v)])"

definition fm_delete :: "('k::linorder, 'v) flat_map \<Rightarrow> 'k \<Rightarrow> ('k, 'v) flat_map" where
  "fm_delete m key = snd (fm_erase_key m key)"

definition fm_sorted :: "('k::linorder, 'v) flat_map \<Rightarrow> bool" where
  "fm_sorted m = sorted_wrt (<) (map fst m)"

section \<open>Binary search is the linear reference search\<close>

definition lower_bound_spec :: "('k::linorder, 'v) flat_map \<Rightarrow> 'k \<Rightarrow> nat" where
  "lower_bound_spec m key = length (takeWhile (\<lambda>e. fst e < key) m)"

lemma fm_sorted_nth:
  "fm_sorted m \<Longrightarrow> i < j \<Longrightarrow> j < length m \<Longrightarrow> fst (m ! i) < fst (m ! j)"
  unfolding fm_sorted_def using sorted_wrt_less_nth [of "map fst m" i j] by simp

lemma fm_sorted_Cons [simp]:
  "fm_sorted ((k, v) # m) \<longleftrightarrow> (\<forall>k' \<in> fst ` set m. k < k') \<and> fm_sorted m"
  by (auto simp: fm_sorted_def)

lemma fm_sorted_Nil [simp]: "fm_sorted []"
  by (simp add: fm_sorted_def)

lemma fm_sorted_distinct: "fm_sorted m \<Longrightarrow> distinct (map fst m)"
  by (simp add: fm_sorted_def strict_sorted_iff)

lemma lower_bound_spec_le: "lower_bound_spec m key \<le> length m"
  by (simp add: lower_bound_spec_def length_takeWhile_le)

lemma lower_bound_spec_less:
  "i < lower_bound_spec m key \<Longrightarrow> fst (m ! i) < key"
  unfolding lower_bound_spec_def using nth_in_takeWhile [of i "\<lambda>e. fst e < key" m] by simp

lemma lower_bound_spec_stop:
  "lower_bound_spec m key < length m \<Longrightarrow> \<not> fst (m ! lower_bound_spec m key) < key"
  unfolding lower_bound_spec_def by (rule nth_takeWhile_length)

lemma lower_bound_spec_ge:
  assumes "fm_sorted m" "lower_bound_spec m key \<le> i" "i < length m"
  shows "\<not> fst (m ! i) < key"
proof (cases "i = lower_bound_spec m key")
  case True
  with assms show ?thesis using lower_bound_spec_stop by blast
next
  case False
  with assms have "fst (m ! lower_bound_spec m key) < fst (m ! i)"
    by (intro fm_sorted_nth) auto
  moreover from assms have "\<not> fst (m ! lower_bound_spec m key) < key"
    by (intro lower_bound_spec_stop) auto
  ultimately show ?thesis by auto
qed

lemma lower_bound_loop_correct:
  assumes "fm_sorted m" "first + len \<le> length m"
    and "first \<le> lower_bound_spec m key" "lower_bound_spec m key \<le> first + len"
  shows "lower_bound_loop m key first len = lower_bound_spec m key"
  using assms
proof (induction m key first len rule: lower_bound_loop.induct)
  case (1 m key first len)
  let ?mid = "first + len div 2"
  show ?case
  proof (cases "len = 0")
    case True
    with 1 show ?thesis by (simp add: lower_bound_loop.simps)
  next
    case False
    then have mid: "?mid < length m" using 1 by linarith
    show ?thesis
    proof (cases "fst (m ! ?mid) < key")
      case True
      with mid 1(3) have "?mid < lower_bound_spec m key"
        using lower_bound_spec_ge by (meson not_le)
      with True False 1 show ?thesis
        by (subst lower_bound_loop.simps) (simp add: Let_def)
    next
      case less: False
      with lower_bound_spec_less have "lower_bound_spec m key \<le> ?mid"
        by (meson not_le)
      with less False 1 show ?thesis
        by (subst lower_bound_loop.simps) (simp add: Let_def)
    qed
  qed
qed

lemma lower_bound_correct:
  "fm_sorted m \<Longrightarrow> lower_bound m key = lower_bound_spec m key"
  unfolding lower_bound_def by (rule lower_bound_loop_correct) (auto simp: lower_bound_spec_le)

section \<open>Splitting a sorted map at a key\<close>

lemma lower_bound_split:
  assumes "fm_sorted m"
  shows "\<exists>l r. m = l @ r \<and> length l = lower_bound m key \<and> (\<forall>e \<in> set l. fst e < key)
           \<and> (\<forall>e \<in> set r. key \<le> fst e)"
proof -
  let ?l = "takeWhile (\<lambda>e. fst e < key) m" and ?r = "dropWhile (\<lambda>e. fst e < key) m"
  have "\<forall>e \<in> set ?r. key \<le> fst e"
  proof
    fix e assume "e \<in> set ?r"
    then obtain i where i: "i < length ?r" "e = ?r ! i" by (auto simp: in_set_conv_nth)
    then have "e = m ! (length ?l + i)" "length ?l + i < length m"
      by (simp_all add: dropWhile_eq_drop add.commute)
    with lower_bound_spec_ge [OF assms, of key "length ?l + i"] show "key \<le> fst e"
      by (simp add: lower_bound_spec_def not_less)
  qed
  moreover have "\<forall>e \<in> set ?l. fst e < key" by (auto dest: set_takeWhileD)
  ultimately show ?thesis
    using assms by (intro exI [of _ ?l] exI [of _ ?r])
      (simp add: lower_bound_correct lower_bound_spec_def)
qed

lemma fm_sorted_append:
  "fm_sorted (l @ r) \<longleftrightarrow>
     fm_sorted l \<and> fm_sorted r \<and> (\<forall>k \<in> fst ` set l. \<forall>k' \<in> fst ` set r. k < k')"
  by (auto simp: fm_sorted_def sorted_wrt_append)

lemma map_of_none_below: "(\<And>k' v'. (k', v') \<in> set l \<Longrightarrow> k' \<noteq> k) \<Longrightarrow> map_of l k = None"
  unfolding map_of_eq_None_iff by force

lemma fm_lookup_map_of:
  assumes "fm_sorted m"
  shows "fm_lookup m = map_of m"
proof
  fix key
  from lower_bound_split [OF assms, of key] obtain l r where
    m: "m = l @ r" and len: "lower_bound m key = length l"
    and below: "\<forall>e \<in> set l. fst e < key" and above: "\<forall>e \<in> set r. key \<le> fst e"
    by auto
  from below have l: "map_of l key = None" by (intro map_of_none_below) auto
  show "fm_lookup m key = map_of m key"
  proof (cases r)
    case Nil
    with m len l show ?thesis by (simp add: fm_lookup_def fm_find_def map_add_def)
  next
    case (Cons e r')
    obtain k v where e: "e = (k, v)" by fastforce
    show ?thesis
    proof (cases "k = key")
      case True
      with m len l e Cons show ?thesis by (simp add: fm_lookup_def fm_find_def map_add_def nth_append)
    next
      case False
      from assms m e Cons have "\<forall>k' \<in> fst ` set r'. k < k'"
        by (simp add: fm_sorted_append)
      moreover from above e Cons False have "key < k" by auto
      ultimately have "map_of r' key = None" by (intro map_of_none_below) force
      with m len l e Cons False show ?thesis
        by (simp add: fm_lookup_def fm_find_def map_add_def nth_append)
    qed
  qed
qed

lemma fm_assign_cases:
  assumes "fm_sorted m"
  shows "\<exists>l r. fm_assign m key v = l @ (key, v) # r \<and> (\<forall>e \<in> set l. fst e < key)
           \<and> (\<forall>e \<in> set r. key < fst e) \<and> (m = l @ r \<or> (\<exists>w. m = l @ (key, w) # r))"
proof -
  from lower_bound_split [OF assms, of key] obtain l r where
    m: "m = l @ r" and len: "lower_bound m key = length l"
    and below: "\<forall>e \<in> set l. fst e < key" and above: "\<forall>e \<in> set r. key \<le> fst e"
    by auto
  show ?thesis
  proof (cases "\<exists>w r'. r = (key, w) # r'")
    case True
    then obtain w r' where r: "r = (key, w) # r'" by blast
    with assms m have "\<forall>e \<in> set r'. key < fst e" by (auto simp: fm_sorted_append)
    with m len r below show ?thesis
      by (intro exI [of _ l] exI [of _ r'])
        (auto simp: fm_assign_def fm_index_def nth_append)
  next
    case False
    from above have above': "\<forall>e \<in> set r. key < fst e"
    proof (cases r)
      case (Cons e r')
      obtain k w where e: "e = (k, w)" by fastforce
      with False Cons have "k \<noteq> key" by auto
      with above e Cons have "key < k" by auto
      moreover from assms m Cons e have "\<forall>k' \<in> fst ` set r'. k < k'"
        by (simp add: fm_sorted_append)
      ultimately show ?thesis using Cons e by force
    qed simp
    have "\<not> (length l \<noteq> length m \<and> fst (m ! length l) = key)"
    proof (cases r)
      case (Cons e r')
      with above' have "key < fst e" by simp
      with Cons m show ?thesis by (auto simp: nth_append)
    qed (simp add: m)
    with m len below above' show ?thesis
      by (intro exI [of _ l] exI [of _ r]) (auto simp: fm_assign_def fm_index_def)
  qed
qed

lemma fm_sorted_assign: "fm_sorted m \<Longrightarrow> fm_sorted (fm_assign m key v)"
  using fm_assign_cases [of m key v] by (auto simp: fm_sorted_append)

lemma map_of_assign:
  assumes "fm_sorted m"
  shows "map_of (fm_assign m key v) = (map_of m)(key \<mapsto> v)"
proof -
  from fm_assign_cases [OF assms, of key v] obtain l r where
    eq: "fm_assign m key v = l @ (key, v) # r"
    and below: "\<forall>e \<in> set l. fst e < key" and above: "\<forall>e \<in> set r. key < fst e"
    and m: "m = l @ r \<or> (\<exists>w. m = l @ (key, w) # r)"
    by blast
  from below have "map_of l key = None" by (intro map_of_none_below) auto
  with m show ?thesis by (auto simp: eq map_add_def fun_eq_iff split: option.splits)
qed

lemma fm_delete_filter:
  assumes "fm_sorted m"
  shows "fm_delete m key = filter (\<lambda>e. fst e \<noteq> key) m"
proof -
  from lower_bound_split [OF assms, of key] obtain l r where
    m: "m = l @ r" and len: "lower_bound m key = length l"
    and below: "\<forall>e \<in> set l. fst e < key" and above: "\<forall>e \<in> set r. key \<le> fst e"
    by auto
  have l: "filter (\<lambda>e. fst e \<noteq> key) l = l" using below by (intro filter_True) auto
  show ?thesis
  proof (cases "\<exists>w r'. r = (key, w) # r'")
    case True
    then obtain w r' where r: "r = (key, w) # r'" by blast
    with assms m have "filter (\<lambda>e. fst e \<noteq> key) r' = r'"
      by (intro filter_True) (auto simp: fm_sorted_append)
    with m len r l show ?thesis
      by (simp add: fm_delete_def fm_erase_key_def fm_find_def fm_erase_pos_def nth_append)
  next
    case False
    have hd_ne: "\<not> (length l \<noteq> length m \<and> fst (m ! length l) = key)"
    proof (cases r)
      case (Cons e r')
      with False show ?thesis by (cases e) (auto simp: m nth_append)
    qed (simp add: m)
    have "key \<notin> fst ` set r"
    proof (cases r)
      case (Cons e r')
      obtain k w where e: "e = (k, w)" by fastforce
      with False Cons above have "key < k" by auto
      moreover from assms m Cons e have "\<forall>k' \<in> fst ` set r'. k < k'"
        by (simp add: fm_sorted_append)
      ultimately show ?thesis using Cons e by force
    qed simp
    then have "filter (\<lambda>e. fst e \<noteq> key) r = r" by (intro filter_True) auto
    with m len l hd_ne show ?thesis
      by (auto simp: fm_delete_def fm_erase_key_def fm_find_def Let_def)
  qed
qed

lemma fm_sorted_delete: "fm_sorted m \<Longrightarrow> fm_sorted (fm_delete m key)"
  by (simp add: fm_delete_filter fm_sorted_def sorted_wrt_map sorted_wrt_filter)

lemma map_of_filter_key:
  "map_of (filter (\<lambda>e. fst e \<noteq> key) m) = (map_of m)(key := None)"
  by (induction m) (auto simp: fun_eq_iff)

section \<open>The container contract\<close>

locale ordered_map =
  fixes lookup :: "'m \<Rightarrow> 'k::linorder \<Rightarrow> 'v option"
    and assign :: "'m \<Rightarrow> 'k \<Rightarrow> 'v \<Rightarrow> 'm"
    and delete :: "'m \<Rightarrow> 'k \<Rightarrow> 'm"
    and entries :: "'m \<Rightarrow> ('k \<times> 'v) list"
    and invar :: "'m \<Rightarrow> bool"
    and empty :: "'m"
  assumes invar_empty: "invar empty"
    and entries_empty: "entries empty = []"
    and invar_assign: "invar m \<Longrightarrow> invar (assign m k v)"
    and invar_delete: "invar m \<Longrightarrow> invar (delete m k)"
    and lookup_assign: "invar m \<Longrightarrow> lookup (assign m k v) = (lookup m)(k \<mapsto> v)"
    and lookup_delete: "invar m \<Longrightarrow> lookup (delete m k) = (lookup m)(k := None)"
    and lookup_entries: "invar m \<Longrightarrow> lookup m = map_of (entries m)"
    and entries_sorted: "invar m \<Longrightarrow> sorted_wrt (<) (map fst (entries m))"
begin

lemma lookup_empty: "lookup empty = Map.empty"
  by (simp add: lookup_entries invar_empty entries_empty)

lemma entries_distinct: "invar m \<Longrightarrow> distinct (map fst (entries m))"
  using entries_sorted by (simp add: strict_sorted_iff)

lemma in_entries_iff: "invar m \<Longrightarrow> (k, v) \<in> set (entries m) \<longleftrightarrow> lookup m k = Some v"
  by (simp add: lookup_entries entries_distinct)

lemma dom_lookup: "invar m \<Longrightarrow> dom (lookup m) = fst ` set (entries m)"
  by (simp add: lookup_entries dom_map_of_conv_image_fst)

text \<open>The iteration order is determined by the content: two maps with the same lookups
  are iterated identically.\<close>

lemma entries_unique:
  assumes "invar m" "invar m'" "lookup m = lookup m'"
  shows "entries m = entries m'"
proof (rule alist_eqI)
  show "map fst (entries m) = map fst (entries m')"
    using assms dom_lookup [OF assms(1)] dom_lookup [OF assms(2)]
    by (intro strict_sorted_equal) (simp_all add: entries_sorted)
  show "distinct (map fst (entries m'))" using assms(2) by (rule entries_distinct)
  show "map_of (entries m) = map_of (entries m')" using assms by (simp add: lookup_entries)
qed

definition build :: "('k \<times> 'v) list \<Rightarrow> 'm \<Rightarrow> 'm" where
  "build kvs m = fold (\<lambda>(k, v) m. assign m k v) kvs m"

lemma invar_build: "invar m \<Longrightarrow> invar (build kvs m)"
  unfolding build_def by (induction kvs arbitrary: m) (auto simp: invar_assign)

lemma lookup_build:
  "invar m \<Longrightarrow> distinct (map fst kvs) \<Longrightarrow>
   lookup (build kvs m) k = (case map_of kvs k of None \<Rightarrow> lookup m k | Some v \<Rightarrow> Some v)"
proof (induction kvs arbitrary: m)
  case Nil
  then show ?case by (simp add: build_def)
next
  case (Cons kv kvs)
  obtain k' v where kv: "kv = (k', v)" by fastforce
  with Cons.prems have "map_of kvs k' = None"
    unfolding map_of_eq_None_iff by force
  moreover have "build (kv # kvs) m = build kvs (assign m k' v)" by (simp add: build_def kv)
  ultimately show ?case
    using Cons kv by (auto simp: invar_assign lookup_assign split: option.splits)
qed

text \<open>Inserting an already sorted sequence of entries one by one gives exactly that
  sequence back, which is how the map objects are rebuilt from the database file.\<close>

lemma entries_build_sorted:
  assumes "sorted_wrt (<) (map fst kvs)"
  shows "entries (build kvs empty) = kvs"
proof -
  from assms have dist: "distinct (map fst kvs)" by (simp add: strict_sorted_iff)
  let ?m = "build kvs empty"
  have inv: "invar ?m" by (simp add: invar_build invar_empty)
  have eq: "map_of (entries ?m) = map_of kvs"
    using lookup_build [OF invar_empty dist] inv
    by (auto simp: lookup_empty lookup_entries fun_eq_iff split: option.splits)
  show ?thesis
  proof (rule alist_eqI [OF _ dist eq], rule strict_sorted_equal)
    show "sorted_wrt (<) (map fst (entries ?m))" using inv by (rule entries_sorted)
    show "sorted_wrt (<) (map fst kvs)" by (rule assms)
    show "set (map fst (entries ?m)) = set (map fst kvs)"
      using eq by (metis dom_map_of_conv_image_fst list.set_map)
  qed
qed

end

interpretation sfm: ordered_map fm_lookup fm_assign fm_delete "\<lambda>m. m" fm_sorted "[]"
proof unfold_locales
  fix m :: "('a::linorder, 'b) flat_map" and k v
  assume inv: "fm_sorted m"
  show "fm_sorted (fm_assign m k v)" using inv by (rule fm_sorted_assign)
  show "fm_sorted (fm_delete m k)" using inv by (rule fm_sorted_delete)
  show "fm_lookup (fm_assign m k v) = (fm_lookup m)(k \<mapsto> v)"
    using inv by (simp add: fm_lookup_map_of fm_sorted_assign map_of_assign)
  show "fm_lookup (fm_delete m k) = (fm_lookup m)(k := None)"
    using inv fm_lookup_map_of [OF fm_sorted_delete [OF inv, of k]]
    by (simp add: fm_lookup_map_of fm_delete_filter map_of_filter_key)
  show "fm_lookup m = map_of m" using inv by (rule fm_lookup_map_of)
  show "sorted_wrt (<) (map fst m)" using inv by (simp add: fm_sorted_def)
qed simp_all

lemmas fm_laws [fm_simps] = sfm.lookup_assign sfm.lookup_delete sfm.invar_assign sfm.invar_delete

end
