(* ===== verification/File_Format.thy ===== *)
theory File_Format
  imports Config Sorted_Flat_Map
begin

text \<open>
  The database file structures of ServerLib/include/server/File.hpp and File.cpp: block
  references, the range-compressed tables that snapshots, segments and clusters are stored
  as, the file header and the free list block. Integers are little endian as on the only
  supported platform. A buffer is a byte list that is written in place; the write buffer is
  reused between blocks, so bytes that are not overwritten keep their old content.
\<close>

section \<open>Integers as bytes\<close>

fun nat_bytes :: "nat \<Rightarrow> nat \<Rightarrow> byte list" where
  "nat_bytes 0 n = []"
| "nat_bytes (Suc k) n = of_nat (n mod 256) # nat_bytes k (n div 256)"

fun bytes_nat :: "byte list \<Rightarrow> nat" where
  "bytes_nat [] = 0"
| "bytes_nat (b # bs) = unat b + 256 * bytes_nat bs"

definition u32_bytes :: "uint32_t \<Rightarrow> byte list" where
  "u32_bytes w = nat_bytes 4 (unat w)"

definition u64_bytes :: "uint64_t \<Rightarrow> byte list" where
  "u64_bytes w = nat_bytes 8 (unat w)"

definition u32_of :: "byte list \<Rightarrow> uint32_t" where
  "u32_of bs = of_nat (bytes_nat bs)"

definition u64_of :: "byte list \<Rightarrow> uint64_t" where
  "u64_of bs = of_nat (bytes_nat bs)"

lemma length_nat_bytes [codec_simps]: "length (nat_bytes k n) = k"
  by (induction k arbitrary: n) auto

lemma unat_byte_mod: "unat (of_nat (n mod 256) :: byte) = n mod 256"
  by (simp add: unat_of_nat)

lemma bytes_nat_bytes: "bytes_nat (nat_bytes k n) = n mod 256 ^ k"
proof (induction k arbitrary: n)
  case 0
  then show ?case by simp
next
  case (Suc k)
  have "n mod 256 ^ Suc k = n mod 256 + 256 * (n div 256 mod 256 ^ k)"
    by (simp add: mod_mult2_eq)
  with Suc show ?case by (simp add: unat_byte_mod)
qed

lemma u32_roundtrip [codec_simps]: "u32_of (u32_bytes w) = w"
  using unsigned_less [of w, where ?'a = nat] by (simp add: u32_of_def u32_bytes_def bytes_nat_bytes)

lemma u64_roundtrip [codec_simps]: "u64_of (u64_bytes w) = w"
  using unsigned_less [of w, where ?'a = nat] by (simp add: u64_of_def u64_bytes_def bytes_nat_bytes)

lemma length_u32_bytes [codec_simps]: "length (u32_bytes w) = 4"
  by (simp add: u32_bytes_def length_nat_bytes)

lemma length_u64_bytes [codec_simps]: "length (u64_bytes w) = 8"
  by (simp add: u64_bytes_def length_nat_bytes)

lemma unat_of_nat_id:
  "n < 2 ^ LENGTH('a) \<Longrightarrow> unat (of_nat n :: 'a::len word) = n"
  by (simp add: unat_of_nat)

section \<open>Block references\<close>

record BlockReference =
  ref_offset :: uint64_t
  ref_size :: uint64_t

definition BlockReference_EndOffset :: "BlockReference \<Rightarrow> uint64_t" where
  "BlockReference_EndOffset r = ref_offset r + ref_size r"

definition ref_bytes :: "BlockReference \<Rightarrow> byte list" where
  "ref_bytes r = u64_bytes (ref_offset r) @ u64_bytes (ref_size r)"

definition ref_of :: "byte list \<Rightarrow> BlockReference" where
  "ref_of bs = \<lparr>ref_offset = u64_of (take 8 bs), ref_size = u64_of (take 8 (drop 8 bs))\<rparr>"

lemma length_ref_bytes [codec_simps]: "length (ref_bytes r) = 16"
  by (simp add: ref_bytes_def codec_simps)

lemma ref_roundtrip [codec_simps]: "ref_of (ref_bytes r) = r"
  by (simp add: ref_of_def ref_bytes_def codec_simps)

section \<open>Buffers\<close>

definition resize :: "byte list \<Rightarrow> nat \<Rightarrow> byte list" where
  "resize buf n = take n buf @ replicate (n - length buf) 0"

definition put :: "nat \<Rightarrow> byte list \<Rightarrow> byte list \<Rightarrow> byte list" where
  "put pos bs buf = take pos buf @ bs @ drop (pos + length bs) buf"

definition get :: "nat \<Rightarrow> nat \<Rightarrow> byte list \<Rightarrow> byte list" where
  "get pos n buf = take n (drop pos buf)"

lemma length_resize [codec_simps]: "length (resize buf n) = n"
  by (simp add: resize_def)

lemma length_put [codec_simps]:
  "pos + length bs \<le> length buf \<Longrightarrow> length (put pos bs buf) = length buf"
  by (simp add: put_def)

lemma get_put_same:
  "pos + length bs \<le> length buf \<Longrightarrow> n = length bs \<Longrightarrow> get pos n (put pos bs buf) = bs"
  by (simp add: get_def put_def)

lemma get_put_before:
  "pos' + n \<le> pos \<Longrightarrow> pos \<le> length buf \<Longrightarrow> get pos' n (put pos bs buf) = get pos' n buf"
  by (simp add: get_def put_def take_drop min_def)

lemma get_put_after:
  "pos + length bs \<le> pos' \<Longrightarrow> pos + length bs \<le> length buf \<Longrightarrow>
   get pos' n (put pos bs buf) = get pos' n buf"
  by (simp add: get_def put_def)

lemma put_append:
  "pos + length bs + length cs \<le> length buf \<Longrightarrow>
   put (pos + length bs) cs (put pos bs buf) = put pos (bs @ cs) buf"
  by (simp add: put_def ac_simps)

lemma put_Nil [simp]: "put pos [] buf = buf"
  by (simp add: put_def)

lemma put_swap:
  "pos + length bs \<le> pos' \<Longrightarrow> pos' + length cs \<le> length buf \<Longrightarrow>
   put pos bs (put pos' cs buf) = put pos' cs (put pos bs buf)"
proof (cases "bs = []")
  case False
  assume "pos + length bs \<le> pos'" "pos' + length cs \<le> length buf"
  moreover from this False have "pos < pos'" by (cases bs) auto
  ultimately show ?thesis by (auto simp: put_def min_def take_drop)
qed simp

lemma get_split:
  "get pos (m + n) buf = get pos m buf @ get (pos + m) n buf"
  by (simp add: get_def take_add add.commute)

section \<open>Range-compressed tables\<close>

text \<open>\<open>write_run\<close> is the inner loop of the three \<open>SerializeIntoBuffer\<close> methods that stores the
  references of one contiguous run of ids, \<open>write_ranges\<close> the outer one. Advancing the range
  iterator reads the ids just stored.\<close>

type_synonym table = "(uint32_t \<times> BlockReference) list"

fun write_run :: "uint32_t \<Rightarrow> table \<Rightarrow> nat \<Rightarrow> byte list \<Rightarrow> uint32_t \<times> table \<times> byte list" where
  "write_run endId [] writePos buf = (endId, [], buf)"
| "write_run endId ((k, r) # rest) writePos buf =
     (if k = endId + 1
      then write_run (endId + 1) rest (writePos + 16) (put writePos (ref_bytes r) buf)
      else (endId, (k, r) # rest, buf))"

lemma write_run_shrinks: "length (fst (snd (write_run e xs p b))) \<le> length xs"
  by (induction e xs p b rule: write_run.induct) auto

definition range_advance :: "nat \<Rightarrow> uint32_t \<Rightarrow> uint32_t \<Rightarrow> nat" where
  "range_advance pos startId endId = pos + 8 + 16 * unat (endId - startId)"

function write_ranges :: "table \<Rightarrow> nat \<Rightarrow> byte list \<Rightarrow> nat \<times> byte list" where
  "write_ranges [] rangePos buf = (rangePos, buf)"
| "write_ranges ((startId, r) # rest) rangePos buf =
     (let buf1 = put (rangePos + 8) (ref_bytes r) buf;
          run = write_run startId rest (rangePos + 24) buf1;
          endId = fst run + 1;
          buf2 = put rangePos (u32_bytes startId) (snd (snd run));
          buf3 = put (rangePos + 4) (u32_bytes endId) buf2
      in write_ranges (fst (snd run)) (range_advance rangePos startId endId) buf3)"
  by pat_completeness auto
termination
  by (relation "measure (\<lambda>(xs, p, b). length xs)")
    (auto simp: le_imp_less_Suc write_run_shrinks)

text \<open>The size computation counts the contiguous id ranges.\<close>

fun contiguousBlocks :: "uint32_t option \<Rightarrow> (uint32_t \<times> 'v) list \<Rightarrow> nat" where
  "contiguousBlocks lastId [] = 0"
| "contiguousBlocks lastId ((k, v) # rest) =
     (if lastId = None \<or> k \<noteq> the lastId + 1 then 1 else 0) + contiguousBlocks (Some k) rest"

definition table_required_size :: "(uint32_t \<times> 'v) list \<Rightarrow> nat" where
  "table_required_size m = 16 + 8 * contiguousBlocks None m + 16 * length m"

text \<open>Reading the ranges back: the iterator runs until it hits the end of the block exactly.
  A range that leaves the block is an out-of-bounds access, the value \<open>None\<close>.\<close>

function read_ranges :: "nat \<Rightarrow> byte list \<Rightarrow> table option" where
  "read_ranges pos buf =
     (if pos = length buf then Some []
      else if length buf < pos + 8 then None
      else let startId = u32_of (get pos 4 buf); endId = u32_of (get (pos + 4) 4 buf);
               pos' = range_advance pos startId endId
           in if length buf < pos' then None
              else map_option
                     (\<lambda>rest. map (\<lambda>i. (startId + of_nat i, ref_of (get (pos + 8 + 16 * i) 16 buf)))
                               [0..<unat (endId - startId)] @ rest)
                     (read_ranges pos' buf))"
  by pat_completeness auto
termination
  by (relation "measure (\<lambda>(pos, buf). length buf - pos)") (auto simp: range_advance_def)

declare read_ranges.simps [simp del]

text \<open>Reference: the same table as a concatenation of encoded ranges.\<close>

fun split_run :: "uint32_t \<Rightarrow> table \<Rightarrow> BlockReference list \<times> table" where
  "split_run e [] = ([], [])"
| "split_run e ((k, r) # rest) =
     (if k = e + 1 then (case split_run (e + 1) rest of (rs, xs) \<Rightarrow> (r # rs, xs))
      else ([], (k, r) # rest))"

lemma split_run_shrinks: "length (snd (split_run e xs)) \<le> length xs"
  by (induction e xs rule: split_run.induct) (auto split: prod.splits)

function encode_ranges :: "table \<Rightarrow> byte list" where
  "encode_ranges [] = []"
| "encode_ranges ((startId, r) # rest) =
     (let run = split_run startId rest in
      u32_bytes startId @ u32_bytes (startId + of_nat (length (fst run)) + 1)
      @ concat (map ref_bytes (r # fst run)) @ encode_ranges (snd run))"
  by pat_completeness auto
termination
  by (relation "measure length") (auto simp: le_imp_less_Suc split_run_shrinks)

lemma length_concat_refs [codec_simps]: "length (concat (map ref_bytes rs)) = 16 * length rs"
  by (induction rs) (auto simp: codec_simps)

lemma split_run_length:
  "split_run e xs = (rs, ys) \<Longrightarrow> length xs = length rs + length ys"
  by (induction e xs arbitrary: rs ys rule: split_run.induct) (auto split: prod.splits if_splits)

lemma write_run_split:
  assumes "split_run e xs = (rs, ys)" "pos + 16 * length rs \<le> length buf"
  shows "write_run e xs pos buf
           = (e + of_nat (length rs), ys, put pos (concat (map ref_bytes rs)) buf)"
  using assms
proof (induction e xs pos buf arbitrary: rs rule: write_run.induct)
  case (1 e pos buf)
  then show ?case by simp
next
  case (2 e k r rest pos buf)
  show ?case
  proof (cases "k = e + 1")
    case True
    with "2.prems" obtain rs' where rs: "rs = r # rs'" "split_run (e + 1) rest = (rs', ys)"
      by (auto split: prod.splits)
    with "2.prems" have len: "pos + 16 + 16 * length rs' \<le> length buf" by simp
    have "write_run (e + 1) rest (pos + 16) (put pos (ref_bytes r) buf)
        = (e + 1 + of_nat (length rs'), ys,
           put (pos + 16) (concat (map ref_bytes rs')) (put pos (ref_bytes r) buf))"
      using True rs len by (intro "2.IH") (auto simp: codec_simps)
    moreover have "put (pos + 16) (concat (map ref_bytes rs')) (put pos (ref_bytes r) buf)
        = put pos (concat (map ref_bytes rs)) buf"
      using put_append [of pos "ref_bytes r" "concat (map ref_bytes rs')" buf] len rs
      by (simp add: codec_simps)
    ultimately show ?thesis using True rs by (simp add: ac_simps)
  next
    case False
    with "2.prems" show ?thesis by auto
  qed
qed

text \<open>Writing ids after the references or before them gives the same buffer.\<close>

lemma put_range:
  assumes "pos + 8 + length refs \<le> length buf" "length a = 4" "length b = 4"
  shows "put (pos + 4) b (put pos a (put (pos + 8) refs buf)) = put pos (a @ b @ refs) buf"
proof -
  have "put pos a (put (pos + 8) refs buf) = put (pos + 8) refs (put pos a buf)"
    using assms by (intro put_swap) auto
  then have "put (pos + 4) b (put pos a (put (pos + 8) refs buf))
      = put (pos + 4) b (put (pos + 8) refs (put pos a buf))" by simp
  also have "\<dots> = put (pos + 8) refs (put (pos + 4) b (put pos a buf))"
    using assms by (intro put_swap) (auto simp: length_put)
  also have "put (pos + 4) b (put pos a buf) = put pos (a @ b) buf"
    using put_append [of pos a b buf] assms by simp
  also have "put (pos + 8) refs (put pos (a @ b) buf) = put pos (a @ b @ refs) buf"
    using put_append [of pos "a @ b" refs buf] assms by simp
  finally show ?thesis .
qed

lemma write_ranges_encode:
  assumes "pos + length (encode_ranges xs) \<le> length buf" "length xs < 2 ^ 32"
  shows "write_ranges xs pos buf = (pos + length (encode_ranges xs), put pos (encode_ranges xs) buf)"
  using assms
proof (induction xs arbitrary: pos buf rule: encode_ranges.induct)
  case 1
  then show ?case by simp
next
  case (2 startId r rest)
  obtain rs ys where run: "split_run startId rest = (rs, ys)" by fastforce
  let ?refs = "concat (map ref_bytes (r # rs))"
  let ?stop = "startId + of_nat (length rs) + 1"
  let ?hd = "u32_bytes startId @ u32_bytes ?stop @ ?refs"
  have n: "length rs + 1 < 2 ^ 32" using "2.prems"(2) split_run_length [OF run] by simp
  have enc: "encode_ranges ((startId, r) # rest) = ?hd @ encode_ranges ys"
    using run by (simp add: Let_def)
  have space: "pos + 8 + 16 * (length rs + 1) + length (encode_ranges ys) \<le> length buf"
    using "2.prems"(1) unfolding enc by (simp add: codec_simps)
  have "write_run startId rest (pos + 24) (put (pos + 8) (ref_bytes r) buf)
      = (startId + of_nat (length rs), ys,
         put (pos + 24) (concat (map ref_bytes rs)) (put (pos + 8) (ref_bytes r) buf))"
    using run space by (intro write_run_split) (auto simp: codec_simps)
  also have "put (pos + 24) (concat (map ref_bytes rs)) (put (pos + 8) (ref_bytes r) buf)
      = put (pos + 8) ?refs buf"
    using put_append [of "pos + 8" "ref_bytes r" "concat (map ref_bytes rs)" buf] space
    by (simp add: codec_simps add.commute)
  finally have wr: "write_run startId rest (pos + 24) (put (pos + 8) (ref_bytes r) buf)
      = (startId + of_nat (length rs), ys, put (pos + 8) ?refs buf)" .
  have "unat (of_nat (length rs + 1) :: uint32_t) = length rs + 1"
    using n by (intro unat_of_nat_id) simp
  then have adv: "range_advance pos startId ?stop = pos + length ?hd"
    by (simp add: range_advance_def codec_simps add.commute)
  have buf: "put (pos + 4) (u32_bytes ?stop) (put pos (u32_bytes startId) (put (pos + 8) ?refs buf))
      = put pos ?hd buf"
    using space by (intro put_range) (auto simp: codec_simps)
  have "write_ranges ((startId, r) # rest) pos buf
      = write_ranges ys (pos + length ?hd) (put pos ?hd buf)"
    by (simp only: write_ranges.simps wr fst_conv snd_conv Let_def adv buf)
  also have "\<dots> = (pos + length ?hd + length (encode_ranges ys),
                   put (pos + length ?hd) (encode_ranges ys) (put pos ?hd buf))"
    using run space "2.prems"(2) split_run_length [OF run]
      "2.IH" [of "(rs, ys)" "pos + length ?hd" "put pos ?hd buf"]
    by (simp add: codec_simps)
  also have "put (pos + length ?hd) (encode_ranges ys) (put pos ?hd buf)
      = put pos (?hd @ encode_ranges ys) buf"
    using space by (intro put_append) (simp add: codec_simps)
  finally show ?case unfolding enc by simp
qed

section \<open>Reading a table back\<close>

lemma split_run_entries:
  "split_run e xs = (rs, ys) \<Longrightarrow>
   xs = map (\<lambda>i. (e + 1 + of_nat i, rs ! i)) [0..<length rs] @ ys"
proof (induction e xs arbitrary: rs rule: split_run.induct)
  case (1 e)
  then show ?case by simp
next
  case (2 e k r rest)
  show ?case
  proof (cases "k = e + 1")
    case True
    with "2.prems" obtain rs' where rs: "rs = r # rs'" "split_run (e + 1) rest = (rs', ys)"
      by (auto split: prod.splits)
    from "2.IH" [OF True rs(2)] show ?thesis
      using True rs by (simp add: upt_conv_Cons map_Suc_upt [symmetric] comp_def ac_simps
          del: upt_Suc)
  next
    case False
    with "2.prems" show ?thesis by auto
  qed
qed

lemma get_refs:
  "i < length rs \<Longrightarrow> get (length pre + 16 * i) 16 (pre @ concat (map ref_bytes rs) @ post) = ref_bytes (rs ! i)"
proof (induction rs arbitrary: i pre)
  case Nil
  then show ?case by simp
next
  case (Cons r rs)
  show ?case
  proof (cases i)
    case 0
    then show ?thesis by (simp add: get_def codec_simps)
  next
    case (Suc j)
    with Cons.IH [of j "pre @ ref_bytes r"] Cons.prems show ?thesis
      by (simp add: codec_simps add.assoc)
  qed
qed

lemma read_ranges_encode:
  "length xs < 2 ^ 32 \<Longrightarrow> read_ranges (length pre) (pre @ encode_ranges xs) = Some xs"
proof (induction xs arbitrary: pre rule: encode_ranges.induct)
  case 1
  then show ?case by (simp add: read_ranges.simps)
next
  case (2 startId r rest)
  obtain rs ys where run: "split_run startId rest = (rs, ys)" by fastforce
  let ?refs = "concat (map ref_bytes (r # rs))"
  let ?stop = "startId + of_nat (length rs) + 1"
  let ?hd = "u32_bytes startId @ u32_bytes ?stop @ ?refs"
  let ?buf = "pre @ encode_ranges ((startId, r) # rest)"
  have enc: "?buf = pre @ ?hd @ encode_ranges ys" using run by (simp add: Let_def)
  have n: "unat (of_nat (length rs + 1) :: uint32_t) = length rs + 1"
    using "2.prems" split_run_length [OF run] by (intro unat_of_nat_id) simp
  then have cnt: "unat (?stop - startId) = length rs + 1" by (simp add: add.commute)
  have ids: "u32_of (get (length pre) 4 ?buf) = startId" "u32_of (get (length pre + 4) 4 ?buf) = ?stop"
    unfolding enc by (simp_all add: get_def codec_simps)
  have adv: "range_advance (length pre) startId ?stop = length (pre @ ?hd)"
    unfolding range_advance_def cnt by (simp add: codec_simps)
  have tail: "read_ranges (length (pre @ ?hd)) ?buf = Some ys"
    using "2.IH" [of "(rs, ys)" "pre @ ?hd"] run "2.prems" split_run_length [OF run]
    by (simp add: enc)
  have refs: "ref_of (get (length pre + 8 + 16 * i) 16 ?buf) = (r # rs) ! i" if "i < length rs + 1" for i
    using get_refs [of i "r # rs" "pre @ u32_bytes startId @ u32_bytes ?stop" "encode_ranges ys"] that
    by (simp add: Let_def run codec_simps add.assoc)
  have "map (\<lambda>i. (startId + of_nat i, ref_of (get (length pre + 8 + 16 * i) 16 ?buf))) [0..<length rs + 1]
      = map (\<lambda>i. (startId + of_nat i, (r # rs) ! i)) [0..<length rs + 1]"
    by (intro map_cong refl) (simp only: refs set_upt atLeastLessThan_iff)
  also have "\<dots> @ ys = (startId, r) # rest"
    using split_run_entries [OF run]
    by (simp add: upt_conv_Cons map_Suc_upt [symmetric] comp_def ac_simps del: upt_Suc)
  finally have entries: "map (\<lambda>i. (startId + of_nat i, ref_of (get (length pre + 8 + 16 * i) 16 ?buf)))
      [0..<length rs + 1] @ ys = (startId, r) # rest" .
  have long: "length pre + 8 \<le> length ?buf" "length (pre @ ?hd) \<le> length ?buf" "length pre \<noteq> length ?buf"
    unfolding enc by (simp_all add: codec_simps)
  show ?case
    by (subst read_ranges.simps)
      (use long in \<open>simp only: ids adv cnt tail entries Let_def if_False not_less not_le
         linorder_not_less option.map simp_thms\<close>, simp add: entries)
qed

section \<open>The size computation matches the encoding\<close>

lemma contiguousBlocks_split:
  "split_run e xs = (rs, ys) \<Longrightarrow> contiguousBlocks (Some e) xs = contiguousBlocks None ys"
proof (induction e xs arbitrary: rs rule: split_run.induct)
  case (2 e k r rest)
  then show ?case by (auto split: prod.splits if_splits)
qed auto

lemma length_encode_ranges:
  "length (encode_ranges xs) = 8 * contiguousBlocks None xs + 16 * length xs"
proof (induction xs rule: encode_ranges.induct)
  case (2 startId r rest)
  obtain rs ys where run: "split_run startId rest = (rs, ys)" by fastforce
  from "2.IH" [of "(rs, ys)"] run show ?case
    by (simp add: Let_def codec_simps contiguousBlocks_split split_run_length)
qed simp

section \<open>Table blocks: snapshot, segment and cluster\<close>

text \<open>The three structures share one layout: commit id, next free child id, own id (padding in
  the snapshot, which has none) and the ranges. Both assertions of the source are results.\<close>

definition serialize_table ::
  "commit_id \<Rightarrow> uint32_t \<Rightarrow> uint32_t option \<Rightarrow> table \<Rightarrow> nat \<Rightarrow> byte list \<Rightarrow> byte list option" where
  "serialize_table commitId nextFreeId ownId entries blockSize targetBuffer =
     (if table_required_size entries \<noteq> blockSize then None
      else let b0 = resize targetBuffer blockSize;
               b1 = put 0 (u64_bytes commitId) b0;
               b2 = put 8 (u32_bytes nextFreeId) b1;
               b3 = (case ownId of None \<Rightarrow> b2 | Some i \<Rightarrow> put 12 (u32_bytes i) b2);
               res = write_ranges entries 16 b3
           in if fst res = blockSize then Some (snd res) else None)"

definition load_table :: "byte list \<Rightarrow> (commit_id \<times> uint32_t \<times> table) option" where
  "load_table buf =
     (if length buf < 16 then None
      else map_option (\<lambda>entries. (u64_of (get 0 8 buf), u32_of (get 8 4 buf), entries))
             (read_ranges 16 buf))"

lemma serialize_table_roundtrip:
  assumes "length entries < 2 ^ 32" "blockSize = table_required_size entries"
  shows "\<exists>buf. serialize_table commitId nextFreeId ownId entries blockSize old = Some buf
           \<and> length buf = blockSize \<and> load_table buf = Some (commitId, nextFreeId, entries)"
proof -
  let ?b2 = "put 8 (u32_bytes nextFreeId) (put 0 (u64_bytes commitId) (resize old blockSize))"
  define b3 where "b3 = (case ownId of None \<Rightarrow> ?b2 | Some i \<Rightarrow> put 12 (u32_bytes i) ?b2)"
  have size: "blockSize = 16 + length (encode_ranges entries)"
    using assms(2) by (simp add: table_required_size_def length_encode_ranges)
  have b2: "length ?b2 = blockSize" using size by (simp add: codec_simps)
  then have len: "length b3 = blockSize"
    using size by (auto simp: b3_def codec_simps split: option.splits)
  have wr: "write_ranges entries 16 b3 = (blockSize, put 16 (encode_ranges entries) b3)"
    using assms(1) len size by (simp add: write_ranges_encode)
  define buf where "buf = put 16 (encode_ranges entries) b3"
  have "serialize_table commitId nextFreeId ownId entries blockSize old = Some buf"
    using wr assms(2) [symmetric] by (simp add: serialize_table_def Let_def b3_def buf_def)
  moreover have buf_len: "length buf = blockSize" using len size by (simp add: buf_def codec_simps)
  moreover have "read_ranges 16 buf = Some entries"
  proof -
    have "buf = take 16 b3 @ encode_ranges entries" using len size by (simp add: buf_def put_def)
    moreover have "length (take 16 b3) = 16" using len size by simp
    ultimately show ?thesis using read_ranges_encode [OF assms(1), of "take 16 b3"] by simp
  qed
  moreover have "get 0 8 b3 = u64_bytes commitId" "get 8 4 b3 = u32_bytes nextFreeId"
    using size b2 by (auto simp: b3_def codec_simps get_put_before get_put_same split: option.splits)
  then have "get 0 8 buf = u64_bytes commitId" "get 8 4 buf = u32_bytes nextFreeId"
    using len size by (simp_all add: buf_def get_put_before)
  ultimately show ?thesis using size by (simp add: load_table_def codec_simps)
qed

section \<open>Blob and free list blocks\<close>

definition serialize_blob :: "commit_id \<Rightarrow> byte list \<Rightarrow> nat \<Rightarrow> byte list \<Rightarrow> byte list option" where
  "serialize_blob commitId blobData blockSize targetBuffer =
     (if 8 + length blobData \<noteq> blockSize then None
      else Some (put 8 blobData (put 0 (u64_bytes commitId) (resize targetBuffer blockSize))))"

definition load_blob :: "byte list \<Rightarrow> (commit_id \<times> byte list) option" where
  "load_blob buf = (if length buf < 8 then None else Some (u64_of (get 0 8 buf), drop 8 buf))"

lemma serialize_blob_roundtrip:
  assumes "blockSize = 8 + length blobData"
  shows "\<exists>buf. serialize_blob commitId blobData blockSize old = Some buf
           \<and> length buf = blockSize \<and> load_blob buf = Some (commitId, blobData)"
  using assms by (auto simp: serialize_blob_def load_blob_def codec_simps get_put_before get_put_same)
    (simp add: put_def codec_simps)

definition serialize_free_list :: "uint64_t \<Rightarrow> BlockReference list \<Rightarrow> nat \<Rightarrow> byte list \<Rightarrow> byte list option" where
  "serialize_free_list endOffset freeBlocks blockSize targetBuffer =
     (if blockSize < 16 + 16 * length freeBlocks then None
      else Some (put 16 (concat (map ref_bytes freeBlocks))
                  (put 8 (u64_bytes (of_nat (length freeBlocks)))
                    (put 0 (u64_bytes endOffset) (resize targetBuffer blockSize)))))"

definition load_free_list :: "byte list \<Rightarrow> (uint64_t \<times> BlockReference list) option" where
  "load_free_list buf =
     (let entryCount = unat (u64_of (get 8 8 buf)) in
      if length buf < 16 \<or> length buf < 16 + 16 * entryCount then None
      else Some (u64_of (get 0 8 buf), map (\<lambda>i. ref_of (get (16 + 16 * i) 16 buf)) [0..<entryCount]))"

lemma serialize_free_list_roundtrip:
  assumes "16 + 16 * length fs \<le> blockSize" "length fs < 2 ^ 60"
  shows "\<exists>buf. serialize_free_list endOffset fs blockSize old = Some buf
           \<and> length buf = blockSize \<and> load_free_list buf = Some (endOffset, fs)"
proof -
  define b1 where "b1 = put 8 (u64_bytes (of_nat (length fs)))
                    (put 0 (u64_bytes endOffset) (resize old blockSize))"
  have len: "length b1 = blockSize" using assms(1) by (simp add: b1_def codec_simps)
  define buf where "buf = put 16 (concat (map ref_bytes fs)) b1"
  have buf: "serialize_free_list endOffset fs blockSize old = Some buf"
    using assms(1) by (simp add: serialize_free_list_def buf_def b1_def)
  have buf_len: "length buf = blockSize" using len assms(1) by (simp add: buf_def codec_simps)
  have "get 8 8 b1 = u64_bytes (of_nat (length fs))" "get 0 8 b1 = u64_bytes endOffset"
    using assms(1) by (simp_all add: b1_def codec_simps get_put_same get_put_before)
  then have hd: "get 8 8 buf = u64_bytes (of_nat (length fs))" "get 0 8 buf = u64_bytes endOffset"
    using len assms(1) by (simp_all add: buf_def get_put_before)
  have cnt: "unat (of_nat (length fs) :: uint64_t) = length fs"
    using assms(2) by (intro unat_of_nat_id) simp
  have "buf = take 16 b1 @ concat (map ref_bytes fs) @ drop (16 + 16 * length fs) b1"
    by (simp add: buf_def put_def codec_simps)
  moreover have "length (take 16 b1) = 16" using len assms(1) by simp
  ultimately have "ref_of (get (16 + 16 * i) 16 buf) = fs ! i" if "i < length fs" for i
    using get_refs [OF that, of "take 16 b1"] by (simp add: codec_simps)
  then have "map (\<lambda>i. ref_of (get (16 + 16 * i) 16 buf)) [0..<length fs] = fs"
    by (intro nth_equalityI) auto
  then show ?thesis
    using buf buf_len hd cnt assms(1) by (simp add: load_free_list_def codec_simps)
qed

section \<open>The file header\<close>

record Root =
  root_snapshot :: BlockReference
  root_freeList :: BlockReference

record FileHeader =
  hdr_typeId :: "byte list"
  hdr_sizes :: "byte list"
  hdr_rootIndex :: byte
  hdr_unused :: "byte list"
  hdr_roots :: "Root list"

definition typeId_bytes :: "byte list" where
  "typeId_bytes = [0x62, 0x6C, 0x6F, 0x62, 0x73, 0x2E, 0x64, 0x62]"

definition Header_Initialize :: "FileHeader \<Rightarrow> FileHeader" where
  "Header_Initialize h = h\<lparr>hdr_typeId := typeId_bytes, hdr_sizes := [4, 4, 4, 4, 8]\<rparr>"

definition Header_IsValid :: "FileHeader \<Rightarrow> bool" where
  "Header_IsValid h = (hdr_typeId h = typeId_bytes \<and> hdr_sizes h = [4, 4, 4, 4, 8])"

definition root_bytes :: "Root \<Rightarrow> byte list" where
  "root_bytes r = ref_bytes (root_snapshot r) @ ref_bytes (root_freeList r)"

definition header_bytes :: "FileHeader \<Rightarrow> byte list" where
  "header_bytes h = hdr_typeId h @ hdr_sizes h @ [hdr_rootIndex h] @ hdr_unused h
     @ concat (map root_bytes (hdr_roots h))"

definition header_of :: "byte list \<Rightarrow> FileHeader" where
  "header_of bs =
     \<lparr>hdr_typeId = get 0 8 bs, hdr_sizes = get 8 5 bs, hdr_rootIndex = bs ! 13,
      hdr_unused = get 14 2 bs,
      hdr_roots = [\<lparr>root_snapshot = ref_of (get 16 16 bs), root_freeList = ref_of (get 32 16 bs)\<rparr>,
                   \<lparr>root_snapshot = ref_of (get 48 16 bs), root_freeList = ref_of (get 64 16 bs)\<rparr>]\<rparr>"

definition header_wf :: "FileHeader \<Rightarrow> bool" where
  "header_wf h = (length (hdr_typeId h) = 8 \<and> length (hdr_sizes h) = 5 \<and> length (hdr_unused h) = 2
                  \<and> length (hdr_roots h) = 2 \<and> hdr_rootIndex h < 2)"

lemma length_header_bytes: "header_wf h \<Longrightarrow> length (header_bytes h) = 80"
  by (auto simp: header_wf_def header_bytes_def root_bytes_def codec_simps length_Suc_conv numeral_2_eq_2)

lemma header_roundtrip: "header_wf h \<Longrightarrow> header_of (header_bytes h @ rest) = h"
proof -
  assume wf: "header_wf h"
  then obtain a b c d e f g t1 s1 where h: "hdr_roots h = [a, b]"
    and t: "length (hdr_typeId h) = 8" and s: "length (hdr_sizes h) = 5" and u: "length (hdr_unused h) = 2"
    by (auto simp: header_wf_def length_Suc_conv numeral_2_eq_2)
  have eq: "header_bytes h @ rest = hdr_typeId h @ hdr_sizes h @ hdr_rootIndex h # hdr_unused h
      @ ref_bytes (root_snapshot a) @ ref_bytes (root_freeList a)
      @ ref_bytes (root_snapshot b) @ ref_bytes (root_freeList b) @ rest"
    by (simp add: header_bytes_def h root_bytes_def)
  show ?thesis
    unfolding header_of_def eq
    by (rule FileHeader.equality)
      (simp_all add: get_def t s u h codec_simps nth_append)
qed

end
