(* ===== verification/Free_List.thy ===== *)
theory Free_List
  imports File_Format "HOL-Library.Multiset"
begin

text \<open>
  Space management of a database file: \<open>Database::FreeList\<close> of ServerLib/Database.cpp and
  \<open>MemoryBlockDelta\<close> of ServerLib/MemoryBlockDelta.cpp. Offsets and sizes are 64-bit words.
  The correctness statements count how often a byte of the file is covered by a list of
  blocks, so that every operation is described by an exact conservation law: no byte is
  leaked and none is handed out twice.
\<close>

section \<open>The free list\<close>

record FreeList =
  fl_endOffset :: uint64_t
  fl_blocks :: "BlockReference list"
  fl_fileLocation :: BlockReference

definition FreeList_FreeMemoryBlock :: "BlockReference \<Rightarrow> FreeList \<Rightarrow> FreeList" where
  "FreeList_FreeMemoryBlock location fl = fl\<lparr>fl_blocks := fl_blocks fl @ [location]\<rparr>"

fun take_first_fit :: "uint64_t \<Rightarrow> BlockReference list \<Rightarrow> (uint64_t \<times> BlockReference list) option" where
  "take_first_fit sz [] = None"
| "take_first_fit sz (r # rs) =
     (if sz \<le> ref_size r
      then Some (ref_offset r, r\<lparr>ref_offset := ref_offset r + sz, ref_size := ref_size r - sz\<rparr> # rs)
      else map_option (\<lambda>(off, rs'). (off, r # rs')) (take_first_fit sz rs))"

definition FreeList_AllocateMemoryBlock :: "uint64_t \<Rightarrow> FreeList \<Rightarrow> uint64_t \<times> FreeList" where
  "FreeList_AllocateMemoryBlock sz fl =
     (case take_first_fit sz (fl_blocks fl) of
        Some (off, rs) \<Rightarrow> (off, fl\<lparr>fl_blocks := rs\<rparr>)
      | None \<Rightarrow> (fl_endOffset fl, fl\<lparr>fl_endOffset := fl_endOffset fl + sz\<rparr>))"

text \<open>The merge loop of \<open>Reorganize\<close>: \<open>pos\<close> and \<open>next\<close> walk over neighbouring entries.\<close>

fun merge_adjacent :: "BlockReference list \<Rightarrow> BlockReference list" where
  "merge_adjacent (pos # nxt # rest) =
     (if BlockReference_EndOffset pos = ref_offset nxt
      then pos\<lparr>ref_size := 0\<rparr>
           # merge_adjacent (nxt\<lparr>ref_offset := ref_offset nxt - ref_size pos,
                                 ref_size := ref_size nxt + ref_size pos\<rparr> # rest)
      else pos # merge_adjacent (nxt # rest))"
| "merge_adjacent rs = rs"

text \<open>\<open>std::sort\<close> is not stable, so the order of entries with equal offsets is left open: the
  sorting function is a parameter.\<close>

definition FreeList_Reorganize ::
  "(BlockReference list \<Rightarrow> BlockReference list) \<Rightarrow> FreeList \<Rightarrow> FreeList" where
  "FreeList_Reorganize srt fl =
     (if 1 < length (fl_blocks fl)
      then fl\<lparr>fl_blocks := filter (\<lambda>r. ref_size r \<noteq> 0) (merge_adjacent (srt (fl_blocks fl)))\<rparr>
      else fl)"

definition FreeList_CalculateRequiredSize :: "FreeList \<Rightarrow> uint64_t" where
  "FreeList_CalculateRequiredSize fl = 16 + 16 * of_nat (length (fl_blocks fl))"

definition FreeList_EstimateRequiredSize :: "uint64_t \<Rightarrow> FreeList \<Rightarrow> uint64_t" where
  "FreeList_EstimateRequiredSize additionalFreeBlocks fl =
     FreeList_CalculateRequiredSize fl + 16 * additionalFreeBlocks"

definition FreeList_SerializeIntoBuffer :: "FreeList \<Rightarrow> byte list \<Rightarrow> byte list option" where
  "FreeList_SerializeIntoBuffer fl targetBuffer =
     serialize_free_list (fl_endOffset fl) (fl_blocks fl) (unat (ref_size (fl_fileLocation fl))) targetBuffer"

section \<open>Recording the blocks a commit allocates and releases\<close>

text \<open>The two pointer sets are duplicate-free lists in iteration order. \<open>None\<close> is a failed
  assertion.\<close>

record 'p MemoryBlockDelta =
  md_released :: "'p list"
  md_allocated :: "'p list"

definition Delta_Released :: "'p \<Rightarrow> 'p MemoryBlockDelta \<Rightarrow> 'p MemoryBlockDelta option" where
  "Delta_Released block d =
     (if block \<in> set (md_allocated d) then Some (d\<lparr>md_allocated := remove1 block (md_allocated d)\<rparr>)
      else if block \<in> set (md_released d) then None
      else Some (d\<lparr>md_released := md_released d @ [block]\<rparr>))"

definition Delta_Allocated :: "'p \<Rightarrow> 'p MemoryBlockDelta \<Rightarrow> 'p MemoryBlockDelta option" where
  "Delta_Allocated block d =
     (if block \<in> set (md_released d) \<or> block \<in> set (md_allocated d) then None
      else Some (d\<lparr>md_allocated := md_allocated d @ [block]\<rparr>))"

section \<open>Applying a delta\<close>

text \<open>\<open>locs\<close> is the \<open>fileLocation\<close> member of every block, \<open>reqSize\<close> its virtual
  \<open>CalculateRequiredSize\<close>.\<close>

fun allocate_blocks ::
  "(uint64_t \<Rightarrow> 's \<Rightarrow> uint64_t \<times> 's) \<Rightarrow> ('p \<Rightarrow> uint64_t) \<Rightarrow> 'p list
     \<Rightarrow> ('p \<Rightarrow> BlockReference) \<times> 's \<Rightarrow> ('p \<Rightarrow> BlockReference) \<times> 's" where
  "allocate_blocks alloc reqSize [] s = s"
| "allocate_blocks alloc reqSize (p # ps) (locs, fl) =
     (let sz = reqSize p; (off, fl') = alloc sz fl
      in allocate_blocks alloc reqSize ps (locs(p := \<lparr>ref_offset = off, ref_size = sz\<rparr>), fl'))"

definition FreeList_AllocateAndApplyDelta ::
  "(BlockReference list \<Rightarrow> BlockReference list) \<Rightarrow> ('p \<Rightarrow> uint64_t) \<Rightarrow> 'p \<Rightarrow> 'p MemoryBlockDelta
     \<Rightarrow> ('p \<Rightarrow> BlockReference) \<Rightarrow> FreeList
     \<Rightarrow> ('p MemoryBlockDelta \<times> ('p \<Rightarrow> BlockReference) \<times> FreeList) option" where
  "FreeList_AllocateAndApplyDelta srt reqSize this delta locs fl =
     (let previousListBlock = fl_fileLocation fl in
      if ref_offset previousListBlock = 0 \<or> ref_size previousListBlock = 0 then None
      else
        let (locs1, fl1) = allocate_blocks FreeList_AllocateMemoryBlock reqSize (md_allocated delta) (locs, fl);
            sz = FreeList_EstimateRequiredSize (of_nat (length (md_released delta)) + 1) fl1;
            (off, fl2) = FreeList_AllocateMemoryBlock sz fl1;
            fl3 = fl2\<lparr>fl_fileLocation := \<lparr>ref_offset = off, ref_size = sz\<rparr>\<rparr>
        in map_option (\<lambda>delta'.
             let fl4 = fold (\<lambda>block. FreeList_FreeMemoryBlock (locs1 block)) (md_released delta') fl3;
                 fl5 = FreeList_FreeMemoryBlock previousListBlock fl4
             in (delta', locs1, FreeList_Reorganize srt fl5))
           (Delta_Allocated this delta))"

section \<open>Counting covered bytes\<close>

definition ref_covers :: "BlockReference \<Rightarrow> nat \<Rightarrow> nat" where
  "ref_covers r n = (if unat (ref_offset r) \<le> n \<and> n < unat (ref_offset r) + unat (ref_size r) then 1 else 0)"

definition ref_ok :: "BlockReference \<Rightarrow> bool" where
  "ref_ok r = (unat (ref_offset r) + unat (ref_size r) < 2 ^ 64)"

definition covers :: "BlockReference list \<Rightarrow> nat \<Rightarrow> nat" where
  "covers rs n = (\<Sum>r\<leftarrow>rs. ref_covers r n)"

definition fl_space :: "FreeList \<Rightarrow> nat \<Rightarrow> nat" where
  "fl_space fl n = covers (fl_blocks fl) n + (if unat (fl_endOffset fl) \<le> n then 1 else 0)"

text \<open>\<open>fl_room fl m\<close>: no entry wraps around and the file can grow by \<open>m\<close> bytes.\<close>

definition fl_room :: "FreeList \<Rightarrow> nat \<Rightarrow> bool" where
  "fl_room fl m = (list_all ref_ok (fl_blocks fl) \<and> unat (fl_endOffset fl) + m < 2 ^ 64)"

lemma covers_simps [simp]:
  "covers [] n = 0" "covers (r # rs) n = ref_covers r n + covers rs n"
  "covers (rs @ ss) n = covers rs n + covers ss n"
  by (simp_all add: covers_def)

lemma covers_mset: "mset rs = mset ss \<Longrightarrow> covers rs n = covers ss n"
  unfolding covers_def by (metis mset_map sum_mset_sum_list)

lemma ref_covers_empty [simp]: "ref_size r = 0 \<Longrightarrow> ref_covers r n = 0"
  by (simp add: ref_covers_def)

lemma covers_drop_empty: "covers (filter (\<lambda>r. ref_size r \<noteq> 0) rs) n = covers rs n"
  by (induction rs) auto

lemma covers_pos_iff: "0 < covers rs n \<longleftrightarrow> (\<exists>r \<in> set rs. ref_covers r n = 1)"
  by (induction rs) (auto simp: ref_covers_def)

lemma ref_covers_le_covers: "r \<in> set rs \<Longrightarrow> ref_covers r n \<le> covers rs n"
  by (induction rs) auto

text \<open>A block is cut at any point: front and rest cover the same bytes.\<close>

lemma ref_covers_split:
  assumes "ref_ok r" "sz \<le> ref_size r"
  shows "ref_covers r n = ref_covers \<lparr>ref_offset = ref_offset r, ref_size = sz\<rparr> n
     + ref_covers (r\<lparr>ref_offset := ref_offset r + sz, ref_size := ref_size r - sz\<rparr>) n"
    and "ref_ok (r\<lparr>ref_offset := ref_offset r + sz, ref_size := ref_size r - sz\<rparr>)"
    and "ref_ok \<lparr>ref_offset = ref_offset r, ref_size = sz\<rparr>"
proof -
  have "unat sz \<le> unat (ref_size r)" using assms(2) by (simp add: word_le_nat_alt)
  moreover from this have "unat (ref_offset r + sz) = unat (ref_offset r) + unat sz"
    using assms(1) by (intro unat_add_no_wrap) (simp add: ref_ok_def)
  moreover have "unat (ref_size r - sz) = unat (ref_size r) - unat sz"
    using assms(2) by (rule unat_sub_le)
  ultimately show
    "ref_covers r n = ref_covers \<lparr>ref_offset = ref_offset r, ref_size = sz\<rparr> n
     + ref_covers (r\<lparr>ref_offset := ref_offset r + sz, ref_size := ref_size r - sz\<rparr>) n"
    "ref_ok (r\<lparr>ref_offset := ref_offset r + sz, ref_size := ref_size r - sz\<rparr>)"
    "ref_ok \<lparr>ref_offset = ref_offset r, ref_size = sz\<rparr>"
    using assms(1) by (auto simp: ref_covers_def ref_ok_def)
qed

lemma take_first_fit_spec:
  assumes "take_first_fit sz rs = Some (off, rs')" "list_all ref_ok rs"
  shows "covers rs n = ref_covers \<lparr>ref_offset = off, ref_size = sz\<rparr> n + covers rs' n"
    and "list_all ref_ok rs'" and "length rs' = length rs"
    and "ref_ok \<lparr>ref_offset = off, ref_size = sz\<rparr>"
  using assms
proof (induction sz rs arbitrary: rs' rule: take_first_fit.induct)
  case (2 sz r rs)
  note split = ref_covers_split [of r sz]
  {
    case 1
    then show ?case using split(1) "2.IH" by (auto split: if_splits)
  next
    case 2
    then show ?case using split(2) "2.IH" by (auto split: if_splits)
  next
    case 3
    then show ?case using "2.IH" by (auto split: if_splits)
  next
    case 4
    then show ?case using split(3) "2.IH" by (auto split: if_splits)
  }
qed auto

lemma take_first_fit_None:
  "take_first_fit sz rs = None \<longleftrightarrow> (\<forall>r \<in> set rs. ref_size r < sz)"
  by (induction rs) (auto simp: not_le)

section \<open>Allocation\<close>

lemma AllocateMemoryBlock_spec:
  assumes "fl_room fl (unat sz + m)" "FreeList_AllocateMemoryBlock sz fl = (off, fl')"
  shows "fl_space fl n = ref_covers \<lparr>ref_offset = off, ref_size = sz\<rparr> n + fl_space fl' n"
    and "fl_room fl' m" and "ref_ok \<lparr>ref_offset = off, ref_size = sz\<rparr>"
    and "length (fl_blocks fl') = length (fl_blocks fl)"
    and "fl_fileLocation fl' = fl_fileLocation fl"
proof -
  have ok: "list_all ref_ok (fl_blocks fl)" and fit: "unat (fl_endOffset fl) + (unat sz + m) < 2 ^ 64"
    using assms(1) by (auto simp: fl_room_def)
  have grow: "unat (fl_endOffset fl + sz) = unat (fl_endOffset fl) + unat sz"
    using fit by (intro unat_add_no_wrap) simp
  note eq = assms(2) [unfolded FreeList_AllocateMemoryBlock_def]
  show "fl_space fl n = ref_covers \<lparr>ref_offset = off, ref_size = sz\<rparr> n + fl_space fl' n"
    using eq take_first_fit_spec(1) [OF _ ok] grow
    by (auto simp: fl_space_def ref_covers_def split: option.splits)
  show "fl_room fl' m" "ref_ok \<lparr>ref_offset = off, ref_size = sz\<rparr>"
    "length (fl_blocks fl') = length (fl_blocks fl)"
    using eq take_first_fit_spec(2-4) [OF _ ok] grow fit ok
    by (auto simp: fl_room_def ref_ok_def split: option.splits)
  show "fl_fileLocation fl' = fl_fileLocation fl"
    using eq by (auto split: option.splits)
qed

text \<open>What a client of an allocator relies on: a block that is handed out leaves the free
  space, and nothing else does.\<close>

locale block_allocator =
  fixes alloc :: "uint64_t \<Rightarrow> 's \<Rightarrow> uint64_t \<times> 's"
    and space :: "'s \<Rightarrow> nat \<Rightarrow> nat"
    and room :: "'s \<Rightarrow> nat \<Rightarrow> bool"
  assumes alloc_space: "room s (unat sz + m) \<Longrightarrow> alloc sz s = (off, s')
      \<Longrightarrow> space s n = ref_covers \<lparr>ref_offset = off, ref_size = sz\<rparr> n + space s' n"
    and alloc_room: "room s (unat sz + m) \<Longrightarrow> alloc sz s = (off, s') \<Longrightarrow> room s' m"
    and alloc_ok: "room s (unat sz + m) \<Longrightarrow> alloc sz s = (off, s')
      \<Longrightarrow> ref_ok \<lparr>ref_offset = off, ref_size = sz\<rparr>"
begin

lemma allocate_blocks_frame:
  "allocate_blocks alloc reqSize ps (locs, s) = (locs', s') \<Longrightarrow> p \<notin> set ps \<Longrightarrow> locs' p = locs p"
  by (induction ps arbitrary: locs s) (auto simp: Let_def split: prod.splits)

lemma allocate_blocks_sizes:
  "allocate_blocks alloc reqSize ps (locs, s) = (locs', s') \<Longrightarrow> p \<in> set ps
     \<Longrightarrow> ref_size (locs' p) = reqSize p"
proof (induction ps arbitrary: locs s)
  case (Cons q ps)
  show ?case
  proof (cases "p \<in> set ps")
    case False
    with Cons.prems show ?thesis
      by (auto simp: Let_def split: prod.splits dest!: allocate_blocks_frame [where p = p])
  qed (use Cons in \<open>auto simp: Let_def split: prod.splits\<close>)
qed simp

lemma allocate_blocks_space:
  assumes "distinct ps" "room s ((\<Sum>p\<leftarrow>ps. unat (reqSize p)) + m)"
    "allocate_blocks alloc reqSize ps (locs, s) = (locs', s')"
  shows "space s n = covers (map locs' ps) n + space s' n \<and> room s' m \<and> (\<forall>p \<in> set ps. ref_ok (locs' p))"
  using assms
proof (induction ps arbitrary: locs s)
  case (Cons p ps)
  obtain off s1 where a: "alloc (reqSize p) s = (off, s1)" by fastforce
  let ?r = "\<lparr>ref_offset = off, ref_size = reqSize p\<rparr>"
  have rest: "allocate_blocks alloc reqSize ps (locs(p := ?r), s1) = (locs', s')"
    using Cons.prems(3) a by simp
  have room: "room s (unat (reqSize p) + ((\<Sum>p\<leftarrow>ps. unat (reqSize p)) + m))"
    using Cons.prems(2) by (simp add: add.assoc)
  have "locs' p = ?r" using allocate_blocks_frame [OF rest, of p] Cons.prems(1) by simp
  with Cons.IH [OF _ alloc_room [OF room a] rest] alloc_space [OF room a] alloc_ok [OF room a] Cons.prems(1)
  show ?case by simp
qed simp

end

interpretation fla: block_allocator FreeList_AllocateMemoryBlock fl_space fl_room
  by unfold_locales (erule (1) AllocateMemoryBlock_spec)+

lemma take_first_fit_length:
  "take_first_fit sz rs = Some (off, rs') \<Longrightarrow> length rs' = length rs"
  by (induction sz rs arbitrary: rs' rule: take_first_fit.induct) (auto split: if_splits)

lemma AllocateMemoryBlock_length:
  "FreeList_AllocateMemoryBlock sz fl = (off, fl')
     \<Longrightarrow> length (fl_blocks fl') = length (fl_blocks fl) \<and> fl_fileLocation fl' = fl_fileLocation fl"
  by (auto simp: FreeList_AllocateMemoryBlock_def dest: take_first_fit_length split: option.splits)

lemma allocate_blocks_count:
  "allocate_blocks FreeList_AllocateMemoryBlock reqSize ps (locs, fl) = (locs', fl')
     \<Longrightarrow> length (fl_blocks fl') = length (fl_blocks fl) \<and> fl_fileLocation fl' = fl_fileLocation fl"
proof (induction ps arbitrary: locs fl)
  case (Cons p ps)
  obtain off fl1 where a: "FreeList_AllocateMemoryBlock (reqSize p) fl = (off, fl1)" by fastforce
  with Cons show ?case using AllocateMemoryBlock_length [OF a] by fastforce
qed simp

section \<open>Reorganisation\<close>

definition std_sort :: "(BlockReference list \<Rightarrow> BlockReference list) \<Rightarrow> bool" where
  "std_sort srt = (\<forall>rs. mset (srt rs) = mset rs \<and> sorted (map ref_offset (srt rs)))"

lemma std_sort_stable: "std_sort (sort_key ref_offset)"
  by (simp add: std_sort_def)

lemma ref_merge:
  assumes "ref_ok a" "ref_ok b" "BlockReference_EndOffset a = ref_offset b"
    "c = b\<lparr>ref_offset := ref_offset b - ref_size a, ref_size := ref_size b + ref_size a\<rparr>"
  shows "ref_covers c n = ref_covers a n + ref_covers b n" "ref_ok c" "ref_offset c = ref_offset a"
proof -
  have off: "ref_offset b = ref_offset a + ref_size a" using assms(3) by (simp add: BlockReference_EndOffset_def)
  have b: "unat (ref_offset b) = unat (ref_offset a) + unat (ref_size a)"
    using assms(1) unfolding off by (intro unat_add_no_wrap) (simp add: ref_ok_def)
  have s: "unat (ref_size b + ref_size a) = unat (ref_size b) + unat (ref_size a)"
    using assms(2) b by (intro unat_add_no_wrap) (simp add: ref_ok_def)
  show o: "ref_offset c = ref_offset a" by (simp add: assms(4) off)
  have sc: "ref_size c = ref_size b + ref_size a" by (simp add: assms(4))
  show "ref_covers c n = ref_covers a n + ref_covers b n" "ref_ok c"
    using b s assms(2) unfolding ref_covers_def ref_ok_def o sc by auto
qed

lemma merge_adjacent_spec:
  "list_all ref_ok rs \<Longrightarrow> covers (merge_adjacent rs) n = covers rs n \<and> list_all ref_ok (merge_adjacent rs)
     \<and> length (merge_adjacent rs) = length rs"
proof (induction rs rule: merge_adjacent.induct)
  case (1 pos nxt rest)
  let ?c = "nxt\<lparr>ref_offset := ref_offset nxt - ref_size pos, ref_size := ref_size nxt + ref_size pos\<rparr>"
  have "ref_ok (pos\<lparr>ref_size := 0\<rparr>)"
    using unsigned_less [of "ref_offset pos", where ?'a = nat] by (simp add: ref_ok_def)
  then show ?case
    using 1 ref_merge(1) [of pos nxt ?c n] ref_merge(2) [of pos nxt ?c] by auto
qed auto

lemma Reorganize_spec:
  assumes "std_sort srt" "fl_room fl m"
  shows "fl_space (FreeList_Reorganize srt fl) n = fl_space fl n"
    and "fl_room (FreeList_Reorganize srt fl) m"
    and "length (fl_blocks (FreeList_Reorganize srt fl)) \<le> length (fl_blocks fl)"
    and "fl_fileLocation (FreeList_Reorganize srt fl) = fl_fileLocation fl"
proof -
  let ?rs = "fl_blocks fl"
  have m: "mset (srt ?rs) = mset ?rs" using assms(1) by (simp add: std_sort_def)
  then have "set (srt ?rs) = set ?rs" by (metis set_mset_mset)
  then have ok: "list_all ref_ok (srt ?rs)" using assms(2) by (simp add: fl_room_def list_all_iff)
  have len: "length (srt ?rs) = length ?rs" using m by (metis size_mset)
  note merge = merge_adjacent_spec [OF ok]
  show "fl_space (FreeList_Reorganize srt fl) n = fl_space fl n"
    using merge covers_mset [OF m] by (simp add: fl_space_def FreeList_Reorganize_def covers_drop_empty)
  show "fl_room (FreeList_Reorganize srt fl) m"
    using merge assms(2) by (auto simp: fl_room_def FreeList_Reorganize_def list_all_iff)
  show "length (fl_blocks (FreeList_Reorganize srt fl)) \<le> length ?rs"
    using merge [of n] len length_filter_le [of _ "merge_adjacent (srt ?rs)"]
    by (simp add: FreeList_Reorganize_def)
  show "fl_fileLocation (FreeList_Reorganize srt fl) = fl_fileLocation fl"
    by (simp add: FreeList_Reorganize_def)
qed

text \<open>With non-empty disjoint entries the result is sorted and fully coalesced: there is a gap
  between any two entries.\<close>

abbreviation ref_end :: "BlockReference \<Rightarrow> nat" where
  "ref_end r \<equiv> unat (ref_offset r) + unat (ref_size r)"

definition ordered_blocks :: "BlockReference list \<Rightarrow> bool" where
  "ordered_blocks rs = (list_all (\<lambda>r. ref_ok r \<and> ref_size r \<noteq> 0) rs
     \<and> sorted_wrt (\<lambda>a b. ref_end a \<le> unat (ref_offset b)) rs)"

definition gaps_between :: "BlockReference list \<Rightarrow> bool" where
  "gaps_between rs = sorted_wrt (\<lambda>a b. ref_end a < unat (ref_offset b)) rs"

lemma merge_adjacent_gaps:
  "ordered_blocks (p # rs) \<Longrightarrow>
     gaps_between (filter (\<lambda>r. ref_size r \<noteq> 0) (merge_adjacent (p # rs)))
     \<and> (\<forall>r \<in> set (filter (\<lambda>r. ref_size r \<noteq> 0) (merge_adjacent (p # rs))).
           unat (ref_offset p) \<le> unat (ref_offset r))"
proof (induction rs arbitrary: p)
  case Nil
  then show ?case by (simp add: gaps_between_def)
next
  case (Cons q rs)
  let ?c = "q\<lparr>ref_offset := ref_offset q - ref_size p, ref_size := ref_size q + ref_size p\<rparr>"
  have ok: "ref_ok p" "ref_ok q" "ref_size p \<noteq> 0" "ref_size q \<noteq> 0" "ordered_blocks (q # rs)"
    and pq: "ref_end p \<le> unat (ref_offset q)"
    using Cons.prems by (auto simp: ordered_blocks_def)
  have sum: "unat (ref_offset p + ref_size p) = ref_end p"
    using ok(1) by (intro unat_add_no_wrap) (simp add: ref_ok_def)
  show ?case
  proof (cases "BlockReference_EndOffset p = ref_offset q")
    case True
    have off: "ref_offset ?c = ref_offset p" and okc: "ref_ok ?c"
      using ref_merge(2,3) [OF ok(1,2) True refl] by auto
    have szc: "unat (ref_size ?c) = unat (ref_size q) + unat (ref_size p)"
      using ok True sum unfolding BlockReference_EndOffset_def ref_ok_def
      by (simp, intro unat_add_no_wrap) auto
    have "ref_end ?c = ref_end q"
      unfolding off szc using True sum by (simp add: BlockReference_EndOffset_def flip: True)
    moreover have "ref_size ?c \<noteq> 0" using szc ok(3) by (metis add_is_0 unat_0 unat_eq_zero)
    ultimately have "ordered_blocks (?c # rs)"
      using ok(5) okc by (simp add: ordered_blocks_def)
    from Cons.IH [OF this] show ?thesis using True off by simp
  next
    case False
    then have "ref_end p < unat (ref_offset q)"
      using pq sum by (metis BlockReference_EndOffset_def le_neq_implies_less word_eq_iff_unsigned)
    with Cons.IH [OF ok(5)] show ?thesis
      using False ok(3) by (fastforce simp: gaps_between_def)
  qed
qed

lemma ordered_blocksI:
  assumes "sorted (map ref_offset rs)" "list_all ref_ok rs" "\<forall>r \<in> set rs. ref_size r \<noteq> 0"
    "\<And>n. covers rs n \<le> 1"
  shows "ordered_blocks rs"
  using assms
proof (induction rs)
  case (Cons a rs)
  have "ref_end a \<le> unat (ref_offset b)" if b: "b \<in> set rs" for b
  proof (rule ccontr)
    let ?n = "unat (ref_offset b)"
    assume "\<not> ref_end a \<le> ?n"
    moreover have "unat (ref_offset a) \<le> ?n" using Cons.prems(1) b by (auto simp: word_le_nat_alt)
    ultimately have "ref_covers a ?n = 1" by (simp add: ref_covers_def)
    moreover have "ref_covers b ?n = 1"
      using Cons.prems(3) b by (simp add: ref_covers_def unat_gt_0)
    ultimately have "2 \<le> covers (a # rs) ?n" using ref_covers_le_covers [OF b, of ?n] by simp
    then show False using Cons.prems(4) [of ?n] by simp
  qed
  moreover have "covers rs n \<le> 1" for n using Cons.prems(4) [of n] by simp
  ultimately show ?case using Cons by (simp add: ordered_blocks_def)
qed (simp add: ordered_blocks_def)

lemma Reorganize_gaps:
  assumes "std_sort srt" "fl_room fl m" "\<And>n. fl_space fl n \<le> 1" "\<forall>r \<in> set (fl_blocks fl). ref_size r \<noteq> 0"
  shows "gaps_between (fl_blocks (FreeList_Reorganize srt fl))"
proof (cases "1 < length (fl_blocks fl)")
  case True
  let ?rs = "srt (fl_blocks fl)"
  have m: "mset ?rs = mset (fl_blocks fl)" and s: "sorted (map ref_offset ?rs)"
    using assms(1) by (simp_all add: std_sort_def)
  then have set: "set ?rs = set (fl_blocks fl)" by (metis set_mset_mset)
  have "covers ?rs n \<le> 1" for n
    using assms(3) [of n] covers_mset [OF m, of n] by (simp add: fl_space_def split: if_splits)
  then have "ordered_blocks ?rs"
    using assms(2,4) s set by (intro ordered_blocksI) (auto simp: fl_room_def list_all_iff)
  then show ?thesis
    using True merge_adjacent_gaps by (cases ?rs) (auto simp: FreeList_Reorganize_def gaps_between_def)
next
  case False
  then show ?thesis by (cases "fl_blocks fl") (auto simp: FreeList_Reorganize_def gaps_between_def)
qed

section \<open>A whole commit\<close>

lemma fold_FreeMemoryBlock:
  "fold (\<lambda>block. FreeList_FreeMemoryBlock (locs block)) ps fl
     = fl\<lparr>fl_blocks := fl_blocks fl @ map locs ps\<rparr>"
  by (induction ps arbitrary: fl) (simp_all add: FreeList_FreeMemoryBlock_def)

text \<open>The exact effect of a commit on the space of the file. Everything handed out comes from
  the space that was free before any block was released.\<close>

lemma AllocateAndApplyDelta_spec:
  assumes srt: "std_sort srt"
    and delta: "distinct (md_allocated d)" "this \<notin> set (md_allocated d)" "this \<notin> set (md_released d)"
      "set (md_allocated d) \<inter> set (md_released d) = {}"
    and prev: "ref_offset (fl_fileLocation fl) \<noteq> 0" "ref_size (fl_fileLocation fl) \<noteq> 0"
    and refs: "ref_ok (fl_fileLocation fl)" "\<forall>p \<in> set (md_released d). ref_ok (locs p)"
    and listSize: "listSize = FreeList_EstimateRequiredSize (of_nat (length (md_released d)) + 1) fl"
    and room: "fl_room fl ((\<Sum>p\<leftarrow>md_allocated d. unat (reqSize p)) + (unat listSize + m))"
  obtains locs' fl' where
    "FreeList_AllocateAndApplyDelta srt reqSize this d locs fl
       = Some (d\<lparr>md_allocated := md_allocated d @ [this]\<rparr>, locs', fl')"
    "\<And>p. p \<notin> set (md_allocated d) \<Longrightarrow> locs' p = locs p"
    "\<And>p. p \<in> set (md_allocated d) \<Longrightarrow> ref_size (locs' p) = reqSize p \<and> ref_ok (locs' p)"
    "ref_size (fl_fileLocation fl') = listSize" "ref_ok (fl_fileLocation fl')"
    "length (fl_blocks fl') \<le> length (fl_blocks fl) + length (md_released d) + 1"
    "fl_room fl' m"
    "\<And>n. covers (map locs' (md_allocated d)) n + ref_covers (fl_fileLocation fl') n \<le> fl_space fl n"
    "\<And>n. covers (map locs' (md_allocated d)) n + ref_covers (fl_fileLocation fl') n + fl_space fl' n
         = fl_space fl n + covers (map locs (md_released d)) n + ref_covers (fl_fileLocation fl) n"
proof -
  let ?al = "md_allocated d" and ?re = "md_released d"
  obtain locs1 fl1 where ab: "allocate_blocks FreeList_AllocateMemoryBlock reqSize ?al (locs, fl) = (locs1, fl1)"
    by fastforce
  have len1: "length (fl_blocks fl1) = length (fl_blocks fl)" "fl_fileLocation fl1 = fl_fileLocation fl"
    using allocate_blocks_count [OF ab] by auto
  have est: "FreeList_EstimateRequiredSize (of_nat (length ?re) + 1) fl1 = listSize"
    by (simp add: listSize FreeList_EstimateRequiredSize_def FreeList_CalculateRequiredSize_def len1)
  obtain off fl2 where am: "FreeList_AllocateMemoryBlock listSize fl1 = (off, fl2)" by fastforce
  define own where "own = \<lparr>ref_offset = off, ref_size = listSize\<rparr>"
  define fl5 where "fl5 = fl2\<lparr>fl_fileLocation := own,
     fl_blocks := fl_blocks fl2 @ map locs1 ?re @ [fl_fileLocation fl]\<rparr>"
  define fl' where "fl' = FreeList_Reorganize srt fl5"
  have sp1: "fl_space fl n = covers (map locs1 ?al) n + fl_space fl1 n"
    and room1: "fl_room fl1 (unat listSize + m)"
    and ok1: "\<forall>p \<in> set ?al. ref_ok (locs1 p)" for n
    using fla.allocate_blocks_space [OF delta(1) room ab] by auto
  note am_spec = AllocateMemoryBlock_spec [OF room1 am, folded own_def]
  have frame: "locs1 p = locs p" if "p \<notin> set ?al" for p
    using fla.allocate_blocks_frame [OF ab that] .
  then have rel: "map locs1 ?re = map locs ?re" using delta(4) by auto
  have room5: "fl_room fl5 m"
    using am_spec(2) refs rel by (auto simp: fl_room_def fl5_def list_all_iff)
  note re = Reorganize_spec [OF srt room5, folded fl'_def]
  have sp5: "fl_space fl5 n = fl_space fl2 n + covers (map locs ?re) n + ref_covers (fl_fileLocation fl) n" for n
    by (simp add: fl5_def fl_space_def rel)
  show thesis
  proof
    show "FreeList_AllocateAndApplyDelta srt reqSize this d locs fl
        = Some (d\<lparr>md_allocated := ?al @ [this]\<rparr>, locs1, fl')"
      using prev delta(2,3)
      by (simp add: FreeList_AllocateAndApplyDelta_def ab est am Let_def Delta_Allocated_def fl'_def fl5_def
          own_def fold_FreeMemoryBlock FreeList_FreeMemoryBlock_def)
    show "locs1 p = locs p" if "p \<notin> set ?al" for p using frame [OF that] .
    show "ref_size (locs1 p) = reqSize p \<and> ref_ok (locs1 p)" if "p \<in> set ?al" for p
      using fla.allocate_blocks_sizes [OF ab that] ok1 that by simp
    show "ref_size (fl_fileLocation fl') = listSize" "ref_ok (fl_fileLocation fl')"
      using re(4) am_spec(3) by (simp_all add: fl5_def own_def)
    show "length (fl_blocks fl') \<le> length (fl_blocks fl) + length ?re + 1"
      using re(3) am_spec(4) len1 by (simp add: fl5_def)
    show "fl_room fl' m" by (rule re(2))
    show "covers (map locs1 ?al) n + ref_covers (fl_fileLocation fl') n \<le> fl_space fl n" for n
      using sp1 [of n] am_spec(1) [of n] re(4) by (simp add: fl5_def)
    show "covers (map locs1 ?al) n + ref_covers (fl_fileLocation fl') n + fl_space fl' n
       = fl_space fl n + covers (map locs ?re) n + ref_covers (fl_fileLocation fl) n" for n
      using sp1 [of n] am_spec(1) [of n] re(1) [of n] re(4) sp5 [of n] by (simp add: fl5_def)
  qed
qed

end
