(* ===== verification/File_Backend.thy ===== *)
theory File_Backend
  imports File_Format
begin

text \<open>
  Access to the database file: ServerLib/FileBackend.cpp. The Windows calls \<open>ReadFile\<close> and
  \<open>WriteFile\<close> are parameters that may transfer less than what was asked for; their documented
  behaviour is stated by \<open>ReadFile_spec\<close> and \<open>WriteFile_spec\<close>. The transfer loops may run
  forever: not returning is the value \<open>None\<close>.
\<close>

section \<open>Opening\<close>

datatype CreationDisposition = OPEN_ALWAYS | OPEN_EXISTING | CREATE_NEW | CREATE_ALWAYS | TRUNCATE_EXISTING

datatype LastError = ERROR_SUCCESS | ERROR_FILE_EXISTS | ERROR_ALREADY_EXISTS | ERROR_FILE_NOT_FOUND | ERROR_OTHER

text \<open>\<open>opened\<close> and \<open>lastError\<close> are what \<open>CreateFileW\<close> and \<open>GetLastError\<close> report; the result is the
  handle state with the out parameter that is assigned on the taken branch.\<close>

datatype OpenExclusiveResult =
  Opened (emptyFile: bool)
| OpenFailed (modeSpecificError: bool)

definition FileBackend_OpenExclusive ::
  "CreationDisposition \<Rightarrow> bool \<Rightarrow> LastError \<Rightarrow> OpenExclusiveResult" where
  "FileBackend_OpenExclusive openMode opened lastError =
     (if opened
      then Opened (openMode = CREATE_ALWAYS \<or> openMode = CREATE_NEW
                   \<or> openMode = OPEN_ALWAYS \<and> lastError = ERROR_SUCCESS
                   \<or> openMode = TRUNCATE_EXISTING)
      else OpenFailed (openMode = CREATE_NEW \<and> lastError = ERROR_FILE_EXISTS
                   \<or> openMode = OPEN_EXISTING \<and> lastError = ERROR_FILE_NOT_FOUND
                   \<or> openMode = TRUNCATE_EXISTING \<and> lastError = ERROR_FILE_NOT_FOUND))"

section \<open>Transfer loops\<close>

type_synonym 'h ReadFile = "'h \<Rightarrow> nat \<Rightarrow> ('h \<times> byte list) option"
type_synonym 'h WriteFile = "'h \<Rightarrow> byte list \<Rightarrow> ('h \<times> nat) option"

definition DWORD_max :: nat where
  "DWORD_max = 2 ^ 32 - 1"

partial_function (option) FileBackend_ReadIntoMemory ::
  "'h ReadFile \<Rightarrow> 'h \<Rightarrow> nat \<Rightarrow> ('h \<times> byte list option) option" where
  "FileBackend_ReadIntoMemory ReadFile h bytes =
     (if bytes = 0 then Some (h, Some [])
      else case ReadFile h (min DWORD_max bytes) of
             None \<Rightarrow> Some (h, None)
           | Some (h', bs) \<Rightarrow>
               Option.bind (FileBackend_ReadIntoMemory ReadFile h' (bytes - length bs))
                 (\<lambda>(h'', rest). Some (h'', map_option ((@) bs) rest)))"

partial_function (option) FileBackend_WriteFromMemory ::
  "'h WriteFile \<Rightarrow> 'h \<Rightarrow> byte list \<Rightarrow> ('h \<times> bool) option" where
  "FileBackend_WriteFromMemory WriteFile h buffer =
     (if buffer = [] then Some (h, True)
      else case WriteFile h (take DWORD_max buffer) of
             None \<Rightarrow> Some (h, False)
           | Some (h', bytesWritten) \<Rightarrow> FileBackend_WriteFromMemory WriteFile h' (drop bytesWritten buffer))"

text \<open>Writing at a position overwrites, a gap behind the end of the file is filled with zeros.\<close>

definition overwrite :: "byte list \<Rightarrow> nat \<Rightarrow> byte list \<Rightarrow> byte list" where
  "overwrite content pos bs =
     take pos content @ replicate (pos - length content) 0 @ bs @ drop (pos + length bs) content"

definition read_at :: "byte list \<Rightarrow> nat \<Rightarrow> nat \<Rightarrow> byte list option" where
  "read_at content pos n = (if pos + n \<le> length content then Some (take n (drop pos content)) else None)"

text \<open>\<open>LoadMemoryBlock\<close> with a file of the given content.\<close>

definition LoadMemoryBlock :: "byte list \<Rightarrow> BlockReference \<Rightarrow> byte list option" where
  "LoadMemoryBlock content reference = read_at content (unat (ref_offset reference)) (unat (ref_size reference))"

definition StoreBytes :: "BlockReference \<Rightarrow> byte list \<Rightarrow> byte list \<Rightarrow> byte list" where
  "StoreBytes reference writeBuffer content = overwrite content (unat (ref_offset reference)) writeBuffer"

section \<open>What the operating system promises\<close>

text \<open>A synchronous \<open>ReadFile\<close> delivers between one and the requested number of bytes from the file
  position and advances it; at the end of the file it succeeds and delivers none.\<close>

definition ReadFile_spec :: "'h ReadFile \<Rightarrow> byte list \<Rightarrow> ('h \<Rightarrow> nat) \<Rightarrow> bool" where
  "ReadFile_spec ReadFile content pos =
     (\<forall>h n. 0 < n \<longrightarrow> (\<exists>h' k. ReadFile h n = Some (h', take k (drop (pos h) content)) \<and> 0 < k \<and> k \<le> n
        \<and> pos h' = pos h + min k (length content - pos h)))"

definition WriteFile_spec :: "'h WriteFile \<Rightarrow> ('h \<Rightarrow> byte list) \<Rightarrow> ('h \<Rightarrow> nat) \<Rightarrow> bool" where
  "WriteFile_spec WriteFile content pos =
     (\<forall>h bs. bs \<noteq> [] \<longrightarrow> (\<exists>h' k. WriteFile h bs = Some (h', k) \<and> 0 < k \<and> k \<le> length bs
        \<and> pos h' = pos h + k \<and> content h' = overwrite (content h) (pos h) (take k bs)))"

section \<open>Lemmas\<close>

lemma length_overwrite:
  "length (overwrite content pos bs) = max (length content) (pos + length bs)"
  by (auto simp: overwrite_def)

lemma overwrite_nth:
  assumes "i < length content" "i < pos \<or> pos + length bs \<le> i"
  shows "overwrite content pos bs ! i = content ! i"
  using assms by (auto simp: overwrite_def nth_append)

lemma overwrite_append:
  "overwrite (overwrite content pos as) (pos + length as) bs = overwrite content pos (as @ bs)"
  by (cases "pos \<le> length content") (simp_all add: overwrite_def drop_drop ac_simps)

lemma read_at_overwrite_same:
  "n = length bs \<Longrightarrow> read_at (overwrite content pos bs) pos n = Some bs"
  by (auto simp: read_at_def length_overwrite overwrite_def)

lemma read_at_nth:
  "read_at c pos n = Some bs \<longleftrightarrow> pos + n \<le> length c \<and> length bs = n \<and> (\<forall>i < n. bs ! i = c ! (pos + i))"
  by (auto simp: read_at_def intro!: nth_equalityI)

lemma read_at_overwrite_disjoint:
  assumes "read_at content p n = Some xs" "p + n \<le> pos \<or> pos + length bs \<le> p"
  shows "read_at (overwrite content pos bs) p n = Some xs"
  using assms by (auto simp: read_at_nth length_overwrite overwrite_nth)

lemma FileBackend_ReadIntoMemory_complete:
  assumes spec: "ReadFile_spec ReadFile content pos" and "pos h + n \<le> length content"
  shows "\<exists>h'. FileBackend_ReadIntoMemory ReadFile h n = Some (h', Some (take n (drop (pos h) content)))
      \<and> pos h' = pos h + n"
  using assms(2)
proof (induction n arbitrary: h rule: less_induct)
  case (less n)
  show ?case
  proof (cases "n = 0")
    case True
    then show ?thesis by (simp add: FileBackend_ReadIntoMemory.simps)
  next
    case False
    then have "0 < min DWORD_max n" by (simp add: DWORD_max_def)
    with spec obtain h' k where r: "ReadFile h (min DWORD_max n) = Some (h', take k (drop (pos h) content))"
      and k: "0 < k" "k \<le> n" and p: "pos h' = pos h + min k (length content - pos h)"
      unfolding ReadFile_spec_def by (meson min.bounded_iff)
    have len: "length (take k (drop (pos h) content)) = k" and p': "pos h' = pos h + k"
      using k less.prems p by auto
    have "n - k < n" "pos h' + (n - k) \<le> length content" using k less.prems p' by auto
    from less.IH [OF this] obtain h'' where
      "FileBackend_ReadIntoMemory ReadFile h' (n - k) = Some (h'', Some (take (n - k) (drop (pos h') content)))"
      "pos h'' = pos h + n" using p' k by auto
    moreover have "take k (drop (pos h) content) @ take (n - k) (drop (pos h') content) = take n (drop (pos h) content)"
      using k p' by (metis add.commute drop_drop le_add_diff_inverse take_add)
    ultimately show ?thesis
      using False r len by (subst FileBackend_ReadIntoMemory.simps) simp
  qed
qed

text \<open>Past the end of the file the loop makes no progress any more and never returns.\<close>

lemma FileBackend_ReadIntoMemory_diverges:
  assumes spec: "ReadFile_spec ReadFile content pos" and "length content < pos h + n" "pos h \<le> length content"
  shows "FileBackend_ReadIntoMemory ReadFile h n = None"
proof -
  let ?P = "\<lambda>rf h n (r :: 'a \<times> byte list option).
    rf = ReadFile \<longrightarrow> length content < pos h + n \<longrightarrow> pos h \<le> length content \<longrightarrow> False"
  have "?P ReadFile h n r" if "FileBackend_ReadIntoMemory ReadFile h n = Some r" for r
  proof (rule FileBackend_ReadIntoMemory.raw_induct [OF _ that, where P = ?P], intro impI)
    fix rim rf h n r
    assume IH: "\<And>rf h n y. rim rf h n = Some y \<Longrightarrow> ?P rf h n y"
      and body: "(if n = 0 then Some (h, Some [])
         else case rf h (min DWORD_max n) of None \<Rightarrow> Some (h, None)
           | Some (h', bs) \<Rightarrow> Option.bind (rim rf h' (n - length bs))
                (\<lambda>(h'', rest). Some (h'', map_option ((@) bs) rest))) = Some r"
      and rf: "rf = ReadFile" and long: "length content < pos h + n" and ph: "pos h \<le> length content"
    have "0 < n" using long ph by simp
    then have "0 < min DWORD_max n" by (simp add: DWORD_max_def)
    with spec obtain h' k where r: "ReadFile h (min DWORD_max n) = Some (h', take k (drop (pos h) content))"
      and k: "0 < k" "k \<le> n" and p: "pos h' = pos h + min k (length content - pos h)"
      unfolding ReadFile_spec_def by (meson min.bounded_iff)
    have len: "length (take k (drop (pos h) content)) = min k (length content - pos h)"
      by (simp add: min.commute)
    obtain r' where rec: "rim ReadFile h' (n - min k (length content - pos h)) = Some r'"
      using body \<open>0 < n\<close> r rf by (auto simp: len min.commute split: bind_splits)
    show False using IH [OF rec] long ph k p by auto
  qed
  then show ?thesis using assms(2,3) by (cases "FileBackend_ReadIntoMemory ReadFile h n") auto
qed

lemma FileBackend_WriteFromMemory_complete:
  assumes spec: "WriteFile_spec WriteFile content pos"
  shows "\<exists>h'. FileBackend_WriteFromMemory WriteFile h bs = Some (h', True)
      \<and> (bs \<noteq> [] \<longrightarrow> content h' = overwrite (content h) (pos h) bs) \<and> (bs = [] \<longrightarrow> h' = h)"
proof (induction bs arbitrary: h rule: length_induct)
  case (1 bs)
  show ?case
  proof (cases "bs = []")
    case True
    then show ?thesis by (simp add: FileBackend_WriteFromMemory.simps)
  next
    case False
    then have "take DWORD_max bs \<noteq> []" by (simp add: DWORD_max_def)
    with spec obtain h' k where w: "WriteFile h (take DWORD_max bs) = Some (h', k)"
      and k: "0 < k" "k \<le> length (take DWORD_max bs)"
      and p: "pos h' = pos h + k" and c: "content h' = overwrite (content h) (pos h) (take k (take DWORD_max bs))"
      unfolding WriteFile_spec_def by blast
    have tk: "take k (take DWORD_max bs) = take k bs" and kb: "k \<le> length bs"
      using k(2) by auto
    have "length (drop k bs) < length bs" using k kb by simp
    with 1 obtain h'' where rec: "FileBackend_WriteFromMemory WriteFile h' (drop k bs) = Some (h'', True)"
      "drop k bs \<noteq> [] \<longrightarrow> content h'' = overwrite (content h') (pos h') (drop k bs)"
      "drop k bs = [] \<longrightarrow> h'' = h'" by blast
    have "content h'' = overwrite (content h) (pos h) bs"
    proof (cases "drop k bs = []")
      case True
      then show ?thesis using rec(3) c tk kb by simp
    next
      case False
      then show ?thesis
        using rec(2) c p tk kb overwrite_append [of "content h" "pos h" "take k bs" "drop k bs"] by simp
    qed
    then show ?thesis
      using False w rec(1) by (subst FileBackend_WriteFromMemory.simps) simp
  qed
qed

end
