(* ===== verification/Blob_Location.thy ===== *)
theory Blob_Location
  imports Config
begin

text \<open>
  The three-part blob address of Network/common/BlobLocation.cpp with its comparison
  operators. The operators are translated as written; the type is then made an instance of
  \<open>linorder\<close>, which is what every ordered container keyed by a location relies on.
\<close>

datatype BlobLocation =
  BlobLocation (segment: segment_id) (cluster: cluster_id) (blob: blob_id)

definition location_lt :: "BlobLocation \<Rightarrow> BlobLocation \<Rightarrow> bool" where
  "location_lt a b =
     (if segment a < segment b then True
      else if segment a > segment b then False
      else if cluster a < cluster b then True
      else if cluster a > cluster b then False
      else blob a < blob b)"

definition location_le :: "BlobLocation \<Rightarrow> BlobLocation \<Rightarrow> bool" where
  "location_le a b = (a = b \<or> location_lt a b)"

definition location_gt :: "BlobLocation \<Rightarrow> BlobLocation \<Rightarrow> bool" where
  "location_gt a b = (\<not> location_le a b)"

definition location_ge :: "BlobLocation \<Rightarrow> BlobLocation \<Rightarrow> bool" where
  "location_ge a b = (\<not> location_lt a b)"

instantiation BlobLocation :: linorder
begin

definition less_BlobLocation :: "BlobLocation \<Rightarrow> BlobLocation \<Rightarrow> bool" where
  "less_BlobLocation = location_lt"

definition less_eq_BlobLocation :: "BlobLocation \<Rightarrow> BlobLocation \<Rightarrow> bool" where
  "less_eq_BlobLocation = location_le"

instance
proof
  fix x y z :: BlobLocation
  show "(x < y) = (x \<le> y \<and> \<not> y \<le> x)"
    by (cases x; cases y)
      (auto simp: less_BlobLocation_def less_eq_BlobLocation_def location_le_def location_lt_def)
  show "x \<le> x"
    by (simp add: less_eq_BlobLocation_def location_le_def)
  show "x \<le> y \<Longrightarrow> y \<le> z \<Longrightarrow> x \<le> z"
    by (cases x; cases y; cases z)
      (auto simp: less_eq_BlobLocation_def location_le_def location_lt_def split: if_splits)
  show "x \<le> y \<Longrightarrow> y \<le> x \<Longrightarrow> x = y"
    by (cases x; cases y)
      (auto simp: less_eq_BlobLocation_def location_le_def location_lt_def split: if_splits)
  show "x \<le> y \<or> y \<le> x"
    by (cases x; cases y)
      (auto simp: less_eq_BlobLocation_def location_le_def location_lt_def)
qed

end

lemma location_less_iff:
  "BlobLocation s c b < BlobLocation s' c' b' \<longleftrightarrow>
     s < s' \<or> s = s' \<and> (c < c' \<or> c = c' \<and> b < b')"
  by (auto simp: less_BlobLocation_def location_lt_def)

lemma location_le_iff:
  "BlobLocation s c b \<le> BlobLocation s' c' b' \<longleftrightarrow>
     s < s' \<or> s = s' \<and> (c < c' \<or> c = c' \<and> b \<le> b')"
  by (auto simp: less_eq_BlobLocation_def location_le_def location_lt_def)

lemma location_ops_order [simp]:
  "location_lt a b \<longleftrightarrow> a < b" "location_le a b \<longleftrightarrow> a \<le> b"
  "location_gt a b \<longleftrightarrow> b < a" "location_ge a b \<longleftrightarrow> b \<le> a"
  by (simp_all add: less_BlobLocation_def less_eq_BlobLocation_def location_gt_def
      location_ge_def linorder_not_less [symmetric] linorder_not_le [symmetric])
     (metis less_BlobLocation_def less_eq_BlobLocation_def not_le not_less)+

end
