(* ===== verification/Messages.thy ===== *)
theory Messages
  imports Blob_Location
begin

text \<open>
  The request messages of Network/message/ as the server sees them after decoding: the fixed
  header fields as record fields and the trailing array as a list. \<open>lockTimeoutMs\<close> and the
  transaction priority are signed integers of the source and are kept as \<open>int\<close>.
\<close>

datatype LockMode = LM_None | LM_Read | LM_Write | LM_Delete

record BlobAddress =
  ba_location :: BlobLocation
  ba_cacheCommitId :: commit_id

record BlobsRead =
  br_clientId :: client_id
  br_databaseId :: database_id
  br_lockMode :: LockMode
  br_lockTimeoutMs :: int
  br_blobs :: "BlobAddress list"

definition BlobsRead_NeedsWriteLock :: "BlobsRead \<Rightarrow> bool" where
  "BlobsRead_NeedsWriteLock m = (br_lockMode m = LM_Write \<or> br_lockMode m = LM_Delete)"

definition BlobsRead_IsDirtyRead :: "BlobsRead \<Rightarrow> bool" where
  "BlobsRead_IsDirtyRead m = (br_lockMode m = LM_None)"

abbreviation br_locations :: "BlobsRead \<Rightarrow> BlobLocation list" where
  "br_locations m \<equiv> map ba_location (br_blobs m)"

lemma dirty_read_needs_no_write_lock [simp]:
  "BlobsRead_IsDirtyRead m \<Longrightarrow> \<not> BlobsRead_NeedsWriteLock m"
  by (simp add: BlobsRead_IsDirtyRead_def BlobsRead_NeedsWriteLock_def)

text \<open>One entry of a \<open>TransactionCommit\<close>: the location and either the data to write or the
  delete marker \<open>blobSize = DeleteBlobSize\<close>, for which no data is transmitted.\<close>

record BlobData =
  bd_location :: BlobLocation
  bd_blobSize :: blob_size
  bd_data :: "byte list"

record TransactionCommit =
  tc_clientId :: client_id
  tc_databaseId :: database_id
  tc_hasFollowMessage :: bool
  tc_blobs :: "BlobData list"

datatype TxnMode = Txn_Update | Txn_UpdateKeepStickyLocks | Txn_MVCC

record TransactionBegin =
  tb_clientId :: client_id
  tb_transactionPriority :: int
  tb_databases :: "(database_id \<times> TxnMode) list"

end
