(* ===== verification/Memory_Blocks.thy ===== *)
theory Memory_Blocks
  imports Free_List File_Backend Messages "HOL-Library.Monad_Syntax"
begin

text \<open>
  The stored objects of ServerLib: \<open>Blob\<close>, \<open>Cluster\<close> and \<open>Segment\<close> with the operations of
  Blob.cpp, Cluster.cpp and Segment.cpp. Snapshots share these objects through shared pointers
  and modify them in place, so they live in an explicit heap that is addressed by pointers.
  Objects are never moved, and reclaiming unreachable ones is not modelled. \<open>None\<close> is a failed
  assertion or an exception.
\<close>

section \<open>Objects and heap\<close>

datatype Status = NOT_LOADED | LOADING | LOADED

type_synonym addr = nat

record Blob =
  bl_id :: blob_id
  bl_commitId :: commit_id
  bl_data :: "byte list"
  bl_fileLocation :: BlockReference
  bl_status :: Status

record Cluster =
  cl_id :: cluster_id
  cl_commitId :: commit_id
  cl_blobs :: "(blob_id, addr) flat_map"
  cl_nextFreeBlobId :: blob_id
  cl_nextFreeBlobIdBlob :: Blob
  cl_fileLocation :: BlockReference
  cl_status :: Status

record Segment =
  sg_id :: segment_id
  sg_commitId :: commit_id
  sg_clusters :: "(cluster_id, addr) flat_map"
  sg_nextFreeClusterId :: cluster_id
  sg_nextFreeClusterIdBlob :: Blob
  sg_fileLocation :: BlockReference
  sg_status :: Status

text \<open>A \<open>MemoryBlock*\<close>: the dynamic type of the block and its address.\<close>

datatype block = BlobBlock addr | ClusterBlock addr | SegmentBlock addr | SnapshotBlock commit_id | FreeListBlock

record Heap =
  hp_blobs :: "addr \<Rightarrow> Blob"
  hp_clusters :: "addr \<Rightarrow> Cluster"
  hp_segments :: "addr \<Rightarrow> Segment"
  hp_next :: addr

type_synonym delta = "block MemoryBlockDelta option"

definition no_location :: BlockReference where
  "no_location = \<lparr>ref_offset = 0, ref_size = 0\<rparr>"

definition max_commit_id :: commit_id where
  "max_commit_id = - 1"

abbreviation set_blob :: "addr \<Rightarrow> Blob \<Rightarrow> Heap \<Rightarrow> Heap" where
  "set_blob p b h \<equiv> h\<lparr>hp_blobs := (hp_blobs h)(p := b)\<rparr>"

abbreviation set_cluster :: "addr \<Rightarrow> Cluster \<Rightarrow> Heap \<Rightarrow> Heap" where
  "set_cluster a c h \<equiv> h\<lparr>hp_clusters := (hp_clusters h)(a := c)\<rparr>"

abbreviation set_segment :: "addr \<Rightarrow> Segment \<Rightarrow> Heap \<Rightarrow> Heap" where
  "set_segment a s h \<equiv> h\<lparr>hp_segments := (hp_segments h)(a := s)\<rparr>"

text \<open>\<open>std::make_shared\<close> for the three kinds of objects.\<close>

definition new_blob :: "Blob \<Rightarrow> Heap \<Rightarrow> addr \<times> Heap" where
  "new_blob b h = (hp_next h, (set_blob (hp_next h) b h)\<lparr>hp_next := Suc (hp_next h)\<rparr>)"

definition new_cluster :: "Cluster \<Rightarrow> Heap \<Rightarrow> addr \<times> Heap" where
  "new_cluster c h = (hp_next h, (set_cluster (hp_next h) c h)\<lparr>hp_next := Suc (hp_next h)\<rparr>)"

definition new_segment :: "Segment \<Rightarrow> Heap \<Rightarrow> addr \<times> Heap" where
  "new_segment s h = (hp_next h, (set_segment (hp_next h) s h)\<lparr>hp_next := Suc (hp_next h)\<rparr>)"

text \<open>\<open>if (delta) delta->Released(block)\<close> and \<open>if (delta) delta->Allocated(block)\<close>.\<close>

definition mark_released :: "block \<Rightarrow> delta \<Rightarrow> delta option" where
  "mark_released b d = (case d of None \<Rightarrow> Some None | Some d' \<Rightarrow> map_option Some (Delta_Released b d'))"

definition mark_allocated :: "block \<Rightarrow> delta \<Rightarrow> delta option" where
  "mark_allocated b d = (case d of None \<Rightarrow> Some None | Some d' \<Rightarrow> map_option Some (Delta_Allocated b d'))"

fun mark_all_released :: "block list \<Rightarrow> delta \<Rightarrow> delta option" where
  "mark_all_released [] d = Some d"
| "mark_all_released (b # bs) d = do { d \<leftarrow> mark_released b d; mark_all_released bs d }"

section \<open>Blob\<close>

definition Blob_new :: "blob_id \<Rightarrow> commit_id \<Rightarrow> Blob" where
  "Blob_new i commitId = \<lparr>bl_id = i, bl_commitId = commitId, bl_data = [],
     bl_fileLocation = no_location, bl_status = LOADED\<rparr>"

definition Blob_SetIdContent :: "uint32_t \<Rightarrow> Blob \<Rightarrow> Blob" where
  "Blob_SetIdContent v b = b\<lparr>bl_data := u32_bytes v\<rparr>"

definition Blob_SetContent :: "byte list \<Rightarrow> Blob \<Rightarrow> Blob" where
  "Blob_SetContent content b = b\<lparr>bl_data := content\<rparr>"

definition Blob_ReadContent :: "Blob \<Rightarrow> byte list" where
  "Blob_ReadContent b = bl_data b"

definition Blob_ReadIdContent :: "Blob \<Rightarrow> uint32_t" where
  "Blob_ReadIdContent b = (if length (bl_data b) = 4 then u32_of (bl_data b) else 0)"

definition Blob_CalculateRequiredSize :: "Blob \<Rightarrow> uint64_t" where
  "Blob_CalculateRequiredSize b = 8 + of_nat (length (bl_data b))"

definition Blob_SerializeIntoBuffer :: "Blob \<Rightarrow> byte list \<Rightarrow> byte list option" where
  "Blob_SerializeIntoBuffer b targetBuffer =
     serialize_blob (bl_commitId b) (bl_data b) (unat (ref_size (bl_fileLocation b))) targetBuffer"

definition Blob_LoadFrom :: "byte list \<Rightarrow> addr \<Rightarrow> Heap \<Rightarrow> Heap option" where
  "Blob_LoadFrom file p h =
     (let b = hp_blobs h p in
      if bl_status b = LOADED then None
      else do {
        fileBlob \<leftarrow> LoadMemoryBlock file (bl_fileLocation b);
        (commitId, content) \<leftarrow> load_blob fileBlob;
        Some (set_blob p (b\<lparr>bl_commitId := commitId, bl_data := content, bl_status := LOADED\<rparr>) h)
      })"

section \<open>Cluster\<close>

definition Cluster_new :: "cluster_id \<Rightarrow> commit_id \<Rightarrow> Cluster" where
  "Cluster_new i commitId = \<lparr>cl_id = i, cl_commitId = commitId, cl_blobs = [], cl_nextFreeBlobId = 0,
     cl_nextFreeBlobIdBlob = Blob_SetIdContent 0 (Blob_new NextFreeBlobId commitId),
     cl_fileLocation = no_location, cl_status = LOADED\<rparr>"

definition Cluster_copy :: "Cluster \<Rightarrow> commit_id \<Rightarrow> Cluster" where
  "Cluster_copy other commitId = \<lparr>cl_id = cl_id other, cl_commitId = commitId, cl_blobs = cl_blobs other,
     cl_nextFreeBlobId = cl_nextFreeBlobId other,
     cl_nextFreeBlobIdBlob = Blob_SetIdContent (cl_nextFreeBlobId other) (Blob_new NextFreeBlobId commitId),
     cl_fileLocation = no_location, cl_status = LOADED\<rparr>"

definition Cluster_GetBlob :: "Cluster \<Rightarrow> blob_id \<Rightarrow> addr option" where
  "Cluster_GetBlob c blobId = fm_lookup (cl_blobs c) blobId"

text \<open>The common part of the loading loops: load a blob that is not loaded yet.\<close>

definition ensure_blob_loaded :: "byte list \<Rightarrow> addr \<Rightarrow> Heap \<Rightarrow> Heap option" where
  "ensure_blob_loaded file p h = (if bl_status (hp_blobs h p) \<noteq> LOADED then Blob_LoadFrom file p h else Some h)"

definition Cluster_GetLoadedBlob ::
  "byte list \<Rightarrow> addr \<Rightarrow> blob_id \<Rightarrow> Heap \<Rightarrow> (Blob option \<times> Heap) option" where
  "Cluster_GetLoadedBlob file a blobId h =
     (if blobId = NextFreeBlobId then Some (Some (cl_nextFreeBlobIdBlob (hp_clusters h a)), h)
      else case Cluster_GetBlob (hp_clusters h a) blobId of
             None \<Rightarrow> Some (None, h)
           | Some p \<Rightarrow> do { h \<leftarrow> ensure_blob_loaded file p h; Some (Some (hp_blobs h p), h) })"

fun load_blobs :: "byte list \<Rightarrow> addr list \<Rightarrow> Heap \<Rightarrow> Heap option" where
  "load_blobs file [] h = Some h"
| "load_blobs file (p # ps) h = do { h \<leftarrow> ensure_blob_loaded file p h; load_blobs file ps h }"

definition Cluster_LoadAllBlobs :: "byte list \<Rightarrow> addr \<Rightarrow> Heap \<Rightarrow> Heap option" where
  "Cluster_LoadAllBlobs file a h =
     (if cl_status (hp_clusters h a) \<noteq> LOADED then None
      else load_blobs file (map snd (cl_blobs (hp_clusters h a))) h)"

definition Cluster_replaceBlob :: "addr \<Rightarrow> blob_id \<Rightarrow> Heap \<Rightarrow> delta \<Rightarrow> (addr \<times> Heap \<times> delta) option" where
  "Cluster_replaceBlob a blobId h d =
     (let c = hp_clusters h a;
          (p, h1) = new_blob (Blob_new blobId (cl_commitId c)) h;
          h2 = set_cluster a (c\<lparr>cl_blobs := fm_assign (cl_blobs c) blobId p\<rparr>) h1
      in do { d \<leftarrow> mark_allocated (BlobBlock p) d; Some (p, h2, d) })"

definition Cluster_UpdateBlob :: "addr \<Rightarrow> blob_id \<Rightarrow> Heap \<Rightarrow> delta \<Rightarrow> (addr \<times> Heap \<times> delta) option" where
  "Cluster_UpdateBlob a blobId h d =
     (let c = hp_clusters h a in
      case fm_lookup (cl_blobs c) blobId of
        None \<Rightarrow> Cluster_replaceBlob a blobId h d
      | Some p \<Rightarrow>
          if bl_commitId (hp_blobs h p) \<noteq> cl_commitId c
          then do { d \<leftarrow> mark_released (BlobBlock p) d; Cluster_replaceBlob a blobId h d }
          else Some (p, h, d))"

definition Cluster_DeleteBlob :: "addr \<Rightarrow> blob_id \<Rightarrow> Heap \<Rightarrow> delta \<Rightarrow> (Heap \<times> delta) option" where
  "Cluster_DeleteBlob a blobId h d =
     (let c = hp_clusters h a in
      case fm_lookup (cl_blobs c) blobId of
        None \<Rightarrow> Some (h, d)
      | Some p \<Rightarrow> do {
          d \<leftarrow> mark_released (BlobBlock p) d;
          Some (set_cluster a (c\<lparr>cl_blobs := fm_delete (cl_blobs c) blobId\<rparr>) h, d) })"

definition Cluster_ReleaseAllBlobs :: "Cluster \<Rightarrow> delta \<Rightarrow> delta option" where
  "Cluster_ReleaseAllBlobs c d = mark_all_released (map (BlobBlock \<circ> snd) (cl_blobs c)) d"

definition Cluster_SetNextFreeBlobId :: "blob_id \<Rightarrow> Cluster \<Rightarrow> Cluster" where
  "Cluster_SetNextFreeBlobId nextFreeId c =
     c\<lparr>cl_nextFreeBlobId := nextFreeId,
       cl_nextFreeBlobIdBlob := Blob_SetIdContent nextFreeId (cl_nextFreeBlobIdBlob c)\<rparr>"

definition blob_table :: "Heap \<Rightarrow> (blob_id, addr) flat_map \<Rightarrow> table" where
  "blob_table h m = map (\<lambda>(k, p). (k, bl_fileLocation (hp_blobs h p))) m"

definition Cluster_CalculateRequiredSize :: "Heap \<Rightarrow> Cluster \<Rightarrow> uint64_t" where
  "Cluster_CalculateRequiredSize h c = of_nat (table_required_size (blob_table h (cl_blobs c)))"

definition Cluster_SerializeIntoBuffer :: "Heap \<Rightarrow> Cluster \<Rightarrow> byte list \<Rightarrow> byte list option" where
  "Cluster_SerializeIntoBuffer h c targetBuffer =
     serialize_table (cl_commitId c) (cl_nextFreeBlobId c) (Some (cl_id c)) (blob_table h (cl_blobs c))
       (unat (ref_size (cl_fileLocation c))) targetBuffer"

definition Cluster_DelayLoadBlob :: "addr \<Rightarrow> blob_id \<times> BlockReference \<Rightarrow> Heap \<Rightarrow> Heap option" where
  "Cluster_DelayLoadBlob a = (\<lambda>(blobId, location) h.
     let c = hp_clusters h a in
     if fm_lookup (cl_blobs c) blobId \<noteq> None then None
     else let (p, h1) = new_blob ((Blob_new blobId max_commit_id)
                          \<lparr>bl_status := NOT_LOADED, bl_fileLocation := location\<rparr>) h
          in Some (set_cluster a (c\<lparr>cl_blobs := fm_assign (cl_blobs c) blobId p\<rparr>) h1))"

fun delay_load_blobs :: "addr \<Rightarrow> table \<Rightarrow> Heap \<Rightarrow> Heap option" where
  "delay_load_blobs a [] h = Some h"
| "delay_load_blobs a (e # es) h = do { h \<leftarrow> Cluster_DelayLoadBlob a e h; delay_load_blobs a es h }"

definition Cluster_LoadFrom :: "byte list \<Rightarrow> addr \<Rightarrow> Heap \<Rightarrow> Heap option" where
  "Cluster_LoadFrom file a h =
     (let c = hp_clusters h a in
      if cl_status c = LOADED then None
      else do {
        fileCluster \<leftarrow> LoadMemoryBlock file (cl_fileLocation c);
        (commitId, nextFree, entries) \<leftarrow> load_table fileCluster;
        h \<leftarrow> delay_load_blobs a entries
               (set_cluster a (Cluster_SetNextFreeBlobId nextFree (c\<lparr>cl_commitId := commitId\<rparr>)) h);
        Some (set_cluster a ((hp_clusters h a)\<lparr>cl_status := LOADED\<rparr>) h)
      })"

section \<open>Segment\<close>

definition Segment_new :: "segment_id \<Rightarrow> commit_id \<Rightarrow> Segment" where
  "Segment_new i commitId = \<lparr>sg_id = i, sg_commitId = commitId, sg_clusters = [], sg_nextFreeClusterId = 0,
     sg_nextFreeClusterIdBlob = Blob_SetIdContent 0 (Blob_new NextFreeBlobId commitId),
     sg_fileLocation = no_location, sg_status = LOADED\<rparr>"

definition Segment_copy :: "Segment \<Rightarrow> commit_id \<Rightarrow> Segment" where
  "Segment_copy other commitId = \<lparr>sg_id = sg_id other, sg_commitId = commitId, sg_clusters = sg_clusters other,
     sg_nextFreeClusterId = sg_nextFreeClusterId other,
     sg_nextFreeClusterIdBlob = Blob_SetIdContent (sg_nextFreeClusterId other) (Blob_new NextFreeBlobId commitId),
     sg_fileLocation = no_location, sg_status = LOADED\<rparr>"

definition Segment_GetCluster :: "Segment \<Rightarrow> cluster_id \<Rightarrow> addr option" where
  "Segment_GetCluster s clusterId = fm_lookup (sg_clusters s) clusterId"

definition ensure_cluster_loaded :: "byte list \<Rightarrow> addr \<Rightarrow> Heap \<Rightarrow> Heap option" where
  "ensure_cluster_loaded file a h =
     (if cl_status (hp_clusters h a) \<noteq> LOADED then Cluster_LoadFrom file a h else Some h)"

definition Segment_GetLoadedCluster ::
  "byte list \<Rightarrow> addr \<Rightarrow> cluster_id \<Rightarrow> Heap \<Rightarrow> (addr option \<times> Heap) option" where
  "Segment_GetLoadedCluster file s clusterId h =
     (case Segment_GetCluster (hp_segments h s) clusterId of
        None \<Rightarrow> Some (None, h)
      | Some a \<Rightarrow> do { h \<leftarrow> ensure_cluster_loaded file a h; Some (Some a, h) })"

fun load_clusters :: "byte list \<Rightarrow> addr list \<Rightarrow> Heap \<Rightarrow> Heap option" where
  "load_clusters file [] h = Some h"
| "load_clusters file (a # as) h = do { h \<leftarrow> ensure_cluster_loaded file a h; load_clusters file as h }"

definition Segment_LoadAllClusters :: "byte list \<Rightarrow> addr \<Rightarrow> Heap \<Rightarrow> Heap option" where
  "Segment_LoadAllClusters file s h =
     (if sg_status (hp_segments h s) \<noteq> LOADED then None
      else load_clusters file (map snd (sg_clusters (hp_segments h s))) h)"

fun load_clusters_and_blobs :: "byte list \<Rightarrow> addr list \<Rightarrow> Heap \<Rightarrow> Heap option" where
  "load_clusters_and_blobs file [] h = Some h"
| "load_clusters_and_blobs file (a # as) h = do {
     h \<leftarrow> ensure_cluster_loaded file a h;
     h \<leftarrow> Cluster_LoadAllBlobs file a h;
     load_clusters_and_blobs file as h }"

definition Segment_LoadAllBlobs :: "byte list \<Rightarrow> addr \<Rightarrow> Heap \<Rightarrow> Heap option" where
  "Segment_LoadAllBlobs file s h =
     (if sg_status (hp_segments h s) \<noteq> LOADED then None
      else load_clusters_and_blobs file (map snd (sg_clusters (hp_segments h s))) h)"

definition Segment_createCluster :: "addr \<Rightarrow> cluster_id \<Rightarrow> Heap \<Rightarrow> delta \<Rightarrow> (addr \<times> Heap \<times> delta) option" where
  "Segment_createCluster s clusterId h d =
     (let seg = hp_segments h s;
          (a, h1) = new_cluster (Cluster_new clusterId (sg_commitId seg)) h;
          h2 = set_segment s (seg\<lparr>sg_clusters := fm_assign (sg_clusters seg) clusterId a\<rparr>) h1
      in do {
        (_, h3, d) \<leftarrow> Cluster_UpdateBlob a 0 h2 d;
        let h4 = set_cluster a (Cluster_SetNextFreeBlobId 1 (hp_clusters h3 a)) h3;
        d \<leftarrow> mark_allocated (ClusterBlock a) d;
        Some (a, h4, d) })"

definition Segment_UpdateCluster :: "addr \<Rightarrow> cluster_id \<Rightarrow> Heap \<Rightarrow> delta \<Rightarrow> (addr \<times> Heap \<times> delta) option" where
  "Segment_UpdateCluster s clusterId h d =
     (let seg = hp_segments h s in
      case fm_lookup (sg_clusters seg) clusterId of
        None \<Rightarrow> Segment_createCluster s clusterId h d
      | Some a \<Rightarrow>
          if cl_commitId (hp_clusters h a) \<noteq> sg_commitId seg
          then do {
            d \<leftarrow> mark_released (ClusterBlock a) d;
            let (a', h1) = new_cluster (Cluster_copy (hp_clusters h a) (sg_commitId seg)) h;
            let h2 = set_segment s (seg\<lparr>sg_clusters := fm_assign (sg_clusters seg) clusterId a'\<rparr>) h1;
            d \<leftarrow> mark_allocated (ClusterBlock a') d;
            Some (a', h2, d) }
          else Some (a, h, d))"

definition Segment_DeleteCluster :: "addr \<Rightarrow> cluster_id \<Rightarrow> Heap \<Rightarrow> delta \<Rightarrow> (Heap \<times> delta) option" where
  "Segment_DeleteCluster s clusterId h d =
     (let seg = hp_segments h s in
      case fm_lookup (sg_clusters seg) clusterId of
        None \<Rightarrow> Some (h, d)
      | Some a \<Rightarrow> do {
          d \<leftarrow> (if d = None then Some d
                else do { d \<leftarrow> mark_released (ClusterBlock a) d; Cluster_ReleaseAllBlobs (hp_clusters h a) d });
          Some (set_segment s (seg\<lparr>sg_clusters := fm_delete (sg_clusters seg) clusterId\<rparr>) h, d) })"

fun release_clusters :: "Heap \<Rightarrow> addr list \<Rightarrow> delta \<Rightarrow> delta option" where
  "release_clusters h [] d = Some d"
| "release_clusters h (a # as) d = do {
     d \<leftarrow> mark_released (ClusterBlock a) d;
     d \<leftarrow> Cluster_ReleaseAllBlobs (hp_clusters h a) d;
     release_clusters h as d }"

definition Segment_ReleaseAllClusters :: "Heap \<Rightarrow> Segment \<Rightarrow> delta \<Rightarrow> delta option" where
  "Segment_ReleaseAllClusters h s d = release_clusters h (map snd (sg_clusters s)) d"

definition Segment_GetLoadedBlob ::
  "byte list \<Rightarrow> addr \<Rightarrow> cluster_id \<Rightarrow> blob_id \<Rightarrow> Heap \<Rightarrow> (Blob option \<times> Heap) option" where
  "Segment_GetLoadedBlob file s clusterId blobId h =
     (if clusterId = NextFreeClusterId \<and> blobId = NextFreeBlobId
      then Some (Some (sg_nextFreeClusterIdBlob (hp_segments h s)), h)
      else do {
        (clusterObj, h) \<leftarrow> Segment_GetLoadedCluster file s clusterId h;
        case clusterObj of None \<Rightarrow> Some (None, h) | Some a \<Rightarrow> Cluster_GetLoadedBlob file a blobId h })"

definition Segment_SetNextFreeClusterId :: "cluster_id \<Rightarrow> Segment \<Rightarrow> Segment" where
  "Segment_SetNextFreeClusterId nextFreeId s =
     s\<lparr>sg_nextFreeClusterId := nextFreeId,
       sg_nextFreeClusterIdBlob := Blob_SetIdContent nextFreeId (sg_nextFreeClusterIdBlob s)\<rparr>"

definition cluster_table :: "Heap \<Rightarrow> (cluster_id, addr) flat_map \<Rightarrow> table" where
  "cluster_table h m = map (\<lambda>(k, a). (k, cl_fileLocation (hp_clusters h a))) m"

definition Segment_CalculateRequiredSize :: "Heap \<Rightarrow> Segment \<Rightarrow> uint64_t" where
  "Segment_CalculateRequiredSize h s = of_nat (table_required_size (cluster_table h (sg_clusters s)))"

definition Segment_SerializeIntoBuffer :: "Heap \<Rightarrow> Segment \<Rightarrow> byte list \<Rightarrow> byte list option" where
  "Segment_SerializeIntoBuffer h s targetBuffer =
     serialize_table (sg_commitId s) (sg_nextFreeClusterId s) (Some (sg_id s)) (cluster_table h (sg_clusters s))
       (unat (ref_size (sg_fileLocation s))) targetBuffer"

definition Segment_DelayLoadCluster :: "addr \<Rightarrow> cluster_id \<times> BlockReference \<Rightarrow> Heap \<Rightarrow> Heap option" where
  "Segment_DelayLoadCluster s = (\<lambda>(clusterId, location) h.
     let seg = hp_segments h s in
     if fm_lookup (sg_clusters seg) clusterId \<noteq> None then None
     else let (a, h1) = new_cluster ((Cluster_new clusterId max_commit_id)
                          \<lparr>cl_status := NOT_LOADED, cl_fileLocation := location\<rparr>) h
          in Some (set_segment s (seg\<lparr>sg_clusters := fm_assign (sg_clusters seg) clusterId a\<rparr>) h1))"

fun delay_load_clusters :: "addr \<Rightarrow> table \<Rightarrow> Heap \<Rightarrow> Heap option" where
  "delay_load_clusters s [] h = Some h"
| "delay_load_clusters s (e # es) h = do { h \<leftarrow> Segment_DelayLoadCluster s e h; delay_load_clusters s es h }"

definition Segment_LoadFrom :: "byte list \<Rightarrow> addr \<Rightarrow> Heap \<Rightarrow> Heap option" where
  "Segment_LoadFrom file s h =
     (let seg = hp_segments h s in
      if sg_status seg = LOADED then None
      else do {
        fileSegment \<leftarrow> LoadMemoryBlock file (sg_fileLocation seg);
        (commitId, nextFree, entries) \<leftarrow> load_table fileSegment;
        h \<leftarrow> delay_load_clusters s entries
               (set_segment s (Segment_SetNextFreeClusterId nextFree (seg\<lparr>sg_commitId := commitId\<rparr>)) h);
        Some (set_segment s ((hp_segments h s)\<lparr>sg_status := LOADED\<rparr>) h)
      })"

end
