(* ===== verification/Db_Snapshot.thy ===== *)
theory Db_Snapshot
  imports Memory_Blocks
begin

text \<open>
  \<open>Database::Snapshot\<close> of ServerLib/Database.cpp: looking up and loading stored objects, the
  copy-on-write update operations and the application of commit messages. The commit id is the
  identity of a snapshot object. A snapshot is mutable only while a commit builds it.
\<close>

record Snapshot =
  sn_commitId :: commit_id
  sn_nextFreeSegmentId :: segment_id
  sn_segments :: "(segment_id, addr) flat_map"
  sn_nextFreeSegmentIdBlob :: Blob
  sn_fileLocation :: BlockReference

definition Snapshot_new :: "commit_id \<Rightarrow> Snapshot" where
  "Snapshot_new commitId = \<lparr>sn_commitId = commitId, sn_nextFreeSegmentId = 0, sn_segments = [],
     sn_nextFreeSegmentIdBlob = Blob_SetIdContent 0 (Blob_new NextFreeBlobId commitId),
     sn_fileLocation = no_location\<rparr>"

definition Snapshot_copy :: "Snapshot \<Rightarrow> Snapshot" where
  "Snapshot_copy other = \<lparr>sn_commitId = sn_commitId other + 1, sn_nextFreeSegmentId = sn_nextFreeSegmentId other,
     sn_segments = sn_segments other, sn_nextFreeSegmentIdBlob = sn_nextFreeSegmentIdBlob other,
     sn_fileLocation = no_location\<rparr>"

definition Snapshot_GetSegment :: "Snapshot \<Rightarrow> segment_id \<Rightarrow> addr option" where
  "Snapshot_GetSegment sn segmentId = fm_lookup (sn_segments sn) segmentId"

definition ensure_segment_loaded :: "byte list \<Rightarrow> addr \<Rightarrow> Heap \<Rightarrow> Heap option" where
  "ensure_segment_loaded file s h =
     (if sg_status (hp_segments h s) \<noteq> LOADED then Segment_LoadFrom file s h else Some h)"

definition Snapshot_GetLoadedSegment ::
  "byte list \<Rightarrow> Snapshot \<Rightarrow> segment_id \<Rightarrow> Heap \<Rightarrow> (addr option \<times> Heap) option" where
  "Snapshot_GetLoadedSegment file sn segmentId h =
     (case Snapshot_GetSegment sn segmentId of
        None \<Rightarrow> Some (None, h)
      | Some s \<Rightarrow> do { h \<leftarrow> ensure_segment_loaded file s h; Some (Some s, h) })"

definition Snapshot_GetLoadedCluster ::
  "byte list \<Rightarrow> Snapshot \<Rightarrow> segment_id \<Rightarrow> cluster_id \<Rightarrow> Heap \<Rightarrow> (addr option \<times> Heap) option" where
  "Snapshot_GetLoadedCluster file sn segmentId clusterId h = do {
     (seg, h) \<leftarrow> Snapshot_GetLoadedSegment file sn segmentId h;
     case seg of None \<Rightarrow> Some (None, h) | Some s \<Rightarrow> Segment_GetLoadedCluster file s clusterId h }"

definition Snapshot_GetLoadedBlob ::
  "byte list \<Rightarrow> Snapshot \<Rightarrow> BlobLocation \<Rightarrow> Heap \<Rightarrow> (Blob option \<times> Heap) option" where
  "Snapshot_GetLoadedBlob file sn location h =
     (if segment location = NextFreeSegmentId \<and> cluster location = NextFreeClusterId
         \<and> blob location = NextFreeBlobId
      then Some (Some (sn_nextFreeSegmentIdBlob sn), h)
      else do {
        (seg, h) \<leftarrow> Snapshot_GetLoadedSegment file sn (segment location) h;
        case seg of None \<Rightarrow> Some (None, h)
        | Some s \<Rightarrow> Segment_GetLoadedBlob file s (cluster location) (blob location) h })"

definition Snapshot_createSegment ::
  "segment_id \<Rightarrow> Snapshot \<Rightarrow> Heap \<Rightarrow> delta \<Rightarrow> (addr \<times> Snapshot \<times> Heap \<times> delta) option" where
  "Snapshot_createSegment segmentId sn h d =
     (let (s, h1) = new_segment (Segment_new segmentId (sn_commitId sn)) h;
          sn1 = sn\<lparr>sn_segments := fm_assign (sn_segments sn) segmentId s\<rparr>
      in do {
        (_, h2, d) \<leftarrow> Segment_UpdateCluster s 0 h1 d;
        let h3 = set_segment s (Segment_SetNextFreeClusterId 1 (hp_segments h2 s)) h2;
        d \<leftarrow> mark_allocated (SegmentBlock s) d;
        Some (s, sn1, h3, d) })"

definition Snapshot_UpdateSegment ::
  "segment_id \<Rightarrow> Snapshot \<Rightarrow> Heap \<Rightarrow> delta \<Rightarrow> (addr \<times> Snapshot \<times> Heap \<times> delta) option" where
  "Snapshot_UpdateSegment segmentId sn h d =
     (case fm_lookup (sn_segments sn) segmentId of
        None \<Rightarrow> Snapshot_createSegment segmentId sn h d
      | Some s \<Rightarrow>
          if sg_commitId (hp_segments h s) \<noteq> sn_commitId sn
          then do {
            d \<leftarrow> mark_released (SegmentBlock s) d;
            let (s', h1) = new_segment (Segment_copy (hp_segments h s) (sn_commitId sn)) h;
            let sn1 = sn\<lparr>sn_segments := fm_assign (sn_segments sn) segmentId s'\<rparr>;
            d \<leftarrow> mark_allocated (SegmentBlock s') d;
            Some (s', sn1, h1, d) }
          else Some (s, sn, h, d))"

definition Snapshot_DelayLoadSegment ::
  "segment_id \<times> BlockReference \<Rightarrow> Snapshot \<times> Heap \<Rightarrow> (Snapshot \<times> Heap) option" where
  "Snapshot_DelayLoadSegment = (\<lambda>(segmentId, location) (sn, h).
     if fm_lookup (sn_segments sn) segmentId \<noteq> None then None
     else let (s, h1) = new_segment ((Segment_new segmentId max_commit_id)
                          \<lparr>sg_status := NOT_LOADED, sg_fileLocation := location\<rparr>) h
          in Some (sn\<lparr>sn_segments := fm_assign (sn_segments sn) segmentId s\<rparr>, h1))"

definition Snapshot_DeleteSegment ::
  "segment_id \<Rightarrow> Snapshot \<Rightarrow> Heap \<Rightarrow> delta \<Rightarrow> (Snapshot \<times> delta) option" where
  "Snapshot_DeleteSegment segmentId sn h d =
     (case fm_lookup (sn_segments sn) segmentId of
        None \<Rightarrow> Some (sn, d)
      | Some s \<Rightarrow> do {
          d \<leftarrow> (if d = None then Some d
                else do { d \<leftarrow> mark_released (SegmentBlock s) d;
                          Segment_ReleaseAllClusters h (hp_segments h s) d });
          Some (sn\<lparr>sn_segments := fm_delete (sn_segments sn) segmentId\<rparr>, d) })"

definition Snapshot_SetNextFreeSegmentId :: "segment_id \<Rightarrow> Snapshot \<Rightarrow> Snapshot" where
  "Snapshot_SetNextFreeSegmentId nextFreeId sn =
     sn\<lparr>sn_nextFreeSegmentId := nextFreeId,
        sn_nextFreeSegmentIdBlob := Blob_SetIdContent nextFreeId (sn_nextFreeSegmentIdBlob sn)\<rparr>"

definition segment_table :: "Heap \<Rightarrow> (segment_id, addr) flat_map \<Rightarrow> table" where
  "segment_table h m = map (\<lambda>(k, s). (k, sg_fileLocation (hp_segments h s))) m"

definition Snapshot_CalculateRequiredSize :: "Heap \<Rightarrow> Snapshot \<Rightarrow> uint64_t" where
  "Snapshot_CalculateRequiredSize h sn = of_nat (table_required_size (segment_table h (sn_segments sn)))"

definition Snapshot_SerializeIntoBuffer :: "Heap \<Rightarrow> Snapshot \<Rightarrow> byte list \<Rightarrow> byte list option" where
  "Snapshot_SerializeIntoBuffer h sn targetBuffer =
     serialize_table (sn_commitId sn) (sn_nextFreeSegmentId sn) None (segment_table h (sn_segments sn))
       (unat (ref_size (sn_fileLocation sn))) targetBuffer"

section \<open>Deleted objects of a commit\<close>

record Deleted =
  del_blobs :: "BlobLocation list"
  del_clusters :: "(segment_id \<times> cluster_id) list"
  del_segments :: "segment_id list"

definition Deleted_IsDeleted :: "Deleted \<Rightarrow> BlobLocation \<Rightarrow> bool" where
  "Deleted_IsDeleted del location =
     (segment location \<in> set (del_segments del)
      \<or> (segment location, cluster location) \<in> set (del_clusters del)
      \<or> location \<in> set (del_blobs del))"

section \<open>Applying commit messages\<close>

record CommitState =
  cs_snapshot :: Snapshot
  cs_heap :: Heap
  cs_delta :: delta
  cs_deleted :: Deleted

text \<open>\<open>pos.ReadId<T>()\<close>: the first four bytes of the transmitted data.\<close>

definition ReadId :: "BlobData \<Rightarrow> uint32_t" where
  "ReadId u = u32_of (take 4 (bd_data u))"

definition apply_segment_delete :: "bool \<Rightarrow> byte list \<Rightarrow> BlobData \<Rightarrow> CommitState \<Rightarrow> CommitState option" where
  "apply_segment_delete hasMVCCSnapshot file u cs =
     (let sid = segment (bd_location u) in
      if blob (bd_location u) \<noteq> ClusterDeleteId then None
      else do {
        (seg, h) \<leftarrow> Snapshot_GetLoadedSegment file (cs_snapshot cs) sid (cs_heap cs);
        h \<leftarrow> (case seg of None \<Rightarrow> Some h
              | Some s \<Rightarrow> if hasMVCCSnapshot then Segment_LoadAllBlobs file s h
                          else Segment_LoadAllClusters file s h);
        (sn, d) \<leftarrow> Snapshot_DeleteSegment sid (cs_snapshot cs) h (cs_delta cs);
        Some (cs\<lparr>cs_snapshot := sn, cs_heap := h, cs_delta := d,
                 cs_deleted := (cs_deleted cs)\<lparr>del_segments := del_segments (cs_deleted cs) @ [sid]\<rparr>\<rparr>) })"

definition apply_cluster_delete :: "bool \<Rightarrow> byte list \<Rightarrow> BlobData \<Rightarrow> addr \<Rightarrow> CommitState \<Rightarrow> CommitState option" where
  "apply_cluster_delete hasMVCCSnapshot file u s cs =
     (let cid = cluster (bd_location u) in do {
        (cl, h) \<leftarrow> Segment_GetLoadedCluster file s cid (cs_heap cs);
        h \<leftarrow> (case cl of None \<Rightarrow> Some h
              | Some a \<Rightarrow> if hasMVCCSnapshot then Cluster_LoadAllBlobs file a h else Some h);
        (h, d) \<leftarrow> Segment_DeleteCluster s cid h (cs_delta cs);
        Some (cs\<lparr>cs_heap := h, cs_delta := d,
                 cs_deleted := (cs_deleted cs)
                   \<lparr>del_clusters := del_clusters (cs_deleted cs) @ [(segment (bd_location u), cid)]\<rparr>\<rparr>) })"

definition load_for_mvcc :: "bool \<Rightarrow> byte list \<Rightarrow> addr \<Rightarrow> blob_id \<Rightarrow> Heap \<Rightarrow> Heap option" where
  "load_for_mvcc hasMVCCSnapshot file a blobId h =
     (if hasMVCCSnapshot then map_option snd (Cluster_GetLoadedBlob file a blobId h) else Some h)"

definition apply_blob_update :: "bool \<Rightarrow> byte list \<Rightarrow> BlobData \<Rightarrow> addr \<Rightarrow> CommitState \<Rightarrow> CommitState option" where
  "apply_blob_update hasMVCCSnapshot file u a cs =
     (let bid = blob (bd_location u); h = cs_heap cs; d = cs_delta cs in
      if bid = NextFreeBlobId
      then Some (cs\<lparr>cs_heap := set_cluster a (Cluster_SetNextFreeBlobId (ReadId u) (hp_clusters h a)) h\<rparr>)
      else if bd_blobSize u = DeleteBlobSize
      then do {
        h \<leftarrow> load_for_mvcc hasMVCCSnapshot file a bid h;
        (h, d) \<leftarrow> Cluster_DeleteBlob a bid h d;
        Some (cs\<lparr>cs_heap := h, cs_delta := d,
                 cs_deleted := (cs_deleted cs)\<lparr>del_blobs := del_blobs (cs_deleted cs) @ [bd_location u]\<rparr>\<rparr>) }
      else do {
        h \<leftarrow> load_for_mvcc hasMVCCSnapshot file a bid h;
        (p, h, d) \<leftarrow> Cluster_UpdateBlob a bid h d;
        Some (cs\<lparr>cs_heap := set_blob p (Blob_SetContent (bd_data u) (hp_blobs h p)) h, cs_delta := d\<rparr>) })"

definition apply_update :: "bool \<Rightarrow> byte list \<Rightarrow> BlobData \<Rightarrow> CommitState \<Rightarrow> CommitState option" where
  "apply_update hasMVCCSnapshot file u cs =
     (let loc = bd_location u in
      if segment loc = NextFreeSegmentId
      then if cluster loc \<noteq> NextFreeClusterId \<or> blob loc \<noteq> NextFreeBlobId then None
           else Some (cs\<lparr>cs_snapshot := Snapshot_SetNextFreeSegmentId (ReadId u) (cs_snapshot cs)\<rparr>)
      else if cluster loc = SegmentDeleteId then apply_segment_delete hasMVCCSnapshot file u cs
      else do {
        (s, sn, h, d) \<leftarrow> Snapshot_UpdateSegment (segment loc) (cs_snapshot cs) (cs_heap cs) (cs_delta cs);
        let cs = cs\<lparr>cs_snapshot := sn, cs_heap := h, cs_delta := d\<rparr>;
        if cluster loc = NextFreeClusterId
        then if blob loc \<noteq> NextFreeBlobId then None
             else Some (cs\<lparr>cs_heap := set_segment s (Segment_SetNextFreeClusterId (ReadId u) (hp_segments h s)) h\<rparr>)
        else if blob loc = ClusterDeleteId then apply_cluster_delete hasMVCCSnapshot file u s cs
        else do {
          (a, h, d) \<leftarrow> Segment_UpdateCluster s (cluster loc) h d;
          apply_blob_update hasMVCCSnapshot file u a (cs\<lparr>cs_heap := h, cs_delta := d\<rparr>) } })"

fun apply_updates :: "bool \<Rightarrow> byte list \<Rightarrow> BlobData list \<Rightarrow> CommitState \<Rightarrow> CommitState option" where
  "apply_updates hasMVCCSnapshot file [] cs = Some cs"
| "apply_updates hasMVCCSnapshot file (u # us) cs = do {
     cs \<leftarrow> apply_update hasMVCCSnapshot file u cs; apply_updates hasMVCCSnapshot file us cs }"

definition Snapshot_ApplyCommitMessage ::
  "bool \<Rightarrow> byte list \<Rightarrow> TransactionCommit \<Rightarrow> CommitState \<Rightarrow> CommitState option" where
  "Snapshot_ApplyCommitMessage hasMVCCSnapshot file commitMessage cs =
     apply_updates hasMVCCSnapshot file (tc_blobs commitMessage) cs"

end
