(* ===== verification/Storage_View.thy ===== *)
theory Storage_View
  imports Db_Snapshot
begin

text \<open>
  What a snapshot contains, independently of which of its objects are in memory: the abstract
  content of an object is read from the heap when it is loaded and decoded from the database file
  otherwise. \<open>spec_update\<close> says what an entry of a commit message means for that content. The
  lemmas show that loading an object changes no content.
\<close>

section \<open>Abstract content\<close>

datatype blob_view = BlobView (bv_commit: commit_id) (bv_data: "byte list")
datatype cluster_view = ClusterView (cv_commit: commit_id) (cv_next: blob_id) (cv_blobs: "blob_id \<rightharpoonup> blob_view")
datatype segment_view =
  SegmentView (sv_commit: commit_id) (sv_next: cluster_id) (sv_clusters: "cluster_id \<rightharpoonup> cluster_view")
datatype snap_view =
  SnapView (dv_commit: commit_id) (dv_next: segment_id) (dv_segments: "segment_id \<rightharpoonup> segment_view")

definition children :: "('k \<rightharpoonup> 'p) \<Rightarrow> ('p \<Rightarrow> 'v option) \<Rightarrow> 'k \<rightharpoonup> 'v" where
  "children m view = (\<lambda>k. Option.bind (m k) view)"

definition disk_blob :: "byte list \<Rightarrow> BlockReference \<Rightarrow> blob_view option" where
  "disk_blob file r = do { bs \<leftarrow> LoadMemoryBlock file r; (c, d) \<leftarrow> load_blob bs; Some (BlobView c d) }"

definition disk_cluster :: "byte list \<Rightarrow> BlockReference \<Rightarrow> cluster_view option" where
  "disk_cluster file r = do {
     bs \<leftarrow> LoadMemoryBlock file r; (c, n, es) \<leftarrow> load_table bs;
     Some (ClusterView c n (children (map_of es) (disk_blob file))) }"

definition disk_segment :: "byte list \<Rightarrow> BlockReference \<Rightarrow> segment_view option" where
  "disk_segment file r = do {
     bs \<leftarrow> LoadMemoryBlock file r; (c, n, es) \<leftarrow> load_table bs;
     Some (SegmentView c n (children (map_of es) (disk_cluster file))) }"

definition disk_snapshot :: "byte list \<Rightarrow> BlockReference \<Rightarrow> snap_view option" where
  "disk_snapshot file r = do {
     bs \<leftarrow> LoadMemoryBlock file r; (c, n, es) \<leftarrow> load_table bs;
     Some (SnapView c n (children (map_of es) (disk_segment file))) }"

definition blob_at :: "byte list \<Rightarrow> Heap \<Rightarrow> addr \<Rightarrow> blob_view option" where
  "blob_at file h p = (let b = hp_blobs h p in
     if bl_status b = LOADED then Some (BlobView (bl_commitId b) (bl_data b))
     else disk_blob file (bl_fileLocation b))"

definition cluster_at :: "byte list \<Rightarrow> Heap \<Rightarrow> addr \<Rightarrow> cluster_view option" where
  "cluster_at file h a = (let c = hp_clusters h a in
     if cl_status c = LOADED
     then Some (ClusterView (cl_commitId c) (cl_nextFreeBlobId c) (children (map_of (cl_blobs c)) (blob_at file h)))
     else disk_cluster file (cl_fileLocation c))"

definition segment_at :: "byte list \<Rightarrow> Heap \<Rightarrow> addr \<Rightarrow> segment_view option" where
  "segment_at file h s = (let g = hp_segments h s in
     if sg_status g = LOADED
     then Some (SegmentView (sg_commitId g) (sg_nextFreeClusterId g) (children (map_of (sg_clusters g)) (cluster_at file h)))
     else disk_segment file (sg_fileLocation g))"

definition snapshot_view :: "byte list \<Rightarrow> Heap \<Rightarrow> Snapshot \<Rightarrow> snap_view" where
  "snapshot_view file h sn =
     SnapView (sn_commitId sn) (sn_nextFreeSegmentId sn) (children (map_of (sn_segments sn)) (segment_at file h))"

section \<open>The meaning of a commit entry\<close>

fun touch_cluster :: "commit_id \<Rightarrow> cluster_view option \<Rightarrow> cluster_view" where
  "touch_cluster cid None = ClusterView cid 1 [0 \<mapsto> BlobView cid []]"
| "touch_cluster cid (Some (ClusterView _ n m)) = ClusterView cid n m"

fun touch_segment :: "commit_id \<Rightarrow> segment_view option \<Rightarrow> segment_view" where
  "touch_segment cid None = SegmentView cid 1 [0 \<mapsto> touch_cluster cid None]"
| "touch_segment cid (Some (SegmentView _ n m)) = SegmentView cid n m"

definition spec_cluster_update :: "commit_id \<Rightarrow> BlobData \<Rightarrow> cluster_view \<Rightarrow> cluster_view" where
  "spec_cluster_update cid u c =
     (let b = blob (bd_location u) in
      if b = NextFreeBlobId then ClusterView (cv_commit c) (ReadId u) (cv_blobs c)
      else if bd_blobSize u = DeleteBlobSize then ClusterView (cv_commit c) (cv_next c) ((cv_blobs c)(b := None))
      else ClusterView (cv_commit c) (cv_next c) ((cv_blobs c)(b \<mapsto> BlobView cid (bd_data u))))"

definition spec_segment_update :: "commit_id \<Rightarrow> BlobData \<Rightarrow> segment_view \<Rightarrow> segment_view" where
  "spec_segment_update cid u s =
     (let loc = bd_location u; k = cluster loc in
      if k = NextFreeClusterId then SegmentView (sv_commit s) (ReadId u) (sv_clusters s)
      else if blob loc = ClusterDeleteId then SegmentView (sv_commit s) (sv_next s) ((sv_clusters s)(k := None))
      else SegmentView (sv_commit s) (sv_next s)
             ((sv_clusters s)(k \<mapsto> spec_cluster_update cid u (touch_cluster cid (sv_clusters s k)))))"

definition spec_update :: "BlobData \<Rightarrow> snap_view \<Rightarrow> snap_view" where
  "spec_update u v =
     (let loc = bd_location u; k = segment loc; cid = dv_commit v in
      if k = NextFreeSegmentId then SnapView cid (ReadId u) (dv_segments v)
      else if cluster loc = SegmentDeleteId then SnapView cid (dv_next v) ((dv_segments v)(k := None))
      else SnapView cid (dv_next v)
             ((dv_segments v)(k \<mapsto> spec_segment_update cid u (touch_segment cid (dv_segments v k)))))"

section \<open>Well-formed heaps\<close>

definition blob_ptrs :: "Heap \<Rightarrow> addr \<Rightarrow> addr set" where
  "blob_ptrs h a = snd ` set (cl_blobs (hp_clusters h a))"

definition cluster_ptrs :: "Heap \<Rightarrow> addr \<Rightarrow> addr set" where
  "cluster_ptrs h s = snd ` set (sg_clusters (hp_segments h s))"

definition segment_ptrs :: "Snapshot \<Rightarrow> addr set" where
  "segment_ptrs sn = snd ` set (sn_segments sn)"

definition heap_wf :: "Heap \<Rightarrow> bool" where
  "heap_wf h = (
     (\<forall>a. fm_sorted (cl_blobs (hp_clusters h a)) \<and> (\<forall>p \<in> blob_ptrs h a. p < hp_next h)
          \<and> (cl_status (hp_clusters h a) \<noteq> LOADED \<longrightarrow> cl_blobs (hp_clusters h a) = [])) \<and>
     (\<forall>s. fm_sorted (sg_clusters (hp_segments h s)) \<and> (\<forall>a \<in> cluster_ptrs h s. a < hp_next h)
          \<and> (sg_status (hp_segments h s) \<noteq> LOADED \<longrightarrow> sg_clusters (hp_segments h s) = [])))"

definition snap_wf :: "Heap \<Rightarrow> Snapshot \<Rightarrow> bool" where
  "snap_wf h sn = (fm_sorted (sn_segments sn) \<and> (\<forall>s \<in> segment_ptrs sn. s < hp_next h))"

text \<open>Blocks on disk that can be loaded and were written by a commit up to \<open>c0\<close>.\<close>

definition good_blob :: "byte list \<Rightarrow> commit_id \<Rightarrow> BlockReference \<Rightarrow> bool" where
  "good_blob file c0 r = (\<exists>c d. disk_blob file r = Some (BlobView c d) \<and> c \<le> c0)"

definition good_table :: "byte list \<Rightarrow> commit_id \<Rightarrow> (BlockReference \<Rightarrow> bool) \<Rightarrow> BlockReference \<Rightarrow> bool" where
  "good_table file c0 good r =
     (\<exists>bs c n es. LoadMemoryBlock file r = Some bs \<and> load_table bs = Some (c, n, es) \<and> c \<le> c0
        \<and> fm_sorted es \<and> (\<forall>e \<in> set es. good (snd e)))"

abbreviation good_cluster :: "byte list \<Rightarrow> commit_id \<Rightarrow> BlockReference \<Rightarrow> bool" where
  "good_cluster file c0 \<equiv> good_table file c0 (good_blob file c0)"

abbreviation good_segment :: "byte list \<Rightarrow> commit_id \<Rightarrow> BlockReference \<Rightarrow> bool" where
  "good_segment file c0 \<equiv> good_table file c0 (good_cluster file c0)"

definition ok_blob :: "byte list \<Rightarrow> commit_id \<Rightarrow> Heap \<Rightarrow> addr \<Rightarrow> bool" where
  "ok_blob file c0 h p = (bl_status (hp_blobs h p) = LOADED \<or> good_blob file c0 (bl_fileLocation (hp_blobs h p)))"

definition ok_cluster :: "byte list \<Rightarrow> commit_id \<Rightarrow> Heap \<Rightarrow> addr \<Rightarrow> bool" where
  "ok_cluster file c0 h a =
     (if cl_status (hp_clusters h a) = LOADED then \<forall>p \<in> blob_ptrs h a. ok_blob file c0 h p
      else good_cluster file c0 (cl_fileLocation (hp_clusters h a)))"

definition ok_segment :: "byte list \<Rightarrow> commit_id \<Rightarrow> Heap \<Rightarrow> addr \<Rightarrow> bool" where
  "ok_segment file c0 h s =
     (if sg_status (hp_segments h s) = LOADED then \<forall>a \<in> cluster_ptrs h s. ok_cluster file c0 h a
      else good_segment file c0 (sg_fileLocation (hp_segments h s)))"

definition ok_snapshot :: "byte list \<Rightarrow> commit_id \<Rightarrow> Heap \<Rightarrow> Snapshot \<Rightarrow> bool" where
  "ok_snapshot file c0 h sn = (\<forall>s \<in> segment_ptrs sn. ok_segment file c0 h s)"

section \<open>Tables that are filled while loading\<close>

lemma fm_assign_append:
  assumes "fm_sorted (m @ [(k, v)])"
  shows "fm_assign m k v = m @ [(k, v)]"
proof -
  have m: "fm_sorted m" and new: "map_of m k = None"
    using assms by (auto simp: fm_sorted_append map_of_eq_None_iff)
  have "fm_assign m k v = (\<lambda>m. m) (m @ [(k, v)])"
    using assms m new
    by (intro sfm.entries_unique) (auto simp: fm_sorted_assign fm_lookup_map_of map_of_assign map_add_def fun_eq_iff
        split: option.splits)
  then show ?thesis .
qed

text \<open>\<open>overlay f n xs\<close>: the objects \<open>xs\<close> at the addresses from \<open>n\<close> on.\<close>

definition overlay :: "(addr \<Rightarrow> 'o) \<Rightarrow> addr \<Rightarrow> 'o list \<Rightarrow> addr \<Rightarrow> 'o" where
  "overlay f n xs = (\<lambda>p. if n \<le> p \<and> p < n + length xs then xs ! (p - n) else f p)"

lemma overlay_Nil [simp]: "overlay f n [] = f"
  by (auto simp: overlay_def fun_eq_iff)

lemma overlay_Cons: "overlay f n (x # xs) = overlay (f(n := x)) (Suc n) xs"
proof
  fix p
  consider "p < n" | "p = n" | j where "p = Suc (n + j)"
    by (metis add_Suc less_imp_Suc_add linorder_neqE_nat)
  then show "overlay f n (x # xs) p = overlay (f(n := x)) (Suc n) xs p"
    by cases (auto simp: overlay_def)
qed

lemma overlay_below [simp]: "p < n \<Longrightarrow> overlay f n xs p = f p"
  by (simp add: overlay_def)

definition delayed_blob :: "uint32_t \<times> BlockReference \<Rightarrow> Blob" where
  "delayed_blob e = (Blob_new (fst e) max_commit_id)\<lparr>bl_status := NOT_LOADED, bl_fileLocation := snd e\<rparr>"

definition delayed_cluster :: "uint32_t \<times> BlockReference \<Rightarrow> Cluster" where
  "delayed_cluster e = (Cluster_new (fst e) max_commit_id)\<lparr>cl_status := NOT_LOADED, cl_fileLocation := snd e\<rparr>"

definition delayed_blobs :: "(addr \<Rightarrow> Blob) \<Rightarrow> addr \<Rightarrow> table \<Rightarrow> addr \<Rightarrow> Blob" where
  "delayed_blobs bs n es = overlay bs n (map delayed_blob es)"

definition delayed_clusters :: "(addr \<Rightarrow> Cluster) \<Rightarrow> addr \<Rightarrow> table \<Rightarrow> addr \<Rightarrow> Cluster" where
  "delayed_clusters cs n es = overlay cs n (map delayed_cluster es)"

fun fresh_entries :: "table \<Rightarrow> addr \<Rightarrow> (uint32_t \<times> addr) list" where
  "fresh_entries [] n = []"
| "fresh_entries (e # es) n = (fst e, n) # fresh_entries es (Suc n)"

lemma fst_fresh_entries [simp]: "map fst (fresh_entries es n) = map fst es"
  by (induction es arbitrary: n) auto

lemma fm_sorted_fresh: "fm_sorted es \<Longrightarrow> fm_sorted (fresh_entries es n)"
  by (simp add: fm_sorted_def)

lemma snd_fresh_entries: "snd ` set (fresh_entries es n) = {n..<n + length es}"
  by (induction es arbitrary: n) (auto simp: Suc_le_eq)

lemma in_fresh_entries: "(k, p) \<in> set (fresh_entries es n) \<Longrightarrow> n \<le> p \<and> p < n + length es"
  using snd_fresh_entries [of es n] by (force simp: set_eq_iff image_iff)

text \<open>Reading through a freshly filled table is reading the entries themselves.\<close>

lemma children_fresh:
  assumes "\<And>i. i < length es \<Longrightarrow> view (n + i) = view' (snd (es ! i))"
  shows "children (map_of (fresh_entries es n)) view = children (map_of es) view'"
  using assms
proof (induction es arbitrary: n)
  case (Cons e es)
  have "view (Suc n + i) = view' (snd (es ! i))" if "i < length es" for i
    using Cons.prems [of "Suc i"] that by simp
  from Cons.IH [OF this] have "children (map_of (fresh_entries es (Suc n))) view = children (map_of es) view'" .
  then show ?case
    using Cons.prems [of 0] by (cases e) (auto simp: children_def fun_eq_iff)
qed (simp add: children_def)

lemma delay_load_blobs_explicit:
  "fm_sorted (cl_blobs (hp_clusters h a) @ fresh_entries es (hp_next h)) \<Longrightarrow>
   delay_load_blobs a es h = Some (h\<lparr>hp_blobs := delayed_blobs (hp_blobs h) (hp_next h) es,
     hp_clusters := (hp_clusters h)(a := (hp_clusters h a)
        \<lparr>cl_blobs := cl_blobs (hp_clusters h a) @ fresh_entries es (hp_next h)\<rparr>),
     hp_next := hp_next h + length es\<rparr>)"
proof (induction es arbitrary: h)
  case Nil
  then show ?case by (simp add: delayed_blobs_def)
next
  case (Cons e es)
  obtain k r where e: "e = (k, r)" by fastforce
  let ?m = "cl_blobs (hp_clusters h a)" and ?n = "hp_next h"
  have sorted: "fm_sorted (?m @ (k, ?n) # fresh_entries es (Suc ?n))"
    using Cons.prems by (simp add: e)
  then have app: "fm_sorted (?m @ [(k, ?n)])" and m: "fm_sorted ?m" and new: "fm_lookup ?m k = None"
    by (auto simp: fm_sorted_append fm_lookup_map_of map_of_eq_None_iff)
  let ?h1 = "h\<lparr>hp_blobs := (hp_blobs h)(?n := (Blob_new k max_commit_id)\<lparr>bl_status := NOT_LOADED, bl_fileLocation := r\<rparr>),
     hp_next := Suc ?n,
     hp_clusters := (hp_clusters h)(a := (hp_clusters h a)\<lparr>cl_blobs := ?m @ [(k, ?n)]\<rparr>)\<rparr>"
  have "Cluster_DelayLoadBlob a e h = Some ?h1"
    by (simp add: Cluster_DelayLoadBlob_def Let_def e new new_blob_def fm_assign_append [OF app])
  then show ?case
    using Cons.IH [of ?h1] sorted overlay_Cons [of "hp_blobs h" ?n "delayed_blob e" "map delayed_blob es"]
    by (simp add: e delayed_blobs_def delayed_blob_def fun_upd_def cong: if_cong)
qed

lemma delay_load_clusters_explicit:
  "fm_sorted (sg_clusters (hp_segments h s) @ fresh_entries es (hp_next h)) \<Longrightarrow>
   delay_load_clusters s es h = Some (h\<lparr>hp_clusters := delayed_clusters (hp_clusters h) (hp_next h) es,
     hp_segments := (hp_segments h)(s := (hp_segments h s)
        \<lparr>sg_clusters := sg_clusters (hp_segments h s) @ fresh_entries es (hp_next h)\<rparr>),
     hp_next := hp_next h + length es\<rparr>)"
proof (induction es arbitrary: h)
  case Nil
  then show ?case by (simp add: delayed_clusters_def)
next
  case (Cons e es)
  obtain k r where e: "e = (k, r)" by fastforce
  let ?m = "sg_clusters (hp_segments h s)" and ?n = "hp_next h"
  have sorted: "fm_sorted (?m @ (k, ?n) # fresh_entries es (Suc ?n))"
    using Cons.prems by (simp add: e)
  then have app: "fm_sorted (?m @ [(k, ?n)])" and m: "fm_sorted ?m" and new: "fm_lookup ?m k = None"
    by (auto simp: fm_sorted_append fm_lookup_map_of map_of_eq_None_iff)
  let ?h1 = "h\<lparr>hp_clusters := (hp_clusters h)(?n := (Cluster_new k max_commit_id)\<lparr>cl_status := NOT_LOADED, cl_fileLocation := r\<rparr>),
     hp_next := Suc ?n,
     hp_segments := (hp_segments h)(s := (hp_segments h s)\<lparr>sg_clusters := ?m @ [(k, ?n)]\<rparr>)\<rparr>"
  have "Segment_DelayLoadCluster s e h = Some ?h1"
    by (simp add: Segment_DelayLoadCluster_def Let_def e new new_cluster_def fm_assign_append [OF app])
  then show ?case
    using Cons.IH [of ?h1] sorted overlay_Cons [of "hp_clusters h" ?n "delayed_cluster e" "map delayed_cluster es"]
    by (simp add: e delayed_clusters_def delayed_cluster_def fun_upd_def cong: if_cong)
qed

end
