(* ===== verification/Storage_Load.thy ===== *)
theory Storage_Load
  imports Storage_View
begin

text \<open>
  Loading stored objects on demand. \<open>load_step\<close> is one \<open>LoadFrom\<close> of a readable object; the
  lemmas show that a load succeeds, that it keeps the content of every object and that it does
  not disturb the objects a running commit has created.
\<close>

section \<open>Views depend only on what is reachable\<close>

lemma children_cong:
  "(\<And>p. p \<in> snd ` set m \<Longrightarrow> v p = v' p) \<Longrightarrow> children (map_of m) v = children (map_of m) v'"
  unfolding children_def
proof
  fix k
  assume eq: "\<And>p. p \<in> snd ` set m \<Longrightarrow> v p = v' p"
  show "Option.bind (map_of m k) v = Option.bind (map_of m k) v'"
    by (cases "map_of m k") (auto intro!: eq dest!: map_of_SomeD intro: image_eqI rev_image_eqI)
qed

lemma blob_at_cong: "hp_blobs h' p = hp_blobs h p \<Longrightarrow> blob_at f h' p = blob_at f h p"
  by (simp add: blob_at_def)

lemma cluster_at_cong:
  assumes "hp_clusters h' a = hp_clusters h a" "\<And>p. p \<in> blob_ptrs h a \<Longrightarrow> blob_at f h' p = blob_at f h p"
  shows "cluster_at f h' a = cluster_at f h a"
  using assms children_cong [of "cl_blobs (hp_clusters h a)" "blob_at f h'" "blob_at f h"]
  by (simp add: cluster_at_def Let_def blob_ptrs_def)

lemma segment_at_cong:
  assumes "hp_segments h' s = hp_segments h s" "\<And>a. a \<in> cluster_ptrs h s \<Longrightarrow> cluster_at f h' a = cluster_at f h a"
  shows "segment_at f h' s = segment_at f h s"
  using assms children_cong [of "sg_clusters (hp_segments h s)" "cluster_at f h'" "cluster_at f h"]
  by (simp add: segment_at_def Let_def cluster_ptrs_def)

lemma snapshot_view_cong:
  assumes "\<And>s. s \<in> segment_ptrs sn \<Longrightarrow> segment_at f h' s = segment_at f h s"
  shows "snapshot_view f h' sn = snapshot_view f h sn"
  using children_cong [of "sn_segments sn" "segment_at f h'" "segment_at f h"] assms
  by (simp add: snapshot_view_def segment_ptrs_def)

section \<open>Explicit results of loading\<close>

definition loaded_blob :: "Heap \<Rightarrow> addr \<Rightarrow> commit_id \<Rightarrow> byte list \<Rightarrow> Heap" where
  "loaded_blob h p c d =
     set_blob p ((hp_blobs h p)\<lparr>bl_commitId := c, bl_data := d, bl_status := LOADED\<rparr>) h"

definition loaded_cluster :: "Heap \<Rightarrow> addr \<Rightarrow> commit_id \<Rightarrow> blob_id \<Rightarrow> table \<Rightarrow> Heap" where
  "loaded_cluster h a c n es =
     h\<lparr>hp_blobs := delayed_blobs (hp_blobs h) (hp_next h) es,
       hp_clusters := (hp_clusters h)(a := (Cluster_SetNextFreeBlobId n ((hp_clusters h a)\<lparr>cl_commitId := c\<rparr>))
          \<lparr>cl_blobs := fresh_entries es (hp_next h), cl_status := LOADED\<rparr>),
       hp_next := hp_next h + length es\<rparr>"

definition loaded_segment :: "Heap \<Rightarrow> addr \<Rightarrow> commit_id \<Rightarrow> cluster_id \<Rightarrow> table \<Rightarrow> Heap" where
  "loaded_segment h s c n es =
     h\<lparr>hp_clusters := delayed_clusters (hp_clusters h) (hp_next h) es,
       hp_segments := (hp_segments h)(s := (Segment_SetNextFreeClusterId n ((hp_segments h s)\<lparr>sg_commitId := c\<rparr>))
          \<lparr>sg_clusters := fresh_entries es (hp_next h), sg_status := LOADED\<rparr>),
       hp_next := hp_next h + length es\<rparr>"

lemma Blob_LoadFrom_explicit:
  assumes "bl_status (hp_blobs h p) \<noteq> LOADED" "disk_blob f (bl_fileLocation (hp_blobs h p)) = Some (BlobView c d)"
  shows "Blob_LoadFrom f p h = Some (loaded_blob h p c d)"
  using assms by (auto simp: Blob_LoadFrom_def disk_blob_def loaded_blob_def Let_def split: bind_splits)

lemma Cluster_LoadFrom_explicit:
  assumes "heap_wf h" "cl_status (hp_clusters h a) \<noteq> LOADED"
    "LoadMemoryBlock f (cl_fileLocation (hp_clusters h a)) = Some bs" "load_table bs = Some (c, n, es)" "fm_sorted es"
  shows "Cluster_LoadFrom f a h = Some (loaded_cluster h a c n es)"
proof -
  let ?h1 = "set_cluster a (Cluster_SetNextFreeBlobId n ((hp_clusters h a)\<lparr>cl_commitId := c\<rparr>)) h"
  have empty: "cl_blobs (hp_clusters h a) = []" using assms(1,2) by (simp add: heap_wf_def)
  have "fm_sorted (cl_blobs (hp_clusters ?h1 a) @ fresh_entries es (hp_next ?h1))"
    using empty assms(5) by (simp add: Cluster_SetNextFreeBlobId_def fm_sorted_fresh)
  from delay_load_blobs_explicit [OF this] show ?thesis
    using assms(2-4) empty
    by (simp add: Cluster_LoadFrom_def Let_def loaded_cluster_def Cluster_SetNextFreeBlobId_def)
qed

lemma Segment_LoadFrom_explicit:
  assumes "heap_wf h" "sg_status (hp_segments h s) \<noteq> LOADED"
    "LoadMemoryBlock f (sg_fileLocation (hp_segments h s)) = Some bs" "load_table bs = Some (c, n, es)" "fm_sorted es"
  shows "Segment_LoadFrom f s h = Some (loaded_segment h s c n es)"
proof -
  let ?h1 = "set_segment s (Segment_SetNextFreeClusterId n ((hp_segments h s)\<lparr>sg_commitId := c\<rparr>)) h"
  have empty: "sg_clusters (hp_segments h s) = []" using assms(1,2) by (simp add: heap_wf_def)
  have "fm_sorted (sg_clusters (hp_segments ?h1 s) @ fresh_entries es (hp_next ?h1))"
    using empty assms(5) by (simp add: Segment_SetNextFreeClusterId_def fm_sorted_fresh)
  from delay_load_clusters_explicit [OF this] show ?thesis
    using assms(2-4) empty
    by (simp add: Segment_LoadFrom_def Let_def loaded_segment_def Segment_SetNextFreeClusterId_def)
qed

section \<open>Load steps\<close>

inductive load_step :: "byte list \<Rightarrow> commit_id \<Rightarrow> Heap \<Rightarrow> Heap \<Rightarrow> bool" for f c0 where
  blob: "p < hp_next h \<Longrightarrow> bl_status (hp_blobs h p) \<noteq> LOADED
     \<Longrightarrow> disk_blob f (bl_fileLocation (hp_blobs h p)) = Some (BlobView c d) \<Longrightarrow> c \<le> c0
     \<Longrightarrow> load_step f c0 h (loaded_blob h p c d)"
| cluster: "a < hp_next h \<Longrightarrow> cl_status (hp_clusters h a) \<noteq> LOADED
     \<Longrightarrow> LoadMemoryBlock f (cl_fileLocation (hp_clusters h a)) = Some bs \<Longrightarrow> load_table bs = Some (c, n, es)
     \<Longrightarrow> c \<le> c0 \<Longrightarrow> fm_sorted es \<Longrightarrow> \<forall>e \<in> set es. good_blob f c0 (snd e)
     \<Longrightarrow> load_step f c0 h (loaded_cluster h a c n es)"
| segment: "s < hp_next h \<Longrightarrow> sg_status (hp_segments h s) \<noteq> LOADED
     \<Longrightarrow> LoadMemoryBlock f (sg_fileLocation (hp_segments h s)) = Some bs \<Longrightarrow> load_table bs = Some (c, n, es)
     \<Longrightarrow> c \<le> c0 \<Longrightarrow> fm_sorted es \<Longrightarrow> \<forall>e \<in> set es. good_cluster f c0 (snd e)
     \<Longrightarrow> load_step f c0 h (loaded_segment h s c n es)"

abbreviation loads :: "byte list \<Rightarrow> commit_id \<Rightarrow> Heap \<Rightarrow> Heap \<Rightarrow> bool" where
  "loads f c0 \<equiv> (load_step f c0)\<^sup>*\<^sup>*"

lemma heap_wf_cluster:
  assumes "heap_wf h"
  shows "fm_sorted (cl_blobs (hp_clusters h a))" "p \<in> blob_ptrs h a \<Longrightarrow> p < hp_next h"
    "cl_status (hp_clusters h a) \<noteq> LOADED \<Longrightarrow> cl_blobs (hp_clusters h a) = []"
  using assms by (auto simp: heap_wf_def)

lemma heap_wf_segment:
  assumes "heap_wf h"
  shows "fm_sorted (sg_clusters (hp_segments h s))" "a \<in> cluster_ptrs h s \<Longrightarrow> a < hp_next h"
    "sg_status (hp_segments h s) \<noteq> LOADED \<Longrightarrow> sg_clusters (hp_segments h s) = []"
  using assms by (auto simp: heap_wf_def)

lemma overlay_cases:
  obtains "overlay f n xs p = f p" | i where "i < length xs" "p = n + i" "overlay f n xs p = xs ! i"
  by (cases "n \<le> p \<and> p < n + length xs") (auto simp: overlay_def dest: le_Suc_ex)

lemma load_step_wf: "load_step f c0 h h' \<Longrightarrow> heap_wf h \<Longrightarrow> heap_wf h'"
proof (induction rule: load_step.induct)
  case (blob p h c d)
  then show ?case by (simp add: heap_wf_def loaded_blob_def blob_ptrs_def cluster_ptrs_def)
next
  case (cluster a h bs c n es)
  have "fm_sorted (cl_blobs (hp_clusters (loaded_cluster h a c n es) x))
      \<and> (\<forall>p \<in> blob_ptrs (loaded_cluster h a c n es) x. p < hp_next h + length es)
      \<and> (cl_status (hp_clusters (loaded_cluster h a c n es) x) \<noteq> LOADED
           \<longrightarrow> cl_blobs (hp_clusters (loaded_cluster h a c n es) x) = [])" for x
    using heap_wf_cluster [OF cluster.prems, where a = x] cluster.hyps(6)
    by (auto simp: loaded_cluster_def blob_ptrs_def fm_sorted_fresh Cluster_SetNextFreeBlobId_def
        intro: trans_less_add1 dest: in_fresh_entries)
  moreover have "\<forall>a \<in> cluster_ptrs h x. a < hp_next h + length es" for x
    using heap_wf_segment(2) [OF cluster.prems, of _ x] by (auto intro: trans_less_add1)
  ultimately show ?case using cluster.prems
    by (simp add: heap_wf_def) (simp add: loaded_cluster_def cluster_ptrs_def)
next
  case (segment s h bs c n es)
  have new: "cl_blobs (hp_clusters (loaded_segment h s c n es) a) = []" if "hp_next h \<le> a" "a < hp_next h + length es" for a
    using that by (simp add: loaded_segment_def delayed_clusters_def overlay_def delayed_cluster_def Cluster_new_def)
  have old: "hp_clusters (loaded_segment h s c n es) a = hp_clusters h a" if "\<not> (hp_next h \<le> a \<and> a < hp_next h + length es)" for a
    using that by (auto simp: loaded_segment_def delayed_clusters_def overlay_def)
  have "fm_sorted (cl_blobs (hp_clusters (loaded_segment h s c n es) a))
      \<and> (\<forall>p \<in> blob_ptrs (loaded_segment h s c n es) a. p < hp_next h + length es)
      \<and> (cl_status (hp_clusters (loaded_segment h s c n es) a) \<noteq> LOADED
           \<longrightarrow> cl_blobs (hp_clusters (loaded_segment h s c n es) a) = [])" for a
    using heap_wf_cluster [OF segment.prems, where a = a] new [of a] old [of a]
    by (cases "hp_next h \<le> a \<and> a < hp_next h + length es")
      (simp_all add: blob_ptrs_def trans_less_add1)
  moreover have "hp_next (loaded_segment h s c n es) = hp_next h + length es" by (simp add: loaded_segment_def)
  moreover have "fm_sorted (sg_clusters (hp_segments (loaded_segment h s c n es) x))
      \<and> (\<forall>a \<in> cluster_ptrs (loaded_segment h s c n es) x. a < hp_next h + length es)
      \<and> (sg_status (hp_segments (loaded_segment h s c n es) x) \<noteq> LOADED
           \<longrightarrow> sg_clusters (hp_segments (loaded_segment h s c n es) x) = [])" for x
    using heap_wf_segment [OF segment.prems, where s = x] segment.hyps(6)
    by (auto simp: loaded_segment_def cluster_ptrs_def fm_sorted_fresh Segment_SetNextFreeClusterId_def
        intro: trans_less_add1 dest: in_fresh_entries)
  ultimately show ?case unfolding heap_wf_def by simp
qed

section \<open>Loading keeps every content\<close>

lemma load_step_next: "load_step f c0 h h' \<Longrightarrow> hp_next h \<le> hp_next h'"
  by (induction rule: load_step.induct) (auto simp: loaded_blob_def loaded_cluster_def loaded_segment_def)

lemma blob_at_loaded_cluster:
  "p < hp_next h \<Longrightarrow> blob_at f (loaded_cluster h a c n es) p = blob_at f h p"
  "i < length es \<Longrightarrow> blob_at f (loaded_cluster h a c n es) (hp_next h + i) = disk_blob f (snd (es ! i))"
  by (simp_all add: blob_at_def loaded_cluster_def delayed_blobs_def overlay_def delayed_blob_def)

lemma cluster_at_loaded_segment:
  assumes "heap_wf h"
  shows "a < hp_next h \<Longrightarrow> cluster_at f (loaded_segment h s c n es) a = cluster_at f h a"
    "i < length es \<Longrightarrow> cluster_at f (loaded_segment h s c n es) (hp_next h + i) = disk_cluster f (snd (es ! i))"
proof -
  have "blob_at f (loaded_segment h s c n es) = blob_at f h"
    by (simp add: fun_eq_iff blob_at_def loaded_segment_def)
  then show "a < hp_next h \<Longrightarrow> cluster_at f (loaded_segment h s c n es) a = cluster_at f h a"
    by (intro cluster_at_cong) (simp_all add: loaded_segment_def delayed_clusters_def)
  show "i < length es \<Longrightarrow> cluster_at f (loaded_segment h s c n es) (hp_next h + i) = disk_cluster f (snd (es ! i))"
    by (simp add: cluster_at_def loaded_segment_def delayed_clusters_def overlay_def delayed_cluster_def)
qed

lemma load_step_views:
  assumes "load_step f c0 h h'" "heap_wf h" "x < hp_next h"
  shows "blob_at f h' x = blob_at f h x \<and> cluster_at f h' x = cluster_at f h x \<and> segment_at f h' x = segment_at f h x"
  using assms
proof (induction arbitrary: x rule: load_step.induct)
  case (blob p h c d)
  let ?h' = "loaded_blob h p c d"
  have b: "blob_at f ?h' q = blob_at f h q" for q
    using blob.hyps by (auto simp: blob_at_def loaded_blob_def)
  then have c: "cluster_at f ?h' a = cluster_at f h a" for a
    by (intro cluster_at_cong) (simp_all add: loaded_blob_def)
  then have "segment_at f ?h' s = segment_at f h s" for s
    by (intro segment_at_cong) (simp_all add: loaded_blob_def)
  with b c show ?case by simp
next
  case (cluster a h bs c n es)
  let ?h' = "loaded_cluster h a c n es"
  have c: "cluster_at f ?h' y = cluster_at f h y" for y
  proof (cases "y = a")
    case True
    have "children (map_of (fresh_entries es (hp_next h))) (blob_at f ?h') = children (map_of es) (disk_blob f)"
      using blob_at_loaded_cluster(2) by (intro children_fresh) simp
    moreover have "hp_clusters ?h' a = (Cluster_SetNextFreeBlobId n ((hp_clusters h a)\<lparr>cl_commitId := c\<rparr>))
          \<lparr>cl_blobs := fresh_entries es (hp_next h), cl_status := LOADED\<rparr>" by (simp add: loaded_cluster_def)
    ultimately show ?thesis
      using cluster.hyps True by (simp add: cluster_at_def Cluster_SetNextFreeBlobId_def disk_cluster_def)
  next
    case False
    then show ?thesis
      using blob_at_loaded_cluster(1) heap_wf_cluster(2) [OF cluster.prems(1)]
      by (intro cluster_at_cong) (simp_all add: loaded_cluster_def)
  qed
  then have "segment_at f ?h' y = segment_at f h y" for y
    by (intro segment_at_cong) (simp_all add: loaded_cluster_def)
  with c show ?case using cluster.prems blob_at_loaded_cluster(1) by simp
next
  case (segment s h bs c n es)
  let ?h' = "loaded_segment h s c n es"
  have "blob_at f ?h' x = blob_at f h x" by (simp add: blob_at_def loaded_segment_def)
  moreover have "segment_at f ?h' x = segment_at f h x"
  proof (cases "x = s")
    case True
    have "children (map_of (fresh_entries es (hp_next h))) (cluster_at f ?h') = children (map_of es) (disk_cluster f)"
      using cluster_at_loaded_segment(2) [OF segment.prems(1)] by (intro children_fresh) simp
    moreover have "hp_segments ?h' s = (Segment_SetNextFreeClusterId n ((hp_segments h s)\<lparr>sg_commitId := c\<rparr>))
          \<lparr>sg_clusters := fresh_entries es (hp_next h), sg_status := LOADED\<rparr>" by (simp add: loaded_segment_def)
    ultimately show ?thesis
      using segment.hyps True by (simp add: segment_at_def Segment_SetNextFreeClusterId_def disk_segment_def)
  next
    case False
    then show ?thesis
      using cluster_at_loaded_segment(1) [OF segment.prems(1)] heap_wf_segment(2) [OF segment.prems(1)]
      by (intro segment_at_cong) (simp_all add: loaded_segment_def)
  qed
  ultimately show ?case using cluster_at_loaded_segment(1) [OF segment.prems(1)] segment.prems(2) by simp
qed

text \<open>Objects that are already loaded are not touched, and unloaded ones stay readable.\<close>

lemma load_step_frame:
  assumes "load_step f c0 h h'" "x < hp_next h"
  shows "bl_status (hp_blobs h x) = LOADED \<longrightarrow> hp_blobs h' x = hp_blobs h x"
    "cl_status (hp_clusters h x) = LOADED \<longrightarrow> hp_clusters h' x = hp_clusters h x"
    "sg_status (hp_segments h x) = LOADED \<longrightarrow> hp_segments h' x = hp_segments h x"
  using assms
  by (induction rule: load_step.induct)
    (auto simp: loaded_blob_def loaded_cluster_def loaded_segment_def delayed_blobs_def delayed_clusters_def)

lemma load_step_ok_blob:
  assumes "load_step f c0 h h'" "x < hp_next h" "ok_blob f c0 h x"
  shows "ok_blob f c0 h' x"
  using assms
  by (induction rule: load_step.induct)
    (auto simp: ok_blob_def loaded_blob_def loaded_cluster_def loaded_segment_def delayed_blobs_def)

lemma load_step_ok_cluster:
  assumes "load_step f c0 h h'" "heap_wf h" "x < hp_next h" "ok_cluster f c0 h x"
  shows "ok_cluster f c0 h' x"
proof -
  have old: ?thesis if "hp_clusters h' x = hp_clusters h x"
    using that assms load_step_ok_blob [OF assms(1)] heap_wf_cluster(2) [OF assms(2)]
    by (auto simp: ok_cluster_def blob_ptrs_def split: if_splits)
  from assms(1) show ?thesis
  proof cases
    case (cluster a bs c n es)
    show ?thesis
    proof (cases "x = a")
      case True
      have "ok_blob f c0 h' p" if "p \<in> {hp_next h..<hp_next h + length es}" for p
      proof -
        from that obtain i where i: "p = hp_next h + i" "i < length es"
          by (metis atLeastLessThan_iff le_Suc_ex nat_add_left_cancel_less)
        then have "hp_blobs h' p = delayed_blob (es ! i)"
          by (simp add: cluster(1) loaded_cluster_def delayed_blobs_def overlay_def)
        then show ?thesis using cluster(8) i(2) by (simp add: ok_blob_def delayed_blob_def)
      qed
      then show ?thesis
        using True by (simp add: ok_cluster_def blob_ptrs_def cluster(1) loaded_cluster_def snd_fresh_entries)
    next
      case False
      then show ?thesis by (intro old) (simp add: cluster(1) loaded_cluster_def)
    qed
  qed (use old assms(3) in \<open>auto simp: loaded_blob_def loaded_segment_def delayed_clusters_def\<close>)
qed

lemma load_step_ok_segment:
  assumes "load_step f c0 h h'" "heap_wf h" "x < hp_next h" "ok_segment f c0 h x"
  shows "ok_segment f c0 h' x"
proof -
  have old: ?thesis if "hp_segments h' x = hp_segments h x"
    using that assms load_step_ok_cluster [OF assms(1,2)] heap_wf_segment(2) [OF assms(2)]
    by (auto simp: ok_segment_def cluster_ptrs_def split: if_splits)
  from assms(1) show ?thesis
  proof cases
    case (segment s bs c n es)
    show ?thesis
    proof (cases "x = s")
      case True
      have "ok_cluster f c0 h' p" if "p \<in> {hp_next h..<hp_next h + length es}" for p
      proof -
        from that obtain i where i: "p = hp_next h + i" "i < length es"
          by (metis atLeastLessThan_iff le_Suc_ex nat_add_left_cancel_less)
        then have "hp_clusters h' p = delayed_cluster (es ! i)"
          by (simp add: segment(1) loaded_segment_def delayed_clusters_def overlay_def)
        then show ?thesis using segment(8) i(2) by (simp add: ok_cluster_def delayed_cluster_def)
      qed
      then show ?thesis
        using True by (simp add: ok_segment_def cluster_ptrs_def segment(1) loaded_segment_def snd_fresh_entries)
    next
      case False
      then show ?thesis by (intro old) (simp add: segment(1) loaded_segment_def)
    qed
  qed (use old in \<open>auto simp: loaded_blob_def loaded_cluster_def\<close>)
qed

section \<open>The objects of a running commit\<close>

text \<open>An object belongs to the commit \<open>cid\<close> when it carries that commit id. Such objects are in
  memory, they are referenced from one place only, and objects of earlier commits never refer to
  them. This is what makes modifying them in place safe.\<close>

definition isolated :: "commit_id \<Rightarrow> Heap \<Rightarrow> bool" where
  "isolated cid h = (
     (\<forall>p. bl_commitId (hp_blobs h p) = cid \<longrightarrow> p < hp_next h \<and> bl_status (hp_blobs h p) = LOADED) \<and>
     (\<forall>a. cl_commitId (hp_clusters h a) = cid \<longrightarrow> a < hp_next h \<and> cl_status (hp_clusters h a) = LOADED) \<and>
     (\<forall>s. sg_commitId (hp_segments h s) = cid \<longrightarrow> s < hp_next h \<and> sg_status (hp_segments h s) = LOADED) \<and>
     (\<forall>s. sg_commitId (hp_segments h s) \<noteq> cid \<longrightarrow> (\<forall>a \<in> cluster_ptrs h s. cl_commitId (hp_clusters h a) \<noteq> cid)) \<and>
     (\<forall>a. cl_commitId (hp_clusters h a) \<noteq> cid \<longrightarrow> (\<forall>p \<in> blob_ptrs h a. bl_commitId (hp_blobs h p) \<noteq> cid)) \<and>
     (\<forall>s s' k k' a. map_of (sg_clusters (hp_segments h s)) k = Some a
        \<longrightarrow> map_of (sg_clusters (hp_segments h s')) k' = Some a \<longrightarrow> cl_commitId (hp_clusters h a) = cid
        \<longrightarrow> s = s' \<and> k = k') \<and>
     (\<forall>a a' k k' p. map_of (cl_blobs (hp_clusters h a)) k = Some p
        \<longrightarrow> map_of (cl_blobs (hp_clusters h a')) k' = Some p \<longrightarrow> bl_commitId (hp_blobs h p) = cid
        \<longrightarrow> a = a' \<and> k = k'))"

lemma isolatedD:
  assumes "isolated cid h"
  shows "bl_commitId (hp_blobs h p) = cid \<Longrightarrow> p < hp_next h \<and> bl_status (hp_blobs h p) = LOADED"
    "cl_commitId (hp_clusters h a) = cid \<Longrightarrow> a < hp_next h \<and> cl_status (hp_clusters h a) = LOADED"
    "sg_commitId (hp_segments h s) = cid \<Longrightarrow> s < hp_next h \<and> sg_status (hp_segments h s) = LOADED"
    "sg_commitId (hp_segments h s) \<noteq> cid \<Longrightarrow> a \<in> cluster_ptrs h s \<Longrightarrow> cl_commitId (hp_clusters h a) \<noteq> cid"
    "cl_commitId (hp_clusters h a) \<noteq> cid \<Longrightarrow> p \<in> blob_ptrs h a \<Longrightarrow> bl_commitId (hp_blobs h p) \<noteq> cid"
    "map_of (sg_clusters (hp_segments h s)) k = Some a \<Longrightarrow> map_of (sg_clusters (hp_segments h s')) k' = Some a
       \<Longrightarrow> cl_commitId (hp_clusters h a) = cid \<Longrightarrow> s = s' \<and> k = k'"
    "map_of (cl_blobs (hp_clusters h a)) k = Some p \<Longrightarrow> map_of (cl_blobs (hp_clusters h a')) k' = Some p
       \<Longrightarrow> bl_commitId (hp_blobs h p) = cid \<Longrightarrow> a = a' \<and> k = k'"
  using assms unfolding isolated_def by (blast+)

text \<open>Changes that neither create nor touch objects of the commit keep the property.\<close>

lemma map_of_ptr: "map_of m k = Some p \<Longrightarrow> p \<in> snd ` set m"
  by (force dest: map_of_SomeD)

lemma isolated_transfer:
  assumes iso: "isolated cid h" and mono: "hp_next h \<le> hp_next h'"
    and b: "\<And>p. bl_commitId (hp_blobs h' p) = cid \<longleftrightarrow> bl_commitId (hp_blobs h p) = cid"
      "\<And>p. bl_commitId (hp_blobs h p) = cid \<Longrightarrow> bl_status (hp_blobs h' p) = LOADED"
    and c: "\<And>a. cl_commitId (hp_clusters h' a) = cid \<longleftrightarrow> cl_commitId (hp_clusters h a) = cid"
      "\<And>a. cl_commitId (hp_clusters h a) = cid \<Longrightarrow> cl_status (hp_clusters h' a) = LOADED"
      "\<And>a. cl_blobs (hp_clusters h' a) = cl_blobs (hp_clusters h a)
          \<or> (\<forall>p \<in> blob_ptrs h' a. bl_commitId (hp_blobs h p) \<noteq> cid)"
    and s: "\<And>s. sg_commitId (hp_segments h' s) = cid \<longleftrightarrow> sg_commitId (hp_segments h s) = cid"
      "\<And>s. sg_commitId (hp_segments h s) = cid \<Longrightarrow> sg_status (hp_segments h' s) = LOADED"
      "\<And>s. sg_clusters (hp_segments h' s) = sg_clusters (hp_segments h s)
          \<or> (\<forall>a \<in> cluster_ptrs h' s. cl_commitId (hp_clusters h a) \<noteq> cid)"
  shows "isolated cid h'"
  unfolding isolated_def b(1) c(1) s(1)
proof (intro conjI allI impI ballI)
  fix s a assume "sg_commitId (hp_segments h s) \<noteq> cid" "a \<in> cluster_ptrs h' s"
  then show "cl_commitId (hp_clusters h a) \<noteq> cid"
    using s(3) [of s] isolatedD(4) [OF iso, of s a] unfolding cluster_ptrs_def by metis
next
  fix a p assume "cl_commitId (hp_clusters h a) \<noteq> cid" "p \<in> blob_ptrs h' a"
  then show "bl_commitId (hp_blobs h p) \<noteq> cid"
    using c(3) [of a] isolatedD(5) [OF iso, of a p] unfolding blob_ptrs_def by metis
next
  fix s s' k k' a
  assume m: "map_of (sg_clusters (hp_segments h' s)) k = Some a" "map_of (sg_clusters (hp_segments h' s')) k' = Some a"
    "cl_commitId (hp_clusters h a) = cid"
  then have "sg_clusters (hp_segments h' s) = sg_clusters (hp_segments h s)"
    "sg_clusters (hp_segments h' s') = sg_clusters (hp_segments h s')"
    using s(3) [of s] s(3) [of s'] by (auto simp: cluster_ptrs_def dest: map_of_ptr)
  then show "s = s'" "k = k'" using m isolatedD(6) [OF iso, of s k a s' k'] by auto
next
  fix a a' k k' p
  assume m: "map_of (cl_blobs (hp_clusters h' a)) k = Some p" "map_of (cl_blobs (hp_clusters h' a')) k' = Some p"
    "bl_commitId (hp_blobs h p) = cid"
  then have "cl_blobs (hp_clusters h' a) = cl_blobs (hp_clusters h a)"
    "cl_blobs (hp_clusters h' a') = cl_blobs (hp_clusters h a')"
    using c(3) [of a] c(3) [of a'] by (auto simp: blob_ptrs_def dest: map_of_ptr)
  then show "a = a'" "k = k'" using m isolatedD(7) [OF iso, of a k p a' k'] by auto
qed (use mono b(2) c(2) s(2) isolatedD(1-3) [OF iso] in \<open>fastforce+\<close>)

lemma load_step_commit_blob:
  assumes "load_step f c0 h h'" "isolated cid h" "c0 < cid" "cid \<noteq> max_commit_id"
  shows "bl_commitId (hp_blobs h' p) = cid \<longleftrightarrow> bl_commitId (hp_blobs h p) = cid"
  using assms(1)
proof cases
  case (blob q c d)
  then show ?thesis using assms(2,3) isolatedD(1) [OF assms(2), of q] by (auto simp: loaded_blob_def)
next
  case (cluster a bs c n es)
  show ?thesis
  proof (cases "hp_next h \<le> p \<and> p < hp_next h + length es")
    case True
    then have "hp_blobs h' p = delayed_blob (es ! (p - hp_next h))"
      by (auto simp: cluster(1) loaded_cluster_def delayed_blobs_def overlay_def)
    then show ?thesis
      using True isolatedD(1) [OF assms(2), of p] assms(4) by (auto simp: delayed_blob_def Blob_new_def)
  qed (auto simp: cluster(1) loaded_cluster_def delayed_blobs_def overlay_def)
qed (simp add: loaded_segment_def)

lemma load_step_commit_cluster:
  assumes "load_step f c0 h h'" "isolated cid h" "c0 < cid" "cid \<noteq> max_commit_id"
  shows "cl_commitId (hp_clusters h' p) = cid \<longleftrightarrow> cl_commitId (hp_clusters h p) = cid"
  using assms(1)
proof cases
  case (cluster a bs c n es)
  then show ?thesis
    using assms(2,3) isolatedD(2) [OF assms(2), of a]
    by (auto simp: loaded_cluster_def Cluster_SetNextFreeBlobId_def)
next
  case (segment s bs c n es)
  show ?thesis
  proof (cases "hp_next h \<le> p \<and> p < hp_next h + length es")
    case True
    then have "hp_clusters h' p = delayed_cluster (es ! (p - hp_next h))"
      by (auto simp: segment(1) loaded_segment_def delayed_clusters_def overlay_def)
    then show ?thesis
      using True isolatedD(2) [OF assms(2), of p] assms(4) by (auto simp: delayed_cluster_def Cluster_new_def)
  qed (auto simp: segment(1) loaded_segment_def delayed_clusters_def overlay_def)
qed (simp add: loaded_blob_def)

lemma load_step_commit_segment:
  assumes "load_step f c0 h h'" "isolated cid h" "c0 < cid"
  shows "sg_commitId (hp_segments h' p) = cid \<longleftrightarrow> sg_commitId (hp_segments h p) = cid"
  using assms(1)
proof cases
  case (segment s bs c n es)
  then show ?thesis
    using assms(2,3) isolatedD(3) [OF assms(2), of s]
    by (auto simp: loaded_segment_def Segment_SetNextFreeClusterId_def)
qed (simp_all add: loaded_blob_def loaded_cluster_def)

lemma load_step_isolated:
  assumes step: "load_step f c0 h h'" and iso: "isolated cid h" and cid: "c0 < cid" "cid \<noteq> max_commit_id"
  shows "isolated cid h'"
proof (rule isolated_transfer [OF iso load_step_next [OF step]])
  show "bl_status (hp_blobs h' p) = LOADED" if "bl_commitId (hp_blobs h p) = cid" for p
    using isolatedD(1) [OF iso that] load_step_frame(1) [OF step, of p] by auto
  show "cl_status (hp_clusters h' p) = LOADED" if "cl_commitId (hp_clusters h p) = cid" for p
    using isolatedD(2) [OF iso that] load_step_frame(2) [OF step, of p] by auto
  show "sg_status (hp_segments h' p) = LOADED" if "sg_commitId (hp_segments h p) = cid" for p
    using isolatedD(3) [OF iso that] load_step_frame(3) [OF step, of p] by auto
  have nb: "bl_commitId (hp_blobs h p) \<noteq> cid" if "hp_next h \<le> p" for p
    using isolatedD(1) [OF iso, of p] that by auto
  have nc: "cl_commitId (hp_clusters h p) \<noteq> cid" if "hp_next h \<le> p" for p
    using isolatedD(2) [OF iso, of p] that by auto
  show "cl_blobs (hp_clusters h' a) = cl_blobs (hp_clusters h a)
      \<or> (\<forall>p \<in> blob_ptrs h' a. bl_commitId (hp_blobs h p) \<noteq> cid)" for a
    using step
  proof cases
    case (cluster x bs c n es)
    then show ?thesis
      by (cases "a = x") (auto simp: loaded_cluster_def blob_ptrs_def dest!: in_fresh_entries nb)
  next
    case (segment s bs c n es)
    then show ?thesis
      by (simp add: loaded_segment_def blob_ptrs_def delayed_clusters_def)
        (use overlay_cases [of "hp_clusters h" "hp_next h" "map delayed_cluster es" a] in
          \<open>force simp: delayed_cluster_def Cluster_new_def\<close>)
  qed (simp add: loaded_blob_def)
  show "sg_clusters (hp_segments h' a) = sg_clusters (hp_segments h a)
      \<or> (\<forall>p \<in> cluster_ptrs h' a. cl_commitId (hp_clusters h p) \<noteq> cid)" for a
    using step
  proof cases
    case (segment s bs c n es)
    then show ?thesis
      by (cases "a = s") (auto simp: loaded_segment_def cluster_ptrs_def dest!: in_fresh_entries nc)
  qed (simp_all add: loaded_blob_def loaded_cluster_def)
qed (use load_step_commit_blob [OF step iso cid] load_step_commit_cluster [OF step iso cid]
      load_step_commit_segment [OF step iso cid(1)] in auto)

section \<open>Sequences of loads\<close>

lemma loads_next: "loads f c0 h h' \<Longrightarrow> hp_next h \<le> hp_next h'"
  by (induction rule: rtranclp_induct) (auto dest: load_step_next)

lemma loads_wf: "loads f c0 h h' \<Longrightarrow> heap_wf h \<Longrightarrow> heap_wf h'"
  by (induction rule: rtranclp_induct) (auto intro: load_step_wf)

lemma loads_views:
  assumes "loads f c0 h h'" "heap_wf h" "x < hp_next h"
  shows "blob_at f h' x = blob_at f h x" "cluster_at f h' x = cluster_at f h x" "segment_at f h' x = segment_at f h x"
proof -
  have "blob_at f h' x = blob_at f h x \<and> cluster_at f h' x = cluster_at f h x \<and> segment_at f h' x = segment_at f h x"
    using assms(1)
  proof (induction rule: rtranclp_induct)
    case (step h1 h2)
    then show ?case
      using load_step_views [OF step.hyps(2) loads_wf [OF step.hyps(1) assms(2)], of x]
        loads_next [OF step.hyps(1)] assms(3) by simp
  qed simp
  then show "blob_at f h' x = blob_at f h x" "cluster_at f h' x = cluster_at f h x" "segment_at f h' x = segment_at f h x"
    by auto
qed

lemma loads_frame:
  assumes "loads f c0 h h'" "x < hp_next h"
  shows "bl_status (hp_blobs h x) = LOADED \<Longrightarrow> hp_blobs h' x = hp_blobs h x"
    "cl_status (hp_clusters h x) = LOADED \<Longrightarrow> hp_clusters h' x = hp_clusters h x"
    "sg_status (hp_segments h x) = LOADED \<Longrightarrow> hp_segments h' x = hp_segments h x"
proof -
  have "(bl_status (hp_blobs h x) = LOADED \<longrightarrow> hp_blobs h' x = hp_blobs h x)
     \<and> (cl_status (hp_clusters h x) = LOADED \<longrightarrow> hp_clusters h' x = hp_clusters h x)
     \<and> (sg_status (hp_segments h x) = LOADED \<longrightarrow> hp_segments h' x = hp_segments h x)"
    using assms(1)
  proof (induction rule: rtranclp_induct)
    case (step h1 h2)
    have "x < hp_next h1" using loads_next [OF step.hyps(1)] assms(2) by simp
    from load_step_frame [OF step.hyps(2) this] step.IH show ?case by auto
  qed simp
  then show "bl_status (hp_blobs h x) = LOADED \<Longrightarrow> hp_blobs h' x = hp_blobs h x"
    "cl_status (hp_clusters h x) = LOADED \<Longrightarrow> hp_clusters h' x = hp_clusters h x"
    "sg_status (hp_segments h x) = LOADED \<Longrightarrow> hp_segments h' x = hp_segments h x" by auto
qed

text \<open>Commit ids only change to those of stored objects or to the marker of objects that are not loaded.\<close>

definition redated :: "commit_id \<Rightarrow> commit_id \<Rightarrow> commit_id \<Rightarrow> commit_id \<Rightarrow> bool" where
  "redated c0 cid a b = (b \<le> c0 \<or> b = cid \<or> b = max_commit_id \<or> b = a)"

lemma redated_refl [simp]: "redated c0 cid a a"
  by (simp add: redated_def)

lemma redated_le: "b \<le> c0 \<Longrightarrow> redated c0 cid a b"
  by (simp add: redated_def)

lemma redated_trans: "redated c0 cid a b \<Longrightarrow> redated c0 cid b c \<Longrightarrow> redated c0 cid a c"
  by (auto simp: redated_def)

definition dated_step :: "commit_id \<Rightarrow> commit_id \<Rightarrow> Heap \<Rightarrow> Heap \<Rightarrow> bool" where
  "dated_step c0 cid h h' = (\<forall>x.
     redated c0 cid (bl_commitId (hp_blobs h x)) (bl_commitId (hp_blobs h' x)) \<and>
     redated c0 cid (cl_commitId (hp_clusters h x)) (cl_commitId (hp_clusters h' x)) \<and>
     redated c0 cid (sg_commitId (hp_segments h x)) (sg_commitId (hp_segments h' x)))"

lemma dated_step_refl [simp]: "dated_step c0 cid h h"
  by (simp add: dated_step_def)

lemma dated_step_trans: "dated_step c0 cid h1 h2 \<Longrightarrow> dated_step c0 cid h2 h3 \<Longrightarrow> dated_step c0 cid h1 h3"
  unfolding dated_step_def by (blast intro: redated_trans)

lemma delayed_redated:
  "redated c0 cid (bl_commitId (bs x)) (bl_commitId (delayed_blobs bs n es x))"
  "redated c0 cid (cl_commitId (cs x)) (cl_commitId (delayed_clusters cs n es x))"
  by (auto simp: delayed_blobs_def delayed_clusters_def overlay_def delayed_blob_def delayed_cluster_def
      Blob_new_def Cluster_new_def redated_def)

lemma load_step_dated: "load_step f c0 h h' \<Longrightarrow> dated_step c0 cid h h'"
  by (induction rule: load_step.induct)
    (auto simp: dated_step_def loaded_blob_def loaded_cluster_def loaded_segment_def
      Cluster_SetNextFreeBlobId_def Segment_SetNextFreeClusterId_def delayed_redated redated_le)

lemma loads_dated: "loads f c0 h h' \<Longrightarrow> dated_step c0 cid h h'"
  by (induction rule: rtranclp_induct) (auto intro: dated_step_trans load_step_dated)

lemma loads_ok:
  assumes "loads f c0 h h'" "heap_wf h" "x < hp_next h"
  shows "ok_blob f c0 h x \<Longrightarrow> ok_blob f c0 h' x" "ok_cluster f c0 h x \<Longrightarrow> ok_cluster f c0 h' x"
    "ok_segment f c0 h x \<Longrightarrow> ok_segment f c0 h' x"
proof -
  have "(ok_blob f c0 h x \<longrightarrow> ok_blob f c0 h' x) \<and> (ok_cluster f c0 h x \<longrightarrow> ok_cluster f c0 h' x)
     \<and> (ok_segment f c0 h x \<longrightarrow> ok_segment f c0 h' x)"
    using assms(1)
  proof (induction rule: rtranclp_induct)
    case (step h1 h2)
    have "x < hp_next h1" "heap_wf h1"
      using loads_next [OF step.hyps(1)] loads_wf [OF step.hyps(1)] assms by auto
    then show ?case
      using step.IH load_step_ok_blob [OF step.hyps(2)] load_step_ok_cluster [OF step.hyps(2)]
        load_step_ok_segment [OF step.hyps(2)] by blast
  qed simp
  then show "ok_blob f c0 h x \<Longrightarrow> ok_blob f c0 h' x" "ok_cluster f c0 h x \<Longrightarrow> ok_cluster f c0 h' x"
    "ok_segment f c0 h x \<Longrightarrow> ok_segment f c0 h' x" by auto
qed

lemma loads_isolated:
  assumes "loads f c0 h h'" "isolated cid h" "c0 < cid" "cid \<noteq> max_commit_id"
  shows "isolated cid h'" "bl_commitId (hp_blobs h' x) = cid \<longleftrightarrow> bl_commitId (hp_blobs h x) = cid"
    "cl_commitId (hp_clusters h' x) = cid \<longleftrightarrow> cl_commitId (hp_clusters h x) = cid"
    "sg_commitId (hp_segments h' x) = cid \<longleftrightarrow> sg_commitId (hp_segments h x) = cid"
proof -
  have "isolated cid h' \<and> (bl_commitId (hp_blobs h' x) = cid \<longleftrightarrow> bl_commitId (hp_blobs h x) = cid)
    \<and> (cl_commitId (hp_clusters h' x) = cid \<longleftrightarrow> cl_commitId (hp_clusters h x) = cid)
    \<and> (sg_commitId (hp_segments h' x) = cid \<longleftrightarrow> sg_commitId (hp_segments h x) = cid)"
    using assms(1)
  proof (induction rule: rtranclp_induct)
    case (step h1 h2)
    then have iso: "isolated cid h1" by simp
    show ?case
      using step.IH load_step_isolated [OF step.hyps(2) iso assms(3,4)]
        load_step_commit_blob [OF step.hyps(2) iso assms(3,4)]
        load_step_commit_cluster [OF step.hyps(2) iso assms(3,4)]
        load_step_commit_segment [OF step.hyps(2) iso assms(3)] by simp
  qed (simp add: assms(2))
  then show "isolated cid h'" "bl_commitId (hp_blobs h' x) = cid \<longleftrightarrow> bl_commitId (hp_blobs h x) = cid"
    "cl_commitId (hp_clusters h' x) = cid \<longleftrightarrow> cl_commitId (hp_clusters h x) = cid"
    "sg_commitId (hp_segments h' x) = cid \<longleftrightarrow> sg_commitId (hp_segments h x) = cid" by auto
qed

section \<open>The loading operations\<close>

lemma ensure_blob_loaded_ok:
  assumes "heap_wf h" "p < hp_next h" "ok_blob f c0 h p"
  shows "\<exists>h'. ensure_blob_loaded f p h = Some h' \<and> loads f c0 h h' \<and> bl_status (hp_blobs h' p) = LOADED"
proof (cases "bl_status (hp_blobs h p) = LOADED")
  case True
  then show ?thesis by (simp add: ensure_blob_loaded_def)
next
  case False
  then obtain c d where d: "disk_blob f (bl_fileLocation (hp_blobs h p)) = Some (BlobView c d)" "c \<le> c0"
    using assms(3) by (auto simp: ok_blob_def good_blob_def)
  then have "load_step f c0 h (loaded_blob h p c d)" using False assms(2) by (intro load_step.blob)
  with d False show ?thesis
    by (auto simp: ensure_blob_loaded_def Blob_LoadFrom_explicit loaded_blob_def)
qed

lemma ensure_cluster_loaded_ok:
  assumes "heap_wf h" "a < hp_next h" "ok_cluster f c0 h a"
  shows "\<exists>h'. ensure_cluster_loaded f a h = Some h' \<and> loads f c0 h h' \<and> cl_status (hp_clusters h' a) = LOADED"
proof (cases "cl_status (hp_clusters h a) = LOADED")
  case True
  then show ?thesis by (simp add: ensure_cluster_loaded_def)
next
  case False
  then obtain bs c n es where d: "LoadMemoryBlock f (cl_fileLocation (hp_clusters h a)) = Some bs"
    "load_table bs = Some (c, n, es)" "c \<le> c0" "fm_sorted es" "\<forall>e \<in> set es. good_blob f c0 (snd e)"
    using assms(3) by (auto simp: ok_cluster_def good_table_def)
  then have "load_step f c0 h (loaded_cluster h a c n es)" using False assms(2) by (intro load_step.cluster)
  with d False assms(1) show ?thesis
    by (auto simp: ensure_cluster_loaded_def Cluster_LoadFrom_explicit)
      (auto simp: loaded_cluster_def)
qed

lemma ensure_segment_loaded_ok:
  assumes "heap_wf h" "s < hp_next h" "ok_segment f c0 h s"
  shows "\<exists>h'. ensure_segment_loaded f s h = Some h' \<and> loads f c0 h h' \<and> sg_status (hp_segments h' s) = LOADED"
proof (cases "sg_status (hp_segments h s) = LOADED")
  case True
  then show ?thesis by (simp add: ensure_segment_loaded_def)
next
  case False
  then obtain bs c n es where d: "LoadMemoryBlock f (sg_fileLocation (hp_segments h s)) = Some bs"
    "load_table bs = Some (c, n, es)" "c \<le> c0" "fm_sorted es" "\<forall>e \<in> set es. good_cluster f c0 (snd e)"
    using assms(3) by (auto simp: ok_segment_def good_table_def [where good = "good_cluster f c0"])
  then have "load_step f c0 h (loaded_segment h s c n es)" using False assms(2) by (intro load_step.segment)
  with d False assms(1) show ?thesis
    by (auto simp: ensure_segment_loaded_def Segment_LoadFrom_explicit)
      (auto simp: loaded_segment_def)
qed

lemma load_blobs_ok:
  assumes "heap_wf h" "\<forall>p \<in> set ps. p < hp_next h \<and> ok_blob f c0 h p"
  shows "\<exists>h'. load_blobs f ps h = Some h' \<and> loads f c0 h h'"
  using assms
proof (induction ps arbitrary: h)
  case (Cons p ps)
  obtain h1 where h1: "ensure_blob_loaded f p h = Some h1" "loads f c0 h h1"
    using ensure_blob_loaded_ok [of h p f c0] Cons.prems by auto
  have "heap_wf h1" "\<forall>p \<in> set ps. p < hp_next h1 \<and> ok_blob f c0 h1 p"
    using loads_wf [OF h1(2)] loads_next [OF h1(2)] loads_ok(1) [OF h1(2)] Cons.prems by auto
  from Cons.IH [OF this] h1 show ?case by (auto intro: rtranclp_trans)
qed auto

lemma Cluster_LoadAllBlobs_ok:
  assumes "heap_wf h" "cl_status (hp_clusters h a) = LOADED" "ok_cluster f c0 h a"
  shows "\<exists>h'. Cluster_LoadAllBlobs f a h = Some h' \<and> loads f c0 h h'"
  using assms heap_wf_cluster(2) [OF assms(1), where a = a] load_blobs_ok [OF assms(1), of _ f c0]
  by (auto simp: Cluster_LoadAllBlobs_def ok_cluster_def blob_ptrs_def)

lemma load_clusters_ok:
  assumes "heap_wf h" "\<forall>a \<in> set as. a < hp_next h \<and> ok_cluster f c0 h a"
  shows "\<exists>h'. load_clusters f as h = Some h' \<and> loads f c0 h h'"
  using assms
proof (induction as arbitrary: h)
  case (Cons a as)
  obtain h1 where h1: "ensure_cluster_loaded f a h = Some h1" "loads f c0 h h1"
    using ensure_cluster_loaded_ok [of h a f c0] Cons.prems by auto
  have "heap_wf h1" "\<forall>p \<in> set as. p < hp_next h1 \<and> ok_cluster f c0 h1 p"
    using loads_wf [OF h1(2)] loads_next [OF h1(2)] loads_ok(2) [OF h1(2)] Cons.prems by auto
  from Cons.IH [OF this] h1 show ?case by (auto intro: rtranclp_trans)
qed auto

lemma load_clusters_and_blobs_ok:
  assumes "heap_wf h" "\<forall>a \<in> set as. a < hp_next h \<and> ok_cluster f c0 h a"
  shows "\<exists>h'. load_clusters_and_blobs f as h = Some h' \<and> loads f c0 h h'"
  using assms
proof (induction as arbitrary: h)
  case (Cons a as)
  obtain h1 where h1: "ensure_cluster_loaded f a h = Some h1" "loads f c0 h h1" "cl_status (hp_clusters h1 a) = LOADED"
    using ensure_cluster_loaded_ok [of h a f c0] Cons.prems by auto
  have "ok_cluster f c0 h1 a" using loads_ok(2) [OF h1(2)] Cons.prems by simp
  then obtain h2 where h2: "Cluster_LoadAllBlobs f a h1 = Some h2" "loads f c0 h1 h2"
    using Cluster_LoadAllBlobs_ok [OF loads_wf [OF h1(2) Cons.prems(1)] h1(3)] by blast
  have l: "loads f c0 h h2" using h1(2) h2(2) by (rule rtranclp_trans)
  have "heap_wf h2" "\<forall>p \<in> set as. p < hp_next h2 \<and> ok_cluster f c0 h2 p"
    using loads_wf [OF l] loads_next [OF l] loads_ok(2) [OF l] Cons.prems by auto
  from Cons.IH [OF this] h1(1) h2(1) l show ?case by (auto intro: rtranclp_trans)
qed auto

lemma Segment_LoadAll_ok:
  assumes "heap_wf h" "sg_status (hp_segments h s) = LOADED" "ok_segment f c0 h s"
  shows "\<exists>h'. Segment_LoadAllClusters f s h = Some h' \<and> loads f c0 h h'"
    and "\<exists>h'. Segment_LoadAllBlobs f s h = Some h' \<and> loads f c0 h h'"
proof -
  have "\<forall>a \<in> set (map snd (sg_clusters (hp_segments h s))). a < hp_next h \<and> ok_cluster f c0 h a"
    using heap_wf_segment(2) [OF assms(1), where s = s] assms(2,3) by (auto simp: ok_segment_def cluster_ptrs_def)
  then show "\<exists>h'. Segment_LoadAllClusters f s h = Some h' \<and> loads f c0 h h'"
    "\<exists>h'. Segment_LoadAllBlobs f s h = Some h' \<and> loads f c0 h h'"
    using load_clusters_ok [OF assms(1)] load_clusters_and_blobs_ok [OF assms(1)] assms(2)
    by (simp_all add: Segment_LoadAllClusters_def Segment_LoadAllBlobs_def)
qed

section \<open>Reading a blob\<close>

definition view_blob :: "snap_view \<Rightarrow> BlobLocation \<Rightarrow> blob_view option" where
  "view_blob v loc = do {
     s \<leftarrow> dv_segments v (segment loc); c \<leftarrow> sv_clusters s (cluster loc); cv_blobs c (blob loc) }"

text \<open>The \<open>NextFree\<close> identifiers are kept outside the tables.\<close>

definition regular_location :: "BlobLocation \<Rightarrow> bool" where
  "regular_location loc = (blob loc \<noteq> NextFreeBlobId)"

abbreviation blob_content :: "Blob \<Rightarrow> blob_view" where
  "blob_content b \<equiv> BlobView (bl_commitId b) (bl_data b)"

lemma snap_wf_segment: "snap_wf h sn \<Longrightarrow> map_of (sn_segments sn) k = Some s \<Longrightarrow> s < hp_next h"
  by (auto simp: snap_wf_def segment_ptrs_def dest: map_of_ptr)

lemma ok_snapshotD: "ok_snapshot f c0 h sn \<Longrightarrow> map_of (sn_segments sn) k = Some s \<Longrightarrow> ok_segment f c0 h s"
  by (auto simp: ok_snapshot_def segment_ptrs_def dest: map_of_ptr)

lemma Cluster_GetLoadedBlob_read:
  assumes "heap_wf h" "cl_status (hp_clusters h a) = LOADED" "ok_cluster f c0 h a" "k \<noteq> NextFreeBlobId"
  shows "\<exists>r h'. Cluster_GetLoadedBlob f a k h = Some (r, h') \<and> loads f c0 h h'
     \<and> map_option blob_content r = Option.bind (cluster_at f h a) (\<lambda>c. cv_blobs c k)"
proof -
  have lk: "fm_lookup (cl_blobs (hp_clusters h a)) = map_of (cl_blobs (hp_clusters h a))"
    using heap_wf_cluster(1) [OF assms(1)] by (rule fm_lookup_map_of)
  show ?thesis
  proof (cases "map_of (cl_blobs (hp_clusters h a)) k")
    case None
    then show ?thesis
      using assms lk by (simp add: Cluster_GetLoadedBlob_def Cluster_GetBlob_def cluster_at_def children_def Let_def)
  next
    case (Some p)
    then have p: "p \<in> blob_ptrs h a" by (auto simp: blob_ptrs_def dest: map_of_ptr)
    then have "p < hp_next h" "ok_blob f c0 h p"
      using heap_wf_cluster(2) [OF assms(1) p] assms(2,3) by (auto simp: ok_cluster_def)
    then obtain h' where h': "ensure_blob_loaded f p h = Some h'" "loads f c0 h h'" "bl_status (hp_blobs h' p) = LOADED"
      using ensure_blob_loaded_ok [OF assms(1)] by blast
    have "blob_at f h p = Some (blob_content (hp_blobs h' p))"
      using loads_views(1) [OF h'(2) assms(1) \<open>p < hp_next h\<close>] h'(3) by (simp add: blob_at_def Let_def)
    with h' Some lk assms(2,4) show ?thesis
      by (simp add: Cluster_GetLoadedBlob_def Cluster_GetBlob_def cluster_at_def children_def Let_def)
  qed
qed

lemma Segment_GetLoadedCluster_read:
  assumes "heap_wf h" "sg_status (hp_segments h s) = LOADED" "ok_segment f c0 h s"
  shows "\<exists>r h'. Segment_GetLoadedCluster f s k h = Some (r, h') \<and> loads f c0 h h'
     \<and> r = map_of (sg_clusters (hp_segments h s)) k
     \<and> (\<forall>a. r = Some a \<longrightarrow> a < hp_next h \<and> cl_status (hp_clusters h' a) = LOADED \<and> ok_cluster f c0 h' a
            \<and> cluster_at f h' a = cluster_at f h a)"
proof -
  have lk: "fm_lookup (sg_clusters (hp_segments h s)) = map_of (sg_clusters (hp_segments h s))"
    using heap_wf_segment(1) [OF assms(1)] by (rule fm_lookup_map_of)
  show ?thesis
  proof (cases "map_of (sg_clusters (hp_segments h s)) k")
    case None
    then show ?thesis using lk by (simp add: Segment_GetLoadedCluster_def Segment_GetCluster_def)
  next
    case (Some a)
    then have a: "a \<in> cluster_ptrs h s" by (auto simp: cluster_ptrs_def dest: map_of_ptr)
    then have a': "a < hp_next h" "ok_cluster f c0 h a"
      using heap_wf_segment(2) [OF assms(1) a] assms(2,3) by (auto simp: ok_segment_def)
    then obtain h' where h': "ensure_cluster_loaded f a h = Some h'" "loads f c0 h h'" "cl_status (hp_clusters h' a) = LOADED"
      using ensure_cluster_loaded_ok [OF assms(1)] by blast
    with Some lk a' loads_ok(2) [OF h'(2) assms(1)] loads_views(2) [OF h'(2) assms(1)] show ?thesis
      by (simp add: Segment_GetLoadedCluster_def Segment_GetCluster_def)
  qed
qed

lemma Snapshot_GetLoadedSegment_read:
  assumes "heap_wf h" "snap_wf h sn" "ok_snapshot f c0 h sn"
  shows "\<exists>r h'. Snapshot_GetLoadedSegment f sn k h = Some (r, h') \<and> loads f c0 h h'
     \<and> r = map_of (sn_segments sn) k
     \<and> (\<forall>s. r = Some s \<longrightarrow> s < hp_next h \<and> sg_status (hp_segments h' s) = LOADED \<and> ok_segment f c0 h' s
            \<and> segment_at f h' s = segment_at f h s)"
proof -
  have lk: "fm_lookup (sn_segments sn) = map_of (sn_segments sn)"
    using assms(2) by (intro fm_lookup_map_of) (simp add: snap_wf_def)
  show ?thesis
  proof (cases "map_of (sn_segments sn) k")
    case None
    then show ?thesis using lk by (simp add: Snapshot_GetLoadedSegment_def Snapshot_GetSegment_def)
  next
    case (Some s)
    then have s: "s < hp_next h" "ok_segment f c0 h s"
      using snap_wf_segment [OF assms(2)] ok_snapshotD [OF assms(3)] by auto
    then obtain h' where h': "ensure_segment_loaded f s h = Some h'" "loads f c0 h h'" "sg_status (hp_segments h' s) = LOADED"
      using ensure_segment_loaded_ok [OF assms(1)] by blast
    with Some lk s loads_ok(3) [OF h'(2) assms(1)] loads_views(3) [OF h'(2) assms(1)] show ?thesis
      by (simp add: Snapshot_GetLoadedSegment_def Snapshot_GetSegment_def)
  qed
qed

lemma Snapshot_GetLoadedBlob_read:
  assumes "heap_wf h" "snap_wf h sn" "ok_snapshot f c0 h sn" "regular_location loc"
  shows "\<exists>r h'. Snapshot_GetLoadedBlob f sn loc h = Some (r, h') \<and> loads f c0 h h'
     \<and> map_option blob_content r = view_blob (snapshot_view f h sn) loc"
proof -
  have reg: "blob loc \<noteq> NextFreeBlobId" using assms(4) by (simp add: regular_location_def)
  obtain r1 h1 where h1: "Snapshot_GetLoadedSegment f sn (segment loc) h = Some (r1, h1)" "loads f c0 h h1"
    "r1 = map_of (sn_segments sn) (segment loc)"
    "\<And>s. r1 = Some s \<Longrightarrow> sg_status (hp_segments h1 s) = LOADED \<and> ok_segment f c0 h1 s
            \<and> segment_at f h1 s = segment_at f h s"
    using Snapshot_GetLoadedSegment_read [OF assms(1-3), of "segment loc"] by blast
  have wf1: "heap_wf h1" using loads_wf [OF h1(2) assms(1)] .
  show ?thesis
  proof (cases r1)
    case None
    then show ?thesis
      using h1 reg by (auto simp: Snapshot_GetLoadedBlob_def view_blob_def snapshot_view_def children_def)
  next
    case (Some s)
    with h1(4) have s: "sg_status (hp_segments h1 s) = LOADED" "ok_segment f c0 h1 s"
      "segment_at f h1 s = segment_at f h s" by auto
    obtain r2 h2 where h2: "Segment_GetLoadedCluster f s (cluster loc) h1 = Some (r2, h2)" "loads f c0 h1 h2"
      "r2 = map_of (sg_clusters (hp_segments h1 s)) (cluster loc)"
      "\<And>a. r2 = Some a \<Longrightarrow> cl_status (hp_clusters h2 a) = LOADED \<and> ok_cluster f c0 h2 a
            \<and> cluster_at f h2 a = cluster_at f h1 a"
      using Segment_GetLoadedCluster_read [OF wf1 s(1,2), of "cluster loc"] by blast
    have seg: "dv_segments (snapshot_view f h sn) (segment loc) = segment_at f h1 s"
      using h1(3) [symmetric] Some s(3) by (simp add: snapshot_view_def children_def)
    have clu: "Option.bind (segment_at f h1 s) (\<lambda>s. sv_clusters s (cluster loc)) = Option.bind r2 (cluster_at f h1)"
      using s(1) h2(3) by (simp add: segment_at_def children_def Let_def)
    show ?thesis
    proof (cases r2)
      case None
      then show ?thesis
        using h1(1,2) h2(1,2) Some reg clu seg s(1)
        by (auto simp: Snapshot_GetLoadedBlob_def Segment_GetLoadedBlob_def view_blob_def segment_at_def Let_def
            intro: rtranclp_trans split: bind_splits)
    next
      case (Some a)
      with h2(4) have a: "cl_status (hp_clusters h2 a) = LOADED" "ok_cluster f c0 h2 a"
        "cluster_at f h2 a = cluster_at f h1 a" by auto
      obtain r3 h3 where h3: "Cluster_GetLoadedBlob f a (blob loc) h2 = Some (r3, h3)" "loads f c0 h2 h3"
        "map_option blob_content r3 = Option.bind (cluster_at f h2 a) (\<lambda>c. cv_blobs c (blob loc))"
        using Cluster_GetLoadedBlob_read [OF loads_wf [OF h2(2) wf1] a(1,2) reg] by blast
      have "view_blob (snapshot_view f h sn) loc = Option.bind (cluster_at f h1 a) (\<lambda>c. cv_blobs c (blob loc))"
        using seg clu Some s(1) by (simp add: view_blob_def segment_at_def Let_def)
      then show ?thesis
        using h1(1,2) h2(1,2) h3 Some \<open>r1 = Some s\<close> reg a(3)
        by (auto simp: Snapshot_GetLoadedBlob_def Segment_GetLoadedBlob_def intro: rtranclp_trans)
    qed
  qed
qed

end
