(* ===== verification/Storage_Update.thy ===== *)
theory Storage_Update
  imports Storage_Load
begin

text \<open>
  The copy-on-write update of a snapshot. A running commit with id \<open>cid\<close> modifies only objects that
  carry this id. \<open>evolves\<close> collects what such a modification, or a load, keeps: the invariants and the
  content of every object of an earlier commit. The operations of Cluster.cpp, Segment.cpp and
  Database.cpp are composed of the primitive heap changes treated first.
\<close>

section \<open>Permitted heap changes\<close>

definition evolves :: "byte list \<Rightarrow> commit_id \<Rightarrow> commit_id \<Rightarrow> Heap \<Rightarrow> Heap \<Rightarrow> bool" where
  "evolves f c0 cid h h' = (
     heap_wf h' \<and> isolated cid h' \<and> hp_next h \<le> hp_next h' \<and> dated_step c0 cid h h' \<and>
     (\<forall>x < hp_next h.
        (bl_commitId (hp_blobs h' x) = cid \<longleftrightarrow> bl_commitId (hp_blobs h x) = cid) \<and>
        (cl_commitId (hp_clusters h' x) = cid \<longleftrightarrow> cl_commitId (hp_clusters h x) = cid) \<and>
        (sg_commitId (hp_segments h' x) = cid \<longleftrightarrow> sg_commitId (hp_segments h x) = cid) \<and>
        (ok_blob f c0 h x \<longrightarrow> ok_blob f c0 h' x) \<and>
        (ok_cluster f c0 h x \<longrightarrow> ok_cluster f c0 h' x) \<and>
        (ok_segment f c0 h x \<longrightarrow> ok_segment f c0 h' x) \<and>
        (bl_status (hp_blobs h x) = LOADED \<longrightarrow> bl_status (hp_blobs h' x) = LOADED) \<and>
        (cl_status (hp_clusters h x) = LOADED \<longrightarrow> cl_status (hp_clusters h' x) = LOADED) \<and>
        (sg_status (hp_segments h x) = LOADED \<longrightarrow> sg_status (hp_segments h' x) = LOADED) \<and>
        (bl_commitId (hp_blobs h x) \<noteq> cid \<longrightarrow> blob_at f h' x = blob_at f h x) \<and>
        (cl_commitId (hp_clusters h x) \<noteq> cid \<longrightarrow> cluster_at f h' x = cluster_at f h x) \<and>
        (sg_commitId (hp_segments h x) \<noteq> cid \<longrightarrow> segment_at f h' x = segment_at f h x)))"

lemma evolves_inv: "evolves f c0 cid h h' \<Longrightarrow> heap_wf h' \<and> isolated cid h' \<and> hp_next h \<le> hp_next h'"
  by (simp add: evolves_def)

lemma evolvesD:
  assumes "evolves f c0 cid h h'" "x < hp_next h"
  shows "bl_commitId (hp_blobs h' x) = cid \<longleftrightarrow> bl_commitId (hp_blobs h x) = cid"
    "cl_commitId (hp_clusters h' x) = cid \<longleftrightarrow> cl_commitId (hp_clusters h x) = cid"
    "sg_commitId (hp_segments h' x) = cid \<longleftrightarrow> sg_commitId (hp_segments h x) = cid"
    "ok_blob f c0 h x \<Longrightarrow> ok_blob f c0 h' x"
    "ok_cluster f c0 h x \<Longrightarrow> ok_cluster f c0 h' x"
    "ok_segment f c0 h x \<Longrightarrow> ok_segment f c0 h' x"
    "cl_status (hp_clusters h x) = LOADED \<Longrightarrow> cl_status (hp_clusters h' x) = LOADED"
    "sg_status (hp_segments h x) = LOADED \<Longrightarrow> sg_status (hp_segments h' x) = LOADED"
    "bl_commitId (hp_blobs h x) \<noteq> cid \<Longrightarrow> blob_at f h' x = blob_at f h x"
    "cl_commitId (hp_clusters h x) \<noteq> cid \<Longrightarrow> cluster_at f h' x = cluster_at f h x"
    "sg_commitId (hp_segments h x) \<noteq> cid \<Longrightarrow> segment_at f h' x = segment_at f h x"
    "bl_status (hp_blobs h x) = LOADED \<Longrightarrow> bl_status (hp_blobs h' x) = LOADED"
  using assms by (auto simp: evolves_def)

lemma evolves_dated: "evolves f c0 cid h h' \<Longrightarrow> dated_step c0 cid h h'"
  by (simp add: evolves_def)

lemma evolves_refl: "heap_wf h \<Longrightarrow> isolated cid h \<Longrightarrow> evolves f c0 cid h h"
  by (simp add: evolves_def dated_step_def)

lemma evolves_trans:
  assumes a: "evolves f c0 cid h1 h2" and b: "evolves f c0 cid h2 h3"
  shows "evolves f c0 cid h1 h3"
proof -
  have m: "x < hp_next h2" if "x < hp_next h1" for x using that evolves_inv [OF a] by simp
  show ?thesis
    unfolding evolves_def
    using evolves_inv [OF a] evolves_inv [OF b] evolvesD [OF a] evolvesD [OF b m]
      dated_step_trans [OF evolves_dated [OF a] evolves_dated [OF b]] by simp
qed

lemma loads_evolves:
  assumes "loads f c0 h h'" "heap_wf h" "isolated cid h" "c0 < cid" "cid \<noteq> max_commit_id"
  shows "evolves f c0 cid h h'"
  unfolding evolves_def
  using loads_wf [OF assms(1,2)] loads_isolated [OF assms(1,3,4,5)] loads_next [OF assms(1)]
    loads_ok [OF assms(1,2)] loads_views [OF assms(1,2)] loads_frame [OF assms(1)] loads_dated [OF assms(1)]
  by simp

lemma evolvesI:
  assumes wf: "heap_wf h'" and iso: "isolated cid h'" and mono: "hp_next h \<le> hp_next h'"
    and old: "heap_wf h" "isolated cid h"
    and b: "\<And>x. x < hp_next h \<Longrightarrow> bl_commitId (hp_blobs h x) \<noteq> cid \<Longrightarrow> hp_blobs h' x = hp_blobs h x"
      "\<And>x. x < hp_next h \<Longrightarrow> bl_commitId (hp_blobs h x) = cid \<Longrightarrow> bl_commitId (hp_blobs h' x) = cid"
    and c: "\<And>x. x < hp_next h \<Longrightarrow> cl_commitId (hp_clusters h x) \<noteq> cid \<Longrightarrow> hp_clusters h' x = hp_clusters h x"
      "\<And>x. x < hp_next h \<Longrightarrow> cl_commitId (hp_clusters h x) = cid \<Longrightarrow> cl_commitId (hp_clusters h' x) = cid"
      "\<And>x p. x < hp_next h \<Longrightarrow> cl_commitId (hp_clusters h x) = cid \<Longrightarrow> p \<in> blob_ptrs h' x
          \<Longrightarrow> p \<in> blob_ptrs h x \<or> ok_blob f c0 h' p"
    and s: "\<And>x. x < hp_next h \<Longrightarrow> sg_commitId (hp_segments h x) \<noteq> cid \<Longrightarrow> hp_segments h' x = hp_segments h x"
      "\<And>x. x < hp_next h \<Longrightarrow> sg_commitId (hp_segments h x) = cid \<Longrightarrow> sg_commitId (hp_segments h' x) = cid"
      "\<And>x a. x < hp_next h \<Longrightarrow> sg_commitId (hp_segments h x) = cid \<Longrightarrow> a \<in> cluster_ptrs h' x
          \<Longrightarrow> a \<in> cluster_ptrs h x \<or> ok_cluster f c0 h' a"
    and n: "\<And>x. hp_next h \<le> x \<Longrightarrow> bl_commitId (hp_blobs h' x) \<in> {cid, bl_commitId (hp_blobs h x)}
        \<and> cl_commitId (hp_clusters h' x) \<in> {cid, cl_commitId (hp_clusters h x)}
        \<and> sg_commitId (hp_segments h' x) \<in> {cid, sg_commitId (hp_segments h x)}"
  shows "evolves f c0 cid h h'"
proof -
  have bv: "blob_at f h' x = blob_at f h x" if "x < hp_next h" "bl_commitId (hp_blobs h x) \<noteq> cid" for x
    using b(1) [OF that] by (rule blob_at_cong)
  have cv: "cluster_at f h' x = cluster_at f h x" if "x < hp_next h" "cl_commitId (hp_clusters h x) \<noteq> cid" for x
    using c(1) [OF that] bv heap_wf_cluster(2) [OF old(1)] isolatedD(5) [OF old(2) that(2)]
    by (intro cluster_at_cong) auto
  have sv: "segment_at f h' x = segment_at f h x" if "x < hp_next h" "sg_commitId (hp_segments h x) \<noteq> cid" for x
    using s(1) [OF that] cv heap_wf_segment(2) [OF old(1)] isolatedD(4) [OF old(2) that(2)]
    by (intro segment_at_cong) auto
  have bl: "bl_status (hp_blobs h' x) = LOADED" if "bl_commitId (hp_blobs h' x) = cid" for x
    using isolatedD(1) [OF iso that] by simp
  have bok: "ok_blob f c0 h' x" if "x < hp_next h" "ok_blob f c0 h x" for x
    using that b bl [of x] by (cases "bl_commitId (hp_blobs h x) = cid") (auto simp: ok_blob_def)
  have cok: "ok_cluster f c0 h' x" if "x < hp_next h" "ok_cluster f c0 h x" for x
  proof (cases "cl_commitId (hp_clusters h x) = cid")
    case True
    then have "cl_status (hp_clusters h x) = LOADED" "cl_status (hp_clusters h' x) = LOADED"
      using isolatedD(2) [OF old(2) True] isolatedD(2) [OF iso c(2) [OF that(1) True]] by auto
    then show ?thesis
      using that bok c(3) [OF that(1) True] heap_wf_cluster(2) [OF old(1), where a = x] by (simp add: ok_cluster_def) blast
  next
    case False
    then show ?thesis
      using that c(1) [OF that(1)] bok heap_wf_cluster(2) [OF old(1), where a = x]
      by (auto simp: ok_cluster_def blob_ptrs_def split: if_splits)
  qed
  have sok: "ok_segment f c0 h' x" if "x < hp_next h" "ok_segment f c0 h x" for x
  proof (cases "sg_commitId (hp_segments h x) = cid")
    case True
    then have "sg_status (hp_segments h x) = LOADED" "sg_status (hp_segments h' x) = LOADED"
      using isolatedD(3) [OF old(2) True] isolatedD(3) [OF iso s(2) [OF that(1) True]] by auto
    then show ?thesis
      using that cok s(3) [OF that(1) True] heap_wf_segment(2) [OF old(1), where s = x] by (simp add: ok_segment_def) blast
  next
    case False
    then show ?thesis
      using that s(1) [OF that(1)] cok heap_wf_segment(2) [OF old(1), where s = x]
      by (auto simp: ok_segment_def cluster_ptrs_def split: if_splits)
  qed
  have dt: "dated_step c0 cid h h'"
    unfolding dated_step_def
  proof
    fix x
    show "redated c0 cid (bl_commitId (hp_blobs h x)) (bl_commitId (hp_blobs h' x)) \<and>
       redated c0 cid (cl_commitId (hp_clusters h x)) (cl_commitId (hp_clusters h' x)) \<and>
       redated c0 cid (sg_commitId (hp_segments h x)) (sg_commitId (hp_segments h' x))"
    proof (cases "x < hp_next h")
      case True
      then show ?thesis using b [OF True] c(1,2) [OF True] s(1,2) [OF True] by (metis redated_def redated_refl)
    next
      case False
      then show ?thesis using n [of x] by (auto simp: redated_def)
    qed
  qed
  show ?thesis
    unfolding evolves_def
  proof (intro conjI allI impI)
    fix x assume x: "x < hp_next h"
    show "bl_commitId (hp_blobs h' x) = cid \<longleftrightarrow> bl_commitId (hp_blobs h x) = cid" using b [OF x] by fastforce
    show "cl_commitId (hp_clusters h' x) = cid \<longleftrightarrow> cl_commitId (hp_clusters h x) = cid" using c(1,2) [OF x] by fastforce
    show "sg_commitId (hp_segments h' x) = cid \<longleftrightarrow> sg_commitId (hp_segments h x) = cid" using s(1,2) [OF x] by fastforce
    show "bl_status (hp_blobs h' x) = LOADED" if "bl_status (hp_blobs h x) = LOADED"
      using that b [OF x] bl [of x] by (cases "bl_commitId (hp_blobs h x) = cid") auto
    show "cl_status (hp_clusters h' x) = LOADED" if "cl_status (hp_clusters h x) = LOADED"
      using that c(1,2) [OF x] isolatedD(2) [OF iso, of x] by (cases "cl_commitId (hp_clusters h x) = cid") auto
    show "sg_status (hp_segments h' x) = LOADED" if "sg_status (hp_segments h x) = LOADED"
      using that s(1,2) [OF x] isolatedD(3) [OF iso, of x] by (cases "sg_commitId (hp_segments h x) = cid") auto
  qed (use wf iso mono bv cv sv bok cok sok dt in auto)
qed

section \<open>Primitive changes\<close>

text \<open>The tables of objects of the commit: what may be put into them.\<close>

definition blob_table_ok :: "commit_id \<Rightarrow> Heap \<Rightarrow> addr \<Rightarrow> (blob_id, addr) flat_map \<Rightarrow> bool" where
  "blob_table_ok cid h a m = (fm_sorted m \<and> (\<forall>p \<in> snd ` set m. p < hp_next h) \<and>
     (\<forall>k p. map_of m k = Some p \<longrightarrow> bl_commitId (hp_blobs h p) = cid \<longrightarrow>
        map_of (cl_blobs (hp_clusters h a)) k = Some p
        \<or> (\<forall>x j. map_of (cl_blobs (hp_clusters h x)) j \<noteq> Some p) \<and> (\<forall>j. map_of m j = Some p \<longrightarrow> j = k)))"

definition cluster_table_ok :: "commit_id \<Rightarrow> Heap \<Rightarrow> addr \<Rightarrow> (cluster_id, addr) flat_map \<Rightarrow> bool" where
  "cluster_table_ok cid h s m = (fm_sorted m \<and> (\<forall>a \<in> snd ` set m. a < hp_next h) \<and>
     (\<forall>k a. map_of m k = Some a \<longrightarrow> cl_commitId (hp_clusters h a) = cid \<longrightarrow>
        map_of (sg_clusters (hp_segments h s)) k = Some a
        \<or> (\<forall>x j. map_of (sg_clusters (hp_segments h x)) j \<noteq> Some a) \<and> (\<forall>j. map_of m j = Some a \<longrightarrow> j = k)))"

lemma unique_after_update:
  assumes uniq: "\<And>x y k j p. M x k = Some p \<Longrightarrow> M y j = Some p \<Longrightarrow> new p \<Longrightarrow> x = y \<and> k = j"
    and tbl: "\<And>k p. m k = Some p \<Longrightarrow> new p \<Longrightarrow>
        M a k = Some p \<or> (\<forall>x j. M x j \<noteq> Some p) \<and> (\<forall>j. m j = Some p \<longrightarrow> j = k)"
    and "(if x = a then m else M x) k = Some p" "(if y = a then m else M y) j = Some p" "new p"
  shows "x = y \<and> k = j"
proof (cases "x = a")
  case True
  note xk = assms(3) [unfolded if_P [OF True]]
  show ?thesis
  proof (cases "y = a")
    case True
    then show ?thesis using \<open>x = a\<close> xk assms(4,5) tbl [of k p] tbl [of j p] uniq [of a k p a j] by auto
  next
    case False
    then show ?thesis using \<open>x = a\<close> xk assms(4,5) tbl [of k p] uniq [of a k p y j] by auto
  qed
next
  case False
  then show ?thesis
    using assms(3-5) tbl [of j p] uniq [of x k p y j] uniq [of x k p a j] by (cases "y = a") auto
qed

lemma heap_wfI:
  assumes "\<And>a. fm_sorted (cl_blobs (hp_clusters h a))" "\<And>a p. p \<in> blob_ptrs h a \<Longrightarrow> p < hp_next h"
    "\<And>a. cl_status (hp_clusters h a) \<noteq> LOADED \<Longrightarrow> cl_blobs (hp_clusters h a) = []"
    "\<And>s. fm_sorted (sg_clusters (hp_segments h s))" "\<And>s a. a \<in> cluster_ptrs h s \<Longrightarrow> a < hp_next h"
    "\<And>s. sg_status (hp_segments h s) \<noteq> LOADED \<Longrightarrow> sg_clusters (hp_segments h s) = []"
  shows "heap_wf h"
  using assms by (simp add: heap_wf_def)

lemma set_blob_evolves:
  assumes wf: "heap_wf h" and iso: "isolated cid h"
    and "bl_commitId (hp_blobs h p) = cid" "bl_commitId b = cid" "bl_status b = LOADED"
  shows "evolves f c0 cid h (set_blob p b h)"
proof (rule evolvesI)
  show "heap_wf (set_blob p b h)" using wf by (simp add: heap_wf_def blob_ptrs_def cluster_ptrs_def)
  show "isolated cid (set_blob p b h)"
    by (rule isolated_transfer [OF iso]) (use assms isolatedD(1-3) [OF iso] in \<open>auto simp: blob_ptrs_def\<close>)
qed (use assms in \<open>auto simp: blob_ptrs_def cluster_ptrs_def\<close>)

lemma set_cluster_evolves:
  assumes wf: "heap_wf h" and iso: "isolated cid h"
    and a: "cl_commitId (hp_clusters h a) = cid" and c: "cl_commitId c = cid" "cl_status c = LOADED"
    and tbl: "blob_table_ok cid h a (cl_blobs c)"
    and ok: "\<And>p. p \<in> snd ` set (cl_blobs c) \<Longrightarrow> p \<in> blob_ptrs h a \<or> ok_blob f c0 h p"
  shows "evolves f c0 cid h (set_cluster a c h)"
proof (rule evolvesI)
  let ?h = "set_cluster a c h"
  have ptrs: "blob_ptrs ?h x = (if x = a then snd ` set (cl_blobs c) else blob_ptrs h x)" for x
    by (simp add: blob_ptrs_def)
  have seg: "cluster_ptrs ?h x = cluster_ptrs h x" for x by (simp add: cluster_ptrs_def)
  have okb: "ok_blob f c0 ?h x = ok_blob f c0 h x" for x by (simp add: ok_blob_def)
  show "heap_wf ?h"
    by (rule heap_wfI) (use heap_wf_cluster [OF wf] heap_wf_segment [OF wf] tbl c in
        \<open>auto simp: ptrs seg blob_table_ok_def split: if_splits\<close>)
  have commit: "cl_commitId (hp_clusters ?h x) = cid \<longleftrightarrow> cl_commitId (hp_clusters h x) = cid" for x
    using a c by simp
  show "isolated cid ?h"
    unfolding isolated_def commit seg
  proof (intro conjI allI impI ballI)
    fix x y k j p
    assume m: "map_of (cl_blobs (hp_clusters ?h x)) k = Some p" "map_of (cl_blobs (hp_clusters ?h y)) j = Some p"
      "bl_commitId (hp_blobs ?h p) = cid"
    have "x = y \<and> k = j"
      by (rule unique_after_update [where M = "\<lambda>x. map_of (cl_blobs (hp_clusters h x))" and p = p
            and new = "\<lambda>p. bl_commitId (hp_blobs h p) = cid" and a = a and m = "map_of (cl_blobs c)"])
        (use m tbl isolatedD(7) [OF iso] in \<open>auto simp: blob_table_ok_def split: if_splits\<close>)
    then show "x = y" "k = j" by auto
  qed (use isolatedD(1-5) [OF iso] isolatedD(6) [OF iso] a c in \<open>auto simp: ptrs split: if_splits\<close>)
  show "p \<in> blob_ptrs h x \<or> ok_blob f c0 ?h p" if "p \<in> blob_ptrs ?h x" for x p
    using that ok [of p] by (auto simp: ptrs okb split: if_splits)
qed (use assms in \<open>auto simp: cluster_ptrs_def\<close>)

lemma set_segment_evolves:
  assumes wf: "heap_wf h" and iso: "isolated cid h"
    and a: "sg_commitId (hp_segments h s) = cid" and g: "sg_commitId g = cid" "sg_status g = LOADED"
    and tbl: "cluster_table_ok cid h s (sg_clusters g)"
    and ok: "\<And>a. a \<in> snd ` set (sg_clusters g) \<Longrightarrow> a \<in> cluster_ptrs h s \<or> ok_cluster f c0 h a"
  shows "evolves f c0 cid h (set_segment s g h)"
proof (rule evolvesI)
  let ?h = "set_segment s g h"
  have ptrs: "cluster_ptrs ?h x = (if x = s then snd ` set (sg_clusters g) else cluster_ptrs h x)" for x
    by (simp add: cluster_ptrs_def)
  have seg: "blob_ptrs ?h x = blob_ptrs h x" for x by (simp add: blob_ptrs_def)
  have okc: "ok_cluster f c0 ?h x = ok_cluster f c0 h x" for x by (simp add: ok_cluster_def ok_blob_def seg)
  show "heap_wf ?h"
    by (rule heap_wfI) (use heap_wf_cluster [OF wf] heap_wf_segment [OF wf] tbl g in
        \<open>auto simp: ptrs seg cluster_table_ok_def split: if_splits\<close>)
  have commit: "sg_commitId (hp_segments ?h x) = cid \<longleftrightarrow> sg_commitId (hp_segments h x) = cid" for x
    using a g by simp
  show "isolated cid ?h"
    unfolding isolated_def commit seg
  proof (intro conjI allI impI ballI)
    fix x y k j p
    assume m: "map_of (sg_clusters (hp_segments ?h x)) k = Some p" "map_of (sg_clusters (hp_segments ?h y)) j = Some p"
      "cl_commitId (hp_clusters ?h p) = cid"
    have "x = y \<and> k = j"
      by (rule unique_after_update [where M = "\<lambda>x. map_of (sg_clusters (hp_segments h x))" and p = p
            and new = "\<lambda>p. cl_commitId (hp_clusters h p) = cid" and a = s and m = "map_of (sg_clusters g)"])
        (use m tbl isolatedD(6) [OF iso] in \<open>auto simp: cluster_table_ok_def split: if_splits\<close>)
    then show "x = y" "k = j" by auto
  qed (use isolatedD(1-5) [OF iso] isolatedD(7) [OF iso] a g in \<open>auto simp: ptrs split: if_splits\<close>)
  show "p \<in> cluster_ptrs h x \<or> ok_cluster f c0 ?h p" if "p \<in> cluster_ptrs ?h x" for x p
    using that ok [of p] by (auto simp: ptrs okc split: if_splits)
qed (use assms in \<open>auto simp: blob_ptrs_def\<close>)

lemma table_ptrs_below:
  assumes "heap_wf h"
  shows "map_of (cl_blobs (hp_clusters h a)) k = Some p \<Longrightarrow> p < hp_next h"
    "map_of (sg_clusters (hp_segments h s)) k = Some x \<Longrightarrow> x < hp_next h"
  using heap_wf_cluster(2) [OF assms, of p a] heap_wf_segment(2) [OF assms, of x s]
  by (auto simp: blob_ptrs_def cluster_ptrs_def dest: map_of_ptr)

lemma new_blob_evolves:
  assumes wf: "heap_wf h" and iso: "isolated cid h"
    and b: "bl_commitId b = cid" "bl_status b = LOADED"
    and new: "new_blob b h = (p, h')"
  shows "evolves f c0 cid h h'"
proof (rule evolvesI)
  have h': "h' = (set_blob p b h)\<lparr>hp_next := Suc (hp_next h)\<rparr>" "p = hp_next h"
    using new by (auto simp: new_blob_def)
  have ptrs: "blob_ptrs h' x = blob_ptrs h x" "cluster_ptrs h' x = cluster_ptrs h x" for x
    by (simp_all add: h' blob_ptrs_def cluster_ptrs_def)
  show "heap_wf h'"
    by (rule heap_wfI, unfold ptrs) (use heap_wf_cluster [OF wf] heap_wf_segment [OF wf] in
        \<open>auto simp: h' intro: less_SucI\<close>)
  have fresh: "bl_commitId (hp_blobs h' x) = cid \<longleftrightarrow> x = p \<or> bl_commitId (hp_blobs h x) = cid" for x
    using b by (simp add: h')
  show "isolated cid h'"
    unfolding isolated_def ptrs fresh
  proof (intro conjI allI impI ballI)
    fix x y k j q
    assume m: "map_of (cl_blobs (hp_clusters h' x)) k = Some q" "map_of (cl_blobs (hp_clusters h' y)) j = Some q"
      "q = p \<or> bl_commitId (hp_blobs h q) = cid"
    have "map_of (cl_blobs (hp_clusters h x)) k = Some q" using m(1) by (simp add: h')
    with table_ptrs_below(1) [OF wf this] m isolatedD(7) [OF iso, of x k q y j]
    show "x = y" "k = j" by (auto simp: h')
  next
    fix x q assume "cl_commitId (hp_clusters h' x) \<noteq> cid" "q \<in> blob_ptrs h x"
    then show "\<not> (q = p \<or> bl_commitId (hp_blobs h q) = cid)"
      using heap_wf_cluster(2) [OF wf, of q x] isolatedD(5) [OF iso, of x q] by (auto simp: h')
  qed (use isolatedD(1-4) [OF iso] isolatedD(6) [OF iso] b in \<open>auto simp: h' intro: less_SucI\<close>)
qed (use assms in \<open>auto simp: new_blob_def blob_ptrs_def cluster_ptrs_def\<close>)

lemma new_cluster_evolves:
  assumes wf: "heap_wf h" and iso: "isolated cid h"
    and c: "cl_commitId c = cid" "cl_status c = LOADED" "fm_sorted (cl_blobs c)"
      "\<And>p. p \<in> snd ` set (cl_blobs c) \<Longrightarrow> p < hp_next h \<and> bl_commitId (hp_blobs h p) \<noteq> cid"
    and new: "new_cluster c h = (a, h')"
  shows "evolves f c0 cid h h'"
proof (rule evolvesI)
  have h': "h' = (set_cluster a c h)\<lparr>hp_next := Suc (hp_next h)\<rparr>" "a = hp_next h"
    using new by (auto simp: new_cluster_def)
  have ptrs: "blob_ptrs h' x = (if x = a then snd ` set (cl_blobs c) else blob_ptrs h x)"
    "cluster_ptrs h' x = cluster_ptrs h x" for x
    by (simp_all add: h' blob_ptrs_def cluster_ptrs_def)
  have below: "p < Suc (hp_next h)" if "(k, p) \<in> set (cl_blobs c)" for k p
    using c(4) [of p] that by (force intro: less_SucI)
  show "heap_wf h'"
    by (rule heap_wfI, unfold ptrs) (use heap_wf_cluster [OF wf] heap_wf_segment [OF wf] c(2,3) below in
        \<open>auto simp: h' intro: less_SucI split: if_splits\<close>)
  have fresh: "cl_commitId (hp_clusters h' x) = cid \<longleftrightarrow> x = a \<or> cl_commitId (hp_clusters h x) = cid" for x
    using c by (simp add: h')
  show "isolated cid h'"
    unfolding isolated_def ptrs fresh
  proof (intro conjI allI impI ballI)
    fix x y k j q
    assume m: "map_of (cl_blobs (hp_clusters h' x)) k = Some q" "map_of (cl_blobs (hp_clusters h' y)) j = Some q"
      "bl_commitId (hp_blobs h' q) = cid"
    have "x \<noteq> a" "y \<noteq> a" using m c(4) [of q] map_of_ptr [of "cl_blobs c" k q] map_of_ptr [of "cl_blobs c" j q] by (auto simp: h')
    then show "x = y" "k = j" using m isolatedD(7) [OF iso, of x k q y j] by (auto simp: h')
  next
    fix s s' k k' x
    assume m: "map_of (sg_clusters (hp_segments h' s)) k = Some x" "map_of (sg_clusters (hp_segments h' s')) k' = Some x"
      "x = a \<or> cl_commitId (hp_clusters h x) = cid"
    have "map_of (sg_clusters (hp_segments h s)) k = Some x" using m(1) by (simp add: h')
    with table_ptrs_below(2) [OF wf this] m isolatedD(6) [OF iso, of s k x s' k']
    show "s = s'" "k = k'" by (auto simp: h')
  next
    fix s x assume "sg_commitId (hp_segments h' s) \<noteq> cid" "x \<in> cluster_ptrs h s"
    then show "\<not> (x = a \<or> cl_commitId (hp_clusters h x) = cid)"
      using heap_wf_segment(2) [OF wf, of x s] isolatedD(4) [OF iso, of s x] by (auto simp: h')
  next
    fix x q assume "\<not> (x = a \<or> cl_commitId (hp_clusters h x) = cid)" "q \<in> (if x = a then snd ` set (cl_blobs c) else blob_ptrs h x)"
    then show "bl_commitId (hp_blobs h' q) \<noteq> cid" using isolatedD(5) [OF iso, of x q] by (simp add: h')
  qed (use isolatedD(1-3) [OF iso] c in \<open>auto simp: h' intro: less_SucI\<close>)
qed (use assms in \<open>auto simp: new_cluster_def blob_ptrs_def cluster_ptrs_def\<close>)

lemma new_segment_evolves:
  assumes wf: "heap_wf h" and iso: "isolated cid h"
    and g: "sg_commitId g = cid" "sg_status g = LOADED" "fm_sorted (sg_clusters g)"
      "\<And>p. p \<in> snd ` set (sg_clusters g) \<Longrightarrow> p < hp_next h \<and> cl_commitId (hp_clusters h p) \<noteq> cid"
    and new: "new_segment g h = (s, h')"
  shows "evolves f c0 cid h h'"
proof (rule evolvesI)
  have h': "h' = (set_segment s g h)\<lparr>hp_next := Suc (hp_next h)\<rparr>" "s = hp_next h"
    using new by (auto simp: new_segment_def)
  have ptrs: "cluster_ptrs h' x = (if x = s then snd ` set (sg_clusters g) else cluster_ptrs h x)"
    "blob_ptrs h' x = blob_ptrs h x" for x
    by (simp_all add: h' blob_ptrs_def cluster_ptrs_def)
  have below: "p < Suc (hp_next h)" if "(k, p) \<in> set (sg_clusters g)" for k p
    using g(4) [of p] that by (force intro: less_SucI)
  show "heap_wf h'"
    by (rule heap_wfI, unfold ptrs) (use heap_wf_cluster [OF wf] heap_wf_segment [OF wf] g(2,3) below in
        \<open>auto simp: h' intro: less_SucI split: if_splits\<close>)
  have fresh: "sg_commitId (hp_segments h' x) = cid \<longleftrightarrow> x = s \<or> sg_commitId (hp_segments h x) = cid" for x
    using g by (simp add: h')
  show "isolated cid h'"
    unfolding isolated_def ptrs fresh
  proof (intro conjI allI impI ballI)
    fix x y k j q
    assume m: "map_of (sg_clusters (hp_segments h' x)) k = Some q" "map_of (sg_clusters (hp_segments h' y)) j = Some q"
      "cl_commitId (hp_clusters h' q) = cid"
    have "x \<noteq> s" "y \<noteq> s" using m g(4) [of q] map_of_ptr [of "sg_clusters g" k q] map_of_ptr [of "sg_clusters g" j q] by (auto simp: h')
    then show "x = y" "k = j" using m isolatedD(6) [OF iso, of x k q y j] by (auto simp: h')
  next
    fix x q assume "\<not> (x = s \<or> sg_commitId (hp_segments h x) = cid)"
      "q \<in> (if x = s then snd ` set (sg_clusters g) else cluster_ptrs h x)"
    then show "cl_commitId (hp_clusters h' q) \<noteq> cid" using isolatedD(4) [OF iso, of x q] by (simp add: h')
  qed (use isolatedD(1-3) [OF iso] isolatedD(5) [OF iso] isolatedD(7) [OF iso] g in \<open>auto simp: h' intro: less_SucI\<close>)
qed (use assms in \<open>auto simp: new_segment_def blob_ptrs_def cluster_ptrs_def\<close>)

section \<open>Changes of a single object\<close>

definition put_blob :: "blob_id \<Rightarrow> blob_view option \<Rightarrow> cluster_view \<Rightarrow> cluster_view" where
  "put_blob k b c = ClusterView (cv_commit c) (cv_next c) ((cv_blobs c)(k := b))"

definition put_cluster :: "cluster_id \<Rightarrow> cluster_view option \<Rightarrow> segment_view \<Rightarrow> segment_view" where
  "put_cluster k c s = SegmentView (sv_commit s) (sv_next s) ((sv_clusters s)(k := c))"

definition put_segment :: "segment_id \<Rightarrow> segment_view option \<Rightarrow> snap_view \<Rightarrow> snap_view" where
  "put_segment k s v = SnapView (dv_commit v) (dv_next v) ((dv_segments v)(k := s))"

lemma put_blob_simps [simp]:
  "put_blob k b (put_blob k b' c) = put_blob k b c" "cv_commit (put_blob k b c) = cv_commit c"
  "cv_next (put_blob k b c) = cv_next c" "cv_blobs (put_blob k b c) = (cv_blobs c)(k := b)"
  by (simp_all add: put_blob_def)

lemma put_cluster_simps [simp]:
  "put_cluster k b (put_cluster k b' c) = put_cluster k b c" "sv_commit (put_cluster k b c) = sv_commit c"
  "sv_next (put_cluster k b c) = sv_next c" "sv_clusters (put_cluster k b c) = (sv_clusters c)(k := b)"
  by (simp_all add: put_cluster_def)

lemma put_segment_simps [simp]:
  "put_segment k b (put_segment k b' c) = put_segment k b c" "dv_commit (put_segment k b c) = dv_commit c"
  "dv_next (put_segment k b c) = dv_next c" "dv_segments (put_segment k b c) = (dv_segments c)(k := b)"
  by (simp_all add: put_segment_def)

lemma children_update:
  assumes "m k = Some a" "\<And>j. m j = Some a \<Longrightarrow> j = k" "\<And>j p. m j = Some p \<Longrightarrow> p \<noteq> a \<Longrightarrow> v' p = v p"
  shows "children m v' = (children m v)(k := v' a)"
proof
  fix j
  show "children m v' j = ((children m v)(k := v' a)) j"
    using assms(1) assms(2) [of j] assms(3) [of j] by (cases "m j") (auto simp: children_def)
qed

text \<open>\<open>cluster_change a\<close>: no cluster but \<open>a\<close> changes its content; \<open>segment_change s\<close> alike for segments.\<close>

definition cluster_change :: "byte list \<Rightarrow> commit_id \<Rightarrow> commit_id \<Rightarrow> addr \<Rightarrow> Heap \<Rightarrow> Heap \<Rightarrow> bool" where
  "cluster_change f c0 cid a h h' = (evolves f c0 cid h h' \<and> hp_segments h' = hp_segments h
     \<and> (\<forall>x < hp_next h. x \<noteq> a \<longrightarrow> cluster_at f h' x = cluster_at f h x))"

definition segment_change :: "byte list \<Rightarrow> commit_id \<Rightarrow> commit_id \<Rightarrow> addr \<Rightarrow> Heap \<Rightarrow> Heap \<Rightarrow> bool" where
  "segment_change f c0 cid s h h' = (evolves f c0 cid h h'
     \<and> (\<forall>x < hp_next h. x \<noteq> s \<longrightarrow> segment_at f h' x = segment_at f h x))"

lemma cluster_change_trans:
  assumes "cluster_change f c0 cid a h1 h2" "cluster_change f c0 cid a h2 h3"
  shows "cluster_change f c0 cid a h1 h3"
  using assms evolves_trans [of f c0 cid h1 h2 h3] evolves_inv [of f c0 cid h1 h2]
  by (auto simp: cluster_change_def)

lemma segment_change_trans:
  assumes "segment_change f c0 cid a h1 h2" "segment_change f c0 cid a h2 h3"
  shows "segment_change f c0 cid a h1 h3"
  using assms evolves_trans [of f c0 cid h1 h2 h3] evolves_inv [of f c0 cid h1 h2]
  by (auto simp: segment_change_def)

lemma cluster_at_new:
  assumes "isolated cid h" "cl_commitId (hp_clusters h a) = cid"
  shows "cluster_at f h a = Some (ClusterView cid (cl_nextFreeBlobId (hp_clusters h a))
     (children (map_of (cl_blobs (hp_clusters h a))) (blob_at f h)))"
  using isolatedD(2) [OF assms] assms(2) by (simp add: cluster_at_def Let_def)

lemma segment_at_new:
  assumes "isolated cid h" "sg_commitId (hp_segments h s) = cid"
  shows "segment_at f h s = Some (SegmentView cid (sg_nextFreeClusterId (hp_segments h s))
     (children (map_of (sg_clusters (hp_segments h s))) (cluster_at f h)))"
  using isolatedD(3) [OF assms] assms(2) by (simp add: segment_at_def Let_def)

lemma cluster_change_lift:
  assumes wf: "heap_wf h" and iso: "isolated cid h" and ch: "cluster_change f c0 cid a h h'"
    and s: "sg_commitId (hp_segments h s) = cid" "map_of (sg_clusters (hp_segments h s)) k = Some a"
    and a: "cl_commitId (hp_clusters h a) = cid" and S: "segment_at f h s = Some S"
  shows "segment_change f c0 cid s h h'" "segment_at f h' s = Some (put_cluster k (cluster_at f h' a) S)"
proof -
  have ev: "evolves f c0 cid h h'" and seg: "hp_segments h' = hp_segments h"
    and other: "\<And>x. x < hp_next h \<Longrightarrow> x \<noteq> a \<Longrightarrow> cluster_at f h' x = cluster_at f h x"
    using ch by (auto simp: cluster_change_def)
  have "segment_at f h' x = segment_at f h x" if "x \<noteq> s" for x
  proof (rule segment_at_cong)
    fix y assume y: "y \<in> cluster_ptrs h x"
    then obtain j where j: "(j, y) \<in> set (sg_clusters (hp_segments h x))" by (auto simp: cluster_ptrs_def)
    then have "map_of (sg_clusters (hp_segments h x)) j = Some y"
      using heap_wf_segment(1) [OF wf, of x] by (simp add: fm_sorted_distinct)
    then have "y \<noteq> a" using isolatedD(6) [OF iso s(2) _ a, of x j] that by auto
    then show "cluster_at f h' y = cluster_at f h y" using other heap_wf_segment(2) [OF wf y] by blast
  qed (simp add: seg)
  then show "segment_change f c0 cid s h h'" using ev by (simp add: segment_change_def)
  have "children (map_of (sg_clusters (hp_segments h s))) (cluster_at f h')
      = (children (map_of (sg_clusters (hp_segments h s))) (cluster_at f h))(k := cluster_at f h' a)"
  proof (rule children_update [where m = "map_of (sg_clusters (hp_segments h s))"])
    show "map_of (sg_clusters (hp_segments h s)) k = Some a" by (rule s(2))
    show "j = k" if "map_of (sg_clusters (hp_segments h s)) j = Some a" for j
      using isolatedD(6) [OF iso s(2) that a] by simp
    show "cluster_at f h' p = cluster_at f h p"
      if "map_of (sg_clusters (hp_segments h s)) j = Some p" "p \<noteq> a" for j p
      using other table_ptrs_below(2) [OF wf that(1)] that(2) by blast
  qed
  moreover have "S = SegmentView cid (sg_nextFreeClusterId (hp_segments h s))
      (children (map_of (sg_clusters (hp_segments h s))) (cluster_at f h))"
    using S segment_at_new [OF iso s(1), of f] by simp
  moreover have "isolated cid h'" "sg_commitId (hp_segments h' s) = cid" using evolves_inv [OF ev] s(1) seg by auto
  then have "segment_at f h' s = Some (SegmentView cid (sg_nextFreeClusterId (hp_segments h s))
      (children (map_of (sg_clusters (hp_segments h s))) (cluster_at f h')))"
    using segment_at_new [of cid h' s f] by (simp add: seg)
  ultimately show "segment_at f h' s = Some (put_cluster k (cluster_at f h' a) S)"
    by (simp add: put_cluster_def)
qed

section \<open>Cluster operations\<close>

lemma set_cluster_change:
  assumes wf: "heap_wf h" and iso: "isolated cid h" and ev: "evolves f c0 cid h (set_cluster a c h)"
  shows "cluster_change f c0 cid a h (set_cluster a c h)"
proof -
  have "cluster_at f (set_cluster a c h) x = cluster_at f h x" if "x \<noteq> a" for x
    using that by (intro cluster_at_cong) (auto simp: blob_at_def)
  then show ?thesis using ev by (simp add: cluster_change_def)
qed

lemma new_blob_change:
  assumes wf: "heap_wf h" and iso: "isolated cid h"
    and b: "bl_commitId b = cid" "bl_status b = LOADED" and new: "new_blob b h = (p, h')"
  shows "cluster_change f c0 cid a h h'" "cluster_at f h' x = cluster_at f h x"
proof -
  have h': "h' = (set_blob p b h)\<lparr>hp_next := Suc (hp_next h)\<rparr>" "p = hp_next h"
    using new by (auto simp: new_blob_def)
  have v: "cluster_at f h' x = cluster_at f h x" for x
    using heap_wf_cluster(2) [OF wf, where a = x] by (intro cluster_at_cong) (auto simp: h' blob_at_def)
  then show "cluster_at f h' x = cluster_at f h x" .
  show "cluster_change f c0 cid a h h'"
    using v new_blob_evolves [OF wf iso b new] by (simp add: cluster_change_def h')
qed

lemma Cluster_replaceBlob_spec:
  assumes wf: "heap_wf h" and iso: "isolated cid h" and a: "cl_commitId (hp_clusters h a) = cid"
    and C: "cluster_at f h a = Some C" and op: "Cluster_replaceBlob a k h d = Some (p, h', d')"
  shows "cluster_change f c0 cid a h h'" "cluster_at f h' a = Some (put_blob k (Some (BlobView cid [])) C)"
    "map_of (cl_blobs (hp_clusters h' a)) k = Some p" "bl_commitId (hp_blobs h' p) = cid"
    "cl_commitId (hp_clusters h' a) = cid" "cl_nextFreeBlobId (hp_clusters h' a) = cl_nextFreeBlobId (hp_clusters h a)"
proof -
  let ?c = "hp_clusters h a" and ?b = "Blob_new k cid"
  obtain h1 where nb: "new_blob ?b h = (p, h1)" and h': "h' = set_cluster a (?c\<lparr>cl_blobs := fm_assign (cl_blobs ?c) k p\<rparr>) h1"
    using op a by (auto simp: Cluster_replaceBlob_def Let_def split: prod.splits bind_splits)
  have h1: "h1 = (set_blob p ?b h)\<lparr>hp_next := Suc (hp_next h)\<rparr>" "p = hp_next h"
    using nb by (auto simp: new_blob_def)
  have b: "bl_commitId ?b = cid" "bl_status ?b = LOADED" by (simp_all add: Blob_new_def)
  note nbc = new_blob_change(1) [OF wf iso b nb, where a = a and f = f and ?c0.0 = c0]
  have wf1: "heap_wf h1" and iso1: "isolated cid h1"
    using evolves_inv [OF new_blob_evolves [OF wf iso b nb]] by auto
  have sorted: "fm_sorted (cl_blobs ?c)" using heap_wf_cluster(1) [OF wf] .
  have tbl: "map_of (fm_assign (cl_blobs ?c) k p) = (map_of (cl_blobs ?c))(k \<mapsto> p)"
    using map_of_assign [OF sorted] .
  have ptrs: "q = p \<or> q \<in> blob_ptrs h a" if "q \<in> snd ` set (fm_assign (cl_blobs ?c) k p)" for q
  proof -
    from that obtain j where "(j, q) \<in> set (fm_assign (cl_blobs ?c) k p)" by auto
    then have "map_of (fm_assign (cl_blobs ?c) k p) j = Some q"
      using fm_sorted_distinct [OF fm_sorted_assign [OF sorted]] by simp
    then show ?thesis unfolding tbl by (auto simp: blob_ptrs_def dest: map_of_ptr split: if_splits)
  qed
  have unref: "map_of (cl_blobs (hp_clusters h x)) j \<noteq> Some p" for x j
    using table_ptrs_below(1) [OF wf, of x j p] h1(2) by auto
  have "blob_table_ok cid h1 a (fm_assign (cl_blobs ?c) k p)"
    unfolding blob_table_ok_def tbl
  proof (intro conjI allI impI ballI)
    fix q assume "q \<in> snd ` set (fm_assign (cl_blobs ?c) k p)"
    then show "q < hp_next h1" using ptrs [of q] heap_wf_cluster(2) [OF wf, of q a] by (auto simp: h1)
  qed (use fm_sorted_assign [OF sorted] unref in \<open>auto simp: h1 split: if_splits\<close>)
  then have ev: "evolves f c0 cid h1 h'"
    unfolding h' using wf1 iso1 a b ptrs isolatedD(2) [OF iso a]
    by (intro set_cluster_evolves) (auto simp: h1 blob_ptrs_def ok_blob_def)
  then show ch: "cluster_change f c0 cid a h h'"
    using cluster_change_trans [OF nbc set_cluster_change [OF wf1 iso1]] unfolding h' by blast
  show "map_of (cl_blobs (hp_clusters h' a)) k = Some p" "bl_commitId (hp_blobs h' p) = cid"
    "cl_commitId (hp_clusters h' a) = cid" "cl_nextFreeBlobId (hp_clusters h' a) = cl_nextFreeBlobId (hp_clusters h a)"
    using a b by (simp_all add: h' h1(1) tbl)
  have bv: "blob_at f h' q = blob_at f h q" if "q < hp_next h" for q
    using that by (intro blob_at_cong) (simp add: h' h1)
  have "children (map_of (cl_blobs ?c)) (blob_at f h') = children (map_of (cl_blobs ?c)) (blob_at f h)"
    using bv heap_wf_cluster(2) [OF wf, where a = a] by (intro children_cong) (auto simp: blob_ptrs_def)
  moreover have "blob_at f h' p = Some (BlobView cid [])" by (simp add: h' h1(1) blob_at_def Blob_new_def)
  ultimately have "children ((map_of (cl_blobs ?c))(k \<mapsto> p)) (blob_at f h')
      = (children (map_of (cl_blobs ?c)) (blob_at f h))(k \<mapsto> BlobView cid [])"
    by (auto simp: children_def fun_eq_iff)
  moreover have "C = ClusterView cid (cl_nextFreeBlobId ?c) (children (map_of (cl_blobs ?c)) (blob_at f h))"
    using C cluster_at_new [OF iso a, of f] by simp
  moreover have "isolated cid h'" "cl_commitId (hp_clusters h' a) = cid" using evolves_inv [OF ev] a by (auto simp: h')
  then have "cluster_at f h' a = Some (ClusterView cid (cl_nextFreeBlobId ?c)
      (children ((map_of (cl_blobs ?c))(k \<mapsto> p)) (blob_at f h')))"
    using cluster_at_new [of cid h' a f] by (simp add: tbl h')
  ultimately show "cluster_at f h' a = Some (put_blob k (Some (BlobView cid [])) C)"
    by (simp add: put_blob_def)
qed

lemma set_content_spec:
  assumes wf: "heap_wf h" and iso: "isolated cid h" and a: "cl_commitId (hp_clusters h a) = cid"
    and p: "map_of (cl_blobs (hp_clusters h a)) k = Some p" "bl_commitId (hp_blobs h p) = cid"
    and C: "cluster_at f h a = Some C"
    and h'_def: "h' = set_blob p (Blob_SetContent content (hp_blobs h p)) h"
  shows "cluster_change f c0 cid a h h'" "cluster_at f h' a = Some (put_blob k (Some (BlobView cid content)) C)"
proof -
  have loaded: "bl_status (hp_blobs h p) = LOADED" using isolatedD(1) [OF iso p(2)] by simp
  have ev: "evolves f c0 cid h h'"
    unfolding h'_def using wf iso p(2) loaded by (intro set_blob_evolves) (simp_all add: Blob_SetContent_def)
  have bv: "blob_at f h' q = (if q = p then Some (BlobView cid content) else blob_at f h q)" for q
    using loaded p(2) by (simp add: h'_def blob_at_def Blob_SetContent_def)
  have "cluster_at f h' x = cluster_at f h x" if "x \<noteq> a" for x
  proof (rule cluster_at_cong)
    fix q assume "q \<in> blob_ptrs h x"
    then obtain j where "(j, q) \<in> set (cl_blobs (hp_clusters h x))" by (auto simp: blob_ptrs_def)
    then have "map_of (cl_blobs (hp_clusters h x)) j = Some q"
      using heap_wf_cluster(1) [OF wf, of x] by (simp add: fm_sorted_distinct)
    then have "q \<noteq> p" using isolatedD(7) [OF iso p(1) _ p(2), of x j] that by auto
    then show "blob_at f h' q = blob_at f h q" by (simp add: bv)
  qed (simp add: h'_def)
  then show "cluster_change f c0 cid a h h'" using ev by (simp add: cluster_change_def h'_def)
  have "children (map_of (cl_blobs (hp_clusters h a))) (blob_at f h')
      = (children (map_of (cl_blobs (hp_clusters h a))) (blob_at f h))(k := blob_at f h' p)"
  proof (rule children_update [where m = "map_of (cl_blobs (hp_clusters h a))"])
    show "map_of (cl_blobs (hp_clusters h a)) k = Some p" by (rule p(1))
    show "j = k" if "map_of (cl_blobs (hp_clusters h a)) j = Some p" for j
      using isolatedD(7) [OF iso p(1) that p(2)] by simp
  qed (simp add: bv)
  moreover have "isolated cid h'" "cl_commitId (hp_clusters h' a) = cid"
    using evolves_inv [OF ev] a by (auto simp: h'_def)
  then have "cluster_at f h' a = Some (ClusterView cid (cl_nextFreeBlobId (hp_clusters h a))
      (children (map_of (cl_blobs (hp_clusters h a))) (blob_at f h')))"
    using cluster_at_new [of cid h' a f] by (simp add: h'_def)
  ultimately show "cluster_at f h' a = Some (put_blob k (Some (BlobView cid content)) C)"
    using C cluster_at_new [OF iso a, of f] by (auto simp: put_blob_def bv)
qed

lemma Cluster_UpdateBlob_spec:
  assumes wf: "heap_wf h" and iso: "isolated cid h" and a: "cl_commitId (hp_clusters h a) = cid"
    and C: "cluster_at f h a = Some C" and op: "Cluster_UpdateBlob a k h d = Some (p, h1, d')"
    and h'_def: "h' = set_blob p (Blob_SetContent content (hp_blobs h1 p)) h1"
  shows "cluster_change f c0 cid a h h'" "cluster_at f h' a = Some (put_blob k (Some (BlobView cid content)) C)"
proof -
  have lk: "fm_lookup (cl_blobs (hp_clusters h a)) = map_of (cl_blobs (hp_clusters h a))"
    using heap_wf_cluster(1) [OF wf] by (rule fm_lookup_map_of)
  consider (same) "h1 = h" "map_of (cl_blobs (hp_clusters h a)) k = Some p" "bl_commitId (hp_blobs h p) = cid"
    | (replaced) d1 where "Cluster_replaceBlob a k h d1 = Some (p, h1, d')"
    using op a by (auto simp: Cluster_UpdateBlob_def Let_def lk split: option.splits if_splits bind_splits)
  then have "cluster_change f c0 cid a h h' \<and> cluster_at f h' a = Some (put_blob k (Some (BlobView cid content)) C)"
  proof cases
    case same
    then show ?thesis
      using set_content_spec [OF wf iso a same(2,3) C h'_def [unfolded same(1)]] by simp
  next
    case replaced
    note r = Cluster_replaceBlob_spec [OF wf iso a C replaced]
    have inv: "heap_wf h1" "isolated cid h1"
      using r(1) [of c0] evolves_inv [of f c0 cid h h1] by (auto simp: cluster_change_def)
    have "cluster_change f c0 cid a h1 h'"
      "cluster_at f h' a = Some (put_blob k (Some (BlobView cid content)) (put_blob k (Some (BlobView cid [])) C))"
      by (rule set_content_spec [OF inv r(5) r(3) r(4) r(2) h'_def])+
    then show ?thesis using cluster_change_trans [OF r(1)] by simp
  qed
  then show "cluster_change f c0 cid a h h'" "cluster_at f h' a = Some (put_blob k (Some (BlobView cid content)) C)"
    by auto
qed

lemma blob_table_ok_subset:
  assumes "heap_wf h" "fm_sorted m" "\<And>k p. map_of m k = Some p \<Longrightarrow> map_of (cl_blobs (hp_clusters h a)) k = Some p"
  shows "blob_table_ok cid h a m"
  unfolding blob_table_ok_def
proof (intro conjI ballI allI impI)
  fix p assume "p \<in> snd ` set m"
  then obtain k where "map_of m k = Some p" using fm_sorted_distinct [OF assms(2)] by force
  then show "p < hp_next h" using assms(3) table_ptrs_below(1) [OF assms(1)] by blast
qed (use assms in auto)

lemma Cluster_DeleteBlob_spec:
  assumes wf: "heap_wf h" and iso: "isolated cid h" and a: "cl_commitId (hp_clusters h a) = cid"
    and C: "cluster_at f h a = Some C" and op: "Cluster_DeleteBlob a k h d = Some (h', d')"
  shows "cluster_change f c0 cid a h h'" "cluster_at f h' a = Some (put_blob k None C)"
proof -
  let ?c = "hp_clusters h a"
  have sorted: "fm_sorted (cl_blobs ?c)" using heap_wf_cluster(1) [OF wf] .
  have lk: "fm_lookup (cl_blobs ?c) = map_of (cl_blobs ?c)" using fm_lookup_map_of [OF sorted] .
  have tbl: "map_of (fm_delete (cl_blobs ?c) k) = (map_of (cl_blobs ?c))(k := None)"
    using sorted by (simp add: fm_delete_filter map_of_filter_key)
  have Ceq: "C = ClusterView cid (cl_nextFreeBlobId ?c) (children (map_of (cl_blobs ?c)) (blob_at f h))"
    using C cluster_at_new [OF iso a, of f] by simp
  consider (none) "h' = h" "map_of (cl_blobs ?c) k = None"
    | (del) "h' = set_cluster a (?c\<lparr>cl_blobs := fm_delete (cl_blobs ?c) k\<rparr>) h"
    using op by (auto simp: Cluster_DeleteBlob_def Let_def lk split: option.splits bind_splits)
  then have "cluster_change f c0 cid a h h' \<and> cluster_at f h' a = Some (put_blob k None C)"
  proof cases
    case none
    then show ?thesis
      using C Ceq evolves_refl [OF wf iso]
      by (auto simp: cluster_change_def put_blob_def children_def fun_eq_iff)
  next
    case del
    have "blob_table_ok cid h a (fm_delete (cl_blobs ?c) k)"
      using fm_sorted_delete [OF sorted] by (intro blob_table_ok_subset [OF wf]) (auto simp: tbl split: if_splits)
    moreover have "p \<in> blob_ptrs h a" if "p \<in> snd ` set (fm_delete (cl_blobs ?c) k)" for p
      using that sorted by (auto simp: fm_delete_filter blob_ptrs_def)
    ultimately have ev: "evolves f c0 cid h h'"
      unfolding del using wf iso a isolatedD(2) [OF iso a] by (intro set_cluster_evolves) auto
    have bv: "blob_at f h' = blob_at f h" by (simp add: del blob_at_def fun_eq_iff)
    have "isolated cid h'" "cl_commitId (hp_clusters h' a) = cid" using evolves_inv [OF ev] a by (auto simp: del)
    then have "cluster_at f h' a = Some (ClusterView cid (cl_nextFreeBlobId ?c)
        (children ((map_of (cl_blobs ?c))(k := None)) (blob_at f h)))"
      using cluster_at_new [of cid h' a f] bv by (simp add: del tbl)
    moreover have "cluster_change f c0 cid a h h'"
      using set_cluster_change [OF wf iso] ev unfolding del by blast
    ultimately show ?thesis by (auto simp: Ceq put_blob_def children_def fun_eq_iff)
  qed
  then show "cluster_change f c0 cid a h h'" "cluster_at f h' a = Some (put_blob k None C)" by auto
qed

lemma Cluster_SetNextFreeBlobId_spec:
  assumes wf: "heap_wf h" and iso: "isolated cid h" and a: "cl_commitId (hp_clusters h a) = cid"
    and C: "cluster_at f h a = Some C"
    and h'_def: "h' = set_cluster a (Cluster_SetNextFreeBlobId n (hp_clusters h a)) h"
  shows "cluster_change f c0 cid a h h'" "cluster_at f h' a = Some (ClusterView (cv_commit C) n (cv_blobs C))"
proof -
  let ?c = "hp_clusters h a"
  have ev: "evolves f c0 cid h h'"
    unfolding h'_def using wf iso a isolatedD(2) [OF iso a] heap_wf_cluster(1) [OF wf, of a]
    by (intro set_cluster_evolves blob_table_ok_subset) (auto simp: Cluster_SetNextFreeBlobId_def blob_ptrs_def)
  then show "cluster_change f c0 cid a h h'" using set_cluster_change [OF wf iso] unfolding h'_def by blast
  have "blob_at f h' = blob_at f h" by (simp add: h'_def blob_at_def fun_eq_iff)
  moreover have "isolated cid h'" "cl_commitId (hp_clusters h' a) = cid"
    using evolves_inv [OF ev] a by (auto simp: h'_def Cluster_SetNextFreeBlobId_def)
  then have "cluster_at f h' a = Some (ClusterView cid n (children (map_of (cl_blobs ?c)) (blob_at f h')))"
    using cluster_at_new [of cid h' a f] by (simp add: h'_def Cluster_SetNextFreeBlobId_def)
  ultimately show "cluster_at f h' a = Some (ClusterView (cv_commit C) n (cv_blobs C))"
    using C cluster_at_new [OF iso a, of f] by auto
qed

section \<open>Segment operations\<close>

lemma set_segment_change:
  assumes ev: "evolves f c0 cid h (set_segment s g h)"
  shows "segment_change f c0 cid s h (set_segment s g h)"
proof -
  have "cluster_at f (set_segment s g h) x = cluster_at f h x" for x
    by (intro cluster_at_cong) (auto simp: blob_at_def)
  then have "segment_at f (set_segment s g h) x = segment_at f h x" if "x \<noteq> s" for x
    using that by (intro segment_at_cong) auto
  then show ?thesis using ev by (simp add: segment_change_def)
qed

lemma new_cluster_change:
  assumes wf: "heap_wf h" and new: "new_cluster c h = (a, h')" and ev: "evolves f c0 cid h h'"
  shows "segment_change f c0 cid s h h'" "x < hp_next h \<Longrightarrow> cluster_at f h' x = cluster_at f h x"
    "segment_at f h' y = segment_at f h y"
proof -
  have h': "h' = (set_cluster a c h)\<lparr>hp_next := Suc (hp_next h)\<rparr>" "a = hp_next h"
    using new by (auto simp: new_cluster_def)
  have c: "cluster_at f h' x = cluster_at f h x" if "x < hp_next h" for x
    using that by (intro cluster_at_cong) (auto simp: h' blob_at_def)
  have v: "segment_at f h' y = segment_at f h y" for y
    using c heap_wf_segment(2) [OF wf, where s = y] by (intro segment_at_cong) (auto simp: h')
  show "x < hp_next h \<Longrightarrow> cluster_at f h' x = cluster_at f h x" "segment_at f h' y = segment_at f h y"
    by (rule c, assumption) (rule v)
  show "segment_change f c0 cid s h h'" using v ev by (simp add: segment_change_def)
qed

text \<open>Allocating a cluster and entering it into a segment of the commit.\<close>

lemma attach_cluster:
  assumes wf: "heap_wf h" and iso: "isolated cid h" and s: "sg_commitId (hp_segments h s) = cid"
    and S: "segment_at f h s = Some S"
    and c: "cl_commitId c = cid" "cl_status c = LOADED" "fm_sorted (cl_blobs c)"
      "\<And>p. p \<in> snd ` set (cl_blobs c) \<Longrightarrow> p < hp_next h \<and> bl_commitId (hp_blobs h p) \<noteq> cid \<and> ok_blob f c0 h p"
    and new: "new_cluster c h = (a, h1)"
    and h': "h' = set_segment s ((hp_segments h s)\<lparr>sg_clusters := fm_assign (sg_clusters (hp_segments h s)) k a\<rparr>) h1"
  shows "segment_change f c0 cid s h h'" "segment_at f h' s = Some (put_cluster k (cluster_at f h' a) S)"
    "cluster_at f h' a = Some (ClusterView cid (cl_nextFreeBlobId c) (children (map_of (cl_blobs c)) (blob_at f h)))"
    "map_of (sg_clusters (hp_segments h' s)) k = Some a" "hp_clusters h' a = c" "sg_commitId (hp_segments h' s) = cid"
proof -
  let ?g = "hp_segments h s" and ?m = "fm_assign (sg_clusters (hp_segments h s)) k a"
  have h1: "h1 = (set_cluster a c h)\<lparr>hp_next := Suc (hp_next h)\<rparr>" "a = hp_next h"
    using new by (auto simp: new_cluster_def)
  have ev1: "evolves f c0 cid h h1" using c by (intro new_cluster_evolves [OF wf iso _ _ _ _ new]) auto
  have wf1: "heap_wf h1" and iso1: "isolated cid h1" using evolves_inv [OF ev1] by auto
  have sorted: "fm_sorted (sg_clusters ?g)" using heap_wf_segment(1) [OF wf] .
  have tbl: "map_of ?m = (map_of (sg_clusters ?g))(k \<mapsto> a)" using map_of_assign [OF sorted] .
  have ptrs: "q = a \<or> q \<in> cluster_ptrs h s" if "q \<in> snd ` set ?m" for q
  proof -
    from that obtain j where "(j, q) \<in> set ?m" by auto
    then have "map_of ?m j = Some q" using fm_sorted_distinct [OF fm_sorted_assign [OF sorted]] by simp
    then show ?thesis unfolding tbl by (auto simp: cluster_ptrs_def dest: map_of_ptr split: if_splits)
  qed
  have unref: "map_of (sg_clusters (hp_segments h x)) j \<noteq> Some a" for x j
    using table_ptrs_below(2) [OF wf, of x j a] h1(2) by auto
  have "cluster_table_ok cid h1 s ?m"
    unfolding cluster_table_ok_def tbl
  proof (intro conjI allI impI ballI)
    fix q assume "q \<in> snd ` set ?m"
    then show "q < hp_next h1" using ptrs [of q] heap_wf_segment(2) [OF wf, of q s] by (auto simp: h1)
  qed (use fm_sorted_assign [OF sorted] unref in \<open>auto simp: h1 split: if_splits\<close>)
  moreover have "ok_cluster f c0 h1 a"
    using c(2,4) by (auto simp: ok_cluster_def blob_ptrs_def ok_blob_def h1)
  moreover from this have "q \<in> cluster_ptrs h1 s \<or> ok_cluster f c0 h1 q" if "q \<in> snd ` set ?m" for q
    using ptrs [OF that] by (auto simp: cluster_ptrs_def h1(1))
  ultimately have ev2: "evolves f c0 cid h1 h'"
    unfolding h' using wf1 iso1 s isolatedD(3) [OF iso s]
    by (intro set_segment_evolves) (simp_all add: h1(1))
  have sc2: "segment_change f c0 cid s h1 h'"
    using set_segment_change ev2 unfolding h' by blast
  show "segment_change f c0 cid s h h'"
    using segment_change_trans [OF new_cluster_change(1) [OF wf new ev1] sc2] .
  show "map_of (sg_clusters (hp_segments h' s)) k = Some a" "hp_clusters h' a = c" "sg_commitId (hp_segments h' s) = cid"
    using s by (simp_all add: h' h1(1) tbl)
  have bv: "blob_at f h' = blob_at f h" by (simp add: fun_eq_iff blob_at_def h' h1)
  have iso2: "isolated cid h'" using evolves_inv [OF ev2] by simp
  show "cluster_at f h' a = Some (ClusterView cid (cl_nextFreeBlobId c) (children (map_of (cl_blobs c)) (blob_at f h)))"
    using cluster_at_new [OF iso2, of a f] c(1) bv by (simp add: h' h1(1))
  have cv: "cluster_at f h' x = cluster_at f h x" if "x < hp_next h" for x
    using that by (intro cluster_at_cong) (auto simp: h' h1 blob_at_def)
  have "children (map_of (sg_clusters ?g)) (cluster_at f h') = children (map_of (sg_clusters ?g)) (cluster_at f h)"
    using cv heap_wf_segment(2) [OF wf, where s = s] by (intro children_cong) (auto simp: cluster_ptrs_def)
  then have "children ((map_of (sg_clusters ?g))(k \<mapsto> a)) (cluster_at f h')
      = (children (map_of (sg_clusters ?g)) (cluster_at f h))(k := cluster_at f h' a)"
    by (auto simp: children_def fun_eq_iff)
  then have "segment_at f h' s = Some (SegmentView cid (sg_nextFreeClusterId ?g)
      ((children (map_of (sg_clusters ?g)) (cluster_at f h))(k := cluster_at f h' a)))"
    using segment_at_new [OF iso2, of s f] s by (simp add: h' h1(1) tbl)
  then show "segment_at f h' s = Some (put_cluster k (cluster_at f h' a) S)"
    using S segment_at_new [OF iso s, of f] by (auto simp: put_cluster_def)
qed

lemma Segment_createCluster_spec:
  assumes wf: "heap_wf h" and iso: "isolated cid h" and s: "sg_commitId (hp_segments h s) = cid"
    and S: "segment_at f h s = Some S" and op: "Segment_createCluster s k h d = Some (a, h', d')"
  shows "segment_change f c0 cid s h h'"
    "segment_at f h' s = Some (put_cluster k (Some (touch_cluster cid None)) S)"
    "map_of (sg_clusters (hp_segments h' s)) k = Some a" "cl_commitId (hp_clusters h' a) = cid"
    "sg_commitId (hp_segments h' s) = cid"
proof -
  let ?c = "Cluster_new k cid"
  obtain h1 h2 h3 p d1 d2 where new: "new_cluster ?c h = (a, h1)"
    and h2: "h2 = set_segment s ((hp_segments h s)\<lparr>sg_clusters := fm_assign (sg_clusters (hp_segments h s)) k a\<rparr>) h1"
    and up: "Cluster_UpdateBlob a 0 h2 d = Some (p, h3, d1)"
    and h': "h' = set_cluster a (Cluster_SetNextFreeBlobId 1 (hp_clusters h3 a)) h3"
    using op s by (auto simp: Segment_createCluster_def Let_def split: prod.splits bind_splits)
  have c: "cl_commitId ?c = cid" "cl_status ?c = LOADED" "fm_sorted (cl_blobs ?c)" "cl_blobs ?c = []"
    "cl_nextFreeBlobId ?c = 0" by (simp_all add: Cluster_new_def)
  note at = attach_cluster [OF wf iso s S c(1-3) _ new h2, where ?c0.0 = c0, unfolded c(4,5), simplified]
  have wf2: "heap_wf h2" and iso2: "isolated cid h2"
    using at(1) evolves_inv [of f c0 cid h h2] by (auto simp: segment_change_def)
  have a2: "cl_commitId (hp_clusters h2 a) = cid" using at(5) c(1) by simp
  have "Cluster_replaceBlob a 0 h2 d = Some (p, h3, d1)"
    using up at(5) c(4) by (simp add: Cluster_UpdateBlob_def Let_def fm_lookup_map_of)
  note rb = Cluster_replaceBlob_spec [OF wf2 iso2 a2 at(3) this]
  have wf3: "heap_wf h3" and iso3: "isolated cid h3"
    using rb(1) [of c0] evolves_inv [of f c0 cid h2 h3] by (auto simp: cluster_change_def)
  note sn = Cluster_SetNextFreeBlobId_spec [OF wf3 iso3 rb(5) rb(2) h']
  have ch: "cluster_change f c0 cid a h2 h'" using cluster_change_trans [OF rb(1) sn(1)] .
  note lift = cluster_change_lift [OF wf2 iso2 ch at(6) at(4) a2 at(2)]
  show "segment_change f c0 cid s h h'" using segment_change_trans [OF at(1) lift(1)] .
  have "cluster_at f h' a = Some (touch_cluster cid None)"
    using sn(2) by (auto simp: children_def fun_eq_iff)
  then show "segment_at f h' s = Some (put_cluster k (Some (touch_cluster cid None)) S)" using lift(2) by simp
  have "hp_segments h' = hp_segments h2" using ch by (simp add: cluster_change_def)
  then show "map_of (sg_clusters (hp_segments h' s)) k = Some a" "sg_commitId (hp_segments h' s) = cid"
    using at(4,6) by simp_all
  show "cl_commitId (hp_clusters h' a) = cid" using rb(5) by (simp add: h' Cluster_SetNextFreeBlobId_def)
qed

lemma Segment_UpdateCluster_spec:
  assumes wf: "heap_wf h" and iso: "isolated cid h" and s: "sg_commitId (hp_segments h s) = cid"
    and S: "segment_at f h s = Some S" and ok: "ok_segment f c0 h s"
    and loaded: "\<And>a. map_of (sg_clusters (hp_segments h s)) k = Some a \<Longrightarrow> cl_status (hp_clusters h a) = LOADED"
    and op: "Segment_UpdateCluster s k h d = Some (a, h', d')"
  shows "segment_change f c0 cid s h h'"
    "segment_at f h' s = Some (put_cluster k (Some (touch_cluster cid (sv_clusters S k))) S)"
    "map_of (sg_clusters (hp_segments h' s)) k = Some a" "cl_commitId (hp_clusters h' a) = cid"
    "sg_commitId (hp_segments h' s) = cid"
proof -
  let ?g = "hp_segments h s"
  have lk: "fm_lookup (sg_clusters ?g) = map_of (sg_clusters ?g)"
    using heap_wf_segment(1) [OF wf] by (rule fm_lookup_map_of)
  have Seq: "S = SegmentView cid (sg_nextFreeClusterId ?g) (children (map_of (sg_clusters ?g)) (cluster_at f h))"
    using S segment_at_new [OF iso s, of f] by simp
  have "segment_change f c0 cid s h h' \<and>
    segment_at f h' s = Some (put_cluster k (Some (touch_cluster cid (sv_clusters S k))) S) \<and>
    map_of (sg_clusters (hp_segments h' s)) k = Some a \<and> cl_commitId (hp_clusters h' a) = cid \<and>
    sg_commitId (hp_segments h' s) = cid"
  proof (cases "map_of (sg_clusters ?g) k")
    case None
    then have "Segment_createCluster s k h d = Some (a, h', d')" using op lk by (simp add: Segment_UpdateCluster_def Let_def)
    note cr = Segment_createCluster_spec [OF wf iso s S this]
    have "sv_clusters S k = None" using None by (simp add: Seq children_def)
    with cr show ?thesis by simp
  next
    case (Some b)
    have Sk: "sv_clusters S k = cluster_at f h b" using Some by (simp add: Seq children_def)
    show ?thesis
    proof (cases "cl_commitId (hp_clusters h b) = cid")
      case True
      then have eq: "h' = h" "a = b" using op Some lk s by (auto simp: Segment_UpdateCluster_def Let_def)
      have "put_cluster k (Some (touch_cluster cid (sv_clusters S k))) S = S"
        using Some cluster_at_new [OF iso True, of f] Sk by (auto simp: Seq put_cluster_def children_def fun_eq_iff)
      then show ?thesis
        using eq True Some s S evolves_refl [OF wf iso] by (simp add: segment_change_def)
    next
      case False
      let ?c = "Cluster_copy (hp_clusters h b) cid"
      obtain h1 where new: "new_cluster ?c h = (a, h1)"
        and h': "h' = set_segment s (?g\<lparr>sg_clusters := fm_assign (sg_clusters ?g) k a\<rparr>) h1"
        using op Some lk s False by (auto simp: Segment_UpdateCluster_def Let_def split: prod.splits bind_splits)
      have b: "b \<in> cluster_ptrs h s" using Some by (auto simp: cluster_ptrs_def dest: map_of_ptr)
      have okb: "ok_cluster f c0 h b" using ok isolatedD(3) [OF iso s] b by (auto simp: ok_segment_def)
      have c: "cl_commitId ?c = cid" "cl_status ?c = LOADED" "cl_blobs ?c = cl_blobs (hp_clusters h b)"
        "cl_nextFreeBlobId ?c = cl_nextFreeBlobId (hp_clusters h b)" by (simp_all add: Cluster_copy_def)
      have ptrs: "p < hp_next h \<and> bl_commitId (hp_blobs h p) \<noteq> cid \<and> ok_blob f c0 h p"
        if "p \<in> snd ` set (cl_blobs ?c)" for p
        using that heap_wf_cluster(2) [OF wf, of p b] isolatedD(5) [OF iso False, of p] okb loaded [OF Some]
        by (auto simp: c(3) ok_cluster_def blob_ptrs_def)
      have sorted: "fm_sorted (cl_blobs ?c)" using heap_wf_cluster(1) [OF wf, of b] c(3) by simp
      note at = attach_cluster [OF wf iso s S c(1,2) sorted ptrs new h']
      have "cluster_at f h' a = Some (touch_cluster cid (cluster_at f h b))"
        using at(3) loaded [OF Some] c(3,4) by (simp add: cluster_at_def [of f h b] Let_def)
      with at c(1) Sk show ?thesis by simp
    qed
  qed
  then show "segment_change f c0 cid s h h'"
    "segment_at f h' s = Some (put_cluster k (Some (touch_cluster cid (sv_clusters S k))) S)"
    "map_of (sg_clusters (hp_segments h' s)) k = Some a" "cl_commitId (hp_clusters h' a) = cid"
    "sg_commitId (hp_segments h' s) = cid" by auto
qed

lemma cluster_at_same:
  assumes "hp_clusters h' = hp_clusters h" "hp_blobs h' = hp_blobs h"
  shows "cluster_at f h' = cluster_at f h"
  using assms by (intro ext cluster_at_cong) (simp_all add: blob_at_def)

lemma cluster_table_ok_subset:
  assumes "heap_wf h" "fm_sorted m" "\<And>k a. map_of m k = Some a \<Longrightarrow> map_of (sg_clusters (hp_segments h s)) k = Some a"
  shows "cluster_table_ok cid h s m"
  unfolding cluster_table_ok_def
proof (intro conjI ballI allI impI)
  fix a assume "a \<in> snd ` set m"
  then obtain k where "map_of m k = Some a" using fm_sorted_distinct [OF assms(2)] by force
  then show "a < hp_next h" using assms(3) table_ptrs_below(2) [OF assms(1)] by blast
qed (use assms in auto)

lemma Segment_DeleteCluster_spec:
  assumes wf: "heap_wf h" and iso: "isolated cid h" and s: "sg_commitId (hp_segments h s) = cid"
    and S: "segment_at f h s = Some S" and op: "Segment_DeleteCluster s k h d = Some (h', d')"
  shows "segment_change f c0 cid s h h'" "segment_at f h' s = Some (put_cluster k None S)"
proof -
  let ?g = "hp_segments h s"
  have sorted: "fm_sorted (sg_clusters ?g)" using heap_wf_segment(1) [OF wf] .
  have lk: "fm_lookup (sg_clusters ?g) = map_of (sg_clusters ?g)" using fm_lookup_map_of [OF sorted] .
  have tbl: "map_of (fm_delete (sg_clusters ?g) k) = (map_of (sg_clusters ?g))(k := None)"
    using sorted by (simp add: fm_delete_filter map_of_filter_key)
  have Seq: "S = SegmentView cid (sg_nextFreeClusterId ?g) (children (map_of (sg_clusters ?g)) (cluster_at f h))"
    using S segment_at_new [OF iso s, of f] by simp
  consider (none) "h' = h" "map_of (sg_clusters ?g) k = None"
    | (del) "h' = set_segment s (?g\<lparr>sg_clusters := fm_delete (sg_clusters ?g) k\<rparr>) h"
    using op by (auto simp: Segment_DeleteCluster_def Let_def lk split: option.splits bind_splits)
  then have "segment_change f c0 cid s h h' \<and> segment_at f h' s = Some (put_cluster k None S)"
  proof cases
    case none
    then show ?thesis
      using S Seq evolves_refl [OF wf iso]
      by (auto simp: segment_change_def put_cluster_def children_def fun_eq_iff)
  next
    case del
    have "cluster_table_ok cid h s (fm_delete (sg_clusters ?g) k)"
      using fm_sorted_delete [OF sorted] by (intro cluster_table_ok_subset [OF wf]) (auto simp: tbl split: if_splits)
    moreover have "p \<in> cluster_ptrs h s" if "p \<in> snd ` set (fm_delete (sg_clusters ?g) k)" for p
      using that sorted by (auto simp: fm_delete_filter cluster_ptrs_def)
    ultimately have ev: "evolves f c0 cid h h'"
      unfolding del using wf iso s isolatedD(3) [OF iso s] by (intro set_segment_evolves) auto
    have cv: "cluster_at f h' = cluster_at f h" by (rule cluster_at_same) (simp_all add: del)
    have "isolated cid h'" "sg_commitId (hp_segments h' s) = cid" using evolves_inv [OF ev] s by (auto simp: del)
    then have "segment_at f h' s = Some (SegmentView cid (sg_nextFreeClusterId ?g)
        (children ((map_of (sg_clusters ?g))(k := None)) (cluster_at f h)))"
      using segment_at_new [of cid h' s f] cv by (simp add: del tbl)
    moreover have "segment_change f c0 cid s h h'" using set_segment_change ev unfolding del by blast
    ultimately show ?thesis by (auto simp: Seq put_cluster_def children_def fun_eq_iff)
  qed
  then show "segment_change f c0 cid s h h'" "segment_at f h' s = Some (put_cluster k None S)" by auto
qed

lemma Segment_SetNextFreeClusterId_spec:
  assumes wf: "heap_wf h" and iso: "isolated cid h" and s: "sg_commitId (hp_segments h s) = cid"
    and S: "segment_at f h s = Some S"
    and h': "h' = set_segment s (Segment_SetNextFreeClusterId n (hp_segments h s)) h"
  shows "segment_change f c0 cid s h h'" "segment_at f h' s = Some (SegmentView (sv_commit S) n (sv_clusters S))"
    "sg_commitId (hp_segments h' s) = cid"
proof -
  let ?g = "hp_segments h s"
  have ev: "evolves f c0 cid h h'"
    unfolding h' using wf iso s isolatedD(3) [OF iso s] heap_wf_segment(1) [OF wf, of s]
    by (intro set_segment_evolves cluster_table_ok_subset) (auto simp: Segment_SetNextFreeClusterId_def cluster_ptrs_def)
  then show "segment_change f c0 cid s h h'" using set_segment_change unfolding h' by blast
  have "cluster_at f h' = cluster_at f h" by (rule cluster_at_same) (simp_all add: h')
  moreover have "isolated cid h'" and s': "sg_commitId (hp_segments h' s) = cid"
    using evolves_inv [OF ev] s by (auto simp: h' Segment_SetNextFreeClusterId_def)
  then have "segment_at f h' s = Some (SegmentView cid n (children (map_of (sg_clusters ?g)) (cluster_at f h')))"
    using segment_at_new [of cid h' s f] by (simp add: h' Segment_SetNextFreeClusterId_def)
  ultimately show "segment_at f h' s = Some (SegmentView (sv_commit S) n (sv_clusters S))"
    using S segment_at_new [OF iso s, of f] by auto
  show "sg_commitId (hp_segments h' s) = cid" by (rule s')
qed

section \<open>Snapshot operations\<close>

definition commit_inv :: "byte list \<Rightarrow> commit_id \<Rightarrow> Heap \<Rightarrow> Snapshot \<Rightarrow> bool" where
  "commit_inv f c0 h sn = (heap_wf h \<and> isolated (sn_commitId sn) h \<and> snap_wf h sn \<and> ok_snapshot f c0 h sn
     \<and> c0 < sn_commitId sn \<and> sn_commitId sn \<noteq> max_commit_id
     \<and> (\<forall>k k' s. map_of (sn_segments sn) k = Some s \<longrightarrow> map_of (sn_segments sn) k' = Some s
          \<longrightarrow> sg_commitId (hp_segments h s) = sn_commitId sn \<longrightarrow> k = k'))"

lemma commit_invD:
  assumes "commit_inv f c0 h sn"
  shows "heap_wf h" "isolated (sn_commitId sn) h" "snap_wf h sn" "ok_snapshot f c0 h sn"
    "c0 < sn_commitId sn" "sn_commitId sn \<noteq> max_commit_id" "fm_sorted (sn_segments sn)"
    "map_of (sn_segments sn) k = Some s \<Longrightarrow> map_of (sn_segments sn) k' = Some s
      \<Longrightarrow> sg_commitId (hp_segments h s) = sn_commitId sn \<Longrightarrow> k = k'"
  using assms by (auto simp: commit_inv_def snap_wf_def)

lemma commit_inv_evolves:
  assumes inv: "commit_inv f c0 h sn" and ev: "evolves f c0 (sn_commitId sn) h h'"
  shows "commit_inv f c0 h' sn"
proof -
  have below: "s < hp_next h" if "s \<in> segment_ptrs sn" for s
    using commit_invD(3) [OF inv] that by (simp add: snap_wf_def)
  have m: "s < hp_next h" if "map_of (sn_segments sn) k = Some s" for k s
    using snap_wf_segment [OF commit_invD(3) [OF inv] that] .
  show ?thesis
    unfolding commit_inv_def
  proof (intro conjI allI impI)
    show "snap_wf h' sn"
      using commit_invD(7) [OF inv] below evolves_inv [OF ev] by (fastforce simp: snap_wf_def)
    show "ok_snapshot f c0 h' sn"
      using commit_invD(4) [OF inv] below evolvesD(6) [OF ev] by (simp add: ok_snapshot_def)
    fix k k' s
    assume "map_of (sn_segments sn) k = Some s" "map_of (sn_segments sn) k' = Some s"
      "sg_commitId (hp_segments h' s) = sn_commitId sn"
    then show "k = k'" using commit_invD(8) [OF inv, of k s k'] evolvesD(3) [OF ev m] by blast
  qed (use evolves_inv [OF ev] commit_invD [OF inv] in auto)
qed

lemma segment_change_lift:
  assumes inv: "commit_inv f c0 h sn" and ch: "segment_change f c0 (sn_commitId sn) s h h'"
    and s: "map_of (sn_segments sn) k = Some s" "sg_commitId (hp_segments h s) = sn_commitId sn"
  shows "commit_inv f c0 h' sn" "snapshot_view f h' sn = put_segment k (segment_at f h' s) (snapshot_view f h sn)"
proof -
  show "commit_inv f c0 h' sn" using commit_inv_evolves [OF inv] ch by (simp add: segment_change_def)
  have "children (map_of (sn_segments sn)) (segment_at f h')
      = (children (map_of (sn_segments sn)) (segment_at f h))(k := segment_at f h' s)"
  proof (rule children_update [where m = "map_of (sn_segments sn)"])
    show "map_of (sn_segments sn) k = Some s" by (rule s(1))
    show "j = k" if "map_of (sn_segments sn) j = Some s" for j
      using commit_invD(8) [OF inv that s] .
    show "segment_at f h' p = segment_at f h p" if "map_of (sn_segments sn) j = Some p" "p \<noteq> s" for j p
      using ch snap_wf_segment [OF commit_invD(3) [OF inv] that(1)] that(2) by (simp add: segment_change_def)
  qed
  then show "snapshot_view f h' sn = put_segment k (segment_at f h' s) (snapshot_view f h sn)"
    by (simp add: snapshot_view_def put_segment_def)
qed

lemma attach_segment:
  assumes inv: "commit_inv f c0 h sn"
    and g: "sg_commitId g = sn_commitId sn" "sg_status g = LOADED" "fm_sorted (sg_clusters g)"
      "\<And>p. p \<in> snd ` set (sg_clusters g)
         \<Longrightarrow> p < hp_next h \<and> cl_commitId (hp_clusters h p) \<noteq> sn_commitId sn \<and> ok_cluster f c0 h p"
    and new: "new_segment g h = (s, h')"
    and sn': "sn' = sn\<lparr>sn_segments := fm_assign (sn_segments sn) k s\<rparr>"
  shows "commit_inv f c0 h' sn'" "evolves f c0 (sn_commitId sn) h h'"
    "snapshot_view f h' sn' = put_segment k (segment_at f h' s) (snapshot_view f h sn)"
    "segment_at f h' s = Some (SegmentView (sn_commitId sn) (sg_nextFreeClusterId g)
       (children (map_of (sg_clusters g)) (cluster_at f h)))"
    "map_of (sn_segments sn') k = Some s" "sg_commitId (hp_segments h' s) = sn_commitId sn" "hp_segments h' s = g"
proof -
  note wf = commit_invD(1) [OF inv] and iso = commit_invD(2) [OF inv] and sorted = commit_invD(7) [OF inv]
  have h': "h' = (set_segment s g h)\<lparr>hp_next := Suc (hp_next h)\<rparr>" "s = hp_next h"
    using new by (auto simp: new_segment_def)
  show ev: "evolves f c0 (sn_commitId sn) h h'"
    using g by (intro new_segment_evolves [OF wf iso _ _ _ _ new]) auto
  have tbl: "map_of (sn_segments sn') = (map_of (sn_segments sn))(k \<mapsto> s)"
    using map_of_assign [OF sorted] by (simp add: sn')
  have sorted': "fm_sorted (sn_segments sn')" using fm_sorted_assign [OF sorted] by (simp add: sn')
  have ptrs: "q = s \<or> q \<in> segment_ptrs sn" if "q \<in> segment_ptrs sn'" for q
  proof -
    from that obtain j where "(j, q) \<in> set (sn_segments sn')" by (auto simp: segment_ptrs_def)
    then have "map_of (sn_segments sn') j = Some q" using fm_sorted_distinct [OF sorted'] by simp
    then show ?thesis unfolding tbl by (auto simp: segment_ptrs_def dest: map_of_ptr split: if_splits)
  qed
  have below: "q < hp_next h" if "q \<in> segment_ptrs sn" for q
    using commit_invD(3) [OF inv] that by (simp add: snap_wf_def)
  have mbelow: "q < hp_next h" if "map_of (sn_segments sn) j = Some q" for j q
    using snap_wf_segment [OF commit_invD(3) [OF inv] that] .
  have okc: "ok_cluster f c0 h' p" if "p \<in> snd ` set (sg_clusters g)" for p
    using g(4) [OF that] evolvesD(5) [OF ev] by blast
  have cid: "sn_commitId sn' = sn_commitId sn" by (simp add: sn')
  show "commit_inv f c0 h' sn'"
    unfolding commit_inv_def cid
  proof (intro conjI allI impI)
    show "snap_wf h' sn'" using sorted' ptrs below by (fastforce simp: snap_wf_def h' intro: less_SucI)
    have "ok_segment f c0 h' s" using okc g(2) by (simp add: ok_segment_def h'(1) cluster_ptrs_def)
    then show "ok_snapshot f c0 h' sn'"
      using ptrs below commit_invD(4) [OF inv] evolvesD(6) [OF ev] unfolding ok_snapshot_def by blast
    fix i j q
    assume "map_of (sn_segments sn') i = Some q" "map_of (sn_segments sn') j = Some q"
      "sg_commitId (hp_segments h' q) = sn_commitId sn"
    then show "i = j"
      using mbelow [of i q] mbelow [of j q] commit_invD(8) [OF inv, of i q j] by (auto simp: tbl h' split: if_splits)
  qed (use evolves_inv [OF ev] commit_invD [OF inv] in auto)
  show "map_of (sn_segments sn') k = Some s" by (simp add: tbl)
  show s': "sg_commitId (hp_segments h' s) = sn_commitId sn" "hp_segments h' s = g" using g(1) by (simp_all add: h'(1))
  have cv: "cluster_at f h' = cluster_at f h" by (rule cluster_at_same) (simp_all add: h'(1))
  have sv: "segment_at f h' x = segment_at f h x" if "x < hp_next h" for x
    using that by (intro segment_at_cong) (auto simp: h' cv [unfolded h'])
  have "children (map_of (sn_segments sn)) (segment_at f h') = children (map_of (sn_segments sn)) (segment_at f h)"
    using sv below by (intro children_cong) (simp add: segment_ptrs_def)
  then show "snapshot_view f h' sn' = put_segment k (segment_at f h' s) (snapshot_view f h sn)"
    by (auto simp: snapshot_view_def put_segment_def tbl children_def fun_eq_iff) (simp_all add: sn')
  from cv show "segment_at f h' s = Some (SegmentView (sn_commitId sn) (sg_nextFreeClusterId g)
       (children (map_of (sg_clusters g)) (cluster_at f h)))"
    using segment_at_new [OF _ s'(1), of f] evolves_inv [OF ev] s'(2) by simp
qed

end
