(* ===== verification/Commit_Refinement.thy ===== *)
theory Commit_Refinement
  imports Storage_Update
begin

text \<open>
  Applying commit messages to a snapshot implements \<open>spec_update\<close>, keeps the content of every
  earlier snapshot and preserves the invariants. The segment and the cluster an entry refers to
  must have been loaded before, which is what \<open>path_loaded\<close> says.
\<close>

section \<open>Which tables an operation changes\<close>

lemma Cluster_UpdateBlob_segments:
  "Cluster_UpdateBlob a k h d = Some (p, h', d') \<Longrightarrow> hp_segments h' = hp_segments h"
  by (auto simp: Cluster_UpdateBlob_def Cluster_replaceBlob_def Let_def new_blob_def
      split: option.splits if_splits bind_splits)

lemma Segment_UpdateCluster_frame:
  assumes "heap_wf h" "Segment_UpdateCluster s k h d = Some (a, h', d')"
  shows "x \<noteq> s \<Longrightarrow> hp_segments h' x = hp_segments h x"
    "map_of (sg_clusters (hp_segments h' s)) = (map_of (sg_clusters (hp_segments h s)))(k \<mapsto> a)"
    "sg_commitId (hp_segments h' s) = sg_commitId (hp_segments h s)"
proof -
  let ?g = "hp_segments h s"
  have sorted: "fm_sorted (sg_clusters ?g)" using heap_wf_segment(1) [OF assms(1)] .
  have "hp_segments h' = (hp_segments h)(s := ?g\<lparr>sg_clusters := fm_assign (sg_clusters ?g) k a\<rparr>)
      \<or> h' = h \<and> map_of (sg_clusters ?g) k = Some a"
    using assms(2) fm_lookup_map_of [OF sorted]
    by (auto simp: Segment_UpdateCluster_def Segment_createCluster_def Let_def new_cluster_def
        split: option.splits if_splits bind_splits dest!: Cluster_UpdateBlob_segments)
  then show "x \<noteq> s \<Longrightarrow> hp_segments h' x = hp_segments h x"
    "map_of (sg_clusters (hp_segments h' s)) = (map_of (sg_clusters ?g))(k \<mapsto> a)"
    "sg_commitId (hp_segments h' s) = sg_commitId ?g"
    using map_of_assign [OF sorted, of k a] by (auto simp: fun_upd_idem)
qed

definition segment_loaded :: "Heap \<Rightarrow> Snapshot \<Rightarrow> segment_id \<Rightarrow> bool" where
  "segment_loaded h sn k = (\<forall>s. map_of (sn_segments sn) k = Some s \<longrightarrow> sg_status (hp_segments h s) = LOADED)"

definition cluster_loaded :: "Heap \<Rightarrow> Snapshot \<Rightarrow> segment_id \<Rightarrow> cluster_id \<Rightarrow> bool" where
  "cluster_loaded h sn k j = (\<forall>s a. map_of (sn_segments sn) k = Some s
     \<longrightarrow> map_of (sg_clusters (hp_segments h s)) j = Some a \<longrightarrow> cl_status (hp_clusters h a) = LOADED)"

definition keeps_loaded :: "Heap \<Rightarrow> Snapshot \<Rightarrow> Heap \<Rightarrow> Snapshot \<Rightarrow> bool" where
  "keeps_loaded h sn h' sn' = (\<forall>k. segment_loaded h sn k \<longrightarrow> segment_loaded h' sn' k
     \<and> (\<forall>j. cluster_loaded h sn k j \<longrightarrow> cluster_loaded h' sn' k j))"

lemma keeps_loaded_trans: "keeps_loaded h sn h1 sn1 \<Longrightarrow> keeps_loaded h1 sn1 h2 sn2 \<Longrightarrow> keeps_loaded h sn h2 sn2"
  by (simp add: keeps_loaded_def)

lemma keeps_loadedI:
  assumes inv: "commit_inv f c0 h sn" and inv': "commit_inv f c0 h' sn'" and cid: "sn_commitId sn' = sn_commitId sn"
    and ev: "evolves f c0 (sn_commitId sn) h h'"
    and tab: "\<And>k s'. map_of (sn_segments sn') k = Some s' \<Longrightarrow>
      sg_commitId (hp_segments h' s') = sn_commitId sn
        \<and> (\<forall>j a. map_of (sg_clusters (hp_segments h' s')) j = Some a \<longrightarrow> cl_commitId (hp_clusters h' a) = sn_commitId sn
             \<or> (\<exists>s. map_of (sn_segments sn) k = Some s \<and> map_of (sg_clusters (hp_segments h s)) j = Some a))
      \<or> map_of (sn_segments sn) k = Some s' \<and> (sg_status (hp_segments h s') = LOADED \<longrightarrow> hp_segments h' s' = hp_segments h s')"
  shows "keeps_loaded h sn h' sn'"
  unfolding keeps_loaded_def
proof (intro allI impI conjI)
  fix k assume k: "segment_loaded h sn k"
  note iso = commit_invD(2) [OF inv', unfolded cid] and wf = commit_invD(1) [OF inv]
  show "segment_loaded h' sn' k"
    unfolding segment_loaded_def
  proof (intro allI impI)
    fix s' assume s': "map_of (sn_segments sn') k = Some s'"
    show "sg_status (hp_segments h' s') = LOADED"
      using tab [OF s'] k isolatedD(3) [OF iso, of s'] by (auto simp: segment_loaded_def)
  qed
  fix j assume j: "cluster_loaded h sn k j"
  show "cluster_loaded h' sn' k j"
    unfolding cluster_loaded_def
  proof (intro allI impI)
    fix s' a assume s': "map_of (sn_segments sn') k = Some s'" and a: "map_of (sg_clusters (hp_segments h' s')) j = Some a"
    consider "cl_commitId (hp_clusters h' a) = sn_commitId sn"
      | s where "map_of (sn_segments sn) k = Some s" "map_of (sg_clusters (hp_segments h s)) j = Some a"
      using tab [OF s'] a k unfolding segment_loaded_def by metis
    then show "cl_status (hp_clusters h' a) = LOADED"
    proof cases
      case 1
      then show ?thesis using isolatedD(2) [OF iso] by simp
    next
      case 2
      then have "cl_status (hp_clusters h a) = LOADED" using j by (auto simp: cluster_loaded_def)
      then show ?thesis using evolvesD(7) [OF ev table_ptrs_below(2) [OF wf 2(2)]] by simp
    qed
  qed
qed

text \<open>An operation on the segment \<open>s\<close> of the commit that leaves the other segments alone.\<close>

lemma keeps_loaded_segment_op:
  assumes inv: "commit_inv f c0 h sn" and ev: "evolves f c0 (sn_commitId sn) h h'"
    and s: "map_of (sn_segments sn) k = Some s" "sg_commitId (hp_segments h s) = sn_commitId sn"
    and other: "\<And>x. x \<noteq> s \<Longrightarrow> hp_segments h' x = hp_segments h x"
    and tbl: "\<And>j a. map_of (sg_clusters (hp_segments h' s)) j = Some a
        \<Longrightarrow> cl_commitId (hp_clusters h' a) = sn_commitId sn \<or> map_of (sg_clusters (hp_segments h s)) j = Some a"
  shows "keeps_loaded h sn h' sn"
proof (rule keeps_loadedI [OF inv commit_inv_evolves [OF inv ev] refl ev])
  fix i s' assume s': "map_of (sn_segments sn) i = Some s'"
  have "sg_commitId (hp_segments h' s) = sn_commitId sn"
    using evolvesD(3) [OF ev snap_wf_segment [OF commit_invD(3) [OF inv] s(1)]] s(2) by simp
  then show "sg_commitId (hp_segments h' s') = sn_commitId sn
      \<and> (\<forall>j a. map_of (sg_clusters (hp_segments h' s')) j = Some a \<longrightarrow> cl_commitId (hp_clusters h' a) = sn_commitId sn
           \<or> (\<exists>s. map_of (sn_segments sn) i = Some s \<and> map_of (sg_clusters (hp_segments h s)) j = Some a))
    \<or> map_of (sn_segments sn) i = Some s' \<and> (sg_status (hp_segments h s') = LOADED \<longrightarrow> hp_segments h' s' = hp_segments h s')"
    using s' other [of s'] tbl by (cases "s' = s") auto
qed

lemma keeps_loaded_loads:
  assumes inv: "commit_inv f c0 h sn" and l: "loads f c0 h h'"
  shows "keeps_loaded h sn h' sn" "evolves f c0 (sn_commitId sn) h h'" "commit_inv f c0 h' sn"
    "snapshot_view f h' sn = snapshot_view f h sn"
proof -
  show ev: "evolves f c0 (sn_commitId sn) h h'" using loads_evolves [OF l] commit_invD [OF inv] by blast
  show inv': "commit_inv f c0 h' sn" using commit_inv_evolves [OF inv ev] .
  show "keeps_loaded h sn h' sn"
    using snap_wf_segment [OF commit_invD(3) [OF inv]] loads_frame(3) [OF l]
    by (intro keeps_loadedI [OF inv inv' refl ev]) blast
  show "snapshot_view f h' sn = snapshot_view f h sn"
    using loads_views(3) [OF l commit_invD(1) [OF inv]] commit_invD(3) [OF inv]
    by (intro snapshot_view_cong) (simp add: snap_wf_def)
qed

section \<open>Segments of a snapshot\<close>

lemma Snapshot_UpdateSegment_spec:
  assumes inv: "commit_inv f c0 h sn" and loaded: "segment_loaded h sn k"
    and op: "Snapshot_UpdateSegment k sn h d = Some (s, sn', h', d')"
  shows "commit_inv f c0 h' sn' \<and> evolves f c0 (sn_commitId sn) h h' \<and> sn_commitId sn' = sn_commitId sn
    \<and> map_of (sn_segments sn') k = Some s \<and> sg_commitId (hp_segments h' s) = sn_commitId sn
    \<and> snapshot_view f h' sn'
        = put_segment k (Some (touch_segment (sn_commitId sn) (dv_segments (snapshot_view f h sn) k))) (snapshot_view f h sn)
    \<and> keeps_loaded h sn h' sn'"
proof -
  let ?cid = "sn_commitId sn" and ?v = "snapshot_view f h sn"
  note wf = commit_invD(1) [OF inv] and iso = commit_invD(2) [OF inv] and sorted = commit_invD(7) [OF inv]
  have lk: "fm_lookup (sn_segments sn) = map_of (sn_segments sn)" using fm_lookup_map_of [OF sorted] .
  show ?thesis
  proof (cases "map_of (sn_segments sn) k")
    case None
    let ?g = "Segment_new k ?cid"
    obtain h1 h2 a d1 where new: "new_segment ?g h = (s, h1)"
      and sn': "sn' = sn\<lparr>sn_segments := fm_assign (sn_segments sn) k s\<rparr>"
      and up: "Segment_UpdateCluster s 0 h1 d = Some (a, h2, d1)"
      and h': "h' = set_segment s (Segment_SetNextFreeClusterId 1 (hp_segments h2 s)) h2"
      using op None lk
      by (auto simp: Snapshot_UpdateSegment_def Snapshot_createSegment_def Let_def split: prod.splits bind_splits)
    have g: "sg_commitId ?g = ?cid" "sg_status ?g = LOADED" "fm_sorted (sg_clusters ?g)" "sg_clusters ?g = []"
      "sg_nextFreeClusterId ?g = 0" by (simp_all add: Segment_new_def)
    note at = attach_segment [OF inv g(1-3) _ new sn', unfolded g(4,5), simplified]
    have cid: "sn_commitId sn' = ?cid" by (simp add: sn')
    note inv1 = at(1) and wf1 = commit_invD(1) [OF at(1)] and iso1 = commit_invD(2) [OF at(1), unfolded cid]
    have ok1: "ok_segment f c0 h1 s" using ok_snapshotD [OF commit_invD(4) [OF inv1] at(5)] .
    have lc: "cl_status (hp_clusters h1 b) = LOADED" if "map_of (sg_clusters (hp_segments h1 s)) 0 = Some b" for b
      using that at(7) g(4) by simp
    note uc = Segment_UpdateCluster_spec [OF wf1 iso1 at(6) at(4) ok1 lc up]
    have wf2: "heap_wf h2" and iso2: "isolated ?cid h2"
      using uc(1) evolves_inv [of f c0 ?cid h1 h2] by (auto simp: segment_change_def)
    note nf = Segment_SetNextFreeClusterId_spec [OF wf2 iso2 uc(5) uc(2) h']
    have ch: "segment_change f c0 ?cid s h1 h'" using segment_change_trans [OF uc(1) nf(1)] .
    note lift = segment_change_lift [OF inv1 ch [folded cid] at(5) at(6) [folded cid]]
    have ev1: "evolves f c0 ?cid h1 h'" using ch by (simp add: segment_change_def)
    have ev: "evolves f c0 ?cid h h'" using evolves_trans [OF at(2) ev1] .
    have "segment_at f h' s = Some (touch_segment ?cid None)"
      using nf(2) by (auto simp: children_def put_cluster_def fun_eq_iff)
    moreover have "dv_segments ?v k = None" using None by (simp add: snapshot_view_def children_def)
    ultimately have view: "snapshot_view f h' sn' = put_segment k (Some (touch_segment ?cid (dv_segments ?v k))) ?v"
      using lift(2) at(3) by simp
    have seg: "hp_segments h' x = hp_segments h x" if "x \<noteq> s" for x
      using Segment_UpdateCluster_frame(1) [OF wf1 up that] new that by (auto simp: h' new_segment_def)
    have stbl: "map_of (sg_clusters (hp_segments h' s)) = [0 \<mapsto> a]"
      using Segment_UpdateCluster_frame(2) [OF wf1 up] at(7) g(4) by (simp add: h' Segment_SetNextFreeClusterId_def)
    have ca: "cl_commitId (hp_clusters h' a) = ?cid" using uc(4) by (simp add: h')
    have tbl: "map_of (sn_segments sn') = (map_of (sn_segments sn))(k \<mapsto> s)"
      using map_of_assign [OF sorted] by (simp add: sn')
    have s_new: "s = hp_next h" using new by (simp add: new_segment_def)
    have "keeps_loaded h sn h' sn'"
    proof (rule keeps_loadedI [OF inv lift(1) cid ev])
      fix i s' assume i: "map_of (sn_segments sn') i = Some s'"
      show "sg_commitId (hp_segments h' s') = ?cid
          \<and> (\<forall>j a. map_of (sg_clusters (hp_segments h' s')) j = Some a \<longrightarrow> cl_commitId (hp_clusters h' a) = ?cid
               \<or> (\<exists>s. map_of (sn_segments sn) i = Some s \<and> map_of (sg_clusters (hp_segments h s)) j = Some a))
        \<or> map_of (sn_segments sn) i = Some s' \<and> (sg_status (hp_segments h s') = LOADED \<longrightarrow> hp_segments h' s' = hp_segments h s')"
        using i seg [of s'] snap_wf_segment [OF commit_invD(3) [OF inv], of i s'] nf(3) stbl ca s_new
        by (cases "s' = s") (auto simp: tbl split: if_splits)
    qed
    with lift(1) ev cid at(5) nf(3) view show ?thesis by simp
  next
    case (Some b)
    have Vk: "dv_segments ?v k = segment_at f h b" using Some by (simp add: snapshot_view_def children_def)
    show ?thesis
    proof (cases "sg_commitId (hp_segments h b) = ?cid")
      case True
      then have eq: "h' = h" "s = b" "sn' = sn" using op Some lk by (auto simp: Snapshot_UpdateSegment_def)
      have "put_segment k (Some (touch_segment ?cid (dv_segments ?v k))) ?v = ?v"
        using Some segment_at_new [OF iso True, of f] Vk
        by (auto simp: put_segment_def snapshot_view_def children_def fun_eq_iff)
      then show ?thesis
        using eq True Some inv evolves_refl [OF wf iso] by (simp add: keeps_loaded_def)
    next
      case False
      let ?g = "Segment_copy (hp_segments h b) ?cid"
      have new: "new_segment ?g h = (s, h')" and sn': "sn' = sn\<lparr>sn_segments := fm_assign (sn_segments sn) k s\<rparr>"
        using op Some lk False by (auto simp: Snapshot_UpdateSegment_def Let_def split: prod.splits bind_splits)
      have lb: "sg_status (hp_segments h b) = LOADED" using loaded Some by (simp add: segment_loaded_def)
      have g: "sg_commitId ?g = ?cid" "sg_status ?g = LOADED" "sg_clusters ?g = sg_clusters (hp_segments h b)"
        "sg_nextFreeClusterId ?g = sg_nextFreeClusterId (hp_segments h b)" by (simp_all add: Segment_copy_def)
      have ok: "ok_segment f c0 h b" using ok_snapshotD [OF commit_invD(4) [OF inv] Some] .
      have ptrs: "p < hp_next h \<and> cl_commitId (hp_clusters h p) \<noteq> ?cid \<and> ok_cluster f c0 h p"
        if "p \<in> snd ` set (sg_clusters ?g)" for p
        using that heap_wf_segment(2) [OF wf, of p b] isolatedD(4) [OF iso False, of p] ok lb
        by (auto simp: g(3) ok_segment_def cluster_ptrs_def)
      have gs: "fm_sorted (sg_clusters ?g)" using heap_wf_segment(1) [OF wf, of b] g(3) by simp
      note at = attach_segment [OF inv g(1,2) gs ptrs new sn']
      have cid: "sn_commitId sn' = ?cid" by (simp add: sn')
      have "segment_at f h' s = Some (touch_segment ?cid (segment_at f h b))"
        using at(4) lb g(3,4) by (simp add: segment_at_def [of f h b] Let_def)
      with at(3) Vk have view: "snapshot_view f h' sn' = put_segment k (Some (touch_segment ?cid (dv_segments ?v k))) ?v"
        by simp
      have tbl: "map_of (sn_segments sn') = (map_of (sn_segments sn))(k \<mapsto> s)"
        using map_of_assign [OF sorted] by (simp add: sn')
      have "keeps_loaded h sn h' sn'"
      proof (rule keeps_loadedI [OF inv at(1) cid at(2)])
        fix i s' assume i: "map_of (sn_segments sn') i = Some s'"
        show "sg_commitId (hp_segments h' s') = ?cid
            \<and> (\<forall>j a. map_of (sg_clusters (hp_segments h' s')) j = Some a \<longrightarrow> cl_commitId (hp_clusters h' a) = ?cid
                 \<or> (\<exists>s. map_of (sn_segments sn) i = Some s \<and> map_of (sg_clusters (hp_segments h s)) j = Some a))
          \<or> map_of (sn_segments sn) i = Some s' \<and> (sg_status (hp_segments h s') = LOADED \<longrightarrow> hp_segments h' s' = hp_segments h s')"
          using i at(7) g(1,3) Some new snap_wf_segment [OF commit_invD(3) [OF inv], of i s']
          by (cases "s' = s") (auto simp: tbl new_segment_def split: if_splits)
      qed
      with at(1,2,5,6) cid view show ?thesis by simp
    qed
  qed
qed

lemma Snapshot_DeleteSegment_spec:
  assumes inv: "commit_inv f c0 h sn" and op: "Snapshot_DeleteSegment k sn h d = Some (sn', d')"
  shows "commit_inv f c0 h sn'" "sn_commitId sn' = sn_commitId sn" "keeps_loaded h sn h sn'"
    "snapshot_view f h sn' = put_segment k None (snapshot_view f h sn)"
proof -
  note sorted = commit_invD(7) [OF inv]
  have tbl: "map_of (sn_segments sn') = (map_of (sn_segments sn))(k := None)"
    and st: "fm_sorted (sn_segments sn')" and cid: "sn_commitId sn' = sn_commitId sn"
    and nx: "sn_nextFreeSegmentId sn' = sn_nextFreeSegmentId sn"
    using op fm_lookup_map_of [OF sorted] fm_sorted_delete [OF sorted] sorted
    by (auto simp: Snapshot_DeleteSegment_def fm_delete_filter map_of_filter_key fun_upd_idem
        split: option.splits bind_splits)
  show "sn_commitId sn' = sn_commitId sn" by (rule cid)
  have ptrs: "segment_ptrs sn' \<subseteq> segment_ptrs sn"
  proof
    fix q assume "q \<in> segment_ptrs sn'"
    then obtain j where "(j, q) \<in> set (sn_segments sn')" by (auto simp: segment_ptrs_def)
    then have "map_of (sn_segments sn') j = Some q" using fm_sorted_distinct [OF st] by simp
    then show "q \<in> segment_ptrs sn" unfolding tbl by (auto simp: segment_ptrs_def dest: map_of_ptr split: if_splits)
  qed
  show inv': "commit_inv f c0 h sn'"
    unfolding commit_inv_def cid
    using commit_invD(1-6) [OF inv] commit_invD(8) [OF inv] st ptrs
    by (auto simp: snap_wf_def ok_snapshot_def tbl split: if_splits)
  show "keeps_loaded h sn h sn'"
    by (rule keeps_loadedI [OF inv inv' cid evolves_refl [OF commit_invD(1,2) [OF inv]]]) (auto simp: tbl split: if_splits)
  show "snapshot_view f h sn' = put_segment k None (snapshot_view f h sn)"
    by (auto simp: snapshot_view_def put_segment_def tbl cid nx children_def fun_eq_iff)
qed

section \<open>One entry of a commit message\<close>

definition commit_step :: "byte list \<Rightarrow> commit_id \<Rightarrow> (snap_view \<Rightarrow> snap_view) \<Rightarrow> CommitState \<Rightarrow> CommitState \<Rightarrow> bool" where
  "commit_step f c0 spec cs cs' = (
     commit_inv f c0 (cs_heap cs') (cs_snapshot cs')
     \<and> sn_commitId (cs_snapshot cs') = sn_commitId (cs_snapshot cs)
     \<and> evolves f c0 (sn_commitId (cs_snapshot cs)) (cs_heap cs) (cs_heap cs')
     \<and> keeps_loaded (cs_heap cs) (cs_snapshot cs) (cs_heap cs') (cs_snapshot cs')
     \<and> snapshot_view f (cs_heap cs') (cs_snapshot cs') = spec (snapshot_view f (cs_heap cs) (cs_snapshot cs)))"

lemma commit_step_trans:
  assumes "commit_step f c0 g1 cs1 cs2" "commit_step f c0 g2 cs2 cs3"
  shows "commit_step f c0 (g2 \<circ> g1) cs1 cs3"
  using assms evolves_trans keeps_loaded_trans unfolding commit_step_def by fastforce

lemma apply_segment_delete_step:
  assumes inv: "commit_inv f c0 (cs_heap cs) (cs_snapshot cs)"
    and op: "apply_segment_delete mv f u cs = Some cs'"
  shows "commit_step f c0 (put_segment (segment (bd_location u)) None) cs cs'"
proof -
  let ?k = "segment (bd_location u)" and ?sn = "cs_snapshot cs" and ?h = "cs_heap cs"
  note i = commit_invD [OF inv]
  obtain r h1 where h1: "Snapshot_GetLoadedSegment f ?sn ?k ?h = Some (r, h1)" "loads f c0 ?h h1"
    "\<And>s. r = Some s \<Longrightarrow> sg_status (hp_segments h1 s) = LOADED \<and> ok_segment f c0 h1 s"
    using Snapshot_GetLoadedSegment_read [OF i(1,3,4), of ?k] by blast
  have wf1: "heap_wf h1" using loads_wf [OF h1(2) i(1)] .
  obtain h2 where h2: "(case r of None \<Rightarrow> Some h1
      | Some s \<Rightarrow> if mv then Segment_LoadAllBlobs f s h1 else Segment_LoadAllClusters f s h1) = Some h2" "loads f c0 h1 h2"
    using h1(3) Segment_LoadAll_ok [OF wf1] by (cases r) (auto, metis+)
  have l: "loads f c0 ?h h2" using h1(2) h2(2) by (rule rtranclp_trans)
  note kl = keeps_loaded_loads [OF inv l]
  obtain sn' d' where del: "Snapshot_DeleteSegment ?k ?sn h2 (cs_delta cs) = Some (sn', d')"
    and cs': "cs_heap cs' = h2" "cs_snapshot cs' = sn'"
    using op h1(1) h2(1) by (auto simp: apply_segment_delete_def Let_def split: if_splits bind_splits)
  note ds = Snapshot_DeleteSegment_spec [OF kl(3) del]
  show ?thesis
    unfolding commit_step_def cs' using ds kl keeps_loaded_trans [OF kl(1) ds(3)] by simp
qed

lemma commit_step_segment_op:
  assumes inv: "commit_inv f c0 h sn"
    and s: "map_of (sn_segments sn) k = Some s" "sg_commitId (hp_segments h s) = sn_commitId sn"
    and S: "segment_at f h s = Some S" and ch: "segment_change f c0 (sn_commitId sn) s h h'"
    and S': "segment_at f h' s = Some S'" and keeps: "keeps_loaded h sn h' sn"
    and cs: "cs_heap cs = h" "cs_snapshot cs = sn" "cs_heap cs' = h'" "cs_snapshot cs' = sn"
  shows "commit_step f c0 (put_segment k (Some S')) cs cs'"
  using segment_change_lift [OF inv ch s] S' keeps ch by (simp add: commit_step_def cs segment_change_def)

lemma apply_cluster_delete_step:
  assumes inv: "commit_inv f c0 (cs_heap cs) (cs_snapshot cs)"
    and s: "map_of (sn_segments (cs_snapshot cs)) k = Some s"
      "sg_commitId (hp_segments (cs_heap cs) s) = sn_commitId (cs_snapshot cs)"
    and S: "segment_at f (cs_heap cs) s = Some S"
    and op: "apply_cluster_delete mv f u s cs = Some cs'"
  shows "commit_step f c0 (put_segment k (Some (put_cluster (cluster (bd_location u)) None S))) cs cs'"
proof -
  let ?j = "cluster (bd_location u)" and ?sn = "cs_snapshot cs" and ?h = "cs_heap cs"
  let ?cid = "sn_commitId ?sn"
  note i = commit_invD [OF inv]
  have loaded: "sg_status (hp_segments ?h s) = LOADED" using isolatedD(3) [OF i(2) s(2)] by simp
  have ok: "ok_segment f c0 ?h s" using ok_snapshotD [OF i(4) s(1)] .
  obtain r h1 where h1: "Segment_GetLoadedCluster f s ?j ?h = Some (r, h1)" "loads f c0 ?h h1"
    "\<And>a. r = Some a \<Longrightarrow> cl_status (hp_clusters h1 a) = LOADED \<and> ok_cluster f c0 h1 a"
    using Segment_GetLoadedCluster_read [OF i(1) loaded ok, of ?j] by blast
  have wf1: "heap_wf h1" using loads_wf [OF h1(2) i(1)] .
  obtain h2 where h2: "(case r of None \<Rightarrow> Some h1
      | Some a \<Rightarrow> if mv then Cluster_LoadAllBlobs f a h1 else Some h1) = Some h2" "loads f c0 h1 h2"
    using h1(3) Cluster_LoadAllBlobs_ok [OF wf1] by (cases r; cases mv) (auto, metis)
  have l: "loads f c0 ?h h2" using h1(2) h2(2) by (rule rtranclp_trans)
  note kl = keeps_loaded_loads [OF inv l] and i2 = commit_invD [OF keeps_loaded_loads(3) [OF inv l]]
  obtain h' d' where del: "Segment_DeleteCluster s ?j h2 (cs_delta cs) = Some (h', d')"
    and cs': "cs_heap cs' = h'" "cs_snapshot cs' = ?sn"
    using op h1(1) h2(1) by (auto simp: apply_cluster_delete_def Let_def split: bind_splits)
  have below: "s < hp_next ?h" using snap_wf_segment [OF i(3) s(1)] .
  have s2: "sg_commitId (hp_segments h2 s) = ?cid" using evolvesD(3) [OF kl(2) below] s(2) by simp
  have S2: "segment_at f h2 s = Some S" using loads_views(3) [OF l i(1) below] S by simp
  note sd = Segment_DeleteCluster_spec [OF i2(1,2) s2 S2 del]
  have seg: "hp_segments h' x = hp_segments h2 x" if "x \<noteq> s" for x
    using del that by (auto simp: Segment_DeleteCluster_def Let_def split: option.splits bind_splits)
  have tbl: "map_of (sg_clusters (hp_segments h' s)) j = Some a \<Longrightarrow> map_of (sg_clusters (hp_segments h2 s)) j = Some a" for j a
    using del heap_wf_segment(1) [OF i2(1), of s]
    by (auto simp: Segment_DeleteCluster_def Let_def fm_delete_filter map_of_filter_key split: option.splits bind_splits if_splits)
  have ev: "evolves f c0 ?cid h2 h'" using sd(1) [of c0] by (simp add: segment_change_def)
  have "keeps_loaded h2 ?sn h' ?sn"
    using seg tbl by (intro keeps_loaded_segment_op [OF kl(3) ev s(1) s2]) auto
  then have "commit_step f c0 (put_segment k (Some (put_cluster ?j None S))) (cs\<lparr>cs_heap := h2\<rparr>) cs'"
    using cs' by (intro commit_step_segment_op [OF kl(3) s(1) s2 S2 sd(1) sd(2)]) simp_all
  moreover have "commit_step f c0 id cs (cs\<lparr>cs_heap := h2\<rparr>)" using kl by (simp add: commit_step_def)
  ultimately show ?thesis using commit_step_trans by fastforce
qed

lemma commit_step_cluster_op:
  assumes inv: "commit_inv f c0 h sn"
    and s: "map_of (sn_segments sn) k = Some s" "sg_commitId (hp_segments h s) = sn_commitId sn"
    and S: "segment_at f h s = Some S"
    and a: "map_of (sg_clusters (hp_segments h s)) j = Some a" "cl_commitId (hp_clusters h a) = sn_commitId sn"
    and ch: "cluster_change f c0 (sn_commitId sn) a h h'" and C': "cluster_at f h' a = Some C'"
    and cs: "cs_heap cs = h" "cs_snapshot cs = sn" "cs_heap cs' = h'" "cs_snapshot cs' = sn"
  shows "commit_step f c0 (put_segment k (Some (put_cluster j (Some C') S))) cs cs'"
proof -
  note lift = cluster_change_lift [OF commit_invD(1,2) [OF inv] ch s(2) a(1) a(2) S]
  have "keeps_loaded h sn h' sn"
    using ch by (intro keeps_loaded_segment_op [OF inv _ s]) (auto simp: cluster_change_def)
  then show ?thesis
    using lift C' by (intro commit_step_segment_op [OF inv s S lift(1) _ _ cs]) auto
qed

lemma apply_blob_update_step:
  assumes inv: "commit_inv f c0 (cs_heap cs) (cs_snapshot cs)"
    and s: "map_of (sn_segments (cs_snapshot cs)) k = Some s"
      "sg_commitId (hp_segments (cs_heap cs) s) = sn_commitId (cs_snapshot cs)"
    and S: "segment_at f (cs_heap cs) s = Some S"
    and a: "map_of (sg_clusters (hp_segments (cs_heap cs) s)) j = Some a"
      "cl_commitId (hp_clusters (cs_heap cs) a) = sn_commitId (cs_snapshot cs)"
    and C: "cluster_at f (cs_heap cs) a = Some C"
    and op: "apply_blob_update mv f u a cs = Some cs'"
  shows "commit_step f c0 (put_segment k (Some (put_cluster j
           (Some (spec_cluster_update (sn_commitId (cs_snapshot cs)) u C)) S))) cs cs'"
proof -
  let ?b = "blob (bd_location u)" and ?sn = "cs_snapshot cs" and ?h = "cs_heap cs"
  let ?cid = "sn_commitId ?sn"
  note i = commit_invD [OF inv]
  show ?thesis
  proof (cases "?b = NextFreeBlobId")
    case True
    let ?h' = "set_cluster a (Cluster_SetNextFreeBlobId (ReadId u) (hp_clusters ?h a)) ?h"
    have cs': "cs' = cs\<lparr>cs_heap := ?h'\<rparr>" using op True by (simp add: apply_blob_update_def Let_def)
    note sp = Cluster_SetNextFreeBlobId_spec [OF i(1,2) a(2) C refl]
    show ?thesis
      using True sp(2) cs' by (intro commit_step_cluster_op [OF inv s S a sp(1)]) (auto simp: spec_cluster_update_def)
  next
    case False
    have la: "cl_status (hp_clusters ?h a) = LOADED" using isolatedD(2) [OF i(2) a(2)] by simp
    have oks: "ok_segment f c0 ?h s" using ok_snapshotD [OF i(4) s(1)] .
    have "a \<in> cluster_ptrs ?h s" using a(1) by (auto simp: cluster_ptrs_def dest: map_of_ptr)
    then have oka: "ok_cluster f c0 ?h a"
      using oks isolatedD(3) [OF i(2) s(2)] by (simp add: ok_segment_def)
    obtain h2 where h2: "load_for_mvcc mv f a ?b ?h = Some h2" "loads f c0 ?h h2"
      using Cluster_GetLoadedBlob_read [OF i(1) la oka False] by (cases mv) (auto simp: load_for_mvcc_def)
    note kl = keeps_loaded_loads [OF inv h2(2)] and i2 = commit_invD [OF keeps_loaded_loads(3) [OF inv h2(2)]]
    have below: "s < hp_next ?h" "a < hp_next ?h"
      using snap_wf_segment [OF i(3) s(1)] table_ptrs_below(2) [OF i(1) a(1)] by auto
    have seg2: "hp_segments h2 s = hp_segments ?h s"
      using loads_frame(3) [OF h2(2) below(1)] isolatedD(3) [OF i(2) s(2)] by simp
    have s2: "sg_commitId (hp_segments h2 s) = ?cid" using seg2 s(2) by simp
    have a2: "map_of (sg_clusters (hp_segments h2 s)) j = Some a" "cl_commitId (hp_clusters h2 a) = ?cid"
      using seg2 a evolvesD(2) [OF kl(2) below(2)] by auto
    have S2: "segment_at f h2 s = Some S" "cluster_at f h2 a = Some C"
      using loads_views(2,3) [OF h2(2) i(1)] below S C by auto
    have pre: "commit_step f c0 id cs (cs\<lparr>cs_heap := h2\<rparr>)" using kl by (simp add: commit_step_def)
    have "commit_step f c0 (put_segment k (Some (put_cluster j (Some (spec_cluster_update ?cid u C)) S))) (cs\<lparr>cs_heap := h2\<rparr>) cs'"
    proof (cases "bd_blobSize u = DeleteBlobSize")
      case True
      obtain h' d' where del: "Cluster_DeleteBlob a ?b h2 (cs_delta cs) = Some (h', d')"
        and cs': "cs_heap cs' = h'" "cs_snapshot cs' = ?sn"
        using op False True h2(1) by (auto simp: apply_blob_update_def Let_def split: bind_splits)
      note sp = Cluster_DeleteBlob_spec [OF i2(1,2) a2(2) S2(2) del]
      show ?thesis
        using False True sp(2) cs'
        by (intro commit_step_cluster_op [OF kl(3) s(1) s2 S2(1) a2 sp(1)])
          (auto simp: spec_cluster_update_def put_blob_def Let_def)
    next
      case nodel: False
      obtain p h3 d' where up: "Cluster_UpdateBlob a ?b h2 (cs_delta cs) = Some (p, h3, d')"
        and cs': "cs_heap cs' = set_blob p (Blob_SetContent (bd_data u) (hp_blobs h3 p)) h3" "cs_snapshot cs' = ?sn"
        using op False nodel h2(1) by (auto simp: apply_blob_update_def Let_def split: bind_splits)
      note sp = Cluster_UpdateBlob_spec [OF i2(1,2) a2(2) S2(2) up cs'(1)]
      show ?thesis
        using False nodel sp(2) cs'
        by (intro commit_step_cluster_op [OF kl(3) s(1) s2 S2(1) a2 sp(1)])
          (auto simp: spec_cluster_update_def put_blob_def Let_def)
    qed
    from commit_step_trans [OF pre this] show ?thesis by simp
  qed
qed

definition path_loaded :: "Heap \<Rightarrow> Snapshot \<Rightarrow> BlobData \<Rightarrow> bool" where
  "path_loaded h sn u = (let loc = bd_location u in
     segment loc = NextFreeSegmentId \<or> cluster loc = SegmentDeleteId
     \<or> segment_loaded h sn (segment loc) \<and>
       (cluster loc = NextFreeClusterId \<or> blob loc = ClusterDeleteId \<or> cluster_loaded h sn (segment loc) (cluster loc)))"

lemma path_loaded_keeps: "keeps_loaded h sn h' sn' \<Longrightarrow> path_loaded h sn u \<Longrightarrow> path_loaded h' sn' u"
  by (auto simp: keeps_loaded_def path_loaded_def Let_def)

lemma apply_update_step:
  assumes inv: "commit_inv f c0 (cs_heap cs) (cs_snapshot cs)"
    and path: "path_loaded (cs_heap cs) (cs_snapshot cs) u"
    and op: "apply_update mv f u cs = Some cs'"
  shows "commit_step f c0 (spec_update u) cs cs'"
proof -
  let ?loc = "bd_location u" and ?sn = "cs_snapshot cs" and ?h = "cs_heap cs"
  let ?k = "segment ?loc" and ?j = "cluster ?loc" and ?cid = "sn_commitId (cs_snapshot cs)"
  let ?v = "snapshot_view f ?h ?sn"
  note i = commit_invD [OF inv]
  have cidv: "dv_commit ?v = ?cid" by (simp add: snapshot_view_def)
  consider (next_segment) "?k = NextFreeSegmentId" | (delete_segment) "?k \<noteq> NextFreeSegmentId" "?j = SegmentDeleteId"
    | (other) "?k \<noteq> NextFreeSegmentId" "?j \<noteq> SegmentDeleteId" by blast
  then show ?thesis
  proof cases
    case next_segment
    have cs': "cs_snapshot cs' = Snapshot_SetNextFreeSegmentId (ReadId u) ?sn" "cs_heap cs' = ?h"
      using op next_segment by (auto simp: apply_update_def Let_def split: if_splits)
    have eq: "sn_segments (cs_snapshot cs') = sn_segments ?sn" "sn_commitId (cs_snapshot cs') = ?cid"
      by (simp_all add: cs' Snapshot_SetNextFreeSegmentId_def)
    have "commit_inv f c0 ?h (cs_snapshot cs')"
      using inv by (simp add: commit_inv_def eq snap_wf_def ok_snapshot_def segment_ptrs_def)
    moreover have "keeps_loaded ?h ?sn ?h (cs_snapshot cs')"
      by (simp add: keeps_loaded_def segment_loaded_def cluster_loaded_def eq)
    moreover have "snapshot_view f ?h (cs_snapshot cs') = spec_update u ?v"
      using next_segment
      by (simp add: snapshot_view_def spec_update_def Let_def cs' Snapshot_SetNextFreeSegmentId_def)
    ultimately show ?thesis using evolves_refl [OF i(1,2)] eq(2) cs'(2) by (simp add: commit_step_def)
  next
    case delete_segment
    then have "apply_segment_delete mv f u cs = Some cs'" using op by (simp add: apply_update_def Let_def)
    from apply_segment_delete_step [OF inv this] show ?thesis
      using delete_segment cidv by (simp add: commit_step_def put_segment_def spec_update_def Let_def)
  next
    case other
    have sl: "segment_loaded ?h ?sn ?k" using path other by (simp add: path_loaded_def Let_def)
    obtain s sn1 h1 d1 where us: "Snapshot_UpdateSegment ?k ?sn ?h (cs_delta cs) = Some (s, sn1, h1, d1)"
      using op other by (auto simp: apply_update_def Let_def split: bind_splits)
    let ?cs1 = "cs\<lparr>cs_snapshot := sn1, cs_heap := h1, cs_delta := d1\<rparr>"
    let ?S = "touch_segment ?cid (dv_segments ?v ?k)"
    have inv1: "commit_inv f c0 h1 sn1" and cid1: "sn_commitId sn1 = ?cid" and s: "map_of (sn_segments sn1) ?k = Some s"
      "sg_commitId (hp_segments h1 s) = sn_commitId sn1"
      and v1: "snapshot_view f h1 sn1 = put_segment ?k (Some ?S) ?v"
      and keep1: "keeps_loaded ?h ?sn h1 sn1" and ev1: "evolves f c0 ?cid ?h h1"
      using Snapshot_UpdateSegment_spec [OF inv sl us] by auto
    note i1 = commit_invD [OF inv1]
    have S: "segment_at f h1 s = Some ?S"
      using arg_cong [OF v1, of "\<lambda>v. dv_segments v ?k"] s(1) by (simp add: snapshot_view_def [of f h1] children_def)
    have first: "commit_step f c0 (\<lambda>v. put_segment ?k (Some ?S) ?v) cs ?cs1"
      using inv1 cid1 ev1 keep1 v1 by (simp add: commit_step_def)
    have second: "commit_step f c0 (put_segment ?k (Some (spec_segment_update ?cid u ?S))) ?cs1 cs'"
    proof -
      consider (nf) "?j = NextFreeClusterId" | (del) "?j \<noteq> NextFreeClusterId" "blob ?loc = ClusterDeleteId"
        | (upd) "?j \<noteq> NextFreeClusterId" "blob ?loc \<noteq> ClusterDeleteId" by blast
      then show ?thesis
      proof cases
        case nf
        let ?h' = "set_segment s (Segment_SetNextFreeClusterId (ReadId u) (hp_segments h1 s)) h1"
        have cs': "cs_heap cs' = ?h'" "cs_snapshot cs' = sn1"
          using op us other nf by (auto simp: apply_update_def Let_def split: if_splits)
        note sp = Segment_SetNextFreeClusterId_spec [OF i1(1,2) s(2) S refl, where n = "ReadId u"]
        have ev: "evolves f c0 (sn_commitId sn1) h1 ?h'" using sp(1) [of c0] by (simp add: segment_change_def)
        have "keeps_loaded h1 sn1 ?h' sn1"
          by (rule keeps_loaded_segment_op [OF inv1 ev s]) (auto simp: Segment_SetNextFreeClusterId_def)
        then show ?thesis
          using sp(2) cs' nf
          by (intro commit_step_segment_op [OF inv1 s S sp(1)]) (auto simp: spec_segment_update_def Let_def)
      next
        case del
        then have "apply_cluster_delete mv f u s ?cs1 = Some cs'"
          using op us other by (simp add: apply_update_def Let_def)
        from apply_cluster_delete_step [of f c0 ?cs1 ?k s ?S mv u cs'] this inv1 s S del show ?thesis
          by (simp add: spec_segment_update_def put_cluster_def Let_def)
      next
        case upd
        obtain a h2 d2 where uc: "Segment_UpdateCluster s ?j h1 d1 = Some (a, h2, d2)"
          and ab: "apply_blob_update mv f u a (?cs1\<lparr>cs_heap := h2, cs_delta := d2\<rparr>) = Some cs'"
          using op us other upd by (auto simp: apply_update_def Let_def split: bind_splits)
        let ?cs2 = "?cs1\<lparr>cs_heap := h2, cs_delta := d2\<rparr>"
        have ok: "ok_segment f c0 h1 s" using ok_snapshotD [OF i1(4) s(1)] .
        have "cluster_loaded h1 sn1 ?k ?j"
          using path_loaded_keeps [OF keep1 path] other upd by (simp add: path_loaded_def Let_def)
        then have cl: "cl_status (hp_clusters h1 b) = LOADED" if "map_of (sg_clusters (hp_segments h1 s)) ?j = Some b" for b
          using that s(1) by (simp add: cluster_loaded_def)
        note sp = Segment_UpdateCluster_spec [OF i1(1,2) s(2) S ok cl uc]
        let ?C = "touch_cluster (sn_commitId sn1) (sv_clusters ?S ?j)"
        have ev: "evolves f c0 (sn_commitId sn1) h1 h2" using sp(1) by (simp add: segment_change_def)
        note fr = Segment_UpdateCluster_frame [OF i1(1) uc]
        have keep2: "keeps_loaded h1 sn1 h2 sn1"
          using fr(1,2) sp(4) by (intro keeps_loaded_segment_op [OF inv1 ev s]) (auto split: if_splits)
        have st2: "commit_step f c0 (put_segment ?k (Some (put_cluster ?j (Some ?C) ?S))) ?cs1 ?cs2"
          by (rule commit_step_segment_op [OF inv1 s S sp(1) sp(2) keep2]) simp_all
        have inv2: "commit_inv f c0 h2 sn1" using commit_inv_evolves [OF inv1 ev] .
        have "segment_at f h2 s = Some (SegmentView (sn_commitId sn1) (sg_nextFreeClusterId (hp_segments h2 s))
           (children (map_of (sg_clusters (hp_segments h2 s))) (cluster_at f h2)))"
          using segment_at_new [OF commit_invD(2) [OF inv2] sp(5)] .
        then have C: "cluster_at f h2 a = Some ?C"
          using sp(2,3) by (auto simp: put_cluster_def children_def fun_eq_iff split: if_splits)
        have "commit_step f c0 (put_segment ?k (Some (put_cluster ?j
           (Some (spec_cluster_update (sn_commitId sn1) u ?C)) (put_cluster ?j (Some ?C) ?S)))) ?cs2 cs'"
          using apply_blob_update_step [of f c0 ?cs2 ?k s _ ?j a ?C mv u cs'] inv2 s(1) sp(5) sp(2) sp(3,4) C ab by simp
        from commit_step_trans [OF st2 this] show ?thesis
          using upd cid1 by (simp add: commit_step_def spec_segment_update_def put_cluster_def Let_def)
      qed
    qed
    from commit_step_trans [OF first second] show ?thesis
      using other cidv by (simp add: commit_step_def put_segment_def spec_update_def Let_def)
  qed
qed

lemma apply_updates_step:
  assumes "commit_inv f c0 (cs_heap cs) (cs_snapshot cs)"
    and "\<forall>u \<in> set us. path_loaded (cs_heap cs) (cs_snapshot cs) u"
    and "apply_updates mv f us cs = Some cs'"
  shows "commit_step f c0 (fold spec_update us) cs cs'"
  using assms
proof (induction us arbitrary: cs)
  case Nil
  then show ?case
    using evolves_refl commit_invD by (simp add: commit_step_def keeps_loaded_def)
next
  case (Cons u us)
  obtain cs1 where cs1: "apply_update mv f u cs = Some cs1" "apply_updates mv f us cs1 = Some cs'"
    using Cons.prems(3) by (auto split: bind_splits)
  have st: "commit_step f c0 (spec_update u) cs cs1"
    using Cons.prems cs1(1) by (intro apply_update_step) auto
  then have "commit_inv f c0 (cs_heap cs1) (cs_snapshot cs1)"
    and "\<forall>u \<in> set us. path_loaded (cs_heap cs1) (cs_snapshot cs1) u"
    using Cons.prems(2) path_loaded_keeps by (auto simp: commit_step_def)
  from commit_step_trans [OF st Cons.IH [OF this cs1(2)]] show ?case by (simp add: comp_def fold_Cons)
qed

section \<open>Databases without a delta: every entry can be applied\<close>

text \<open>The assertions of \<open>ApplyCommitMessage\<close> on the shape of the reserved locations.\<close>

definition entry_wf :: "BlobData \<Rightarrow> bool" where
  "entry_wf u = (let loc = bd_location u in
     (segment loc = NextFreeSegmentId \<longrightarrow> cluster loc = NextFreeClusterId \<and> blob loc = NextFreeBlobId) \<and>
     (cluster loc = SegmentDeleteId \<longrightarrow> blob loc = ClusterDeleteId) \<and>
     (cluster loc = NextFreeClusterId \<longrightarrow> blob loc = NextFreeBlobId))"

lemma mark_None [simp]:
  "mark_released b None = Some None" "mark_allocated b None = Some None"
  by (simp_all add: mark_released_def mark_allocated_def)

lemma mark_all_released_None [simp]: "mark_all_released bs None = Some None"
  by (induction bs) auto

lemma Cluster_UpdateBlob_None: "\<exists>p h'. Cluster_UpdateBlob a k h None = Some (p, h', None)"
  by (auto simp: Cluster_UpdateBlob_def Cluster_replaceBlob_def Let_def new_blob_def split: option.splits)

lemma Segment_UpdateCluster_None: "\<exists>a h'. Segment_UpdateCluster s k h None = Some (a, h', None)"
proof -
  obtain a h1 where new: "new_cluster (Cluster_new k (sg_commitId (hp_segments h s))) h = (a, h1)" by fastforce
  obtain p h3 where "Cluster_UpdateBlob a 0 (set_segment s ((hp_segments h s)
     \<lparr>sg_clusters := fm_assign (sg_clusters (hp_segments h s)) k a\<rparr>) h1) None = Some (p, h3, None)"
    using Cluster_UpdateBlob_None by blast
  with new have "\<exists>a h'. Segment_createCluster s k h None = Some (a, h', None)"
    by (simp add: Segment_createCluster_def Let_def)
  then show ?thesis
    by (auto simp: Segment_UpdateCluster_def Let_def new_cluster_def split: option.splits)
qed

lemma Snapshot_UpdateSegment_None: "\<exists>s sn' h'. Snapshot_UpdateSegment k sn h None = Some (s, sn', h', None)"
proof -
  obtain s h1 where new: "new_segment (Segment_new k (sn_commitId sn)) h = (s, h1)" by fastforce
  obtain a h2 where "Segment_UpdateCluster s 0 h1 None = Some (a, h2, None)"
    using Segment_UpdateCluster_None by blast
  with new have "\<exists>s sn' h'. Snapshot_createSegment k sn h None = Some (s, sn', h', None)"
    by (simp add: Snapshot_createSegment_def Let_def)
  then show ?thesis
    by (auto simp: Snapshot_UpdateSegment_def Let_def new_segment_def split: option.splits)
qed

lemma delete_None:
  "\<exists>h'. Cluster_DeleteBlob a b h None = Some (h', None)"
  "\<exists>h'. Segment_DeleteCluster s c h None = Some (h', None)"
  "\<exists>sn'. Snapshot_DeleteSegment k sn h None = Some (sn', None)"
  by (auto simp: Cluster_DeleteBlob_def Segment_DeleteCluster_def Snapshot_DeleteSegment_def Let_def
      split: option.splits)

lemma apply_segment_delete_None:
  assumes inv: "commit_inv f c0 (cs_heap cs) (cs_snapshot cs)" and d: "cs_delta cs = None"
    and b: "blob (bd_location u) = ClusterDeleteId"
  shows "\<exists>cs'. apply_segment_delete mv f u cs = Some cs' \<and> cs_delta cs' = None"
proof -
  let ?k = "segment (bd_location u)"
  note i = commit_invD [OF inv]
  obtain r h1 where h1: "Snapshot_GetLoadedSegment f (cs_snapshot cs) ?k (cs_heap cs) = Some (r, h1)"
    "loads f c0 (cs_heap cs) h1"
    "\<And>s. r = Some s \<Longrightarrow> sg_status (hp_segments h1 s) = LOADED \<and> ok_segment f c0 h1 s"
    using Snapshot_GetLoadedSegment_read [OF i(1,3,4), of ?k] by blast
  obtain h2 where h2: "(case r of None \<Rightarrow> Some h1
      | Some s \<Rightarrow> if mv then Segment_LoadAllBlobs f s h1 else Segment_LoadAllClusters f s h1) = Some h2"
    using h1(3) Segment_LoadAll_ok [OF loads_wf [OF h1(2) i(1)]] by (cases r) (auto, metis+)
  obtain sn' where "Snapshot_DeleteSegment ?k (cs_snapshot cs) h2 None = Some (sn', None)" using delete_None(3) by blast
  then show ?thesis using h1(1) h2 b d by (simp add: apply_segment_delete_def Let_def)
qed

lemma apply_cluster_delete_None:
  assumes inv: "commit_inv f c0 (cs_heap cs) (cs_snapshot cs)" and d: "cs_delta cs = None"
    and s: "map_of (sn_segments (cs_snapshot cs)) k = Some s"
      "sg_commitId (hp_segments (cs_heap cs) s) = sn_commitId (cs_snapshot cs)"
  shows "\<exists>cs'. apply_cluster_delete mv f u s cs = Some cs' \<and> cs_delta cs' = None"
proof -
  let ?j = "cluster (bd_location u)"
  note i = commit_invD [OF inv]
  have loaded: "sg_status (hp_segments (cs_heap cs) s) = LOADED" using isolatedD(3) [OF i(2) s(2)] by simp
  obtain r h1 where h1: "Segment_GetLoadedCluster f s ?j (cs_heap cs) = Some (r, h1)" "loads f c0 (cs_heap cs) h1"
    "\<And>a. r = Some a \<Longrightarrow> cl_status (hp_clusters h1 a) = LOADED \<and> ok_cluster f c0 h1 a"
    using Segment_GetLoadedCluster_read [OF i(1) loaded ok_snapshotD [OF i(4) s(1)], of ?j] by blast
  obtain h2 where h2: "(case r of None \<Rightarrow> Some h1
      | Some a \<Rightarrow> if mv then Cluster_LoadAllBlobs f a h1 else Some h1) = Some h2"
    using h1(3) Cluster_LoadAllBlobs_ok [OF loads_wf [OF h1(2) i(1)]] by (cases r; cases mv) (auto, metis)
  obtain h' where "Segment_DeleteCluster s ?j h2 None = Some (h', None)" using delete_None(2) by blast
  then show ?thesis using h1(1) h2 d by (simp add: apply_cluster_delete_def Let_def)
qed

lemma apply_blob_update_None:
  assumes inv: "commit_inv f c0 (cs_heap cs) (cs_snapshot cs)" and d: "cs_delta cs = None"
    and a: "cl_commitId (hp_clusters (cs_heap cs) a) = sn_commitId (cs_snapshot cs)"
      "ok_cluster f c0 (cs_heap cs) a"
  shows "\<exists>cs'. apply_blob_update mv f u a cs = Some cs' \<and> cs_delta cs' = None"
proof (cases "blob (bd_location u) = NextFreeBlobId")
  case False
  note i = commit_invD [OF inv]
  let ?b = "blob (bd_location u)"
  have la: "cl_status (hp_clusters (cs_heap cs) a) = LOADED" using isolatedD(2) [OF i(2) a(1)] by simp
  obtain h2 where h2: "load_for_mvcc mv f a ?b (cs_heap cs) = Some h2"
    using Cluster_GetLoadedBlob_read [OF i(1) la a(2) False] by (cases mv) (auto simp: load_for_mvcc_def)
  obtain h3 where "Cluster_DeleteBlob a ?b h2 None = Some (h3, None)" using delete_None(1) by blast
  moreover obtain p h4 where "Cluster_UpdateBlob a ?b h2 None = Some (p, h4, None)" using Cluster_UpdateBlob_None by blast
  ultimately show ?thesis using False h2 d by (simp add: apply_blob_update_def Let_def)
qed (use d in \<open>simp add: apply_blob_update_def Let_def\<close>)

lemma apply_update_None:
  assumes inv: "commit_inv f c0 (cs_heap cs) (cs_snapshot cs)" and d: "cs_delta cs = None"
    and path: "path_loaded (cs_heap cs) (cs_snapshot cs) u" and wf: "entry_wf u"
  shows "\<exists>cs'. apply_update mv f u cs = Some cs' \<and> cs_delta cs' = None"
proof -
  let ?loc = "bd_location u"
  show ?thesis
  proof (cases "segment ?loc = NextFreeSegmentId \<or> cluster ?loc = SegmentDeleteId")
    case True
    then show ?thesis
      using apply_segment_delete_None [OF inv d] wf d by (auto simp: apply_update_def entry_wf_def Let_def)
  next
    case False
    then have sl: "segment_loaded (cs_heap cs) (cs_snapshot cs) (segment ?loc)"
      using path by (simp add: path_loaded_def Let_def)
    obtain s sn1 h1 where us: "Snapshot_UpdateSegment (segment ?loc) (cs_snapshot cs) (cs_heap cs) None = Some (s, sn1, h1, None)"
      using Snapshot_UpdateSegment_None by blast
    let ?cs1 = "cs\<lparr>cs_snapshot := sn1, cs_heap := h1, cs_delta := None\<rparr>"
    have inv1: "commit_inv f c0 h1 sn1" and s: "map_of (sn_segments sn1) (segment ?loc) = Some s"
      "sg_commitId (hp_segments h1 s) = sn_commitId sn1" and keep: "keeps_loaded (cs_heap cs) (cs_snapshot cs) h1 sn1"
      using Snapshot_UpdateSegment_spec [OF inv sl us] by auto
    note i1 = commit_invD [OF inv1]
    consider (nf) "cluster ?loc = NextFreeClusterId" | (del) "cluster ?loc \<noteq> NextFreeClusterId" "blob ?loc = ClusterDeleteId"
      | (upd) "cluster ?loc \<noteq> NextFreeClusterId" "blob ?loc \<noteq> ClusterDeleteId" by blast
    then show ?thesis
    proof cases
      case nf
      then show ?thesis using False us d wf by (auto simp: apply_update_def entry_wf_def Let_def)
    next
      case del
      have "\<exists>cs'. apply_cluster_delete mv f u s ?cs1 = Some cs' \<and> cs_delta cs' = None"
        by (rule apply_cluster_delete_None) (use inv1 s in auto)
      then show ?thesis using False us d del by (simp add: apply_update_def Let_def)
    next
      case upd
      obtain a h2 where uc: "Segment_UpdateCluster s (cluster ?loc) h1 None = Some (a, h2, None)"
        using Segment_UpdateCluster_None by blast
      have ok: "ok_segment f c0 h1 s" using ok_snapshotD [OF i1(4) s(1)] .
      have "cluster_loaded h1 sn1 (segment ?loc) (cluster ?loc)"
        using path_loaded_keeps [OF keep path] False upd by (simp add: path_loaded_def Let_def)
      then have cl: "cl_status (hp_clusters h1 b) = LOADED" if "map_of (sg_clusters (hp_segments h1 s)) (cluster ?loc) = Some b" for b
        using that s(1) by (simp add: cluster_loaded_def)
      obtain S where S: "segment_at f h1 s = Some S" using segment_at_new [OF i1(2) s(2)] by blast
      note sp = Segment_UpdateCluster_spec [OF i1(1,2) s(2) S ok cl uc]
      have ev: "evolves f c0 (sn_commitId sn1) h1 h2" using sp(1) by (simp add: segment_change_def)
      have inv2: "commit_inv f c0 h2 sn1" using commit_inv_evolves [OF inv1 ev] .
      have "ok_cluster f c0 h2 a"
        using evolvesD(6) [OF ev snap_wf_segment [OF i1(3) s(1)] ok] isolatedD(3) [OF commit_invD(2) [OF inv2] sp(5)] sp(3)
        by (auto simp: ok_segment_def cluster_ptrs_def dest: map_of_ptr)
      then have "\<exists>cs'. apply_blob_update mv f u a (?cs1\<lparr>cs_heap := h2, cs_delta := None\<rparr>) = Some cs' \<and> cs_delta cs' = None"
        using inv2 sp(4) by (intro apply_blob_update_None) auto
      then show ?thesis using False us d upd uc by (simp add: apply_update_def Let_def)
    qed
  qed
qed

lemma apply_updates_None:
  assumes "commit_inv f c0 (cs_heap cs) (cs_snapshot cs)" "cs_delta cs = None"
    "\<forall>u \<in> set us. path_loaded (cs_heap cs) (cs_snapshot cs) u \<and> entry_wf u"
  shows "\<exists>cs'. apply_updates mv f us cs = Some cs' \<and> cs_delta cs' = None"
  using assms
proof (induction us arbitrary: cs)
  case (Cons u us)
  then obtain cs1 where cs1: "apply_update mv f u cs = Some cs1" "cs_delta cs1 = None"
    using apply_update_None [of f c0 cs u mv] by auto
  have "commit_step f c0 (spec_update u) cs cs1" using Cons.prems cs1(1) by (intro apply_update_step) auto
  then have "commit_inv f c0 (cs_heap cs1) (cs_snapshot cs1)"
    "\<forall>u \<in> set us. path_loaded (cs_heap cs1) (cs_snapshot cs1) u \<and> entry_wf u"
    using Cons.prems(3) path_loaded_keeps by (auto simp: commit_step_def)
  from Cons.IH [OF this(1) cs1(2) this(2)] cs1(1) show ?case by auto
qed auto

end
