(* ===== verification/Database_Store.thy ===== *)
theory Database_Store
  imports Commit_Refinement
begin

text \<open>
  The stored part of \<open>Database\<close> (ServerLib/Database.cpp): creating a database in memory or in a file,
  opening a database file, the MVCC snapshot, and committing: \<open>CalculateCommitResult\<close> builds the new
  snapshot and \<open>ApplyToDatabase\<close> writes it to the file and publishes it. Write errors of the operating
  system are not modelled: the source only asserts on them.
\<close>

section \<open>State\<close>

record DbStore =
  ds_heap :: Heap
  ds_snapshot :: Snapshot
  ds_mvccSnapshot :: "Snapshot option"
  ds_mvccUseCount :: int
  ds_freeList :: "FreeList option"
  ds_file :: "byte list"
  ds_fileHeader :: FileHeader

definition empty_heap :: Heap where
  "empty_heap = \<lparr>hp_blobs = (\<lambda>_. Blob_new 0 0), hp_clusters = (\<lambda>_. Cluster_new 0 0),
     hp_segments = (\<lambda>_. Segment_new 0 0), hp_next = 0\<rparr>"

definition empty_header :: FileHeader where
  "empty_header = \<lparr>hdr_typeId = replicate 8 0, hdr_sizes = replicate 5 0, hdr_rootIndex = 0,
     hdr_unused = replicate 2 0, hdr_roots = replicate 2 \<lparr>root_snapshot = no_location, root_freeList = no_location\<rparr>\<rparr>"

section \<open>MVCC\<close>

definition Database_BeginMVCC :: "DbStore \<Rightarrow> DbStore" where
  "Database_BeginMVCC db =
     (let db' = db\<lparr>ds_mvccUseCount := ds_mvccUseCount db + 1\<rparr> in
      if ds_mvccUseCount db = 0 then db'\<lparr>ds_mvccSnapshot := Some (ds_snapshot db)\<rparr> else db')"

definition Database_EndMVCC :: "DbStore \<Rightarrow> DbStore" where
  "Database_EndMVCC db =
     (let db' = db\<lparr>ds_mvccUseCount := ds_mvccUseCount db - 1\<rparr> in
      if ds_mvccUseCount db - 1 = 0 then db'\<lparr>ds_mvccSnapshot := None\<rparr> else db')"

definition read_snapshot :: "DbStore \<Rightarrow> bool \<Rightarrow> Snapshot option" where
  "read_snapshot db mvcc = (if mvcc then ds_mvccSnapshot db else Some (ds_snapshot db))"

definition Database_GetLoadedBlob :: "BlobLocation \<Rightarrow> bool \<Rightarrow> DbStore \<Rightarrow> (Blob option \<times> DbStore) option" where
  "Database_GetLoadedBlob location mvcc db = do {
     sn \<leftarrow> read_snapshot db mvcc;
     (b, h) \<leftarrow> Snapshot_GetLoadedBlob (ds_file db) sn location (ds_heap db);
     Some (b, db\<lparr>ds_heap := h\<rparr>) }"

definition Database_GetLoadedCluster ::
  "segment_id \<Rightarrow> cluster_id \<Rightarrow> bool \<Rightarrow> DbStore \<Rightarrow> (addr option \<times> DbStore) option" where
  "Database_GetLoadedCluster segmentId clusterId mvcc db = do {
     sn \<leftarrow> read_snapshot db mvcc;
     (a, h) \<leftarrow> Snapshot_GetLoadedCluster (ds_file db) sn segmentId clusterId (ds_heap db);
     Some (a, db\<lparr>ds_heap := h\<rparr>) }"

definition Database_GetLoadedSegment :: "segment_id \<Rightarrow> bool \<Rightarrow> DbStore \<Rightarrow> (addr option \<times> DbStore) option" where
  "Database_GetLoadedSegment segmentId mvcc db = do {
     sn \<leftarrow> read_snapshot db mvcc;
     (s, h) \<leftarrow> Snapshot_GetLoadedSegment (ds_file db) sn segmentId (ds_heap db);
     Some (s, db\<lparr>ds_heap := h\<rparr>) }"

section \<open>Creating and opening\<close>

definition Database_InitializeInMemory :: "DbStore option" where
  "Database_InitializeInMemory = do {
     (s, sn, h, d) \<leftarrow> Snapshot_UpdateSegment 0 (Snapshot_new 1) empty_heap None;
     Some \<lparr>ds_heap = h, ds_snapshot = Snapshot_SetNextFreeSegmentId 1 sn, ds_mvccSnapshot = None, ds_mvccUseCount = 0,
           ds_freeList = None, ds_file = [], ds_fileHeader = empty_header\<rparr> }"

definition INITIAL_SIZE :: uint64_t where
  "INITIAL_SIZE = 1024"

text \<open>A table with the single child 0, as it is laid out for the initial database.\<close>

definition put_single_table :: "BlockReference \<Rightarrow> BlockReference \<Rightarrow> byte list \<Rightarrow> byte list" where
  "put_single_table r child buf =
     (let off = unat (ref_offset r) in
      put (off + 24) (ref_bytes child) (put (off + 20) (u32_bytes 1) (put (off + 16) (u32_bytes 0)
        (put (off + 8) (u32_bytes 1) (put off (u64_bytes 1) buf)))))"

definition block_after :: "BlockReference \<Rightarrow> uint64_t \<Rightarrow> BlockReference" where
  "block_after r sz = \<lparr>ref_offset = BlockReference_EndOffset r, ref_size = sz\<rparr>"

definition Database_InitializeDatabaseFile :: "byte list" where
  "Database_InitializeDatabaseFile =
     (let snapshotReference = \<lparr>ref_offset = 80, ref_size = 16 + 8 + 16\<rparr>;
          segmentReference = block_after snapshotReference (16 + 8 + 16);
          clusterReference = block_after segmentReference (16 + 8 + 16);
          blobReference = block_after clusterReference 8;
          freeListReference = block_after blobReference (16 + 16);
          freeBlock = block_after freeListReference (INITIAL_SIZE - BlockReference_EndOffset freeListReference);
          header = (Header_Initialize empty_header)
            \<lparr>hdr_roots := [\<lparr>root_snapshot = snapshotReference, root_freeList = freeListReference\<rparr>,
                          \<lparr>root_snapshot = no_location, root_freeList = no_location\<rparr>]\<rparr>;
          off = unat (ref_offset freeListReference);
          b0 = put 0 (header_bytes header) (replicate (unat INITIAL_SIZE) 0);
          b1 = put_single_table snapshotReference segmentReference b0;
          b2 = put_single_table segmentReference clusterReference b1;
          b3 = put_single_table clusterReference blobReference b2;
          b4 = put (unat (ref_offset blobReference)) (u64_bytes 1) b3;
          b5 = put off (u64_bytes INITIAL_SIZE) b4;
          b6 = put (off + 8) (u64_bytes 1) b5
      in put (off + 16) (ref_bytes freeBlock) b6)"

fun delay_load_segments :: "table \<Rightarrow> Snapshot \<times> Heap \<Rightarrow> (Snapshot \<times> Heap) option" where
  "delay_load_segments [] st = Some st"
| "delay_load_segments (e # es) st = do { st \<leftarrow> Snapshot_DelayLoadSegment e st; delay_load_segments es st }"

definition Database_ReadInitialFileDatabaseData :: "byte list \<Rightarrow> DbStore option" where
  "Database_ReadInitialFileDatabaseData file = do {
     hdr \<leftarrow> read_at file 0 80;
     let fileHeader = header_of hdr;
     if \<not> Header_IsValid fileHeader \<or> 2 \<le> hdr_rootIndex fileHeader then None
     else do {
       let root = hdr_roots fileHeader ! unat (hdr_rootIndex fileHeader);
       fileSnapshot \<leftarrow> LoadMemoryBlock file (root_snapshot root);
       (commitId, nextFree, entries) \<leftarrow> load_table fileSnapshot;
       (sn, h) \<leftarrow> delay_load_segments entries
          (Snapshot_SetNextFreeSegmentId nextFree ((Snapshot_new commitId)\<lparr>sn_fileLocation := root_snapshot root\<rparr>), empty_heap);
       fileFreeList \<leftarrow> LoadMemoryBlock file (root_freeList root);
       (endOffset, blocks) \<leftarrow> load_free_list fileFreeList;
       let fl = fold FreeList_FreeMemoryBlock blocks
                  \<lparr>fl_endOffset = endOffset, fl_blocks = [], fl_fileLocation = root_freeList root\<rparr>;
       Some \<lparr>ds_heap = h, ds_snapshot = sn, ds_mvccSnapshot = None, ds_mvccUseCount = 0,
             ds_freeList = Some fl, ds_file = file, ds_fileHeader = fileHeader\<rparr> } }"

datatype OpenMode = CreateIfNotExist | OpenFailIfNotExist | CreateFailIfExist | CreateAlways

datatype OpenResult = OPEN_SUCCESS | DATABASE_OPEN_FAILED | ILLEGAL_DATABASE_PATH | DATABASE_ALREADY_OPEN
  | TOO_MANY_DATABASES_OPEN | DATABASE_DOES_NOT_EXIST | DATABASE_ALREADY_EXISTS | CANNOT_OVERWRITE_OPEN_DATABASE

fun convertDbOpenMode :: "OpenMode \<Rightarrow> CreationDisposition" where
  "convertDbOpenMode CreateIfNotExist = OPEN_ALWAYS"
| "convertDbOpenMode OpenFailIfNotExist = OPEN_EXISTING"
| "convertDbOpenMode CreateFailIfExist = CREATE_NEW"
| "convertDbOpenMode CreateAlways = CREATE_ALWAYS"

text \<open>\<open>createFile\<close> stands for \<open>CreateFileW\<close> with \<open>GetLastError\<close>: success, error code and the content of
  the file that was opened. Exceptions while reading are the result \<open>DATABASE_OPEN_FAILED\<close>.\<close>

definition Database_LoadFromFile ::
  "(CreationDisposition \<Rightarrow> bool \<times> LastError \<times> byte list) \<Rightarrow> OpenMode \<Rightarrow> OpenResult \<times> DbStore option" where
  "Database_LoadFromFile createFile openMode =
     (case createFile (convertDbOpenMode openMode) of (opened, lastError, content) \<Rightarrow>
      (case FileBackend_OpenExclusive (convertDbOpenMode openMode) opened lastError of
        OpenFailed modeSpecific \<Rightarrow>
          if modeSpecific \<and> openMode = CreateFailIfExist then (DATABASE_ALREADY_EXISTS, None)
          else if modeSpecific \<and> openMode = OpenFailIfNotExist then (DATABASE_DOES_NOT_EXIST, None)
          else (DATABASE_OPEN_FAILED, None)
      | Opened isEmpty \<Rightarrow>
          (let file = (if isEmpty then overwrite content 0 Database_InitializeDatabaseFile else content) in
           case Database_ReadInitialFileDatabaseData file of
             None \<Rightarrow> (DATABASE_OPEN_FAILED, None)
           | Some db \<Rightarrow> (OPEN_SUCCESS, Some db))))"

section \<open>Committing\<close>

fun block_required_size :: "Heap \<Rightarrow> Snapshot \<Rightarrow> FreeList \<Rightarrow> block \<Rightarrow> uint64_t" where
  "block_required_size h sn fl (BlobBlock p) = Blob_CalculateRequiredSize (hp_blobs h p)"
| "block_required_size h sn fl (ClusterBlock a) = Cluster_CalculateRequiredSize h (hp_clusters h a)"
| "block_required_size h sn fl (SegmentBlock s) = Segment_CalculateRequiredSize h (hp_segments h s)"
| "block_required_size h sn fl (SnapshotBlock c) = Snapshot_CalculateRequiredSize h sn"
| "block_required_size h sn fl FreeListBlock = FreeList_CalculateRequiredSize fl"

text \<open>The \<open>fileLocation\<close> members of all blocks; \<open>old\<close> and \<open>sn\<close> are the replaced and the new snapshot.\<close>

fun block_location :: "Heap \<Rightarrow> Snapshot \<Rightarrow> Snapshot \<Rightarrow> FreeList \<Rightarrow> block \<Rightarrow> BlockReference" where
  "block_location h old sn fl (BlobBlock p) = bl_fileLocation (hp_blobs h p)"
| "block_location h old sn fl (ClusterBlock a) = cl_fileLocation (hp_clusters h a)"
| "block_location h old sn fl (SegmentBlock s) = sg_fileLocation (hp_segments h s)"
| "block_location h old sn fl (SnapshotBlock c) =
     (if c = sn_commitId sn then sn_fileLocation sn else sn_fileLocation old)"
| "block_location h old sn fl FreeListBlock = fl_fileLocation fl"

definition set_locations :: "(block \<Rightarrow> BlockReference) \<Rightarrow> Heap \<Rightarrow> Heap" where
  "set_locations locs h =
     h\<lparr>hp_blobs := (\<lambda>p. (hp_blobs h p)\<lparr>bl_fileLocation := locs (BlobBlock p)\<rparr>),
       hp_clusters := (\<lambda>a. (hp_clusters h a)\<lparr>cl_fileLocation := locs (ClusterBlock a)\<rparr>),
       hp_segments := (\<lambda>s. (hp_segments h s)\<lparr>sg_fileLocation := locs (SegmentBlock s)\<rparr>)\<rparr>"

record CommitResult =
  cr_heap :: Heap
  cr_snapshot :: Snapshot
  cr_freeList :: "FreeList option"
  cr_delta :: delta
  cr_deleted :: Deleted

fun apply_commit_messages ::
  "bool \<Rightarrow> byte list \<Rightarrow> TransactionCommit list \<Rightarrow> CommitState \<Rightarrow> CommitState option" where
  "apply_commit_messages mv file [] cs = Some cs"
| "apply_commit_messages mv file (m # ms) cs = do {
     cs \<leftarrow> Snapshot_ApplyCommitMessage mv file m cs; apply_commit_messages mv file ms cs }"

definition initial_delta :: "DbStore \<Rightarrow> Snapshot \<Rightarrow> delta option" where
  "initial_delta db newSnapshot =
     (if ds_freeList db = None then Some None
      else do {
        d \<leftarrow> mark_allocated (SnapshotBlock (sn_commitId newSnapshot)) (Some \<lparr>md_released = [], md_allocated = []\<rparr>);
        mark_released (SnapshotBlock (sn_commitId (ds_snapshot db))) d })"

definition Database_CalculateCommitResult ::
  "(BlockReference list \<Rightarrow> BlockReference list) \<Rightarrow> TransactionCommit list \<Rightarrow> DbStore \<Rightarrow> CommitResult option" where
  "Database_CalculateCommitResult srt messages db =
     (let newSnapshot = Snapshot_copy (ds_snapshot db) in do {
        d \<leftarrow> initial_delta db newSnapshot;
        cs \<leftarrow> apply_commit_messages (ds_mvccSnapshot db \<noteq> None) (ds_file db) messages
               \<lparr>cs_snapshot = newSnapshot, cs_heap = ds_heap db, cs_delta = d,
                cs_deleted = \<lparr>del_blobs = [], del_clusters = [], del_segments = []\<rparr>\<rparr>;
        case (ds_freeList db, cs_delta cs) of
          (Some fl, Some delta) \<Rightarrow> do {
            let h = cs_heap cs;
            let sn = cs_snapshot cs;
            (delta, locs, fl) \<leftarrow> FreeList_AllocateAndApplyDelta srt (block_required_size h sn fl) FreeListBlock delta
                 (block_location h (ds_snapshot db) sn fl) fl;
            Some \<lparr>cr_heap = set_locations locs h,
                  cr_snapshot = sn\<lparr>sn_fileLocation := locs (SnapshotBlock (sn_commitId sn))\<rparr>,
                  cr_freeList = Some fl, cr_delta = Some delta, cr_deleted = cs_deleted cs\<rparr> }
        | _ \<Rightarrow> Some \<lparr>cr_heap = cs_heap cs, cr_snapshot = cs_snapshot cs, cr_freeList = None, cr_delta = None,
                     cr_deleted = cs_deleted cs\<rparr> })"

fun serialize_block :: "Heap \<Rightarrow> Snapshot \<Rightarrow> FreeList \<Rightarrow> block \<Rightarrow> byte list \<Rightarrow> byte list option" where
  "serialize_block h sn fl (BlobBlock p) buf = Blob_SerializeIntoBuffer (hp_blobs h p) buf"
| "serialize_block h sn fl (ClusterBlock a) buf = Cluster_SerializeIntoBuffer h (hp_clusters h a) buf"
| "serialize_block h sn fl (SegmentBlock s) buf = Segment_SerializeIntoBuffer h (hp_segments h s) buf"
| "serialize_block h sn fl (SnapshotBlock c) buf = Snapshot_SerializeIntoBuffer h sn buf"
| "serialize_block h sn fl FreeListBlock buf = FreeList_SerializeIntoBuffer fl buf"

text \<open>The sequence of writes of the block loop, with the reused \<open>writeBuffer\<close> threaded through.\<close>

fun block_writes ::
  "Heap \<Rightarrow> Snapshot \<Rightarrow> FreeList \<Rightarrow> block list \<Rightarrow> byte list \<Rightarrow> (BlockReference \<times> byte list) list option" where
  "block_writes h sn fl [] buf = Some []"
| "block_writes h sn fl (b # bs) buf = do {
     buf \<leftarrow> serialize_block h sn fl b buf;
     ws \<leftarrow> block_writes h sn fl bs buf;
     Some ((block_location h sn sn fl b, buf) # ws) }"

definition write_blocks :: "(BlockReference \<times> byte list) list \<Rightarrow> byte list \<Rightarrow> byte list" where
  "write_blocks ws file = fold (\<lambda>(r, bs) file. StoreBytes r bs file) ws file"

definition flip_root :: "FileHeader \<Rightarrow> BlockReference \<Rightarrow> BlockReference \<Rightarrow> FileHeader" where
  "flip_root hdr snapshotLocation freeListLocation =
     (let rootIndex = xor (hdr_rootIndex hdr) 1 in
      hdr\<lparr>hdr_rootIndex := rootIndex,
          hdr_roots := (hdr_roots hdr)[unat rootIndex :=
             \<lparr>root_snapshot = snapshotLocation, root_freeList = freeListLocation\<rparr>]\<rparr>)"

definition CommitResult_ApplyToDatabase :: "CommitResult \<Rightarrow> DbStore \<Rightarrow> (commit_id \<times> DbStore) option" where
  "CommitResult_ApplyToDatabase r db =
     (case (cr_delta r, cr_freeList r) of
        (Some delta, Some fl) \<Rightarrow> do {
          ws \<leftarrow> block_writes (cr_heap r) (cr_snapshot r) fl (md_allocated delta) [];
          let hdr = flip_root (ds_fileHeader db) (sn_fileLocation (cr_snapshot r)) (fl_fileLocation fl);
          let file = overwrite (write_blocks ws (ds_file db)) 0 (header_bytes hdr);
          Some (sn_commitId (cr_snapshot r),
                db\<lparr>ds_heap := cr_heap r, ds_snapshot := cr_snapshot r, ds_freeList := Some fl,
                   ds_file := file, ds_fileHeader := hdr\<rparr>) }
      | _ \<Rightarrow> Some (sn_commitId (cr_snapshot r),
                   db\<lparr>ds_heap := cr_heap r, ds_snapshot := cr_snapshot r, ds_freeList := cr_freeList r\<rparr>))"

end
