(* ===== verification/Commit_Correct.thy ===== *)
theory Commit_Correct
  imports Database_Store
begin

text \<open>
  Correctness of commits: the new snapshot has the content the commit messages describe, no
  earlier snapshot changes, and until the file header is rewritten the database file still
  holds the previous state, whatever part of the writes has reached the disk.
\<close>

section \<open>The delta of a commit\<close>

definition delta_ok :: "commit_id \<Rightarrow> delta \<Rightarrow> bool" where
  "delta_ok k d = (case d of None \<Rightarrow> True
     | Some d \<Rightarrow> distinct (md_allocated d) \<and> distinct (md_released d)
         \<and> set (md_allocated d) \<inter> set (md_released d) = {}
         \<and> FreeListBlock \<notin> set (md_allocated d) \<and> FreeListBlock \<notin> set (md_released d)
         \<and> (\<forall>c. SnapshotBlock c \<in> set (md_allocated d) \<longrightarrow> c = k))"

lemma mark_allocated_ok:
  "mark_allocated b d = Some d' \<Longrightarrow> delta_ok n d \<Longrightarrow> b \<noteq> FreeListBlock \<Longrightarrow> (\<And>c. b = SnapshotBlock c \<Longrightarrow> c = n) \<Longrightarrow> delta_ok n d'"
  by (auto simp: mark_allocated_def Delta_Allocated_def delta_ok_def split: option.splits if_splits)

lemma mark_released_ok:
  "mark_released b d = Some d' \<Longrightarrow> delta_ok n d \<Longrightarrow> b \<noteq> FreeListBlock \<Longrightarrow> delta_ok n d'"
  by (auto simp: mark_released_def Delta_Released_def delta_ok_def split: option.splits if_splits
      dest: in_set_remove1 [THEN iffD1, rotated] notin_set_remove1)

lemma mark_all_released_ok:
  "mark_all_released bs d = Some d' \<Longrightarrow> delta_ok n d \<Longrightarrow> FreeListBlock \<notin> set bs \<Longrightarrow> delta_ok n d'"
  by (induction bs arbitrary: d) (auto split: bind_splits dest: mark_released_ok)

lemma Cluster_UpdateBlob_delta: "Cluster_UpdateBlob a k h d = Some (p, h', d') \<Longrightarrow> delta_ok n d \<Longrightarrow> delta_ok n d'"
  by (auto simp: Cluster_UpdateBlob_def Cluster_replaceBlob_def Let_def new_blob_def
      split: option.splits if_splits bind_splits dest!: mark_allocated_ok mark_released_ok)

lemma Cluster_DeleteBlob_delta: "Cluster_DeleteBlob a k h d = Some (h', d') \<Longrightarrow> delta_ok n d \<Longrightarrow> delta_ok n d'"
  by (auto simp: Cluster_DeleteBlob_def Let_def split: option.splits bind_splits dest!: mark_released_ok)

lemma Cluster_ReleaseAllBlobs_delta: "Cluster_ReleaseAllBlobs c d = Some d' \<Longrightarrow> delta_ok n d \<Longrightarrow> delta_ok n d'"
  unfolding Cluster_ReleaseAllBlobs_def by (erule mark_all_released_ok) auto

lemma Segment_UpdateCluster_delta:
  "Segment_UpdateCluster s k h d = Some (a, h', d') \<Longrightarrow> delta_ok n d \<Longrightarrow> delta_ok n d'"
  by (auto simp: Segment_UpdateCluster_def Segment_createCluster_def Let_def new_cluster_def
      split: option.splits if_splits bind_splits dest!: mark_allocated_ok mark_released_ok Cluster_UpdateBlob_delta)

lemma Segment_DeleteCluster_delta:
  "Segment_DeleteCluster s k h d = Some (h', d') \<Longrightarrow> delta_ok n d \<Longrightarrow> delta_ok n d'"
  by (auto simp: Segment_DeleteCluster_def Let_def split: option.splits if_splits bind_splits
      dest!: mark_released_ok Cluster_ReleaseAllBlobs_delta)

lemma release_clusters_delta: "release_clusters h as d = Some d' \<Longrightarrow> delta_ok n d \<Longrightarrow> delta_ok n d'"
  by (induction as arbitrary: d)
    (auto split: bind_splits dest!: mark_released_ok Cluster_ReleaseAllBlobs_delta)

lemma Snapshot_UpdateSegment_delta:
  "Snapshot_UpdateSegment k sn h d = Some (s, sn', h', d') \<Longrightarrow> delta_ok n d \<Longrightarrow> delta_ok n d'"
  by (auto simp: Snapshot_UpdateSegment_def Snapshot_createSegment_def Let_def new_segment_def
      split: option.splits if_splits bind_splits dest!: mark_allocated_ok mark_released_ok Segment_UpdateCluster_delta)

lemma Snapshot_DeleteSegment_delta:
  "Snapshot_DeleteSegment k sn h d = Some (sn', d') \<Longrightarrow> delta_ok n d \<Longrightarrow> delta_ok n d'"
  by (auto simp: Snapshot_DeleteSegment_def Segment_ReleaseAllClusters_def split: option.splits if_splits bind_splits
      dest!: mark_released_ok release_clusters_delta)

lemma apply_update_delta: "apply_update mv f u cs = Some cs' \<Longrightarrow> delta_ok n (cs_delta cs) \<Longrightarrow> delta_ok n (cs_delta cs')"
  by (auto simp: apply_update_def apply_segment_delete_def apply_cluster_delete_def apply_blob_update_def Let_def
      split: option.splits if_splits bind_splits
      dest!: Snapshot_UpdateSegment_delta [where n = n] Snapshot_DeleteSegment_delta [where n = n] Segment_UpdateCluster_delta [where n = n]
        Segment_DeleteCluster_delta [where n = n] Cluster_UpdateBlob_delta [where n = n] Cluster_DeleteBlob_delta [where n = n])

lemma apply_updates_delta: "apply_updates mv f us cs = Some cs' \<Longrightarrow> delta_ok n (cs_delta cs) \<Longrightarrow> delta_ok n (cs_delta cs')"
  by (induction us arbitrary: cs) (auto split: bind_splits dest: apply_update_delta)

lemma apply_commit_messages_updates:
  "apply_commit_messages mv f ms cs = apply_updates mv f (concat (map tc_blobs ms)) cs"
proof (induction ms arbitrary: cs)
  case (Cons m ms)
  have app: "apply_updates mv f (us @ vs) cs = Option.bind (apply_updates mv f us cs) (apply_updates mv f vs)" for us vs cs
    by (induction us arbitrary: cs) (auto split: bind_splits)
  show ?case using Cons by (auto simp: app Snapshot_ApplyCommitMessage_def split: bind_splits)
qed simp

lemma initial_delta_ok: "initial_delta db sn = Some d \<Longrightarrow> delta_ok (sn_commitId sn) d"
  by (auto simp: initial_delta_def delta_ok_def split: if_splits bind_splits
      dest!: mark_allocated_ok mark_released_ok)

lemma Snapshot_UpdateSegment_commitId:
  "Snapshot_UpdateSegment k sn h d = Some (s, sn', h', d') \<Longrightarrow> sn_commitId sn' = sn_commitId sn"
  by (auto simp: Snapshot_UpdateSegment_def Snapshot_createSegment_def Let_def
      split: option.splits if_splits bind_splits prod.splits)

lemma apply_update_commitId: "apply_update mv f u cs = Some cs' \<Longrightarrow> sn_commitId (cs_snapshot cs') = sn_commitId (cs_snapshot cs)"
  by (auto simp: apply_update_def apply_segment_delete_def apply_cluster_delete_def apply_blob_update_def Let_def
        Snapshot_SetNextFreeSegmentId_def Snapshot_DeleteSegment_def
      split: option.splits if_splits bind_splits dest!: Snapshot_UpdateSegment_commitId)

lemma apply_updates_commitId: "apply_updates mv f us cs = Some cs' \<Longrightarrow> sn_commitId (cs_snapshot cs') = sn_commitId (cs_snapshot cs)"
  by (induction us arbitrary: cs) (auto split: bind_splits dest: apply_update_commitId)

section \<open>The state between commits\<close>

text \<open>Every object in memory was written by an earlier commit or is not loaded, and everything the
  current and the MVCC snapshot refer to can be read.\<close>

definition dated :: "commit_id \<Rightarrow> Heap \<Rightarrow> bool" where
  "dated c h = (\<forall>x. redated c c c (bl_commitId (hp_blobs h x)) \<and> redated c c c (cl_commitId (hp_clusters h x))
     \<and> redated c c c (sg_commitId (hp_segments h x)))"

definition snapshot_ok :: "byte list \<Rightarrow> commit_id \<Rightarrow> Heap \<Rightarrow> Snapshot \<Rightarrow> bool" where
  "snapshot_ok f c h sn = (snap_wf h sn \<and> ok_snapshot f c h sn)"

definition store_ok :: "DbStore \<Rightarrow> bool" where
  "store_ok db = (let h = ds_heap db; c = sn_commitId (ds_snapshot db) in
     heap_wf h \<and> dated c h \<and> snapshot_ok (ds_file db) c h (ds_snapshot db)
     \<and> (case ds_mvccSnapshot db of None \<Rightarrow> True | Some m \<Rightarrow> snapshot_ok (ds_file db) c h m)
     \<and> c < max_commit_id - 1)"

lemma next_commit_id:
  assumes "c < max_commit_id - 1"
  shows "c < c + 1" "c + 1 \<noteq> max_commit_id"
proof -
  have m: "unat (max_commit_id - 1) = 18446744073709551614" "unat max_commit_id = 18446744073709551615"
    by (simp_all add: max_commit_id_def unsigned_minus_1_eq_mask mask_eq_exp_minus_1)
  have "unat c < 18446744073709551614" using assms m(1) by (simp add: word_less_nat_alt)
  then have "unat (c + 1) = unat c + 1" by (simp add: unat_word_ariths)
  with \<open>unat c < _\<close> show "c < c + 1" "c + 1 \<noteq> max_commit_id" using m(2) by (auto simp: word_less_nat_alt)
qed

lemma dated_fresh:
  assumes "dated c h" "c < max_commit_id - 1"
  shows "bl_commitId (hp_blobs h x) \<noteq> c + 1" "cl_commitId (hp_clusters h x) \<noteq> c + 1"
    "sg_commitId (hp_segments h x) \<noteq> c + 1"
  using assms(1) next_commit_id [OF assms(2)] by (auto simp: dated_def redated_def dest: spec [of _ x])

lemma dated_isolated: "dated c h \<Longrightarrow> c < max_commit_id - 1 \<Longrightarrow> isolated (c + 1) h"
  by (simp add: isolated_def dated_fresh)

lemma store_ok_commit_inv:
  assumes "store_ok db"
  shows "commit_inv (ds_file db) (sn_commitId (ds_snapshot db)) (ds_heap db) (Snapshot_copy (ds_snapshot db))"
proof -
  have c: "sn_commitId (ds_snapshot db) < max_commit_id - 1" and d: "dated (sn_commitId (ds_snapshot db)) (ds_heap db)"
    using assms by (auto simp: store_ok_def Let_def)
  show ?thesis
    using assms next_commit_id [OF c] dated_isolated [OF d c] dated_fresh(3) [OF d c]
    by (auto simp: store_ok_def Let_def snapshot_ok_def commit_inv_def Snapshot_copy_def snap_wf_def ok_snapshot_def
        segment_ptrs_def)
qed

lemma redated_next:
  assumes "redated c c c a" "redated c (c + 1) a b" "c < c + 1"
  shows "redated (c + 1) (c + 1) (c + 1) b"
  using assms by (auto simp: redated_def)

lemma dated_next:
  assumes "dated c h" "dated_step c (c + 1) h h'" "c < max_commit_id - 1"
  shows "dated (c + 1) h'"
  using assms(1,2) redated_next next_commit_id(1) [OF assms(3)] unfolding dated_def dated_step_def by blast

lemma good_mono:
  assumes "c \<le> c'"
  shows "good_blob f c r \<Longrightarrow> good_blob f c' r" "good_cluster f c r \<Longrightarrow> good_cluster f c' r"
    "good_segment f c r \<Longrightarrow> good_segment f c' r"
proof -
  have t: "good_table f c' g' r" if "good_table f c g r" "\<And>r. g r \<Longrightarrow> g' r" for g g' r
    using that assms unfolding good_table_def by (meson order_trans)
  have b: "good_blob f c r \<Longrightarrow> good_blob f c' r" for r using assms by (auto simp: good_blob_def)
  have cl: "good_cluster f c r \<Longrightarrow> good_cluster f c' r" for r using t b by blast
  show "good_blob f c r \<Longrightarrow> good_blob f c' r" "good_cluster f c r \<Longrightarrow> good_cluster f c' r"
    "good_segment f c r \<Longrightarrow> good_segment f c' r" using b cl t by blast+
qed

lemma ok_mono:
  assumes "c \<le> c'"
  shows "ok_blob f c h p \<Longrightarrow> ok_blob f c' h p" "ok_cluster f c h p \<Longrightarrow> ok_cluster f c' h p"
    "ok_segment f c h p \<Longrightarrow> ok_segment f c' h p" "ok_snapshot f c h sn \<Longrightarrow> ok_snapshot f c' h sn"
proof -
  have b: "ok_blob f c h p \<Longrightarrow> ok_blob f c' h p" for p using good_mono [OF assms] by (auto simp: ok_blob_def)
  have cl: "ok_cluster f c h p \<Longrightarrow> ok_cluster f c' h p" for p
    using good_mono [OF assms] b by (auto simp: ok_cluster_def split: if_splits)
  have sg: "ok_segment f c h p \<Longrightarrow> ok_segment f c' h p" for p
    using good_mono [OF assms] cl by (auto simp: ok_segment_def split: if_splits)
  show "ok_blob f c h p \<Longrightarrow> ok_blob f c' h p" "ok_cluster f c h p \<Longrightarrow> ok_cluster f c' h p"
    "ok_segment f c h p \<Longrightarrow> ok_segment f c' h p" "ok_snapshot f c h sn \<Longrightarrow> ok_snapshot f c' h sn"
    using b cl sg by (auto simp: ok_snapshot_def)
qed

definition next_view :: "snap_view \<Rightarrow> snap_view" where
  "next_view v = SnapView (dv_commit v + 1) (dv_next v) (dv_segments v)"

lemma snapshot_view_copy: "snapshot_view f h (Snapshot_copy sn) = next_view (snapshot_view f h sn)"
  by (simp add: snapshot_view_def Snapshot_copy_def next_view_def)

lemma path_loaded_copy: "path_loaded h (Snapshot_copy sn) = path_loaded h sn"
  by (simp add: path_loaded_def segment_loaded_def cluster_loaded_def Snapshot_copy_def fun_eq_iff Let_def)

definition commit_state :: "DbStore \<Rightarrow> delta \<Rightarrow> CommitState" where
  "commit_state db d = \<lparr>cs_snapshot = Snapshot_copy (ds_snapshot db), cs_heap = ds_heap db, cs_delta = d,
     cs_deleted = \<lparr>del_blobs = [], del_clusters = [], del_segments = []\<rparr>\<rparr>"

text \<open>The entries of all messages of a commit in order.\<close>

abbreviation commit_entries :: "TransactionCommit list \<Rightarrow> BlobData list" where
  "commit_entries ms \<equiv> concat (map tc_blobs ms)"

lemma commit_messages_step:
  assumes "store_ok db" "\<forall>u \<in> set (commit_entries ms). path_loaded (ds_heap db) (ds_snapshot db) u"
    and "apply_commit_messages mv (ds_file db) ms (commit_state db d) = Some cs"
  shows "commit_step (ds_file db) (sn_commitId (ds_snapshot db)) (fold spec_update (commit_entries ms)) (commit_state db d) cs"
  using assms store_ok_commit_inv [OF assms(1)]
  by (intro apply_updates_step) (simp_all add: apply_commit_messages_updates commit_state_def path_loaded_copy)

text \<open>Snapshots that exist before the commit keep their content.\<close>

lemma commit_messages_evolves:
  assumes "store_ok db" "\<forall>u \<in> set (commit_entries ms). path_loaded (ds_heap db) (ds_snapshot db) u"
    and "apply_commit_messages mv (ds_file db) ms (commit_state db d) = Some cs"
  shows "evolves (ds_file db) (sn_commitId (ds_snapshot db)) (sn_commitId (ds_snapshot db) + 1) (ds_heap db) (cs_heap cs)"
    "commit_inv (ds_file db) (sn_commitId (ds_snapshot db)) (cs_heap cs) (cs_snapshot cs)"
    "sn_commitId (cs_snapshot cs) = sn_commitId (ds_snapshot db) + 1"
    "snapshot_view (ds_file db) (cs_heap cs) (cs_snapshot cs)
       = fold spec_update (commit_entries ms) (next_view (snapshot_view (ds_file db) (ds_heap db) (ds_snapshot db)))"
  using commit_messages_step [OF assms]
  by (simp_all add: commit_step_def commit_state_def Snapshot_copy_def flip: snapshot_view_copy)

lemma evolves_snapshot_ok:
  assumes ev: "evolves f c (c + 1) h h'" and ok: "snapshot_ok f c h m" and c: "dated c h" "c < max_commit_id - 1"
  shows "snapshot_ok f (c + 1) h' m" "snapshot_view f h' m = snapshot_view f h m"
proof -
  have m: "s < hp_next h" if "s \<in> segment_ptrs m" for s using ok that by (simp add: snapshot_ok_def snap_wf_def)
  have "c \<le> c + 1" using next_commit_id(1) [OF c(2)] by simp
  moreover have "ok_snapshot f c h' m"
    using ok m evolvesD(6) [OF ev] by (simp add: snapshot_ok_def ok_snapshot_def)
  moreover have "snap_wf h' m"
    using ok m evolves_inv [OF ev] by (fastforce simp: snapshot_ok_def snap_wf_def)
  ultimately show "snapshot_ok f (c + 1) h' m" using ok_mono(4) by (simp add: snapshot_ok_def)
  show "snapshot_view f h' m = snapshot_view f h m"
    using evolvesD(11) [OF ev] m dated_fresh(3) [OF c] by (intro snapshot_view_cong) simp
qed

lemma commit_messages_isolation:
  assumes "store_ok db" "\<forall>u \<in> set (commit_entries ms). path_loaded (ds_heap db) (ds_snapshot db) u"
    and "apply_commit_messages mv (ds_file db) ms (commit_state db d) = Some cs"
    and "m = ds_snapshot db \<or> ds_mvccSnapshot db = Some m"
  shows "snapshot_view (ds_file db) (cs_heap cs) m = snapshot_view (ds_file db) (ds_heap db) m"
    "snapshot_ok (ds_file db) (sn_commitId (ds_snapshot db) + 1) (cs_heap cs) m"
  using evolves_snapshot_ok [OF commit_messages_evolves(1) [OF assms(1-3)], of m] assms(1,4)
  by (auto simp: store_ok_def Let_def)

section \<open>A commit to a database in memory\<close>

lemma memory_commit:
  assumes ok: "store_ok db" and mem: "ds_freeList db = None"
    and u: "\<forall>u \<in> set (commit_entries ms). path_loaded (ds_heap db) (ds_snapshot db) u \<and> entry_wf u"
  obtains cs where "apply_commit_messages (ds_mvccSnapshot db \<noteq> None) (ds_file db) ms (commit_state db None) = Some cs"
    "cs_delta cs = None"
    "Database_CalculateCommitResult srt ms db = Some \<lparr>cr_heap = cs_heap cs, cr_snapshot = cs_snapshot cs,
       cr_freeList = None, cr_delta = None, cr_deleted = cs_deleted cs\<rparr>"
proof -
  let ?mv = "ds_mvccSnapshot db \<noteq> None"
  obtain cs where cs: "apply_updates ?mv (ds_file db) (commit_entries ms) (commit_state db None) = Some cs" "cs_delta cs = None"
    using apply_updates_None [of "ds_file db" "sn_commitId (ds_snapshot db)" "commit_state db None" "commit_entries ms" ?mv]
      store_ok_commit_inv [OF ok] u
    unfolding commit_state_def CommitState.simps path_loaded_copy by blast
  show thesis
  proof (rule that)
    show "apply_commit_messages ?mv (ds_file db) ms (commit_state db None) = Some cs" "cs_delta cs = None"
      using cs by (simp_all add: apply_commit_messages_updates)
    show "Database_CalculateCommitResult srt ms db = Some \<lparr>cr_heap = cs_heap cs, cr_snapshot = cs_snapshot cs,
       cr_freeList = None, cr_delta = None, cr_deleted = cs_deleted cs\<rparr>"
      using cs mem by (simp add: Database_CalculateCommitResult_def initial_delta_def Let_def
          apply_commit_messages_updates commit_state_def)
  qed
qed

section \<open>The file during a commit\<close>

text \<open>\<open>protected P f f'\<close>: the bytes \<open>P\<close> of \<open>f\<close> are unchanged in \<open>f'\<close>.\<close>

definition protected :: "(nat \<Rightarrow> bool) \<Rightarrow> byte list \<Rightarrow> byte list \<Rightarrow> bool" where
  "protected P f f' = (length f \<le> length f' \<and> (\<forall>n < length f. P n \<longrightarrow> f' ! n = f ! n))"

definition within :: "(nat \<Rightarrow> bool) \<Rightarrow> BlockReference \<Rightarrow> bool" where
  "within P r = (\<forall>n. ref_covers r n = 1 \<longrightarrow> P n)"

lemma protected_read:
  assumes "protected P f f'" "\<forall>n. pos \<le> n \<and> n < pos + k \<longrightarrow> P n" "read_at f pos k = Some bs"
  shows "read_at f' pos k = Some bs"
  using assms by (auto simp: read_at_nth protected_def)

lemma protected_load:
  assumes "protected P f f'" "within P r" "LoadMemoryBlock f r = Some bs"
  shows "LoadMemoryBlock f' r = Some bs"
  using protected_read [OF assms(1)] assms(2,3) by (simp add: LoadMemoryBlock_def within_def ref_covers_def)

text \<open>All blocks of a stored tree lie within \<open>P\<close>.\<close>

definition disk_within :: "(nat \<Rightarrow> bool) \<Rightarrow> byte list \<Rightarrow> (BlockReference \<Rightarrow> bool) \<Rightarrow> BlockReference \<Rightarrow> bool" where
  "disk_within P f sub r = (within P r \<and> (\<forall>bs c n es. LoadMemoryBlock f r = Some bs \<longrightarrow> load_table bs = Some (c, n, es)
     \<longrightarrow> (\<forall>e \<in> set es. sub (snd e))))"

abbreviation cluster_within :: "(nat \<Rightarrow> bool) \<Rightarrow> byte list \<Rightarrow> BlockReference \<Rightarrow> bool" where
  "cluster_within P f \<equiv> disk_within P f (within P)"

abbreviation segment_within :: "(nat \<Rightarrow> bool) \<Rightarrow> byte list \<Rightarrow> BlockReference \<Rightarrow> bool" where
  "segment_within P f \<equiv> disk_within P f (cluster_within P f)"

abbreviation snapshot_within :: "(nat \<Rightarrow> bool) \<Rightarrow> byte list \<Rightarrow> BlockReference \<Rightarrow> bool" where
  "snapshot_within P f \<equiv> disk_within P f (segment_within P f)"

abbreviation good_snapshot :: "byte list \<Rightarrow> commit_id \<Rightarrow> BlockReference \<Rightarrow> bool" where
  "good_snapshot f c0 \<equiv> good_table f c0 (good_segment f c0)"

lemma protected_blob:
  assumes "protected P f f'" "good_blob f c0 r" "within P r"
  shows "disk_blob f' r = disk_blob f r"
  using assms protected_load [OF assms(1,3)] by (auto simp: good_blob_def disk_blob_def split: bind_splits)

lemma protected_cluster:
  assumes p: "protected P f f'" and g: "good_cluster f c0 r" and w: "cluster_within P f r"
  shows "disk_cluster f' r = disk_cluster f r"
proof -
  obtain bs c n es where t: "LoadMemoryBlock f r = Some bs" "load_table bs = Some (c, n, es)"
    and e: "\<forall>e \<in> set es. good_blob f c0 (snd e)" using g by (auto simp: good_table_def)
  have w': "\<forall>e \<in> set es. within P (snd e)" and wr: "within P r" using w t by (auto simp: disk_within_def)
  have "children (map_of es) (disk_blob f') = children (map_of es) (disk_blob f)"
    using protected_blob [OF p] e w' by (intro children_cong) auto
  then show ?thesis using protected_load [OF p wr t(1)] t by (simp add: disk_cluster_def)
qed

lemma protected_segment:
  assumes p: "protected P f f'" and g: "good_segment f c0 r" and w: "segment_within P f r"
  shows "disk_segment f' r = disk_segment f r"
proof -
  obtain bs c n es where t: "LoadMemoryBlock f r = Some bs" "load_table bs = Some (c, n, es)"
    and e: "\<forall>e \<in> set es. good_cluster f c0 (snd e)"
    using g unfolding good_table_def [of f c0 "good_cluster f c0" r] by blast
  have w': "\<forall>e \<in> set es. cluster_within P f (snd e)" and wr: "within P r"
    using w t unfolding disk_within_def [of P f "cluster_within P f" r] by auto
  have "children (map_of es) (disk_cluster f') = children (map_of es) (disk_cluster f)"
    using protected_cluster [OF p] e w' by (intro children_cong) auto
  then show ?thesis using protected_load [OF p wr t(1)] t by (simp add: disk_segment_def)
qed

lemma protected_snapshot:
  assumes p: "protected P f f'" and g: "good_snapshot f c0 r" and w: "snapshot_within P f r"
  shows "disk_snapshot f' r = disk_snapshot f r"
proof -
  obtain bs c n es where t: "LoadMemoryBlock f r = Some bs" "load_table bs = Some (c, n, es)"
    and e: "\<forall>e \<in> set es. good_segment f c0 (snd e)"
    using g unfolding good_table_def [of f c0 "good_segment f c0" r] by blast
  have w': "\<forall>e \<in> set es. segment_within P f (snd e)" and wr: "within P r"
    using w t unfolding disk_within_def [of P f "segment_within P f" r] by auto
  have "children (map_of es) (disk_segment f') = children (map_of es) (disk_segment f)"
    using protected_segment [OF p] e w' by (intro children_cong) auto
  then show ?thesis using protected_load [OF p wr t(1)] t by (simp add: disk_snapshot_def)
qed

text \<open>A write into a block that lies outside \<open>P\<close>, possibly torn.\<close>

definition write_outside :: "(nat \<Rightarrow> bool) \<Rightarrow> BlockReference \<times> byte list \<Rightarrow> bool" where
  "write_outside P w = (length (snd w) \<le> unat (ref_size (fst w)) \<and> (\<forall>n. ref_covers (fst w) n = 1 \<longrightarrow> \<not> P n))"

lemma write_blocks_protected:
  "\<forall>w \<in> set ws. write_outside P w \<Longrightarrow> protected P f (write_blocks ws f)"
proof (induction ws arbitrary: f)
  case Nil
  then show ?case by (simp add: write_blocks_def protected_def)
next
  case (Cons w ws)
  obtain r bs where w: "w = (r, bs)" by fastforce
  have out: "length bs \<le> unat (ref_size r)" "\<And>n. ref_covers r n = 1 \<Longrightarrow> \<not> P n"
    using Cons.prems by (auto simp: w write_outside_def)
  let ?f1 = "StoreBytes r bs f"
  have "protected P f ?f1"
    unfolding protected_def
  proof (intro conjI allI impI)
    show "length f \<le> length ?f1" by (simp add: StoreBytes_def length_overwrite)
    fix n assume n: "n < length f" "P n"
    then have "ref_covers r n \<noteq> 1" using out(2) by auto
    then have "n < unat (ref_offset r) \<or> unat (ref_offset r) + length bs \<le> n"
      using out(1) by (auto simp: ref_covers_def split: if_splits)
    then show "?f1 ! n = f ! n" using n by (simp add: StoreBytes_def overwrite_nth)
  qed
  moreover have "protected P ?f1 (write_blocks ws ?f1)" using Cons by auto
  ultimately show ?case by (auto simp: write_blocks_def protected_def w)
qed

text \<open>Identifiers are at most \<open>2 ^ 32 - 257\<close>, so no table has \<open>2 ^ 32\<close> entries.\<close>

definition small_tables :: "Heap \<Rightarrow> Snapshot \<Rightarrow> bool" where
  "small_tables h sn = (length (sn_segments sn) < 2 ^ 32
     \<and> (\<forall>s. length (sg_clusters (hp_segments h s)) < 2 ^ 32) \<and> (\<forall>a. length (cl_blobs (hp_clusters h a)) < 2 ^ 32))"

lemma serialize_table_length:
  assumes "serialize_table c n i es sz buf = Some bs" "length es < 2 ^ 32"
  shows "length bs = sz"
proof -
  have "sz = table_required_size es" using assms(1) by (simp add: serialize_table_def split: if_splits)
  from serialize_table_roundtrip [OF assms(2) this, of c n i buf] assms(1) show ?thesis by auto
qed

lemma serialize_block_length:
  assumes "serialize_block h sn fl b buf = Some bs" "small_tables h sn"
    "16 + 16 * length (fl_blocks fl) \<le> unat (ref_size (fl_fileLocation fl))"
  shows "length bs = unat (ref_size (block_location h sn sn fl b))"
proof (cases b)
  case (BlobBlock p)
  then show ?thesis using assms(1)
    by (auto simp: Blob_SerializeIntoBuffer_def serialize_blob_def codec_simps split: if_splits)
next
  case (ClusterBlock a)
  then show ?thesis using assms(1,2) serialize_table_length
    by (fastforce simp: Cluster_SerializeIntoBuffer_def small_tables_def blob_table_def)
next
  case (SegmentBlock s)
  then show ?thesis using assms(1,2) serialize_table_length
    by (fastforce simp: Segment_SerializeIntoBuffer_def small_tables_def cluster_table_def)
next
  case (SnapshotBlock c)
  then show ?thesis using assms(1,2) serialize_table_length
    by (fastforce simp: Snapshot_SerializeIntoBuffer_def small_tables_def segment_table_def)
next
  case FreeListBlock
  then show ?thesis using assms(1,3)
    by (auto simp: FreeList_SerializeIntoBuffer_def serialize_free_list_def codec_simps split: if_splits)
qed

lemma block_writes_refs:
  assumes "block_writes h sn fl bs buf = Some ws" "small_tables h sn"
    "16 + 16 * length (fl_blocks fl) \<le> unat (ref_size (fl_fileLocation fl))" "w \<in> set ws"
  shows "\<exists>b \<in> set bs. fst w = block_location h sn sn fl b \<and> length (snd w) = unat (ref_size (fst w))"
  using assms(1,4)
proof (induction bs arbitrary: buf ws)
  case (Cons b bs)
  then obtain buf' ws' where sb: "serialize_block h sn fl b buf = Some buf'"
    and ws': "block_writes h sn fl bs buf' = Some ws'" and eq: "ws = (block_location h sn sn fl b, buf') # ws'"
    by (auto split: bind_splits)
  show ?case
  proof (cases "w = (block_location h sn sn fl b, buf')")
    case True
    then show ?thesis using serialize_block_length [OF sb assms(2,3)] by simp
  next
    case False
    then show ?thesis using Cons.IH [OF ws'] Cons.prems(2) eq by auto
  qed
qed simp

section \<open>Where a commit writes\<close>

text \<open>The bytes a commit must not touch: everything the free list of the previous root does not
  own. \<open>commit_room\<close> says that the file stays below \<open>2 ^ 64\<close> bytes.\<close>

definition in_use :: "FreeList \<Rightarrow> nat \<Rightarrow> bool" where
  "in_use fl n = (fl_space fl n = 0)"

definition commit_room :: "DbStore \<Rightarrow> FreeList \<Rightarrow> CommitState \<Rightarrow> bool" where
  "commit_room db fl cs = (case cs_delta cs of None \<Rightarrow> True | Some d \<Rightarrow>
     fl_room fl ((\<Sum>b\<leftarrow>md_allocated d. unat (block_required_size (cs_heap cs) (cs_snapshot cs) fl b))
        + unat (FreeList_EstimateRequiredSize (of_nat (length (md_released d)) + 1) fl))
     \<and> length (fl_blocks fl) + length (md_released d) + 1 < 2 ^ 59
     \<and> (\<forall>b \<in> set (md_released d). ref_ok (block_location (cs_heap cs) (ds_snapshot db) (cs_snapshot cs) fl b)))"

lemma estimate_unat:
  assumes "length (fl_blocks fl) + n + 1 < 2 ^ 59"
  shows "unat (FreeList_EstimateRequiredSize (of_nat n + 1) fl) = 16 + 16 * (length (fl_blocks fl) + n + 1)"
proof -
  have "FreeList_EstimateRequiredSize (of_nat n + 1) fl = of_nat (16 + 16 * (length (fl_blocks fl) + n + 1))"
    by (simp add: FreeList_EstimateRequiredSize_def FreeList_CalculateRequiredSize_def algebra_simps)
  moreover have "16 + 16 * (length (fl_blocks fl) + n + 1) < 2 ^ LENGTH(64)" using assms by simp
  ultimately show ?thesis by (simp only: unat_of_nat_id)
qed

lemma block_location_set:
  assumes "b \<noteq> FreeListBlock" "\<And>c. b = SnapshotBlock c \<Longrightarrow> c = sn_commitId sn"
  shows "block_location (set_locations locs h) (sn\<lparr>sn_fileLocation := locs (SnapshotBlock (sn_commitId sn))\<rparr>)
      (sn\<lparr>sn_fileLocation := locs (SnapshotBlock (sn_commitId sn))\<rparr>) fl b = locs b"
  using assms by (cases b) (auto simp: set_locations_def)

lemma commit_writes_outside:
  assumes srt: "std_sort srt" and fl: "ds_freeList db = Some fl"
    and loc: "ref_offset (fl_fileLocation fl) \<noteq> 0" "ref_size (fl_fileLocation fl) \<noteq> 0" "ref_ok (fl_fileLocation fl)"
    and d0: "initial_delta db (Snapshot_copy (ds_snapshot db)) = Some d"
    and cs: "apply_commit_messages (ds_mvccSnapshot db \<noteq> None) (ds_file db) ms (commit_state db d) = Some cs"
    and r: "Database_CalculateCommitResult srt ms db = Some r"
    and room: "commit_room db fl cs"
    and delta: "cr_delta r = Some delta" and fl': "cr_freeList r = Some fl'"
    and small: "small_tables (cr_heap r) (cr_snapshot r)"
    and ws: "block_writes (cr_heap r) (cr_snapshot r) fl' (md_allocated delta) [] = Some ws"
    and w: "w \<in> set ws"
  shows "write_outside (in_use fl) w"
proof -
  note cs' = cs [unfolded apply_commit_messages_updates]
  have dok: "delta_ok (sn_commitId (cs_snapshot cs)) (cs_delta cs)"
    using apply_updates_delta [OF cs'] initial_delta_ok [OF d0] apply_updates_commitId [OF cs']
    by (simp add: commit_state_def)
  let ?h = "cs_heap cs" and ?sn = "cs_snapshot cs"
  obtain dl where dl: "cs_delta cs = Some dl"
    using r fl delta d0 cs by (auto simp: Database_CalculateCommitResult_def Let_def commit_state_def split: bind_splits option.splits)
  note dok' = dok [unfolded delta_ok_def dl, simplified]
  define listSize where "listSize = FreeList_EstimateRequiredSize (of_nat (length (md_released dl)) + 1) fl"
  have rm: "fl_room fl ((\<Sum>b\<leftarrow>md_allocated dl. unat (block_required_size ?h ?sn fl b)) + (unat listSize + 0))"
    and few: "length (fl_blocks fl) + length (md_released dl) + 1 < 2 ^ 59"
    and rel: "\<forall>b \<in> set (md_released dl). ref_ok (block_location ?h (ds_snapshot db) ?sn fl b)"
    using room by (simp_all add: commit_room_def dl listSize_def)
  obtain locs fl2 where aad: "FreeList_AllocateAndApplyDelta srt (block_required_size ?h ?sn fl) FreeListBlock dl
      (block_location ?h (ds_snapshot db) ?sn fl) fl
      = Some (dl\<lparr>md_allocated := md_allocated dl @ [FreeListBlock]\<rparr>, locs, fl2)"
    and size: "ref_size (fl_fileLocation fl2) = listSize"
    and len: "length (fl_blocks fl2) \<le> length (fl_blocks fl) + length (md_released dl) + 1"
    and sp: "\<And>n. covers (map locs (md_allocated dl)) n + ref_covers (fl_fileLocation fl2) n \<le> fl_space fl n"
    using AllocateAndApplyDelta_spec [OF srt _ _ _ _ loc(1,2,3) rel listSize_def rm] dok' by metis
  have res: "cr_heap r = set_locations locs ?h"
    "cr_snapshot r = ?sn\<lparr>sn_fileLocation := locs (SnapshotBlock (sn_commitId ?sn))\<rparr>"
    "delta = dl\<lparr>md_allocated := md_allocated dl @ [FreeListBlock]\<rparr>" "fl' = fl2"
    using r fl delta fl' d0 cs dl aad
    by (auto simp: Database_CalculateCommitResult_def Let_def commit_state_def)
  have "16 + 16 * length (fl_blocks fl') \<le> unat (ref_size (fl_fileLocation fl'))"
    using len estimate_unat [OF few] size by (simp add: res(4) listSize_def)
  from block_writes_refs [OF ws small this w] obtain b where b: "b \<in> set (md_allocated delta)"
    and wb: "fst w = block_location (cr_heap r) (cr_snapshot r) (cr_snapshot r) fl' b"
    and lw: "length (snd w) = unat (ref_size (fst w))" by blast
  have snap: "c = sn_commitId ?sn" if "SnapshotBlock c \<in> set (md_allocated dl)" for c
    using dok that by (simp add: delta_ok_def dl)
  have "\<not> in_use fl n" if "ref_covers (fst w) n = 1" for n
  proof (cases "b = FreeListBlock")
    case True
    then show ?thesis using that wb sp [of n] by (simp add: res(4) in_use_def)
  next
    case False
    then have "b \<in> set (md_allocated dl)" using b by (simp add: res(3))
    moreover have "fst w = locs b"
      using block_location_set [OF False] snap calculation by (metis wb res(1,2))
    ultimately have "1 \<le> covers (map locs (md_allocated dl)) n"
      using ref_covers_le_covers [of "locs b" "map locs (md_allocated dl)" n] that by (metis image_eqI list.set_map)
    then show ?thesis using sp [of n] by (simp add: in_use_def)
  qed
  with lw show ?thesis by (simp add: write_outside_def)
qed

section \<open>Interrupted commits\<close>

text \<open>The block writes of a commit, that is everything \<open>ApplyToDatabase\<close> writes before the file header.\<close>

definition planned_writes ::
  "(BlockReference list \<Rightarrow> BlockReference list) \<Rightarrow> TransactionCommit list \<Rightarrow> DbStore \<Rightarrow> (BlockReference \<times> byte list) list option" where
  "planned_writes srt ms db = do {
     r \<leftarrow> Database_CalculateCommitResult srt ms db;
     case (cr_delta r, cr_freeList r) of
       (Some delta, Some fl) \<Rightarrow> block_writes (cr_heap r) (cr_snapshot r) fl (md_allocated delta) []
     | _ \<Rightarrow> Some [] }"

text \<open>The sizes involved stay in range: no offset reaches \<open>2 ^ 64\<close> and no table has \<open>2 ^ 32\<close> entries.\<close>

definition commit_bounds :: "TransactionCommit list \<Rightarrow> DbStore \<Rightarrow> FreeList \<Rightarrow> bool" where
  "commit_bounds ms db fl = (
     ref_offset (fl_fileLocation fl) \<noteq> 0 \<and> ref_size (fl_fileLocation fl) \<noteq> 0 \<and> ref_ok (fl_fileLocation fl) \<and>
     (case initial_delta db (Snapshot_copy (ds_snapshot db)) of None \<Rightarrow> True | Some d \<Rightarrow>
       (case apply_commit_messages (ds_mvccSnapshot db \<noteq> None) (ds_file db) ms (commit_state db d) of
          None \<Rightarrow> True | Some cs \<Rightarrow> commit_room db fl cs \<and> small_tables (cs_heap cs) (cs_snapshot cs))))"

lemma small_tables_locations:
  "small_tables (set_locations locs h) (sn\<lparr>sn_fileLocation := l\<rparr>) = small_tables h sn"
  by (simp add: small_tables_def set_locations_def)

lemma planned_writes_outside:
  assumes srt: "std_sort srt" and fl: "ds_freeList db = Some fl" and bounds: "commit_bounds ms db fl"
    and ws: "planned_writes srt ms db = Some ws" and w: "w \<in> set ws"
  shows "write_outside (in_use fl) w"
proof -
  obtain r where r: "Database_CalculateCommitResult srt ms db = Some r"
    using ws by (auto simp: planned_writes_def split: bind_splits)
  obtain d cs where d: "initial_delta db (Snapshot_copy (ds_snapshot db)) = Some d"
    and cs: "apply_commit_messages (ds_mvccSnapshot db \<noteq> None) (ds_file db) ms (commit_state db d) = Some cs"
    using r by (auto simp: Database_CalculateCommitResult_def commit_state_def Let_def split: bind_splits)
  show ?thesis
  proof (cases "cr_delta r = None \<or> cr_freeList r = None")
    case True
    then show ?thesis using ws r w by (auto simp: planned_writes_def split: option.splits)
  next
    case False
    then obtain delta fl' where res: "cr_delta r = Some delta" "cr_freeList r = Some fl'" by auto
    obtain locs l where "cr_heap r = set_locations locs (cs_heap cs)" "cr_snapshot r = (cs_snapshot cs)\<lparr>sn_fileLocation := l\<rparr>"
      using r d cs res by (auto simp: Database_CalculateCommitResult_def commit_state_def Let_def
          split: bind_splits option.splits)
    then have "small_tables (cr_heap r) (cr_snapshot r)"
      using bounds d cs by (simp add: commit_bounds_def small_tables_locations)
    then show ?thesis
      using bounds d cs r res ws w
      by (intro commit_writes_outside [OF srt fl _ _ _ d cs r _ res])
        (auto simp: commit_bounds_def planned_writes_def)
  qed
qed

text \<open>Any part of the planned writes, in any order, each possibly torn.\<close>

definition partial_writes :: "(BlockReference \<times> byte list) list \<Rightarrow> (BlockReference \<times> byte list) list \<Rightarrow> bool" where
  "partial_writes ws' ws = (\<forall>w' \<in> set ws'. \<exists>w \<in> set ws. fst w' = fst w \<and> (\<exists>k. snd w' = take k (snd w)))"

lemma partial_writes_protected:
  assumes "\<And>w. w \<in> set ws \<Longrightarrow> write_outside P w" "partial_writes ws' ws"
  shows "protected P f (write_blocks ws' f)"
proof (rule write_blocks_protected, rule ballI)
  fix w' assume "w' \<in> set ws'"
  then obtain w k where "w \<in> set ws" "fst w' = fst w" "snd w' = take k (snd w)"
    using assms(2) by (auto simp: partial_writes_def)
  then show "write_outside P w'" using assms(1) [of w] by (auto simp: write_outside_def)
qed

lemma interrupted_commit:
  assumes "std_sort srt" "ds_freeList db = Some fl" "commit_bounds ms db fl"
    and "planned_writes srt ms db = Some ws" "partial_writes ws' ws"
    and "good_snapshot (ds_file db) c0 root" "snapshot_within (in_use fl) (ds_file db) root"
    and "\<forall>n < 80. in_use fl n" "80 \<le> length (ds_file db)"
  shows "read_at (write_blocks ws' (ds_file db)) 0 80 = read_at (ds_file db) 0 80"
    "disk_snapshot (write_blocks ws' (ds_file db)) root = disk_snapshot (ds_file db) root"
proof -
  have p: "protected (in_use fl) (ds_file db) (write_blocks ws' (ds_file db))"
    using planned_writes_outside [OF assms(1-4)] assms(5) by (intro partial_writes_protected)
  show "disk_snapshot (write_blocks ws' (ds_file db)) root = disk_snapshot (ds_file db) root"
    by (rule protected_snapshot [OF p assms(6,7)])
  have "read_at (ds_file db) 0 80 = Some (take 80 (ds_file db))"
    using assms(9) by (simp add: read_at_def)
  then show "read_at (write_blocks ws' (ds_file db)) 0 80 = read_at (ds_file db) 0 80"
    using protected_read [OF p, of 0 80] assms(8) by simp
qed

end
