(* ===== verification/Initial_Database.thy ===== *)
theory Initial_Database
  imports Commit_Correct
begin

text \<open>
  A new database, in memory or in a file, satisfies the invariant of Commit_Correct and has the
  initial content: segment 0 with cluster 0 with the empty blob 0.
\<close>

definition initial_view :: snap_view where
  "initial_view = SnapView 1 1 [0 \<mapsto> touch_segment 1 None]"

section \<open>In memory\<close>

definition memory_store :: DbStore where
  "memory_store = \<lparr>
     ds_heap = \<lparr>hp_blobs = (\<lambda>_. Blob_new 0 0)(2 := Blob_new 0 1),
       hp_clusters = (\<lambda>_. Cluster_new 0 0)(1 := Cluster_SetNextFreeBlobId 1 ((Cluster_new 0 1)\<lparr>cl_blobs := [(0, 2)]\<rparr>)),
       hp_segments = (\<lambda>_. Segment_new 0 0)(0 := Segment_SetNextFreeClusterId 1 ((Segment_new 0 1)\<lparr>sg_clusters := [(0, 1)]\<rparr>)),
       hp_next = 3\<rparr>,
     ds_snapshot = Snapshot_SetNextFreeSegmentId 1 ((Snapshot_new 1)\<lparr>sn_segments := [(0, 0)]\<rparr>),
     ds_mvccSnapshot = None, ds_mvccUseCount = 0, ds_freeList = None, ds_file = [], ds_fileHeader = empty_header\<rparr>"

lemmas init_defs = Snapshot_SetNextFreeSegmentId_def Segment_SetNextFreeClusterId_def Cluster_SetNextFreeBlobId_def
  Snapshot_new_def Segment_new_def Cluster_new_def Blob_SetIdContent_def

lemma fm_assign_single: "fm_assign [] k v = [(k, v)]"
  using fm_assign_append [of "[]" k v] by (simp add: fm_sorted_def)

lemma fm_lookup_Nil: "fm_lookup [] k = None"
  using fun_cong [OF fm_lookup_map_of [of "[]"], of k] by (simp add: fm_sorted_def)

lemma initialize_in_memory: "Database_InitializeInMemory = Some memory_store"
  by (simp add: Database_InitializeInMemory_def memory_store_def Snapshot_UpdateSegment_def Snapshot_createSegment_def
      Segment_UpdateCluster_def Segment_createCluster_def Cluster_UpdateBlob_def Cluster_replaceBlob_def Let_def
      new_blob_def new_cluster_def new_segment_def empty_heap_def init_defs fm_assign_single fm_lookup_Nil fun_upd_twist
      numeral_2_eq_2 numeral_3_eq_3)

lemma memory_store_facts:
  "sn_commitId (ds_snapshot memory_store) = 1" "sn_segments (ds_snapshot memory_store) = [(0, 0)]"
  "ds_freeList memory_store = None" "ds_mvccSnapshot memory_store = None"
  by (simp_all add: memory_store_def init_defs)

lemma memory_store_view: "snapshot_view f (ds_heap memory_store) (ds_snapshot memory_store) = initial_view"
  by (simp add: snapshot_view_def segment_at_def cluster_at_def blob_at_def children_def memory_store_def init_defs
      initial_view_def Blob_new_def fun_eq_iff Let_def)

lemma memory_store_ok: "store_ok memory_store"
proof -
  have "heap_wf (ds_heap memory_store)"
    by (simp add: heap_wf_def blob_ptrs_def cluster_ptrs_def memory_store_def init_defs fm_sorted_def)
  moreover have "dated 1 (ds_heap memory_store)"
    by (simp add: dated_def redated_def memory_store_def init_defs Blob_new_def)
  moreover have "snapshot_ok f 1 (ds_heap memory_store) (ds_snapshot memory_store)" for f
    by (simp add: snapshot_ok_def snap_wf_def ok_snapshot_def ok_segment_def ok_cluster_def ok_blob_def segment_ptrs_def
        cluster_ptrs_def blob_ptrs_def memory_store_def init_defs Blob_new_def fm_sorted_def)
  moreover have "(1 :: commit_id) < max_commit_id - 1" by code_simp
  ultimately show ?thesis by (simp add: store_ok_def Let_def memory_store_facts)
qed

section \<open>In a file\<close>

text \<open>The first 240 bytes: file header, snapshot, segment, cluster, blob and free list. The rest is zero.\<close>

definition initial_bytes :: "byte list" where
  "initial_bytes =
    [98, 108, 111, 98, 115, 46, 100, 98, 4, 4, 4, 4, 8, 0, 0, 0,
     80, 0, 0, 0, 0, 0, 0, 0, 40, 0, 0, 0, 0, 0, 0, 0, 208, 0, 0, 0, 0, 0, 0, 0, 32, 0, 0, 0, 0, 0, 0, 0,
     0, 0, 0, 0, 0, 0, 0, 0, 0, 0, 0, 0, 0, 0, 0, 0, 0, 0, 0, 0, 0, 0, 0, 0, 0, 0, 0, 0, 0, 0, 0, 0,
     1, 0, 0, 0, 0, 0, 0, 0, 1, 0, 0, 0, 0, 0, 0, 0, 0, 0, 0, 0, 1, 0, 0, 0,
     120, 0, 0, 0, 0, 0, 0, 0, 40, 0, 0, 0, 0, 0, 0, 0,
     1, 0, 0, 0, 0, 0, 0, 0, 1, 0, 0, 0, 0, 0, 0, 0, 0, 0, 0, 0, 1, 0, 0, 0,
     160, 0, 0, 0, 0, 0, 0, 0, 40, 0, 0, 0, 0, 0, 0, 0,
     1, 0, 0, 0, 0, 0, 0, 0, 1, 0, 0, 0, 0, 0, 0, 0, 0, 0, 0, 0, 1, 0, 0, 0,
     200, 0, 0, 0, 0, 0, 0, 0, 8, 0, 0, 0, 0, 0, 0, 0,
     1, 0, 0, 0, 0, 0, 0, 0,
     0, 4, 0, 0, 0, 0, 0, 0, 1, 0, 0, 0, 0, 0, 0, 0, 240, 0, 0, 0, 0, 0, 0, 0, 16, 3, 0, 0, 0, 0, 0, 0]"

lemma initial_file_bytes: "Database_InitializeDatabaseFile = initial_bytes @ replicate 784 0"
  by code_simp

lemma length_initial_bytes: "length initial_bytes = 240"
  by code_simp

lemma length_initial_file: "length Database_InitializeDatabaseFile = 1024"
  by (simp add: initial_file_bytes length_initial_bytes)

lemma initial_read:
  assumes "pos + n \<le> 240" "take n (drop pos initial_bytes) = bs"
  shows "read_at Database_InitializeDatabaseFile pos n = Some bs"
  using assms by (auto simp: initial_file_bytes length_initial_bytes read_at_def)

lemma initial_load:
  assumes "unat (ref_offset r) + unat (ref_size r) \<le> 240"
    "take (unat (ref_size r)) (drop (unat (ref_offset r)) initial_bytes) = bs"
  shows "LoadMemoryBlock Database_InitializeDatabaseFile r = Some bs"
  using initial_read [OF assms] by (simp add: LoadMemoryBlock_def)

lemma initial_file_header:
  "\<exists>bs. read_at Database_InitializeDatabaseFile 0 80 = Some bs \<and> Header_IsValid (header_of bs)
     \<and> hdr_rootIndex (header_of bs) = 0
     \<and> hdr_roots (header_of bs) ! 0 = \<lparr>root_snapshot = \<lparr>ref_offset = 80, ref_size = 40\<rparr>,
          root_freeList = \<lparr>ref_offset = 208, ref_size = 32\<rparr>\<rparr>"
proof (intro exI conjI)
  show "read_at Database_InitializeDatabaseFile 0 80 = Some (take 80 initial_bytes)"
    by (rule initial_read) simp_all
  show "Header_IsValid (header_of (take 80 initial_bytes))" "hdr_rootIndex (header_of (take 80 initial_bytes)) = 0"
    "hdr_roots (header_of (take 80 initial_bytes)) ! 0 = \<lparr>root_snapshot = \<lparr>ref_offset = 80, ref_size = 40\<rparr>,
          root_freeList = \<lparr>ref_offset = 208, ref_size = 32\<rparr>\<rparr>"
    by code_simp+
qed

lemma initial_load_as:
  assumes "unat (ref_offset r) + unat (ref_size r) \<le> 240"
    "load (take (unat (ref_size r)) (drop (unat (ref_offset r)) initial_bytes)) = Some v"
  shows "\<exists>bs. LoadMemoryBlock Database_InitializeDatabaseFile r = Some bs \<and> load bs = Some v"
  using initial_load [OF assms(1) refl] assms(2) by blast

lemma initial_file_blocks:
  "\<exists>bs. LoadMemoryBlock Database_InitializeDatabaseFile \<lparr>ref_offset = 80, ref_size = 40\<rparr> = Some bs
     \<and> load_table bs = Some (1, 1, [(0, \<lparr>ref_offset = 120, ref_size = 40\<rparr>)])"
  "\<exists>bs. LoadMemoryBlock Database_InitializeDatabaseFile \<lparr>ref_offset = 120, ref_size = 40\<rparr> = Some bs
     \<and> load_table bs = Some (1, 1, [(0, \<lparr>ref_offset = 160, ref_size = 40\<rparr>)])"
  "\<exists>bs. LoadMemoryBlock Database_InitializeDatabaseFile \<lparr>ref_offset = 160, ref_size = 40\<rparr> = Some bs
     \<and> load_table bs = Some (1, 1, [(0, \<lparr>ref_offset = 200, ref_size = 8\<rparr>)])"
  "\<exists>bs. LoadMemoryBlock Database_InitializeDatabaseFile \<lparr>ref_offset = 200, ref_size = 8\<rparr> = Some bs
     \<and> load_blob bs = Some (1, [])"
  "\<exists>bs. LoadMemoryBlock Database_InitializeDatabaseFile \<lparr>ref_offset = 208, ref_size = 32\<rparr> = Some bs
     \<and> load_free_list bs = Some (1024, [\<lparr>ref_offset = 240, ref_size = 784\<rparr>])"
  by (rule initial_load_as; code_simp)+

definition file_heap :: Heap where
  "file_heap = \<lparr>hp_blobs = (\<lambda>_. Blob_new 0 0), hp_clusters = (\<lambda>_. Cluster_new 0 0),
       hp_segments = (\<lambda>_. Segment_new 0 0)(0 := (Segment_new 0 max_commit_id)
          \<lparr>sg_status := NOT_LOADED, sg_fileLocation := \<lparr>ref_offset = 120, ref_size = 40\<rparr>\<rparr>),
       hp_next = 1\<rparr>"

definition file_snapshot :: Snapshot where
  "file_snapshot = Snapshot_SetNextFreeSegmentId 1 ((Snapshot_new 1)
       \<lparr>sn_segments := [(0, 0)], sn_fileLocation := \<lparr>ref_offset = 80, ref_size = 40\<rparr>\<rparr>)"

definition initial_free_list :: FreeList where
  "initial_free_list = \<lparr>fl_endOffset = 1024, fl_blocks = [\<lparr>ref_offset = 240, ref_size = 784\<rparr>],
       fl_fileLocation = \<lparr>ref_offset = 208, ref_size = 32\<rparr>\<rparr>"

definition file_store :: "FileHeader \<Rightarrow> DbStore" where
  "file_store hdr = \<lparr>ds_heap = file_heap, ds_snapshot = file_snapshot, ds_mvccSnapshot = None, ds_mvccUseCount = 0,
     ds_freeList = Some initial_free_list, ds_file = Database_InitializeDatabaseFile, ds_fileHeader = hdr\<rparr>"

lemmas file_store_defs = file_store_def file_heap_def file_snapshot_def initial_free_list_def

lemma file_store_simps [simp]:
  "ds_heap (file_store hdr) = file_heap" "ds_snapshot (file_store hdr) = file_snapshot"
  "ds_mvccSnapshot (file_store hdr) = None" "ds_freeList (file_store hdr) = Some initial_free_list"
  "ds_file (file_store hdr) = Database_InitializeDatabaseFile"
  by (simp_all add: file_store_def)

lemma read_initial_file: "\<exists>hdr. Database_ReadInitialFileDatabaseData Database_InitializeDatabaseFile = Some (file_store hdr)"
proof -
  obtain bs where hdr: "read_at Database_InitializeDatabaseFile 0 80 = Some bs" "Header_IsValid (header_of bs)"
    "hdr_rootIndex (header_of bs) = 0"
    "hdr_roots (header_of bs) ! 0 = \<lparr>root_snapshot = \<lparr>ref_offset = 80, ref_size = 40\<rparr>,
        root_freeList = \<lparr>ref_offset = 208, ref_size = 32\<rparr>\<rparr>"
    using initial_file_header by blast
  obtain sn fl where b: "LoadMemoryBlock Database_InitializeDatabaseFile \<lparr>ref_offset = 80, ref_size = 40\<rparr> = Some sn"
    "load_table sn = Some (1, 1, [(0, \<lparr>ref_offset = 120, ref_size = 40\<rparr>)])"
    "LoadMemoryBlock Database_InitializeDatabaseFile \<lparr>ref_offset = 208, ref_size = 32\<rparr> = Some fl"
    "load_free_list fl = Some (1024, [\<lparr>ref_offset = 240, ref_size = 784\<rparr>])"
    using initial_file_blocks(1,5) by blast
  have "Database_ReadInitialFileDatabaseData Database_InitializeDatabaseFile = Some (file_store (header_of bs))"
    using hdr b by (simp add: Database_ReadInitialFileDatabaseData_def file_store_defs Snapshot_DelayLoadSegment_def
        new_segment_def Let_def empty_heap_def init_defs fm_assign_single fm_lookup_Nil FreeList_FreeMemoryBlock_def)
  then show ?thesis ..
qed

lemma initial_file_tree:
  shows "disk_snapshot Database_InitializeDatabaseFile \<lparr>ref_offset = 80, ref_size = 40\<rparr> = Some initial_view"
    "good_segment Database_InitializeDatabaseFile 1 \<lparr>ref_offset = 120, ref_size = 40\<rparr>"
    "disk_segment Database_InitializeDatabaseFile \<lparr>ref_offset = 120, ref_size = 40\<rparr> = Some (touch_segment 1 None)"
proof -
  let ?F = Database_InitializeDatabaseFile
  have blob: "disk_blob ?F \<lparr>ref_offset = 200, ref_size = 8\<rparr> = Some (BlobView 1 [])"
    using initial_file_blocks(4) by (auto simp: disk_blob_def split: bind_splits)
  have single: "children [0 \<mapsto> r] view = [0 \<mapsto> v]" if "view r = Some v" for r :: BlockReference and view and v :: 'v
    using that by (auto simp: children_def fun_eq_iff)
  have cl: "disk_cluster ?F \<lparr>ref_offset = 160, ref_size = 40\<rparr> = Some (touch_cluster 1 None)"
    using initial_file_blocks(3) single [of "disk_blob ?F", OF blob] by (auto simp: disk_cluster_def split: bind_splits)
  show sg: "disk_segment ?F \<lparr>ref_offset = 120, ref_size = 40\<rparr> = Some (touch_segment 1 None)"
    using initial_file_blocks(2) single [of "disk_cluster ?F", OF cl] by (auto simp: disk_segment_def split: bind_splits)
  show "disk_snapshot ?F \<lparr>ref_offset = 80, ref_size = 40\<rparr> = Some initial_view"
    using initial_file_blocks(1) single [of "disk_segment ?F", OF sg]
    by (auto simp: disk_snapshot_def initial_view_def split: bind_splits)
  have "good_blob ?F 1 \<lparr>ref_offset = 200, ref_size = 8\<rparr>" using blob by (simp add: good_blob_def)
  then have "good_cluster ?F 1 \<lparr>ref_offset = 160, ref_size = 40\<rparr>"
    using initial_file_blocks(3) by (auto simp: good_table_def fm_sorted_def split: bind_splits)
  then show "good_segment ?F 1 \<lparr>ref_offset = 120, ref_size = 40\<rparr>"
    using initial_file_blocks(2) unfolding good_table_def [of ?F 1 "good_cluster ?F 1"]
    by (auto simp: fm_sorted_def split: bind_splits)
qed

lemma file_store_view:
  "snapshot_view Database_InitializeDatabaseFile (ds_heap (file_store hdr)) (ds_snapshot (file_store hdr)) = initial_view"
  using initial_file_tree(3)
  by (auto simp: snapshot_view_def segment_at_def children_def file_store_defs init_defs initial_view_def fun_eq_iff Let_def)

lemma file_store_ok: "store_ok (file_store hdr)"
proof -
  let ?db = "file_store hdr"
  have "heap_wf (ds_heap ?db)"
    by (simp add: heap_wf_def blob_ptrs_def cluster_ptrs_def file_store_defs init_defs fm_sorted_def)
  moreover have "dated 1 (ds_heap ?db)"
    by (simp add: dated_def redated_def file_store_defs init_defs Blob_new_def)
  moreover have "snapshot_ok Database_InitializeDatabaseFile 1 (ds_heap ?db) (ds_snapshot ?db)"
    using initial_file_tree(2)
    by (simp add: snapshot_ok_def snap_wf_def ok_snapshot_def ok_segment_def segment_ptrs_def
        file_store_defs init_defs fm_sorted_def)
  moreover have "(1 :: commit_id) < max_commit_id - 1" by code_simp
  ultimately show ?thesis by (simp add: store_ok_def Let_def file_store_defs init_defs)
qed

end
