(* ===== verification/Commit_Properties.thy ===== *)
theory Commit_Properties
  imports Initial_Database
begin

text \<open>
  The properties of commits: content, isolation of earlier snapshots and the state of the file
  after an interrupted commit, with concrete databases that satisfy the hypotheses.
\<close>

section \<open>Sample commits\<close>

text \<open>A commit that writes blob 5 of cluster 0 in segment 0, and one that creates segment 1.\<close>

definition sample_update :: "TransactionCommit list" where
  "sample_update = [\<lparr>tc_clientId = 1, tc_databaseId = 0, tc_hasFollowMessage = False,
     tc_blobs = [\<lparr>bd_location = BlobLocation 0 0 5, bd_blobSize = 2, bd_data = [7, 8]\<rparr>]\<rparr>]"

definition sample_segment :: "TransactionCommit list" where
  "sample_segment = [\<lparr>tc_clientId = 1, tc_databaseId = 0, tc_hasFollowMessage = False,
     tc_blobs = [\<lparr>bd_location = BlobLocation 1 0 0, bd_blobSize = 2, bd_data = [7, 8]\<rparr>]\<rparr>]"

definition sample_segment_state :: CommitState where
  "sample_segment_state =
     (let h = file_heap in
      \<lparr>cs_snapshot = (Snapshot_copy file_snapshot)\<lparr>sn_segments := [(0, 0), (1, 1)]\<rparr>,
       cs_heap = h\<lparr>hp_blobs := (hp_blobs h)(3 := (Blob_new 0 2)\<lparr>bl_data := [7, 8]\<rparr>),
         hp_clusters := (hp_clusters h)(2 := Cluster_SetNextFreeBlobId 1 ((Cluster_new 0 2)\<lparr>cl_blobs := [(0, 3)]\<rparr>)),
         hp_segments := (hp_segments h)(1 := Segment_SetNextFreeClusterId 1 ((Segment_new 1 2)\<lparr>sg_clusters := [(0, 2)]\<rparr>)),
         hp_next := 4\<rparr>,
       cs_delta = Some \<lparr>md_released = [SnapshotBlock 1],
         md_allocated = [SnapshotBlock 2, BlobBlock 3, ClusterBlock 2, SegmentBlock 1]\<rparr>,
       cs_deleted = \<lparr>del_blobs = [], del_clusters = [], del_segments = []\<rparr>\<rparr>)"

lemma sample_initial_delta:
  "initial_delta (file_store empty_header) (Snapshot_copy (ds_snapshot (file_store empty_header)))
     = Some (Some \<lparr>md_released = [SnapshotBlock 1], md_allocated = [SnapshotBlock 2]\<rparr>)"
  by (simp add: initial_delta_def file_store_defs init_defs Snapshot_copy_def mark_allocated_def mark_released_def
      Delta_Allocated_def Delta_Released_def)

lemma fm_assign_second: "fm_assign [(0, a)] 1 b = [(0, a), (1 :: uint32_t, b)]"
  using fm_assign_append [of "[(0, a)]" "1 :: uint32_t" b] by (simp add: fm_sorted_def word_gt_0)

lemma fm_lookup_single: "fm_lookup [(k, a)] j = (if j = k then Some a else None)"
  using fun_cong [OF fm_lookup_map_of [of "[(k, a)]"], of j] by (simp add: fm_sorted_def)

lemma sample_ids: "0 \<noteq> NextFreeBlobId" "5 \<noteq> NextFreeBlobId" "0 \<noteq> ClusterDeleteId" "5 \<noteq> ClusterDeleteId"
  "0 \<noteq> NextFreeClusterId" "0 \<noteq> SegmentDeleteId" "0 \<noteq> NextFreeSegmentId" "1 \<noteq> NextFreeSegmentId" "2 \<noteq> DeleteBlobSize"
  by code_simp+

lemma four: "(4 :: nat) = Suc (Suc (Suc (Suc 0)))"
  by simp

lemma sample_segment_applied:
  "apply_commit_messages False (ds_file (file_store empty_header)) sample_segment
     (commit_state (file_store empty_header) (Some \<lparr>md_released = [SnapshotBlock 1], md_allocated = [SnapshotBlock 2]\<rparr>))
   = Some sample_segment_state"
  by (simp add: sample_segment_def sample_segment_state_def commit_state_def Snapshot_ApplyCommitMessage_def
      apply_update_def apply_blob_update_def Snapshot_UpdateSegment_def Snapshot_createSegment_def
      Segment_UpdateCluster_def Segment_createCluster_def Cluster_UpdateBlob_def Cluster_replaceBlob_def Let_def
      new_blob_def new_cluster_def new_segment_def file_store_defs init_defs fm_assign_single fm_assign_second
      fm_lookup_Nil fm_lookup_single load_for_mvcc_def mark_allocated_def Delta_Allocated_def Snapshot_copy_def
      Blob_SetContent_def Blob_new_def sample_ids fun_upd_twist numeral_2_eq_2 numeral_3_eq_3 four)

section \<open>Reading keeps the invariant\<close>

lemma dated_loads:
  assumes "dated c h" "loads f c h h'"
  shows "dated c h'"
  using assms(1) loads_dated [OF assms(2), of c] unfolding dated_def dated_step_def by (blast intro: redated_trans)

lemma snapshot_ok_loads:
  assumes "snapshot_ok f c h sn" "heap_wf h" "loads f c h h'"
  shows "snapshot_ok f c h' sn" "snapshot_view f h' sn = snapshot_view f h sn"
proof -
  have m: "s < hp_next h" if "s \<in> segment_ptrs sn" for s using assms(1) that by (simp add: snapshot_ok_def snap_wf_def)
  have "snap_wf h' sn"
    using assms(1) loads_next [OF assms(3)] by (fastforce simp: snapshot_ok_def snap_wf_def)
  moreover have "ok_snapshot f c h' sn"
    using assms(1) m loads_ok(3) [OF assms(3,2)] by (simp add: snapshot_ok_def ok_snapshot_def)
  ultimately show "snapshot_ok f c h' sn" by (simp add: snapshot_ok_def)
  show "snapshot_view f h' sn = snapshot_view f h sn"
    using loads_views(3) [OF assms(3,2)] m by (intro snapshot_view_cong) simp
qed

lemma store_ok_loads:
  assumes "store_ok db" "loads (ds_file db) (sn_commitId (ds_snapshot db)) (ds_heap db) h'"
  shows "store_ok (db\<lparr>ds_heap := h'\<rparr>)"
  using assms dated_loads [OF _ assms(2)] loads_wf [OF assms(2)] snapshot_ok_loads [OF _ _ assms(2)]
  by (auto simp: store_ok_def Let_def split: option.splits)

text \<open>The content a client of the database sees: the MVCC snapshot or the current one.\<close>

definition store_view :: "DbStore \<Rightarrow> bool \<Rightarrow> snap_view option" where
  "store_view db mvcc = map_option (snapshot_view (ds_file db) (ds_heap db)) (read_snapshot db mvcc)"

lemma store_ok_snapshot:
  assumes "store_ok db" "read_snapshot db mvcc = Some sn"
  shows "snapshot_ok (ds_file db) (sn_commitId (ds_snapshot db)) (ds_heap db) sn" "heap_wf (ds_heap db)"
  using assms by (auto simp: store_ok_def Let_def read_snapshot_def split: if_splits)

lemma store_view_loads:
  assumes "store_ok db" "loads (ds_file db) (sn_commitId (ds_snapshot db)) (ds_heap db) h'"
  shows "store_view (db\<lparr>ds_heap := h'\<rparr>) mvcc = store_view db mvcc"
proof -
  have rs: "read_snapshot (db\<lparr>ds_heap := h'\<rparr>) mvcc = read_snapshot db mvcc" by (simp add: read_snapshot_def)
  show ?thesis
  proof (cases "read_snapshot db mvcc")
    case (Some sn)
    note ok = store_ok_snapshot [OF assms(1) Some]
    show ?thesis using snapshot_ok_loads(2) [OF ok(1,2) assms(2)] Some rs by (simp add: store_view_def)
  qed (simp add: store_view_def rs)
qed

lemma loaded_blob_read:
  assumes ok: "store_ok db" and sn: "read_snapshot db mvcc = Some sn" and loc: "regular_location loc"
  obtains r h' where "Database_GetLoadedBlob loc mvcc db = Some (r, db\<lparr>ds_heap := h'\<rparr>)"
    "loads (ds_file db) (sn_commitId (ds_snapshot db)) (ds_heap db) h'"
    "map_option blob_content r = view_blob (snapshot_view (ds_file db) (ds_heap db) sn) loc"
  using Snapshot_GetLoadedBlob_read [of "ds_heap db" sn "ds_file db" "sn_commitId (ds_snapshot db)" loc]
    store_ok_snapshot [OF ok sn] sn loc
  by (auto simp: Database_GetLoadedBlob_def snapshot_ok_def)

text \<open>C32: a read of a regular blob always returns, it returns exactly the content of the snapshot the
  client reads from, and loading what was missing in memory changes neither the content of any
  snapshot nor the invariant of the database.\<close>

theorem read_returns_content:
  assumes "store_ok db" "read_snapshot db mvcc = Some sn" "regular_location loc"
  shows "\<exists>r db'. Database_GetLoadedBlob loc mvcc db = Some (r, db')
     \<and> map_option blob_content r = view_blob (snapshot_view (ds_file db) (ds_heap db) sn) loc
     \<and> store_ok db' \<and> (\<forall>m. store_view db' m = store_view db m)"
  using assms by (rule loaded_blob_read) (use assms store_ok_loads store_view_loads in blast)

theorem read_returns_content_witness:
  "\<exists>r db'. Database_GetLoadedBlob (BlobLocation 0 0 0) False (file_store empty_header) = Some (r, db')
     \<and> map_option blob_content r = Some (BlobView 1 []) \<and> store_ok db'"
proof -
  have "regular_location (BlobLocation 0 0 0)" by (simp add: regular_location_def sample_ids)
  from read_returns_content [OF file_store_ok [of empty_header], of False _ "BlobLocation 0 0 0", OF _ this]
  show ?thesis
    using file_store_view [of empty_header]
    by (fastforce simp: read_snapshot_def file_store_defs view_blob_def initial_view_def)
qed

section \<open>Commits to a database in memory\<close>

lemma next_view_commit: "dv_commit (next_view v) = dv_commit v + 1"
  by (simp add: next_view_def)

text \<open>C1: on a database in memory the commit of any well-formed messages whose segments and clusters
  were loaded by the validation always succeeds. The new current content is the old one with the
  entries applied in order, under the next commit id; the content of the MVCC snapshot is not
  changed; and the invariant holds again, so that any number of commits can follow.\<close>

theorem in_memory_commit:
  assumes "store_ok db" "ds_freeList db = None"
    and "\<forall>u \<in> set (commit_entries ms). path_loaded (ds_heap db) (ds_snapshot db) u \<and> entry_wf u"
  shows "\<exists>r db'. Database_CalculateCommitResult srt ms db = Some r
     \<and> CommitResult_ApplyToDatabase r db = Some (sn_commitId (ds_snapshot db) + 1, db')
     \<and> store_view db' False = Some (fold spec_update (commit_entries ms) (next_view (the (store_view db False))))
     \<and> store_view db' True = store_view db True
     \<and> (sn_commitId (ds_snapshot db) + 1 < max_commit_id - 1 \<longrightarrow> store_ok db')"
proof -
  let ?c = "sn_commitId (ds_snapshot db)" and ?f = "ds_file db"
  obtain cs where cs: "apply_commit_messages (ds_mvccSnapshot db \<noteq> None) ?f ms (commit_state db None) = Some cs"
    and r: "Database_CalculateCommitResult srt ms db = Some \<lparr>cr_heap = cs_heap cs, cr_snapshot = cs_snapshot cs,
       cr_freeList = None, cr_delta = None, cr_deleted = cs_deleted cs\<rparr>"
    by (rule memory_commit [OF assms])
  have path: "\<forall>u \<in> set (commit_entries ms). path_loaded (ds_heap db) (ds_snapshot db) u" using assms(3) by blast
  note st = commit_messages_evolves [OF assms(1) path cs]
  note old = commit_messages_isolation [OF assms(1) path cs]
  let ?db = "db\<lparr>ds_heap := cs_heap cs, ds_snapshot := cs_snapshot cs, ds_freeList := None\<rparr>"
  have c: "?c < max_commit_id - 1" and d: "dated ?c (ds_heap db)"
    using assms(1) by (auto simp: store_ok_def Let_def)
  have "CommitResult_ApplyToDatabase \<lparr>cr_heap = cs_heap cs, cr_snapshot = cs_snapshot cs,
       cr_freeList = None, cr_delta = None, cr_deleted = cs_deleted cs\<rparr> db = Some (?c + 1, ?db)"
    using st(3) by (simp add: CommitResult_ApplyToDatabase_def)
  moreover have "store_view ?db False = Some (fold spec_update (commit_entries ms) (next_view (the (store_view db False))))"
    using st(4) by (simp add: store_view_def read_snapshot_def)
  moreover have "store_view ?db True = store_view db True"
    using old(1) by (cases "ds_mvccSnapshot db") (auto simp: store_view_def read_snapshot_def)
  moreover have "store_ok ?db" if "?c + 1 < max_commit_id - 1"
  proof -
    have "?c \<le> ?c + 1" using next_commit_id(1) [OF c] by simp
    then have "snapshot_ok ?f (?c + 1) (cs_heap cs) (cs_snapshot cs)"
      using commit_invD(3,4) [OF st(2)] ok_mono(4) by (auto simp: snapshot_ok_def)
    then show ?thesis
      using that st(3) commit_invD(1) [OF st(2)] dated_next [OF d evolves_dated [OF st(1)] c] old(2)
      by (auto simp: store_ok_def Let_def split: option.splits)
  qed
  ultimately show ?thesis using r by blast
qed

lemma begin_mvcc_ok:
  assumes "store_ok db"
  shows "store_ok (Database_BeginMVCC db)"
  using assms by (auto simp: store_ok_def Database_BeginMVCC_def Let_def split: option.splits)

lemma begin_mvcc_memory:
  "ds_freeList (Database_BeginMVCC memory_store) = None" "ds_heap (Database_BeginMVCC memory_store) = ds_heap memory_store"
  "ds_snapshot (Database_BeginMVCC memory_store) = ds_snapshot memory_store"
  "store_view (Database_BeginMVCC memory_store) mvcc = Some initial_view"
  using memory_store_view memory_store_facts
  by (auto simp: Database_BeginMVCC_def memory_store_def store_view_def read_snapshot_def)

lemma memory_path_loaded:
  "path_loaded (ds_heap memory_store) (ds_snapshot memory_store) u"
  by (auto simp: path_loaded_def segment_loaded_def cluster_loaded_def Let_def memory_store_def init_defs split: if_splits)

theorem in_memory_commit_witness:
  "\<exists>r db'. Database_CalculateCommitResult (sort_key ref_offset) sample_update (Database_BeginMVCC memory_store) = Some r
     \<and> CommitResult_ApplyToDatabase r (Database_BeginMVCC memory_store) = Some (2, db')
     \<and> view_blob (the (store_view db' False)) (BlobLocation 0 0 5) = Some (BlobView 2 [7, 8])
     \<and> store_view db' True = Some initial_view"
proof -
  have e: "commit_entries sample_update = [\<lparr>bd_location = BlobLocation 0 0 5, bd_blobSize = 2, bd_data = [7, 8]\<rparr>]"
    by (simp add: sample_update_def)
  have "entry_wf \<lparr>bd_location = BlobLocation 0 0 5, bd_blobSize = 2, bd_data = [7, 8]\<rparr>"
    by (simp add: entry_wf_def sample_ids)
  then obtain r db' where "Database_CalculateCommitResult (sort_key ref_offset) sample_update (Database_BeginMVCC memory_store) = Some r"
    "CommitResult_ApplyToDatabase r (Database_BeginMVCC memory_store) = Some (1 + 1, db')"
    "store_view db' False = Some (fold spec_update (commit_entries sample_update) (next_view initial_view))"
    "store_view db' True = Some initial_view"
    using in_memory_commit [OF begin_mvcc_ok [OF memory_store_ok], of sample_update "sort_key ref_offset"]
      memory_path_loaded memory_store_facts by (auto simp: begin_mvcc_memory e)
  moreover have "view_blob (fold spec_update (commit_entries sample_update) (next_view initial_view)) (BlobLocation 0 0 5)
      = Some (BlobView 2 [7, 8])"
    by (simp add: e view_blob_def initial_view_def next_view_def spec_update_def spec_segment_update_def
        spec_cluster_update_def sample_ids Let_def)
  ultimately show ?thesis by auto
qed

section \<open>Commits to any database\<close>

text \<open>C2: whatever a commit does, to a database in memory or in a file, building its result changes
  neither the content of the current snapshot nor that of the MVCC snapshot, while the new
  snapshot is the old content with the entries applied in order.\<close>

theorem commit_isolation:
  assumes "store_ok db" "\<forall>u \<in> set (commit_entries ms). path_loaded (ds_heap db) (ds_snapshot db) u"
    and "initial_delta db (Snapshot_copy (ds_snapshot db)) = Some d"
    and "apply_commit_messages (ds_mvccSnapshot db \<noteq> None) (ds_file db) ms (commit_state db d) = Some cs"
  shows "snapshot_view (ds_file db) (cs_heap cs) (cs_snapshot cs)
      = fold spec_update (commit_entries ms) (next_view (snapshot_view (ds_file db) (ds_heap db) (ds_snapshot db)))
    \<and> (\<forall>m \<in> {ds_snapshot db} \<union> set_option (ds_mvccSnapshot db).
         snapshot_view (ds_file db) (cs_heap cs) m = snapshot_view (ds_file db) (ds_heap db) m)"
  using commit_messages_evolves(4) [OF assms(1,2,4)] commit_messages_isolation(1) [OF assms(1,2,4)]
  by (auto simp: elem_set)

lemma file_path_loaded:
  "\<forall>u \<in> set (commit_entries sample_segment). path_loaded (ds_heap (file_store hdr)) (ds_snapshot (file_store hdr)) u"
  by (simp add: sample_segment_def path_loaded_def segment_loaded_def cluster_loaded_def file_store_defs init_defs Let_def)

lemma sample_segment_applied':
  "apply_commit_messages (ds_mvccSnapshot (file_store empty_header) \<noteq> None) (ds_file (file_store empty_header)) sample_segment
     (commit_state (file_store empty_header) (Some \<lparr>md_released = [SnapshotBlock 1], md_allocated = [SnapshotBlock 2]\<rparr>))
   = Some sample_segment_state"
  using sample_segment_applied by (simp add: file_store_defs)

theorem commit_isolation_witness:
  "snapshot_view Database_InitializeDatabaseFile (cs_heap sample_segment_state) (cs_snapshot sample_segment_state)
     = fold spec_update (commit_entries sample_segment) (next_view initial_view)
   \<and> snapshot_view Database_InitializeDatabaseFile (cs_heap sample_segment_state) (ds_snapshot (file_store empty_header))
     = initial_view"
  using commit_isolation [OF file_store_ok file_path_loaded sample_initial_delta sample_segment_applied']
    file_store_view [of empty_header]
  by simp

section \<open>Interrupted commits\<close>

text \<open>C3: as long as the file header has not been rewritten, the file still holds the previous database.
  Whatever part of the block writes of a commit reached the disk, in whatever order and however
  torn, the file header and the whole tree below the root it names decode to the same content as
  before, provided the free list of the previous root does not overlap that tree or the header.\<close>

theorem interrupted_commit_keeps_root:
  assumes "std_sort srt" "ds_freeList db = Some fl" "commit_bounds ms db fl"
    and "planned_writes srt ms db = Some ws" "partial_writes ws' ws"
    and "good_snapshot (ds_file db) c0 root" "snapshot_within (in_use fl) (ds_file db) root"
    and "\<forall>n < 80. in_use fl n" "80 \<le> length (ds_file db)"
  shows "read_at (write_blocks ws' (ds_file db)) 0 80 = read_at (ds_file db) 0 80
    \<and> disk_snapshot (write_blocks ws' (ds_file db)) root = disk_snapshot (ds_file db) root"
  using interrupted_commit [OF assms] by blast

lemma initial_in_use: "in_use initial_free_list n \<longleftrightarrow> n < 240"
  by (auto simp: in_use_def fl_space_def covers_def ref_covers_def initial_free_list_def)

lemma within_initial: "unat (ref_offset r) + unat (ref_size r) \<le> 240 \<Longrightarrow> within (in_use initial_free_list) r"
  by (auto simp: within_def initial_in_use ref_covers_def split: if_splits)

lemma initial_snapshot_within:
  "snapshot_within (in_use initial_free_list) Database_InitializeDatabaseFile \<lparr>ref_offset = 80, ref_size = 40\<rparr>"
  "good_snapshot Database_InitializeDatabaseFile 1 \<lparr>ref_offset = 80, ref_size = 40\<rparr>"
proof -
  let ?P = "in_use initial_free_list" and ?F = Database_InitializeDatabaseFile
  have "cluster_within ?P ?F \<lparr>ref_offset = 160, ref_size = 40\<rparr>"
    using initial_file_blocks(3) within_initial by (auto simp: disk_within_def)
  then have "segment_within ?P ?F \<lparr>ref_offset = 120, ref_size = 40\<rparr>"
    using initial_file_blocks(2) within_initial unfolding disk_within_def [of ?P ?F "cluster_within ?P ?F"] by auto
  then show "snapshot_within ?P ?F \<lparr>ref_offset = 80, ref_size = 40\<rparr>"
    using initial_file_blocks(1) within_initial unfolding disk_within_def [of ?P ?F "segment_within ?P ?F"] by auto
  show "good_snapshot ?F 1 \<lparr>ref_offset = 80, ref_size = 40\<rparr>"
    using initial_file_blocks(1) initial_file_tree(2) unfolding good_table_def [of ?F 1 "good_segment ?F 1"]
    by (auto simp: fm_sorted_def)
qed

lemma sample_segment_bounds: "commit_bounds sample_segment (file_store empty_header) initial_free_list"
proof -
  have "commit_room (file_store empty_header) initial_free_list sample_segment_state"
    by (simp add: commit_room_def fl_room_def ref_ok_def sample_segment_state_def file_heap_def file_snapshot_def
        initial_free_list_def init_defs Let_def Blob_CalculateRequiredSize_def Cluster_CalculateRequiredSize_def
        Segment_CalculateRequiredSize_def Snapshot_CalculateRequiredSize_def table_required_size_def blob_table_def
        cluster_table_def segment_table_def FreeList_EstimateRequiredSize_def FreeList_CalculateRequiredSize_def
        Snapshot_copy_def Blob_new_def)
  moreover have "small_tables (cs_heap sample_segment_state) (cs_snapshot sample_segment_state)"
    by (simp add: small_tables_def sample_segment_state_def file_store_defs init_defs Snapshot_copy_def Let_def Blob_new_def)
  ultimately show ?thesis
    unfolding commit_bounds_def sample_initial_delta
    by (simp add: sample_segment_applied [simplified] ref_ok_def initial_free_list_def)
qed

text \<open>The locations and sizes of the five blocks the sample commit writes.\<close>

lemma sample_segment_writes:
  "map_option (map (\<lambda>w. (fst w, length (snd w)))) (planned_writes (sort_key ref_offset) sample_segment (file_store empty_header))
   = Some [(\<lparr>ref_offset = 240, ref_size = 56\<rparr>, 56), (\<lparr>ref_offset = 296, ref_size = 10\<rparr>, 10),
     (\<lparr>ref_offset = 306, ref_size = 40\<rparr>, 40), (\<lparr>ref_offset = 346, ref_size = 40\<rparr>, 40),
     (\<lparr>ref_offset = 386, ref_size = 64\<rparr>, 64)]"
proof -
  let ?h = "cs_heap sample_segment_state" and ?sn = "cs_snapshot sample_segment_state"
  let ?fl = initial_free_list
  have "planned_writes (sort_key ref_offset) sample_segment (file_store empty_header) = do {
      (delta, locs, fl) \<leftarrow> FreeList_AllocateAndApplyDelta (sort_key ref_offset) (block_required_size ?h ?sn ?fl) FreeListBlock
        (the (cs_delta sample_segment_state)) (block_location ?h file_snapshot ?sn ?fl) ?fl;
      block_writes (set_locations locs ?h) (?sn\<lparr>sn_fileLocation := locs (SnapshotBlock (sn_commitId ?sn))\<rparr>) fl (md_allocated delta) [] }"
    using sample_initial_delta sample_segment_applied
    by (simp add: planned_writes_def Database_CalculateCommitResult_def commit_state_def Let_def
        sample_segment_state_def [THEN arg_cong [where f = cs_delta]] case_prod_unfold)
  moreover have "map_option (map (\<lambda>w. (fst w, length (snd w)))) (do {
      (delta, locs, fl) \<leftarrow> FreeList_AllocateAndApplyDelta (sort_key ref_offset) (block_required_size ?h ?sn ?fl) FreeListBlock
        (the (cs_delta sample_segment_state)) (block_location ?h file_snapshot ?sn ?fl) ?fl;
      block_writes (set_locations locs ?h) (?sn\<lparr>sn_fileLocation := locs (SnapshotBlock (sn_commitId ?sn))\<rparr>) fl (md_allocated delta) [] })
   = Some [(\<lparr>ref_offset = 240, ref_size = 56\<rparr>, 56), (\<lparr>ref_offset = 296, ref_size = 10\<rparr>, 10),
     (\<lparr>ref_offset = 306, ref_size = 40\<rparr>, 40), (\<lparr>ref_offset = 346, ref_size = 40\<rparr>, 40),
     (\<lparr>ref_offset = 386, ref_size = 64\<rparr>, 64)]"
    by code_simp
  ultimately show ?thesis by (simp only:)
qed

theorem interrupted_commit_keeps_root_witness:
  "\<exists>ws. planned_writes (sort_key ref_offset) sample_segment (file_store empty_header) = Some ws \<and> length ws = 5
     \<and> disk_snapshot (write_blocks (take 3 ws) Database_InitializeDatabaseFile) \<lparr>ref_offset = 80, ref_size = 40\<rparr>
       = Some initial_view"
proof -
  obtain ws where ws: "planned_writes (sort_key ref_offset) sample_segment (file_store empty_header) = Some ws" "length ws = 5"
    using sample_segment_writes by (auto dest!: arg_cong [where f = length])
  have "partial_writes (take 3 ws) ws"
    unfolding partial_writes_def by (metis in_set_takeD take_all_iff order_refl)
  from interrupted_commit_keeps_root [OF std_sort_stable file_store_simps(4) sample_segment_bounds ws(1) this,
      unfolded file_store_simps(5), OF initial_snapshot_within(2,1)]
  show ?thesis
    using ws length_initial_file initial_file_tree(1) by (auto simp: initial_in_use)
qed

end
