(* ===== verification/Storage_Properties.thy ===== *)
theory Storage_Properties
  imports Initial_Database
begin

text \<open>
  The properties of the containers, the file format, the free list and the file access, with concrete
  inputs for their hypotheses.
\<close>

section \<open>Sorted maps\<close>

text \<open>The binary search of the sorted map finds the same position as a linear search for the first
  entry that is not below the key, and every entry before that position is below it.\<close>

theorem lower_bound_is_linear_search:
  assumes "fm_sorted m"
  shows "lower_bound m key = length (takeWhile (\<lambda>e. fst e < key) m)
    \<and> (\<forall>i < length m. fst (m ! i) < key \<longleftrightarrow> i < lower_bound m key)"
  using assms lower_bound_spec_less [of _ m key] lower_bound_spec_ge [OF assms, of key]
  by (auto simp: lower_bound_correct lower_bound_spec_def not_less) (meson linorder_not_less)

theorem lower_bound_is_linear_search_witness:
  "lower_bound [(1 :: nat, ''a''), (4, ''b''), (6, ''c'')] 5 = 2"
  using lower_bound_is_linear_search [of "[(1 :: nat, ''a''), (4, ''b''), (6, ''c'')]" 5] by simp

text \<open>Inserting into and erasing from the sorted vector behaves as on a finite map, and the vector stays
  sorted without duplicate keys.\<close>

theorem sorted_flat_map_is_map:
  assumes "fm_sorted m"
  shows "fm_lookup (fm_assign m k v) = (fm_lookup m)(k \<mapsto> v)
    \<and> fm_lookup (fm_delete m k) = (fm_lookup m)(k := None)
    \<and> fm_sorted (fm_assign m k v) \<and> fm_sorted (fm_delete m k)
    \<and> (\<forall>j w. (j, w) \<in> set m \<longleftrightarrow> fm_lookup m j = Some w)"
  using assms sfm.in_entries_iff [OF assms]
  by (simp add: sfm.lookup_assign sfm.lookup_delete sfm.invar_assign sfm.invar_delete)

theorem sorted_flat_map_is_map_witness:
  "fm_lookup (fm_assign [(1 :: nat, ''a''), (4, ''b'')] 3 ''c'') 3 = Some ''c''
     \<and> fm_lookup (fm_delete [(1 :: nat, ''a''), (4, ''b'')] 4) 4 = None"
  using sorted_flat_map_is_map [of "[(1 :: nat, ''a''), (4, ''b'')]"] by simp

section \<open>Block formats\<close>

text \<open>C38: a table block written by \<open>SerializeIntoBuffer\<close> of a snapshot, segment or cluster passes both
  size assertions, fills its block exactly, whatever the reused buffer held before, and is read
  back by \<open>LoadFrom\<close> with the same commit id, next free id and entries in the same order.\<close>

theorem table_block_roundtrip:
  assumes "length entries < 2 ^ 32" "blockSize = table_required_size entries"
  shows "\<exists>buf. serialize_table commitId nextFreeId ownId entries blockSize old = Some buf
           \<and> length buf = blockSize \<and> load_table buf = Some (commitId, nextFreeId, entries)"
  using assms by (rule serialize_table_roundtrip)

definition sample_table :: table where
  "sample_table = [(3, \<lparr>ref_offset = 80, ref_size = 40\<rparr>), (4, \<lparr>ref_offset = 120, ref_size = 8\<rparr>),
     (9, \<lparr>ref_offset = 128, ref_size = 300\<rparr>)]"

theorem table_block_roundtrip_witness:
  "\<exists>buf. serialize_table 17 10 (Some 2) sample_table 80 [1, 2, 3] = Some buf
     \<and> length buf = 80 \<and> load_table buf = Some (17, 10, sample_table)"
  using table_block_roundtrip [of sample_table 80 17 10 "Some 2" "[1, 2, 3]"]
  by (simp add: sample_table_def table_required_size_def)

text \<open>Blob and free list blocks are read back as they were written; the block of a free list may be
  larger than its entries need.\<close>

theorem blob_and_free_list_roundtrip:
  assumes "16 + 16 * length fs \<le> blockSize" "length fs < 2 ^ 60"
  shows "(\<exists>buf. serialize_blob commitId content (8 + length content) old = Some buf
           \<and> length buf = 8 + length content \<and> load_blob buf = Some (commitId, content))
    \<and> (\<exists>buf. serialize_free_list endOffset fs blockSize old = Some buf
           \<and> length buf = blockSize \<and> load_free_list buf = Some (endOffset, fs))"
  using serialize_blob_roundtrip [OF refl] serialize_free_list_roundtrip [OF assms] by blast

theorem blob_and_free_list_roundtrip_witness:
  "\<exists>buf. serialize_free_list 1024 [\<lparr>ref_offset = 240, ref_size = 784\<rparr>] 48 [] = Some buf
     \<and> load_free_list buf = Some (1024, [\<lparr>ref_offset = 240, ref_size = 784\<rparr>])"
  using blob_and_free_list_roundtrip [of "[\<lparr>ref_offset = 240, ref_size = 784\<rparr>]" 48 0 "[]" "[]" 1024] by auto

text \<open>The file header is read back as it was written, and switching the root keeps it well formed, keeps
  the root that was in use and makes the new locations the current root.\<close>

theorem header_root_switch:
  assumes "header_wf h"
  shows "header_of (header_bytes h @ rest) = h
    \<and> header_wf (flip_root h s f)
    \<and> hdr_roots (flip_root h s f) ! unat (hdr_rootIndex (flip_root h s f)) = \<lparr>root_snapshot = s, root_freeList = f\<rparr>
    \<and> hdr_rootIndex (flip_root h s f) \<noteq> hdr_rootIndex h
    \<and> hdr_roots (flip_root h s f) ! unat (hdr_rootIndex h) = hdr_roots h ! unat (hdr_rootIndex h)"
proof -
  have "hdr_rootIndex h = 0 \<or> hdr_rootIndex h = 1"
  proof -
    have "unat (hdr_rootIndex h) < 2" using assms by (simp add: header_wf_def word_less_nat_alt)
    then have "unat (hdr_rootIndex h) = unat (0 :: byte) \<or> unat (hdr_rootIndex h) = unat (1 :: byte)" by auto
    then show ?thesis by (simp only: unat_arith_simps(3))
  qed
  then show ?thesis
    using assms header_roundtrip [OF assms, of rest] by (auto simp: flip_root_def header_wf_def Let_def)
qed

theorem header_root_switch_witness:
  "hdr_roots (flip_root (Header_Initialize empty_header) \<lparr>ref_offset = 240, ref_size = 56\<rparr> no_location) ! 1
     = \<lparr>root_snapshot = \<lparr>ref_offset = 240, ref_size = 56\<rparr>, root_freeList = no_location\<rparr>"
proof -
  have "header_wf (Header_Initialize empty_header)"
    by (simp add: header_wf_def Header_Initialize_def typeId_bytes_def empty_header_def)
  from header_root_switch [OF this, of "[]" "\<lparr>ref_offset = 240, ref_size = 56\<rparr>" no_location]
  show ?thesis by (simp add: flip_root_def Header_Initialize_def empty_header_def Let_def)
qed

section \<open>The free list\<close>

text \<open>C36: an allocation takes the block it returns out of the free space and nothing else: every byte of the
  file is afterwards free exactly when it was free before and is not part of the block, and the number of
  entries does not grow.\<close>

theorem allocation_takes_free_space:
  assumes "fl_room fl (unat sz + m)" "FreeList_AllocateMemoryBlock sz fl = (off, fl')"
  shows "(\<forall>n. fl_space fl n = ref_covers \<lparr>ref_offset = off, ref_size = sz\<rparr> n + fl_space fl' n)
    \<and> fl_room fl' m \<and> length (fl_blocks fl') = length (fl_blocks fl)"
  using AllocateMemoryBlock_spec [OF assms] by blast

theorem allocation_takes_free_space_witness:
  "fl_space initial_free_list 240 = 1
     \<and> fl_space (snd (FreeList_AllocateMemoryBlock 56 initial_free_list)) 240 = 0"
proof -
  have "fl_room initial_free_list (unat (56 :: uint64_t) + 0)"
    by (simp add: fl_room_def initial_free_list_def ref_ok_def)
  moreover have "FreeList_AllocateMemoryBlock 56 initial_free_list
      = (240, initial_free_list\<lparr>fl_blocks := [\<lparr>ref_offset = 296, ref_size = 728\<rparr>]\<rparr>)"
    by (simp add: FreeList_AllocateMemoryBlock_def initial_free_list_def)
  ultimately show ?thesis
    using allocation_takes_free_space [of initial_free_list 56 0]
    by (auto simp: fl_space_def covers_def ref_covers_def initial_free_list_def)
qed


definition sample_free_list :: FreeList where
  "sample_free_list = \<lparr>fl_endOffset = 500,
     fl_blocks = [\<lparr>ref_offset = 300, ref_size = 50\<rparr>, \<lparr>ref_offset = 100, ref_size = 20\<rparr>, \<lparr>ref_offset = 120, ref_size = 30\<rparr>],
     fl_fileLocation = no_location\<rparr>"


section \<open>File access\<close>

text \<open>\<open>ReadIntoMemory\<close> delivers all the requested bytes from the file position, in however many pieces the
  system reads them, whenever the file is long enough, and \<open>WriteFromMemory\<close> writes the whole buffer.\<close>

theorem file_access_complete:
  assumes "ReadFile_spec ReadFile content pos" "pos h + n \<le> length content"
    and "WriteFile_spec WriteFile content' pos'"
  shows "(\<exists>h'. FileBackend_ReadIntoMemory ReadFile h n = Some (h', Some (take n (drop (pos h) content)))
        \<and> pos h' = pos h + n)
    \<and> (\<exists>g'. FileBackend_WriteFromMemory WriteFile g bs = Some (g', True)
        \<and> (bs \<noteq> [] \<longrightarrow> content' g' = overwrite (content' g) (pos' g) bs))"
  using FileBackend_ReadIntoMemory_complete [OF assms(1,2)] FileBackend_WriteFromMemory_complete [OF assms(3), of g bs]
  by blast

text \<open>A system that reads and writes at most three bytes at a time.\<close>

definition sample_ReadFile :: "byte list \<Rightarrow> nat ReadFile" where
  "sample_ReadFile content h n =
     (let bs = take (min n 3) (drop h content) in Some (h + length bs, bs))"

definition sample_WriteFile :: "(byte list \<times> nat) WriteFile" where
  "sample_WriteFile = (\<lambda>(content, pos) bs. let k = min 3 (length bs) in
     Some ((overwrite content pos (take k bs), pos + k), k))"

lemma sample_ReadFile_spec: "ReadFile_spec (sample_ReadFile content) content (\<lambda>h. h)"
  unfolding ReadFile_spec_def
  by (auto simp: sample_ReadFile_def Let_def intro!: exI [where x = "min n 3" for n])

lemma sample_WriteFile_spec: "WriteFile_spec sample_WriteFile fst snd"
  unfolding WriteFile_spec_def by (auto simp: sample_WriteFile_def Let_def)

theorem file_access_complete_witness:
  "\<exists>h' g'. FileBackend_ReadIntoMemory (sample_ReadFile [1, 2, 3, 4, 5, 6]) 1 4 = Some (h', Some [2, 3, 4, 5])
     \<and> FileBackend_WriteFromMemory sample_WriteFile ([9, 9], 1) [1, 2, 3, 4] = Some (g', True)
     \<and> fst g' = [9, 1, 2, 3, 4]"
  using file_access_complete [OF sample_ReadFile_spec [of "[1, 2, 3, 4, 5, 6]"] _ sample_WriteFile_spec, of 1 4 "([9, 9], 1)" "[1, 2, 3, 4]"]
  by (auto simp: overwrite_def numeral_eq_Suc)

text \<open>Reading a block beyond the end of a truncated file never returns: the system keeps reporting success
  with no bytes, which the loop does not notice.\<close>

theorem truncated_file_read_diverges:
  assumes "ReadFile_spec ReadFile content pos" "length content < pos h + n" "pos h \<le> length content"
  shows "FileBackend_ReadIntoMemory ReadFile h n = None"
  using assms by (rule FileBackend_ReadIntoMemory_diverges)

theorem truncated_file_read_diverges_witness:
  "FileBackend_ReadIntoMemory (sample_ReadFile [1, 2, 3]) 1 4 = None"
  by (rule truncated_file_read_diverges [OF sample_ReadFile_spec]) simp_all

section \<open>Creating databases\<close>

text \<open>C39: opening a new database file writes an initial file, and reading that file back yields a database that
  satisfies the invariant and has the content of a new database in memory: one segment with one
  cluster with one empty blob.\<close>

theorem new_file_database:
  assumes "createFile (convertDbOpenMode openMode) = (True, ERROR_SUCCESS, [])" "openMode \<noteq> OpenFailIfNotExist"
  shows "\<exists>db mem. Database_LoadFromFile createFile openMode = (OPEN_SUCCESS, Some db) \<and> store_ok db
    \<and> Database_InitializeInMemory = Some mem \<and> store_ok mem
    \<and> snapshot_view (ds_file db) (ds_heap db) (ds_snapshot db) = snapshot_view (ds_file mem) (ds_heap mem) (ds_snapshot mem)"
proof -
  obtain hdr where hdr: "Database_ReadInitialFileDatabaseData Database_InitializeDatabaseFile = Some (file_store hdr)"
    using read_initial_file by blast
  have "overwrite [] 0 Database_InitializeDatabaseFile = Database_InitializeDatabaseFile"
    by (simp add: overwrite_def)
  then have "Database_LoadFromFile createFile openMode = (OPEN_SUCCESS, Some (file_store hdr))"
    using assms hdr by (cases openMode) (simp_all add: Database_LoadFromFile_def FileBackend_OpenExclusive_def)
  then show ?thesis
    using initialize_in_memory memory_store_ok memory_store_view file_store_ok [of hdr] file_store_view [of hdr] by auto
qed

theorem new_file_database_witness:
  "\<exists>db. Database_LoadFromFile (\<lambda>d. (True, ERROR_SUCCESS, [])) CreateIfNotExist = (OPEN_SUCCESS, Some db) \<and> store_ok db"
  using new_file_database [of "\<lambda>d. (True, ERROR_SUCCESS, [])" CreateIfNotExist] by auto

end
