(* ===== verification/Lock.thy ===== *)
theory Lock
  imports Blob_Location
begin

text \<open>
  ServerLib/Lock.cpp: one lock object, held for reading by any number of clients or for
  writing by one. Locks of clients outside a transaction are sticky and may be taken away;
  the class reaches the rest of the server only through \<open>StickyLockInterface\<close>, which here is
  the pair of a query \<open>canRevoke\<close> and an effect \<open>revoke\<close> on the caller's state.
\<close>

section \<open>Model\<close>

record Lock =
  lock_location :: BlobLocation
  lock_read :: "client_id list"
  lock_write :: "client_id option"

definition Lock_empty :: "BlobLocation \<Rightarrow> Lock" where [lock_defs]:
  "Lock_empty location = \<lparr>lock_location = location, lock_read = [], lock_write = None\<rparr>"

definition Lock_new :: "BlobLocation \<Rightarrow> client_id \<Rightarrow> bool \<Rightarrow> Lock" where [lock_defs]:
  "Lock_new location client writeLock =
     (if writeLock
      then (Lock_empty location)\<lparr>lock_write := Some client\<rparr>
      else (Lock_empty location)\<lparr>lock_read := [client]\<rparr>)"

definition Lock_CanAcquire :: "(client_id \<Rightarrow> bool) \<Rightarrow> Lock \<Rightarrow> client_id \<Rightarrow> bool \<Rightarrow> bool" where
  "Lock_CanAcquire canRevoke l client writeLock =
     (if \<not> writeLock
      then (case lock_write l of None \<Rightarrow> True | Some w \<Rightarrow> w = client \<or> canRevoke w)
      else (case lock_write l of
              Some w \<Rightarrow> w = client \<or> canRevoke w
            | None \<Rightarrow> list_all (\<lambda>c. c = client \<or> canRevoke c) (lock_read l)))"

definition Lock_CollectConflictingClients ::
  "(client_id \<Rightarrow> bool) \<Rightarrow> Lock \<Rightarrow> client_id \<Rightarrow> bool \<Rightarrow> client_id list" where
  "Lock_CollectConflictingClients canRevoke l client writeLock =
     (if \<not> writeLock
      then (case lock_write l of
              None \<Rightarrow> []
            | Some w \<Rightarrow> if w \<noteq> client \<and> \<not> canRevoke w then [w] else [])
      else (case lock_write l of
              Some w \<Rightarrow> if w \<noteq> client \<and> \<not> canRevoke w then [w] else []
            | None \<Rightarrow> filter (\<lambda>c. c \<noteq> client \<and> \<not> canRevoke c) (lock_read l)))"

text \<open>\<open>Acquire\<close> mutates the lock and calls back into the sticky lock interface; the caller's
  state is threaded through.\<close>

definition Lock_Acquire ::
  "('s \<Rightarrow> client_id \<Rightarrow> BlobLocation \<Rightarrow> 's) \<Rightarrow> Lock \<Rightarrow> client_id \<Rightarrow> bool \<Rightarrow> 's \<Rightarrow> Lock \<times> 's" where
  "Lock_Acquire revoke l client writeLock s =
     (if writeLock then
        let s' = (case lock_write l of
                    Some w \<Rightarrow> if w \<noteq> client then revoke s w (lock_location l)
                              else fold (\<lambda>c s. if c \<noteq> client then revoke s c (lock_location l) else s)
                                     (lock_read l) s
                  | None \<Rightarrow> fold (\<lambda>c s. if c \<noteq> client then revoke s c (lock_location l) else s)
                              (lock_read l) s)
        in (l\<lparr>lock_write := Some client, lock_read := []\<rparr>, s')
      else if lock_write l = Some client then (l, s)
      else
        let (l', s') = (case lock_write l of
                          Some w \<Rightarrow> (l\<lparr>lock_write := None\<rparr>, revoke s w (lock_location l))
                        | None \<Rightarrow> (l, s))
        in (if client \<in> set (lock_read l') then l' else l'\<lparr>lock_read := lock_read l' @ [client]\<rparr>, s'))"

text \<open>\<open>Release\<close> returns whether the lock is free afterwards; releasing a lock that another
  client holds for writing is the failed assertion, the value \<open>None\<close>.\<close>

definition Lock_Release :: "Lock \<Rightarrow> client_id \<Rightarrow> (bool \<times> Lock) option" where
  "Lock_Release l client =
     (case lock_write l of
        Some w \<Rightarrow> if w = client then Some (True, l\<lparr>lock_write := None\<rparr>) else None
      | None \<Rightarrow> let r = removeAll client (lock_read l)
                in Some (r = [], l\<lparr>lock_read := r\<rparr>))"

definition Lock_OwnsWriteLock :: "Lock \<Rightarrow> client_id \<Rightarrow> bool" where
  "Lock_OwnsWriteLock l client = (lock_write l = Some client)"

section \<open>Well-formed locks and their holders\<close>

definition lock_wf :: "Lock \<Rightarrow> bool" where
  "lock_wf l = (distinct (lock_read l) \<and> (lock_write l \<noteq> None \<longrightarrow> lock_read l = []))"

definition lock_holders :: "Lock \<Rightarrow> client_id list" where
  "lock_holders l = (case lock_write l of Some w \<Rightarrow> [w] | None \<Rightarrow> lock_read l)"

definition lock_held :: "Lock \<Rightarrow> bool" where
  "lock_held l = (lock_holders l \<noteq> [])"

text \<open>A lock grants a client an access: the write holder may do both, a reader may read.\<close>

definition lock_grants :: "Lock \<Rightarrow> client_id \<Rightarrow> bool \<Rightarrow> bool" where
  "lock_grants l client writeLock =
     (lock_write l = Some client \<or> \<not> writeLock \<and> client \<in> set (lock_read l))"

lemma lock_wf_new [simp]: "lock_wf (Lock_new loc c w)"
  by (simp add: lock_wf_def lock_defs)

lemma lock_held_new [simp]: "lock_held (Lock_new loc c w)"
  by (simp add: lock_held_def lock_holders_def lock_defs)

lemma lock_grants_new [simp]: "lock_grants (Lock_new loc c w) c w"
  by (simp add: lock_grants_def lock_defs)

lemma lock_location_new [simp]: "lock_location (Lock_new loc c w) = loc"
  by (simp add: lock_defs)

lemma lock_wf_grants_write:
  "lock_wf l \<Longrightarrow> lock_grants l c True \<Longrightarrow> lock_grants l d w \<Longrightarrow> d = c"
  by (auto simp: lock_wf_def lock_grants_def)

lemma lock_location_Acquire [simp]:
  "lock_location (fst (Lock_Acquire revoke l client w s)) = lock_location l"
  by (auto simp: Lock_Acquire_def Let_def split: option.splits)

lemma lock_wf_Acquire: "lock_wf l \<Longrightarrow> lock_wf (fst (Lock_Acquire revoke l client w s))"
  by (auto simp: Lock_Acquire_def lock_wf_def Let_def split: option.splits)

lemma lock_grants_Acquire [simp]: "lock_grants (fst (Lock_Acquire revoke l client w s)) client w"
  by (auto simp: Lock_Acquire_def lock_grants_def Let_def split: option.splits)

lemma lock_held_grants: "lock_grants l c w \<Longrightarrow> lock_wf l \<Longrightarrow> lock_held l"
  by (auto simp: lock_grants_def lock_held_def lock_holders_def lock_wf_def split: option.splits)

text \<open>The conflict list used for deadlock detection is empty exactly when the lock can be
  acquired.\<close>

lemma CanAcquire_iff_no_conflicts:
  "Lock_CanAcquire canRevoke l client w \<longleftrightarrow>
     Lock_CollectConflictingClients canRevoke l client w = []"
  by (auto simp: Lock_CanAcquire_def Lock_CollectConflictingClients_def filter_empty_conv
      list_all_iff split: option.splits)

lemma conflicting_clients_held:
  "d \<in> set (Lock_CollectConflictingClients canRevoke l client w) \<longleftrightarrow>
     d \<noteq> client \<and> \<not> canRevoke d \<and>
     (lock_write l = Some d \<or> w \<and> lock_write l = None \<and> d \<in> set (lock_read l))"
  by (auto simp: Lock_CollectConflictingClients_def split: option.splits)

text \<open>A client that cannot be revoked keeps every access it has, whoever acquires the lock.\<close>

lemma Acquire_keeps_active:
  assumes "Lock_CanAcquire canRevoke l client w" "lock_wf l"
    and "\<not> canRevoke d" "lock_grants l d v"
  shows "lock_grants (fst (Lock_Acquire revoke l client w s)) d v"
proof (cases "d = client")
  case True
  with assms show ?thesis
    by (auto simp: Lock_Acquire_def lock_grants_def Let_def split: option.splits)
next
  case False
  with assms show ?thesis
    by (auto simp: Lock_CanAcquire_def Lock_Acquire_def lock_grants_def Let_def list_all_iff lock_wf_def
        split: option.splits if_splits)
qed

lemma Acquire_grants_only:
  assumes "lock_grants (fst (Lock_Acquire revoke l client w s)) d v" "d \<noteq> client"
  shows "\<not> w \<and> lock_grants l d v"
  using assms
  by (auto simp: Lock_Acquire_def lock_grants_def Let_def split: option.splits if_splits)

text \<open>The clients whose lock is taken away are exactly the ones the interface is told about.\<close>

definition lock_lost :: "Lock \<Rightarrow> client_id \<Rightarrow> bool \<Rightarrow> client_id list" where
  "lock_lost l client w =
     (if w then filter (\<lambda>c. c \<noteq> client) (lock_holders l)
      else (case lock_write l of Some d \<Rightarrow> if d \<noteq> client then [d] else [] | None \<Rightarrow> []))"

lemma fold_skip:
  "fold (\<lambda>c s. if P c then f s c else s) xs s = fold (\<lambda>c s. f s c) (filter P xs) s"
  by (induction xs arbitrary: s) auto

lemma Acquire_revokes:
  assumes "lock_wf l"
  shows "snd (Lock_Acquire revoke l client w s)
           = fold (\<lambda>c s. revoke s c (lock_location l)) (lock_lost l client w) s"
  using assms
  by (auto simp: Lock_Acquire_def lock_lost_def lock_holders_def lock_wf_def Let_def fold_skip
      split: option.splits)

lemma Acquire_lost_iff:
  assumes "lock_wf l"
  shows "c \<in> set (lock_lost l client w) \<longleftrightarrow>
           c \<in> set (lock_holders l) \<and>
           c \<notin> set (lock_holders (fst (Lock_Acquire revoke l client w s)))"
  using assms
  by (auto simp: Lock_Acquire_def lock_lost_def lock_holders_def lock_wf_def Let_def
      split: option.splits if_splits)

lemma lock_lost_revokable:
  "Lock_CanAcquire canRevoke l client w \<Longrightarrow> c \<in> set (lock_lost l client w) \<Longrightarrow> canRevoke c"
  by (auto simp: Lock_CanAcquire_def lock_lost_def lock_holders_def list_all_iff
      split: option.splits if_splits)

lemma Release_spec:
  assumes "lock_wf l" "c \<in> set (lock_holders l)"
  shows "\<exists>l'. Lock_Release l c = Some (\<not> lock_held l', l') \<and> lock_wf l'
           \<and> lock_location l' = lock_location l
           \<and> set (lock_holders l') = set (lock_holders l) - {c}
           \<and> (\<forall>d v. lock_grants l' d v \<longleftrightarrow> d \<noteq> c \<and> lock_grants l d v)"
  using assms
  by (auto simp: Lock_Release_def lock_held_def lock_holders_def lock_wf_def lock_grants_def Let_def
      distinct_removeAll split: option.splits)

end
