(* ===== verification/Lock_Util.thy ===== *)
theory Lock_Util
  imports Blob_Location
begin

text \<open>
  ServerLib/include/server/LockUtil.hpp: which locations have to be locked to access a given
  one. Deleting a cluster or a segment requires every lock below it, creating something
  requires the lock of the list it will appear in. The templates take the database to look
  up the clusters of a segment and the blobs of a cluster; \<open>db_view\<close> is that part of it. A
  missing segment or cluster is the assertion of the source and has the value \<open>None\<close>.
\<close>

section \<open>Model\<close>

record db_view =
  view_segment :: "segment_id \<Rightarrow> cluster_id list option"
  view_cluster :: "segment_id \<Rightarrow> cluster_id \<Rightarrow> blob_id list option"

abbreviation SegmentListLocation :: BlobLocation where
  "SegmentListLocation \<equiv> BlobLocation SegmentListId ClusterListId BlobListId"

text \<open>Locations visited for one cluster of a segment that is being deleted.\<close>

definition segment_cluster_locks ::
  "db_view \<Rightarrow> segment_id \<Rightarrow> cluster_id \<Rightarrow> BlobLocation list option" where
  "segment_cluster_locks db seg c =
     (case view_cluster db seg c of
        None \<Rightarrow> None
      | Some blobs \<Rightarrow> Some ([BlobLocation seg c ClusterDeleteId, BlobLocation seg c NextFreeBlobId,
                            BlobLocation seg c BlobListId] @ map (BlobLocation seg c) blobs))"

fun concat_locks :: "BlobLocation list option list \<Rightarrow> BlobLocation list option" where
  "concat_locks [] = Some []"
| "concat_locks (None # xs) = None"
| "concat_locks (Some ys # xs) =
     (case concat_locks xs of None \<Rightarrow> None | Some zs \<Rightarrow> Some (ys @ zs))"

text \<open>\<open>ForEachLockForLocation\<close>: the sequence of locations the action is run on.\<close>

definition ForEachLockForLocation :: "db_view \<Rightarrow> BlobLocation \<Rightarrow> BlobLocation list option" where
  "ForEachLockForLocation db location =
     (let seg = segment location; cl = cluster location in
      if blob location = ClusterDeleteId then
        (if cl = SegmentDeleteId then
           (case view_segment db seg of
              None \<Rightarrow> None
            | Some clusters \<Rightarrow>
                map_option (\<lambda>rest. [location, BlobLocation seg NextFreeClusterId NextFreeBlobId,
                                    BlobLocation seg ClusterListId BlobListId, SegmentListLocation] @ rest)
                  (concat_locks (map (segment_cluster_locks db seg) clusters)))
         else
           (case view_cluster db seg cl of
              None \<Rightarrow> None
            | Some blobs \<Rightarrow>
                Some ([location, BlobLocation seg cl NextFreeBlobId, BlobLocation seg cl BlobListId,
                       BlobLocation seg ClusterListId BlobListId] @ map (BlobLocation seg cl) blobs)))
      else if blob location = NextFreeBlobId then
        (if cl = NextFreeClusterId then
           (if seg = NextFreeSegmentId then Some [location, SegmentListLocation]
            else Some [location, BlobLocation seg ClusterListId BlobListId])
         else Some [location, BlobLocation seg cl BlobListId])
      else Some [location])"

text \<open>\<open>AllLocksForLocation\<close>: the predicate may have side effects (it marks created blobs during
  commit validation), so its state is threaded and evaluation stops at the first failure.\<close>

fun all_locs :: "('s \<Rightarrow> BlobLocation \<Rightarrow> bool \<times> 's) \<Rightarrow> BlobLocation list \<Rightarrow> 's \<Rightarrow> bool \<times> 's" where
  "all_locs predicate [] s = (True, s)"
| "all_locs predicate (l # ls) s =
     (case predicate s l of (ok, s') \<Rightarrow> if \<not> ok then (False, s') else all_locs predicate ls s')"

fun all_clusters ::
  "db_view \<Rightarrow> segment_id \<Rightarrow> ('s \<Rightarrow> BlobLocation \<Rightarrow> bool \<times> 's) \<Rightarrow> cluster_id list \<Rightarrow> 's \<Rightarrow> (bool \<times> 's) option"
where
  "all_clusters db seg predicate [] s = Some (True, s)"
| "all_clusters db seg predicate (c # cs) s =
     (case view_cluster db seg c of
        None \<Rightarrow> None
      | Some blobs \<Rightarrow>
          (case all_locs predicate
                  ([BlobLocation seg c ClusterDeleteId, BlobLocation seg c NextFreeBlobId,
                    BlobLocation seg c BlobListId] @ map (BlobLocation seg c) blobs) s of
             (False, s') \<Rightarrow> Some (False, s')
           | (True, s') \<Rightarrow> all_clusters db seg predicate cs s'))"

text \<open>The arguments \<open>createdSegment\<close> and \<open>createdCluster\<close> are the queries of the optional
  \<open>createdBlobs\<close> ranges; both are constantly false when the pointer is null.\<close>

definition AllLocksForLocation ::
  "db_view \<Rightarrow> (segment_id \<Rightarrow> bool) \<Rightarrow> (segment_id \<Rightarrow> cluster_id \<Rightarrow> bool) \<Rightarrow> BlobLocation
   \<Rightarrow> ('s \<Rightarrow> BlobLocation \<Rightarrow> bool \<times> 's) \<Rightarrow> 's \<Rightarrow> (bool \<times> 's) option" where
  "AllLocksForLocation db createdSegment createdCluster location predicate s =
     (let seg = segment location; cl = cluster location in
      if blob location = ClusterDeleteId then
        (if cl = SegmentDeleteId then
           (case view_segment db seg of
              None \<Rightarrow> if createdSegment seg then Some (True, s) else None
            | Some clusters \<Rightarrow>
                (case all_locs predicate
                        [location, BlobLocation seg NextFreeClusterId NextFreeBlobId,
                         BlobLocation seg ClusterListId BlobListId, SegmentListLocation] s of
                   (False, s') \<Rightarrow> Some (False, s')
                 | (True, s') \<Rightarrow> all_clusters db seg predicate clusters s'))
         else
           (case view_cluster db seg cl of
              None \<Rightarrow> if createdCluster seg cl then Some (True, s) else None
            | Some blobs \<Rightarrow>
                Some (all_locs predicate
                        ([location, BlobLocation seg cl NextFreeBlobId, BlobLocation seg cl BlobListId,
                          BlobLocation seg ClusterListId BlobListId] @ map (BlobLocation seg cl) blobs) s)))
      else if blob location = NextFreeBlobId then
        (if cl = NextFreeClusterId then
           (if seg = NextFreeSegmentId then Some (all_locs predicate [location, SegmentListLocation] s)
            else Some (all_locs predicate [location, BlobLocation seg ClusterListId BlobListId] s))
         else Some (all_locs predicate [location, BlobLocation seg cl BlobListId] s))
      else Some (all_locs predicate [location] s))"

fun ForEachLockInMessage :: "db_view \<Rightarrow> BlobLocation list \<Rightarrow> BlobLocation list option" where
  "ForEachLockInMessage db [] = Some []"
| "ForEachLockInMessage db (l # ls) =
     (case ForEachLockForLocation db l of
        None \<Rightarrow> None
      | Some xs \<Rightarrow> (case ForEachLockInMessage db ls of None \<Rightarrow> None | Some ys \<Rightarrow> Some (xs @ ys)))"

fun AllLocksInMessage ::
  "db_view \<Rightarrow> BlobLocation list \<Rightarrow> ('s \<Rightarrow> BlobLocation \<Rightarrow> bool \<times> 's) \<Rightarrow> 's \<Rightarrow> (bool \<times> 's) option" where
  "AllLocksInMessage db [] predicate s = Some (True, s)"
| "AllLocksInMessage db (l # ls) predicate s =
     (case AllLocksForLocation db (\<lambda>_. False) (\<lambda>_ _. False) l predicate s of
        None \<Rightarrow> None
      | Some (False, s') \<Rightarrow> Some (False, s')
      | Some (True, s') \<Rightarrow> AllLocksInMessage db ls predicate s')"

section \<open>The checking and the acting traversal visit the same locations\<close>

lemma all_locs_append:
  "all_locs p (xs @ ys) s =
     (case all_locs p xs s of (True, s') \<Rightarrow> all_locs p ys s' | (False, s') \<Rightarrow> (False, s'))"
  by (induction xs arbitrary: s) (auto split: prod.splits bool.splits)

lemma all_locs_pure:
  "all_locs (\<lambda>s l. (q l, s)) ls s = (list_all q ls, s)"
  by (induction ls) auto

lemma all_clusters_concat:
  "concat_locks (map (segment_cluster_locks db seg) cs) = Some ls \<Longrightarrow>
   all_clusters db seg p cs s = Some (all_locs p ls s)"
proof (induction cs arbitrary: ls s)
  case Nil
  then show ?case by simp
next
  case (Cons c cs)
  from Cons.prems obtain blobs rest where
    blobs: "view_cluster db seg c = Some blobs"
    and rest: "concat_locks (map (segment_cluster_locks db seg) cs) = Some rest"
    and ls: "ls = ([BlobLocation seg c ClusterDeleteId, BlobLocation seg c NextFreeBlobId,
                    BlobLocation seg c BlobListId] @ map (BlobLocation seg c) blobs) @ rest"
    by (auto simp: segment_cluster_locks_def [of db seg c] split: option.splits)
  show ?case
    unfolding ls all_clusters.simps blobs option.case all_locs_append
    using Cons.IH [OF rest] by (auto split: prod.splits bool.splits)
qed

lemma AllLocksForLocation_visits:
  assumes "ForEachLockForLocation db loc = Some ls"
  shows "AllLocksForLocation db cs cc loc p s = Some (all_locs p ls s)"
proof (cases "blob loc = ClusterDeleteId \<and> cluster loc = SegmentDeleteId")
  case True
  let ?hd = "[loc, BlobLocation (segment loc) NextFreeClusterId NextFreeBlobId,
              BlobLocation (segment loc) ClusterListId BlobListId, SegmentListLocation]"
  from True assms obtain clusters rest where
    cl: "view_segment db (segment loc) = Some clusters"
    and rest: "concat_locks (map (segment_cluster_locks db (segment loc)) clusters) = Some rest"
    and ls: "ls = ?hd @ rest"
    by (auto simp: ForEachLockForLocation_def Let_def split: option.splits)
  show ?thesis
    unfolding ls all_locs_append
    using True all_clusters_concat [OF rest]
    by (auto simp: AllLocksForLocation_def cl simp del: all_locs.simps split: prod.splits bool.splits)
next
  case False
  with assms show ?thesis
    by (auto simp: ForEachLockForLocation_def AllLocksForLocation_def Let_def simp del: all_locs.simps
        split: option.splits if_splits)
qed

lemma AllLocksInMessage_visits:
  "ForEachLockInMessage db locs = Some ls \<Longrightarrow>
   AllLocksInMessage db locs p s = Some (all_locs p ls s)"
proof (induction locs arbitrary: ls s)
  case Nil
  then show ?case by simp
next
  case (Cons l locs)
  from Cons.prems obtain xs ys where
    xs: "ForEachLockForLocation db l = Some xs" and ys: "ForEachLockInMessage db locs = Some ys"
    and ls: "ls = xs @ ys"
    by (auto split: option.splits)
  show ?case
    unfolding ls all_locs_append
    by (auto simp: AllLocksForLocation_visits [OF xs] Cons.IH [OF ys] split: prod.splits bool.splits)
qed

section \<open>What the traversal covers\<close>

lemma ForEachLockForLocation_self:
  "ForEachLockForLocation db loc = Some ls \<Longrightarrow> loc \<in> set ls"
  by (auto simp: ForEachLockForLocation_def Let_def split: option.splits if_splits)

lemma concat_locks_set:
  "concat_locks xs = Some ls \<Longrightarrow> set ls = (\<Union>ys \<in> {ys. Some ys \<in> set xs}. set ys)"
proof (induction xs arbitrary: ls rule: concat_locks.induct)
  case (3 ys xs)
  then show ?case by (fastforce split: option.splits)
qed auto

lemma concat_locks_total:
  "concat_locks xs \<noteq> None \<longleftrightarrow> None \<notin> set xs"
  by (induction xs rule: concat_locks.induct) (auto split: option.splits)

text \<open>The lock set of a segment deletion contains every lock of the deletion of each of its
  clusters, except that the shared list locks are taken once.\<close>

lemma segment_delete_covers_cluster_delete:
  assumes seg: "ForEachLockForLocation db (BlobLocation seg SegmentDeleteId ClusterDeleteId) = Some ls"
    and clusters: "view_segment db seg = Some clusters" "c \<in> set clusters" "c \<noteq> SegmentDeleteId"
    and cl: "ForEachLockForLocation db (BlobLocation seg c ClusterDeleteId) = Some ls'"
  shows "set ls' \<subseteq> set ls"
proof -
  from seg clusters obtain rest where
    rest: "concat_locks (map (segment_cluster_locks db seg) clusters) = Some rest"
    and ls: "ls = [BlobLocation seg SegmentDeleteId ClusterDeleteId,
                BlobLocation seg NextFreeClusterId NextFreeBlobId,
                BlobLocation seg ClusterListId BlobListId, SegmentListLocation] @ rest"
    by (auto simp: ForEachLockForLocation_def)
  from cl clusters obtain blobs where
    blobs: "view_cluster db seg c = Some blobs"
    and ls': "ls' = [BlobLocation seg c ClusterDeleteId, BlobLocation seg c NextFreeBlobId,
                BlobLocation seg c BlobListId, BlobLocation seg ClusterListId BlobListId]
                @ map (BlobLocation seg c) blobs"
    by (auto simp: ForEachLockForLocation_def split: option.splits)
  have "segment_cluster_locks db seg c \<in> set (map (segment_cluster_locks db seg) clusters)"
    using clusters by simp
  with concat_locks_set [OF rest] blobs
  have "set ([BlobLocation seg c ClusterDeleteId, BlobLocation seg c NextFreeBlobId,
              BlobLocation seg c BlobListId] @ map (BlobLocation seg c) blobs) \<subseteq> set rest"
    by (auto simp: segment_cluster_locks_def)
  then show ?thesis unfolding ls ls' by auto
qed

end
