(* ===== verification/Lock_Table.thy ===== *)
theory Lock_Table
  imports Lock Lock_Util Messages
begin

text \<open>
  The lock part of ServerLib/Database.cpp: the set of lock objects of one database, keyed by
  location, and the operations that acquire, release and inspect them for whole messages,
  including the deadlock check performed when a read request has to be queued.
\<close>

section \<open>Model\<close>

type_synonym lock_table = "BlobLocation \<Rightarrow> Lock option"

definition Database_ClientOwnsWriteLock :: "lock_table \<Rightarrow> client_id \<Rightarrow> BlobLocation \<Rightarrow> bool" where
  "Database_ClientOwnsWriteLock locks client location =
     (case locks location of None \<Rightarrow> False | Some l \<Rightarrow> Lock_OwnsWriteLock l client)"

definition Database_CanClientAcquireLock ::
  "(client_id \<Rightarrow> bool) \<Rightarrow> lock_table \<Rightarrow> client_id \<Rightarrow> BlobLocation \<Rightarrow> bool \<Rightarrow> bool" where
  "Database_CanClientAcquireLock canRevoke locks client location write =
     (case locks location of
        None \<Rightarrow> True
      | Some l \<Rightarrow> Lock_CanAcquire canRevoke l client write)"

definition Database_AcquireClientLock ::
  "('s \<Rightarrow> client_id \<Rightarrow> BlobLocation \<Rightarrow> 's) \<Rightarrow> client_id \<Rightarrow> bool \<Rightarrow> BlobLocation
   \<Rightarrow> lock_table \<times> 's \<Rightarrow> lock_table \<times> 's" where
  "Database_AcquireClientLock revoke client write location st =
     (case st of (locks, s) \<Rightarrow>
       (case locks location of
          None \<Rightarrow> (locks(location \<mapsto> Lock_new location client write), s)
        | Some l \<Rightarrow> (case Lock_Acquire revoke l client write s of
                      (l', s') \<Rightarrow> (locks(location \<mapsto> l'), s'))))"

definition Database_AcquireLocks ::
  "('s \<Rightarrow> client_id \<Rightarrow> bool) \<Rightarrow> ('s \<Rightarrow> client_id \<Rightarrow> BlobLocation \<Rightarrow> 's) \<Rightarrow> db_view \<Rightarrow> BlobsRead
   \<Rightarrow> lock_table \<times> 's \<Rightarrow> (bool \<times> lock_table \<times> 's) option" where
  "Database_AcquireLocks canRevoke revoke db message st =
     (let client = br_clientId message; write = BlobsRead_NeedsWriteLock message in
      case AllLocksInMessage db (br_locations message)
             (\<lambda>st l. (Database_CanClientAcquireLock (canRevoke (snd st)) (fst st) client l write, st)) st of
        None \<Rightarrow> None
      | Some (False, _) \<Rightarrow> Some (False, st)
      | Some (True, _) \<Rightarrow>
          (case ForEachLockInMessage db (br_locations message) of
             None \<Rightarrow> None
           | Some ls \<Rightarrow> Some (True, fold (Database_AcquireClientLock revoke client write) ls st)))"

definition Database_AcquireImplicitWriteLocks ::
  "('s \<Rightarrow> client_id \<Rightarrow> BlobLocation \<Rightarrow> 's) \<Rightarrow> client_id \<Rightarrow> BlobLocation list
   \<Rightarrow> lock_table \<times> 's \<Rightarrow> lock_table \<times> 's" where
  "Database_AcquireImplicitWriteLocks revoke client writeLocks st =
     fold (Database_AcquireClientLock revoke client True) writeLocks st"

text \<open>Releasing a lock the client does not hold violates an assertion of the source.\<close>

definition Database_ReleaseLock ::
  "lock_table \<Rightarrow> client_id \<Rightarrow> BlobLocation \<Rightarrow> lock_table option" where
  "Database_ReleaseLock locks client location =
     (case locks location of
        None \<Rightarrow> None
      | Some l \<Rightarrow> (case Lock_Release l client of
                    None \<Rightarrow> None
                  | Some (isFree, l') \<Rightarrow>
                      Some (if isFree then locks(location := None) else locks(location \<mapsto> l'))))"

fun Database_ReleaseLocks ::
  "lock_table \<Rightarrow> client_id \<Rightarrow> BlobLocation list \<Rightarrow> lock_table option" where
  "Database_ReleaseLocks locks client [] = Some locks"
| "Database_ReleaseLocks locks client (l # ls) =
     (case Database_ReleaseLock locks client l of
        None \<Rightarrow> None
      | Some locks' \<Rightarrow> Database_ReleaseLocks locks' client ls)"

record LockConflict =
  lc_location :: BlobLocation
  lc_blockedBy :: client_id

definition location_conflicts ::
  "(client_id \<Rightarrow> bool) \<Rightarrow> lock_table \<Rightarrow> client_id \<Rightarrow> bool \<Rightarrow> BlobLocation \<Rightarrow> client_id list" where
  "location_conflicts canRevoke locks client write location =
     (case locks location of
        None \<Rightarrow> []
      | Some l \<Rightarrow> Lock_CollectConflictingClients canRevoke l client write)"

definition Database_CollectLockConflicts ::
  "(client_id \<Rightarrow> bool) \<Rightarrow> db_view \<Rightarrow> lock_table \<Rightarrow> BlobsRead \<Rightarrow> LockConflict list option" where
  "Database_CollectLockConflicts canRevoke db locks message =
     (let client = br_clientId message; write = BlobsRead_NeedsWriteLock message in
      map_option (\<lambda>ls. concat (map (\<lambda>loc. map (\<lambda>c. \<lparr>lc_location = loc, lc_blockedBy = c\<rparr>)
                                        (location_conflicts canRevoke locks client write loc)) ls))
        (ForEachLockInMessage db (br_locations message)))"

definition Database_FindLockConflictWith ::
  "(client_id \<Rightarrow> bool) \<Rightarrow> db_view \<Rightarrow> lock_table \<Rightarrow> BlobsRead \<Rightarrow> client_id \<Rightarrow> BlobLocation option option" where
  "Database_FindLockConflictWith canRevoke db locks message conflictingClient =
     (let client = br_clientId message; write = BlobsRead_NeedsWriteLock message in
      map_option snd
        (AllLocksInMessage db (br_locations message)
           (\<lambda>s loc. if conflictingClient \<in> set (location_conflicts canRevoke locks client write loc)
                    then (False, Some loc) else (True, s))
           None))"

record QueuedMessage =
  qm_message :: BlobsRead
  qm_lockTimeoutTime :: "int option"

record DeadlockInfo =
  dl_location0 :: BlobLocation
  dl_client0 :: client_id
  dl_writeLock0 :: bool
  dl_location1 :: BlobLocation
  dl_client1 :: client_id
  dl_writeLock1 :: bool

text \<open>The loop over the queued requests of \<open>QueueReadCheckDeadlock\<close>.\<close>

fun collect_deadlocks ::
  "(client_id \<Rightarrow> bool) \<Rightarrow> db_view \<Rightarrow> lock_table \<Rightarrow> BlobsRead \<Rightarrow> LockConflict list
   \<Rightarrow> QueuedMessage list \<Rightarrow> DeadlockInfo list \<Rightarrow> DeadlockInfo list option" where
  "collect_deadlocks canRevoke db locks message conflicts [] deadlocks = Some deadlocks"
| "collect_deadlocks canRevoke db locks message conflicts (q # qs) deadlocks =
     (let other = br_clientId (qm_message q) in
      if list_ex (\<lambda>d. dl_client1 d = other) deadlocks
      then collect_deadlocks canRevoke db locks message conflicts qs deadlocks
      else case find (\<lambda>c. lc_blockedBy c = other) conflicts of
        None \<Rightarrow> collect_deadlocks canRevoke db locks message conflicts qs deadlocks
      | Some lockConflict \<Rightarrow>
          (case Database_FindLockConflictWith canRevoke db locks (qm_message q) (br_clientId message) of
             None \<Rightarrow> None
           | Some None \<Rightarrow> collect_deadlocks canRevoke db locks message conflicts qs deadlocks
           | Some (Some conflictLocation) \<Rightarrow>
               collect_deadlocks canRevoke db locks message conflicts qs
                 (deadlocks @
                  [\<lparr>dl_location0 = lc_location lockConflict, dl_client0 = br_clientId message,
                    dl_writeLock0 = BlobsRead_NeedsWriteLock message,
                    dl_location1 = conflictLocation, dl_client1 = other,
                    dl_writeLock1 = BlobsRead_NeedsWriteLock (qm_message q)\<rparr>])))"

text \<open>Points in time are in nanoseconds, the period of the steady clock.\<close>

definition nanoseconds_per_ms :: int where
  "nanoseconds_per_ms = 1000000"

text \<open>The result is the list of deadlocks and the extended queue. Queueing without a conflict
  or with an immediate timeout violates an assertion.\<close>

definition Database_QueueReadCheckDeadlock ::
  "(client_id \<Rightarrow> bool) \<Rightarrow> db_view \<Rightarrow> lock_table \<Rightarrow> int \<Rightarrow> QueuedMessage list \<Rightarrow> BlobsRead
   \<Rightarrow> (DeadlockInfo list \<times> QueuedMessage list) option" where
  "Database_QueueReadCheckDeadlock canRevoke db locks now queuedReads message =
     (case Database_CollectLockConflicts canRevoke db locks message of
        None \<Rightarrow> None
      | Some conflicts \<Rightarrow>
          if conflicts = [] \<or> br_lockTimeoutMs message = 0 then None
          else
            (case collect_deadlocks canRevoke db locks message conflicts queuedReads [] of
               None \<Rightarrow> None
             | Some deadlocks \<Rightarrow>
                 Some (deadlocks, queuedReads @
                   [\<lparr>qm_message = message,
                     qm_lockTimeoutTime = (if br_lockTimeoutMs message > 0
                                           then Some (now + nanoseconds_per_ms * br_lockTimeoutMs message) else None)\<rparr>])))"

text \<open>\<open>CheckForLockTimeouts\<close> removes the expired requests; their clients are notified in
  queue order.\<close>

definition timed_out :: "int \<Rightarrow> QueuedMessage \<Rightarrow> bool" where
  "timed_out now q = (case qm_lockTimeoutTime q of None \<Rightarrow> False | Some t \<Rightarrow> t \<le> now)"

fun Database_CheckForLockTimeouts ::
  "int \<Rightarrow> QueuedMessage list \<Rightarrow> client_id list \<times> QueuedMessage list" where
  "Database_CheckForLockTimeouts now [] = ([], [])"
| "Database_CheckForLockTimeouts now (q # qs) =
     (case Database_CheckForLockTimeouts now qs of (notified, rest) \<Rightarrow>
        if timed_out now q then (br_clientId (qm_message q) # notified, rest)
        else (notified, q # rest))"

text \<open>The queue part of \<open>AbortClientTransaction\<close>: all queued reads of the client are erased.\<close>

fun erase_client_reads :: "client_id \<Rightarrow> QueuedMessage list \<Rightarrow> QueuedMessage list" where
  "erase_client_reads client [] = []"
| "erase_client_reads client (q # qs) =
     (if br_clientId (qm_message q) = client then erase_client_reads client qs
      else q # erase_client_reads client qs)"

definition Database_AbortClientTransaction ::
  "lock_table \<Rightarrow> QueuedMessage list \<Rightarrow> client_id \<Rightarrow> BlobLocation list
   \<Rightarrow> (lock_table \<times> QueuedMessage list) option" where
  "Database_AbortClientTransaction locks queuedReads client locksToRelease =
     map_option (\<lambda>locks'. (locks', erase_client_reads client queuedReads))
       (Database_ReleaseLocks locks client locksToRelease)"

section \<open>Well-formed tables\<close>

definition table_ok :: "lock_table \<Rightarrow> bool" where
  "table_ok locks =
     (\<forall>loc l. locks loc = Some l \<longrightarrow> lock_wf l \<and> lock_held l \<and> lock_location l = loc)"

definition table_grants :: "lock_table \<Rightarrow> client_id \<Rightarrow> BlobLocation \<Rightarrow> bool \<Rightarrow> bool" where
  "table_grants locks client loc w =
     (case locks loc of None \<Rightarrow> False | Some l \<Rightarrow> lock_grants l client w)"

definition table_holds :: "lock_table \<Rightarrow> client_id \<Rightarrow> BlobLocation \<Rightarrow> bool" where
  "table_holds locks client loc =
     (case locks loc of None \<Rightarrow> False | Some l \<Rightarrow> client \<in> set (lock_holders l))"

lemma table_ok_empty [simp]: "table_ok (\<lambda>_. None)"
  by (simp add: table_ok_def)

lemma table_okD:
  "table_ok locks \<Longrightarrow> locks loc = Some l \<Longrightarrow> lock_wf l \<and> lock_held l \<and> lock_location l = loc"
  by (auto simp: table_ok_def)

lemma table_ok_upd:
  "table_ok locks \<Longrightarrow> lock_wf l \<Longrightarrow> lock_held l \<Longrightarrow> lock_location l = loc \<Longrightarrow>
   table_ok (locks(loc \<mapsto> l))"
  by (auto simp: table_ok_def)

lemma table_ok_remove: "table_ok locks \<Longrightarrow> table_ok (locks(loc := None))"
  by (auto simp: table_ok_def)

lemma table_holds_grants:
  "table_ok locks \<Longrightarrow> table_holds locks c loc \<longleftrightarrow> table_grants locks c loc False"
  by (fastforce simp: table_ok_def table_holds_def table_grants_def lock_holders_def lock_grants_def
      lock_wf_def split: option.splits)

text \<open>Two clients never hold conflicting access to one location.\<close>

lemma table_exclusive:
  assumes "table_ok locks" "table_grants locks c loc True" "table_grants locks d loc w"
  shows "d = c"
proof -
  from assms(2) obtain l where l: "locks loc = Some l" "lock_grants l c True"
    by (auto simp: table_grants_def split: option.splits)
  with assms(3) have "lock_grants l d w" by (simp add: table_grants_def)
  moreover from assms(1) l have "lock_wf l" by (auto dest: table_okD)
  ultimately show ?thesis using lock_wf_grants_write l(2) by blast
qed

lemma owns_write_iff_grants:
  "Database_ClientOwnsWriteLock locks c loc \<longleftrightarrow> table_grants locks c loc True"
  by (simp add: Database_ClientOwnsWriteLock_def table_grants_def Lock_OwnsWriteLock_def
      lock_grants_def split: option.splits)

lemma can_acquire_iff_no_location_conflicts:
  "Database_CanClientAcquireLock canRevoke locks c loc w \<longleftrightarrow>
     location_conflicts canRevoke locks c w loc = []"
  by (simp add: Database_CanClientAcquireLock_def location_conflicts_def CanAcquire_iff_no_conflicts
      split: option.splits)

lemma can_acquire_from_revocable:
  "Database_CanClientAcquireLock (\<lambda>d. d \<noteq> c) locks c loc w"
  by (auto simp: Database_CanClientAcquireLock_def Lock_CanAcquire_def list_all_iff
      split: option.splits)

section \<open>Acquiring one lock\<close>

lemma AcquireClientLock_table:
  assumes "table_ok locks"
    and "Database_AcquireClientLock revoke c w loc (locks, s) = (locks', s')"
  shows "table_ok locks' \<and> table_grants locks' c loc w \<and> (\<forall>l. l \<noteq> loc \<longrightarrow> locks' l = locks l)"
proof (cases "locks loc")
  case None
  with assms show ?thesis
    by (auto simp: Database_AcquireClientLock_def table_grants_def intro!: table_ok_upd)
next
  case (Some l)
  obtain l' s1 where acq: "Lock_Acquire revoke l c w s = (l', s1)" by fastforce
  from assms(1) Some have l: "lock_wf l" "lock_location l = loc" by (auto dest: table_okD)
  from l have wf: "lock_wf l'" "lock_location l' = loc"
    using lock_wf_Acquire [of l revoke c w s] lock_location_Acquire [of revoke l c w s]
    by (simp_all add: acq)
  have grants: "lock_grants l' c w" using lock_grants_Acquire [of revoke l c w s] by (simp add: acq)
  with wf have "lock_held l'" by (blast intro: lock_held_grants)
  with assms Some wf grants show ?thesis
    by (auto simp: Database_AcquireClientLock_def table_grants_def acq intro!: table_ok_upd)
qed

lemma AcquireClientLock_keeps_active:
  assumes "table_ok locks" "Database_CanClientAcquireLock canRevoke locks c loc w"
    and "Database_AcquireClientLock revoke c w loc (locks, s) = (locks', s')"
    and "\<not> canRevoke d" "table_grants locks d l v"
  shows "table_grants locks' d l v"
proof (cases "l = loc")
  case True
  with assms(5) obtain lk where lk: "locks loc = Some lk" "lock_grants lk d v"
    by (auto simp: table_grants_def split: option.splits)
  with assms(1) have "lock_wf lk" by (auto simp: table_ok_def)
  with lk assms(2,4) have "lock_grants (fst (Lock_Acquire revoke lk c w s)) d v"
    by (intro Acquire_keeps_active) (auto simp: Database_CanClientAcquireLock_def)
  with assms(3) lk True show ?thesis
    by (auto simp: Database_AcquireClientLock_def table_grants_def split: prod.splits)
next
  case False
  with assms show ?thesis
    using AcquireClientLock_table [OF assms(1,3)] by (simp add: table_grants_def)
qed

lemma AcquireClientLock_can_again:
  assumes "table_ok locks" "Database_AcquireClientLock revoke c w loc (locks, s) = (locks', s')"
    and "Database_CanClientAcquireLock canRevoke locks c l w"
  shows "Database_CanClientAcquireLock canRevoke locks' c l w"
proof (cases "l = loc")
  case True
  from AcquireClientLock_table [OF assms(1,2)] obtain lk where
    lk: "locks' loc = Some lk" "lock_grants lk c w" "lock_wf lk"
    by (auto simp: table_grants_def table_ok_def split: option.splits)
  then show ?thesis
    using True by (auto simp: Database_CanClientAcquireLock_def Lock_CanAcquire_def lock_grants_def
        lock_wf_def split: option.splits)
next
  case False
  with assms AcquireClientLock_table [OF assms(1,2)] show ?thesis
    by (simp add: Database_CanClientAcquireLock_def)
qed

section \<open>The sticky lock interface\<close>

text \<open>What a lock table relies on when it calls back into its owner: revoking a sticky lock
  does not change which clients are inside a transaction.\<close>

locale sticky_lock_interface =
  fixes canRevoke :: "'s \<Rightarrow> client_id \<Rightarrow> bool"
    and revoke :: "'s \<Rightarrow> client_id \<Rightarrow> BlobLocation \<Rightarrow> 's"
  assumes canRevoke_revoke: "canRevoke (revoke s c loc) = canRevoke s"
begin

lemma canRevoke_fold: "canRevoke (fold (\<lambda>c s. revoke s c loc) cs s) = canRevoke s"
  by (induction cs arbitrary: s) (simp_all add: canRevoke_revoke)

lemma AcquireClientLock_canRevoke:
  assumes "table_ok locks" "Database_AcquireClientLock revoke c w loc (locks, s) = (locks', s')"
  shows "canRevoke s' = canRevoke s"
proof (cases "locks loc")
  case None
  with assms show ?thesis by (simp add: Database_AcquireClientLock_def)
next
  case (Some l)
  with assms have "lock_wf l" by (auto simp: table_ok_def)
  with Acquire_revokes [of l revoke c w s] canRevoke_fold assms(2) Some show ?thesis
    by (auto simp: Database_AcquireClientLock_def split: prod.splits)
qed

text \<open>Acquiring a whole list of locations whose locks were all available up front.\<close>

lemma acquire_all:
  assumes "table_ok locks"
    and "\<forall>loc \<in> set ls. Database_CanClientAcquireLock (canRevoke s) locks c loc w"
    and "fold (Database_AcquireClientLock revoke c w) ls (locks, s) = (locks', s')"
  shows "table_ok locks' \<and> canRevoke s' = canRevoke s
         \<and> (\<forall>loc \<in> set ls. table_grants locks' c loc w)
         \<and> (\<forall>loc. loc \<notin> set ls \<longrightarrow> locks' loc = locks loc)
         \<and> (\<forall>d loc v. \<not> canRevoke s d \<longrightarrow> table_grants locks d loc v \<longrightarrow> table_grants locks' d loc v)
         \<and> (\<forall>loc v. table_grants locks c loc v \<longrightarrow> table_grants locks' c loc v)"
  using assms
proof (induction ls arbitrary: locks s)
  case Nil
  then show ?case by simp
next
  case (Cons loc ls)
  obtain locks1 s1 where st1: "Database_AcquireClientLock revoke c w loc (locks, s) = (locks1, s1)"
    by fastforce
  have ok1: "table_ok locks1" and grant1: "table_grants locks1 c loc w"
    and frame1: "\<And>l. l \<noteq> loc \<Longrightarrow> locks1 l = locks l"
    using AcquireClientLock_table [OF Cons.prems(1) st1] by auto
  have rev1: "canRevoke s1 = canRevoke s"
    using Cons.prems(1) st1 by (rule AcquireClientLock_canRevoke)
  have can: "Database_CanClientAcquireLock (canRevoke s) locks c loc w"
    using Cons.prems(2) by simp
  have active1: "\<not> canRevoke s d \<Longrightarrow> table_grants locks d l v \<Longrightarrow> table_grants locks1 d l v" for d l v
    using AcquireClientLock_keeps_active [OF Cons.prems(1) can st1] .
  have own1: "table_grants locks c l v \<Longrightarrow> table_grants locks1 c l v" for l v
    using AcquireClientLock_keeps_active [OF Cons.prems(1) can_acquire_from_revocable st1, of c]
    by simp
  have "\<forall>l \<in> set ls. Database_CanClientAcquireLock (canRevoke s1) locks1 c l w"
    using Cons.prems(2) AcquireClientLock_can_again [OF Cons.prems(1) st1]
    by (simp add: rev1)
  from Cons.IH [OF ok1 this] Cons.prems(3) st1 rev1 grant1 frame1 active1 own1
  show ?case by auto
qed

end

section \<open>Acquiring the locks of a message\<close>

lemma all_locs_const:
  "all_locs (\<lambda>st l. (q st l, st)) ls st = (list_all (q st) ls, st)"
  by (induction ls) auto

lemma AcquireLocks_eq:
  assumes "ForEachLockInMessage db (br_locations m) = Some ls"
  shows "Database_AcquireLocks canRevoke revoke db m (locks, s) =
           (if list_all (\<lambda>l. Database_CanClientAcquireLock (canRevoke s) locks (br_clientId m) l
                              (BlobsRead_NeedsWriteLock m)) ls
            then Some (True, fold (Database_AcquireClientLock revoke (br_clientId m)
                                    (BlobsRead_NeedsWriteLock m)) ls (locks, s))
            else Some (False, locks, s))"
  by (auto simp: Database_AcquireLocks_def AllLocksInMessage_visits [OF assms] assms all_locs_const
      Let_def split: bool.splits)

lemma CollectLockConflicts_eq:
  assumes "ForEachLockInMessage db (br_locations m) = Some ls"
  shows "Database_CollectLockConflicts canRevoke db locks m = Some cs \<Longrightarrow>
         c \<in> set cs \<longleftrightarrow>
           lc_location c \<in> set ls \<and>
           lc_blockedBy c \<in> set (location_conflicts canRevoke locks (br_clientId m)
                                  (BlobsRead_NeedsWriteLock m) (lc_location c))"
  using assms by (cases c) (force simp: Database_CollectLockConflicts_def Let_def image_iff)

lemma FindLockConflictWith_list:
  "snd (all_locs (\<lambda>s loc. if P loc then (False, Some loc) else (True, s)) ls None) = find P ls"
  by (induction ls) auto

lemma FindLockConflictWith_eq:
  assumes "ForEachLockInMessage db (br_locations m) = Some ls"
  shows "Database_FindLockConflictWith canRevoke db locks m d =
           Some (find (\<lambda>loc. d \<in> set (location_conflicts canRevoke locks (br_clientId m)
                                (BlobsRead_NeedsWriteLock m) loc)) ls)"
  by (simp add: Database_FindLockConflictWith_def AllLocksInMessage_visits [OF assms] Let_def
      FindLockConflictWith_list)

section \<open>Deadlock detection\<close>

text \<open>\<open>waits_for\<close>: some location of the message is held by \<open>d\<close> in a conflicting way.\<close>

definition waits_for ::
  "(client_id \<Rightarrow> bool) \<Rightarrow> db_view \<Rightarrow> lock_table \<Rightarrow> BlobsRead \<Rightarrow> client_id \<Rightarrow> BlobLocation \<Rightarrow> bool" where
  "waits_for canRevoke db locks m d loc =
     (case ForEachLockInMessage db (br_locations m) of
        None \<Rightarrow> False
      | Some ls \<Rightarrow> loc \<in> set ls \<and> d \<in> set (location_conflicts canRevoke locks (br_clientId m)
                                               (BlobsRead_NeedsWriteLock m) loc))"

definition real_deadlock ::
  "(client_id \<Rightarrow> bool) \<Rightarrow> db_view \<Rightarrow> lock_table \<Rightarrow> BlobsRead \<Rightarrow> QueuedMessage list \<Rightarrow> DeadlockInfo \<Rightarrow> bool" where
  "real_deadlock canRevoke db locks m qs d =
     (dl_client0 d = br_clientId m \<and>
      waits_for canRevoke db locks m (dl_client1 d) (dl_location0 d) \<and>
      (\<exists>q \<in> set qs. br_clientId (qm_message q) = dl_client1 d \<and>
         waits_for canRevoke db locks (qm_message q) (br_clientId m) (dl_location1 d)))"

lemma find_SomeD: "find P xs = Some x \<Longrightarrow> x \<in> set xs \<and> P x"
  by (auto simp: find_Some_iff)

lemma FindLockConflictWith_waits:
  assumes "ForEachLockInMessage db (br_locations m) \<noteq> None"
  shows "Database_FindLockConflictWith canRevoke db locks m d = Some (Some loc) \<Longrightarrow>
           waits_for canRevoke db locks m d loc"
    and "Database_FindLockConflictWith canRevoke db locks m d = Some None \<Longrightarrow>
           \<not> waits_for canRevoke db locks m d loc'"
  using assms
  by (auto simp: FindLockConflictWith_eq waits_for_def find_None_iff dest: find_SomeD)

text \<open>Every request in a queue refers to existing segments and clusters.\<close>

definition queue_views_ok :: "db_view \<Rightarrow> QueuedMessage list \<Rightarrow> bool" where
  "queue_views_ok db qs =
     (\<forall>q \<in> set qs. ForEachLockInMessage db (br_locations (qm_message q)) \<noteq> None)"

lemma FindLockConflictWith_not_None:
  "ForEachLockInMessage db (br_locations m) \<noteq> None \<Longrightarrow>
   Database_FindLockConflictWith canRevoke db locks m d \<noteq> None"
  by (auto simp: FindLockConflictWith_eq)

text \<open>What the loop over the queue has established: every report is real, there is one per
  client, earlier reports are kept, and every queued client that is in a mutual conflict with
  the new request has been reported.\<close>

definition deadlocks_complete ::
  "(client_id \<Rightarrow> bool) \<Rightarrow> db_view \<Rightarrow> lock_table \<Rightarrow> BlobsRead \<Rightarrow> LockConflict list
   \<Rightarrow> QueuedMessage list \<Rightarrow> DeadlockInfo list \<Rightarrow> bool" where
  "deadlocks_complete canRevoke db locks m conflicts qs ds =
     (\<forall>q \<in> set qs. \<forall>loc. br_clientId (qm_message q) \<in> lc_blockedBy ` set conflicts \<longrightarrow>
        waits_for canRevoke db locks (qm_message q) (br_clientId m) loc \<longrightarrow>
        br_clientId (qm_message q) \<in> dl_client1 ` set ds)"

definition deadlocks_sound ::
  "(client_id \<Rightarrow> bool) \<Rightarrow> db_view \<Rightarrow> lock_table \<Rightarrow> BlobsRead \<Rightarrow> QueuedMessage list
   \<Rightarrow> DeadlockInfo list \<Rightarrow> bool" where
  "deadlocks_sound canRevoke db locks m qs ds =
     ((\<forall>d \<in> set ds. real_deadlock canRevoke db locks m qs d) \<and> distinct (map dl_client1 ds))"

lemma deadlocks_complete_Cons:
  assumes "deadlocks_complete canRevoke db locks m conflicts qs ds"
    and "br_clientId (qm_message q) \<in> lc_blockedBy ` set conflicts \<Longrightarrow>
         (\<exists>loc. waits_for canRevoke db locks (qm_message q) (br_clientId m) loc) \<Longrightarrow>
         br_clientId (qm_message q) \<in> dl_client1 ` set ds"
  shows "deadlocks_complete canRevoke db locks m conflicts (q # qs) ds"
  using assms by (auto simp: deadlocks_complete_def)

lemma collect_deadlocks_spec:
  assumes conf: "\<And>c. c \<in> set conflicts \<Longrightarrow>
                   waits_for canRevoke db locks m (lc_blockedBy c) (lc_location c)"
    and "queue_views_ok db qs" "set qs \<subseteq> set qs0"
    and "deadlocks_sound canRevoke db locks m qs0 ds"
  shows "\<exists>ds'. collect_deadlocks canRevoke db locks m conflicts qs ds = Some ds'
           \<and> deadlocks_sound canRevoke db locks m qs0 ds' \<and> set ds \<subseteq> set ds'
           \<and> deadlocks_complete canRevoke db locks m conflicts qs ds'"
  using assms(2-)
proof (induction qs arbitrary: ds)
  case Nil
  then show ?case by (simp add: deadlocks_complete_def)
next
  case (Cons q qs)
  let ?other = "br_clientId (qm_message q)"
  let ?go = "collect_deadlocks canRevoke db locks m conflicts"
  have views: "queue_views_ok db qs" and sub: "set qs \<subseteq> set qs0" and q0: "q \<in> set qs0"
    and vq: "ForEachLockInMessage db (br_locations (qm_message q)) \<noteq> None"
    using Cons.prems by (auto simp: queue_views_ok_def)
  note IH = Cons.IH [OF views sub]
  from IH [OF Cons.prems(3)] obtain ds1 where
    ds1: "?go qs ds = Some ds1" "deadlocks_sound canRevoke db locks m qs0 ds1" "set ds \<subseteq> set ds1"
      "deadlocks_complete canRevoke db locks m conflicts qs ds1"
    by blast
  have skip: ?case if "?go (q # qs) ds = ?go qs ds"
    and "?other \<in> lc_blockedBy ` set conflicts \<Longrightarrow>
         (\<exists>loc. waits_for canRevoke db locks (qm_message q) (br_clientId m) loc) \<Longrightarrow>
         ?other \<in> dl_client1 ` set ds"
    using that ds1 deadlocks_complete_Cons [OF ds1(4), of q] by auto
  show ?case
  proof (cases "list_ex (\<lambda>d. dl_client1 d = ?other) ds")
    case True
    then have "?other \<in> dl_client1 ` set ds" by (force simp: list_ex_iff)
    with True show ?thesis by (intro skip) simp_all
  next
    case fresh: False
    show ?thesis
    proof (cases "find (\<lambda>c. lc_blockedBy c = ?other) conflicts")
      case None
      then have "?other \<notin> lc_blockedBy ` set conflicts" by (force simp: find_None_iff)
      with None fresh show ?thesis by (intro skip) (simp_all add: Let_def)
    next
      case lc: (Some lc)
      from FindLockConflictWith_not_None [OF vq]
      obtain r where r: "Database_FindLockConflictWith canRevoke db locks (qm_message q) (br_clientId m) = Some r"
        by blast
      show ?thesis
      proof (cases r)
        case None
        with r fresh lc show ?thesis
          using FindLockConflictWith_waits(2) [OF vq] by (intro skip) (auto simp: Let_def)
      next
        case (Some loc)
        let ?d = "\<lparr>dl_location0 = lc_location lc, dl_client0 = br_clientId m,
                    dl_writeLock0 = BlobsRead_NeedsWriteLock m, dl_location1 = loc,
                    dl_client1 = ?other, dl_writeLock1 = BlobsRead_NeedsWriteLock (qm_message q)\<rparr>"
        from find_SomeD [OF lc] conf [of lc]
        have "waits_for canRevoke db locks m ?other (lc_location lc)" by simp
        moreover from FindLockConflictWith_waits(1) [OF vq] r Some
        have "waits_for canRevoke db locks (qm_message q) (br_clientId m) loc" by simp
        ultimately have "real_deadlock canRevoke db locks m qs0 ?d"
          using q0 by (auto simp: real_deadlock_def)
        then have "deadlocks_sound canRevoke db locks m qs0 (ds @ [?d])"
          using Cons.prems(3) fresh by (auto simp: deadlocks_sound_def list_ex_iff)
        then obtain ds' where ds': "?go qs (ds @ [?d]) = Some ds'"
          "deadlocks_sound canRevoke db locks m qs0 ds'" "set (ds @ [?d]) \<subseteq> set ds'"
          "deadlocks_complete canRevoke db locks m conflicts qs ds'"
          using IH by blast
        have "?go (q # qs) ds = Some ds'"
          using fresh Some r ds'(1) lc by (simp add: Let_def)
        moreover have "?other \<in> dl_client1 ` set ds'" using ds'(3) by force
        ultimately show ?thesis using ds' by (auto intro: deadlocks_complete_Cons)
      qed
    qed
  qed
qed

section \<open>Releasing\<close>

lemma ReleaseLock_spec:
  assumes "table_ok locks" "table_holds locks c loc"
  shows "\<exists>locks'. Database_ReleaseLock locks c loc = Some locks' \<and> table_ok locks'
           \<and> (\<forall>l. l \<noteq> loc \<longrightarrow> locks' l = locks l)
           \<and> (\<forall>d l v. table_grants locks' d l v \<longleftrightarrow> (d, l) \<noteq> (c, loc) \<and> table_grants locks d l v)"
proof -
  from assms obtain l where l: "locks loc = Some l" "c \<in> set (lock_holders l)" "lock_wf l"
    "lock_location l = loc"
    by (auto simp: table_holds_def table_ok_def split: option.splits)
  from Release_spec [OF l(3,2)] obtain l' where
    rel: "Lock_Release l c = Some (\<not> lock_held l', l')" and wf: "lock_wf l'"
    and loc: "lock_location l' = loc"
    and gr: "\<And>d v. lock_grants l' d v \<longleftrightarrow> d \<noteq> c \<and> lock_grants l d v"
    using l(4) by auto
  show ?thesis
  proof (cases "lock_held l'")
    case True
    with rel l wf loc gr assms(1) show ?thesis
      by (auto simp: Database_ReleaseLock_def table_grants_def intro!: table_ok_upd)
  next
    case False
    then have "\<And>d v. \<not> lock_grants l' d v" using wf lock_held_grants by blast
    with False rel l gr assms(1) show ?thesis
      by (auto simp: Database_ReleaseLock_def table_grants_def table_ok_remove)
  qed
qed

text \<open>Releasing a duplicate-free list of locks the client holds never trips an assertion,
  takes away exactly these locks and touches nobody else's.\<close>

lemma ReleaseLocks_spec:
  assumes "table_ok locks" "distinct ls" "\<forall>loc \<in> set ls. table_holds locks c loc"
  shows "\<exists>locks'. Database_ReleaseLocks locks c ls = Some locks' \<and> table_ok locks'
           \<and> (\<forall>d l v. table_grants locks' d l v \<longleftrightarrow>
                 \<not> (d = c \<and> l \<in> set ls) \<and> table_grants locks d l v)"
  using assms
proof (induction ls arbitrary: locks)
  case Nil
  then show ?case by simp
next
  case (Cons loc ls)
  from Cons.prems ReleaseLock_spec [of locks c loc] obtain locks1 where
    r1: "Database_ReleaseLock locks c loc = Some locks1" and ok1: "table_ok locks1"
    and g1: "\<And>d l v. table_grants locks1 d l v \<longleftrightarrow> (d, l) \<noteq> (c, loc) \<and> table_grants locks d l v"
    by auto
  have "\<forall>l \<in> set ls. table_holds locks1 c l"
    using Cons.prems ok1 g1 by (auto simp: table_holds_grants)
  with Cons.IH [OF ok1] Cons.prems(2) obtain locks2 where
    "Database_ReleaseLocks locks1 c ls = Some locks2" "table_ok locks2"
    "\<forall>d l v. table_grants locks2 d l v \<longleftrightarrow> \<not> (d = c \<and> l \<in> set ls) \<and> table_grants locks1 d l v"
    by auto
  with r1 g1 show ?case by auto
qed

lemma CheckForLockTimeouts_filter:
  "Database_CheckForLockTimeouts now qs =
     (map (br_clientId \<circ> qm_message) (filter (timed_out now) qs), filter (\<lambda>q. \<not> timed_out now q) qs)"
  by (induction qs) (auto split: prod.splits)

lemma erase_client_reads_filter:
  "erase_client_reads c qs = filter (\<lambda>q. br_clientId (qm_message q) \<noteq> c) qs"
  by (induction qs) auto

end
