(* ===== verification/Blob_Location_Ranges.thy ===== *)
theory Blob_Location_Ranges
  imports Lock_Util Messages
begin

text \<open>
  ServerLib/BlobLocationRanges.cpp: the ranges of locations a commit creates. They are filled while
  the messages of a commit are validated and stand for write locks the client holds implicitly.
  The database is reached only through the list of blobs of an existing cluster.
\<close>

section \<open>Ranges\<close>

record BlobLocationRange =
  rg_begin :: BlobLocation
  rg_end :: BlobLocation

definition Range_segment :: "segment_id \<Rightarrow> BlobLocationRange" where
  "Range_segment seg = \<lparr>rg_begin = BlobLocation seg 0 0, rg_end = BlobLocation (seg + 1) 0 0\<rparr>"

definition Range_cluster :: "segment_id \<Rightarrow> cluster_id \<Rightarrow> BlobLocationRange" where
  "Range_cluster seg cl = \<lparr>rg_begin = BlobLocation seg cl 0, rg_end = BlobLocation seg (cl + 1) 0\<rparr>"

definition Range_blob :: "segment_id \<Rightarrow> cluster_id \<Rightarrow> blob_id \<Rightarrow> BlobLocationRange" where
  "Range_blob seg cl b = \<lparr>rg_begin = BlobLocation seg cl b, rg_end = BlobLocation seg cl (b + 1)\<rparr>"

definition Range_blobs :: "segment_id \<Rightarrow> cluster_id \<Rightarrow> blob_id \<Rightarrow> blob_id \<Rightarrow> BlobLocationRange" where
  "Range_blobs seg cl blobBegin blobEnd =
     \<lparr>rg_begin = BlobLocation seg cl blobBegin, rg_end = BlobLocation seg cl blobEnd\<rparr>"

definition IsCreatedCluster :: "BlobLocationRange \<Rightarrow> bool" where
  "IsCreatedCluster r = (cluster (rg_end r) = cluster (rg_begin r) + 1)"

definition IsCreatedSegment :: "BlobLocationRange \<Rightarrow> bool" where
  "IsCreatedSegment r = (segment (rg_end r) = segment (rg_begin r) + 1)"

definition in_range :: "BlobLocationRange \<Rightarrow> BlobLocation \<Rightarrow> bool" where
  "in_range r location = (rg_begin r \<le> location \<and> location < rg_end r)"

definition Ranges_Encompasses :: "BlobLocationRange list \<Rightarrow> BlobLocation \<Rightarrow> bool" where
  "Ranges_Encompasses ranges location = list_ex (\<lambda>r. in_range r location) ranges"

definition Ranges_EncompassesRange :: "BlobLocationRange list \<Rightarrow> BlobLocationRange \<Rightarrow> bool" where
  "Ranges_EncompassesRange ranges checkRange =
     list_ex (\<lambda>r. rg_begin r \<le> rg_begin checkRange \<and> rg_end r \<ge> rg_end checkRange) ranges"

definition EncompassesCreatedCluster :: "BlobLocationRange list \<Rightarrow> segment_id \<Rightarrow> cluster_id \<Rightarrow> bool" where
  "EncompassesCreatedCluster ranges seg cl =
     list_ex (\<lambda>r. segment (rg_begin r) = seg \<and> cluster (rg_begin r) = cl \<and> IsCreatedCluster r) ranges"

definition EncompassesCreatedSegment :: "BlobLocationRange list \<Rightarrow> segment_id \<Rightarrow> bool" where
  "EncompassesCreatedSegment ranges seg =
     list_ex (\<lambda>r. segment (rg_begin r) = seg \<and> IsCreatedSegment r) ranges"

definition Ranges_Enter :: "BlobLocationRange \<Rightarrow> BlobLocationRange list \<Rightarrow> BlobLocationRange list" where
  "Ranges_Enter r ranges =
     (if ranges \<noteq> [] \<and> rg_end (last ranges) = rg_begin r
      then butlast ranges @ [(last ranges)\<lparr>rg_end := rg_end r\<rparr>]
      else ranges @ [r])"

definition EnterNewCluster :: "segment_id \<Rightarrow> cluster_id \<Rightarrow> BlobLocationRange list \<Rightarrow> BlobLocationRange list" where
  "EnterNewCluster seg cl ranges = ranges @
     [Range_blob seg cl 0,
      \<lparr>rg_begin = BlobLocation seg cl (MaxBlobId + 1), rg_end = BlobLocation seg (cl + 1) 0\<rparr>]"

definition EnterNewSegment :: "segment_id \<Rightarrow> BlobLocationRange list \<Rightarrow> BlobLocationRange list" where
  "EnterNewSegment seg ranges = EnterNewCluster seg 0 ranges @
     [\<lparr>rg_begin = BlobLocation seg (MaxClusterId + 1) 0, rg_end = BlobLocation (seg + 1) 0 0\<rparr>]"

section \<open>Created blobs\<close>

record BlobCreationRanges =
  bc_ranges :: "BlobLocationRange list"
  bc_committedNextFreeBlobIds :: "BlobLocation list"

definition BlobCreationRanges_new :: BlobCreationRanges where
  "BlobCreationRanges_new = \<lparr>bc_ranges = [], bc_committedNextFreeBlobIds = []\<rparr>"

definition NextFreeBlobIdCommitted ::
  "segment_id \<Rightarrow> cluster_id \<Rightarrow> blob_id \<Rightarrow> BlobCreationRanges \<Rightarrow> BlobCreationRanges" where
  "NextFreeBlobIdCommitted seg cl nextFreeBlobId bc =
     bc\<lparr>bc_committedNextFreeBlobIds := bc_committedNextFreeBlobIds bc @ [BlobLocation seg cl nextFreeBlobId]\<rparr>"

definition TryCreateBlob :: "BlobLocation \<Rightarrow> BlobCreationRanges \<Rightarrow> bool \<times> BlobCreationRanges" where
  "TryCreateBlob location bc =
     (case find (\<lambda>e. segment e = segment location \<and> cluster e = cluster location) (bc_committedNextFreeBlobIds bc) of
        None \<Rightarrow> (False, bc)
      | Some e \<Rightarrow>
          if blob e \<le> blob location then (False, bc)
          else (True, bc\<lparr>bc_ranges := Ranges_Enter (Range_blob (segment location) (cluster location) (blob location))
                                        (bc_ranges bc)\<rparr>))"

definition EncompassesWithBlobCreation ::
  "db_view \<Rightarrow> BlobLocation \<Rightarrow> BlobCreationRanges \<Rightarrow> bool \<times> BlobCreationRanges" where
  "EncompassesWithBlobCreation db location bc =
     (if Ranges_Encompasses (bc_ranges bc) location then (True, bc)
      else if EncompassesCreatedCluster (bc_ranges bc) (segment location) (cluster location) then TryCreateBlob location bc
      else case view_cluster db (segment location) (cluster location) of
             None \<Rightarrow> (False, bc)
           | Some blobs \<Rightarrow> if blob location \<in> set blobs then (False, bc) else TryCreateBlob location bc)"

section \<open>What entering a range adds\<close>

lemma word_at_successor:
  fixes b x :: "'a::len word"
  assumes "b < b + 1"
  shows "b \<le> x \<and> x < b + 1 \<longleftrightarrow> x = b"
proof -
  have "unat (b + 1) = Suc (unat b)" using assms by (rule unat_Suc_no_wrap)
  then show ?thesis by (auto simp: word_le_nat_alt word_less_nat_alt word_unat_eq_iff)
qed

lemma in_blob_range:
  assumes "b < b + 1"
  shows "in_range (Range_blob s c b) loc \<longleftrightarrow> loc = BlobLocation s c b"
  using word_at_successor [OF assms, of "blob loc"]
  by (cases loc) (auto simp: in_range_def Range_blob_def location_less_iff location_le_iff)

lemma Encompasses_append [simp]:
  "Ranges_Encompasses (xs @ ys) loc \<longleftrightarrow> Ranges_Encompasses xs loc \<or> Ranges_Encompasses ys loc"
  "Ranges_Encompasses (r # ys) loc \<longleftrightarrow> in_range r loc \<or> Ranges_Encompasses ys loc"
  "\<not> Ranges_Encompasses [] loc"
  by (auto simp: Ranges_Encompasses_def)

lemma in_range_join:
  assumes "rg_begin r \<le> rg_end r" "rg_end r = rg_begin r'" "rg_begin r' \<le> rg_end r'"
  shows "in_range (r\<lparr>rg_end := rg_end r'\<rparr>) loc \<longleftrightarrow> in_range r loc \<or> in_range r' loc"
  using assms by (auto simp: in_range_def)

text \<open>Joining adjacent ranges does not change which locations are covered.\<close>

lemma Encompasses_Enter:
  assumes "\<forall>r' \<in> set ranges. rg_begin r' \<le> rg_end r'" "rg_begin r \<le> rg_end r"
  shows "Ranges_Encompasses (Ranges_Enter r ranges) loc \<longleftrightarrow> Ranges_Encompasses ranges loc \<or> in_range r loc"
proof (cases "ranges \<noteq> [] \<and> rg_end (last ranges) = rg_begin r")
  case True
  then have split: "ranges = butlast ranges @ [last ranges]" by simp
  have "in_range ((last ranges)\<lparr>rg_end := rg_end r\<rparr>) loc \<longleftrightarrow> in_range (last ranges) loc \<or> in_range r loc"
    using True assms(2) bspec [OF assms(1) last_in_set [of ranges]] by (intro in_range_join) simp_all
  moreover have "Ranges_Encompasses ranges loc \<longleftrightarrow> Ranges_Encompasses (butlast ranges) loc \<or> in_range (last ranges) loc"
    by (subst split) (simp del: append_butlast_last_id)
  ultimately show ?thesis using True by (auto simp: Ranges_Enter_def)
next
  case False
  then show ?thesis by (auto simp: Ranges_Enter_def)
qed

end
