(* ===== verification/Commit_Validation.thy ===== *)
theory Commit_Validation
  imports Blob_Location_Ranges Db_Snapshot
begin

text \<open>
  \<open>Server::ValidateCommitMessages\<close> (ServerLib/Server.cpp): the checks every commit has to pass before
  it is applied, and the write locks the client obtains by creating something. The database is
  consulted for the existing ids and the \<open>NextFree\<close> values only; objects it loads on the way do not
  change these (Storage_Load) and are not threaded through.
\<close>

section \<open>Model\<close>

datatype CommitCode = TC_SUCCESS | TC_DATABASE_NOT_OPENED | TC_DATABASE_ORDER_VIOLATED | TC_MISSING_WRITE_LOCK
  | TC_NO_TRANSACTION_IN_PROGRESS | TC_SEGMENT_DOES_NOT_EXIST | TC_CLUSTER_DOES_NOT_EXIST | TC_BLOB_DOES_NOT_EXIST
  | TC_ILLEGAL_NEXT_FREE_BLOB_ID | TC_ILLEGAL_NEXT_FREE_CLUSTER_ID | TC_ILLEGAL_NEXT_FREE_SEGMENT_ID
  | TC_CANNOT_COMMIT_MVCC_DATABASE

record db_info =
  info_view :: db_view
  info_nextFreeSegmentId :: segment_id
  info_nextFreeClusterId :: "segment_id \<Rightarrow> cluster_id option"
  info_nextFreeBlobId :: "segment_id \<Rightarrow> cluster_id \<Rightarrow> blob_id option"

text \<open>The loop that collects the databases; \<open>None\<close> when a database is mentioned again after another one.\<close>

fun touched_databases :: "TransactionCommit list \<Rightarrow> database_id list \<Rightarrow> database_id list option" where
  "touched_databases [] touched = Some touched"
| "touched_databases (m # ms) touched =
     (if tc_databaseId m \<notin> set touched then touched_databases ms (touched @ [tc_databaseId m])
      else if last touched \<noteq> tc_databaseId m then None
      else touched_databases ms touched)"

lemma word_gap_shrinks: "(a :: 'a::len word) < b \<Longrightarrow> unat b - unat (a + 1) < unat b - unat a"
  using unat_Suc_no_wrap [of a b] by (simp add: word_less_nat_alt)

function enter_segments :: "segment_id \<Rightarrow> segment_id \<Rightarrow> BlobLocationRange list \<Rightarrow> BlobLocationRange list" where
  "enter_segments seg newNextFreeId ranges =
     (if seg < newNextFreeId then enter_segments (seg + 1) newNextFreeId (EnterNewSegment seg ranges) else ranges)"
  by pat_completeness auto
termination by (relation "measure (\<lambda>(seg, n, _). unat n - unat seg)") (simp_all add: word_gap_shrinks)

function enter_clusters ::
  "segment_id \<Rightarrow> cluster_id \<Rightarrow> cluster_id \<Rightarrow> BlobLocationRange list \<Rightarrow> BlobLocationRange list" where
  "enter_clusters seg cl newNextFreeId ranges =
     (if cl < newNextFreeId then enter_clusters seg (cl + 1) newNextFreeId (EnterNewCluster seg cl ranges) else ranges)"
  by pat_completeness auto
termination by (relation "measure (\<lambda>(_, cl, n, _). unat n - unat cl)") (simp_all add: word_gap_shrinks)

text \<open>The checks of one entry that depend on its location and content.\<close>

definition check_next_segment :: "db_info \<Rightarrow> BlobData \<Rightarrow> BlobCreationRanges \<Rightarrow> CommitCode \<times> BlobCreationRanges" where
  "check_next_segment db u created =
     (let loc = bd_location u in
      if cluster loc \<noteq> NextFreeClusterId \<or> blob loc \<noteq> NextFreeBlobId then (TC_BLOB_DOES_NOT_EXIST, created)
      else if bd_blobSize u \<noteq> 4 then (TC_ILLEGAL_NEXT_FREE_SEGMENT_ID, created)
      else if ReadId u < info_nextFreeSegmentId db \<or> ReadId u > MaxSegmentId + 1
      then (TC_ILLEGAL_NEXT_FREE_SEGMENT_ID, created)
      else (TC_SUCCESS, created\<lparr>bc_ranges := enter_segments (info_nextFreeSegmentId db) (ReadId u) (bc_ranges created)\<rparr>))"

definition check_next_cluster :: "db_info \<Rightarrow> BlobData \<Rightarrow> BlobCreationRanges \<Rightarrow> CommitCode \<times> BlobCreationRanges" where
  "check_next_cluster db u created =
     (let loc = bd_location u in
      if blob loc \<noteq> NextFreeBlobId then (TC_BLOB_DOES_NOT_EXIST, created)
      else
        case (case info_nextFreeClusterId db (segment loc) of
                Some n \<Rightarrow> Some n
              | None \<Rightarrow> if Ranges_Encompasses (bc_ranges created) loc then Some 1 else None) of
          None \<Rightarrow> (TC_SEGMENT_DOES_NOT_EXIST, created)
        | Some nextFreeClusterId \<Rightarrow>
            if bd_blobSize u \<noteq> 4 then (TC_ILLEGAL_NEXT_FREE_CLUSTER_ID, created)
            else if ReadId u < nextFreeClusterId \<or> ReadId u > MaxClusterId + 1
            then (TC_ILLEGAL_NEXT_FREE_CLUSTER_ID, created)
            else (TC_SUCCESS,
                  created\<lparr>bc_ranges := enter_clusters (segment loc) nextFreeClusterId (ReadId u) (bc_ranges created)\<rparr>))"

definition check_next_blob :: "db_info \<Rightarrow> BlobData \<Rightarrow> BlobCreationRanges \<Rightarrow> CommitCode \<times> BlobCreationRanges" where
  "check_next_blob db u created =
     (let loc = bd_location u;
          check = (\<lambda>nextFreeBlobId.
            if bd_blobSize u \<noteq> 4 then (TC_ILLEGAL_NEXT_FREE_BLOB_ID, created)
            else if ReadId u < nextFreeBlobId \<or> ReadId u > MaxBlobId + 1 then (TC_ILLEGAL_NEXT_FREE_BLOB_ID, created)
            else (TC_SUCCESS, NextFreeBlobIdCommitted (segment loc) (cluster loc) (ReadId u) created))
      in if Ranges_Encompasses (bc_ranges created) loc then check 1
         else case info_nextFreeClusterId db (segment loc) of
                None \<Rightarrow> (TC_SEGMENT_DOES_NOT_EXIST, created)
              | Some _ \<Rightarrow> (case info_nextFreeBlobId db (segment loc) (cluster loc) of
                            None \<Rightarrow> (TC_CLUSTER_DOES_NOT_EXIST, created)
                          | Some nextFreeBlobId \<Rightarrow> check nextFreeBlobId))"

definition check_entry :: "db_info \<Rightarrow> BlobData \<Rightarrow> BlobCreationRanges \<Rightarrow> CommitCode \<times> BlobCreationRanges" where
  "check_entry db u created =
     (let loc = bd_location u in
      if segment loc = SegmentListId \<or> cluster loc = ClusterListId \<or> blob loc = BlobListId
      then (TC_BLOB_DOES_NOT_EXIST, created)
      else if cluster loc = SegmentDeleteId \<and> blob loc \<noteq> ClusterDeleteId then (TC_BLOB_DOES_NOT_EXIST, created)
      else if segment loc = NextFreeSegmentId then check_next_segment db u created
      else if cluster loc = NextFreeClusterId then check_next_cluster db u created
      else if blob loc = NextFreeBlobId then check_next_blob db u created
      else (TC_SUCCESS, created))"

text \<open>The lambda passed to \<open>AllLocksForLocation\<close>: owned, or held implicitly by creation.\<close>

definition owns_or_creates ::
  "db_view \<Rightarrow> (BlobLocation \<Rightarrow> bool) \<Rightarrow> BlobCreationRanges \<Rightarrow> BlobLocation \<Rightarrow> bool \<times> BlobCreationRanges" where
  "owns_or_creates db owns created location =
     (if owns location then (True, created) else EncompassesWithBlobCreation db location created)"

text \<open>\<open>None\<close> is the failed assertion of \<open>AllLocksForLocation\<close>.\<close>

definition validate_entry ::
  "db_info \<Rightarrow> (BlobLocation \<Rightarrow> bool) \<Rightarrow> BlobData \<Rightarrow> BlobCreationRanges \<Rightarrow> (CommitCode \<times> BlobCreationRanges) option" where
  "validate_entry db owns u created = do {
     (ok, created') \<leftarrow> AllLocksForLocation (info_view db) (EncompassesCreatedSegment (bc_ranges created))
        (EncompassesCreatedCluster (bc_ranges created)) (bd_location u) (owns_or_creates (info_view db) owns) created;
     Some (if \<not> ok then (TC_MISSING_WRITE_LOCK, created') else check_entry db u created') }"

fun validate_entries ::
  "db_info \<Rightarrow> (BlobLocation \<Rightarrow> bool) \<Rightarrow> BlobData list \<Rightarrow> BlobCreationRanges \<Rightarrow> (CommitCode \<times> BlobCreationRanges) option" where
  "validate_entries db owns [] created = Some (TC_SUCCESS, created)"
| "validate_entries db owns (u # us) created = do {
     (code, created) \<leftarrow> validate_entry db owns u created;
     if code \<noteq> TC_SUCCESS then Some (code, created) else validate_entries db owns us created }"

fun validate_messages ::
  "db_info \<Rightarrow> (BlobLocation \<Rightarrow> bool) \<Rightarrow> bool \<Rightarrow> TransactionCommit list \<Rightarrow> BlobCreationRanges
     \<Rightarrow> (CommitCode \<times> BlobCreationRanges) option" where
  "validate_messages db owns isMVCC [] created = Some (TC_SUCCESS, created)"
| "validate_messages db owns isMVCC (m # ms) created =
     (if isMVCC \<and> tc_blobs m \<noteq> [] then Some (TC_CANNOT_COMMIT_MVCC_DATABASE, created)
      else do {
        (code, created) \<leftarrow> validate_entries db owns (tc_blobs m) created;
        if code \<noteq> TC_SUCCESS then Some (code, created) else validate_messages db owns isMVCC ms created })"

lemma word_distance_shrinks: "(b :: 'a::len word) \<noteq> e \<Longrightarrow> unat (e - (b + 1)) < unat (e - b)"
  by (metis add.commute diff_diff_eq eq_iff_diff_eq_0 measure_unat)

text \<open>The write locks a client gets for one created range.\<close>

function blob_range :: "segment_id \<Rightarrow> cluster_id \<Rightarrow> blob_id \<Rightarrow> blob_id \<Rightarrow> BlobLocation list" where
  "blob_range seg cl b e = (if b = e then [] else BlobLocation seg cl b # blob_range seg cl (b + 1) e)"
  by pat_completeness auto
termination
  by (relation "measure (\<lambda>(_, _, b, e). unat (e - b))") (simp_all add: word_distance_shrinks)

definition created_locations :: "BlobLocationRange \<Rightarrow> BlobLocation list" where
  "created_locations r =
     (let seg = segment (rg_begin r); cl = cluster (rg_begin r) in
      if IsCreatedSegment r
      then [BlobLocation seg NextFreeClusterId NextFreeBlobId, BlobLocation seg SegmentDeleteId ClusterDeleteId,
            BlobLocation seg ClusterListId BlobListId]
      else if IsCreatedCluster r
      then [BlobLocation seg cl NextFreeBlobId, BlobLocation seg cl ClusterDeleteId, BlobLocation seg cl BlobListId]
      else blob_range seg cl (blob (rg_begin r)) (blob (rg_end r)))"

definition implicit_locks :: "(BlobLocation \<Rightarrow> bool) \<Rightarrow> BlobLocationRange list \<Rightarrow> BlobLocation list" where
  "implicit_locks owns ranges = filter (\<lambda>l. \<not> owns l) (concat (map created_locations ranges))"

text \<open>What the client knows about an opened database: its content, the ownership of write locks and
  whether it is opened in MVCC mode.\<close>

record client_database =
  cd_info :: db_info
  cd_owns :: "BlobLocation \<Rightarrow> bool"
  cd_mvcc :: bool

fun validate_databases ::
  "(database_id \<Rightarrow> client_database option) \<Rightarrow> database_id list \<Rightarrow> TransactionCommit list
     \<Rightarrow> (database_id \<times> BlobLocation list) list \<Rightarrow> (CommitCode \<times> (database_id \<times> BlobLocation list) list) option" where
  "validate_databases dbs [] messages locks = Some (TC_SUCCESS, locks)"
| "validate_databases dbs (dbId # dbIds) messages locks =
     (case dbs dbId of
        None \<Rightarrow> Some (TC_DATABASE_NOT_OPENED, locks)
      | Some db \<Rightarrow> do {
          (code, created) \<leftarrow> validate_messages (cd_info db) (cd_owns db) (cd_mvcc db)
             (takeWhile (\<lambda>m. tc_databaseId m = dbId) messages) BlobCreationRanges_new;
          if code \<noteq> TC_SUCCESS then Some (code, locks)
          else validate_databases dbs dbIds (dropWhile (\<lambda>m. tc_databaseId m = dbId) messages)
                 (locks @ [(dbId, implicit_locks (cd_owns db) (bc_ranges created))]) })"

definition Server_ValidateCommitMessages ::
  "(database_id \<Rightarrow> client_database option) \<Rightarrow> TransactionCommit list
     \<Rightarrow> (CommitCode \<times> (database_id \<times> BlobLocation list) list) option" where
  "Server_ValidateCommitMessages dbs messages =
     (case touched_databases messages [] of
        None \<Rightarrow> Some (TC_DATABASE_ORDER_VIOLATED, [])
      | Some touched \<Rightarrow> validate_databases dbs touched messages [])"

declare enter_segments.simps [simp del] enter_clusters.simps [simp del] blob_range.simps [simp del]

section \<open>Grouping by database\<close>

text \<open>Each database in turn with the messages of the current run.\<close>

lemma touched_databases_group:
  assumes "touched_databases ms touched = Some ds" "distinct touched"
  shows "\<exists>new. ds = touched @ new \<and> distinct ds
     \<and> ms = filter (\<lambda>m. touched \<noteq> [] \<and> tc_databaseId m = last touched) ms
            @ concat (map (\<lambda>d. filter (\<lambda>m. tc_databaseId m = d) ms) new)
     \<and> tc_databaseId ` set ms \<subseteq> set ds"
  using assms
proof (induction ms arbitrary: touched)
  case (Cons m ms)
  let ?d = "tc_databaseId m"
  show ?case
  proof (cases "?d \<in> set touched")
    case False
    with Cons.prems obtain new where new: "ds = (touched @ [?d]) @ new" "distinct ds"
      "ms = filter (\<lambda>x. tc_databaseId x = ?d) ms @ concat (map (\<lambda>d. filter (\<lambda>m. tc_databaseId m = d) ms) new)"
      "tc_databaseId ` set ms \<subseteq> set ds"
      using Cons.IH [of "touched @ [?d]"] by auto
    have other: "filter (\<lambda>x. touched \<noteq> [] \<and> tc_databaseId x = last touched) (m # ms) = []"
    proof (cases "touched = []")
      case False
      then have lt: "last touched \<in> set touched" by simp
      then have "last touched \<noteq> ?d" "last touched \<notin> set (?d # new)" using new(1,2) \<open>?d \<notin> set touched\<close> by auto
      moreover have "tc_databaseId x \<in> set (?d # new)" if "x \<in> set ms" for x
      proof -
        have "x \<in> set (filter (\<lambda>x. tc_databaseId x = ?d) ms @ concat (map (\<lambda>d. filter (\<lambda>m. tc_databaseId m = d) ms) new))"
          using that new(3) by metis
        then show ?thesis by auto
      qed
      ultimately show ?thesis by (fastforce simp: filter_empty_conv)
    qed simp
    have "map (\<lambda>d. filter (\<lambda>x. tc_databaseId x = d) (m # ms)) new = map (\<lambda>d. filter (\<lambda>x. tc_databaseId x = d) ms) new"
      using new(1,2) by auto
    then have "concat (map (\<lambda>d. filter (\<lambda>x. tc_databaseId x = d) (m # ms)) (?d # new))
        = (m # filter (\<lambda>x. tc_databaseId x = ?d) ms) @ concat (map (\<lambda>d. filter (\<lambda>x. tc_databaseId x = d) ms) new)"
      by (simp only: list.map concat.simps) simp
    also have "\<dots> = m # ms" using new(3) [symmetric] by simp
    finally have "m # ms = concat (map (\<lambda>d. filter (\<lambda>x. tc_databaseId x = d) (m # ms)) (?d # new))" ..
    then show ?thesis using new other by (intro exI [of _ "?d # new"]) auto
  next
    case True
    then have last: "last touched = ?d" "touched \<noteq> []" using Cons.prems(1) by (auto split: if_splits)
    have td: "touched_databases ms touched = Some ds" using Cons.prems(1) True last by simp
    obtain new where new: "ds = touched @ new" "distinct ds"
      "ms = filter (\<lambda>x. touched \<noteq> [] \<and> tc_databaseId x = last touched) ms
         @ concat (map (\<lambda>d. filter (\<lambda>m. tc_databaseId m = d) ms) new)"
      "tc_databaseId ` set ms \<subseteq> set ds"
      using Cons.IH [OF td Cons.prems(2)] by blast
    have "?d \<notin> set new" using new(1,2) True by auto
    then have "map (\<lambda>d. filter (\<lambda>x. tc_databaseId x = d) (m # ms)) new = map (\<lambda>d. filter (\<lambda>x. tc_databaseId x = d) ms) new"
      by auto
    then have "filter (\<lambda>x. touched \<noteq> [] \<and> tc_databaseId x = last touched) (m # ms)
        @ concat (map (\<lambda>d. filter (\<lambda>x. tc_databaseId x = d) (m # ms)) new)
      = m # (filter (\<lambda>x. touched \<noteq> [] \<and> tc_databaseId x = last touched) ms
        @ concat (map (\<lambda>d. filter (\<lambda>x. tc_databaseId x = d) ms) new))"
      using last by (simp only: filter.simps append_Cons) simp
    also have "\<dots> = m # ms" using new(3) [symmetric] by simp
    finally have eq: "m # ms = filter (\<lambda>x. touched \<noteq> [] \<and> tc_databaseId x = last touched) (m # ms)
        @ concat (map (\<lambda>d. filter (\<lambda>x. tc_databaseId x = d) (m # ms)) new)" ..
    show ?thesis
    proof (intro exI conjI)
      show "ds = touched @ new" "distinct ds" by (rule new)+
      show "m # ms = filter (\<lambda>x. touched \<noteq> [] \<and> tc_databaseId x = last touched) (m # ms)
        @ concat (map (\<lambda>d. filter (\<lambda>x. tc_databaseId x = d) (m # ms)) new)" by (rule eq)
      show "tc_databaseId ` set (m # ms) \<subseteq> set ds" using new(1,4) True by auto
    qed
  qed
qed auto

section \<open>Validated entries\<close>

text \<open>The shape of the reserved locations that applying a commit message asserts, and the size and
  range of the \<open>NextFree\<close> values.\<close>

definition entry_checked :: "db_info \<Rightarrow> BlobData \<Rightarrow> bool" where
  "entry_checked db u = (let loc = bd_location u in
     (segment loc = NextFreeSegmentId \<longrightarrow> cluster loc = NextFreeClusterId \<and> blob loc = NextFreeBlobId
        \<and> bd_blobSize u = 4 \<and> info_nextFreeSegmentId db \<le> ReadId u \<and> ReadId u \<le> MaxSegmentId + 1) \<and>
     (cluster loc = SegmentDeleteId \<longrightarrow> blob loc = ClusterDeleteId) \<and>
     (cluster loc = NextFreeClusterId \<longrightarrow> blob loc = NextFreeBlobId) \<and>
     (segment loc \<noteq> NextFreeSegmentId \<longrightarrow> cluster loc = NextFreeClusterId \<longrightarrow> bd_blobSize u = 4 \<and> ReadId u \<le> MaxClusterId + 1
        \<and> (\<forall>n. info_nextFreeClusterId db (segment loc) = Some n \<longrightarrow> n \<le> ReadId u)) \<and>
     (cluster loc \<noteq> NextFreeClusterId \<longrightarrow> cluster loc \<noteq> SegmentDeleteId \<longrightarrow> blob loc = NextFreeBlobId
        \<longrightarrow> bd_blobSize u = 4 \<and> ReadId u \<le> MaxBlobId + 1) \<and>
     segment loc \<noteq> SegmentListId \<and> cluster loc \<noteq> ClusterListId \<and> blob loc \<noteq> BlobListId)"

lemma check_entry_success:
  assumes "check_entry db u created = (TC_SUCCESS, created')"
  shows "entry_checked db u"
proof -
  let ?loc = "bd_location u"
  consider "segment ?loc = NextFreeSegmentId" | "segment ?loc \<noteq> NextFreeSegmentId" "cluster ?loc = NextFreeClusterId"
    | "segment ?loc \<noteq> NextFreeSegmentId" "cluster ?loc \<noteq> NextFreeClusterId" "blob ?loc = NextFreeBlobId"
    | "segment ?loc \<noteq> NextFreeSegmentId" "cluster ?loc \<noteq> NextFreeClusterId" "blob ?loc \<noteq> NextFreeBlobId" by blast
  then show ?thesis
  proof cases
    case 1
    then show ?thesis using assms
      by (auto simp: check_entry_def check_next_segment_def entry_checked_def Let_def not_less split: if_splits)
  next
    case 2
    then show ?thesis using assms
      by (auto simp: check_entry_def check_next_cluster_def entry_checked_def Let_def not_less split: if_splits option.splits)
  next
    case 3
    then show ?thesis using assms
      by (auto simp: check_entry_def check_next_blob_def entry_checked_def Let_def not_less split: if_splits option.splits)
  next
    case 4
    then show ?thesis using assms
      by (auto simp: check_entry_def entry_checked_def Let_def split: if_splits)
  qed
qed

section \<open>Validated commits hold every lock\<close>

definition ranges_wf :: "BlobLocationRange list \<Rightarrow> bool" where
  "ranges_wf ranges = (\<forall>r \<in> set ranges. rg_begin r \<le> rg_end r)"

text \<open>\<open>covers_more a b\<close>: the ranges only grew.\<close>

definition covers_more :: "BlobLocationRange list \<Rightarrow> BlobLocationRange list \<Rightarrow> bool" where
  "covers_more a b = ((ranges_wf a \<longrightarrow> ranges_wf b) \<and> (ranges_wf a \<longrightarrow> (\<forall>l. Ranges_Encompasses a l \<longrightarrow> Ranges_Encompasses b l)))"

lemma covers_more_refl [simp]: "covers_more a a"
  by (simp add: covers_more_def)

lemma covers_more_trans: "covers_more a b \<Longrightarrow> covers_more b c \<Longrightarrow> covers_more a c"
  by (auto simp: covers_more_def)

lemma covers_more_append: "ranges_wf ys \<Longrightarrow> covers_more xs (xs @ ys)"
  by (auto simp: covers_more_def ranges_wf_def)

lemma EnterNewCluster_covers: "cl < cl + 1 \<Longrightarrow> covers_more xs (EnterNewCluster seg cl xs)"
  unfolding EnterNewCluster_def
  by (rule covers_more_append) (simp add: ranges_wf_def Range_blob_def location_le_iff word_le_nat_alt)

lemma EnterNewSegment_covers: "seg < seg + 1 \<Longrightarrow> covers_more xs (EnterNewSegment seg xs)"
  unfolding EnterNewSegment_def
  by (rule covers_more_trans [OF EnterNewCluster_covers covers_more_append])
    (simp_all add: ranges_wf_def location_le_iff)

lemma less_less_successor: "(a :: 'a::len word) < b \<Longrightarrow> a < a + 1"
  using unat_Suc_no_wrap [of a b] by (simp add: word_less_nat_alt)

lemma enter_segments_covers: "covers_more xs (enter_segments seg n xs)"
proof (induction seg n xs rule: enter_segments.induct)
  case (1 seg n xs)
  then show ?case
    by (subst enter_segments.simps) (auto intro: covers_more_trans EnterNewSegment_covers less_less_successor)
qed

lemma enter_clusters_covers: "covers_more xs (enter_clusters seg cl n xs)"
proof (induction seg cl n xs rule: enter_clusters.induct)
  case (1 seg cl n xs)
  then show ?case
    by (subst enter_clusters.simps) (auto intro: covers_more_trans EnterNewCluster_covers less_less_successor)
qed

lemma check_entry_covers:
  "check_entry db u created = (code, created') \<Longrightarrow> covers_more (bc_ranges created) (bc_ranges created')"
  using enter_segments_covers enter_clusters_covers
  by (auto simp: check_entry_def check_next_segment_def check_next_cluster_def check_next_blob_def
      NextFreeBlobIdCommitted_def Let_def split: if_splits option.splits)

lemma TryCreateBlob_covers:
  assumes "TryCreateBlob loc bc = (True, bc')" "ranges_wf (bc_ranges bc)"
  shows "ranges_wf (bc_ranges bc')"
    "Ranges_Encompasses (bc_ranges bc') l \<longleftrightarrow> Ranges_Encompasses (bc_ranges bc) l \<or> l = loc"
proof -
  let ?r = "Range_blob (segment loc) (cluster loc) (blob loc)"
  from assms(1) obtain e where e: "blob loc < blob e" "bc_ranges bc' = Ranges_Enter ?r (bc_ranges bc)"
    by (auto simp: TryCreateBlob_def not_le split: option.splits if_splits)
  have b: "blob loc < blob loc + 1" using e(1) by (rule less_less_successor)
  then have r: "rg_begin ?r \<le> rg_end ?r" by (cases loc) (simp add: Range_blob_def location_le_iff)
  show "Ranges_Encompasses (bc_ranges bc') l \<longleftrightarrow> Ranges_Encompasses (bc_ranges bc) l \<or> l = loc"
    using Encompasses_Enter [OF assms(2) [unfolded ranges_wf_def] r, of l] in_blob_range [OF b, of _ _ l] e(2) by simp
  show "ranges_wf (bc_ranges bc')"
  proof (cases "bc_ranges bc \<noteq> [] \<and> rg_end (last (bc_ranges bc)) = rg_begin ?r")
    case True
    then have "rg_begin (last (bc_ranges bc)) \<le> rg_end ?r"
      using assms(2) r last_in_set [of "bc_ranges bc"] unfolding ranges_wf_def by (metis order_trans)
    then show ?thesis using True assms(2) e(2) by (auto simp: ranges_wf_def Ranges_Enter_def dest: in_set_butlastD)
  next
    case False
    then show ?thesis using assms(2) e(2) r by (auto simp: ranges_wf_def Ranges_Enter_def)
  qed
qed

lemma owns_or_creates_covers:
  assumes "owns_or_creates db owns bc loc = (True, bc')" "ranges_wf (bc_ranges bc)"
  shows "covers_more (bc_ranges bc) (bc_ranges bc')" "owns loc \<or> Ranges_Encompasses (bc_ranges bc') loc"
  using assms TryCreateBlob_covers [of loc bc bc']
  by (auto simp: owns_or_creates_def EncompassesWithBlobCreation_def covers_more_def split: if_splits option.splits)

lemma all_locs_covers:
  assumes "all_locs (owns_or_creates db owns) ls bc = (True, bc')" "ranges_wf (bc_ranges bc)"
  shows "covers_more (bc_ranges bc) (bc_ranges bc') \<and> (\<forall>l \<in> set ls. owns l \<or> Ranges_Encompasses (bc_ranges bc') l)"
  using assms
proof (induction ls arbitrary: bc)
  case (Cons l ls)
  from Cons.prems(1) obtain bc1 where b1: "owns_or_creates db owns bc l = (True, bc1)"
    and b2: "all_locs (owns_or_creates db owns) ls bc1 = (True, bc')"
    by (auto split: prod.splits if_splits)
  note o = owns_or_creates_covers [OF b1 Cons.prems(2)]
  have wf1: "ranges_wf (bc_ranges bc1)" using o(1) Cons.prems(2) by (simp add: covers_more_def)
  note ih = Cons.IH [OF b2 wf1]
  show ?case
    using o ih covers_more_trans [OF o(1)] wf1 by (auto simp: covers_more_def)
qed simp

lemma all_clusters_visits_some:
  "all_clusters db seg p cs s = Some (True, s') \<Longrightarrow> \<exists>ls. all_locs p ls s = (True, s')"
proof (induction cs arbitrary: s)
  case Nil
  then show ?case by (intro exI [of _ "[]"]) simp
next
  case (Cons c cs)
  from Cons.prems obtain blobs s1 where
    s1: "all_locs p ([BlobLocation seg c ClusterDeleteId, BlobLocation seg c NextFreeBlobId, BlobLocation seg c BlobListId]
           @ map (BlobLocation seg c) blobs) s = (True, s1)"
    and rest: "all_clusters db seg p cs s1 = Some (True, s')"
    by (auto simp del: all_locs.simps split: option.splits prod.splits bool.splits)
  from Cons.IH [OF rest] obtain ls where "all_locs p ls s1 = (True, s')" by blast
  with s1 have "all_locs p (([BlobLocation seg c ClusterDeleteId, BlobLocation seg c NextFreeBlobId, BlobLocation seg c BlobListId]
           @ map (BlobLocation seg c) blobs) @ ls) s = (True, s')" by (simp only: all_locs_append prod.case bool.case)
  then show ?case by blast
qed

lemma AllLocksForLocation_visits_some:
  assumes "AllLocksForLocation db cs cc loc p s = Some (True, s')"
  shows "\<exists>ls. all_locs p ls s = (True, s')"
proof -
  have nil: "\<exists>ls. all_locs p ls s = (True, s)" by (intro exI [of _ "[]"]) simp
  have app: "\<exists>zs. all_locs p zs s = (True, s')" if "all_locs p xs s = (True, s1)" "\<exists>ys. all_locs p ys s1 = (True, s')" for xs s1
  proof -
    from that obtain ys where "all_locs p ys s1 = (True, s')" by blast
    then have "all_locs p (xs @ ys) s = (True, s')" using that(1) by (simp add: all_locs_append)
    then show ?thesis by blast
  qed
  show ?thesis
  proof (cases "blob loc = ClusterDeleteId \<and> cluster loc = SegmentDeleteId \<and> view_segment db (segment loc) \<noteq> None")
    case True
    let ?hd = "[loc, BlobLocation (segment loc) NextFreeClusterId NextFreeBlobId,
        BlobLocation (segment loc) ClusterListId BlobListId, SegmentListLocation]"
    from True assms obtain s1 clusters where h1: "all_locs p ?hd s = (True, s1)"
      and h2: "all_clusters db (segment loc) p clusters s1 = Some (True, s')"
      by (auto simp: AllLocksForLocation_def Let_def simp del: all_locs.simps split: prod.splits bool.splits)
    show ?thesis by (rule app [OF h1 all_clusters_visits_some [OF h2]])
  next
    case False
    then show ?thesis
      using assms nil
      by (auto simp: AllLocksForLocation_def Let_def simp del: all_locs.simps split: if_splits option.splits)
  qed
qed

lemma validate_entry_covers:
  assumes "validate_entry db owns u bc = Some (TC_SUCCESS, bc')" "ranges_wf (bc_ranges bc)"
  shows "entry_checked db u" "ranges_wf (bc_ranges bc')"
    "Ranges_Encompasses (bc_ranges bc) l \<Longrightarrow> Ranges_Encompasses (bc_ranges bc') l"
    "ForEachLockForLocation (info_view db) (bd_location u) = Some ls \<Longrightarrow> l \<in> set ls
       \<Longrightarrow> owns l \<or> Ranges_Encompasses (bc_ranges bc') l"
proof -
  from assms(1) obtain bc1 where all: "AllLocksForLocation (info_view db) (EncompassesCreatedSegment (bc_ranges bc))
        (EncompassesCreatedCluster (bc_ranges bc)) (bd_location u) (owns_or_creates (info_view db) owns) bc = Some (True, bc1)"
    and check: "check_entry db u bc1 = (TC_SUCCESS, bc')"
    by (auto simp: validate_entry_def split: bind_splits if_splits)
  show "entry_checked db u" using check by (rule check_entry_success)
  have c1: "covers_more (bc_ranges bc) (bc_ranges bc1)"
    using AllLocksForLocation_visits_some [OF all] all_locs_covers [OF _ assms(2)] by blast
  have locks: "owns l \<or> Ranges_Encompasses (bc_ranges bc1) l"
    if "ForEachLockForLocation (info_view db) (bd_location u) = Some ls" "l \<in> set ls" for ls l
    using all all_locs_covers [OF _ assms(2)] that by (auto simp: AllLocksForLocation_visits)
  note c2 = check_entry_covers [OF check]
  show "ranges_wf (bc_ranges bc')" using c1 c2 assms(2) by (simp add: covers_more_def)
  show "Ranges_Encompasses (bc_ranges bc) l \<Longrightarrow> Ranges_Encompasses (bc_ranges bc') l"
    using c1 c2 assms(2) by (simp add: covers_more_def)
  show "ForEachLockForLocation (info_view db) (bd_location u) = Some ls \<Longrightarrow> l \<in> set ls
       \<Longrightarrow> owns l \<or> Ranges_Encompasses (bc_ranges bc') l"
    using locks c1 c2 assms(2) by (auto simp: covers_more_def)
qed

end
