(* ===== verification/Server_State.thy ===== *)
theory Server_State
  imports Lock_Table Database_Store Commit_Validation
begin

text \<open>
  The state of the server process: the connected clients (ServerLib/Client.cpp), the opened databases
  (the static list of ServerLib/Database.cpp), the scheduled tasks and the messages sent. Objects that
  the source reaches through pointers are kept in maps; \<open>None\<close> as the result of an operation is a failed
  assertion of the source.
\<close>

section \<open>Clients\<close>

type_synonym db_ptr = nat

record DatabaseLocks =
  dbl_database :: "db_ptr option"
  dbl_locks :: "BlobLocation list"
  dbl_revokedLocks :: "BlobLocation list"
  dbl_isMVCC :: bool

record Client =
  c_commitMessages :: "TransactionCommit list"
  c_openDatabases :: "DatabaseLocks list"
  c_transactionPriority :: int
  c_hasTransaction :: bool

type_synonym clients = "client_id \<Rightarrow> Client option"

definition Client_new :: Client where
  "Client_new = \<lparr>c_commitMessages = [], c_openDatabases = [], c_transactionPriority = 0, c_hasTransaction = False\<rparr>"

definition Client_HasDatabaseOpened :: "Client \<Rightarrow> db_ptr \<Rightarrow> bool" where
  "Client_HasDatabaseOpened c db = list_ex (\<lambda>e. dbl_database e = Some db) (c_openDatabases c)"

definition Client_GetDatabase :: "Client \<Rightarrow> database_id \<Rightarrow> db_ptr option" where
  "Client_GetDatabase c i =
     (if unat i < length (c_openDatabases c) then dbl_database (c_openDatabases c ! unat i) else None)"

definition Client_LookupDatabase :: "Client \<Rightarrow> db_ptr \<Rightarrow> nat option" where
  "Client_LookupDatabase c db =
     (let pos = length (takeWhile (\<lambda>e. dbl_database e \<noteq> Some db) (c_openDatabases c)) in
      if pos < length (c_openDatabases c) then Some pos else None)"

definition Client_GetOpenDatabaseCount :: "Client \<Rightarrow> nat" where
  "Client_GetOpenDatabaseCount c = length (filter (\<lambda>e. dbl_database e \<noteq> None) (c_openDatabases c))"

definition Client_GetMaxDatabaseId :: "Client \<Rightarrow> database_id" where
  "Client_GetMaxDatabaseId c = (if c_openDatabases c = [] then 0 else of_nat (length (c_openDatabases c) - 1))"

definition Client_IsInsideTransaction :: "Client \<Rightarrow> bool" where
  "Client_IsInsideTransaction c = c_hasTransaction c"

definition Client_CommitInProcess :: "Client \<Rightarrow> bool" where
  "Client_CommitInProcess c = (c_commitMessages c \<noteq> [])"

definition DatabaseLocks_AddLock :: "BlobLocation \<Rightarrow> DatabaseLocks \<Rightarrow> DatabaseLocks" where
  "DatabaseLocks_AddLock lockLocation e =
     (if lockLocation \<in> set (dbl_locks e) then e else e\<lparr>dbl_locks := dbl_locks e @ [lockLocation]\<rparr>)"

text \<open>The assertion compares the sizes before and after; with an unsigned underflow it fails as well.\<close>

definition DatabaseLocks_ApplyRevokedLocks :: "DatabaseLocks \<Rightarrow> DatabaseLocks option" where
  "DatabaseLocks_ApplyRevokedLocks e =
     (let locks = filter (\<lambda>l. l \<notin> set (dbl_revokedLocks e)) (dbl_locks e) in
      if length locks + length (dbl_revokedLocks e) = length (dbl_locks e) then Some (e\<lparr>dbl_locks := locks\<rparr>) else None)"

definition set_entry :: "nat \<Rightarrow> DatabaseLocks \<Rightarrow> Client \<Rightarrow> Client" where
  "set_entry i e c = c\<lparr>c_openDatabases := (c_openDatabases c)[i := e]\<rparr>"

text \<open>\<open>dbEntry.ApplyRevokedLocks(); dbEntry.revokedLocks.clear()\<close>.\<close>

definition drop_revoked :: "DatabaseLocks \<Rightarrow> DatabaseLocks option" where
  "drop_revoked e = map_option (\<lambda>e. e\<lparr>dbl_revokedLocks := []\<rparr>) (DatabaseLocks_ApplyRevokedLocks e)"

definition Client_SetDatabaseMVCCMode :: "database_id \<Rightarrow> bool \<Rightarrow> Client \<Rightarrow> Client option" where
  "Client_SetDatabaseMVCCMode i useMVCC c =
     (if Client_GetDatabase c i = None then None
      else Some (set_entry (unat i) ((c_openDatabases c ! unat i)\<lparr>dbl_isMVCC := useMVCC\<rparr>) c))"

definition Client_IsDatabaseMVCC :: "Client \<Rightarrow> database_id \<Rightarrow> bool option" where
  "Client_IsDatabaseMVCC c i =
     (if Client_GetDatabase c i = None then None else Some (dbl_isMVCC (c_openDatabases c ! unat i)))"

definition Client_RevokeStickyLock :: "nat \<Rightarrow> BlobLocation \<Rightarrow> Client \<Rightarrow> Client" where
  "Client_RevokeStickyLock i lockLocation c =
     (let e = c_openDatabases c ! i in
      set_entry i (e\<lparr>dbl_revokedLocks := dbl_revokedLocks e @ [lockLocation]\<rparr>) c)"

section \<open>The sticky lock handler\<close>

text \<open>Lock holders are always connected and have the database opened, so the cases without a client or
  without the database are the assertions of \<open>Client::Get\<close> and \<open>RevokeStickyLock\<close>.\<close>

definition CanRevokeStickyLock :: "clients \<Rightarrow> client_id \<Rightarrow> bool" where
  "CanRevokeStickyLock clients i =
     (case clients i of None \<Rightarrow> False | Some c \<Rightarrow> \<not> Client_IsInsideTransaction c)"

definition RevokeStickyLock :: "db_ptr \<Rightarrow> clients \<Rightarrow> client_id \<Rightarrow> BlobLocation \<Rightarrow> clients" where
  "RevokeStickyLock db clients i location =
     (case clients i of
        None \<Rightarrow> clients
      | Some c \<Rightarrow> (case Client_LookupDatabase c db of
                    None \<Rightarrow> clients
                  | Some dbId \<Rightarrow> clients(i \<mapsto> Client_RevokeStickyLock dbId location c)))"

interpretation sticky: sticky_lock_interface CanRevokeStickyLock "RevokeStickyLock db" for db
  by unfold_locales
    (auto simp: CanRevokeStickyLock_def RevokeStickyLock_def Client_RevokeStickyLock_def set_entry_def Let_def
      Client_IsInsideTransaction_def fun_eq_iff split: option.splits)

section \<open>Databases and the server\<close>

record Database =
  db_name :: string
  db_fileDatabase :: bool
  db_useCount :: int
  db_store :: DbStore
  db_locks :: lock_table
  db_queuedReads :: "QueuedMessage list"
  db_delayedCloseAt :: "int option"

datatype ReadCode = BR_BLOB_DOES_NOT_EXIST | BR_CLUSTER_DOES_NOT_EXIST | BR_SEGMENT_DOES_NOT_EXIST
  | BR_DATABASE_NOT_OPENED | BR_NO_TRANSACTION_IN_PROGRESS | BR_CANNOT_WRITE_LOCK_IN_MVCC | BR_LOCK_TIMEOUT | BR_DEADLOCK

datatype CloseCode = CL_SUCCESS | CL_DATABASE_NOT_OPEN | CL_TRANSACTION_IN_PROGRESS

datatype BeginCode = TB_ERROR_ALREADY_IN_TRANSACTION | TB_ERROR_INVALID_DATABASE

text \<open>A blob of a response: location, commit id and content.\<close>

type_synonym response_blob = "BlobLocation \<times> commit_id \<times> byte list"

datatype Response =
    DatabaseOpenResponse OpenResult database_id
  | DatabaseCloseResponse CloseCode
  | BlobsReadResponse "response_blob list" bool
  | BlobsReadError ReadCode
  | TransactionBeginResponse "(database_id \<times> bool \<times> BlobLocation list) list"
  | TransactionBeginError BeginCode
  | TransactionCommitResponse "(database_id \<times> commit_id) list"
  | TransactionCommitError CommitCode

datatype Task = CloseTask db_ptr int | LockTimeoutTask db_ptr

record ServerState =
  st_clients :: clients
  st_databases :: "db_ptr \<Rightarrow> Database option"
  st_dbList :: "db_ptr list"
  st_nextPtr :: db_ptr
  st_sent :: "(client_id \<times> Response) list"
  st_tasks :: "(int \<times> Task) list"
  st_closeDelay :: int
  st_now :: int

text \<open>\<open>Scheduler::RunAt\<close> inserts a task behind those scheduled for the same time or earlier; times are in
  nanoseconds, the period of the steady clock. \<open>NextTaskDeadline\<close> is rounded towards zero to milliseconds,
  and a task whose deadline is not positive then is handed to the server thread.\<close>

definition Scheduler_RunAt :: "int \<Rightarrow> Task \<Rightarrow> (int \<times> Task) list \<Rightarrow> (int \<times> Task) list" where
  "Scheduler_RunAt timePoint task tasks =
     takeWhile (\<lambda>t. fst t \<le> timePoint) tasks @ [(timePoint, task)] @ dropWhile (\<lambda>t. fst t \<le> timePoint) tasks"

definition Scheduler_NextTaskDeadline :: "int \<Rightarrow> (int \<times> Task) list \<Rightarrow> int option" where
  "Scheduler_NextTaskDeadline now tasks =
     (case tasks of [] \<Rightarrow> None
      | t # _ \<Rightarrow> let d = fst t - now in Some (sgn d * (\<bar>d\<bar> div nanoseconds_per_ms)))"

definition Scheduler_NextTask :: "int \<Rightarrow> (int \<times> Task) list \<Rightarrow> (Task \<times> (int \<times> Task) list) option" where
  "Scheduler_NextTask now tasks =
     (case Scheduler_NextTaskDeadline now tasks of
        None \<Rightarrow> None
      | Some ms \<Rightarrow> if ms \<le> 0 then Some (snd (hd tasks), tl tasks) else None)"

definition Server_new :: "int \<Rightarrow> ServerState" where
  "Server_new closeDelay = \<lparr>st_clients = (\<lambda>_. None), st_databases = (\<lambda>_. None), st_dbList = [], st_nextPtr = 0,
     st_sent = [], st_tasks = [], st_closeDelay = closeDelay, st_now = 0\<rparr>"

definition SendMessageToClient :: "client_id \<Rightarrow> Response \<Rightarrow> ServerState \<Rightarrow> ServerState" where
  "SendMessageToClient i r st = st\<lparr>st_sent := st_sent st @ [(i, r)]\<rparr>"

abbreviation set_client :: "client_id \<Rightarrow> Client \<Rightarrow> ServerState \<Rightarrow> ServerState" where
  "set_client i c st \<equiv> st\<lparr>st_clients := (st_clients st)(i \<mapsto> c)\<rparr>"

abbreviation set_db :: "db_ptr \<Rightarrow> Database \<Rightarrow> ServerState \<Rightarrow> ServerState" where
  "set_db p db st \<equiv> st\<lparr>st_databases := (st_databases st)(p \<mapsto> db)\<rparr>"

definition ClientConnected :: "client_id \<Rightarrow> ServerState \<Rightarrow> ServerState option" where
  "ClientConnected i st = (if st_clients st i \<noteq> None then None else Some (set_client i Client_new st))"

section \<open>Opening and closing databases\<close>

text \<open>Note that a file database that is overwritten while it waits for its delayed close is reopened under
  the name as the client gave it: only the branch for unknown databases replaces it by the resolved path.\<close>

text \<open>The environment of \<open>Database::Open\<close>: path resolution and comparison of Paths.cpp over the Windows API,
  and \<open>CreateFileW\<close>.\<close>

record Env =
  env_resolvePath :: "string \<Rightarrow> string option"
  env_isSame :: "string \<Rightarrow> string \<Rightarrow> bool"
  env_createFile :: "string \<Rightarrow> CreationDisposition \<Rightarrow> bool \<times> LastError \<times> byte list"

definition is_memory_name :: "string \<Rightarrow> bool" where
  "is_memory_name n = (take 4 n = ''mem:'')"

definition find_database :: "(Database \<Rightarrow> bool) \<Rightarrow> ServerState \<Rightarrow> db_ptr option" where
  "find_database P st = find (\<lambda>p. case st_databases st p of None \<Rightarrow> False | Some db \<Rightarrow> P db) (st_dbList st)"

definition Database_Get :: "string \<Rightarrow> ServerState \<Rightarrow> db_ptr option" where
  "Database_Get databaseName st = find_database (\<lambda>db. db_name db = databaseName) st"

text \<open>Closing deletes the database object.\<close>

definition Database_Close :: "db_ptr \<Rightarrow> ServerState \<Rightarrow> ServerState" where
  "Database_Close p st = st\<lparr>st_databases := (st_databases st)(p := None), st_dbList := remove1 p (st_dbList st)\<rparr>"

definition Database_Release :: "db_ptr \<Rightarrow> ServerState \<Rightarrow> ServerState option" where
  "Database_Release p st = do {
     db \<leftarrow> st_databases st p;
     let db' = db\<lparr>db_useCount := db_useCount db - 1\<rparr>;
     Some (if db_useCount db - 1 = 0
           then if st_closeDelay st > 0
                then let closeTimePoint = st_now st + st_closeDelay st in
                     (set_db p (db'\<lparr>db_delayedCloseAt := Some closeTimePoint\<rparr>) st)
                       \<lparr>st_tasks := Scheduler_RunAt closeTimePoint (CloseTask p closeTimePoint) (st_tasks st)\<rparr>
                else Database_Close p (set_db p db' st)
           else set_db p db' st) }"

definition new_database :: "string \<Rightarrow> DbStore \<Rightarrow> Database" where
  "new_database n store = \<lparr>db_name = n, db_fileDatabase = (\<not> is_memory_name n), db_useCount = 0, db_store = store,
     db_locks = (\<lambda>_. None), db_queuedReads = [], db_delayedCloseAt = None\<rparr>"

text \<open>The second half of \<open>Database::Open\<close>: a database that is not known yet is created or loaded. A failed
  load closes it again, which leaves no trace.\<close>

definition open_unknown :: "Env \<Rightarrow> string \<Rightarrow> OpenMode \<Rightarrow> ServerState \<Rightarrow> (OpenResult \<times> db_ptr option \<times> ServerState) option" where
  "open_unknown env n openMode st =
     (if is_memory_name n \<and> openMode = OpenFailIfNotExist then Some (DATABASE_DOES_NOT_EXIST, None, st)
      else do {
        let p = st_nextPtr st;
        (r, store) \<leftarrow> (if is_memory_name n then map_option (\<lambda>s. (OPEN_SUCCESS, Some s)) Database_InitializeInMemory
                       else Some (Database_LoadFromFile (env_createFile env n) openMode));
        Some (case store of
                None \<Rightarrow> (r, None, st\<lparr>st_nextPtr := Suc p\<rparr>)
              | Some s \<Rightarrow> (OPEN_SUCCESS, Some p,
                   (set_db p ((new_database n s)\<lparr>db_useCount := 1\<rparr>) st)
                     \<lparr>st_dbList := st_dbList st @ [p], st_nextPtr := Suc p\<rparr>)) })"

definition Database_Open ::
  "Env \<Rightarrow> string \<Rightarrow> OpenMode \<Rightarrow> ServerState \<Rightarrow> (OpenResult \<times> db_ptr option \<times> ServerState) option" where
  "Database_Open env databaseName openMode st =
     (case (if is_memory_name databaseName then Some (Database_Get databaseName st, databaseName)
            else map_option (\<lambda>resolved. (find_database (\<lambda>db. env_isSame env resolved (db_name db)) st, resolved))
                   (env_resolvePath env databaseName)) of
        None \<Rightarrow> Some (ILLEGAL_DATABASE_PATH, None, st)
      | Some (None, n) \<Rightarrow> open_unknown env n openMode st
      | Some (Some p, n) \<Rightarrow> do {
          db \<leftarrow> st_databases st p;
          if openMode = CreateAlways
          then if db_useCount db > 0 then Some (CANNOT_OVERWRITE_OPEN_DATABASE, None, st)
               else open_unknown env databaseName openMode (Database_Close p st)
          else if openMode = CreateFailIfExist then Some (DATABASE_ALREADY_EXISTS, None, st)
          else Some (OPEN_SUCCESS, Some p, set_db p (db\<lparr>db_useCount := db_useCount db + 1\<rparr>) st) })"

end
