(* ===== verification/Lock_Properties.thy ===== *)
theory Lock_Properties
  imports Server_State
begin

text \<open>
  The properties of the lock tables: acquiring all the locks of a request or none, releasing, which
  locations an access has to lock, and which deadlocks are found.
\<close>

section \<open>Which locations are locked\<close>

text \<open>C34: the check with early exit (\<open>AllLocksForLocation\<close>) visits exactly the locations, in the order, in
  which \<open>ForEachLockForLocation\<close> visits them, so that what is checked is what is locked; and the
  locks for deleting a segment include all the locks for deleting any of its clusters.\<close>

theorem checked_locks_are_acquired_locks:
  assumes "ForEachLockForLocation db loc = Some ls"
  shows "AllLocksForLocation db createdSegment createdCluster loc p s = Some (all_locs p ls s)
    \<and> loc \<in> set ls
    \<and> (\<forall>seg clusters c ls'. loc = BlobLocation seg SegmentDeleteId ClusterDeleteId \<longrightarrow> view_segment db seg = Some clusters
         \<longrightarrow> c \<in> set clusters \<longrightarrow> c \<noteq> SegmentDeleteId
         \<longrightarrow> ForEachLockForLocation db (BlobLocation seg c ClusterDeleteId) = Some ls' \<longrightarrow> set ls' \<subseteq> set ls)"
proof (intro conjI allI impI)
  show "AllLocksForLocation db createdSegment createdCluster loc p s = Some (all_locs p ls s)" "loc \<in> set ls"
    using AllLocksForLocation_visits [OF assms] ForEachLockForLocation_self [OF assms] by simp_all
next
  fix seg clusters c ls'
  assume "loc = BlobLocation seg SegmentDeleteId ClusterDeleteId" "view_segment db seg = Some clusters" "c \<in> set clusters"
    "c \<noteq> SegmentDeleteId" "ForEachLockForLocation db (BlobLocation seg c ClusterDeleteId) = Some ls'"
  with assms show "set ls' \<subseteq> set ls" by (intro segment_delete_covers_cluster_delete [of db seg]) simp_all
qed

definition sample_view :: db_view where
  "sample_view = \<lparr>view_segment = (\<lambda>s. if s = 0 then Some [0] else None),
     view_cluster = (\<lambda>s c. if s = 0 \<and> c = 0 then Some [0, 5] else None)\<rparr>"

theorem checked_locks_are_acquired_locks_witness:
  "\<exists>ls. ForEachLockForLocation sample_view (BlobLocation 0 0 ClusterDeleteId) = Some ls \<and> length ls = 6
     \<and> AllLocksForLocation sample_view (\<lambda>_. False) (\<lambda>_ _. False) (BlobLocation 0 0 ClusterDeleteId)
         (\<lambda>n l. (n < 3, n + 1)) (0 :: nat) = Some (False, 4)"
proof -
  have "ForEachLockForLocation sample_view (BlobLocation 0 0 ClusterDeleteId)
      = Some [BlobLocation 0 0 ClusterDeleteId, BlobLocation 0 0 NextFreeBlobId, BlobLocation 0 0 BlobListId,
              BlobLocation 0 ClusterListId BlobListId, BlobLocation 0 0 0, BlobLocation 0 0 5]" (is "_ = Some ?ls")
    by code_simp
  moreover from this have "AllLocksForLocation sample_view (\<lambda>_. False) (\<lambda>_ _. False) (BlobLocation 0 0 ClusterDeleteId)
         (\<lambda>n l. (n < 3, n + 1)) (0 :: nat) = Some (all_locs (\<lambda>n l. (n < 3, n + 1)) ?ls 0)"
    by (rule checked_locks_are_acquired_locks [THEN conjunct1])
  ultimately show ?thesis by simp
qed

section \<open>Acquiring and releasing\<close>

text \<open>C6: a request gets all of its locks or none. They are granted exactly when each of them is free of
  conflicts with clients inside a transaction; a refused request changes neither the lock table nor
  any client; a granted one leaves all other locations alone and takes nothing away from a client
  that is inside a transaction.\<close>

theorem acquire_all_or_nothing:
  assumes "table_ok locks" "ForEachLockInMessage db (br_locations m) = Some ls"
  shows "\<exists>ok locks' clients'.
      Database_AcquireLocks CanRevokeStickyLock (RevokeStickyLock p) db m (locks, clients) = Some (ok, locks', clients')
    \<and> (ok \<longleftrightarrow> (\<forall>l \<in> set ls. Database_CanClientAcquireLock (CanRevokeStickyLock clients) locks (br_clientId m) l
                                (BlobsRead_NeedsWriteLock m)))
    \<and> (\<not> ok \<longrightarrow> locks' = locks \<and> clients' = clients)
    \<and> (ok \<longrightarrow> (\<forall>l \<in> set ls. table_grants locks' (br_clientId m) l (BlobsRead_NeedsWriteLock m)))
    \<and> table_ok locks' \<and> (\<forall>l. l \<notin> set ls \<longrightarrow> locks' l = locks l)
    \<and> (\<forall>d l v. \<not> CanRevokeStickyLock clients d \<longrightarrow> table_grants locks d l v \<longrightarrow> table_grants locks' d l v)"
proof -
  obtain locks' clients' where f: "fold (Database_AcquireClientLock (RevokeStickyLock p) (br_clientId m)
      (BlobsRead_NeedsWriteLock m)) ls (locks, clients) = (locks', clients')" by fastforce
  note eq = AcquireLocks_eq [OF assms(2), of CanRevokeStickyLock "RevokeStickyLock p" locks clients]
  show ?thesis
  proof (cases "list_all (\<lambda>l. Database_CanClientAcquireLock (CanRevokeStickyLock clients) locks (br_clientId m) l
      (BlobsRead_NeedsWriteLock m)) ls")
    case True
    with sticky.acquire_all [OF assms(1) _ f] eq f show ?thesis by (simp add: list_all_iff) blast
  next
    case False
    with assms eq show ?thesis by (auto simp: list_all_iff)
  qed
qed

text \<open>Client 1 is inside a transaction and holds a write lock, client 2 holds a sticky read lock.\<close>

definition active_client :: Client where
  "active_client = Client_new\<lparr>c_hasTransaction := True\<rparr>"

definition sample_clients :: clients where
  "sample_clients = [1 \<mapsto> active_client, 2 \<mapsto> Client_new, 3 \<mapsto> active_client]"

definition sample_locks :: lock_table where
  "sample_locks = [BlobLocation 0 0 0 \<mapsto> Lock_new (BlobLocation 0 0 0) 1 True,
     BlobLocation 0 0 5 \<mapsto> Lock_new (BlobLocation 0 0 5) 2 False]"

lemma sample_locks_ok: "table_ok sample_locks"
  by (simp add: sample_locks_def table_ok_def)

definition sample_read :: "client_id \<Rightarrow> LockMode \<Rightarrow> BlobLocation list \<Rightarrow> BlobsRead" where
  "sample_read i mode ls = \<lparr>br_clientId = i, br_databaseId = 0, br_lockMode = mode, br_lockTimeoutMs = - 1,
     br_blobs = map (\<lambda>l. \<lparr>ba_location = l, ba_cacheCommitId = 0\<rparr>) ls\<rparr>"

lemma sample_read_locks:
  "ForEachLockInMessage db (br_locations (sample_read i mode [BlobLocation 0 0 5])) = Some [BlobLocation 0 0 5]"
  "ForEachLockInMessage db (br_locations (sample_read i mode [BlobLocation 0 0 0])) = Some [BlobLocation 0 0 0]"
proof -
  have "0 \<noteq> ClusterDeleteId" "0 \<noteq> NextFreeBlobId" "5 \<noteq> ClusterDeleteId" "5 \<noteq> NextFreeBlobId" by code_simp+
  then show
    "ForEachLockInMessage db (br_locations (sample_read i mode [BlobLocation 0 0 5])) = Some [BlobLocation 0 0 5]"
    "ForEachLockInMessage db (br_locations (sample_read i mode [BlobLocation 0 0 0])) = Some [BlobLocation 0 0 0]"
    by (simp_all add: sample_read_def ForEachLockForLocation_def)
qed

theorem acquire_all_or_nothing_witness:
  "\<exists>locks' clients'.
     Database_AcquireLocks CanRevokeStickyLock (RevokeStickyLock 0) sample_view (sample_read 3 LM_Write [BlobLocation 0 0 5])
       (sample_locks, sample_clients) = Some (True, locks', clients')
     \<and> table_grants locks' 3 (BlobLocation 0 0 5) True \<and> table_grants locks' 1 (BlobLocation 0 0 0) True"
proof -
  have can: "Database_CanClientAcquireLock (CanRevokeStickyLock sample_clients) sample_locks 3 (BlobLocation 0 0 5) True"
    by code_simp
  have grants: "table_grants sample_locks 1 (BlobLocation 0 0 0) True" "\<not> CanRevokeStickyLock sample_clients 1"
    by code_simp+
  show ?thesis
    using acquire_all_or_nothing [OF sample_locks_ok sample_read_locks(1) [of sample_view 3 LM_Write], of 0 sample_clients] can grants
    by (auto simp: sample_read_def BlobsRead_NeedsWriteLock_def)
qed



section \<open>Deadlocks\<close>

text \<open>C7: when a request is queued, every deadlock that is reported is real (the two clients wait for each
  other), there is one report per client, and every client with a queued request that waits for the
  new client while the new client waits for it is reported.\<close>

theorem deadlock_detection:
  assumes "ForEachLockInMessage db (br_locations m) \<noteq> None" "queue_views_ok db queue"
    and "waits_for canRevoke db locks m d loc" "br_lockTimeoutMs m \<noteq> 0"
  shows "\<exists>ds q. Database_QueueReadCheckDeadlock canRevoke db locks now queue m = Some (ds, queue @ [q]) \<and> qm_message q = m
    \<and> (\<forall>x \<in> set ds. real_deadlock canRevoke db locks m queue x) \<and> distinct (map dl_client1 ds)
    \<and> (\<forall>q \<in> set queue. (\<exists>l. waits_for canRevoke db locks m (br_clientId (qm_message q)) l)
          \<and> (\<exists>l. waits_for canRevoke db locks (qm_message q) (br_clientId m) l)
         \<longrightarrow> br_clientId (qm_message q) \<in> dl_client1 ` set ds)"
proof -
  obtain ls where ls: "ForEachLockInMessage db (br_locations m) = Some ls" using assms(1) by blast
  obtain cs where cs: "Database_CollectLockConflicts canRevoke db locks m = Some cs"
    using ls by (auto simp: Database_CollectLockConflicts_def Let_def)
  note mem = CollectLockConflicts_eq [OF ls cs]
  have w: "waits_for canRevoke db locks m (lc_blockedBy c) (lc_location c)" if "c \<in> set cs" for c
    using that mem [of c] ls by (simp add: waits_for_def)
  have blocked: "e \<in> lc_blockedBy ` set cs" if "waits_for canRevoke db locks m e l" for e l
    using that mem [of "\<lparr>lc_location = l, lc_blockedBy = e\<rparr>"] ls by (force simp: waits_for_def)
  then have ne: "cs \<noteq> []" using assms(3) by fastforce
  have "deadlocks_sound canRevoke db locks m queue []" by (simp add: deadlocks_sound_def)
  from collect_deadlocks_spec [OF w assms(2) subset_refl this] obtain ds where ds:
    "collect_deadlocks canRevoke db locks m cs queue [] = Some ds" "deadlocks_sound canRevoke db locks m queue ds"
    "deadlocks_complete canRevoke db locks m cs queue ds" by auto
  then show ?thesis
    using cs ne assms(4) blocked
    by (fastforce simp: Database_QueueReadCheckDeadlock_def deadlocks_sound_def deadlocks_complete_def)
qed

text \<open>Clients 1 and 3 are inside a transaction, each holds a write lock the other one requests.\<close>

definition crossed_locks :: lock_table where
  "crossed_locks = [BlobLocation 0 0 0 \<mapsto> Lock_new (BlobLocation 0 0 0) 1 True,
     BlobLocation 0 0 5 \<mapsto> Lock_new (BlobLocation 0 0 5) 3 True]"

theorem deadlock_detection_witness:
  "\<exists>ds q. Database_QueueReadCheckDeadlock (CanRevokeStickyLock sample_clients) sample_view crossed_locks 0
       [\<lparr>qm_message = sample_read 3 LM_Read [BlobLocation 0 0 0], qm_lockTimeoutTime = None\<rparr>]
       (sample_read 1 LM_Write [BlobLocation 0 0 5]) = Some (ds, q) \<and> map dl_client1 ds = [3]"
proof -
  let ?m = "sample_read 1 LM_Write [BlobLocation 0 0 5]" and ?q = "sample_read 3 LM_Read [BlobLocation 0 0 0]"
  let ?queue = "[\<lparr>qm_message = ?q, qm_lockTimeoutTime = None\<rparr>]" and ?r = "CanRevokeStickyLock sample_clients"
  have "location_conflicts ?r crossed_locks 1 True (BlobLocation 0 0 5) = [3]"
    "location_conflicts ?r crossed_locks 3 False (BlobLocation 0 0 0) = [1]" by code_simp+
  then have w: "waits_for ?r sample_view crossed_locks ?m 3 (BlobLocation 0 0 5)"
      "waits_for ?r sample_view crossed_locks ?q 1 (BlobLocation 0 0 0)"
    using sample_read_locks(1) [of sample_view 1 LM_Write] sample_read_locks(2) [of sample_view 3 LM_Read]
    by (simp_all add: waits_for_def sample_read_def BlobsRead_NeedsWriteLock_def)
  have "queue_views_ok sample_view ?queue" using sample_read_locks by (simp add: queue_views_ok_def)
  from deadlock_detection [OF _ this w(1), of 0] obtain ds q where ds:
    "Database_QueueReadCheckDeadlock ?r sample_view crossed_locks 0 ?queue ?m = Some (ds, ?queue @ [q])"
    "distinct (map dl_client1 ds)" "3 \<in> dl_client1 ` set ds" "\<forall>x \<in> set ds. real_deadlock ?r sample_view crossed_locks ?m ?queue x"
    using w sample_read_locks(1) [of sample_view 1 LM_Write] by (auto simp: sample_read_def)
  then have "set (map dl_client1 ds) = {3}" by (auto simp: real_deadlock_def sample_read_def)
  moreover have "map dl_client1 ds \<noteq> []" using ds(3) by auto
  ultimately have "map dl_client1 ds = [3]"
    using ds(2) by (cases "map dl_client1 ds" rule: remdups_adj.cases) auto
  with ds(1) show ?thesis by (intro exI conjI)
qed

definition circular_locks :: lock_table where
  "circular_locks = [BlobLocation 0 0 1 \<mapsto> Lock_new (BlobLocation 0 0 1) 1 True,
     BlobLocation 0 0 2 \<mapsto> Lock_new (BlobLocation 0 0 2) 2 True,
     BlobLocation 0 0 3 \<mapsto> Lock_new (BlobLocation 0 0 3) 3 True]"

definition circular_request :: "client_id \<Rightarrow> blob_id \<Rightarrow> QueuedMessage" where
  "circular_request i b = \<lparr>qm_message = sample_read i LM_Write [BlobLocation 0 0 b], qm_lockTimeoutTime = None\<rparr>"

text \<open>A cycle of three clients is not found: each of them waits for a lock of the next one, and queueing
  the last request reports no deadlock, so that without a timeout they wait for ever.\<close>

theorem circular_wait_not_detected:
  "waits_for (\<lambda>_. False) sample_view circular_locks (qm_message (circular_request 1 2)) 2 (BlobLocation 0 0 2)
   \<and> waits_for (\<lambda>_. False) sample_view circular_locks (qm_message (circular_request 2 3)) 3 (BlobLocation 0 0 3)
   \<and> waits_for (\<lambda>_. False) sample_view circular_locks (qm_message (circular_request 3 1)) 1 (BlobLocation 0 0 1)
   \<and> Database_QueueReadCheckDeadlock (\<lambda>_. False) sample_view circular_locks 0
       [circular_request 1 2, circular_request 2 3] (qm_message (circular_request 3 1))
     = Some ([], [circular_request 1 2, circular_request 2 3, circular_request 3 1])"
  by code_simp

end
