(* ===== verification/Server_Client.thy ===== *)
theory Server_Client
  imports Server_State
begin

text \<open>
  The operations of ServerLib/Client.cpp that involve the databases a client has opened: opening and
  closing, transactions, and keeping the client's list of locks in step with the lock tables.
\<close>

section \<open>Access to a database\<close>

definition update_store :: "db_ptr \<Rightarrow> (DbStore \<Rightarrow> DbStore) \<Rightarrow> ServerState \<Rightarrow> ServerState option" where
  "update_store p f st = do { db \<leftarrow> st_databases st p; Some (set_db p (db\<lparr>db_store := f (db_store db)\<rparr>) st) }"

text \<open>The ids LockUtil.hpp iterates over.\<close>

definition db_view_of :: "DbStore \<Rightarrow> db_view" where
  "db_view_of store = \<lparr>
     view_segment = (\<lambda>seg. case Database_GetLoadedSegment seg False store of
        Some (Some s, store') \<Rightarrow> Some (map fst (sg_clusters (hp_segments (ds_heap store') s)))
      | _ \<Rightarrow> None),
     view_cluster = (\<lambda>seg cl. case Database_GetLoadedCluster seg cl False store of
        Some (Some a, store') \<Rightarrow> Some (map fst (cl_blobs (hp_clusters (ds_heap store') a)))
      | _ \<Rightarrow> None)\<rparr>"

definition db_info_of :: "DbStore \<Rightarrow> db_info" where
  "db_info_of store = \<lparr>
     info_view = db_view_of store,
     info_nextFreeSegmentId = sn_nextFreeSegmentId (ds_snapshot store),
     info_nextFreeClusterId = (\<lambda>seg. case Database_GetLoadedSegment seg False store of
        Some (Some s, store') \<Rightarrow> Some (sg_nextFreeClusterId (hp_segments (ds_heap store') s))
      | _ \<Rightarrow> None),
     info_nextFreeBlobId = (\<lambda>seg cl. case Database_GetLoadedSegment seg False store of
        Some (Some s, store') \<Rightarrow>
          map_option (\<lambda>a. cl_nextFreeBlobId (hp_clusters (ds_heap store') a))
            (Segment_GetCluster (hp_segments (ds_heap store') s) cl)
      | _ \<Rightarrow> None)\<rparr>"

section \<open>Opening and closing\<close>

definition empty_entry :: DatabaseLocks where
  "empty_entry = \<lparr>dbl_database = None, dbl_locks = [], dbl_revokedLocks = [], dbl_isMVCC = False\<rparr>"

text \<open>The inner result \<open>None\<close> is the exception for too many databases.\<close>

definition Client_OpenDatabase ::
  "client_id \<Rightarrow> db_ptr \<Rightarrow> bool \<Rightarrow> ServerState \<Rightarrow> (database_id option \<times> ServerState) option" where
  "Client_OpenDatabase i p mvcc st = do {
     c \<leftarrow> st_clients st i;
     let dbs = c_openDatabases c;
     let pos = length (takeWhile (\<lambda>e. dbl_database e \<noteq> None) dbs);
     if pos = length dbs \<and> length dbs = 254 then Some (None, st)
     else do {
       let entries = (if pos = length dbs then dbs @ [empty_entry] else dbs);
       let e = (entries ! pos)\<lparr>dbl_database := Some p, dbl_isMVCC := mvcc\<rparr>;
       let st1 = set_client i (c\<lparr>c_openDatabases := entries[pos := e]\<rparr>) st;
       st2 \<leftarrow> (if c_hasTransaction c \<and> mvcc then update_store p Database_BeginMVCC st1 else Some st1);
       Some (Some (of_nat pos), st2) } }"

definition Client_CloseDatabase :: "client_id \<Rightarrow> database_id \<Rightarrow> ServerState \<Rightarrow> (bool \<times> ServerState) option" where
  "Client_CloseDatabase i dbId st = do {
     c \<leftarrow> st_clients st i;
     if c_hasTransaction c then None
     else case Client_GetDatabase c dbId of
       None \<Rightarrow> Some (False, st)
     | Some p \<Rightarrow> do {
         e \<leftarrow> drop_revoked (c_openDatabases c ! unat dbId);
         db \<leftarrow> st_databases st p;
         (locks, queue) \<leftarrow> Database_AbortClientTransaction (db_locks db) (db_queuedReads db) i (dbl_locks e);
         let st1 = set_db p (db\<lparr>db_locks := locks, db_queuedReads := queue\<rparr>) st;
         let st2 = set_client i (set_entry (unat dbId) (e\<lparr>dbl_locks := [], dbl_database := None\<rparr>) c) st1;
         st3 \<leftarrow> Database_Release p st2;
         Some (True, st3) } }"

fun close_databases :: "client_id \<Rightarrow> nat list \<Rightarrow> ServerState \<Rightarrow> ServerState option" where
  "close_databases i [] st = Some st"
| "close_databases i (n # ns) st = do {
     c \<leftarrow> st_clients st i;
     st' \<leftarrow> (if dbl_database (c_openDatabases c ! n) \<noteq> None
             then map_option snd (Client_CloseDatabase i (of_nat n) st) else Some st);
     close_databases i ns st' }"

definition Client_CloseAllDatabases :: "client_id \<Rightarrow> ServerState \<Rightarrow> ServerState option" where
  "Client_CloseAllDatabases i st = do {
     c \<leftarrow> st_clients st i; close_databases i [0..<length (c_openDatabases c)] st }"

section \<open>Transactions\<close>

fun begin_mvcc :: "DatabaseLocks list \<Rightarrow> ServerState \<Rightarrow> ServerState option" where
  "begin_mvcc [] st = Some st"
| "begin_mvcc (e # es) st = do {
     st' \<leftarrow> (case dbl_database e of
               Some p \<Rightarrow> if dbl_isMVCC e then update_store p Database_BeginMVCC st else Some st
             | None \<Rightarrow> Some st);
     begin_mvcc es st' }"

definition Client_BeginTransaction :: "client_id \<Rightarrow> int \<Rightarrow> ServerState \<Rightarrow> ServerState option" where
  "Client_BeginTransaction i txnPriority st = do {
     c \<leftarrow> st_clients st i;
     begin_mvcc (c_openDatabases c)
       (set_client i (c\<lparr>c_hasTransaction := True, c_transactionPriority := txnPriority\<rparr>) st) }"

definition abort_entry :: "client_id \<Rightarrow> bool \<Rightarrow> DatabaseLocks \<Rightarrow> ServerState \<Rightarrow> (DatabaseLocks \<times> ServerState) option" where
  "abort_entry i releaseAllLocks e st =
     (case dbl_database e of
        None \<Rightarrow> Some (e, st)
      | Some p \<Rightarrow>
          if dbl_revokedLocks e \<noteq> [] then None
          else do {
            db \<leftarrow> st_databases st p;
            (locks, queue) \<leftarrow> Database_AbortClientTransaction (db_locks db) (db_queuedReads db) i
               (if releaseAllLocks then dbl_locks e else []);
            let store = (if dbl_isMVCC e then Database_EndMVCC (db_store db) else db_store db);
            Some (if releaseAllLocks then e\<lparr>dbl_locks := []\<rparr> else e,
                  set_db p (db\<lparr>db_locks := locks, db_queuedReads := queue, db_store := store\<rparr>) st) })"

fun abort_entries ::
  "client_id \<Rightarrow> bool \<Rightarrow> DatabaseLocks list \<Rightarrow> ServerState \<Rightarrow> (DatabaseLocks list \<times> ServerState) option" where
  "abort_entries i releaseAllLocks [] st = Some ([], st)"
| "abort_entries i releaseAllLocks (e # es) st = do {
     (e', st1) \<leftarrow> abort_entry i releaseAllLocks e st;
     (es', st2) \<leftarrow> abort_entries i releaseAllLocks es st1;
     Some (e' # es', st2) }"

definition Client_AbortTransaction :: "client_id \<Rightarrow> bool \<Rightarrow> ServerState \<Rightarrow> (bool \<times> ServerState) option" where
  "Client_AbortTransaction i releaseAllLocks st = do {
     c \<leftarrow> st_clients st i;
     if c_hasTransaction c
     then do {
       (entries, st1) \<leftarrow> abort_entries i releaseAllLocks (c_openDatabases c) st;
       Some (True, set_client i (c\<lparr>c_openDatabases := entries, c_hasTransaction := False\<rparr>) st1) }
     else Some (False, st) }"

section \<open>Locks\<close>

definition Client_AcquireLocks :: "BlobsRead \<Rightarrow> ServerState \<Rightarrow> (bool \<times> ServerState) option" where
  "Client_AcquireLocks message st = do {
     let i = br_clientId message;
     c \<leftarrow> st_clients st i;
     p \<leftarrow> Client_GetDatabase c (br_databaseId message);
     db \<leftarrow> st_databases st p;
     if \<not> Client_IsInsideTransaction c then None
     else do {
       let view = db_view_of (db_store db);
       (ok, locks, clients) \<leftarrow> Database_AcquireLocks CanRevokeStickyLock (RevokeStickyLock p) view message
          (db_locks db, st_clients st);
       let st1 = set_db p (db\<lparr>db_locks := locks\<rparr>) (st\<lparr>st_clients := clients\<rparr>);
       if ok then do {
         locations \<leftarrow> ForEachLockInMessage view (br_locations message);
         c' \<leftarrow> clients i;
         let n = unat (br_databaseId message);
         Some (True, set_client i (set_entry n (fold DatabaseLocks_AddLock locations (c_openDatabases c' ! n)) c') st1) }
       else Some (False, st1) } }"

definition Client_AcquireImplicitWriteLocks ::
  "client_id \<Rightarrow> database_id \<Rightarrow> BlobLocation list \<Rightarrow> ServerState \<Rightarrow> ServerState option" where
  "Client_AcquireImplicitWriteLocks i dbId writeLocks st = do {
     c \<leftarrow> st_clients st i;
     p \<leftarrow> Client_GetDatabase c dbId;
     db \<leftarrow> st_databases st p;
     let (locks, clients) = Database_AcquireImplicitWriteLocks (RevokeStickyLock p) i writeLocks
           (db_locks db, st_clients st);
     c' \<leftarrow> clients i;
     let e = c_openDatabases c' ! unat dbId;
     Some (set_client i (set_entry (unat dbId) (e\<lparr>dbl_locks := dbl_locks e @ writeLocks\<rparr>) c')
             (set_db p (db\<lparr>db_locks := locks\<rparr>) (st\<lparr>st_clients := clients\<rparr>))) }"

definition Client_ReleaseDeletedLocks ::
  "client_id \<Rightarrow> database_id \<Rightarrow> Deleted \<Rightarrow> ServerState \<Rightarrow> ServerState option" where
  "Client_ReleaseDeletedLocks i dbId deleted st = do {
     c \<leftarrow> st_clients st i;
     p \<leftarrow> Client_GetDatabase c dbId;
     db \<leftarrow> st_databases st p;
     let e = c_openDatabases c ! unat dbId;
     locks \<leftarrow> Database_ReleaseLocks (db_locks db) i (filter (Deleted_IsDeleted deleted) (dbl_locks e));
     Some (set_client i (set_entry (unat dbId)
              (e\<lparr>dbl_locks := filter (\<lambda>l. \<not> Deleted_IsDeleted deleted l) (dbl_locks e)\<rparr>) c)
             (set_db p (db\<lparr>db_locks := locks\<rparr>) st)) }"

definition Client_ReleaseAllLocksForDatabase :: "client_id \<Rightarrow> database_id \<Rightarrow> ServerState \<Rightarrow> ServerState option" where
  "Client_ReleaseAllLocksForDatabase i dbId st = do {
     c \<leftarrow> st_clients st i;
     p \<leftarrow> Client_GetDatabase c dbId;
     db \<leftarrow> st_databases st p;
     e \<leftarrow> drop_revoked (c_openDatabases c ! unat dbId);
     locks \<leftarrow> Database_ReleaseLocks (db_locks db) i (dbl_locks e);
     Some (set_client i (set_entry (unat dbId) (e\<lparr>dbl_locks := []\<rparr>) c) (set_db p (db\<lparr>db_locks := locks\<rparr>) st)) }"

section \<open>The response to a transaction begin\<close>

text \<open>The smaller one of the lists of kept and of revoked locks is sent for each opened database.\<close>

fun begin_response_entries ::
  "nat \<Rightarrow> DatabaseLocks list \<Rightarrow> ((database_id \<times> bool \<times> BlobLocation list) list \<times> DatabaseLocks list) option" where
  "begin_response_entries n [] = Some ([], [])"
| "begin_response_entries n (e # es) =
     (if dbl_database e = None
      then map_option (\<lambda>(rs, es'). (rs, e # es')) (begin_response_entries (Suc n) es)
      else do {
        e1 \<leftarrow> DatabaseLocks_ApplyRevokedLocks e;
        let keep = (length (dbl_locks e1) \<le> length (dbl_revokedLocks e1));
        (rs, es') \<leftarrow> begin_response_entries (Suc n) es;
        Some ((of_nat n, keep, if keep then dbl_locks e1 else dbl_revokedLocks e1) # rs,
              e1\<lparr>dbl_revokedLocks := []\<rparr> # es') })"

definition response_locks :: "DatabaseLocks list \<Rightarrow> nat option" where
  "response_locks es =
     (if list_all (\<lambda>e. length (dbl_revokedLocks e) \<le> length (dbl_locks e)) (filter (\<lambda>e. dbl_database e \<noteq> None) es)
      then Some (\<Sum>e\<leftarrow>filter (\<lambda>e. dbl_database e \<noteq> None) es.
                   min (length (dbl_locks e) - length (dbl_revokedLocks e)) (length (dbl_revokedLocks e)))
      else None)"

definition Client_ConstructTransactionBeginResponse :: "client_id \<Rightarrow> ServerState \<Rightarrow> (Response \<times> ServerState) option" where
  "Client_ConstructTransactionBeginResponse i st = do {
     c \<leftarrow> st_clients st i;
     totalLocks \<leftarrow> response_locks (c_openDatabases c);
     if totalLocks > 65535 then None
     else do {
       (rs, es) \<leftarrow> begin_response_entries 0 (c_openDatabases c);
       Some (TransactionBeginResponse rs, set_client i (c\<lparr>c_openDatabases := es\<rparr>) st) } }"

end
