(* ===== verification/Server_Reads.thy ===== *)
theory Server_Reads
  imports Server_Client
begin

text \<open>
  Reading blobs (ServerLib/Server.cpp): the existence check, the content of a response with the special
  blobs that list ids, the splitting of a response into messages and the first attempt to answer a read
  request. Reading loads objects from the database file, so the database is threaded through.
\<close>

section \<open>Existence of the requested blobs\<close>

definition exists_or :: "ReadCode \<Rightarrow> ('a option \<times> DbStore) option \<Rightarrow> (ReadCode option \<times> DbStore) option" where
  "exists_or code r = map_option (\<lambda>(x, store). (if x = None then Some code else None, store)) r"

definition ensure_blob_exists ::
  "LockMode \<Rightarrow> bool \<Rightarrow> BlobLocation \<Rightarrow> DbStore \<Rightarrow> (ReadCode option \<times> DbStore) option" where
  "ensure_blob_exists lockMode isMVCC l store =
     (if cluster l = SegmentDeleteId \<and> blob l = ClusterDeleteId \<and> lockMode = LM_Delete
      then exists_or BR_SEGMENT_DOES_NOT_EXIST (Database_GetLoadedSegment (segment l) False store)
      else if blob l = ClusterDeleteId \<and> lockMode = LM_Delete
      then exists_or BR_CLUSTER_DOES_NOT_EXIST (Database_GetLoadedCluster (segment l) (cluster l) False store)
      else if blob l = BlobListId
      then if cluster l = ClusterListId
           then if segment l = SegmentListId then Some (None, store)
                else exists_or BR_SEGMENT_DOES_NOT_EXIST (Database_GetLoadedSegment (segment l) isMVCC store)
           else exists_or BR_CLUSTER_DOES_NOT_EXIST (Database_GetLoadedCluster (segment l) (cluster l) isMVCC store)
      else exists_or BR_BLOB_DOES_NOT_EXIST (Database_GetLoadedBlob l isMVCC store))"

fun Server_EnsureRequestedBlobsExist ::
  "LockMode \<Rightarrow> bool \<Rightarrow> BlobLocation list \<Rightarrow> DbStore \<Rightarrow> (ReadCode option \<times> DbStore) option" where
  "Server_EnsureRequestedBlobsExist lockMode isMVCC [] store = Some (None, store)"
| "Server_EnsureRequestedBlobsExist lockMode isMVCC (l # ls) store = do {
     (err, store') \<leftarrow> ensure_blob_exists lockMode isMVCC l store;
     if err \<noteq> None then Some (err, store') else Server_EnsureRequestedBlobsExist lockMode isMVCC ls store' }"

section \<open>Contents\<close>

text \<open>Ranges of consecutive ids; the second component is the first id behind the range.\<close>

fun extend_ranges :: "uint32_t \<times> uint32_t \<Rightarrow> uint32_t list \<Rightarrow> (uint32_t \<times> uint32_t) list" where
  "extend_ranges currentRange [] = [currentRange]"
| "extend_ranges currentRange (i # is) =
     (if i = snd currentRange then extend_ranges (fst currentRange, snd currentRange + 1) is
      else currentRange # extend_ranges (i, i + 1) is)"

definition intoIdRanges :: "uint32_t list \<Rightarrow> (uint32_t \<times> uint32_t) list" where
  "intoIdRanges ids = (case ids of [] \<Rightarrow> [] | i # is \<Rightarrow> extend_ranges (i, i + 1) is)"

definition range_bytes :: "(uint32_t \<times> uint32_t) list \<Rightarrow> byte list" where
  "range_bytes rs = concat (map (\<lambda>(a, b). u32_bytes a @ u32_bytes b) rs)"

text \<open>The answer for one blob: \<open>None\<close> inside when the version of the client is up to date.\<close>

type_synonym answer = "(commit_id \<times> byte list) option"

definition answer_unless_cached :: "commit_id \<Rightarrow> commit_id \<Rightarrow> byte list \<Rightarrow> answer" where
  "answer_unless_cached cacheCommitId commitId content =
     (if cacheCommitId = commitId then None else Some (commitId, content))"

definition Server_HandleBlobListId ::
  "segment_id \<Rightarrow> cluster_id \<Rightarrow> commit_id \<Rightarrow> bool \<Rightarrow> DbStore \<Rightarrow> (answer \<times> DbStore) option" where
  "Server_HandleBlobListId segmentId clusterId cacheCommitId isMVCC store = do {
     (a, store) \<leftarrow> Database_GetLoadedCluster segmentId clusterId isMVCC store;
     a \<leftarrow> a;
     let c = hp_clusters (ds_heap store) a;
     Some (answer_unless_cached cacheCommitId (cl_commitId c) (range_bytes (intoIdRanges (map fst (cl_blobs c)))), store) }"

definition Server_HandleClusterListId ::
  "segment_id \<Rightarrow> commit_id \<Rightarrow> bool \<Rightarrow> DbStore \<Rightarrow> (answer \<times> DbStore) option" where
  "Server_HandleClusterListId segmentId cacheCommitId isMVCC store = do {
     (s, store) \<leftarrow> Database_GetLoadedSegment segmentId isMVCC store;
     s \<leftarrow> s;
     let sg = hp_segments (ds_heap store) s;
     Some (answer_unless_cached cacheCommitId (sg_commitId sg) (range_bytes (intoIdRanges (map fst (sg_clusters sg)))), store) }"

definition Server_HandleSegmentListId :: "commit_id \<Rightarrow> bool \<Rightarrow> DbStore \<Rightarrow> (answer \<times> DbStore) option" where
  "Server_HandleSegmentListId cacheCommitId isMVCC store = do {
     sn \<leftarrow> read_snapshot store isMVCC;
     Some (answer_unless_cached cacheCommitId (sn_commitId sn) (range_bytes (intoIdRanges (map fst (sn_segments sn)))), store) }"

definition Server_HandleRegularBlobRead :: "BlobAddress \<Rightarrow> bool \<Rightarrow> DbStore \<Rightarrow> (answer \<times> DbStore) option" where
  "Server_HandleRegularBlobRead requestedBlob isMVCC store = do {
     (b, store) \<leftarrow> Database_GetLoadedBlob (ba_location requestedBlob) isMVCC store;
     b \<leftarrow> b;
     Some (answer_unless_cached (ba_cacheCommitId requestedBlob) (bl_commitId b) (Blob_ReadContent b), store) }"

definition answer_blob :: "LockMode \<Rightarrow> bool \<Rightarrow> BlobAddress \<Rightarrow> DbStore \<Rightarrow> (answer \<times> DbStore) option" where
  "answer_blob lockMode isMVCC r store =
     (let l = ba_location r in
      if lockMode = LM_Delete then Some (None, store)
      else if blob l = BlobListId
      then if cluster l = ClusterListId
           then if segment l = SegmentListId then Server_HandleSegmentListId (ba_cacheCommitId r) isMVCC store
                else Server_HandleClusterListId (segment l) (ba_cacheCommitId r) isMVCC store
           else Server_HandleBlobListId (segment l) (cluster l) (ba_cacheCommitId r) isMVCC store
      else Server_HandleRegularBlobRead r isMVCC store)"

fun answer_blobs :: "LockMode \<Rightarrow> bool \<Rightarrow> BlobAddress list \<Rightarrow> DbStore \<Rightarrow> (answer list \<times> DbStore) option" where
  "answer_blobs lockMode isMVCC [] store = Some ([], store)"
| "answer_blobs lockMode isMVCC (r # rs) store = do {
     (a, store) \<leftarrow> answer_blob lockMode isMVCC r store;
     (as, store) \<leftarrow> answer_blobs lockMode isMVCC rs store;
     Some (a # as, store) }"

section \<open>Messages\<close>

definition Server_BlobSize :: "answer \<Rightarrow> nat" where
  "Server_BlobSize a = (case a of None \<Rightarrow> 0 | Some (k, content) \<Rightarrow> length content)"

text \<open>The sizes of \<open>BlobsReadResponse\<close> and its \<open>BlobData\<close>, with the alignment of their fields; the number of
  blobs is passed as an 8-bit integer.\<close>

definition BlobsReadResponse_FitsIntoMessage :: "nat \<Rightarrow> nat \<Rightarrow> bool" where
  "BlobsReadResponse_FitsIntoMessage totalBlobsSize nBlobs =
     (12 + 24 * (int nBlobs mod 256) + int totalBlobsSize \<le> 2 ^ 32 - 1)"

fun fill_chunk :: "nat \<Rightarrow> nat \<Rightarrow> answer list \<Rightarrow> answer list \<times> answer list" where
  "fill_chunk chunkSize n [] = ([], [])"
| "fill_chunk chunkSize n (a # as) =
     (if BlobsReadResponse_FitsIntoMessage (chunkSize + Server_BlobSize a) (Suc n)
      then case fill_chunk (chunkSize + Server_BlobSize a) (Suc n) as of (chunk, rest) \<Rightarrow> (a # chunk, rest)
      else ([], a # as))"

text \<open>The loop does not end when a single blob does not fit into a message.\<close>

partial_function (option) split_response :: "answer list \<Rightarrow> answer list list option" where
  "split_response as =
     (if as = [] then Some []
      else case fill_chunk 0 0 as of (chunk, rest) \<Rightarrow>
        if chunk = [] then split_response rest
        else split_response rest \<bind> (\<lambda>chunks. Some (chunk # chunks)))"

declare split_response.simps [code]

definition set_response_blob :: "BlobAddress \<Rightarrow> answer \<Rightarrow> response_blob" where
  "set_response_blob r a =
     (case a of None \<Rightarrow> (ba_location r, ba_cacheCommitId r, []) | Some (k, content) \<Rightarrow> (ba_location r, k, content))"

fun response_messages :: "BlobAddress list \<Rightarrow> answer list list \<Rightarrow> Response list" where
  "response_messages rs [] = []"
| "response_messages rs (chunk # chunks) =
     BlobsReadResponse (map2 set_response_blob (take (length chunk) rs) chunk) (chunks \<noteq> [])
       # response_messages (drop (length chunk) rs) chunks"

definition Server_BuildAndSendBlobsReadResponse ::
  "db_ptr \<Rightarrow> BlobsRead \<Rightarrow> bool \<Rightarrow> ServerState \<Rightarrow> ServerState option" where
  "Server_BuildAndSendBlobsReadResponse p message isMVCC st = do {
     db \<leftarrow> st_databases st p;
     (as, store) \<leftarrow> answer_blobs (br_lockMode message) isMVCC (br_blobs message) (db_store db);
     chunks \<leftarrow> split_response as;
     Some (fold (SendMessageToClient (br_clientId message)) (response_messages (br_blobs message) chunks)
             (set_db p (db\<lparr>db_store := store\<rparr>) st)) }"

section \<open>Answering a read request\<close>

abbreviation send_read_error :: "BlobsRead \<Rightarrow> ReadCode \<Rightarrow> ServerState \<Rightarrow> ServerState" where
  "send_read_error message code \<equiv> SendMessageToClient (br_clientId message) (BlobsReadError code)"

text \<open>The result is false when the request has to wait for locks.\<close>

definition Server_TryHandleBlobsRead :: "BlobsRead \<Rightarrow> ServerState \<Rightarrow> (bool \<times> ServerState) option" where
  "Server_TryHandleBlobsRead message st = do {
     c \<leftarrow> st_clients st (br_clientId message);
     case Client_GetDatabase c (br_databaseId message) of
       None \<Rightarrow> Some (True, send_read_error message BR_DATABASE_NOT_OPENED st)
     | Some p \<Rightarrow>
         if \<not> BlobsRead_IsDirtyRead message \<and> \<not> Client_IsInsideTransaction c
         then Some (True, send_read_error message BR_NO_TRANSACTION_IN_PROGRESS st)
         else do {
           mvcc \<leftarrow> Client_IsDatabaseMVCC c (br_databaseId message);
           let isMVCC = (\<not> BlobsRead_IsDirtyRead message \<and> mvcc);
           if isMVCC \<and> BlobsRead_NeedsWriteLock message
           then Some (True, send_read_error message BR_CANNOT_WRITE_LOCK_IN_MVCC st)
           else do {
             db \<leftarrow> st_databases st p;
             (err, store) \<leftarrow> Server_EnsureRequestedBlobsExist (br_lockMode message) isMVCC (br_locations message) (db_store db);
             let st = set_db p (db\<lparr>db_store := store\<rparr>) st;
             case err of
               Some code \<Rightarrow> Some (True, send_read_error message code st)
             | None \<Rightarrow> do {
                 (granted, st) \<leftarrow> (if BlobsRead_IsDirtyRead message \<or> isMVCC then Some (True, st)
                                  else Client_AcquireLocks message st);
                 if granted then do {
                   st \<leftarrow> Server_BuildAndSendBlobsReadResponse p message isMVCC st;
                   Some (True, st) }
                 else Some (False, st) } } } }"

definition Server_ReadTimedOut :: "BlobsRead \<Rightarrow> ServerState \<Rightarrow> ServerState" where
  "Server_ReadTimedOut message = send_read_error message BR_LOCK_TIMEOUT"

end
