(* ===== verification/Read_Properties.thy ===== *)
theory Read_Properties
  imports Server_Reads
begin

text \<open>
  The properties of read responses: the encoding of id lists, the splitting of a response into messages,
  and the contents that are sent.
\<close>

section \<open>Id lists\<close>

definition range_ids :: "uint32_t \<times> uint32_t \<Rightarrow> uint32_t list" where
  "range_ids r = map of_nat [unat (fst r)..<unat (snd r)]"

definition separated_ranges :: "(uint32_t \<times> uint32_t) list \<Rightarrow> bool" where
  "separated_ranges rs = (list_all (\<lambda>r. fst r < snd r) rs \<and> sorted_wrt (\<lambda>r s. snd r < fst s) rs)"

lemma range_ids_snoc:
  assumes "a < b" "b < b + 1"
  shows "range_ids (a, b + 1) = range_ids (a, b) @ [b]"
proof -
  have "unat (b + 1) = Suc (unat b)" using assms(2) unat_Suc_no_wrap by blast
  moreover have "unat a \<le> unat b" using assms(1) by (simp add: word_less_nat_alt)
  ultimately show ?thesis by (simp add: range_ids_def)
qed

lemma range_ids_single:
  assumes "i < i + 1"
  shows "range_ids (i, i + 1) = [i]"
  using unat_Suc_no_wrap [OF assms] by (simp add: range_ids_def)

lemma not_max_less: "(i :: uint32_t) \<noteq> - 1 \<Longrightarrow> i < i + 1"
proof -
  assume "i \<noteq> - 1"
  then have "unat i \<noteq> unat (- 1 :: uint32_t)" by (simp only: unat_arith_simps(3) not_False_eq_True)
  moreover have "unat (- 1 :: uint32_t) = 2 ^ 32 - 1" by (simp add: unsigned_minus_1_eq_mask mask_eq_exp_minus_1)
  moreover have "unat i < 2 ^ 32" using unsigned_less [of i] by simp
  ultimately have "unat i + 1 < 2 ^ 32" by simp
  then show ?thesis by (simp add: word_less_nat_alt unat_word_ariths)
qed

lemma extend_ranges_spec:
  assumes "a < b" "sorted_wrt (<) is" "\<forall>i \<in> set is. b \<le> i \<and> i \<noteq> - 1"
  shows "concat (map range_ids (extend_ranges (a, b) is)) = range_ids (a, b) @ is
    \<and> separated_ranges (extend_ranges (a, b) is) \<and> (\<forall>r \<in> set (extend_ranges (a, b) is). a \<le> fst r)"
  using assms
proof (induction "is" arbitrary: a b)
  case Nil
  then show ?case by (simp add: separated_ranges_def)
next
  case (Cons i "is")
  have i: "i < i + 1" using Cons.prems(3) not_max_less by auto
  have later: "\<forall>j \<in> set is. i + 1 \<le> j \<and> j \<noteq> - 1"
    using Cons.prems(2,3) i by (auto simp: inc_le)
  show ?case
  proof (cases "i = b")
    case True
    have "a < b + 1" using Cons.prems(1) i True by auto
    from Cons.IH [OF this] Cons.prems(2) later True range_ids_snoc [OF Cons.prems(1)] i show ?thesis by auto
  next
    case False
    with Cons.prems(3) have "b < i" by (simp add: less_le)
    from Cons.IH [OF i _ later] Cons.prems(2) have IH: "concat (map range_ids (extend_ranges (i, i + 1) is)) = i # is"
      "separated_ranges (extend_ranges (i, i + 1) is)" "\<forall>r \<in> set (extend_ranges (i, i + 1) is). i \<le> fst r"
      using range_ids_single [OF i] by auto
    have "\<forall>r \<in> set (extend_ranges (i, i + 1) is). b < fst r \<and> a \<le> fst r"
      using IH(3) \<open>b < i\<close> Cons.prems(1) by (meson order.strict_trans1 order.strict_trans2 less_imp_le)
    with IH(1,2) Cons.prems(1) False show ?thesis by (simp add: separated_ranges_def)
  qed
qed

text \<open>The ranges sent for a sorted list of ids enumerate exactly these ids in order, and they are as few as
  possible: they are not empty and there is a gap between any two of them.\<close>

theorem id_ranges_roundtrip:
  assumes "sorted_wrt (<) ids" "\<forall>i \<in> set ids. i \<noteq> - 1"
  shows "concat (map range_ids (intoIdRanges ids)) = ids \<and> separated_ranges (intoIdRanges ids)"
proof (cases ids)
  case Nil
  then show ?thesis by (simp add: intoIdRanges_def separated_ranges_def)
next
  case (Cons i "is")
  have i: "i < i + 1" using assms(2) Cons not_max_less by auto
  have "\<forall>j \<in> set is. i + 1 \<le> j \<and> j \<noteq> - 1" using assms Cons i by (auto simp: inc_le)
  from extend_ranges_spec [OF i _ this] assms Cons range_ids_single [OF i] show ?thesis
    by (simp add: intoIdRanges_def)
qed

theorem id_ranges_roundtrip_witness:
  "intoIdRanges [0, 1, 2, 7, 9, 10] = [(0, 3), (7, 8), (9, 11)]
     \<and> concat (map range_ids (intoIdRanges [0, 1, 2, 7, 9, 10])) = [0, 1, 2, 7, 9, 10]"
  using id_ranges_roundtrip [of "[0, 1, 2, 7, 9, 10]"] by (simp add: intoIdRanges_def)

section \<open>Splitting a response\<close>

abbreviation total_size :: "answer list \<Rightarrow> nat" where
  "total_size as \<equiv> sum_list (map Server_BlobSize as)"

definition fits_alone :: "answer \<Rightarrow> bool" where
  "fits_alone a = BlobsReadResponse_FitsIntoMessage (Server_BlobSize a) 1"

lemma fill_chunk_split:
  "fill_chunk s n as = (chunk, rest) \<Longrightarrow> as = chunk @ rest
     \<and> (chunk \<noteq> [] \<longrightarrow> BlobsReadResponse_FitsIntoMessage (s + total_size chunk) (n + length chunk))"
proof (induction as arbitrary: s n chunk rest)
  case (Cons a as)
  show ?case
  proof (cases "BlobsReadResponse_FitsIntoMessage (s + Server_BlobSize a) (Suc n)")
    case True
    with Cons.prems obtain c where c: "fill_chunk (s + Server_BlobSize a) (Suc n) as = (c, rest)" "chunk = a # c"
      by (auto split: prod.splits)
    with Cons.IH [OF c(1)] True show ?thesis by (cases c) (auto simp: add.assoc)
  qed (use Cons.prems in auto)
qed auto

lemma fill_chunk_progress:
  "fill_chunk 0 0 (a # as) = (chunk, rest) \<Longrightarrow> chunk = [] \<longleftrightarrow> \<not> fits_alone a"
  by (auto simp: fits_alone_def split: if_splits prod.splits)

definition chunks_ok :: "answer list \<Rightarrow> answer list list \<Rightarrow> bool" where
  "chunks_ok as chunks = (concat chunks = as
     \<and> (\<forall>c \<in> set chunks. c \<noteq> [] \<and> BlobsReadResponse_FitsIntoMessage (total_size c) (length c)))"

lemma split_response_partial:
  assumes "split_response as = Some chunks"
  shows "chunks_ok as chunks"
proof (rule split_response.raw_induct [OF _ assms, of chunks_ok])
  fix f as chunks
  assume f: "\<And>as chunks. f as = Some chunks \<Longrightarrow> chunks_ok as chunks"
    and r: "(if as = [] then Some [] else case fill_chunk 0 0 as of (chunk, rest) \<Rightarrow>
        if chunk = [] then f rest else f rest \<bind> (\<lambda>chunks. Some (chunk # chunks))) = Some chunks"
  show "chunks_ok as chunks"
  proof (cases "as = []")
    case False
    obtain chunk rest where c: "fill_chunk 0 0 as = (chunk, rest)" by fastforce
    with fill_chunk_split [OF c] f [of rest] r False show ?thesis
      by (auto simp: chunks_ok_def split: if_splits bind_splits)
  qed (use r in \<open>auto simp: chunks_ok_def\<close>)
qed

lemma split_response_total:
  assumes "\<forall>a \<in> set as. fits_alone a"
  shows "\<exists>chunks. split_response as = Some chunks"
  using assms
proof (induction "length as" arbitrary: as rule: less_induct)
  case less
  show ?case
  proof (cases as)
    case Nil
    then show ?thesis by (simp add: split_response.simps)
  next
    case (Cons a as')
    obtain chunk rest where c: "fill_chunk 0 0 as = (chunk, rest)" by fastforce
    have ne: "chunk \<noteq> []" using fill_chunk_progress [of a as' chunk rest] c Cons less.prems by simp
    have sp: "as = chunk @ rest" using fill_chunk_split [OF c] by simp
    then obtain chunks where "split_response rest = Some chunks" using less ne by fastforce
    then show ?thesis using c ne Cons by (subst split_response.simps) simp
  qed
qed

lemma fits_member:
  assumes "BlobsReadResponse_FitsIntoMessage (total_size c) (length c)" "a \<in> set c" "length c < 256"
  shows "fits_alone a"
proof -
  have "Server_BlobSize a \<le> total_size c" using assms(2) by (simp add: member_le_sum_list)
  moreover have "1 \<le> length c" using assms(2) by (cases c) auto
  ultimately show ?thesis
    using assms(1,3) by (simp add: fits_alone_def BlobsReadResponse_FitsIntoMessage_def)
qed

fun response_blobs :: "Response \<Rightarrow> response_blob list" where
  "response_blobs (BlobsReadResponse bs hasFollowMessage) = bs"
| "response_blobs _ = []"

lemma response_messages_blobs:
  "length rs = length (concat chunks) \<Longrightarrow>
     concat (map response_blobs (response_messages rs chunks))
       = map2 set_response_blob rs (concat chunks)"
proof (induction chunks arbitrary: rs)
  case (Cons c chunks)
  have "rs = take (length c) rs @ drop (length c) rs" by simp
  moreover have "length (take (length c) rs) = length c" using Cons.prems by simp
  ultimately have "map2 set_response_blob rs (c @ concat chunks)
      = map2 set_response_blob (take (length c) rs) c @ map2 set_response_blob (drop (length c) rs) (concat chunks)"
    by (metis zip_append map_append)
  with Cons show ?case by simp
qed simp

lemma response_chunks:
  assumes "length as < 256" "split_response as = Some chunks"
  shows "concat chunks = as" "\<forall>c \<in> set chunks. c \<noteq> [] \<and> length c < 256 \<and> BlobsReadResponse_FitsIntoMessage (total_size c) (length c)"
proof -
  from split_response_partial [OF assms(2)] have ok: "concat chunks = as"
    "\<forall>c \<in> set chunks. c \<noteq> [] \<and> BlobsReadResponse_FitsIntoMessage (total_size c) (length c)"
    by (auto simp: chunks_ok_def)
  have "length c \<le> length as" if c: "c \<in> set chunks" for c
  proof -
    obtain xs ys where "chunks = xs @ c # ys" using split_list [OF c] by blast
    with ok(1) [symmetric] show ?thesis by simp
  qed
  with assms(1) ok show "concat chunks = as"
    "\<forall>c \<in> set chunks. c \<noteq> [] \<and> length c < 256 \<and> BlobsReadResponse_FitsIntoMessage (total_size c) (length c)"
    by fastforce+
qed

text \<open>C33: the answer to a request of up to 255 blobs is sent if and only if each of the blobs fits into a
  message of its own. If so, the messages contain the answers to the requested blobs in their order,
  no message is empty or too large, and otherwise the loop that splits the answer never ends.\<close>

theorem response_splitting:
  assumes "length as < 256" "length rs = length as"
  shows "((\<exists>chunks. split_response as = Some chunks) \<longleftrightarrow> (\<forall>a \<in> set as. fits_alone a))
    \<and> (\<forall>chunks. split_response as = Some chunks \<longrightarrow>
         concat (map response_blobs (response_messages rs chunks)) = map2 set_response_blob rs as
         \<and> (\<forall>c \<in> set chunks. c \<noteq> [] \<and> 12 + 24 * length c + total_size c \<le> 2 ^ 32 - 1))"
proof -
  note part = response_chunks [OF assms(1)]
  have "\<forall>a \<in> set as. fits_alone a" if s: "split_response as = Some chunks" for chunks
    using part(2) [OF s] fits_member by (subst part(1) [OF s, symmetric]) auto
  moreover have "concat (map response_blobs (response_messages rs chunks)) = map2 set_response_blob rs as
       \<and> (\<forall>c \<in> set chunks. c \<noteq> [] \<and> 12 + 24 * length c + total_size c \<le> 2 ^ 32 - 1)"
    if s: "split_response as = Some chunks" for chunks
    using part [OF s] response_messages_blobs [of rs chunks] assms(2)
    by (auto simp: BlobsReadResponse_FitsIntoMessage_def)
  ultimately show ?thesis using split_response_total by blast
qed

theorem response_splitting_witness:
  "\<exists>chunks. split_response [Some (3, [1, 2]), None] = Some chunks
     \<and> concat (map response_blobs
          (response_messages [\<lparr>ba_location = BlobLocation 0 0 1, ba_cacheCommitId = 0\<rparr>,
             \<lparr>ba_location = BlobLocation 0 0 2, ba_cacheCommitId = 7\<rparr>] chunks))
       = [(BlobLocation 0 0 1, 3, [1, 2]), (BlobLocation 0 0 2, 7, [])]"
proof -
  let ?as = "[Some (3 :: commit_id, [1 :: byte, 2]), None]"
    and ?rs = "[\<lparr>ba_location = BlobLocation 0 0 1, ba_cacheCommitId = 0\<rparr>, \<lparr>ba_location = BlobLocation 0 0 2, ba_cacheCommitId = 7\<rparr>]"
  have "\<forall>a \<in> set ?as. fits_alone a" by (simp add: fits_alone_def BlobsReadResponse_FitsIntoMessage_def Server_BlobSize_def)
  then obtain chunks where "split_response ?as = Some chunks"
    "concat (map response_blobs (response_messages ?rs chunks)) = map2 set_response_blob ?rs ?as"
    using response_splitting [of ?as ?rs] by auto
  then show ?thesis by (intro exI [of _ chunks]) (simp add: set_response_blob_def)
qed

end
