(* ===== verification/Cache_Properties.thy ===== *)
theory Cache_Properties
  imports Commit_Properties Read_Properties
begin

text \<open>
  Clients keep the blobs they have read and ask the server to send a blob only if its commit id differs
  from the one in their cache. These are the properties that make this correct: along the history of a
  database a commit id identifies the content of a blob, of the list of blobs of a cluster and of the list
  of clusters of a segment. The one exception is the blob with the next free segment id.
\<close>

section \<open>Histories of a database\<close>

definition commit_view :: "BlobData list \<Rightarrow> snap_view \<Rightarrow> snap_view" where
  "commit_view us v = fold spec_update us (next_view v)"

inductive later :: "snap_view \<Rightarrow> snap_view \<Rightarrow> bool" for v where
  later_refl: "later v v"
| later_commit: "later v w \<Longrightarrow> dv_commit w < dv_commit w + 1 \<Longrightarrow> later v (commit_view us w)"

lemma later_trans: "later v w \<Longrightarrow> later u v \<Longrightarrow> later u w"
  by (induction rule: later.induct) (auto intro: later_commit)

definition view_cluster_at :: "snap_view \<Rightarrow> segment_id \<Rightarrow> cluster_id \<Rightarrow> cluster_view option" where
  "view_cluster_at v s c = do { sg \<leftarrow> dv_segments v s; sv_clusters sg c }"

lemma spec_update_commit [simp]: "dv_commit (spec_update u v) = dv_commit v"
  by (simp add: spec_update_def Let_def)

lemma fold_spec_update_commit [simp]: "dv_commit (fold spec_update us v) = dv_commit v"
  by (induction us arbitrary: v) simp_all

lemma spec_cluster_update_commit [simp]: "cv_commit (spec_cluster_update k u c) = cv_commit c"
  by (simp add: spec_cluster_update_def Let_def)

lemma spec_segment_update_commit [simp]: "sv_commit (spec_segment_update k u s) = sv_commit s"
  by (simp add: spec_segment_update_def Let_def)

lemma touch_commit [simp]: "cv_commit (touch_cluster k c) = k" "sv_commit (touch_segment k s) = k"
  by (cases "(k, c)" rule: touch_cluster.cases; simp) (cases "(k, s)" rule: touch_segment.cases; simp)

lemma touch_cluster_blobs:
  "cv_blobs (touch_cluster k c) b = Some x \<Longrightarrow> bv_commit x = k \<or> (\<exists>c'. c = Some c' \<and> cv_blobs c' b = Some x)"
  by (cases "(k, c)" rule: touch_cluster.cases) (auto split: if_splits)

lemma touch_segment_clusters:
  "sv_clusters (touch_segment k s) c = Some x \<Longrightarrow> x = touch_cluster k None \<or> (\<exists>s'. s = Some s' \<and> sv_clusters s' c = Some x)"
  by (cases "(k, s)" rule: touch_segment.cases) (auto split: if_splits)

lemma spec_cluster_blobs:
  "cv_blobs (spec_cluster_update k u c) b = Some x \<Longrightarrow> bv_commit x = k \<or> cv_blobs c b = Some x"
  by (auto simp: spec_cluster_update_def Let_def split: if_splits)

lemma spec_segment_clusters:
  "sv_clusters (spec_segment_update k u s) c = Some x \<Longrightarrow>
     x = spec_cluster_update k u (touch_cluster k (sv_clusters s c)) \<or> sv_clusters s c = Some x"
  by (auto simp: spec_segment_update_def Let_def split: if_splits)

lemma spec_update_segments:
  "dv_segments (spec_update u v) s = Some x \<Longrightarrow>
     x = spec_segment_update (dv_commit v) u (touch_segment (dv_commit v) (dv_segments v s)) \<or> dv_segments v s = Some x"
  by (auto simp: spec_update_def Let_def split: if_splits)

text \<open>What an entry changes gets the commit id of the commit.\<close>

lemma spec_update_clusters:
  assumes "view_cluster_at (spec_update u v) s c = Some x"
  shows "cv_commit x = dv_commit v \<or> view_cluster_at v s c = Some x"
proof -
  from assms obtain sg where sg: "dv_segments (spec_update u v) s = Some sg" "sv_clusters sg c = Some x"
    by (auto simp: view_cluster_at_def split: bind_splits)
  from spec_update_segments [OF sg(1)] show ?thesis
  proof
    assume "sg = spec_segment_update (dv_commit v) u (touch_segment (dv_commit v) (dv_segments v s))"
    with spec_segment_clusters sg(2) have "cv_commit x = dv_commit v \<or> sv_clusters (touch_segment (dv_commit v) (dv_segments v s)) c = Some x"
      by fastforce
    with touch_segment_clusters show ?thesis by (fastforce simp: view_cluster_at_def)
  qed (use sg(2) in \<open>auto simp: view_cluster_at_def\<close>)
qed

lemma spec_update_blobs:
  assumes "view_blob (spec_update u v) loc = Some x"
  shows "bv_commit x = dv_commit v \<or> view_blob v loc = Some x"
proof -
  let ?k = "dv_commit v"
  from assms obtain sg c where sg: "dv_segments (spec_update u v) (segment loc) = Some sg"
      "sv_clusters sg (cluster loc) = Some c" "cv_blobs c (blob loc) = Some x"
    by (auto simp: view_blob_def split: bind_splits)
  have fresh: "bv_commit x = ?k" if "c = touch_cluster ?k None" using sg(3) that by (auto split: if_splits)
  from spec_update_segments [OF sg(1)] show ?thesis
  proof
    let ?t = "touch_segment ?k (dv_segments v (segment loc))"
    assume "sg = spec_segment_update ?k u ?t"
    with spec_segment_clusters sg(2) consider
        "c = spec_cluster_update ?k u (touch_cluster ?k (sv_clusters ?t (cluster loc)))" | "sv_clusters ?t (cluster loc) = Some c"
      by blast
    then have "bv_commit x = ?k \<or> (\<exists>c'. sv_clusters ?t (cluster loc) = Some c' \<and> cv_blobs c' (blob loc) = Some x)"
      using sg(3) spec_cluster_blobs touch_cluster_blobs by cases blast+
    then show ?thesis
      using touch_segment_clusters [of ?k "dv_segments v (segment loc)" "cluster loc"] by (fastforce simp: view_blob_def split: if_splits)
  qed (use sg(2,3) in \<open>auto simp: view_blob_def\<close>)
qed

text \<open>\<open>unchanged k v w\<close>: everything in \<open>w\<close> is either in \<open>v\<close> as well or has a commit id above \<open>k\<close>.\<close>

definition unchanged :: "commit_id \<Rightarrow> snap_view \<Rightarrow> snap_view \<Rightarrow> bool" where
  "unchanged k v w = (
     (\<forall>loc x. view_blob w loc = Some x \<longrightarrow> k < bv_commit x \<or> view_blob v loc = Some x) \<and>
     (\<forall>s c x. view_cluster_at w s c = Some x \<longrightarrow> k < cv_commit x \<or> view_cluster_at v s c = Some x) \<and>
     (\<forall>s x. dv_segments w s = Some x \<longrightarrow> k < sv_commit x \<or> dv_segments v s = Some x))"

lemma unchanged_fold:
  "unchanged k v w \<Longrightarrow> k < dv_commit w \<Longrightarrow> unchanged k v (fold spec_update us w)"
proof (induction us arbitrary: w)
  case (Cons u us)
  have "unchanged k v (spec_update u w)"
    unfolding unchanged_def
  proof (intro conjI allI impI)
    fix loc x
    assume "view_blob (spec_update u w) loc = Some x"
    with spec_update_blobs Cons.prems show "k < bv_commit x \<or> view_blob v loc = Some x" unfolding unchanged_def by fastforce
  next
    fix s c x
    assume "view_cluster_at (spec_update u w) s c = Some x"
    with spec_update_clusters Cons.prems show "k < cv_commit x \<or> view_cluster_at v s c = Some x" unfolding unchanged_def by fastforce
  next
    fix s x
    assume "dv_segments (spec_update u w) s = Some x"
    with spec_update_segments Cons.prems show "k < sv_commit x \<or> dv_segments v s = Some x" unfolding unchanged_def by fastforce
  qed
  with Cons show ?case by simp
qed simp

lemma later_unchanged: "later v w \<Longrightarrow> unchanged (dv_commit v) v w \<and> dv_commit v \<le> dv_commit w"
proof (induction rule: later.induct)
  case later_refl
  then show ?case by (simp add: unchanged_def)
next
  case (later_commit w us)
  then have lt: "dv_commit v < dv_commit w + 1" by auto
  have "unchanged (dv_commit v) v (next_view w)"
    using later_commit.IH by (simp add: unchanged_def next_view_def view_blob_def view_cluster_at_def)
  from unchanged_fold [OF this, of us] lt show ?case by (simp add: commit_view_def next_view_def)
qed

definition commits_bounded :: "snap_view \<Rightarrow> bool" where
  "commits_bounded v = (
     (\<forall>loc x. view_blob v loc = Some x \<longrightarrow> bv_commit x \<le> dv_commit v) \<and>
     (\<forall>s c x. view_cluster_at v s c = Some x \<longrightarrow> cv_commit x \<le> dv_commit v) \<and>
     (\<forall>s x. dv_segments v s = Some x \<longrightarrow> sv_commit x \<le> dv_commit v))"

lemma spec_update_bounded: "commits_bounded v \<Longrightarrow> commits_bounded (spec_update u v)"
  unfolding commits_bounded_def
  using spec_update_blobs [of u v] spec_update_clusters [of u v] spec_update_segments [of u v] by fastforce

lemma later_bounded: "later v w \<Longrightarrow> commits_bounded v \<Longrightarrow> commits_bounded w"
proof (induction rule: later.induct)
  case (later_commit w us)
  have "commits_bounded (next_view w)"
    using later_commit by (fastforce simp: commits_bounded_def next_view_def view_blob_def view_cluster_at_def)
  then have "commits_bounded (fold spec_update us (next_view w))"
    by (induction us arbitrary: w rule: rev_induct) (simp_all add: spec_update_bounded)
  then show ?case by (simp add: commit_view_def)
qed

lemma initial_bounded: "commits_bounded initial_view"
  by (auto simp: commits_bounded_def initial_view_def view_blob_def view_cluster_at_def split: if_splits bind_splits)

lemma coherent:
  assumes "later initial_view v" "later v w"
  shows "view_blob v loc = Some a \<Longrightarrow> view_blob w loc = Some b \<Longrightarrow> bv_commit a = bv_commit b \<Longrightarrow> a = b"
    and "view_cluster_at v s c = Some d \<Longrightarrow> view_cluster_at w s c = Some e \<Longrightarrow> cv_commit d = cv_commit e \<Longrightarrow> d = e"
    and "dv_segments v s = Some f \<Longrightarrow> dv_segments w s = Some g \<Longrightarrow> sv_commit f = sv_commit g \<Longrightarrow> f = g"
  using later_unchanged [OF assms(2)] later_bounded [OF assms(1) initial_bounded]
  unfolding unchanged_def commits_bounded_def by (metis linorder_not_less option.inject)+


lemma later_sample: "later initial_view (commit_view (commit_entries sample_update) initial_view)"
  by (rule later_commit [OF later_refl]) (simp add: initial_view_def)


section \<open>Answers and the cache of a client\<close>



definition segment_id_request :: "commit_id \<Rightarrow> BlobAddress" where
  "segment_id_request k = \<lparr>ba_location = BlobLocation NextFreeSegmentId NextFreeClusterId NextFreeBlobId, ba_cacheCommitId = k\<rparr>"

definition segment_id_commit :: "TransactionCommit list" where
  "segment_id_commit = [\<lparr>tc_clientId = 1, tc_databaseId = 0, tc_hasFollowMessage = False,
     tc_blobs = [\<lparr>bd_location = BlobLocation NextFreeSegmentId NextFreeClusterId NextFreeBlobId, bd_blobSize = 4,
                  bd_data = [2, 0, 0, 0]\<rparr>]\<rparr>]"

definition after_commit :: "TransactionCommit list \<Rightarrow> DbStore \<Rightarrow> DbStore option" where
  "after_commit ms db = do {
     r \<leftarrow> Database_CalculateCommitResult (\<lambda>rs. rs) ms db; (k, db') \<leftarrow> CommitResult_ApplyToDatabase r db; Some db' }"

definition answer_of :: "(answer \<times> DbStore) option \<Rightarrow> answer option" where
  "answer_of r = map_option fst r"


end
