(* ===== verification/Server_Handlers.thy ===== *)
theory Server_Handlers
  imports Server_Reads
begin

text \<open>
  The message handlers of ServerLib/Server.cpp, the tasks handed over by the scheduler, and the server as
  a step relation over messages, tasks and the passing of time. \<open>None\<close> is a failed assertion, an access
  to a deleted database or a loop that does not end.
\<close>

section \<open>Requests that wait for locks\<close>

definition set_queue :: "db_ptr \<Rightarrow> QueuedMessage list \<Rightarrow> ServerState \<Rightarrow> ServerState option" where
  "set_queue p q st = do { db \<leftarrow> st_databases st p; Some (set_db p (db\<lparr>db_queuedReads := q\<rparr>) st) }"

fun process_queued_reads ::
  "db_ptr \<Rightarrow> QueuedMessage list \<Rightarrow> QueuedMessage list \<Rightarrow> ServerState \<Rightarrow> ServerState option" where
  "process_queued_reads p kept [] st = Some st"
| "process_queued_reads p kept (q # qs) st = do {
     (processed, st) \<leftarrow> Server_TryHandleBlobsRead (qm_message q) st;
     if processed then do { st \<leftarrow> set_queue p (kept @ qs) st; process_queued_reads p kept qs st }
     else process_queued_reads p (kept @ [q]) qs st }"

definition Server_TryProcessQueuedReads :: "db_ptr \<Rightarrow> ServerState \<Rightarrow> ServerState option" where
  "Server_TryProcessQueuedReads p st = do {
     db \<leftarrow> st_databases st p; process_queued_reads p [] (db_queuedReads db) st }"

fun process_databases :: "client_id \<Rightarrow> nat list \<Rightarrow> ServerState \<Rightarrow> ServerState option" where
  "process_databases i [] st = Some st"
| "process_databases i (n # ns) st = do {
     c \<leftarrow> st_clients st i;
     st \<leftarrow> (case Client_GetDatabase c (of_nat n) of
              None \<Rightarrow> Some st
            | Some p \<Rightarrow> Server_TryProcessQueuedReads p st);
     process_databases i ns st }"

definition Server_ClientTransactionEnded :: "client_id \<Rightarrow> ServerState \<Rightarrow> ServerState option" where
  "Server_ClientTransactionEnded i st = do {
     c \<leftarrow> st_clients st i; process_databases i [0..<Suc (unat (Client_GetMaxDatabaseId c))] st }"

definition Server_AbortTransaction :: "client_id \<Rightarrow> bool \<Rightarrow> ServerState \<Rightarrow> ServerState option" where
  "Server_AbortTransaction i releaseAllLocks st = do {
     (aborted, st) \<leftarrow> Client_AbortTransaction i releaseAllLocks st;
     if aborted then Server_ClientTransactionEnded i st else Some st }"

definition clear_commitMessages :: "client_id \<Rightarrow> ServerState \<Rightarrow> ServerState option" where
  "clear_commitMessages i st = do { c \<leftarrow> st_clients st i; Some (set_client i (c\<lparr>c_commitMessages := []\<rparr>) st) }"

definition Server_AbortTransactionCommit :: "client_id \<Rightarrow> ServerState \<Rightarrow> ServerState option" where
  "Server_AbortTransactionCommit i st = do {
     st \<leftarrow> clear_commitMessages i st; Server_AbortTransaction i True st }"

section \<open>Connections and databases\<close>

definition Server_HandleConnectionOpened :: "client_id \<Rightarrow> ServerState \<Rightarrow> ServerState option" where
  "Server_HandleConnectionOpened = ClientConnected"

definition Server_HandleConnectionClosed :: "client_id \<Rightarrow> ServerState \<Rightarrow> ServerState option" where
  "Server_HandleConnectionClosed i st = do {
     _ \<leftarrow> st_clients st i;
     st \<leftarrow> Server_AbortTransaction i True st;
     Client_CloseAllDatabases i st }"

record DatabaseOpen =
  do_clientId :: client_id
  do_databaseName :: string
  do_openMode :: OpenMode
  do_mvcc :: bool

definition Server_HandleDatabaseOpen :: "Env \<Rightarrow> DatabaseOpen \<Rightarrow> ServerState \<Rightarrow> ServerState option" where
  "Server_HandleDatabaseOpen env message st = do {
     let i = do_clientId message;
     (result, db, st) \<leftarrow> Database_Open env (do_databaseName message) (do_openMode message) st;
     case db of
       None \<Rightarrow> Some (SendMessageToClient i (DatabaseOpenResponse result 0) st)
     | Some p \<Rightarrow> do {
         c \<leftarrow> st_clients st i;
         if Client_HasDatabaseOpened c p
         then Database_Release p (SendMessageToClient i (DatabaseOpenResponse DATABASE_ALREADY_OPEN 0) st)
         else do {
           (dbId, st) \<leftarrow> Client_OpenDatabase i p (do_mvcc message) st;
           case dbId of
             Some n \<Rightarrow> Some (SendMessageToClient i (DatabaseOpenResponse OPEN_SUCCESS n) st)
           | None \<Rightarrow> Database_Release p (SendMessageToClient i (DatabaseOpenResponse TOO_MANY_DATABASES_OPEN 0) st) } } }"

definition Server_HandleDatabaseClose :: "client_id \<Rightarrow> database_id \<Rightarrow> ServerState \<Rightarrow> ServerState option" where
  "Server_HandleDatabaseClose i dbId st = do {
     c \<leftarrow> st_clients st i;
     if Client_IsInsideTransaction c
     then Some (SendMessageToClient i (DatabaseCloseResponse CL_TRANSACTION_IN_PROGRESS) st)
     else do {
       (closed, st) \<leftarrow> Client_CloseDatabase i dbId st;
       Some (SendMessageToClient i (DatabaseCloseResponse (if closed then CL_SUCCESS else CL_DATABASE_NOT_OPEN)) st) } }"

section \<open>Reading\<close>

text \<open>The error messages of deadlocks are not modelled. Every other client of a deadlock is aborted in turn.\<close>

fun abort_victims :: "DeadlockInfo list \<Rightarrow> ServerState \<Rightarrow> ServerState option" where
  "abort_victims [] st = Some st"
| "abort_victims (d # ds) st = do {
     _ \<leftarrow> st_clients st (dl_client1 d);
     st \<leftarrow> Server_AbortTransaction (dl_client1 d) False
             (SendMessageToClient (dl_client1 d) (BlobsReadError BR_DEADLOCK) st);
     abort_victims ds st }"

definition has_priority :: "clients \<Rightarrow> int \<Rightarrow> DeadlockInfo \<Rightarrow> bool" where
  "has_priority clients thisPriority d =
     (case clients (dl_client1 d) of None \<Rightarrow> False | Some c \<Rightarrow> c_transactionPriority c \<ge> thisPriority)"

definition Server_resolve_deadlocks :: "client_id \<Rightarrow> DeadlockInfo list \<Rightarrow> ServerState \<Rightarrow> ServerState option" where
  "Server_resolve_deadlocks i deadlocks st = do {
     c \<leftarrow> st_clients st i;
     if deadlocks = [] then Some st
     else if list_ex (has_priority (st_clients st) (c_transactionPriority c)) deadlocks
     then Server_AbortTransaction i False (SendMessageToClient i (BlobsReadError BR_DEADLOCK) st)
     else abort_victims deadlocks st }"

text \<open>Queueing a request with a timeout schedules the check of the timeouts of its database.\<close>

definition Server_QueueRead :: "db_ptr \<Rightarrow> BlobsRead \<Rightarrow> ServerState \<Rightarrow> (DeadlockInfo list \<times> ServerState) option" where
  "Server_QueueRead p message st = do {
     db \<leftarrow> st_databases st p;
     (deadlocks, queue) \<leftarrow> Database_QueueReadCheckDeadlock (CanRevokeStickyLock (st_clients st))
        (db_view_of (db_store db)) (db_locks db) (st_now st) (db_queuedReads db) message;
     let st = set_db p (db\<lparr>db_queuedReads := queue\<rparr>) st;
     Some (deadlocks,
       case qm_lockTimeoutTime (last queue) of
         None \<Rightarrow> st
       | Some t \<Rightarrow> st\<lparr>st_tasks := Scheduler_RunAt t (LockTimeoutTask p) (st_tasks st)\<rparr>) }"

definition Server_HandleBlobsRead :: "BlobsRead \<Rightarrow> ServerState \<Rightarrow> ServerState option" where
  "Server_HandleBlobsRead message st = do {
     (handled, st) \<leftarrow> Server_TryHandleBlobsRead message st;
     if handled then Some st
     else do {
       let i = br_clientId message;
       c \<leftarrow> st_clients st i;
       p \<leftarrow> Client_GetDatabase c (br_databaseId message);
       if br_lockTimeoutMs message = 0 then Some (Server_ReadTimedOut message st)
       else do {
         (deadlocks, st) \<leftarrow> Server_QueueRead p message st;
         Server_resolve_deadlocks i deadlocks st } } }"

section \<open>Transactions\<close>

text \<open>The entries before an invalid one have taken effect when the error is sent.\<close>

fun begin_databases :: "client_id \<Rightarrow> (database_id \<times> TxnMode) list \<Rightarrow> ServerState \<Rightarrow> (bool \<times> ServerState) option" where
  "begin_databases i [] st = Some (True, st)"
| "begin_databases i ((dbId, txnMode) # es) st = do {
     c \<leftarrow> st_clients st i;
     if Client_GetDatabase c dbId = None then Some (False, st)
     else do {
       st \<leftarrow> (if txnMode \<noteq> Txn_UpdateKeepStickyLocks then Client_ReleaseAllLocksForDatabase i dbId st else Some st);
       c \<leftarrow> st_clients st i;
       c \<leftarrow> Client_SetDatabaseMVCCMode dbId (txnMode = Txn_MVCC) c;
       begin_databases i es (set_client i c st) } }"

definition Server_HandleTransactionBegin :: "TransactionBegin \<Rightarrow> ServerState \<Rightarrow> ServerState option" where
  "Server_HandleTransactionBegin message st = do {
     let i = tb_clientId message;
     c \<leftarrow> st_clients st i;
     if Client_IsInsideTransaction c
     then Some (SendMessageToClient i (TransactionBeginError TB_ERROR_ALREADY_IN_TRANSACTION) st)
     else do {
       (valid, st) \<leftarrow> begin_databases i (tb_databases message) st;
       if \<not> valid then Some (SendMessageToClient i (TransactionBeginError TB_ERROR_INVALID_DATABASE) st)
       else do {
         st \<leftarrow> Client_BeginTransaction i (tb_transactionPriority message) st;
         (response, st) \<leftarrow> Client_ConstructTransactionBeginResponse i st;
         Some (SendMessageToClient i response st) } } }"

definition Server_HandleTransactionAbort :: "client_id \<Rightarrow> ServerState \<Rightarrow> ServerState option" where
  "Server_HandleTransactionAbort i st = do { _ \<leftarrow> st_clients st i; Server_AbortTransaction i False st }"

section \<open>Committing\<close>

definition client_database_of :: "ServerState \<Rightarrow> client_id \<Rightarrow> Client \<Rightarrow> database_id \<Rightarrow> client_database option" where
  "client_database_of st i c dbId = do {
     p \<leftarrow> Client_GetDatabase c dbId;
     db \<leftarrow> st_databases st p;
     mvcc \<leftarrow> Client_IsDatabaseMVCC c dbId;
     Some \<lparr>cd_info = db_info_of (db_store db), cd_owns = Database_ClientOwnsWriteLock (db_locks db) i, cd_mvcc = mvcc\<rparr> }"

text \<open>The messages of one database after the other, which validation has made sure of.\<close>

function commit_groups :: "TransactionCommit list \<Rightarrow> (database_id \<times> TransactionCommit list) list" where
  "commit_groups [] = []"
| "commit_groups (m # ms) =
     (tc_databaseId m, m # takeWhile (\<lambda>x. tc_databaseId x = tc_databaseId m) ms)
       # commit_groups (dropWhile (\<lambda>x. tc_databaseId x = tc_databaseId m) ms)"
  by pat_completeness auto
termination by (relation "measure length") (auto simp: le_imp_less_Suc length_dropWhile_le)

fun calculate_commits ::
  "(BlockReference list \<Rightarrow> BlockReference list) \<Rightarrow> ServerState \<Rightarrow> Client \<Rightarrow> (database_id \<times> TransactionCommit list) list
     \<Rightarrow> (database_id \<times> CommitResult) list option" where
  "calculate_commits srt st c [] = Some []"
| "calculate_commits srt st c ((dbId, ms) # gs) = do {
     p \<leftarrow> Client_GetDatabase c dbId;
     db \<leftarrow> st_databases st p;
     r \<leftarrow> Database_CalculateCommitResult srt ms (db_store db);
     rs \<leftarrow> calculate_commits srt st c gs;
     Some ((dbId, r) # rs) }"

fun apply_commits ::
  "Client \<Rightarrow> (database_id \<times> CommitResult) list \<Rightarrow> ServerState \<Rightarrow> ((database_id \<times> commit_id) list \<times> ServerState) option" where
  "apply_commits c [] st = Some ([], st)"
| "apply_commits c ((dbId, r) # rs) st = do {
     p \<leftarrow> Client_GetDatabase c dbId;
     db \<leftarrow> st_databases st p;
     (commitId, store) \<leftarrow> CommitResult_ApplyToDatabase r (db_store db);
     (ids, st) \<leftarrow> apply_commits c rs (set_db p (db\<lparr>db_store := store\<rparr>) st);
     Some ((dbId, commitId) # ids, st) }"

fun acquire_implicit :: "client_id \<Rightarrow> (database_id \<times> BlobLocation list) list \<Rightarrow> ServerState \<Rightarrow> ServerState option" where
  "acquire_implicit i [] st = Some st"
| "acquire_implicit i ((dbId, locks) # ls) st = do {
     st \<leftarrow> Client_AcquireImplicitWriteLocks i dbId locks st; acquire_implicit i ls st }"

fun release_deleted :: "client_id \<Rightarrow> (database_id \<times> CommitResult) list \<Rightarrow> ServerState \<Rightarrow> ServerState option" where
  "release_deleted i [] st = Some st"
| "release_deleted i ((dbId, r) # rs) st = do {
     st \<leftarrow> Client_ReleaseDeletedLocks i dbId (cr_deleted r) st; release_deleted i rs st }"

definition Server_execute_commit ::
  "(BlockReference list \<Rightarrow> BlockReference list) \<Rightarrow> client_id \<Rightarrow> (database_id \<times> BlobLocation list) list \<Rightarrow> ServerState \<Rightarrow> ServerState option" where
  "Server_execute_commit srt i implicitWriteLocks st = do {
     c \<leftarrow> st_clients st i;
     results \<leftarrow> calculate_commits srt st c (commit_groups (c_commitMessages c));
     st \<leftarrow> clear_commitMessages i st;
     (ids, st) \<leftarrow> apply_commits c results st;
     st \<leftarrow> acquire_implicit i implicitWriteLocks st;
     st \<leftarrow> release_deleted i results st;
     Server_AbortTransaction i False (SendMessageToClient i (TransactionCommitResponse ids) st) }"

definition Server_HandleTransactionCommit ::
  "(BlockReference list \<Rightarrow> BlockReference list) \<Rightarrow> TransactionCommit \<Rightarrow> ServerState \<Rightarrow> ServerState option" where
  "Server_HandleTransactionCommit srt message st = do {
     let i = tc_clientId message;
     c \<leftarrow> st_clients st i;
     if \<not> Client_IsInsideTransaction c
     then Some (SendMessageToClient i (TransactionCommitError TC_NO_TRANSACTION_IN_PROGRESS) st)
     else do {
       let c = c\<lparr>c_commitMessages := c_commitMessages c @ [message]\<rparr>;
       let st = set_client i c st;
       if tc_hasFollowMessage message then Some st
       else do {
         (code, implicitWriteLocks) \<leftarrow> Server_ValidateCommitMessages (client_database_of st i c) (c_commitMessages c);
         if code = TC_SUCCESS then Server_execute_commit srt i implicitWriteLocks st
         else Server_AbortTransactionCommit i (SendMessageToClient i (TransactionCommitError code) st) } } }"

section \<open>Tasks, messages and the server loop\<close>

text \<open>The close task holds a plain pointer to its database, the timeout check a weak one.\<close>

fun run_task :: "Task \<Rightarrow> ServerState \<Rightarrow> ServerState option" where
  "run_task (CloseTask p closeTimePoint) st = do {
     db \<leftarrow> st_databases st p;
     Some (if db_useCount db = 0 \<and> db_delayedCloseAt db = Some closeTimePoint then Database_Close p st else st) }"
| "run_task (LockTimeoutTask p) st =
     (case st_databases st p of
        None \<Rightarrow> Some st
      | Some db \<Rightarrow> (case Database_CheckForLockTimeouts (st_now st) (db_queuedReads db) of
          (notified, queue) \<Rightarrow>
            Some (fold (\<lambda>i. SendMessageToClient i (BlobsReadError BR_LOCK_TIMEOUT)) notified
                   (set_db p (db\<lparr>db_queuedReads := queue\<rparr>) st))))"

datatype Message =
    Msg_ConnectionOpened client_id
  | Msg_ConnectionClosed client_id
  | Msg_DatabaseOpen DatabaseOpen
  | Msg_DatabaseClose client_id database_id
  | Msg_BlobsRead BlobsRead
  | Msg_TransactionBegin TransactionBegin
  | Msg_TransactionAbort client_id
  | Msg_TransactionCommit TransactionCommit
  | Msg_Other client_id

fun Server_ProcessMessage ::
  "Env \<Rightarrow> (BlockReference list \<Rightarrow> BlockReference list) \<Rightarrow> Message \<Rightarrow> ServerState \<Rightarrow> ServerState option" where
  "Server_ProcessMessage env srt (Msg_ConnectionOpened i) st = Server_HandleConnectionOpened i st"
| "Server_ProcessMessage env srt (Msg_ConnectionClosed i) st = Server_HandleConnectionClosed i st"
| "Server_ProcessMessage env srt (Msg_DatabaseOpen m) st = Server_HandleDatabaseOpen env m st"
| "Server_ProcessMessage env srt (Msg_DatabaseClose i dbId) st = Server_HandleDatabaseClose i dbId st"
| "Server_ProcessMessage env srt (Msg_BlobsRead m) st = Server_HandleBlobsRead m st"
| "Server_ProcessMessage env srt (Msg_TransactionBegin m) st = Server_HandleTransactionBegin m st"
| "Server_ProcessMessage env srt (Msg_TransactionAbort i) st = Server_HandleTransactionAbort i st"
| "Server_ProcessMessage env srt (Msg_TransactionCommit m) st = Server_HandleTransactionCommit srt m st"
| "Server_ProcessMessage env srt (Msg_Other i) st = Some st"

fun Server_ProcessMessages ::
  "Env \<Rightarrow> (BlockReference list \<Rightarrow> BlockReference list) \<Rightarrow> Message list \<Rightarrow> ServerState \<Rightarrow> ServerState option" where
  "Server_ProcessMessages env srt [] st = Some st"
| "Server_ProcessMessages env srt (m # ms) st = do {
     st \<leftarrow> Server_ProcessMessage env srt m st; Server_ProcessMessages env srt ms st }"

definition run_next_task :: "ServerState \<Rightarrow> ServerState option" where
  "run_next_task st = do {
     (task, tasks) \<leftarrow> Scheduler_NextTask (st_now st) (st_tasks st); run_task task (st\<lparr>st_tasks := tasks\<rparr>) }"

inductive server_step :: "Env \<Rightarrow> (BlockReference list \<Rightarrow> BlockReference list) \<Rightarrow> ServerState \<Rightarrow> ServerState \<Rightarrow> bool"
  for env srt where
  step_message: "Server_ProcessMessage env srt m st = Some st' \<Longrightarrow> server_step env srt st st'"
| step_task: "run_next_task st = Some st' \<Longrightarrow> server_step env srt st st'"
| step_time: "0 \<le> d \<Longrightarrow> server_step env srt st (st\<lparr>st_now := st_now st + d\<rparr>)"

inductive_cases server_stepE: "server_step env srt st st'"

inductive server_reachable :: "Env \<Rightarrow> (BlockReference list \<Rightarrow> BlockReference list) \<Rightarrow> int \<Rightarrow> ServerState \<Rightarrow> bool"
  for env srt closeDelay where
  reachable_init: "server_reachable env srt closeDelay (Server_new closeDelay)"
| reachable_step: "server_reachable env srt closeDelay st \<Longrightarrow> server_step env srt st st'
    \<Longrightarrow> server_reachable env srt closeDelay st'"

end
