(* ===== verification/Server_Frame.thy ===== *)
theory Server_Frame
  imports Server_Handlers
begin

text \<open>
  What the parts of a handler leave unchanged: which databases the clients have opened, in which
  mode and whether they are inside a transaction; the use counts, the queues and the current and MVCC snapshots of the
  databases; and the accesses of the clients inside a transaction. Reading blobs and acquiring locks are of this kind.
\<close>

section \<open>Clients\<close>

definition client_shape :: "Client \<Rightarrow> bool \<times> (db_ptr option \<times> bool) list" where
  "client_shape c = (c_hasTransaction c, map (\<lambda>e. (dbl_database e, dbl_isMVCC e)) (c_openDatabases c))"

definition same_clients :: "clients \<Rightarrow> clients \<Rightarrow> bool" where
  "same_clients cs cs' = (\<forall>i. map_option client_shape (cs' i) = map_option client_shape (cs i))"

definition active :: "clients \<Rightarrow> client_id \<Rightarrow> bool" where
  "active cs i = (case cs i of None \<Rightarrow> False | Some c \<Rightarrow> c_hasTransaction c)"

lemma same_clients_refl [simp]: "same_clients cs cs"
  by (simp add: same_clients_def)

lemma same_clients_trans: "same_clients a b \<Longrightarrow> same_clients b c \<Longrightarrow> same_clients a c"
  by (simp add: same_clients_def)

lemma same_clients_upd:
  assumes "cs i = Some c" "client_shape c' = client_shape c"
  shows "same_clients cs (cs(i \<mapsto> c'))"
  using assms by (simp add: same_clients_def)

lemma same_clientsE:
  assumes "same_clients cs cs'" "cs i = Some c"
  obtains c' where "cs' i = Some c'" "client_shape c' = client_shape c"
  using assms(1) [unfolded same_clients_def, THEN spec, of i] assms(2) by (cases "cs' i") auto

lemma same_clientsE':
  assumes "same_clients cs cs'" "cs' i = Some c'"
  obtains c where "cs i = Some c" "client_shape c' = client_shape c"
  using assms(1) [unfolded same_clients_def, THEN spec, of i] assms(2) by (cases "cs i") auto

lemma same_clients_active: "same_clients cs cs' \<Longrightarrow> active cs' = active cs"
  by (rule ext) (auto simp: active_def client_shape_def elim: same_clientsE same_clientsE' split: option.splits)

lemma shape_entry:
  assumes "client_shape c' = client_shape c"
  shows "length (c_openDatabases c') = length (c_openDatabases c)" "c_hasTransaction c' = c_hasTransaction c"
    and "n < length (c_openDatabases c) \<Longrightarrow> dbl_database (c_openDatabases c' ! n) = dbl_database (c_openDatabases c ! n)"
    and "n < length (c_openDatabases c) \<Longrightarrow> dbl_isMVCC (c_openDatabases c' ! n) = dbl_isMVCC (c_openDatabases c ! n)"
proof -
  let ?f = "\<lambda>e. (dbl_database e, dbl_isMVCC e)"
  have m: "map ?f (c_openDatabases c') = map ?f (c_openDatabases c)"
    using assms by (simp add: client_shape_def)
  show "c_hasTransaction c' = c_hasTransaction c" using assms by (simp add: client_shape_def)
  show l: "length (c_openDatabases c') = length (c_openDatabases c)" by (rule map_eq_imp_length_eq [OF m])
  have f: "?f (c_openDatabases c' ! n) = ?f (c_openDatabases c ! n)" if "n < length (c_openDatabases c)"
    using arg_cong [OF m, of "\<lambda>xs. xs ! n"] l that by simp
  show "dbl_database (c_openDatabases c' ! n) = dbl_database (c_openDatabases c ! n)"
    "dbl_isMVCC (c_openDatabases c' ! n) = dbl_isMVCC (c_openDatabases c ! n)" if "n < length (c_openDatabases c)"
    using f [OF that] by simp_all
qed

lemma shape_GetDatabase: "client_shape c' = client_shape c \<Longrightarrow> Client_GetDatabase c' i = Client_GetDatabase c i"
  using shape_entry(1,3) [of c' c] by (simp add: Client_GetDatabase_def)

lemma map_update_same: "f e = f (xs ! n) \<Longrightarrow> map f (xs[n := e]) = map f xs"
  by (cases "n < length xs") (simp_all add: map_update list_update_same_conv [THEN iffD2] list_update_beyond)

lemma shape_set_entry:
  assumes "dbl_database e = dbl_database (c_openDatabases c ! n)" "dbl_isMVCC e = dbl_isMVCC (c_openDatabases c ! n)"
  shows "client_shape (set_entry n e c) = client_shape c"
  using assms by (simp add: client_shape_def set_entry_def map_update_same)

lemma AddLock_entry [simp]:
  "dbl_database (DatabaseLocks_AddLock l e) = dbl_database e" "dbl_isMVCC (DatabaseLocks_AddLock l e) = dbl_isMVCC e"
  by (simp_all add: DatabaseLocks_AddLock_def)

lemma fold_AddLock_entry [simp]:
  "dbl_database (fold DatabaseLocks_AddLock ls e) = dbl_database e" "dbl_isMVCC (fold DatabaseLocks_AddLock ls e) = dbl_isMVCC e"
  by (induction ls arbitrary: e) simp_all

lemma drop_revoked_entry:
  "drop_revoked e = Some e' \<Longrightarrow> dbl_database e' = dbl_database e \<and> dbl_isMVCC e' = dbl_isMVCC e"
  by (auto simp: drop_revoked_def DatabaseLocks_ApplyRevokedLocks_def Let_def split: if_splits)

lemma same_clients_revoke: "same_clients cs (RevokeStickyLock p cs i l)"
  by (auto simp: RevokeStickyLock_def Client_RevokeStickyLock_def Let_def
      intro!: same_clients_upd shape_set_entry split: option.splits)

lemma same_clients_fold_revoke: "same_clients cs (fold (\<lambda>c s. if P c then RevokeStickyLock p s c l else s) xs cs)"
  by (induction xs arbitrary: cs) (auto intro: same_clients_trans same_clients_revoke)

section \<open>Locks\<close>

text \<open>A change of a lock table that takes nothing from clients inside a transaction, apart from \<open>w\<close>.\<close>

definition keeps_grants :: "(client_id \<Rightarrow> bool) \<Rightarrow> client_id option \<Rightarrow> lock_table \<Rightarrow> lock_table \<Rightarrow> bool" where
  "keeps_grants act w L L' = (table_ok L \<longrightarrow> table_ok L'
     \<and> (\<forall>i l v. act i \<longrightarrow> w \<noteq> Some i \<longrightarrow> table_grants L i l v \<longrightarrow> table_grants L' i l v))"

lemma keeps_grants_refl [simp]: "keeps_grants act w L L"
  by (simp add: keeps_grants_def)

lemma keeps_grants_trans: "keeps_grants act w L M \<Longrightarrow> keeps_grants act w M N \<Longrightarrow> keeps_grants act w L N"
  by (simp add: keeps_grants_def)

lemma keeps_grants_mono: "keeps_grants act None L L' \<Longrightarrow> keeps_grants act w L L'"
  by (simp add: keeps_grants_def)

lemma Release_frame:
  assumes "Lock_Release l c = Some (free, l')" "lock_wf l" "lock_held l"
  shows "lock_wf l' \<and> lock_location l' = lock_location l \<and> (free \<longleftrightarrow> \<not> lock_held l')
    \<and> (\<forall>d v. lock_grants l' d v \<longleftrightarrow> d \<noteq> c \<and> lock_grants l d v)"
proof (cases "c \<in> set (lock_holders l)")
  case True
  with Release_spec [OF assms(2) True] assms(1) show ?thesis by auto
next
  case False
  with assms show ?thesis
    by (auto simp: Lock_Release_def lock_wf_def lock_held_def lock_holders_def lock_grants_def Let_def
        split: option.splits if_splits)
qed

lemma ReleaseLock_frame:
  assumes "Database_ReleaseLock L c loc = Some L'"
  shows "keeps_grants act (Some c) L L'"
proof (unfold keeps_grants_def, intro impI)
  assume ok: "table_ok L"
  from assms obtain l free l' where l: "L loc = Some l" "Lock_Release l c = Some (free, l')"
    and L': "L' = (if free then L(loc := None) else L(loc \<mapsto> l'))"
    by (auto simp: Database_ReleaseLock_def split: option.splits)
  from Release_frame [OF l(2)] table_okD [OF ok l(1)]
  have f: "lock_wf l'" "lock_location l' = loc" "free \<longleftrightarrow> \<not> lock_held l'"
    "\<And>d v. lock_grants l' d v \<longleftrightarrow> d \<noteq> c \<and> lock_grants l d v" by auto
  have "table_ok L'" using ok L' f by (auto intro!: table_ok_remove table_ok_upd)
  moreover have "table_grants L' i k v" if "i \<noteq> c" "table_grants L i k v" for i k v
  proof (cases "k = loc")
    case True
    with that l f(4) have "lock_grants l' i v" by (auto simp: table_grants_def)
    with f(1,3) lock_held_grants have "\<not> free" by blast
    with True L' \<open>lock_grants l' i v\<close> show ?thesis by (simp add: table_grants_def)
  next
    case False
    with that L' show ?thesis by (simp add: table_grants_def)
  qed
  ultimately show "table_ok L' \<and> (\<forall>i l v. act i \<longrightarrow> Some c \<noteq> Some i \<longrightarrow> table_grants L i l v \<longrightarrow> table_grants L' i l v)"
    by auto
qed

lemma ReleaseLocks_frame: "Database_ReleaseLocks L c ls = Some L' \<Longrightarrow> keeps_grants act (Some c) L L'"
proof (induction ls arbitrary: L)
  case (Cons l ls)
  then obtain M where "Database_ReleaseLock L c l = Some M" "Database_ReleaseLocks M c ls = Some L'"
    by (auto split: option.splits)
  then show ?case using Cons.IH ReleaseLock_frame keeps_grants_trans by blast
qed simp

lemma AcquireClientLock_clients:
  assumes "Database_AcquireClientLock (RevokeStickyLock p) c w loc (L, cs) = (L', cs')"
  shows "same_clients cs cs'"
  using assms same_clients_revoke same_clients_fold_revoke [where P = "\<lambda>d. d \<noteq> c"]
  by (auto simp: Database_AcquireClientLock_def Lock_Acquire_def Let_def split: option.splits prod.splits if_splits)

lemma AcquireClientLocks_clients:
  assumes "fold (Database_AcquireClientLock (RevokeStickyLock p) c w) ls (L, cs) = (L', cs')"
  shows "same_clients cs cs'"
  using assms
proof (induction ls arbitrary: L cs)
  case (Cons l ls)
  obtain M ds where "Database_AcquireClientLock (RevokeStickyLock p) c w l (L, cs) = (M, ds)" by fastforce
  with Cons AcquireClientLock_clients same_clients_trans show ?case by fastforce
qed simp

lemma not_active_revoke: "active cs i \<Longrightarrow> \<not> CanRevokeStickyLock cs i"
  by (auto simp: active_def CanRevokeStickyLock_def Client_IsInsideTransaction_def split: option.splits)

lemma AcquireLocks_frame:
  assumes "Database_AcquireLocks CanRevokeStickyLock (RevokeStickyLock p) view m (L, cs) = Some (ok, L', cs')"
  shows "keeps_grants (active cs) w L L' \<and> same_clients cs cs'"
proof (cases ok)
  case False
  with assms show ?thesis
    by (auto simp: Database_AcquireLocks_def Let_def split: option.splits bool.splits)
next
  case True
  with assms obtain ls where ls: "ForEachLockInMessage view (br_locations m) = Some ls"
    by (auto simp: Database_AcquireLocks_def Let_def split: option.splits bool.splits)
  let ?c = "br_clientId m" and ?w = "BlobsRead_NeedsWriteLock m"
  from assms True have can: "list_all (\<lambda>l. Database_CanClientAcquireLock (CanRevokeStickyLock cs) L ?c l ?w) ls"
    and f: "fold (Database_AcquireClientLock (RevokeStickyLock p) ?c ?w) ls (L, cs) = (L', cs')"
    by (auto simp: AcquireLocks_eq [OF ls] split: if_splits)
  have "keeps_grants (active cs) w L L'"
    using sticky.acquire_all [OF _ _ f] can not_active_revoke by (simp add: keeps_grants_def list_all_iff)
  with AcquireClientLocks_clients [OF f] show ?thesis by blast
qed

section \<open>Databases\<close>

text \<open>Reading loads objects from the database file.\<close>

inductive store_read :: "DbStore \<Rightarrow> DbStore \<Rightarrow> bool" where
  read_blob: "Database_GetLoadedBlob l mvcc s = Some (r, s') \<Longrightarrow> store_read s s'"
| read_cluster: "Database_GetLoadedCluster g c mvcc s = Some (r', s') \<Longrightarrow> store_read s s'"
| read_segment: "Database_GetLoadedSegment g mvcc s = Some (r', s') \<Longrightarrow> store_read s s'"

abbreviation store_reads :: "DbStore \<Rightarrow> DbStore \<Rightarrow> bool" where
  "store_reads \<equiv> store_read\<^sup>*\<^sup>*"

lemmas store_reads_intros =
  r_into_rtranclp [of store_read, OF read_blob] r_into_rtranclp [of store_read, OF read_cluster]
  r_into_rtranclp [of store_read, OF read_segment]

lemma ensure_blob_exists_reads: "ensure_blob_exists m mvcc l s = Some (r, s') \<Longrightarrow> store_reads s s'"
  by (auto simp: ensure_blob_exists_def exists_or_def intro: store_reads_intros split: if_splits)

lemma EnsureRequestedBlobsExist_reads:
  "Server_EnsureRequestedBlobsExist m mvcc ls s = Some (r, s') \<Longrightarrow> store_reads s s'"
proof (induction ls arbitrary: s)
  case (Cons l ls)
  then show ?case
    by (fastforce split: bind_splits if_splits dest: ensure_blob_exists_reads elim: rtranclp_trans)
qed simp

lemma answer_blob_reads: "answer_blob m mvcc r s = Some (a, s') \<Longrightarrow> store_reads s s'"
  by (auto simp: answer_blob_def Let_def Server_HandleBlobListId_def Server_HandleClusterListId_def
      Server_HandleSegmentListId_def Server_HandleRegularBlobRead_def intro: store_reads_intros split: if_splits bind_splits)

lemma answer_blobs_reads: "answer_blobs m mvcc rs s = Some (as, s') \<Longrightarrow> store_reads s s'"
proof (induction rs arbitrary: s as)
  case (Cons r rs)
  then show ?case by (fastforce split: bind_splits dest: answer_blob_reads elim: rtranclp_trans)
qed simp

definition quiet_db :: "(client_id \<Rightarrow> bool) \<Rightarrow> client_id option \<Rightarrow> Database \<Rightarrow> Database \<Rightarrow> bool" where
  "quiet_db act w db db' = (\<exists>L s. db' = db\<lparr>db_locks := L, db_store := s\<rparr>
     \<and> keeps_grants act w (db_locks db) L \<and> store_reads (db_store db) s)"

lemma quiet_db_refl [simp]: "quiet_db act w db db"
  unfolding quiet_db_def by (rule exI [of _ "db_locks db"], rule exI [of _ "db_store db"]) simp

lemma quiet_db_trans: "quiet_db act w a b \<Longrightarrow> quiet_db act w b c \<Longrightarrow> quiet_db act w a c"
  unfolding quiet_db_def by (fastforce intro: keeps_grants_trans rtranclp_trans)

definition quiet :: "client_id option \<Rightarrow> ServerState \<Rightarrow> ServerState \<Rightarrow> bool" where
  "quiet w st st' = (same_clients (st_clients st) (st_clients st')
     \<and> st_dbList st' = st_dbList st \<and> st_nextPtr st' = st_nextPtr st \<and> st_closeDelay st' = st_closeDelay st
     \<and> (\<forall>p. rel_option (quiet_db (active (st_clients st)) w) (st_databases st p) (st_databases st' p)))"

lemma quiet_refl [simp]: "quiet w st st"
  by (simp add: quiet_def option.rel_refl)

lemma quiet_trans: 
  assumes "quiet w a b" "quiet w b c"
  shows "quiet w a c"
proof -
  have act: "active (st_clients b) = active (st_clients a)" using assms(1) same_clients_active by (auto simp: quiet_def)
  have "rel_option (quiet_db (active (st_clients a)) w) (st_databases a p) (st_databases c p)" for p
  proof -
    have "rel_option (quiet_db (active (st_clients a)) w) (st_databases a p) (st_databases b p)"
      "rel_option (quiet_db (active (st_clients a)) w) (st_databases b p) (st_databases c p)"
      using assms unfolding quiet_def act by blast+
    then show ?thesis
      by (cases "st_databases a p"; cases "st_databases b p"; cases "st_databases c p") (auto intro: quiet_db_trans)
  qed
  then show ?thesis using assms same_clients_trans unfolding quiet_def by auto
qed

lemma quiet_same:
  assumes "st_clients st' = st_clients st" "st_databases st' = st_databases st" "st_dbList st' = st_dbList st"
    "st_nextPtr st' = st_nextPtr st" "st_closeDelay st' = st_closeDelay st"
  shows "quiet w st st'"
  using assms by (simp add: quiet_def option.rel_refl)

lemma quiet_send [simp]: "quiet w st (SendMessageToClient i r st)"
  by (rule quiet_same) (simp_all add: SendMessageToClient_def)

lemma quiet_sends: "quiet w st (fold (SendMessageToClient i) rs st)"
proof (induction rs arbitrary: st)
  case (Cons r rs)
  have "quiet w st (SendMessageToClient i r st)" by simp
  from quiet_trans [OF this Cons] show ?case by simp
qed simp

lemma quiet_client:
  assumes "st_clients st i = Some c" "client_shape c' = client_shape c"
  shows "quiet w st (set_client i c' st)"
  using same_clients_upd [of "st_clients st" i c c'] assms by (simp add: quiet_def option.rel_refl)

lemma quiet_clients_db:
  assumes "same_clients (st_clients st) cs" "st_databases st p = Some db" "quiet_db (active (st_clients st)) w db db'"
  shows "quiet w st (set_db p db' (st\<lparr>st_clients := cs\<rparr>))"
  using assms by (simp add: quiet_def option.rel_refl)

lemma quiet_db_upd:
  assumes "st_databases st p = Some db" "quiet_db (active (st_clients st)) w db db'"
  shows "quiet w st (set_db p db' st)"
  using quiet_clients_db [OF same_clients_refl assms] by simp

lemma quiet_locks:
  "keeps_grants act w (db_locks db) L \<Longrightarrow> quiet_db act w db (db\<lparr>db_locks := L\<rparr>)"
  unfolding quiet_db_def by (rule exI [of _ L], rule exI [of _ "db_store db"]) simp

lemma quiet_store: "store_reads (db_store db) s \<Longrightarrow> quiet_db act w db (db\<lparr>db_store := s\<rparr>)"
  unfolding quiet_db_def by (rule exI [of _ "db_locks db"], rule exI [of _ s]) simp

lemma quiet_mono: "quiet None st st' \<Longrightarrow> quiet w st st'"
  unfolding quiet_def quiet_db_def by (fastforce intro: keeps_grants_mono option.rel_mono_strong)

section \<open>Answering a read\<close>

lemma Client_AcquireLocks_quiet:
  assumes "Client_AcquireLocks m st = Some (ok, st')"
  shows "quiet w st st'"
proof -
  let ?i = "br_clientId m" and ?n = "unat (br_databaseId m)"
  obtain c p db where c: "st_clients st ?i = Some c" "Client_GetDatabase c (br_databaseId m) = Some p" "st_databases st p = Some db"
    "c_hasTransaction c"
    using assms by (auto simp: Client_AcquireLocks_def Client_IsInsideTransaction_def Let_def split: bind_splits if_splits)
  obtain ok' L cs where acq: "Database_AcquireLocks CanRevokeStickyLock (RevokeStickyLock p) (db_view_of (db_store db)) m
      (db_locks db, st_clients st) = Some (ok', L, cs)"
    using assms c by (auto simp: Client_AcquireLocks_def Client_IsInsideTransaction_def Let_def split: bind_splits if_splits)
  let ?st = "set_db p (db\<lparr>db_locks := L\<rparr>) (st\<lparr>st_clients := cs\<rparr>)"
  from AcquireLocks_frame [OF acq] have q: "quiet w st ?st"
    by (intro quiet_clients_db [OF _ c(3)] quiet_locks) blast+
  show ?thesis
  proof (cases ok')
    case False
    with assms c acq have "st' = ?st" by (simp add: Client_AcquireLocks_def Client_IsInsideTransaction_def Let_def)
    with q show ?thesis by simp
  next
    case True
    with assms c acq obtain ls c' where c': "cs ?i = Some c'"
      and st': "st' = set_client ?i (set_entry ?n (fold DatabaseLocks_AddLock ls (c_openDatabases c' ! ?n)) c') ?st"
      by (auto simp: Client_AcquireLocks_def Client_IsInsideTransaction_def Let_def split: bind_splits)
    have "quiet w ?st st'" unfolding st' using c' by (intro quiet_client [where c = c']) (auto intro: shape_set_entry)
    with q show ?thesis by (rule quiet_trans)
  qed
qed

lemma BuildAndSend_quiet:
  assumes "Server_BuildAndSendBlobsReadResponse p m mvcc st = Some st'"
  shows "quiet w st st'"
proof -
  from assms obtain db as s rs where "st_databases st p = Some db" "answer_blobs (br_lockMode m) mvcc (br_blobs m) (db_store db) = Some (as, s)"
    and st': "st' = fold (SendMessageToClient (br_clientId m)) rs (set_db p (db\<lparr>db_store := s\<rparr>) st)"
    by (auto simp: Server_BuildAndSendBlobsReadResponse_def split: bind_splits)
  then have "quiet w st (set_db p (db\<lparr>db_store := s\<rparr>) st)"
    using quiet_db_upd quiet_store answer_blobs_reads by blast
  then show ?thesis unfolding st' using quiet_sends by (rule quiet_trans)
qed

lemma TryHandleBlobsRead_quiet:
  assumes "Server_TryHandleBlobsRead m st = Some (done, st')"
  shows "quiet w st st'
    \<and> (\<not> done \<longrightarrow> (\<exists>c p. st_clients st (br_clientId m) = Some c \<and> c_hasTransaction c \<and> Client_GetDatabase c (br_databaseId m) = Some p))"
proof -
  obtain c where c: "st_clients st (br_clientId m) = Some c"
    using assms by (auto simp: Server_TryHandleBlobsRead_def split: bind_splits)
  note def = Server_TryHandleBlobsRead_def Let_def Client_IsInsideTransaction_def
  show ?thesis
  proof (cases "Client_GetDatabase c (br_databaseId m)")
    case None
    with assms c show ?thesis by (auto simp: def)
  next
    case (Some p)
    show ?thesis
    proof (cases "\<not> BlobsRead_IsDirtyRead m \<and> \<not> c_hasTransaction c")
      case True
      with assms c Some show ?thesis by (auto simp: def)
    next
      case t: False
      then obtain mvcc where m: "Client_IsDatabaseMVCC c (br_databaseId m) = Some mvcc"
        using assms c Some by (auto simp: def split: bind_splits)
      let ?mvcc = "\<not> BlobsRead_IsDirtyRead m \<and> mvcc"
      show ?thesis
      proof (cases "?mvcc \<and> BlobsRead_NeedsWriteLock m")
        case True
        with assms c Some t m show ?thesis by (auto simp: def)
      next
        case False
        then obtain db err s where db: "st_databases st p = Some db"
          and e: "Server_EnsureRequestedBlobsExist (br_lockMode m) ?mvcc (br_locations m) (db_store db) = Some (err, s)"
          using assms c Some t m by (auto simp: def split: bind_splits)
        let ?st = "set_db p (db\<lparr>db_store := s\<rparr>) st"
        have q1: "quiet w st ?st"
          using quiet_db_upd [OF db] quiet_store [OF EnsureRequestedBlobsExist_reads [OF e]] by blast
        show ?thesis
        proof (cases err)
          case err: (Some code)
          with assms c Some t m False db e have "done \<and> st' = send_read_error m code ?st" by (auto simp: def)
          then show ?thesis using quiet_trans [OF q1 quiet_send] by simp
        next
          case None
          with assms c Some t m False db e obtain granted st2
            where g: "(if BlobsRead_IsDirtyRead m \<or> ?mvcc then Some (True, ?st) else Client_AcquireLocks m ?st) = Some (granted, st2)"
            and r: "if granted then done \<and> Server_BuildAndSendBlobsReadResponse p m ?mvcc st2 = Some st' else \<not> done \<and> st' = st2"
            by (auto simp: def split: bind_splits if_splits)
          from g have "quiet w ?st st2" using Client_AcquireLocks_quiet by (auto split: if_splits)
          moreover from r have "quiet w st2 st'" using BuildAndSend_quiet by (auto split: if_splits)
          ultimately have "quiet w st st'" using q1 quiet_trans by blast
          moreover have "\<not> done \<Longrightarrow> c_hasTransaction c" using g r t by (auto split: if_splits)
          ultimately show ?thesis using c Some by blast
        qed
      qed
    qed
  qed
qed

section \<open>Other quiet operations\<close>

lemma clear_commitMessages_quiet: "clear_commitMessages i st = Some st' \<Longrightarrow> quiet w st st'"
  by (auto simp: clear_commitMessages_def client_shape_def intro!: quiet_client split: bind_splits)

lemma quiet_release:
  assumes "st_clients st i = Some c" "st_databases st p = Some db" "Database_ReleaseLocks (db_locks db) i ls = Some L"
    and "dbl_database e = dbl_database (c_openDatabases c ! n)" "dbl_isMVCC e = dbl_isMVCC (c_openDatabases c ! n)"
  shows "quiet (Some i) st ((set_db p (db\<lparr>db_locks := L\<rparr>) st)\<lparr>st_clients := (st_clients st)(i \<mapsto> set_entry n e c)\<rparr>)"
proof -
  have "quiet (Some i) st (set_db p (db\<lparr>db_locks := L\<rparr>) st)"
    using quiet_db_upd [OF assms(2)] quiet_locks [OF ReleaseLocks_frame [OF assms(3)]] by blast
  moreover have "quiet (Some i) (set_db p (db\<lparr>db_locks := L\<rparr>) st)
      (set_client i (set_entry n e c) (set_db p (db\<lparr>db_locks := L\<rparr>) st))"
    using assms(1,4,5) by (intro quiet_client [where c = c]) (auto intro: shape_set_entry)
  ultimately show ?thesis using quiet_trans by fastforce
qed

lemma ReleaseDeletedLocks_quiet:
  assumes "Client_ReleaseDeletedLocks i dbId deleted st = Some st'"
  shows "quiet (Some i) st st'"
proof -
  from assms obtain c p db L where "st_clients st i = Some c" "st_databases st p = Some db"
    "Database_ReleaseLocks (db_locks db) i (filter (Deleted_IsDeleted deleted) (dbl_locks (c_openDatabases c ! unat dbId))) = Some L"
    and st': "st' = (set_db p (db\<lparr>db_locks := L\<rparr>) st)\<lparr>st_clients := (st_clients st)(i \<mapsto> set_entry (unat dbId)
      ((c_openDatabases c ! unat dbId)\<lparr>dbl_locks := filter (\<lambda>l. \<not> Deleted_IsDeleted deleted l) (dbl_locks (c_openDatabases c ! unat dbId))\<rparr>) c)\<rparr>"
    by (auto simp: Client_ReleaseDeletedLocks_def Let_def split: bind_splits)
  then show ?thesis unfolding st' by (intro quiet_release) auto
qed

lemma ReleaseAllLocks_quiet:
  assumes "Client_ReleaseAllLocksForDatabase i dbId st = Some st'"
  shows "quiet (Some i) st st'"
proof -
  from assms obtain c p db e L where "st_clients st i = Some c" "st_databases st p = Some db"
    "drop_revoked (c_openDatabases c ! unat dbId) = Some e" "Database_ReleaseLocks (db_locks db) i (dbl_locks e) = Some L"
    and st': "st' = (set_db p (db\<lparr>db_locks := L\<rparr>) st)\<lparr>st_clients := (st_clients st)(i \<mapsto> set_entry (unat dbId) (e\<lparr>dbl_locks := []\<rparr>) c)\<rparr>"
    by (auto simp: Client_ReleaseAllLocksForDatabase_def split: bind_splits)
  then show ?thesis unfolding st' using drop_revoked_entry by (intro quiet_release) auto
qed

lemma begin_response_shape:
  "begin_response_entries n es = Some (rs, es') \<Longrightarrow>
    map (\<lambda>e. (dbl_database e, dbl_isMVCC e)) es' = map (\<lambda>e. (dbl_database e, dbl_isMVCC e)) es"
  by (induction es arbitrary: n rs es')
    (auto simp: DatabaseLocks_ApplyRevokedLocks_def Let_def split: bind_splits if_splits)

lemma ConstructTransactionBeginResponse_quiet:
  assumes "Client_ConstructTransactionBeginResponse i st = Some (r, st')"
  shows "quiet w st st'"
  using assms begin_response_shape
  by (auto simp: Client_ConstructTransactionBeginResponse_def client_shape_def intro!: quiet_client split: bind_splits if_splits)

end
