(* ===== verification/Server_Events.thy ===== *)
theory Server_Events
  imports Server_Frame
begin

text \<open>
  The invariant of the server and the abstract events every handler is made of. A handler is a
  sequence of events (shown in Server\_Refinement), and every event preserves the invariant (shown here).
\<close>

section \<open>The invariant\<close>

definition open_ptrs :: "DatabaseLocks list \<Rightarrow> db_ptr list" where
  "open_ptrs es = List.map_filter dbl_database es"

definition mvcc_ptrs :: "DatabaseLocks list \<Rightarrow> db_ptr list" where
  "mvcc_ptrs es = List.map_filter dbl_database (filter dbl_isMVCC es)"

definition users :: "clients \<Rightarrow> db_ptr \<Rightarrow> client_id set" where
  "users cs p = {i. \<exists>c. cs i = Some c \<and> p \<in> set (open_ptrs (c_openDatabases c))}"

definition mvcc_users :: "clients \<Rightarrow> db_ptr \<Rightarrow> client_id set" where
  "mvcc_users cs p = {i. \<exists>c. cs i = Some c \<and> c_hasTransaction c \<and> p \<in> set (mvcc_ptrs (c_openDatabases c))}"

text \<open>Waiting requests belong to clients that have the database opened and are inside a transaction.\<close>

definition queue_ok :: "clients \<Rightarrow> db_ptr \<Rightarrow> QueuedMessage list \<Rightarrow> bool" where
  "queue_ok cs p q = (\<forall>x \<in> set q. \<exists>c. cs (br_clientId (qm_message x)) = Some c \<and> c_hasTransaction c
     \<and> Client_GetDatabase c (br_databaseId (qm_message x)) = Some p)"

text \<open>The reference counts are exact, and the MVCC snapshot exists as long as somebody uses it.\<close>

definition mvcc_ok :: "nat \<Rightarrow> DbStore \<Rightarrow> bool" where
  "mvcc_ok n s = (ds_mvccUseCount s = int n \<and> (ds_mvccSnapshot s = None \<longleftrightarrow> n = 0))"

definition database_ok :: "clients \<Rightarrow> db_ptr \<Rightarrow> Database \<Rightarrow> bool" where
  "database_ok cs p db = (table_ok (db_locks db) \<and> db_useCount db = int (card (users cs p))
     \<and> mvcc_ok (card (mvcc_users cs p)) (db_store db) \<and> queue_ok cs p (db_queuedReads db))"

definition client_ok :: "(db_ptr \<Rightarrow> Database option) \<Rightarrow> Client \<Rightarrow> bool" where
  "client_ok dbs c = (length (c_openDatabases c) \<le> 254 \<and> distinct (open_ptrs (c_openDatabases c))
     \<and> (\<forall>p \<in> set (open_ptrs (c_openDatabases c)). dbs p \<noteq> None))"

definition server_inv :: "ServerState \<Rightarrow> bool" where
  "server_inv st = ((\<forall>p db. st_databases st p = Some db \<longrightarrow> database_ok (st_clients st) p db)
     \<and> (\<forall>i c. st_clients st i = Some c \<longrightarrow> client_ok (st_databases st) c)
     \<and> distinct (st_dbList st) \<and> set (st_dbList st) = dom (st_databases st)
     \<and> (\<forall>p. st_databases st p \<noteq> None \<longrightarrow> p < st_nextPtr st))"

lemma finite_clients [simp]: "finite (A :: client_id set)"
  by simp

lemma open_ptrs_simps [simp]:
  "open_ptrs [] = []"
  "open_ptrs (e # es) = (case dbl_database e of None \<Rightarrow> open_ptrs es | Some p \<Rightarrow> p # open_ptrs es)"
  "mvcc_ptrs [] = []"
  "mvcc_ptrs (e # es) = (if dbl_isMVCC e then case dbl_database e of None \<Rightarrow> mvcc_ptrs es | Some p \<Rightarrow> p # mvcc_ptrs es
     else mvcc_ptrs es)"
  by (simp_all add: open_ptrs_def mvcc_ptrs_def List.map_filter_def split: option.splits)

lemma open_ptrs_iff: "p \<in> set (open_ptrs es) \<longleftrightarrow> (\<exists>e \<in> set es. dbl_database e = Some p)"
  by (induction es) (auto split: option.splits)

lemma mvcc_ptrs_iff: "p \<in> set (mvcc_ptrs es) \<longleftrightarrow> (\<exists>e \<in> set es. dbl_database e = Some p \<and> dbl_isMVCC e)"
  by (induction es) (auto split: option.splits)

lemma mvcc_ptrs_open: "p \<in> set (mvcc_ptrs es) \<Longrightarrow> p \<in> set (open_ptrs es)"
  by (auto simp: open_ptrs_iff mvcc_ptrs_iff)

lemma HasDatabaseOpened_iff: "Client_HasDatabaseOpened c p \<longleftrightarrow> p \<in> set (open_ptrs (c_openDatabases c))"
  by (auto simp: Client_HasDatabaseOpened_def open_ptrs_iff list_ex_iff)

lemma GetDatabase_open: "Client_GetDatabase c i = Some p \<Longrightarrow> p \<in> set (open_ptrs (c_openDatabases c))"
  by (auto simp: Client_GetDatabase_def open_ptrs_iff intro: nth_mem split: if_splits)

lemma ptrs_cong:
  assumes "map (\<lambda>e. (dbl_database e, dbl_isMVCC e)) es' = map (\<lambda>e. (dbl_database e, dbl_isMVCC e)) es"
  shows "open_ptrs es' = open_ptrs es" "mvcc_ptrs es' = mvcc_ptrs es"
proof -
  let ?f = "\<lambda>e. (dbl_database e, dbl_isMVCC e)"
  have "open_ptrs es = List.map_filter fst (map ?f es)" "mvcc_ptrs es = List.map_filter fst (filter snd (map ?f es))" for es
    by (simp_all add: open_ptrs_def mvcc_ptrs_def List.map_filter_def filter_map comp_def)
  then show "open_ptrs es' = open_ptrs es" "mvcc_ptrs es' = mvcc_ptrs es" by (simp_all only: assms)
qed

lemma shape_ptrs:
  assumes "client_shape c' = client_shape c"
  shows "open_ptrs (c_openDatabases c') = open_ptrs (c_openDatabases c)"
    "mvcc_ptrs (c_openDatabases c') = mvcc_ptrs (c_openDatabases c)"
  using assms ptrs_cong [of "c_openDatabases c'" "c_openDatabases c"] by (simp_all add: client_shape_def)

lemma server_inv_new: "server_inv (Server_new d)"
  by (simp add: server_inv_def Server_new_def)

section \<open>Quiet steps\<close>

lemma same_clients_users:
  assumes "same_clients cs cs'"
  shows "users cs' = users cs" "mvcc_users cs' = mvcc_users cs"
proof -
  have "(i \<in> users cs' p \<longleftrightarrow> i \<in> users cs p) \<and> (i \<in> mvcc_users cs' p \<longleftrightarrow> i \<in> mvcc_users cs p)" for i p
  proof (cases "cs i")
    case None
    then have "cs' i = None" using assms by (cases "cs' i") (auto elim: same_clientsE')
    with None show ?thesis by (simp add: users_def mvcc_users_def)
  next
    case (Some c)
    from same_clientsE [OF assms this] obtain c' where c': "cs' i = Some c'" "client_shape c' = client_shape c" .
    from shape_ptrs [OF c'(2)] shape_entry(2) [OF c'(2)] Some c'(1) show ?thesis by (simp add: users_def mvcc_users_def)
  qed
  then show "users cs' = users cs" "mvcc_users cs' = mvcc_users cs" by (intro ext set_eqI; blast)+
qed

lemma same_clients_queue:
  assumes "same_clients cs cs'" "queue_ok cs p q"
  shows "queue_ok cs' p q"
  unfolding queue_ok_def
proof
  fix x assume "x \<in> set q"
  with assms(2) obtain c where c: "cs (br_clientId (qm_message x)) = Some c" "c_hasTransaction c"
    "Client_GetDatabase c (br_databaseId (qm_message x)) = Some p" by (auto simp: queue_ok_def)
  from same_clientsE [OF assms(1) c(1)] obtain c' where
    c': "cs' (br_clientId (qm_message x)) = Some c'" "client_shape c' = client_shape c" .
  with c shape_entry(2) [OF c'(2)] shape_GetDatabase [OF c'(2)]
  show "\<exists>c. cs' (br_clientId (qm_message x)) = Some c \<and> c_hasTransaction c
     \<and> Client_GetDatabase c (br_databaseId (qm_message x)) = Some p" by auto
qed

lemma store_read_heap: "store_read s s' \<Longrightarrow> \<exists>h. s' = s\<lparr>ds_heap := h\<rparr>"
  by (erule store_read.cases)
    (auto simp: Database_GetLoadedBlob_def Database_GetLoadedCluster_def Database_GetLoadedSegment_def bind_eq_Some_conv)

lemma store_reads_heap: "store_reads s s' \<Longrightarrow> \<exists>h. s' = s\<lparr>ds_heap := h\<rparr>"
proof (induction rule: rtranclp_induct)
  case base
  show ?case by (rule exI [of _ "ds_heap s"]) simp
next
  case (step t u)
  then show ?case using store_read_heap by fastforce
qed

lemma quiet_database:
  assumes "quiet_db act w db db'" "database_ok cs p db" "same_clients cs cs'"
  shows "database_ok cs' p db'"
proof -
  from assms(1) obtain L h where db': "db' = db\<lparr>db_locks := L, db_store := (db_store db)\<lparr>ds_heap := h\<rparr>\<rparr>" "keeps_grants act w (db_locks db) L"
    unfolding quiet_db_def using store_reads_heap by blast
  then show ?thesis using assms(2) same_clients_queue [OF assms(3)] same_clients_users [OF assms(3)]
    by (auto simp: database_ok_def keeps_grants_def mvcc_ok_def)
qed

lemma quiet_client_ok:
  assumes "client_shape c' = client_shape c" "client_ok dbs c" "\<And>p. dbs p \<noteq> None \<Longrightarrow> dbs' p \<noteq> None"
  shows "client_ok dbs' c'"
  using assms shape_ptrs [OF assms(1)] shape_entry(1) [OF assms(1)] by (auto simp: client_ok_def)

lemma quiet_dom: "quiet w st st' \<Longrightarrow> st_databases st' p = None \<longleftrightarrow> st_databases st p = None"
  by (auto simp: quiet_def dest!: spec [of _ p] elim: option.rel_cases)

lemma quiet_inv:
  assumes q: "quiet w st st'" and inv: "server_inv st"
  shows "server_inv st'"
proof -
  have same: "same_clients (st_clients st) (st_clients st')" using q by (simp add: quiet_def)
  have "database_ok (st_clients st') p db'" if "st_databases st' p = Some db'" for p db'
  proof -
    from that q obtain db where "st_databases st p = Some db" "quiet_db (active (st_clients st)) w db db'"
      by (auto simp: quiet_def dest!: spec [of _ p] elim: option.rel_cases)
    moreover from this(1) inv have "database_ok (st_clients st) p db" by (simp add: server_inv_def)
    ultimately show ?thesis using quiet_database same by blast
  qed
  moreover have "client_ok (st_databases st') c'" if "st_clients st' i = Some c'" for i c'
  proof -
    from same_clientsE' [OF same that] obtain c where "st_clients st i = Some c" "client_shape c' = client_shape c" .
    with inv show ?thesis by (intro quiet_client_ok [of c' c]) (auto simp: server_inv_def quiet_dom [OF q])
  qed
  moreover have "dom (st_databases st') = dom (st_databases st)"
    by (simp add: dom_def quiet_dom [OF q] del: not_None_eq)
  ultimately show ?thesis using inv q by (auto simp: server_inv_def quiet_def quiet_dom [OF q])
qed

section \<open>Transactions\<close>

definition update_databases :: "db_ptr set \<Rightarrow> (db_ptr \<Rightarrow> Database \<Rightarrow> Database) \<Rightarrow> ServerState \<Rightarrow> ServerState" where
  "update_databases A f st =
     st\<lparr>st_databases := (\<lambda>p. if p \<in> A then map_option (f p) (st_databases st p) else st_databases st p)\<rparr>"

lemma update_databases_insert:
  assumes "p \<notin> A" "st_databases st p = Some db"
  shows "update_databases A f (set_db p (f p db) st) = update_databases (insert p A) f st"
proof -
  have "(\<lambda>q. if q \<in> A then map_option (f q) (((st_databases st)(p \<mapsto> f p db)) q) else ((st_databases st)(p \<mapsto> f p db)) q)
    = (\<lambda>q. if q \<in> insert p A then map_option (f q) (st_databases st q) else st_databases st q)"
    using assms by (intro ext) auto
  moreover have "st_databases (set_db p (f p db) st) = (st_databases st)(p \<mapsto> f p db)" by simp
  ultimately have "update_databases A f (set_db p (f p db) st) = (set_db p (f p db) st)\<lparr>st_databases :=
      (\<lambda>q. if q \<in> insert p A then map_option (f q) (st_databases st q) else st_databases st q)\<rparr>"
    unfolding update_databases_def by (simp only:)
  then show ?thesis by (simp add: update_databases_def)
qed

lemma update_databases_empty [simp]: "update_databases {} f st = st"
  by (simp add: update_databases_def)

abbreviation begin_database :: "Database \<Rightarrow> Database" where
  "begin_database db \<equiv> db\<lparr>db_store := Database_BeginMVCC (db_store db)\<rparr>"

lemma begin_mvcc_effect:
  assumes "begin_mvcc es st = Some st'" "distinct (open_ptrs es)"
  shows "st' = update_databases (set (mvcc_ptrs es)) (\<lambda>p. begin_database) st"
  using assms
proof (induction es arbitrary: st)
  case Nil
  then show ?case by simp
next
  case (Cons e es)
  show ?case
  proof (cases "dbl_isMVCC e \<and> dbl_database e \<noteq> None")
    case False
    with Cons show ?thesis by (auto split: option.splits)
  next
    case True
    then obtain p where p: "dbl_database e = Some p" "dbl_isMVCC e" by auto
    with Cons.prems obtain db where db: "st_databases st p = Some db"
      and b: "begin_mvcc es (set_db p (begin_database db) st) = Some st'"
      by (auto simp: update_store_def bind_eq_Some_conv)
    from Cons.prems p have d: "distinct (open_ptrs es)" "p \<notin> set (mvcc_ptrs es)" using mvcc_ptrs_open by auto
    from Cons.IH [OF b d(1)] update_databases_insert [OF d(2) db, of "\<lambda>p. begin_database"] p show ?thesis by simp
  qed
qed

lemma abort_entry_effect:
  assumes "abort_entry i rel e st = Some (e', st')" "dbl_database e = Some p"
  obtains db L where "st_databases st p = Some db" "keeps_grants act (Some i) (db_locks db) L"
    "st' = set_db p (db\<lparr>db_locks := L, db_queuedReads := erase_client_reads i (db_queuedReads db),
        db_store := (if dbl_isMVCC e then Database_EndMVCC (db_store db) else db_store db)\<rparr>) st"
    "dbl_database e' = dbl_database e" "dbl_isMVCC e' = dbl_isMVCC e"
proof -
  from assms obtain db L where db: "st_databases st p = Some db"
    and L: "Database_ReleaseLocks (db_locks db) i (if rel then dbl_locks e else []) = Some L"
    and st': "st' = set_db p (db\<lparr>db_locks := L, db_queuedReads := erase_client_reads i (db_queuedReads db),
        db_store := (if dbl_isMVCC e then Database_EndMVCC (db_store db) else db_store db)\<rparr>) st"
    and e': "e' = (if rel then e\<lparr>dbl_locks := []\<rparr> else e)"
    by (auto simp: abort_entry_def Database_AbortClientTransaction_def bind_eq_Some_conv split: if_splits)
  from that [OF db ReleaseLocks_frame [OF L] st'] e' show thesis by simp
qed

text \<open>Aborting ends the MVCC mode of the databases in \<open>M\<close>; each database of the client gets a new lock table and loses
  the requests of the client.\<close>

definition abort_database :: "client_id \<Rightarrow> db_ptr set \<Rightarrow> (db_ptr \<Rightarrow> lock_table) \<Rightarrow> db_ptr \<Rightarrow> Database \<Rightarrow> Database" where
  "abort_database i M L p db = db\<lparr>db_locks := L p, db_queuedReads := erase_client_reads i (db_queuedReads db),
     db_store := (if p \<in> M then Database_EndMVCC (db_store db) else db_store db)\<rparr>"

lemma abort_entries_effect:
  assumes "abort_entries i rel es st = Some (es', st')" "distinct (open_ptrs es)"
  shows "map (\<lambda>e. (dbl_database e, dbl_isMVCC e)) es' = map (\<lambda>e. (dbl_database e, dbl_isMVCC e)) es
    \<and> (\<exists>L. st' = update_databases (set (open_ptrs es)) (abort_database i (set (mvcc_ptrs es)) L) st
         \<and> (\<forall>p \<in> set (open_ptrs es). \<exists>db. st_databases st p = Some db \<and> keeps_grants act (Some i) (db_locks db) (L p)))"
  using assms
proof (induction es arbitrary: st es')
  case Nil
  then show ?case by simp
next
  case (Cons e es)
  from Cons.prems(1) obtain e1 st1 es1 where e: "abort_entry i rel e st = Some (e1, st1)"
    and es: "abort_entries i rel es st1 = Some (es1, st')" and es': "es' = e1 # es1"
    by (auto simp: bind_eq_Some_conv)
  show ?case
  proof (cases "dbl_database e")
    case None
    with e es es' Cons show ?thesis by (auto simp: abort_entry_def)
  next
    case (Some p)
    from Cons.prems(2) Some have d: "distinct (open_ptrs es)" "p \<notin> set (open_ptrs es)" "p \<notin> set (mvcc_ptrs es)"
      using mvcc_ptrs_open by auto
    from abort_entry_effect [OF e Some, of act] obtain db L0 where db: "st_databases st p = Some db"
      "keeps_grants act (Some i) (db_locks db) L0" "dbl_database e1 = dbl_database e" "dbl_isMVCC e1 = dbl_isMVCC e"
      and st1: "st1 = set_db p (db\<lparr>db_locks := L0, db_queuedReads := erase_client_reads i (db_queuedReads db),
        db_store := (if dbl_isMVCC e then Database_EndMVCC (db_store db) else db_store db)\<rparr>) st" by blast
    from Cons.IH [OF es d(1)] obtain L where
      m: "map (\<lambda>e. (dbl_database e, dbl_isMVCC e)) es1 = map (\<lambda>e. (dbl_database e, dbl_isMVCC e)) es"
      and st': "st' = update_databases (set (open_ptrs es)) (abort_database i (set (mvcc_ptrs es)) L) st1"
      and L: "\<forall>q \<in> set (open_ptrs es). \<exists>db. st_databases st1 q = Some db \<and> keeps_grants act (Some i) (db_locks db) (L q)"
      by blast
    let ?L = "L(p := L0)" and ?M = "set (mvcc_ptrs (e # es))"
    have st1': "st1 = set_db p (abort_database i ?M ?L p db) st"
      using st1 Some d(3) by (simp add: abort_database_def)
    have same: "abort_database i (set (mvcc_ptrs es)) L q = abort_database i ?M ?L q" if "q \<in> set (open_ptrs es)" for q
      using that d Some by (auto simp: abort_database_def fun_eq_iff)
    then have "st' = update_databases (set (open_ptrs es)) (abort_database i ?M ?L) st1"
      unfolding st' update_databases_def by (simp cong: if_cong)
    also have "\<dots> = update_databases (set (open_ptrs (e # es))) (abort_database i ?M ?L) st"
      unfolding st1' using update_databases_insert [OF d(2) db(1)] Some by simp
    finally have "st' = update_databases (set (open_ptrs (e # es))) (abort_database i ?M ?L) st" .
    moreover have "\<forall>q \<in> set (open_ptrs (e # es)). \<exists>db. st_databases st q = Some db \<and> keeps_grants act (Some i) (db_locks db) (?L q)"
      using L db d(2) Some by (auto simp: st1)
    ultimately show ?thesis using m es' db by auto
  qed
qed

section \<open>Replacing one client\<close>

lemma users_upd:
  "users (cs(i \<mapsto> c)) p = (if p \<in> set (open_ptrs (c_openDatabases c)) then insert i (users cs p) else users cs p - {i})"
  by (auto simp: users_def)

lemma mvcc_users_upd:
  "mvcc_users (cs(i \<mapsto> c)) p = (if c_hasTransaction c \<and> p \<in> set (mvcc_ptrs (c_openDatabases c)) then insert i (mvcc_users cs p)
     else mvcc_users cs p - {i})"
  by (auto simp: mvcc_users_def)

lemma users_iff:
  "cs i = Some c \<Longrightarrow> i \<in> users cs p \<longleftrightarrow> p \<in> set (open_ptrs (c_openDatabases c))"
  "cs i = Some c \<Longrightarrow> i \<in> mvcc_users cs p \<longleftrightarrow> c_hasTransaction c \<and> p \<in> set (mvcc_ptrs (c_openDatabases c))"
  by (simp_all add: users_def mvcc_users_def)

lemma queue_ok_upd:
  assumes "queue_ok cs p q" "cs i = Some c" "c_hasTransaction c \<Longrightarrow> c_hasTransaction c'"
    and "\<And>d. Client_GetDatabase c d = Some p \<Longrightarrow> c_hasTransaction c \<Longrightarrow> Client_GetDatabase c' d = Some p"
  shows "queue_ok (cs(i \<mapsto> c')) p q"
  using assms unfolding queue_ok_def by fastforce

lemma queue_ok_other:
  assumes "queue_ok cs p q" "\<forall>x \<in> set q. br_clientId (qm_message x) \<noteq> i"
  shows "queue_ok (cs(i \<mapsto> c')) p q"
  using assms unfolding queue_ok_def by fastforce

lemma queue_ok_not_open:
  assumes "queue_ok cs p q" "cs i = Some c" "p \<notin> set (open_ptrs (c_openDatabases c)) \<or> \<not> c_hasTransaction c"
  shows "\<forall>x \<in> set q. br_clientId (qm_message x) \<noteq> i"
  using assms GetDatabase_open unfolding queue_ok_def by fastforce

lemma queue_ok_erase: "queue_ok cs p q \<Longrightarrow> queue_ok (cs(i \<mapsto> c')) p (erase_client_reads i q)"
  by (rule queue_ok_other) (auto simp: erase_client_reads_filter queue_ok_def)

lemma queue_ok_subset: "queue_ok cs p q \<Longrightarrow> set q' \<subseteq> set q \<Longrightarrow> queue_ok cs p q'"
  by (auto simp: queue_ok_def)

text \<open>The parts of the invariant, one client and the databases being replaced.\<close>

lemma server_inv_update:
  assumes inv: "server_inv st" and c: "client_ok dbs c'"
    and st': "st_clients st' = (st_clients st)(i \<mapsto> c')" "st_databases st' = dbs" "st_dbList st' = st_dbList st" "st_nextPtr st' = st_nextPtr st"
    and dom: "\<And>p. dbs p = None \<longleftrightarrow> st_databases st p = None"
    and db: "\<And>p db db'. st_databases st p = Some db \<Longrightarrow> dbs p = Some db' \<Longrightarrow> database_ok (st_clients st) p db
      \<Longrightarrow> database_ok ((st_clients st)(i \<mapsto> c')) p db'"
  shows "server_inv st'"
proof -
  have "database_ok (st_clients st') p db'" if "st_databases st' p = Some db'" for p db'
  proof -
    from that dom [of p] st'(2) obtain d where d: "st_databases st p = Some d" by (cases "st_databases st p") simp_all
    with inv have "database_ok (st_clients st) p d" by (simp add: server_inv_def)
    with db [OF d] that st' show ?thesis by simp
  qed
  moreover have "client_ok (st_databases st') d" if "st_clients st' j = Some d" for j d
    using that st' c inv dom by (auto simp: server_inv_def client_ok_def split: if_splits)
  moreover have "dom dbs = dom (st_databases st)" by (simp add: dom_def dom del: not_None_eq)
  ultimately show ?thesis using inv st' by (auto simp: server_inv_def dom simp del: not_None_eq)
qed

lemma update_databases_None: "st_databases (update_databases A f st) p = None \<longleftrightarrow> st_databases st p = None"
  by (simp add: update_databases_def)

lemma update_databases_frame [simp]:
  "st_clients (update_databases A f st) = st_clients st" "st_dbList (update_databases A f st) = st_dbList st"
  "st_nextPtr (update_databases A f st) = st_nextPtr st"
  by (simp_all add: update_databases_def)

section \<open>Transactions preserve the invariant\<close>

lemma BeginMVCC_ok: "mvcc_ok n s \<Longrightarrow> mvcc_ok (Suc n) (Database_BeginMVCC s)"
  by (auto simp: mvcc_ok_def Database_BeginMVCC_def Let_def)

lemma EndMVCC_ok: "mvcc_ok (Suc n) s \<Longrightarrow> mvcc_ok n (Database_EndMVCC s)"
  by (auto simp: mvcc_ok_def Database_EndMVCC_def Let_def)

lemma begin_transaction_inv:
  assumes inv: "server_inv st" and c: "st_clients st i = Some c" and no: "\<not> c_hasTransaction c"
    and b: "Client_BeginTransaction i prio st = Some st'"
  shows "server_inv st'"
proof -
  let ?c = "c\<lparr>c_hasTransaction := True, c_transactionPriority := prio\<rparr>"
  let ?M = "set (mvcc_ptrs (c_openDatabases c))"
  have ok: "client_ok (st_databases st) c" using inv c by (simp add: server_inv_def)
  then have d: "distinct (open_ptrs (c_openDatabases c))" by (simp add: client_ok_def)
  from b c have "begin_mvcc (c_openDatabases c) (set_client i ?c st) = Some st'" by (simp add: Client_BeginTransaction_def)
  from begin_mvcc_effect [OF this d] have st': "st' = update_databases ?M (\<lambda>p. begin_database) (set_client i ?c st)" .
  show ?thesis
  proof (rule server_inv_update [OF inv, of "st_databases st'" ?c st' i])
    show "client_ok (st_databases st') ?c"
      using ok by (simp add: client_ok_def st' update_databases_None del: not_None_eq)
    fix p db db'
    assume db: "st_databases st p = Some db" "st_databases st' p = Some db'" and dok: "database_ok (st_clients st) p db"
    have u: "users ((st_clients st)(i \<mapsto> ?c)) p = users (st_clients st) p"
      using users_iff(1) [of "st_clients st" i c p] c by (auto simp: users_upd)
    have q: "queue_ok ((st_clients st)(i \<mapsto> ?c)) p (db_queuedReads db)"
      using dok no c by (intro queue_ok_upd [where c = c]) (auto simp: database_ok_def)
    have n: "i \<notin> mvcc_users (st_clients st) p" using users_iff(2) [of "st_clients st" i c p] c no by simp
    show "database_ok ((st_clients st)(i \<mapsto> ?c)) p db'"
      using db dok u q n BeginMVCC_ok
      by (auto simp: st' update_databases_def database_ok_def mvcc_users_upd split: if_splits)
  qed (simp_all add: st' update_databases_None)
qed

lemma abort_transaction_inv:
  assumes inv: "server_inv st" and a: "Client_AbortTransaction i rel st = Some (b, st')"
  shows "server_inv st'"
proof -
  from a obtain c where c: "st_clients st i = Some c" by (auto simp: Client_AbortTransaction_def bind_eq_Some_conv)
  show ?thesis
  proof (cases "c_hasTransaction c")
    case False
    with a c inv show ?thesis by (simp add: Client_AbortTransaction_def)
  next
    case t: True
    let ?P = "set (open_ptrs (c_openDatabases c))" and ?M = "set (mvcc_ptrs (c_openDatabases c))"
    from a c t obtain es st1 where es: "abort_entries i rel (c_openDatabases c) st = Some (es, st1)"
      and st': "st' = set_client i (c\<lparr>c_openDatabases := es, c_hasTransaction := False\<rparr>) st1"
      by (auto simp: Client_AbortTransaction_def bind_eq_Some_conv)
    let ?c = "c\<lparr>c_openDatabases := es, c_hasTransaction := False\<rparr>"
    have ok: "client_ok (st_databases st) c" using inv c by (simp add: server_inv_def)
    then have "distinct (open_ptrs (c_openDatabases c))" by (simp add: client_ok_def)
    from abort_entries_effect [OF es this, of "\<lambda>_. False"] obtain L where
      m: "map (\<lambda>e. (dbl_database e, dbl_isMVCC e)) es = map (\<lambda>e. (dbl_database e, dbl_isMVCC e)) (c_openDatabases c)"
      and st1: "st1 = update_databases ?P (abort_database i ?M L) st"
      and L: "\<forall>p \<in> ?P. \<exists>db. st_databases st p = Some db \<and> keeps_grants (\<lambda>_. False) (Some i) (db_locks db) (L p)" by blast
    note ptrs = ptrs_cong [OF m]
    have len: "length es = length (c_openDatabases c)" by (rule map_eq_imp_length_eq [OF m])
    show ?thesis
    proof (rule server_inv_update [OF inv, of "st_databases st'" ?c st' i])
      show "client_ok (st_databases st') ?c"
        using ok by (simp add: client_ok_def st' st1 update_databases_None ptrs len del: not_None_eq)
      fix p db db'
      assume db: "st_databases st p = Some db" "st_databases st' p = Some db'" and dok: "database_ok (st_clients st) p db"
      have u: "users ((st_clients st)(i \<mapsto> ?c)) p = users (st_clients st) p"
        using users_iff(1) [of "st_clients st" i c p] c by (auto simp: users_upd ptrs)
      have mu: "mvcc_users ((st_clients st)(i \<mapsto> ?c)) p = mvcc_users (st_clients st) p - {i}"
        by (simp add: mvcc_users_upd)
      show "database_ok ((st_clients st)(i \<mapsto> ?c)) p db'"
      proof (cases "p \<in> ?P")
        case True
        then have db': "db' = abort_database i ?M L p db" using db by (simp add: st' st1 update_databases_def)
        have locks: "table_ok (L p)" using L True db(1) dok by (auto simp: keeps_grants_def database_ok_def)
        have "mvcc_ok (card (mvcc_users (st_clients st) p - {i})) (db_store db')"
        proof (cases "p \<in> ?M")
          case True
          then have "i \<in> mvcc_users (st_clients st) p" using users_iff(2) [of "st_clients st" i c p] c t by simp
          then have "card (mvcc_users (st_clients st) p) = Suc (card (mvcc_users (st_clients st) p - {i}))"
            by (intro card.remove) simp_all
          with dok EndMVCC_ok True show ?thesis by (simp add: database_ok_def db' abort_database_def)
        next
          case False
          then have "i \<notin> mvcc_users (st_clients st) p" using users_iff(2) [of "st_clients st" i c p] c by simp
          with dok False show ?thesis by (simp add: database_ok_def db' abort_database_def)
        qed
        with dok locks show ?thesis
          by (simp add: database_ok_def u mu db' abort_database_def queue_ok_erase)
      next
        case False
        then have "db' = db" using db by (simp add: st' st1 update_databases_def)
        moreover have "i \<notin> mvcc_users (st_clients st) p" using users_iff(2) [of "st_clients st" i c p] c False mvcc_ptrs_open by blast
        moreover have "queue_ok ((st_clients st)(i \<mapsto> ?c)) p (db_queuedReads db)"
          using dok False c queue_ok_not_open [of "st_clients st" p "db_queuedReads db" i c]
          by (intro queue_ok_other) (auto simp: database_ok_def)
        ultimately show ?thesis using dok by (simp add: database_ok_def u mu)
      qed
    qed (simp_all add: st' st1 update_databases_None)
  qed
qed

section \<open>Opening and closing preserve the invariant\<close>

lemma open_ptrs_append [simp]: "open_ptrs (es @ fs) = open_ptrs es @ open_ptrs fs"
  by (simp add: open_ptrs_def List.map_filter_def)

lemma mvcc_ptrs_append [simp]: "mvcc_ptrs (es @ fs) = mvcc_ptrs es @ mvcc_ptrs fs"
  by (simp add: mvcc_ptrs_def List.map_filter_def)

lemma split_entries:
  assumes "n < length es"
  shows "\<exists>as bs. es = as @ es ! n # bs \<and> (\<forall>e. es[n := e] = as @ e # bs)"
  using id_take_nth_drop [OF assms] upd_conv_take_nth_drop [OF assms] by blast

lemma ptrs_replaced:
  assumes "n < length es" "distinct (open_ptrs es)" "dbl_database (es ! n) = Some p" "dbl_database e = None"
  shows "distinct (open_ptrs (es[n := e])) \<and> set (open_ptrs (es[n := e])) = set (open_ptrs es) - {p}"
proof -
  obtain as bs where s: "es = as @ es ! n # bs" "es[n := e] = as @ e # bs" using split_entries [OF assms(1)] by blast
  have "open_ptrs es = open_ptrs as @ p # open_ptrs bs" by (subst s(1)) (simp add: assms)
  with assms show ?thesis by (auto simp: s(2))
qed

lemma ptrs_inserted:
  assumes "n < length es" "distinct (open_ptrs es)" "dbl_database (es ! n) = None" "dbl_database e = Some p" "p \<notin> set (open_ptrs es)"
  shows "distinct (open_ptrs (es[n := e])) \<and> set (open_ptrs (es[n := e])) = insert p (set (open_ptrs es))
    \<and> set (mvcc_ptrs (es[n := e])) = (if dbl_isMVCC e then insert p (set (mvcc_ptrs es)) else set (mvcc_ptrs es))"
proof -
  obtain as bs where s: "es = as @ es ! n # bs" "es[n := e] = as @ e # bs" using split_entries [OF assms(1)] by blast
  have o: "open_ptrs es = open_ptrs as @ open_ptrs bs" "mvcc_ptrs es = mvcc_ptrs as @ mvcc_ptrs bs"
    by (subst s(1), simp add: assms)+
  show ?thesis using assms(2,4,5) unfolding s(2) o by auto
qed

lemma client_ok_cong: "(\<And>p. dbs' p = None \<longleftrightarrow> dbs p = None) \<Longrightarrow> client_ok dbs' c = client_ok dbs c"
  by (simp add: client_ok_def)

lemma server_inv_replace:
  assumes "server_inv st" "st_databases st p = Some db" "database_ok (st_clients st) p db'"
  shows "server_inv (set_db p db' st)"
proof -
  have "client_ok ((st_databases st)(p \<mapsto> db')) c = client_ok (st_databases st) c" for c
    using assms(2) by (intro client_ok_cong) auto
  moreover have "dom ((st_databases st)(p \<mapsto> db')) = dom (st_databases st)" using assms(2) by auto
  ultimately show ?thesis using assms by (auto simp: server_inv_def)
qed

lemma server_inv_cong:
  assumes "st_clients st' = st_clients st" "st_databases st' = st_databases st" "st_dbList st' = st_dbList st"
    "st_nextPtr st' = st_nextPtr st"
  shows "server_inv st' = server_inv st"
  using assms by (simp add: server_inv_def)

lemma close_inv:
  assumes inv: "server_inv st" and db: "st_databases st p = Some db" "db_useCount db \<le> 0"
  shows "server_inv (Database_Close p st)"
proof -
  have "database_ok (st_clients st) p db" using inv db by (simp add: server_inv_def)
  with db have u: "users (st_clients st) p = {}" by (simp add: database_ok_def)
  have "client_ok ((st_databases st)(p := None)) c" if "st_clients st i = Some c" for i c
  proof -
    have "client_ok (st_databases st) c" using inv that by (simp add: server_inv_def)
    moreover have "p \<notin> set (open_ptrs (c_openDatabases c))" using u that by (auto simp: users_def)
    ultimately show ?thesis by (auto simp: client_ok_def)
  qed
  then show ?thesis using inv by (auto simp: server_inv_def Database_Close_def)
qed

lemma release_inv:
  assumes db: "st_databases st p = Some db" and r: "Database_Release p st = Some st'"
    and inv: "server_inv (set_db p (db\<lparr>db_useCount := db_useCount db - 1\<rparr>) st)"
  shows "server_inv st'"
proof -
  let ?db = "db\<lparr>db_useCount := db_useCount db - 1\<rparr>"
  have inv': "server_inv (set_db p (?db\<lparr>db_delayedCloseAt := x\<rparr>) st)" for x
  proof -
    have "database_ok (st_clients st) p ?db" using inv by (simp add: server_inv_def)
    then have "database_ok (st_clients st) p (?db\<lparr>db_delayedCloseAt := x\<rparr>)" by (simp add: database_ok_def)
    with server_inv_replace [OF inv, of p ?db] show ?thesis by simp
  qed
  show ?thesis
  proof (cases "db_useCount db - 1 = 0")
    case False
    with r db inv show ?thesis by (simp add: Database_Release_def Let_def)
  next
    case True
    show ?thesis
    proof (cases "st_closeDelay st > 0")
      case delay: True
      with True r db have st': "st' = (set_db p (?db\<lparr>db_delayedCloseAt := Some (st_now st + st_closeDelay st)\<rparr>) st)
          \<lparr>st_tasks := Scheduler_RunAt (st_now st + st_closeDelay st) (CloseTask p (st_now st + st_closeDelay st)) (st_tasks st)\<rparr>"
        by (simp add: Database_Release_def Let_def)
      show ?thesis using inv' [of "Some (st_now st + st_closeDelay st)"] unfolding st' by (subst server_inv_cong) auto
    next
      case False
      with True r db have "st' = Database_Close p (set_db p ?db st)" by (simp add: Database_Release_def Let_def)
      with close_inv [OF inv, of p ?db] True show ?thesis by simp
    qed
  qed
qed

lemma entry_of_GetDatabase:
  "Client_GetDatabase c i = Some p \<longleftrightarrow> unat i < length (c_openDatabases c) \<and> dbl_database (c_openDatabases c ! unat i) = Some p"
  by (auto simp: Client_GetDatabase_def)

lemma close_database_inv:
  assumes inv: "server_inv st" and cl: "Client_CloseDatabase i dbId st = Some (b, st')"
  shows "server_inv st'"
proof -
  from cl obtain c where c: "st_clients st i = Some c" and no: "\<not> c_hasTransaction c"
    by (auto simp: Client_CloseDatabase_def bind_eq_Some_conv split: if_splits)
  show ?thesis
  proof (cases "Client_GetDatabase c dbId")
    case None
    with cl c inv show ?thesis by (auto simp: Client_CloseDatabase_def split: if_splits)
  next
    case (Some p)
    let ?n = "unat dbId"
    from cl c Some no obtain e db L where e: "drop_revoked (c_openDatabases c ! ?n) = Some e"
      and db: "st_databases st p = Some db" and L: "Database_ReleaseLocks (db_locks db) i (dbl_locks e) = Some L"
      and r: "Database_Release p ((set_db p (db\<lparr>db_locks := L, db_queuedReads := erase_client_reads i (db_queuedReads db)\<rparr>) st)
          \<lparr>st_clients := (st_clients st)(i \<mapsto> set_entry ?n (e\<lparr>dbl_locks := [], dbl_database := None\<rparr>) c)\<rparr>) = Some st'"
      by (auto simp: Client_CloseDatabase_def Database_AbortClientTransaction_def bind_eq_Some_conv)
    let ?db = "db\<lparr>db_locks := L, db_queuedReads := erase_client_reads i (db_queuedReads db)\<rparr>"
    let ?c = "set_entry ?n (e\<lparr>dbl_locks := [], dbl_database := None\<rparr>) c"
    let ?st = "(set_db p ?db st)\<lparr>st_clients := (st_clients st)(i \<mapsto> ?c)\<rparr>"
    let ?st2 = "set_db p (?db\<lparr>db_useCount := db_useCount ?db - 1\<rparr>) ?st"
    have ok: "client_ok (st_databases st) c" using inv c by (simp add: server_inv_def)
    have n: "?n < length (c_openDatabases c)" "dbl_database (c_openDatabases c ! ?n) = Some p"
      using Some by (auto simp: entry_of_GetDatabase)
    have ptrs: "distinct (open_ptrs (c_openDatabases ?c)) \<and> set (open_ptrs (c_openDatabases ?c)) = set (open_ptrs (c_openDatabases c)) - {p}"
      unfolding set_entry_def using ptrs_replaced [OF n(1) _ n(2)] ok by (simp add: client_ok_def)
    have p: "p \<in> set (open_ptrs (c_openDatabases c))" by (rule GetDatabase_open [OF Some])
    have no': "\<not> c_hasTransaction ?c" using no by (simp add: set_entry_def)
    have inv2: "server_inv ?st2"
    proof (rule server_inv_update [OF inv, of "st_databases ?st2" ?c ?st2 i])
      show "client_ok (st_databases ?st2) ?c" using ok ptrs by (auto simp: client_ok_def set_entry_def)
      show "\<And>q. st_databases ?st2 q = None \<longleftrightarrow> st_databases st q = None" using db by auto
      fix q d d'
      assume d: "st_databases st q = Some d" "st_databases ?st2 q = Some d'" and dok: "database_ok (st_clients st) q d"
      have mu: "mvcc_users ((st_clients st)(i \<mapsto> ?c)) q = mvcc_users (st_clients st) q"
        using no' no users_iff(2) [of "st_clients st" i c q] c by (simp add: mvcc_users_upd)
      have qu: "queue_ok ((st_clients st)(i \<mapsto> ?c)) q (db_queuedReads d)"
        using dok queue_ok_not_open [of "st_clients st" q _ i c] c no by (intro queue_ok_other) (auto simp: database_ok_def)
      show "database_ok ((st_clients st)(i \<mapsto> ?c)) q d'"
      proof (cases "q = p")
        case True
        have "i \<in> users (st_clients st) p" using users_iff(1) [of "st_clients st" i c p] c p by simp
        then have card: "card (users (st_clients st) p) = Suc (card (users (st_clients st) p - {i}))" by (intro card.remove) simp_all
        have "table_ok L" using ReleaseLocks_frame [OF L, of "\<lambda>_. False"] dok d db True by (auto simp: keeps_grants_def database_ok_def)
        with True d db dok card mu qu ptrs show ?thesis
          by (auto simp: database_ok_def users_upd erase_client_reads_filter intro: queue_ok_subset)
      next
        case False
        then have "d' = d" using d by simp
        moreover have "users ((st_clients st)(i \<mapsto> ?c)) q = users (st_clients st) q"
          using ptrs False users_iff(1) [of "st_clients st" i c q] c by (auto simp: users_upd)
        ultimately show ?thesis using dok mu qu by (simp add: database_ok_def)
      qed
    qed simp_all
    show ?thesis by (rule release_inv [OF _ r inv2]) simp
  qed
qed

lemma new_store_mvcc:
  "Database_InitializeInMemory = Some s \<Longrightarrow> mvcc_ok 0 s"
  "Database_LoadFromFile createFile m = (r, Some s) \<Longrightarrow> mvcc_ok 0 s"
  by (auto simp: Database_InitializeInMemory_def Database_LoadFromFile_def Database_ReadInitialFileDatabaseData_def Let_def
      mvcc_ok_def bind_eq_Some_conv split: prod.splits OpenExclusiveResult.splits if_splits option.splits)

lemma add_database_inv:
  assumes inv: "server_inv st" and s: "mvcc_ok 0 s"
  shows "server_inv ((set_db (st_nextPtr st) (new_database n s) st)
    \<lparr>st_dbList := st_dbList st @ [st_nextPtr st], st_nextPtr := Suc (st_nextPtr st)\<rparr>)"
proof -
  let ?p = "st_nextPtr st"
  have new: "st_databases st ?p = None" using inv by (auto simp: server_inv_def)
  have none: "?p \<notin> set (open_ptrs (c_openDatabases c))" if "st_clients st i = Some c" for i c
  proof -
    have "client_ok (st_databases st) c" using inv that by (simp add: server_inv_def)
    with new show ?thesis by (auto simp: client_ok_def)
  qed
  then have "users (st_clients st) ?p = {}" "mvcc_users (st_clients st) ?p = {}"
    using mvcc_ptrs_open by (fastforce simp: users_def mvcc_users_def)+
  then have "database_ok (st_clients st) ?p (new_database n s)" using s by (simp add: database_ok_def new_database_def queue_ok_def)
  moreover have "client_ok ((st_databases st)(?p \<mapsto> d)) c" if "client_ok (st_databases st) c" for c d
    using that by (auto simp: client_ok_def)
  ultimately show ?thesis using inv new by (auto simp: server_inv_def less_Suc_eq)
qed

lemma skip_ptr_inv: "server_inv st \<Longrightarrow> server_inv (st\<lparr>st_nextPtr := Suc (st_nextPtr st)\<rparr>)"
  by (auto simp: server_inv_def less_Suc_eq)

text \<open>An opened database has one reference too many until the client refers to it.\<close>

definition extra_reference :: "db_ptr \<Rightarrow> ServerState \<Rightarrow> bool" where
  "extra_reference p st = (\<exists>db. st_databases st p = Some db
     \<and> server_inv (set_db p (db\<lparr>db_useCount := db_useCount db - 1\<rparr>) st))"

definition opened_inv :: "db_ptr option \<Rightarrow> ServerState \<Rightarrow> bool" where
  "opened_inv r st = (case r of None \<Rightarrow> server_inv st | Some p \<Rightarrow> extra_reference p st)"

lemma open_unknown_inv:
  assumes inv: "server_inv st" and o: "open_unknown env n m st = Some (res, r, st')"
  shows "opened_inv r st' \<and> st_clients st' = st_clients st"
proof (cases "is_memory_name n \<and> m = OpenFailIfNotExist")
  case True
  with o inv show ?thesis by (auto simp: open_unknown_def opened_inv_def)
next
  case False
  with o obtain res' store where s: "(if is_memory_name n then map_option (\<lambda>s. (OPEN_SUCCESS, Some s)) Database_InitializeInMemory
      else Some (Database_LoadFromFile (env_createFile env n) m)) = Some (res', store)"
    and st': "(case store of None \<Rightarrow> (res', None, st\<lparr>st_nextPtr := Suc (st_nextPtr st)\<rparr>)
      | Some s \<Rightarrow> (OPEN_SUCCESS, Some (st_nextPtr st), (set_db (st_nextPtr st) ((new_database n s)\<lparr>db_useCount := 1\<rparr>) st)
          \<lparr>st_dbList := st_dbList st @ [st_nextPtr st], st_nextPtr := Suc (st_nextPtr st)\<rparr>)) = (res, r, st')"
    by (auto simp: open_unknown_def Let_def bind_eq_Some_conv simp del: option.case_cong split: prod.splits)
  show ?thesis
  proof (cases store)
    case None
    with st' skip_ptr_inv [OF inv] show ?thesis by (auto simp: opened_inv_def)
  next
    case (Some x)
    with s have "mvcc_ok 0 x" using new_store_mvcc by (auto split: if_splits)
    note new = add_database_inv [OF inv this, of n]
    let ?st = "(set_db (st_nextPtr st) ((new_database n x)\<lparr>db_useCount := 1\<rparr>) st)
          \<lparr>st_dbList := st_dbList st @ [st_nextPtr st], st_nextPtr := Suc (st_nextPtr st)\<rparr>"
    have "server_inv (set_db (st_nextPtr st) ((new_database n x)\<lparr>db_useCount := 0\<rparr>) ?st)"
      by (rule server_inv_cong [THEN iffD2, OF _ _ _ _ new]) (simp_all add: new_database_def)
    then have "extra_reference (st_nextPtr st) ?st" by (simp add: extra_reference_def)
    with st' Some show ?thesis by (auto simp: opened_inv_def)
  qed
qed

lemma Database_Open_inv:
  assumes inv: "server_inv st" and o: "Database_Open env n m st = Some (res, r, st')"
  shows "opened_inv r st' \<and> st_clients st' = st_clients st"
proof (cases "if is_memory_name n then Some (Database_Get n st, n)
    else map_option (\<lambda>resolved. (find_database (\<lambda>db. env_isSame env resolved (db_name db)) st, resolved)) (env_resolvePath env n)")
  case None
  with o inv show ?thesis by (simp add: Database_Open_def opened_inv_def)
next
  case (Some f)
  show ?thesis
  proof (cases "fst f")
    case None
    with Some o have "open_unknown env (snd f) m st = Some (res, r, st')"
      by (cases f) (simp add: Database_Open_def)
    with open_unknown_inv [OF inv] show ?thesis by blast
  next
    case found: (Some p)
    with Some o obtain db where db: "st_databases st p = Some db"
      and r: "(if m = CreateAlways
          then if db_useCount db > 0 then Some (CANNOT_OVERWRITE_OPEN_DATABASE, None, st)
               else open_unknown env n m (Database_Close p st)
          else if m = CreateFailIfExist then Some (DATABASE_ALREADY_EXISTS, None, st)
          else Some (OPEN_SUCCESS, Some p, set_db p (db\<lparr>db_useCount := db_useCount db + 1\<rparr>) st)) = Some (res, r, st')"
      by (cases f) (auto simp: Database_Open_def bind_eq_Some_conv)
    have ok: "database_ok (st_clients st) p db" using inv db by (simp add: server_inv_def)
    consider "m = CreateAlways" "db_useCount db \<le> 0" | "r = None" "st' = st"
      | "r = Some p" "st' = set_db p (db\<lparr>db_useCount := db_useCount db + 1\<rparr>) st"
      using r by (auto split: if_splits)
    then show ?thesis
    proof cases
      case 1
      with r have "open_unknown env n m (Database_Close p st) = Some (res, r, st')" by simp
      with open_unknown_inv [OF close_inv [OF inv db 1(2)]] show ?thesis by (simp add: Database_Close_def)
    next
      case 2
      with inv show ?thesis by (simp add: opened_inv_def)
    next
      case 3
      have "server_inv (set_db p db st)" by (rule server_inv_replace [OF inv db ok])
      with 3 show ?thesis by (simp add: opened_inv_def extra_reference_def)
    qed
  qed
qed

lemma distinct_ptrs_GetDatabase:
  assumes "distinct (open_ptrs (c_openDatabases c))" "Client_GetDatabase c a = Some p" "Client_GetDatabase c b = Some p"
  shows "a = b"
proof -
  have "m = n" if "distinct (open_ptrs es)" "m < length es" "n < length es" "dbl_database (es ! m) = Some p" "dbl_database (es ! n) = Some p"
    for es m n
    using that
  proof (induction es arbitrary: m n)
    case (Cons e es)
    then show ?case by (cases m; cases n) (auto simp: open_ptrs_iff split: option.splits)
  qed simp
  with assms have "unat a = unat b" by (auto simp: entry_of_GetDatabase)
  then show ?thesis by (simp add: word_unat_eq_iff)
qed

lemma client_open_inv:
  assumes ex: "extra_reference p st" and c: "st_clients st i = Some c" and new: "\<not> Client_HasDatabaseOpened c p"
    and o: "Client_OpenDatabase i p mvcc st = Some (Some k, st')"
  shows "server_inv st'"
proof -
  from ex obtain db where db: "st_databases st p = Some db"
    and inv: "server_inv (set_db p (db\<lparr>db_useCount := db_useCount db - 1\<rparr>) st)" by (auto simp: extra_reference_def)
  let ?dbm = "db\<lparr>db_useCount := db_useCount db - 1\<rparr>"
  let ?st0 = "set_db p ?dbm st"
  let ?dbs = "c_openDatabases c"
  let ?pos = "length (takeWhile (\<lambda>e. dbl_database e \<noteq> None) ?dbs)"
  let ?es = "if ?pos = length ?dbs then ?dbs @ [empty_entry] else ?dbs"
  let ?e = "(?es ! ?pos)\<lparr>dbl_database := Some p, dbl_isMVCC := mvcc\<rparr>"
  let ?c = "c\<lparr>c_openDatabases := ?es[?pos := ?e]\<rparr>"
  let ?mv = "c_hasTransaction c \<and> mvcc"
  let ?db = "if ?mv then begin_database db else db"
  from o c have lim: "\<not> (?pos = length ?dbs \<and> length ?dbs = 254)"
    and st': "st' = set_db p ?db (set_client i ?c st)"
    by (auto simp: Client_OpenDatabase_def Let_def update_store_def db bind_eq_Some_conv fun_upd_idem split: if_splits)
  have ok: "client_ok (st_databases ?st0) c" using inv c by (simp add: server_inv_def)
  have le: "?pos \<le> length ?dbs" by (rule length_takeWhile_le)
  have none: "?pos < length ?dbs \<Longrightarrow> dbl_database (?dbs ! ?pos) = None"
    using nth_length_takeWhile [of "\<lambda>e. dbl_database e \<noteq> None" ?dbs] by simp
  have es: "?pos < length ?es" "dbl_database (?es ! ?pos) = None" "open_ptrs ?es = open_ptrs ?dbs" "mvcc_ptrs ?es = mvcc_ptrs ?dbs"
    using le none by (auto simp: empty_entry_def nth_append)
  have p: "p \<notin> set (open_ptrs ?dbs)" using new by (simp add: HasDatabaseOpened_iff)
  have ptrs: "distinct (open_ptrs (c_openDatabases ?c))" "set (open_ptrs (c_openDatabases ?c)) = insert p (set (open_ptrs ?dbs))"
    "set (mvcc_ptrs (c_openDatabases ?c)) = (if mvcc then insert p (set (mvcc_ptrs ?dbs)) else set (mvcc_ptrs ?dbs))"
    using ptrs_inserted [OF es(1) _ es(2), of ?e p] ok p unfolding es(3,4) by (simp_all add: client_ok_def)
  have len: "length (?es[?pos := ?e]) \<le> 254" using lim le ok by (auto simp: client_ok_def)
  have get: "Client_GetDatabase ?c d = Some q" if "Client_GetDatabase c d = Some q" for d q
    using that none le by (auto simp: Client_GetDatabase_def nth_append nth_list_update split: if_splits)
  show ?thesis
  proof (rule server_inv_update [OF inv, of "st_databases st'" ?c st' i])
    show "client_ok (st_databases st') ?c"
      using ok ptrs(1,2) len db by (auto simp: client_ok_def st')
    show "\<And>q. st_databases st' q = None \<longleftrightarrow> st_databases ?st0 q = None" by (simp add: st')
    fix q d d'
    assume d: "st_databases ?st0 q = Some d" "st_databases st' q = Some d'" and dok: "database_ok (st_clients ?st0) q d"
    have qu: "queue_ok ((st_clients st)(i \<mapsto> ?c)) q (db_queuedReads d)"
      using dok c get by (intro queue_ok_upd [where c = c]) (auto simp: database_ok_def)
    have ni: "i \<notin> users (st_clients st) p" "i \<notin> mvcc_users (st_clients st) p"
      using users_iff [of "st_clients st" i c p] c p mvcc_ptrs_open by auto
    show "database_ok ((st_clients ?st0)(i \<mapsto> ?c)) q d'"
    proof (cases "q = p")
      case True
      then have d': "d = ?dbm" "d' = ?db" using d by (auto simp: st')
      have u: "card (users ((st_clients st)(i \<mapsto> ?c)) p) = Suc (card (users (st_clients st) p))"
        using ptrs(2) ni by (simp add: users_upd)
      have mu: "card (mvcc_users ((st_clients st)(i \<mapsto> ?c)) p) = (if ?mv then Suc (card (mvcc_users (st_clients st) p)) else card (mvcc_users (st_clients st) p))"
        using ptrs(3) ni p mvcc_ptrs_open by (auto simp: mvcc_users_upd)
      show ?thesis using dok qu u mu True BeginMVCC_ok by (auto simp: d' database_ok_def)
    next
      case False
      then have "d' = d" using d by (simp add: st')
      moreover have "users ((st_clients st)(i \<mapsto> ?c)) q = users (st_clients st) q"
        using ptrs(2) False users_iff(1) [of "st_clients st" i c q] c by (auto simp: users_upd)
      moreover have "mvcc_users ((st_clients st)(i \<mapsto> ?c)) q = mvcc_users (st_clients st) q"
        using ptrs(3) False users_iff(2) [of "st_clients st" i c q] c by (auto simp: mvcc_users_upd)
      ultimately show ?thesis using dok qu by (simp add: database_ok_def)
    qed
  qed (simp_all add: st')
qed

section \<open>Events\<close>

text \<open>The messages of one database that passed the validation of a commit by client \<open>i\<close>.\<close>

definition valid_commit :: "client_id \<Rightarrow> Database \<Rightarrow> TransactionCommit list \<Rightarrow> BlobCreationRanges \<Rightarrow> bool" where
  "valid_commit i db ms created = (validate_messages (db_info_of (db_store db)) (Database_ClientOwnsWriteLock (db_locks db) i)
     False ms BlobCreationRanges_new = Some (TC_SUCCESS, created))"

text \<open>\<open>w\<close> is the client whose message is handled, if any: only it gives up locks inside a transaction.\<close>

inductive server_event :: "Env \<Rightarrow> client_id option \<Rightarrow> ServerState \<Rightarrow> ServerState \<Rightarrow> bool"
  for env w where
  ev_quiet: "quiet w st st' \<Longrightarrow> server_event env w st st'"
| ev_connect: "w = Some i \<Longrightarrow> st_clients st i = None \<Longrightarrow> server_event env w st (set_client i Client_new st)"
| ev_queue: "st_databases st p = Some db \<Longrightarrow> queue_ok (st_clients st) p q
    \<Longrightarrow> server_event env w st (set_db p (db\<lparr>db_queuedReads := q\<rparr>) st)"
| ev_begin: "w = Some i \<Longrightarrow> st_clients st i = Some c \<Longrightarrow> \<not> c_hasTransaction c \<Longrightarrow> Client_BeginTransaction i prio st = Some st'
    \<Longrightarrow> server_event env w st st'"
| ev_abort: "Client_AbortTransaction i rel st = Some (b, st') \<Longrightarrow> server_event env w st st'"
| ev_mode: "w = Some i \<Longrightarrow> st_clients st i = Some c \<Longrightarrow> \<not> c_hasTransaction c
    \<Longrightarrow> Client_SetDatabaseMVCCMode dbId mvcc c = Some c' \<Longrightarrow> server_event env w st (set_client i c' st)"
| ev_open: "w = Some i \<Longrightarrow> Database_Open env n m st = Some (r, Some p, st1) \<Longrightarrow> st_clients st1 i = Some c
    \<Longrightarrow> \<not> Client_HasDatabaseOpened c p \<Longrightarrow> Client_OpenDatabase i p mvcc st1 = Some (Some k, st') \<Longrightarrow> server_event env w st st'"
| ev_open_release: "Database_Open env n m st = Some (r, Some p, st1) \<Longrightarrow> Database_Release p st1 = Some st'
    \<Longrightarrow> server_event env w st st'"
| ev_not_opened: "Database_Open env n m st = Some (r, None, st') \<Longrightarrow> server_event env w st st'"
| ev_close: "w = Some i \<Longrightarrow> Client_CloseDatabase i dbId st = Some (b, st') \<Longrightarrow> server_event env w st st'"
| ev_delayed_close: "st_databases st p = Some db \<Longrightarrow> db_useCount db = 0 \<Longrightarrow> server_event env w st (Database_Close p st)"

abbreviation server_events :: "Env \<Rightarrow> client_id option \<Rightarrow> ServerState \<Rightarrow> ServerState \<Rightarrow> bool" where
  "server_events env w \<equiv> (server_event env w)\<^sup>*\<^sup>*"

text \<open>A commit of client \<open>i\<close>: each of the databases it touches gets its new content, computed and applied once,
  and the client gets the locks of what it created there.\<close>

definition committed ::
  "(BlockReference list \<Rightarrow> BlockReference list) \<Rightarrow> client_id \<Rightarrow> db_ptr \<Rightarrow> Database \<Rightarrow> Database \<Rightarrow> bool" where
  "committed srt i p db db' = (\<exists>ms created res k store L cs cs'. valid_commit i db ms created
     \<and> Database_CalculateCommitResult srt ms (db_store db) = Some res
     \<and> CommitResult_ApplyToDatabase res (db_store db) = Some (k, store)
     \<and> Database_AcquireImplicitWriteLocks (RevokeStickyLock p) i
         (implicit_locks (Database_ClientOwnsWriteLock (db_locks db) i) (bc_ranges created)) (db_locks db, cs) = (L, cs')
     \<and> db' = db\<lparr>db_store := store, db_locks := L\<rparr>)"

definition commit_event ::
  "(BlockReference list \<Rightarrow> BlockReference list) \<Rightarrow> client_id \<Rightarrow> ServerState \<Rightarrow> ServerState \<Rightarrow> bool" where
  "commit_event srt i st st' = (active (st_clients st) i \<and> (\<exists>dbs cs. st' = st\<lparr>st_databases := dbs, st_clients := cs\<rparr>
     \<and> same_clients (st_clients st) cs
     \<and> (\<forall>p. dbs p = st_databases st p
          \<or> i \<in> users (st_clients st) p \<and> (\<exists>db db'. st_databases st p = Some db \<and> dbs p = Some db' \<and> committed srt i p db db'))))"

lemma committedE:
  assumes "committed srt i p db db'"
  obtains ms created res k store L cs cs' where "valid_commit i db ms created"
     "Database_CalculateCommitResult srt ms (db_store db) = Some res"
     "CommitResult_ApplyToDatabase res (db_store db) = Some (k, store)"
     "Database_AcquireImplicitWriteLocks (RevokeStickyLock p) i
         (implicit_locks (Database_ClientOwnsWriteLock (db_locks db) i) (bc_ranges created)) (db_locks db, cs) = (L, cs')"
     "db' = db\<lparr>db_store := store, db_locks := L\<rparr>"
  using assms unfolding committed_def by blast

lemma connect_inv:
  assumes inv: "server_inv st" and none: "st_clients st i = None"
  shows "server_inv (set_client i Client_new st)"
proof (rule server_inv_update [OF inv, of "st_databases st" Client_new _ i])
  fix p db db' assume d: "st_databases st p = Some db" "st_databases st p = Some db'" "database_ok (st_clients st) p db"
  have "users ((st_clients st)(i \<mapsto> Client_new)) p = users (st_clients st) p"
    "mvcc_users ((st_clients st)(i \<mapsto> Client_new)) p = mvcc_users (st_clients st) p"
    using none by (auto simp: users_upd mvcc_users_upd Client_new_def users_def mvcc_users_def)
  moreover have "queue_ok ((st_clients st)(i \<mapsto> Client_new)) p (db_queuedReads db)"
    using d(3) none by (intro queue_ok_other) (auto simp: database_ok_def queue_ok_def)
  ultimately show "database_ok ((st_clients st)(i \<mapsto> Client_new)) p db'" using d by (auto simp: database_ok_def)
qed (simp_all add: client_ok_def Client_new_def)

lemma mode_inv:
  assumes inv: "server_inv st" and c: "st_clients st i = Some c" and no: "\<not> c_hasTransaction c"
    and m: "Client_SetDatabaseMVCCMode dbId mvcc c = Some c'"
  shows "server_inv (set_client i c' st)"
proof -
  let ?n = "unat dbId" and ?es = "c_openDatabases c"
  from m have c': "c' = set_entry ?n ((?es ! ?n)\<lparr>dbl_isMVCC := mvcc\<rparr>) c"
    by (auto simp: Client_SetDatabaseMVCCMode_def split: if_splits)
  have o: "open_ptrs (c_openDatabases c') = open_ptrs ?es"
  proof -
    have "map dbl_database (c_openDatabases c') = map dbl_database ?es" by (simp add: c' set_entry_def map_update_same)
    moreover have "open_ptrs es = List.map_filter id (map dbl_database es)" for es
      by (simp add: open_ptrs_def List.map_filter_def filter_map comp_def)
    ultimately show ?thesis by (simp only:)
  qed
  have no': "\<not> c_hasTransaction c'" and len: "length (c_openDatabases c') = length ?es" using no by (simp_all add: c' set_entry_def)
  show ?thesis
  proof (rule server_inv_update [OF inv, of "st_databases st" c' _ i])
    show "client_ok (st_databases st) c'" using inv c o len by (simp add: server_inv_def client_ok_def)
    fix p db db' assume d: "st_databases st p = Some db" "st_databases st p = Some db'" "database_ok (st_clients st) p db"
    have "users ((st_clients st)(i \<mapsto> c')) p = users (st_clients st) p"
      "mvcc_users ((st_clients st)(i \<mapsto> c')) p = mvcc_users (st_clients st) p"
      using users_iff [of "st_clients st" i c p] c o no no' by (auto simp: users_upd mvcc_users_upd)
    moreover have "queue_ok ((st_clients st)(i \<mapsto> c')) p (db_queuedReads db)"
      using d(3) c no queue_ok_not_open [of "st_clients st" p _ i c] by (intro queue_ok_other) (auto simp: database_ok_def)
    ultimately show "database_ok ((st_clients st)(i \<mapsto> c')) p db'" using d by (auto simp: database_ok_def)
  qed simp_all
qed

lemma commit_mvcc:
  assumes "Database_CalculateCommitResult srt ms s = Some r" "CommitResult_ApplyToDatabase r s = Some (k, s')"
  shows "mvcc_ok n s' = mvcc_ok n s"
  using assms(2) by (auto simp: CommitResult_ApplyToDatabase_def Let_def mvcc_ok_def bind_eq_Some_conv split: option.splits)

lemma acquire_table_ok:
  "fold (Database_AcquireClientLock revoke c w) ls (L, s) = (L', s') \<Longrightarrow> table_ok L \<Longrightarrow> table_ok L'"
proof (induction ls arbitrary: L s)
  case (Cons l ls)
  obtain M t where m: "Database_AcquireClientLock revoke c w l (L, s) = (M, t)" by fastforce
  with Cons AcquireClientLock_table [OF Cons.prems(2) m] show ?case by simp
qed simp

lemma server_event_inv: "server_event env w st st' \<Longrightarrow> server_inv st \<Longrightarrow> server_inv st'"
proof (induction rule: server_event.induct)
  case (ev_quiet st st')
  then show ?case by (rule quiet_inv)
next
  case (ev_connect i st)
  then show ?case using connect_inv by blast
next
  case (ev_queue st p db q)
  have "database_ok (st_clients st) p db" using ev_queue by (simp add: server_inv_def)
  then have "database_ok (st_clients st) p (db\<lparr>db_queuedReads := q\<rparr>)" using ev_queue(2) by (simp add: database_ok_def)
  with ev_queue show ?case by (intro server_inv_replace)
next
  case (ev_begin i st c prio st')
  then show ?case using begin_transaction_inv by blast
next
  case (ev_abort i rel st b st')
  then show ?case using abort_transaction_inv by blast
next
  case (ev_mode i st c dbId mvcc c')
  then show ?case using mode_inv by blast
next
  case (ev_open i n m st r p st1 c mvcc k st')
  then have "extra_reference p st1" using Database_Open_inv by (fastforce simp: opened_inv_def)
  with ev_open show ?case using client_open_inv by blast
next
  case (ev_open_release n m st r p st1 st')
  then have "extra_reference p st1" using Database_Open_inv by (fastforce simp: opened_inv_def)
  with ev_open_release show ?case using release_inv by (auto simp: extra_reference_def)
next
  case (ev_not_opened n m st r st')
  then show ?case using Database_Open_inv by (fastforce simp: opened_inv_def)
next
  case (ev_close i dbId st b st')
  then show ?case using close_database_inv by blast
next
  case (ev_delayed_close st p db)
  then show ?case using close_inv by simp
qed

lemma server_events_inv: "server_events env w st st' \<Longrightarrow> server_inv st \<Longrightarrow> server_inv st'"
  by (induction rule: rtranclp_induct) (auto intro: server_event_inv)

lemma implicit_table_ok:
  "Database_AcquireImplicitWriteLocks revoke i ls (L, s) = (L', s') \<Longrightarrow> table_ok L \<Longrightarrow> table_ok L'"
  unfolding Database_AcquireImplicitWriteLocks_def by (rule acquire_table_ok)

lemma commit_event_inv:
  assumes "commit_event srt i st st'" "server_inv st"
  shows "server_inv st'"
proof -
  from assms(1) obtain dbs cs where st': "st' = st\<lparr>st_databases := dbs, st_clients := cs\<rparr>" and same: "same_clients (st_clients st) cs" and
    "\<forall>p. dbs p = st_databases st p \<or> i \<in> users (st_clients st) p
      \<and> (\<exists>db db'. st_databases st p = Some db \<and> dbs p = Some db' \<and> committed srt i p db db')"
    by (auto simp: commit_event_def)
  then have d: "dbs p = st_databases st p \<or> (\<exists>db db'. st_databases st p = Some db \<and> dbs p = Some db' \<and> committed srt i p db db')" for p
    by blast
  have none: "dbs p = None \<longleftrightarrow> st_databases st p = None" for p using d [of p] by auto
  have "database_ok (st_clients st) p db'" if "dbs p = Some db'" for p db'
  proof -
    from that none [of p] obtain db where db: "st_databases st p = Some db" by (cases "st_databases st p") simp_all
    with assms(2) have ok: "database_ok (st_clients st) p db" by (simp add: server_inv_def)
    show ?thesis
    proof (cases "db' = db")
      case False
      with d [of p] db that have "committed srt i p db db'" by auto
      then show ?thesis
      proof (rule committedE)
        fix ms created res k store L cs cs'
        assume c: "Database_CalculateCommitResult srt ms (db_store db) = Some res"
            "CommitResult_ApplyToDatabase res (db_store db) = Some (k, store)"
          and l: "Database_AcquireImplicitWriteLocks (RevokeStickyLock p) i
            (implicit_locks (Database_ClientOwnsWriteLock (db_locks db) i) (bc_ranges created)) (db_locks db, cs) = (L, cs')"
          and db': "db' = db\<lparr>db_store := store, db_locks := L\<rparr>"
        from ok commit_mvcc [OF c] implicit_table_ok [OF l] db' show "database_ok (st_clients st) p db'"
          by (simp add: database_ok_def)
      qed
    qed (use ok in simp)
  qed
  moreover have "client_ok dbs c = client_ok (st_databases st) c" for c using none by (rule client_ok_cong)
  moreover have "dom dbs = dom (st_databases st)" by (simp add: dom_def none del: not_None_eq)
  ultimately have "server_inv (st\<lparr>st_databases := dbs\<rparr>)" using assms(2) by (simp add: server_inv_def none del: not_None_eq)
  moreover have "quiet None (st\<lparr>st_databases := dbs\<rparr>) st'" using same by (simp add: st' quiet_def option.rel_refl)
  ultimately show ?thesis using quiet_inv by blast
qed

end
