(* ===== verification/Server_Refinement.thy ===== *)
theory Server_Refinement
  imports Server_Events
begin

text \<open>
  Every handler of the server, every task and the passing of time are sequences of the events of
  Server\_Events, so that the invariant holds in every reachable state.
\<close>

lemma events_quiet: "quiet w st st' \<Longrightarrow> server_events env w st st'"
  by (rule r_into_rtranclp) (rule ev_quiet)

lemma events_send [simp]: "server_events env w st (SendMessageToClient i r st)"
  by (rule events_quiet) simp

lemma events_trans: "server_events env w a b \<Longrightarrow> server_events env w b c \<Longrightarrow> server_events env w a c"
  by (rule rtranclp_trans)

section \<open>Waiting requests\<close>

lemma process_queued_reads_events:
  assumes "process_queued_reads p kept qs st = Some st'" "queue_ok (st_clients st) p (kept @ qs)"
  shows "server_events env w st st'"
  using assms
proof (induction qs arbitrary: kept st)
  case (Cons q qs)
  from Cons.prems(1) obtain processed st1 where t: "Server_TryHandleBlobsRead (qm_message q) st = Some (processed, st1)"
    and r: "if processed then \<exists>st2. set_queue p (kept @ qs) st1 = Some st2 \<and> process_queued_reads p kept qs st2 = Some st'
       else process_queued_reads p (kept @ [q]) qs st1 = Some st'"
    by (auto simp: bind_eq_Some_conv split: if_splits)
  have q: "quiet w st st1" using TryHandleBlobsRead_quiet [OF t] by blast
  then have "same_clients (st_clients st) (st_clients st1)" by (simp add: quiet_def)
  from same_clients_queue [OF this Cons.prems(2)] have ok: "queue_ok (st_clients st1) p (kept @ q # qs)" .
  show ?case
  proof (cases processed)
    case True
    with r obtain st2 where s: "set_queue p (kept @ qs) st1 = Some st2" and p: "process_queued_reads p kept qs st2 = Some st'"
      by auto
    from s obtain db where db: "st_databases st1 p = Some db" and st2: "st2 = set_db p (db\<lparr>db_queuedReads := kept @ qs\<rparr>) st1"
      by (auto simp: set_queue_def bind_eq_Some_conv)
    have ok': "queue_ok (st_clients st1) p (kept @ qs)" by (rule queue_ok_subset [OF ok]) auto
    have "server_event env w st1 st2" unfolding st2 by (rule ev_queue [OF db ok'])
    moreover have "server_events env w st2 st'" by (rule Cons.IH [OF p]) (use ok' st2 in simp)
    ultimately show ?thesis using events_quiet [OF q] by (meson converse_rtranclp_into_rtranclp rtranclp_trans)
  next
    case False
    with r ok Cons.IH [of "kept @ [q]" st1] events_quiet [OF q] events_trans show ?thesis by fastforce
  qed
qed simp

lemma TryProcessQueuedReads_events:
  assumes "Server_TryProcessQueuedReads p st = Some st'" "server_inv st"
  shows "server_events env w st st'"
proof -
  from assms(1) obtain db where "st_databases st p = Some db" "process_queued_reads p [] (db_queuedReads db) st = Some st'"
    by (auto simp: Server_TryProcessQueuedReads_def bind_eq_Some_conv)
  with assms(2) show ?thesis by (intro process_queued_reads_events) (auto simp: server_inv_def database_ok_def)
qed

lemma process_databases_events:
  assumes "process_databases i ns st = Some st'" "server_inv st"
  shows "server_events env w st st'"
  using assms
proof (induction ns arbitrary: st)
  case (Cons n ns)
  from Cons.prems(1) obtain st1 where e: "st1 = st \<or> (\<exists>p. Server_TryProcessQueuedReads p st = Some st1)"
    and r: "process_databases i ns st1 = Some st'"
    by (auto simp: bind_eq_Some_conv split: option.splits)
  have "server_events env w st st1" using e TryProcessQueuedReads_events Cons.prems(2) by blast
  with server_events_inv [OF this Cons.prems(2)] Cons.IH [OF r] events_trans show ?case by blast
qed simp

lemma AbortTransaction_events:
  assumes "Server_AbortTransaction i rel st = Some st'" "server_inv st"
  shows "server_events env w st st'"
proof -
  from assms(1) obtain b st1 where a: "Client_AbortTransaction i rel st = Some (b, st1)"
    and r: "st' = st1 \<or> (\<exists>ns. process_databases i ns st1 = Some st')"
    by (auto simp: Server_AbortTransaction_def Server_ClientTransactionEnded_def bind_eq_Some_conv split: if_splits)
  have e: "server_event env w st st1" by (rule ev_abort [OF a])
  with r process_databases_events server_event_inv [OF e assms(2)] events_trans show ?thesis by blast
qed

section \<open>Connections and databases\<close>

lemma close_databases_events:
  "close_databases i ns st = Some st' \<Longrightarrow> server_events env (Some i) st st'"
proof (induction ns arbitrary: st)
  case (Cons n ns)
  from Cons.prems obtain st1 where e: "st1 = st \<or> (\<exists>b d. Client_CloseDatabase i d st = Some (b, st1))"
    and r: "close_databases i ns st1 = Some st'"
    by (auto simp: bind_eq_Some_conv split: if_splits)
  have "server_events env (Some i) st st1" using e ev_close [of "Some i" i _ st _ st1 env] by auto
  with Cons.IH [OF r] events_trans show ?case by blast
qed simp

lemma HandleConnectionClosed_events:
  assumes "Server_HandleConnectionClosed i st = Some st'" "server_inv st"
  shows "server_events env (Some i) st st'"
proof -
  from assms(1) obtain st1 ns where "Server_AbortTransaction i True st = Some st1" "close_databases i ns st1 = Some st'"
    by (auto simp: Server_HandleConnectionClosed_def Client_CloseAllDatabases_def bind_eq_Some_conv)
  with AbortTransaction_events [OF _ assms(2)] close_databases_events events_trans show ?thesis by blast
qed

lemma Release_send:
  "Database_Release p (SendMessageToClient i r st) = map_option (SendMessageToClient i r) (Database_Release p st)"
  by (cases "st_databases st p") (auto simp: Database_Release_def SendMessageToClient_def Database_Close_def Let_def)

lemma HandleDatabaseOpen_events:
  assumes "Server_HandleDatabaseOpen env m st = Some st'"
  shows "server_events env (Some (do_clientId m)) st st'"
proof -
  let ?i = "do_clientId m"
  obtain res r st1 where o: "Database_Open env (do_databaseName m) (do_openMode m) st = Some (res, r, st1)"
    using assms by (auto simp: Server_HandleDatabaseOpen_def Let_def bind_eq_Some_conv)
  note def = Server_HandleDatabaseOpen_def Let_def o
  show ?thesis
  proof (cases r)
    case None
    with assms have "st' = SendMessageToClient ?i (DatabaseOpenResponse res 0) st1" by (simp add: def)
    with ev_not_opened [of env _ _ st res st1] o None show ?thesis
      by (blast intro: events_trans r_into_rtranclp events_send)
  next
    case (Some p)
    from assms Some obtain c where c: "st_clients st1 ?i = Some c" by (auto simp: def bind_eq_Some_conv)
    have release: "server_events env (Some ?i) st st'" if "Database_Release p (SendMessageToClient ?i x st1) = Some st'" for x
    proof -
      from that obtain st2 where "Database_Release p st1 = Some st2" "st' = SendMessageToClient ?i x st2" by (auto simp: Release_send)
      with ev_open_release [of env _ _ st res p st1 st2] o Some show ?thesis
        by (blast intro: events_trans r_into_rtranclp events_send)
    qed
    show ?thesis
    proof (cases "Client_HasDatabaseOpened c p")
      case True
      with assms Some c have "Database_Release p (SendMessageToClient ?i (DatabaseOpenResponse DATABASE_ALREADY_OPEN 0) st1) = Some st'"
        by (simp add: def)
      then show ?thesis by (rule release)
    next
      case False
      with assms Some c obtain k st2 where co: "Client_OpenDatabase ?i p (do_mvcc m) st1 = Some (k, st2)"
        by (auto simp: def bind_eq_Some_conv)
      show ?thesis
      proof (cases k)
        case None
        with co c have "st2 = st1" by (auto simp: Client_OpenDatabase_def Let_def bind_eq_Some_conv split: if_splits)
        with assms Some c False co None
        have "Database_Release p (SendMessageToClient ?i (DatabaseOpenResponse TOO_MANY_DATABASES_OPEN 0) st1) = Some st'"
          by (simp add: def)
        then show ?thesis by (rule release)
      next
        case k: (Some n)
        with assms Some c False co have "st' = SendMessageToClient ?i (DatabaseOpenResponse OPEN_SUCCESS n) st2" by (simp add: def)
        with ev_open [of "Some ?i" ?i env _ _ st res p st1 c] o Some c False co k show ?thesis
          by (blast intro: events_trans r_into_rtranclp events_send)
      qed
    qed
  qed
qed

lemma HandleDatabaseClose_events:
  assumes "Server_HandleDatabaseClose i dbId st = Some st'"
  shows "server_events env (Some i) st st'"
proof -
  from assms obtain r st1 where "st1 = st \<or> (\<exists>b. Client_CloseDatabase i dbId st = Some (b, st1))"
    and st': "st' = SendMessageToClient i r st1"
    by (auto simp: Server_HandleDatabaseClose_def bind_eq_Some_conv split: if_splits)
  then have "server_events env (Some i) st st1" using ev_close [of "Some i" i dbId st _ st1 env] by auto
  then show ?thesis unfolding st' using events_trans events_send by blast
qed

section \<open>Reading\<close>

lemma QueueRead_events:
  assumes "Server_QueueRead p m st = Some (ds, st')" "server_inv st" "st_clients st (br_clientId m) = Some c"
    "c_hasTransaction c" "Client_GetDatabase c (br_databaseId m) = Some p"
  shows "server_events env w st st'"
proof -
  from assms(1) obtain db queue where db: "st_databases st p = Some db"
    and q: "Database_QueueReadCheckDeadlock (CanRevokeStickyLock (st_clients st)) (db_view_of (db_store db)) (db_locks db)
      (st_now st) (db_queuedReads db) m = Some (ds, queue)"
    and st': "st' = (let st = set_db p (db\<lparr>db_queuedReads := queue\<rparr>) st in case qm_lockTimeoutTime (last queue) of None \<Rightarrow> st
       | Some t \<Rightarrow> st\<lparr>st_tasks := Scheduler_RunAt t (LockTimeoutTask p) (st_tasks st)\<rparr>)"
    by (auto simp: Server_QueueRead_def bind_eq_Some_conv Let_def)
  from q obtain x where queue: "queue = db_queuedReads db @ [x]" "qm_message x = m"
    by (auto simp: Database_QueueReadCheckDeadlock_def split: option.splits if_splits)
  have "queue_ok (st_clients st) p queue"
    using assms db by (auto simp: queue queue_ok_def server_inv_def database_ok_def)
  then have "server_event env w st (set_db p (db\<lparr>db_queuedReads := queue\<rparr>) st)" by (rule ev_queue [OF db])
  moreover have "quiet w (set_db p (db\<lparr>db_queuedReads := queue\<rparr>) st) st'"
    unfolding st' by (rule quiet_same) (auto simp: Let_def split: option.splits)
  ultimately show ?thesis by (meson events_quiet events_trans r_into_rtranclp)
qed

lemma abort_victims_events:
  assumes "abort_victims ds st = Some st'" "server_inv st"
  shows "server_events env w st st'"
  using assms
proof (induction ds arbitrary: st)
  case (Cons d ds)
  let ?st = "SendMessageToClient (dl_client1 d) (BlobsReadError BR_DEADLOCK) st"
  from Cons.prems(1) obtain st1 where a: "Server_AbortTransaction (dl_client1 d) False ?st = Some st1"
    and r: "abort_victims ds st1 = Some st'" by (auto simp: bind_eq_Some_conv)
  have "server_events env w st ?st" by simp
  moreover from server_events_inv [OF this Cons.prems(2)] a have "server_events env w ?st st1"
    using AbortTransaction_events by blast
  ultimately have e: "server_events env w st st1" by (rule events_trans)
  with Cons.IH [OF r server_events_inv [OF e Cons.prems(2)]] events_trans show ?case by blast
qed simp

lemma resolve_deadlocks_events:
  assumes "Server_resolve_deadlocks i ds st = Some st'" "server_inv st"
  shows "server_events env w st st'"
proof -
  let ?st = "SendMessageToClient i (BlobsReadError BR_DEADLOCK) st"
  from assms(1) consider "st' = st" | "Server_AbortTransaction i False ?st = Some st'" | "abort_victims ds st = Some st'"
    by (auto simp: Server_resolve_deadlocks_def bind_eq_Some_conv split: if_splits)
  then show ?thesis
  proof cases
    case 2
    have e: "server_events env w st ?st" by simp
    from AbortTransaction_events [OF 2 server_events_inv [OF e assms(2)]] events_trans [OF e] show ?thesis by blast
  qed (use abort_victims_events assms(2) in auto)
qed

lemma HandleBlobsRead_events:
  assumes "Server_HandleBlobsRead m st = Some st'" "server_inv st"
  shows "server_events env w st st'"
proof -
  from assms(1) obtain handled st1 where t: "Server_TryHandleBlobsRead m st = Some (handled, st1)"
    by (auto simp: Server_HandleBlobsRead_def bind_eq_Some_conv)
  have q: "quiet w st st1" using TryHandleBlobsRead_quiet [OF t] by blast
  then have e1: "server_events env w st st1" by (rule events_quiet)
  have inv1: "server_inv st1" by (rule quiet_inv [OF q assms(2)])
  note def = Server_HandleBlobsRead_def t Let_def
  show ?thesis
  proof (cases "handled \<or> br_lockTimeoutMs m = 0")
    case True
    then have "st' = st1 \<or> st' = Server_ReadTimedOut m st1"
      using assms(1) by (auto simp: def bind_eq_Some_conv split: if_splits)
    with e1 events_trans events_send show ?thesis by (auto simp: Server_ReadTimedOut_def)
  next
    case False
    with assms(1) obtain c p ds st2 where c: "st_clients st1 (br_clientId m) = Some c"
      and p: "Client_GetDatabase c (br_databaseId m) = Some p"
      and qr: "Server_QueueRead p m st1 = Some (ds, st2)" and rd: "Server_resolve_deadlocks (br_clientId m) ds st2 = Some st'"
      by (auto simp: def bind_eq_Some_conv)
    from TryHandleBlobsRead_quiet [OF t] False obtain c0 where c0: "st_clients st (br_clientId m) = Some c0" "c_hasTransaction c0" by blast
    from q c0 c have "client_shape c = client_shape c0" by (auto simp: quiet_def same_clients_def dest: spec [of _ "br_clientId m"])
    with c0 have "c_hasTransaction c" using shape_entry(2) by blast
    from QueueRead_events [OF qr inv1 c this p] have e2: "server_events env w st1 st2" .
    from resolve_deadlocks_events [OF rd server_events_inv [OF e2 inv1]] have "server_events env w st2 st'" .
    with e1 e2 show ?thesis using events_trans by blast
  qed
qed

section \<open>Transactions\<close>

lemma begin_databases_events:
  assumes "begin_databases i es st = Some (b, st')" "st_clients st i = Some c" "\<not> c_hasTransaction c"
  shows "server_events env (Some i) st st' \<and> (\<exists>c'. st_clients st' i = Some c' \<and> \<not> c_hasTransaction c')"
  using assms
proof (induction i es st arbitrary: c rule: begin_databases.induct)
  case (1 i st)
  then show ?case by simp
next
  case (2 i dbId txnMode es st)
  show ?case
  proof (cases "Client_GetDatabase c dbId")
    case None
    with 2 show ?thesis by simp
  next
    case (Some p)
    let ?release = "if txnMode \<noteq> Txn_UpdateKeepStickyLocks then Client_ReleaseAllLocksForDatabase i dbId st else Some st"
    from 2(2,3) Some obtain st1 c1 c2 where r: "?release = Some st1" and c1: "st_clients st1 i = Some c1"
      and c2: "Client_SetDatabaseMVCCMode dbId (txnMode = Txn_MVCC) c1 = Some c2"
      and rest: "begin_databases i es (set_client i c2 st1) = Some (b, st')"
      by (auto simp: bind_eq_Some_conv)
    have q: "quiet (Some i) st st1" using r ReleaseAllLocks_quiet by (auto split: if_splits)
    with 2(3) c1 have "client_shape c1 = client_shape c" by (auto simp: quiet_def same_clients_def dest: spec [of _ i])
    with 2(4) have n1: "\<not> c_hasTransaction c1" using shape_entry(2) by blast
    with c2 have n2: "\<not> c_hasTransaction c2" by (auto simp: Client_SetDatabaseMVCCMode_def set_entry_def split: if_splits)
    have e: "server_event env (Some i) st1 (set_client i c2 st1)" by (rule ev_mode [OF refl c1 n1 c2])
    have "server_events env (Some i) (set_client i c2 st1) st' \<and> (\<exists>c'. st_clients st' i = Some c' \<and> \<not> c_hasTransaction c')"
      by (rule "2.IH" [OF 2(3) _ r c1 c2 rest _ n2]) (use Some in simp_all)
    with e events_quiet [OF q] show ?thesis by (meson events_trans r_into_rtranclp)
  qed
qed

lemma HandleTransactionBegin_events:
  assumes "Server_HandleTransactionBegin m st = Some st'"
  shows "server_events env (Some (tb_clientId m)) st st'"
proof -
  let ?i = "tb_clientId m"
  from assms obtain c where c: "st_clients st ?i = Some c"
    by (auto simp: Server_HandleTransactionBegin_def Let_def bind_eq_Some_conv)
  note def = Server_HandleTransactionBegin_def Let_def Client_IsInsideTransaction_def c
  show ?thesis
  proof (cases "c_hasTransaction c")
    case True
    with assms show ?thesis by (auto simp: def)
  next
    case False
    with assms obtain valid st1 where b: "begin_databases ?i (tb_databases m) st = Some (valid, st1)"
      by (auto simp: def bind_eq_Some_conv)
    from begin_databases_events [OF b c False, of env] obtain c1 where e1: "server_events env (Some ?i) st st1"
      and c1: "st_clients st1 ?i = Some c1" "\<not> c_hasTransaction c1" by blast
    show ?thesis
    proof (cases valid)
      case False
      with assms \<open>\<not> c_hasTransaction c\<close> b have "st' = SendMessageToClient ?i (TransactionBeginError TB_ERROR_INVALID_DATABASE) st1"
        by (simp add: def)
      with e1 events_send events_trans show ?thesis by blast
    next
      case True
      with assms \<open>\<not> c_hasTransaction c\<close> b obtain st2 r st3 where
        b2: "Client_BeginTransaction ?i (tb_transactionPriority m) st1 = Some st2"
        and r: "Client_ConstructTransactionBeginResponse ?i st2 = Some (r, st3)" and st': "st' = SendMessageToClient ?i r st3"
        by (auto simp: def bind_eq_Some_conv)
      have "server_event env (Some ?i) st1 st2" by (rule ev_begin [OF refl c1 b2])
      moreover have "server_events env (Some ?i) st2 st3"
        by (rule events_quiet) (rule ConstructTransactionBeginResponse_quiet [OF r])
      ultimately show ?thesis unfolding st' using e1 by (meson events_send events_trans r_into_rtranclp)
    qed
  qed
qed

lemma HandleTransactionAbort_events:
  "Server_HandleTransactionAbort i st = Some st' \<Longrightarrow> server_inv st \<Longrightarrow> server_events env w st st'"
  using AbortTransaction_events by (auto simp: Server_HandleTransactionAbort_def bind_eq_Some_conv)

section \<open>Commits\<close>

text \<open>The databases of a commit in the order of their messages; validation looks at the same groups as the commit.\<close>

lemma touched_commit_groups:
  "touched_databases ms touched = Some ds \<Longrightarrow>
    ds = touched @ map fst (commit_groups (if touched = [] then ms else dropWhile (\<lambda>m. tc_databaseId m = last touched) ms))"
proof (induction ms arbitrary: touched)
  case (Cons m ms)
  show ?case
  proof (cases "tc_databaseId m \<in> set touched")
    case True
    with Cons.prems have "last touched = tc_databaseId m" and t: "touched_databases ms touched = Some ds" by (auto split: if_splits)
    moreover have "touched \<noteq> []" using True by auto
    ultimately show ?thesis using Cons.IH [OF t] by simp
  next
    case False
    with Cons.prems have t: "touched_databases ms (touched @ [tc_databaseId m]) = Some ds" by simp
    have "touched \<noteq> [] \<Longrightarrow> last touched \<noteq> tc_databaseId m" using False by (metis last_in_set)
    with Cons.IH [OF t] show ?thesis by (cases "touched = []") simp_all
  qed
qed simp

lemma validate_entries_nil [simp]: "validate_entries db owns [] created = Some (TC_SUCCESS, created)"
  by (simp add: validate_entries.simps)

lemma validate_messages_mvcc:
  "validate_messages db owns mvcc ms created = Some (TC_SUCCESS, created') \<Longrightarrow>
    validate_messages db owns False ms created = Some (TC_SUCCESS, created')"
  by (induction ms arbitrary: created) (auto simp: bind_eq_Some_conv split: if_splits)

lemma validate_databases_groups:
  "validate_databases dbs (map fst (commit_groups ms)) ms locks = Some (TC_SUCCESS, locks') \<Longrightarrow>
    \<exists>new. locks' = locks @ new \<and> map fst new = map fst (commit_groups ms)
     \<and> (\<forall>(d, g) \<in> set (commit_groups ms). \<exists>db created. dbs d = Some db
       \<and> validate_messages (cd_info db) (cd_owns db) False g BlobCreationRanges_new = Some (TC_SUCCESS, created)
       \<and> (d, implicit_locks (cd_owns db) (bc_ranges created)) \<in> set new)"
proof (induction ms arbitrary: locks rule: commit_groups.induct)
  case (2 m ms)
  let ?d = "tc_databaseId m" and ?rest = "dropWhile (\<lambda>x. tc_databaseId x = tc_databaseId m) ms"
  let ?g = "m # takeWhile (\<lambda>x. tc_databaseId x = ?d) ms"
  from "2.prems" obtain db created where db: "dbs ?d = Some db"
    and v: "validate_messages (cd_info db) (cd_owns db) (cd_mvcc db) ?g BlobCreationRanges_new = Some (TC_SUCCESS, created)"
    and r: "validate_databases dbs (map fst (commit_groups ?rest)) ?rest
      (locks @ [(?d, implicit_locks (cd_owns db) (bc_ranges created))]) = Some (TC_SUCCESS, locks')"
    by (auto simp: bind_eq_Some_conv split: option.splits if_splits)
  from "2.IH" [OF r] obtain new where n: "locks' = locks @ (?d, implicit_locks (cd_owns db) (bc_ranges created)) # new"
    "map fst new = map fst (commit_groups ?rest)"
    "\<forall>(d, g) \<in> set (commit_groups ?rest). \<exists>db created. dbs d = Some db
       \<and> validate_messages (cd_info db) (cd_owns db) False g BlobCreationRanges_new = Some (TC_SUCCESS, created)
       \<and> (d, implicit_locks (cd_owns db) (bc_ranges created)) \<in> set new" by auto
  show ?case
    using n db validate_messages_mvcc [OF v]
    by (intro exI [of _ "(?d, implicit_locks (cd_owns db) (bc_ranges created)) # new"]) fastforce
qed simp

lemma validated_groups:
  assumes "Server_ValidateCommitMessages dbs ms = Some (TC_SUCCESS, locks)"
  shows "distinct (map fst (commit_groups ms)) \<and> map fst locks = map fst (commit_groups ms)
    \<and> (\<forall>(d, g) \<in> set (commit_groups ms). \<exists>db created. dbs d = Some db
       \<and> validate_messages (cd_info db) (cd_owns db) False g BlobCreationRanges_new = Some (TC_SUCCESS, created)
       \<and> (d, implicit_locks (cd_owns db) (bc_ranges created)) \<in> set locks)"
proof -
  from assms obtain ds where ds: "touched_databases ms [] = Some ds" "validate_databases dbs ds ms [] = Some (TC_SUCCESS, locks)"
    by (auto simp: Server_ValidateCommitMessages_def split: option.splits)
  from touched_commit_groups [OF ds(1)] have "ds = map fst (commit_groups ms)" by simp
  with ds touched_databases_group [OF ds(1)] validate_databases_groups [of dbs ms "[]" locks] show ?thesis by auto
qed

text \<open>Loops over the databases of a commit change each of them once.\<close>

definition changes_each :: "Client \<Rightarrow> (database_id \<times> 'a) list \<Rightarrow> ('a \<Rightarrow> db_ptr \<Rightarrow> Database \<Rightarrow> Database \<Rightarrow> bool)
    \<Rightarrow> (db_ptr \<Rightarrow> Database option) \<Rightarrow> (db_ptr \<Rightarrow> Database option) \<Rightarrow> bool" where
  "changes_each c xs R dbs dbs' = ((\<forall>p. (\<forall>x \<in> set xs. Client_GetDatabase c (fst x) \<noteq> Some p) \<longrightarrow> dbs' p = dbs p)
     \<and> (\<forall>x \<in> set xs. \<exists>p db db'. Client_GetDatabase c (fst x) = Some p \<and> dbs p = Some db \<and> dbs' p = Some db' \<and> R (snd x) p db db'))"

lemma changes_each_Nil [simp]: "changes_each c [] R dbs dbs"
  by (simp add: changes_each_def)

lemma changes_each_Cons:
  assumes "distinct (open_ptrs (c_openDatabases c))" "d \<notin> fst ` set xs" "Client_GetDatabase c d = Some p" "dbs p = Some db"
    and R: "R x p db db'" and rest: "changes_each c xs R (dbs(p \<mapsto> db')) dbs'"
  shows "changes_each c ((d, x) # xs) R dbs dbs'"
proof -
  have other: "Client_GetDatabase c (fst y) \<noteq> Some p" if "y \<in> set xs" for y
    using that assms(2,3) distinct_ptrs_GetDatabase [OF assms(1), of "fst y" p d] by auto
  then have "dbs' p = Some db'" using rest by (auto simp: changes_each_def)
  then show ?thesis using other assms(3,4) R rest unfolding changes_each_def by fastforce
qed

definition result_applied :: "CommitResult \<Rightarrow> db_ptr \<Rightarrow> Database \<Rightarrow> Database \<Rightarrow> bool" where
  "result_applied r p db db' = (\<exists>k store. CommitResult_ApplyToDatabase r (db_store db) = Some (k, store)
     \<and> db' = db\<lparr>db_store := store\<rparr>)"

definition locks_acquired :: "client_id \<Rightarrow> BlobLocation list \<Rightarrow> db_ptr \<Rightarrow> Database \<Rightarrow> Database \<Rightarrow> bool" where
  "locks_acquired i l p db db' = (\<exists>L cs cs'.
     Database_AcquireImplicitWriteLocks (RevokeStickyLock p) i l (db_locks db, cs) = (L, cs') \<and> db' = db\<lparr>db_locks := L\<rparr>)"

lemma apply_commits_effect:
  assumes "apply_commits c rs st = Some (ids, st')" "distinct (open_ptrs (c_openDatabases c))" "distinct (map fst rs)"
  shows "\<exists>dbs. st' = st\<lparr>st_databases := dbs\<rparr> \<and> changes_each c rs result_applied (st_databases st) dbs"
  using assms
proof (induction rs arbitrary: st ids)
  case Nil
  then show ?case by (intro exI [of _ "st_databases st"]) simp
next
  case (Cons x rs)
  obtain d r where x: "x = (d, r)" by fastforce
  from Cons.prems(1) x obtain p db k store ids' where p: "Client_GetDatabase c d = Some p" and db: "st_databases st p = Some db"
    and ap: "CommitResult_ApplyToDatabase r (db_store db) = Some (k, store)"
    and rest: "apply_commits c rs (set_db p (db\<lparr>db_store := store\<rparr>) st) = Some (ids', st')"
    by (auto simp: bind_eq_Some_conv)
  let ?db = "db\<lparr>db_store := store\<rparr>"
  have d: "distinct (map fst rs)" "d \<notin> fst ` set rs" using Cons.prems(3) x by simp_all
  from Cons.IH [OF rest Cons.prems(2) d(1)] obtain dbs where
    st': "st' = (set_db p ?db st)\<lparr>st_databases := dbs\<rparr>" and ch: "changes_each c rs result_applied (st_databases (set_db p ?db st)) dbs"
    by blast
  have sd: "st_databases (set_db p ?db st) = (st_databases st)(p \<mapsto> ?db)" by simp
  have "result_applied r p db ?db" using ap by (auto simp: result_applied_def)
  from changes_each_Cons [of c d rs p "st_databases st" db result_applied r ?db dbs, OF Cons.prems(2) d(2) p db this ch [unfolded sd]]
  show ?case using x st' by (intro exI [of _ dbs]) simp
qed

lemma acquire_implicit_effect:
  assumes "acquire_implicit i ls st = Some st'" "distinct (open_ptrs (c_openDatabases c))" "distinct (map fst ls)"
    and "st_clients st i = Some c'" "client_shape c' = client_shape c"
  shows "\<exists>dbs cs. st' = st\<lparr>st_databases := dbs, st_clients := cs\<rparr> \<and> same_clients (st_clients st) cs
    \<and> changes_each c ls (locks_acquired i)
        (st_databases st) dbs"
  using assms
proof (induction ls arbitrary: st c')
  case Nil
  then show ?case by (intro exI [of _ "st_databases st"] exI [of _ "st_clients st"]) simp
next
  case (Cons x ls)
  obtain d l where x: "x = (d, l)" by fastforce
  have gd: "Client_GetDatabase c' d = Client_GetDatabase c d" by (rule shape_GetDatabase [OF Cons.prems(5)])
  from Cons.prems(1) x obtain st1 where a: "Client_AcquireImplicitWriteLocks i d l st = Some st1"
    and rest: "acquire_implicit i ls st1 = Some st'" by (auto simp: bind_eq_Some_conv)
  from a Cons.prems(4) gd obtain p db where p: "Client_GetDatabase c d = Some p" and db: "st_databases st p = Some db"
    by (auto simp: Client_AcquireImplicitWriteLocks_def bind_eq_Some_conv)
  obtain L cs where acq: "Database_AcquireImplicitWriteLocks (RevokeStickyLock p) i l (db_locks db, st_clients st) = (L, cs)" by fastforce
  have same: "same_clients (st_clients st) cs"
    using acq AcquireClientLocks_clients by (auto simp: Database_AcquireImplicitWriteLocks_def)
  from same_clientsE [OF same Cons.prems(4)] obtain c1 where c1: "cs i = Some c1" "client_shape c1 = client_shape c'" .
  let ?e = "c_openDatabases c1 ! unat d"
  let ?c = "set_entry (unat d) (?e\<lparr>dbl_locks := dbl_locks ?e @ l\<rparr>) c1"
  from a Cons.prems(4) gd p db acq c1 have st1: "st1 = st\<lparr>st_databases := (st_databases st)(p \<mapsto> db\<lparr>db_locks := L\<rparr>), st_clients := cs(i \<mapsto> ?c)\<rparr>"
    by (simp add: Client_AcquireImplicitWriteLocks_def Let_def)
  have sh: "client_shape ?c = client_shape c1" by (rule shape_set_entry) simp_all
  have same1: "same_clients (st_clients st) (cs(i \<mapsto> ?c))"
    by (rule same_clients_trans [OF same same_clients_upd [where c = c1]]) (simp_all add: c1 sh)
  have d: "distinct (map fst ls)" "d \<notin> fst ` set ls" using Cons.prems(3) x by simp_all
  have c2: "st_clients st1 i = Some ?c" "client_shape ?c = client_shape c" using sh c1(2) Cons.prems(5) by (simp_all add: st1)
  from Cons.IH [OF rest Cons.prems(2) d(1) c2] obtain dbs cs' where
    st': "st' = st1\<lparr>st_databases := dbs, st_clients := cs'\<rparr>" and s2: "same_clients (st_clients st1) cs'"
    and ch: "changes_each c ls (locks_acquired i) (st_databases st1) dbs" by blast
  have sd: "st_databases st1 = (st_databases st)(p \<mapsto> db\<lparr>db_locks := L\<rparr>)" "st_clients st1 = cs(i \<mapsto> ?c)" by (simp_all add: st1)
  have "locks_acquired i l p db (db\<lparr>db_locks := L\<rparr>)" unfolding locks_acquired_def using acq by blast
  from changes_each_Cons [of c d ls p "st_databases st" db "locks_acquired i" l "db\<lparr>db_locks := L\<rparr>" dbs,
      OF Cons.prems(2) d(2) p db this ch [unfolded sd]]
  have "changes_each c (x # ls) (locks_acquired i) (st_databases st) dbs" by (simp add: x)
  moreover have "same_clients (st_clients st) cs'" using same_clients_trans [OF same1] s2 sd(2) by simp
  ultimately show ?case unfolding st' st1 by (intro exI [of _ dbs] exI [of _ cs']) simp
qed

lemma calculate_commits_results:
  assumes "calculate_commits srt st c gs = Some rs"
  shows "map fst rs = map fst gs \<and> (\<forall>(d, r) \<in> set rs. \<exists>p db ms. (d, ms) \<in> set gs \<and> Client_GetDatabase c d = Some p
    \<and> st_databases st p = Some db \<and> Database_CalculateCommitResult srt ms (db_store db) = Some r)"
  using assms
proof (induction gs arbitrary: rs)
  case (Cons g gs)
  then show ?case by (cases g) (fastforce simp: bind_eq_Some_conv)
qed simp

lemma release_deleted_events: "release_deleted i rs st = Some st' \<Longrightarrow> server_events env (Some i) st st'"
proof (induction rs arbitrary: st)
  case (Cons x rs)
  obtain d r where x: "x = (d, r)" by fastforce
  with Cons.prems obtain st1 where a: "Client_ReleaseDeletedLocks i d (cr_deleted r) st = Some st1" and r: "release_deleted i rs st1 = Some st'"
    by (auto simp: bind_eq_Some_conv)
  have "server_events env (Some i) st st1" by (rule events_quiet) (rule ReleaseDeletedLocks_quiet [OF a])
  with Cons.IH [OF r] show ?case by (rule events_trans [rotated])
qed simp

text \<open>A step of the server: events, with at most one commit.\<close>

definition server_moves ::
  "Env \<Rightarrow> (BlockReference list \<Rightarrow> BlockReference list) \<Rightarrow> client_id option \<Rightarrow> ServerState \<Rightarrow> ServerState \<Rightarrow> bool" where
  "server_moves env srt w st st' = (server_events env w st st'
     \<or> (\<exists>i st1 st2. w = Some i \<and> quiet w st st1 \<and> commit_event srt i st1 st2 \<and> server_events env w st2 st'))"

lemma moves_events: "server_events env w st st' \<Longrightarrow> server_moves env srt w st st'"
  by (simp add: server_moves_def)

lemma commit_event_of_effects:
  assumes v: "Server_ValidateCommitMessages (client_database_of st i c) ms = Some (TC_SUCCESS, locks)"
    and rs: "calculate_commits srt st c (commit_groups ms) = Some rs"
    and R: "changes_each c rs result_applied (st_databases st) dbs1"
    and L: "changes_each c locks (locks_acquired i) dbs1 dbs2"
  shows "dbs2 p = st_databases st p \<or> p \<in> set (open_ptrs (c_openDatabases c))
    \<and> (\<exists>db db'. st_databases st p = Some db \<and> dbs2 p = Some db' \<and> committed srt i p db db')"
proof -
  let ?gs = "commit_groups ms"
  note groups = validated_groups [OF v] and results = calculate_commits_results [OF rs]
  have fst: "fst ` set rs = fst ` set ?gs" "fst ` set locks = fst ` set ?gs"
    using groups results by (metis set_map)+
  show ?thesis
  proof (cases "\<exists>d \<in> fst ` set ?gs. Client_GetDatabase c d = Some p")
    case False
    then have no: "\<forall>x \<in> set rs. Client_GetDatabase c (fst x) \<noteq> Some p" "\<forall>x \<in> set locks. Client_GetDatabase c (fst x) \<noteq> Some p"
      using fst by (metis imageI)+
    have "dbs1 p = st_databases st p" using R no(1) by (simp add: changes_each_def)
    moreover have "dbs2 p = dbs1 p" using L no(2) by (simp add: changes_each_def)
    ultimately show ?thesis by simp
  next
    case True
    then obtain d g where d: "(d, g) \<in> set ?gs" and p: "Client_GetDatabase c d = Some p" by auto
    have "d \<in> fst ` set rs" using d fst(1) by force
    then obtain r where r: "(d, r) \<in> set rs" by auto
    with results obtain db g' where g': "(d, g') \<in> set ?gs" and db: "st_databases st p = Some db"
      and calc: "Database_CalculateCommitResult srt g' (db_store db) = Some r" using p by fastforce
    have "g' = g" using d g' groups by (metis eq_key_imp_eq_value)
    from d groups obtain cd created where cd: "client_database_of st i c d = Some cd"
      and val: "validate_messages (cd_info cd) (cd_owns cd) False g BlobCreationRanges_new = Some (TC_SUCCESS, created)"
      and l: "(d, implicit_locks (cd_owns cd) (bc_ranges created)) \<in> set locks" by blast
    from cd p db have cd': "cd_info cd = db_info_of (db_store db)" "cd_owns cd = Database_ClientOwnsWriteLock (db_locks db) i"
      by (auto simp: client_database_of_def bind_eq_Some_conv)
    from R r p db obtain k store where ap: "CommitResult_ApplyToDatabase r (db_store db) = Some (k, store)"
      and d1: "dbs1 p = Some (db\<lparr>db_store := store\<rparr>)" unfolding changes_each_def result_applied_def by fastforce
    from L l p d1 obtain L cs cs' where acq: "Database_AcquireImplicitWriteLocks (RevokeStickyLock p) i
        (implicit_locks (cd_owns cd) (bc_ranges created)) (db_locks db, cs) = (L, cs')"
      and d2: "dbs2 p = Some (db\<lparr>db_store := store, db_locks := L\<rparr>)" unfolding changes_each_def locks_acquired_def by fastforce
    have "committed srt i p db (db\<lparr>db_store := store, db_locks := L\<rparr>)"
      unfolding committed_def valid_commit_def
      using val [unfolded cd'] calc [unfolded \<open>g' = g\<close>] ap acq [unfolded cd'] by (intro exI conjI) simp_all
    with db d2 GetDatabase_open [OF p] show ?thesis by blast
  qed
qed

lemma execute_commit_moves:
  assumes x: "Server_execute_commit srt i locks st = Some st'" and inv: "server_inv st"
    and c: "st_clients st i = Some c" "c_hasTransaction c"
    and v: "Server_ValidateCommitMessages (client_database_of st i c) (c_commitMessages c) = Some (TC_SUCCESS, locks)"
  shows "\<exists>st1 st2. quiet (Some i) st st1 \<and> commit_event srt i st1 st2 \<and> server_events env (Some i) st2 st'"
proof -
  let ?gs = "commit_groups (c_commitMessages c)" and ?c = "c\<lparr>c_commitMessages := []\<rparr>"
  from x c obtain rs st1 ids st2 st3 st4 where rs: "calculate_commits srt st c ?gs = Some rs"
    and cl: "clear_commitMessages i st = Some st1" and ap: "apply_commits c rs st1 = Some (ids, st2)"
    and ai: "acquire_implicit i locks st2 = Some st3" and rd: "release_deleted i rs st3 = Some st4"
    and ab: "Server_AbortTransaction i False (SendMessageToClient i (TransactionCommitResponse ids) st4) = Some st'"
    by (auto simp: Server_execute_commit_def bind_eq_Some_conv)
  from cl c have st1: "st1 = set_client i ?c st" by (simp add: clear_commitMessages_def)
  have q1: "quiet (Some i) st st1" by (rule clear_commitMessages_quiet [OF cl])
  have ok: "distinct (open_ptrs (c_openDatabases c))" using inv c by (simp add: server_inv_def client_ok_def)
  note groups = validated_groups [OF v] and results = calculate_commits_results [OF rs]
  from apply_commits_effect [OF ap ok] groups results obtain dbs1 where st2: "st2 = st1\<lparr>st_databases := dbs1\<rparr>"
    and R: "changes_each c rs result_applied (st_databases st) dbs1" by (auto simp: st1)
  have "st_clients st2 i = Some ?c" "client_shape ?c = client_shape c" by (simp_all add: st2 st1 client_shape_def)
  from acquire_implicit_effect [OF ai ok _ this] groups obtain dbs2 cs where
    st3: "st3 = st2\<lparr>st_databases := dbs2, st_clients := cs\<rparr>" and same: "same_clients (st_clients st1) cs"
    and L: "changes_each c locks (locks_acquired i) dbs1 dbs2"
    by (auto simp: st2)
  have users: "p \<in> set (open_ptrs (c_openDatabases c)) \<Longrightarrow> i \<in> users (st_clients st1) p" for p by (simp add: st1 users_def)
  have "dbs2 p = st_databases st1 p \<or> i \<in> users (st_clients st1) p
    \<and> (\<exists>db db'. st_databases st1 p = Some db \<and> dbs2 p = Some db' \<and> committed srt i p db db')" for p
    using commit_event_of_effects [OF v rs R L, of p] users by (simp add: st1) blast
  moreover have "active (st_clients st1) i" by (simp add: st1 active_def c)
  ultimately have ce: "commit_event srt i st1 st3" using same unfolding commit_event_def st3 st2 by fastforce
  have inv3: "server_inv st3" by (rule commit_event_inv [OF ce quiet_inv [OF q1 inv]])
  let ?st4 = "SendMessageToClient i (TransactionCommitResponse ids) st4"
  have e: "server_events env (Some i) st3 ?st4"
    using release_deleted_events [OF rd] events_send by (meson events_trans)
  with AbortTransaction_events [OF ab server_events_inv [OF e inv3]] have "server_events env (Some i) st3 st'"
    using events_trans by blast
  with q1 ce show ?thesis by blast
qed

lemma HandleTransactionCommit_moves:
  assumes "Server_HandleTransactionCommit srt m st = Some st'" "server_inv st"
  shows "server_moves env srt (Some (tc_clientId m)) st st'"
proof -
  let ?i = "tc_clientId m"
  from assms(1) obtain c where c: "st_clients st ?i = Some c"
    by (auto simp: Server_HandleTransactionCommit_def Let_def bind_eq_Some_conv)
  note def = Server_HandleTransactionCommit_def Let_def Client_IsInsideTransaction_def c
  let ?c = "c\<lparr>c_commitMessages := c_commitMessages c @ [m]\<rparr>"
  let ?st = "set_client ?i ?c st"
  have q: "quiet (Some ?i) st ?st" by (rule quiet_client [OF c]) (simp add: client_shape_def)
  note e1 = events_quiet [OF q, of env] and inv1 = quiet_inv [OF q assms(2)]
  consider "\<not> c_hasTransaction c" | "c_hasTransaction c" "tc_hasFollowMessage m" | "c_hasTransaction c" "\<not> tc_hasFollowMessage m" by blast
  then show ?thesis
  proof cases
    case 1
    with assms show ?thesis by (auto simp: def intro: moves_events)
  next
    case 2
    with assms e1 show ?thesis by (auto simp: def intro: moves_events)
  next
    case 3
    with assms obtain code locks where v: "Server_ValidateCommitMessages (client_database_of ?st ?i ?c) (c_commitMessages ?c) = Some (code, locks)"
      by (auto simp: def bind_eq_Some_conv)
    show ?thesis
    proof (cases "code = TC_SUCCESS")
      case True
      with assms 3 v have "Server_execute_commit srt ?i locks ?st = Some st'" by (simp add: def)
      from execute_commit_moves [OF this inv1 _ _ v [unfolded True], of env] 3 quiet_trans [OF q]
      show ?thesis unfolding server_moves_def by fastforce
    next
      case False
      let ?st1 = "SendMessageToClient ?i (TransactionCommitError code) ?st"
      from False assms 3 v obtain st2 where cl: "clear_commitMessages ?i ?st1 = Some st2" and ab: "Server_AbortTransaction ?i True st2 = Some st'"
        by (auto simp: def Server_AbortTransactionCommit_def bind_eq_Some_conv)
      have "server_events env (Some ?i) st st2"
        using e1 events_send events_quiet [OF clear_commitMessages_quiet [OF cl]] by (meson events_trans)
      with AbortTransaction_events [OF ab server_events_inv [OF this assms(2)]] events_trans moves_events show ?thesis by blast
    qed
  qed
qed

section \<open>The server\<close>

fun message_client :: "Message \<Rightarrow> client_id" where
  "message_client (Msg_ConnectionOpened i) = i"
| "message_client (Msg_ConnectionClosed i) = i"
| "message_client (Msg_DatabaseOpen m) = do_clientId m"
| "message_client (Msg_DatabaseClose i dbId) = i"
| "message_client (Msg_BlobsRead m) = br_clientId m"
| "message_client (Msg_TransactionBegin m) = tb_clientId m"
| "message_client (Msg_TransactionAbort i) = i"
| "message_client (Msg_TransactionCommit m) = tc_clientId m"
| "message_client (Msg_Other i) = i"

lemma ProcessMessage_moves:
  assumes "Server_ProcessMessage env srt m st = Some st'" "server_inv st"
  shows "server_moves env srt (Some (message_client m)) st st'"
proof (cases m)
  case (Msg_ConnectionOpened i)
  with assms(1) have "st_clients st i = None" "st' = set_client i Client_new st"
    by (auto simp: Server_HandleConnectionOpened_def ClientConnected_def split: if_splits)
  then have "server_event env (Some i) st st'" using ev_connect [of "Some i" i st env] by simp
  with Msg_ConnectionOpened show ?thesis by (simp add: moves_events r_into_rtranclp)
next
  case (Msg_TransactionCommit c)
  then show ?thesis using assms HandleTransactionCommit_moves by simp
qed (use assms HandleConnectionClosed_events HandleDatabaseOpen_events HandleDatabaseClose_events HandleBlobsRead_events
    HandleTransactionBegin_events HandleTransactionAbort_events in \<open>simp_all add: moves_events\<close>)

lemma run_task_events:
  assumes "run_task task st = Some st'" "server_inv st"
  shows "server_events env w st st'"
proof (cases task)
  case (CloseTask p t)
  with assms obtain db where "st_databases st p = Some db"
    "st' = st \<or> st' = Database_Close p st \<and> db_useCount db = 0" by (auto simp: bind_eq_Some_conv split: if_splits)
  then show ?thesis using ev_delayed_close by blast
next
  case (LockTimeoutTask p)
  show ?thesis
  proof (cases "st_databases st p")
    case None
    with LockTimeoutTask assms show ?thesis by simp
  next
    case (Some db)
    let ?q = "filter (\<lambda>q. \<not> timed_out (st_now st) q) (db_queuedReads db)"
    from Some LockTimeoutTask assms(1) obtain js where
      st': "st' = fold (\<lambda>i. SendMessageToClient i (BlobsReadError BR_LOCK_TIMEOUT)) js (set_db p (db\<lparr>db_queuedReads := ?q\<rparr>) st)"
      by (auto simp: CheckForLockTimeouts_filter)
    have "database_ok (st_clients st) p db" using assms(2) Some by (simp add: server_inv_def)
    then have "queue_ok (st_clients st) p ?q" by (auto simp: database_ok_def intro: queue_ok_subset)
    then have e: "server_event env w st (set_db p (db\<lparr>db_queuedReads := ?q\<rparr>) st)" by (rule ev_queue [OF Some])
    have "server_events env w s (fold (\<lambda>i. SendMessageToClient i r) js s)" for r s
    proof (induction js arbitrary: s)
      case (Cons i js)
      from events_trans [OF events_send Cons.IH] show ?case by simp
    qed simp
    with e show ?thesis unfolding st' by (rule converse_rtranclp_into_rtranclp)
  qed
qed

lemma run_next_task_events:
  assumes "run_next_task st = Some st'" "server_inv st"
  shows "server_events env w st st'"
proof -
  from assms(1) obtain task tasks where r: "run_task task (st\<lparr>st_tasks := tasks\<rparr>) = Some st'"
    by (auto simp: run_next_task_def bind_eq_Some_conv)
  have "quiet None st (st\<lparr>st_tasks := tasks\<rparr>)" "quiet w st (st\<lparr>st_tasks := tasks\<rparr>)" by (rule quiet_same; simp)+
  with run_task_events [OF r quiet_inv] assms(2) events_quiet events_trans show ?thesis by blast
qed

lemma server_step_moves:
  assumes "server_step env srt st st'" "server_inv st"
  shows "\<exists>w. server_moves env srt w st st'"
  using assms(1)
proof (cases rule: server_step.cases)
  case (step_message m)
  then show ?thesis using ProcessMessage_moves assms(2) by blast
next
  case step_task
  then show ?thesis using run_next_task_events assms(2) moves_events by blast
next
  case (step_time d)
  have "quiet None st st'" unfolding step_time by (rule quiet_same) simp_all
  then show ?thesis using events_quiet moves_events by blast
qed

lemma server_moves_inv: "server_moves env srt w st st' \<Longrightarrow> server_inv st \<Longrightarrow> server_inv st'"
  using server_events_inv commit_event_inv quiet_inv unfolding server_moves_def by blast

lemma reachable_inv: "server_reachable env srt closeDelay st \<Longrightarrow> server_inv st"
proof (induction rule: server_reachable.induct)
  case reachable_init
  show ?case by (rule server_inv_new)
next
  case (reachable_step st st')
  then show ?case using server_step_moves server_moves_inv by blast
qed

end
