(* ===== verification/Server_Isolation.thy ===== *)
theory Server_Isolation
  imports Server_Refinement
begin

text \<open>
  What a step of the server leaves alone: the locks of a client that stays inside its transaction while the
  message of another client is handled, the databases it has opened, and the MVCC snapshots it reads from.
\<close>

section \<open>Databases\<close>

text \<open>What a single event does to the content of a database.\<close>

definition store_change :: "DbStore \<Rightarrow> DbStore \<Rightarrow> bool" where
  "store_change s s' = (store_reads s s' \<or> s' = Database_BeginMVCC s \<or> s' = Database_EndMVCC s)"

definition keeps_database :: "client_id \<Rightarrow> Database \<Rightarrow> Database \<Rightarrow> bool" where
  "keeps_database j db db' = ((\<forall>l v. table_grants (db_locks db) j l v \<longrightarrow> table_grants (db_locks db') j l v)
     \<and> store_change (db_store db) (db_store db'))"

lemma store_change_refl [simp]: "store_change s s"
  by (simp add: store_change_def)

lemma keeps_database_refl [simp]: "keeps_database j db db"
  by (simp add: keeps_database_def)

lemma keeps_grants_other: "keeps_grants act (Some i) L L' \<Longrightarrow> table_ok L \<Longrightarrow> i \<noteq> j \<Longrightarrow> act j \<Longrightarrow> table_grants L j l v \<Longrightarrow> table_grants L' j l v"
  by (simp add: keeps_grants_def)

lemma keeps_database_quiet:
  assumes "quiet_db act w db db'" "act j" "w \<noteq> Some j" "table_ok (db_locks db)"
  shows "keeps_database j db db'"
  using assms by (auto simp: quiet_db_def keeps_grants_def keeps_database_def store_change_def)

section \<open>Opening and releasing\<close>

definition same_but_count :: "Database option \<Rightarrow> Database option \<Rightarrow> bool" where
  "same_but_count d d' = (\<exists>db k. d = Some db \<and> d' = Some (db\<lparr>db_useCount := k\<rparr>))"

lemma in_use:
  assumes "server_inv st" "j \<in> users (st_clients st) p" "st_databases st p = Some db"
  shows "0 < db_useCount db"
proof -
  have "finite (users (st_clients st) p)" by simp
  then have "0 < card (users (st_clients st) p)" using assms(2) card_gt_0_iff by blast
  then show ?thesis using assms by (simp add: server_inv_def database_ok_def)
qed

lemma users_opened:
  assumes "server_inv st" "j \<in> users (st_clients st) p"
  obtains db where "st_databases st p = Some db"
proof -
  from assms(2) obtain c where c: "st_clients st j = Some c" "p \<in> set (open_ptrs (c_openDatabases c))" by (auto simp: users_def)
  with assms(1) have "client_ok (st_databases st) c" by (simp add: server_inv_def)
  with c that show thesis by (auto simp: client_ok_def)
qed

lemma open_unknown_keeps:
  assumes "open_unknown env n m st = Some (r, q, st1)" "p < st_nextPtr st"
  shows "st_databases st1 p = st_databases st p \<and> st_clients st1 = st_clients st"
  using assms
  by (auto simp: open_unknown_def Let_def bind_eq_Some_conv split: if_splits option.splits prod.splits)

lemma Database_Open_keeps:
  assumes o: "Database_Open env n m st = Some (r, q, st1)" and inv: "server_inv st"
    and j: "j \<in> users (st_clients st) p"
  shows "same_but_count (st_databases st p) (st_databases st1 p) \<and> st_clients st1 = st_clients st"
proof -
  obtain db where db: "st_databases st p = Some db" using users_opened [OF inv j] .
  then have lt: "p < st_nextPtr st" using inv by (auto simp: server_inv_def)
  have same: "same_but_count (Some db) (Some db)" "same_but_count (Some db) (Some (db\<lparr>db_useCount := k\<rparr>))" for k
    unfolding same_but_count_def by (rule exI [of _ db], rule exI [of _ "db_useCount db"]; simp) (rule exI [of _ db], rule exI [of _ k]; simp)
  have close: "st_databases (Database_Close a st) p = Some db" if "st_databases st a = Some d" "\<not> 0 < db_useCount d" for a d
    using in_use [OF inv j] that db by (auto simp: Database_Close_def)
  show ?thesis
    using o db same lt open_unknown_keeps [OF _ lt, of env _ m] close
      open_unknown_keeps [of env n m "Database_Close a st" r q st1 p for a]
    by (auto simp: Database_Open_def bind_eq_Some_conv Database_Close_def fun_upd_def split: option.splits prod.splits if_splits)
qed

lemma Release_keeps:
  assumes r: "Database_Release q st = Some st'" and db: "st_databases st p = Some db" "p = q \<Longrightarrow> 1 < db_useCount db"
  shows "same_but_count (st_databases st p) (st_databases st' p) \<and> st_clients st' = st_clients st"
proof -
  have same: "same_but_count (Some db) (Some db)" "same_but_count (Some db) (Some (db\<lparr>db_useCount := k\<rparr>))" for k
    unfolding same_but_count_def by (rule exI [of _ db], rule exI [of _ "db_useCount db"]; simp) (rule exI [of _ db], rule exI [of _ k]; simp)
  show ?thesis
    using r db same by (cases "p = q") (auto simp: Database_Release_def Database_Close_def Let_def bind_eq_Some_conv split: if_splits)
qed

lemma keeps_counted:
  assumes "same_but_count d d'" "d = Some db"
  obtains db' where "d' = Some db'" "keeps_database j db db'" "db_store db' = db_store db" "db_locks db' = db_locks db"
  using assms by (auto simp: same_but_count_def keeps_database_def)

lemma CloseDatabase_steps:
  assumes "Client_CloseDatabase i dbId st = Some (b, st')" "st_clients st i = Some c" "Client_GetDatabase c dbId = Some q"
  obtains e d L where "st_databases st q = Some d" "Database_ReleaseLocks (db_locks d) i (dbl_locks e) = Some L"
    "Database_Release q ((set_db q (d\<lparr>db_locks := L, db_queuedReads := erase_client_reads i (db_queuedReads d)\<rparr>) st)
      \<lparr>st_clients := (st_clients st)(i \<mapsto> set_entry (unat dbId) (e\<lparr>dbl_locks := [], dbl_database := None\<rparr>) c)\<rparr>) = Some st'"
  using assms
  by (auto simp: Client_CloseDatabase_def Database_AbortClientTransaction_def bind_eq_Some_conv split: if_splits)

section \<open>Events\<close>

lemma event_shape:
  assumes "server_event env w st st'" "server_inv st" "w \<noteq> Some j" "active (st_clients st') j"
  shows "map_option client_shape (st_clients st' j) = map_option client_shape (st_clients st j)"
  using assms
proof cases
  case ev_quiet
  then show ?thesis by (simp add: quiet_def same_clients_def)
next
  case (ev_begin i c prio)
  then have "distinct (open_ptrs (c_openDatabases c))" using assms(2) by (simp add: server_inv_def client_ok_def)
  with ev_begin assms(3) show ?thesis
    by (auto simp: Client_BeginTransaction_def bind_eq_Some_conv dest!: begin_mvcc_effect)
next
  case (ev_abort i rel b)
  then obtain c where c: "st_clients st i = Some c" by (auto simp: Client_AbortTransaction_def bind_eq_Some_conv)
  then have d: "distinct (open_ptrs (c_openDatabases c))" using assms(2) by (simp add: server_inv_def client_ok_def)
  show ?thesis
    using ev_abort c assms(4) abort_entries_effect [OF _ d, where act = "\<lambda>_. True"]
    by (fastforce simp: Client_AbortTransaction_def bind_eq_Some_conv active_def split: if_splits)
next
  case (ev_open i n m r p st1 c mvcc k)
  then have "st_clients st1 = st_clients st" using Database_Open_inv [OF assms(2)] by blast
  with ev_open assms(3) show ?thesis
    by (auto simp: Client_OpenDatabase_def update_store_def Let_def bind_eq_Some_conv split: if_splits)
next
  case (ev_open_release n m r p st1)
  then have "st_clients st1 = st_clients st" using Database_Open_inv [OF assms(2)] by blast
  with ev_open_release show ?thesis
    by (auto simp: Database_Release_def Database_Close_def Let_def bind_eq_Some_conv split: if_splits)
next
  case (ev_not_opened n m r)
  then show ?thesis using Database_Open_inv [OF assms(2)] by simp
next
  case (ev_close i dbId b)
  with assms(3) show ?thesis
    by (auto simp: Client_CloseDatabase_def Database_Release_def Database_Close_def Let_def bind_eq_Some_conv
        split: if_splits option.splits)
qed (use assms(3) in \<open>auto simp: Database_Close_def\<close>)

lemma shape_users:
  assumes "map_option client_shape (cs' j) = map_option client_shape (cs j)"
  shows "j \<in> users cs' p \<longleftrightarrow> j \<in> users cs p" "j \<in> mvcc_users cs' p \<longleftrightarrow> j \<in> mvcc_users cs p" "active cs' j = active cs j"
proof -
  have "(j \<in> users cs' p \<longleftrightarrow> j \<in> users cs p) \<and> (j \<in> mvcc_users cs' p \<longleftrightarrow> j \<in> mvcc_users cs p) \<and> active cs' j = active cs j"
  proof (cases "cs j")
    case None
    with assms have "cs' j = None" by simp
    with None show ?thesis by (simp add: users_def mvcc_users_def active_def)
  next
    case (Some c)
    with assms obtain c' where c': "cs' j = Some c'" "client_shape c' = client_shape c" by auto
    from shape_ptrs [OF c'(2)] shape_entry(2) [OF c'(2)] Some c'(1) show ?thesis
      by (simp add: users_def mvcc_users_def active_def)
  qed
  then show "j \<in> users cs' p \<longleftrightarrow> j \<in> users cs p" "j \<in> mvcc_users cs' p \<longleftrightarrow> j \<in> mvcc_users cs p" "active cs' j = active cs j"
    by blast+
qed

lemma event_keeps:
  assumes ev: "server_event env w st st'" and inv: "server_inv st" and w: "w \<noteq> Some j" and act: "active (st_clients st') j"
    and j: "j \<in> users (st_clients st) p" and db: "st_databases st p = Some db"
  shows "\<exists>db'. st_databases st' p = Some db' \<and> keeps_database j db db'"
proof -
  have actj: "active (st_clients st) j" using act shape_users(3) [of "st_clients st'" j "st_clients st", OF event_shape [OF ev inv w act]] by simp
  have ok: "table_ok (db_locks db)" using inv db by (simp add: server_inv_def database_ok_def)
  show ?thesis
    using ev
  proof cases
    case ev_quiet
    then have "rel_option (quiet_db (active (st_clients st)) w) (st_databases st p) (st_databases st' p)" by (simp add: quiet_def)
    with db keeps_database_quiet [of "active (st_clients st)" w db _ j, OF _ actj w ok] show ?thesis by (cases "st_databases st' p") auto
  next
    case (ev_queue q d qs)
    then show ?thesis using db by (cases "p = q") (auto simp: keeps_database_def)
  next
    case (ev_begin i c prio)
    then have "distinct (open_ptrs (c_openDatabases c))" using inv by (simp add: server_inv_def client_ok_def)
    with ev_begin db show ?thesis
      by (auto simp: Client_BeginTransaction_def bind_eq_Some_conv update_databases_def keeps_database_def store_change_def
          dest!: begin_mvcc_effect)
  next
    case (ev_abort i rel b)
    then obtain c where c: "st_clients st i = Some c" by (auto simp: Client_AbortTransaction_def bind_eq_Some_conv)
    show ?thesis
    proof (cases "c_hasTransaction c")
      case False
      with ev_abort c db show ?thesis by (simp add: Client_AbortTransaction_def)
    next
      case True
      let ?P = "set (open_ptrs (c_openDatabases c))"
      from ev_abort c True obtain es st1 where es: "abort_entries i rel (c_openDatabases c) st = Some (es, st1)"
        and st': "st' = set_client i (c\<lparr>c_openDatabases := es, c_hasTransaction := False\<rparr>) st1"
        by (auto simp: Client_AbortTransaction_def bind_eq_Some_conv)
      have "i \<noteq> j" using act by (auto simp: st' active_def)
      have "distinct (open_ptrs (c_openDatabases c))" using inv c by (simp add: server_inv_def client_ok_def)
      from abort_entries_effect [OF es this, where act = "\<lambda>_. True"] obtain M L where
        st1: "st1 = update_databases ?P (abort_database i M L) st"
        and L: "\<forall>p \<in> ?P. \<exists>db. st_databases st p = Some db \<and> keeps_grants (\<lambda>_. True) (Some i) (db_locks db) (L p)" by blast
      have "table_grants (L p) j l v" if "p \<in> ?P" "table_grants (db_locks db) j l v" for l v
        using L that db keeps_grants_other [of "\<lambda>_. True" i "db_locks db" "L p" j l v, OF _ ok \<open>i \<noteq> j\<close>] by fastforce
      then show ?thesis
        using db by (auto simp: st' st1 update_databases_def abort_database_def keeps_database_def store_change_def)
    qed
  next
    case (ev_open i n m r q st1 c mvcc k)
    from Database_Open_keeps [OF ev_open(2) inv j] db obtain x where x: "st_databases st1 p = Some (db\<lparr>db_useCount := x\<rparr>)"
      by (auto simp: same_but_count_def)
    with ev_open show ?thesis
      by (auto simp: Client_OpenDatabase_def update_store_def Let_def bind_eq_Some_conv keeps_database_def store_change_def split: if_splits)
  next
    case (ev_open_release n m r q st1)
    from Database_Open_keeps [OF ev_open_release(1) inv j] db obtain x where x: "st_databases st1 p = Some (db\<lparr>db_useCount := x\<rparr>)"
      and cl: "st_clients st1 = st_clients st" by (auto simp: same_but_count_def)
    have "1 < db_useCount (db\<lparr>db_useCount := x\<rparr>)" if "p = q"
    proof -
      from Database_Open_inv [OF inv ev_open_release(1)] have "extra_reference q st1" by (simp add: opened_inv_def)
      then have "server_inv (set_db p ((db\<lparr>db_useCount := x\<rparr>)\<lparr>db_useCount := x - 1\<rparr>) st1)" using x that by (auto simp: extra_reference_def)
      from in_use [OF this, of j p] j cl show ?thesis by simp
    qed
    from Release_keeps [OF ev_open_release(2) x this] x show ?thesis by (auto simp: same_but_count_def keeps_database_def)
  next
    case (ev_not_opened n m r)
    from Database_Open_keeps [OF ev_not_opened inv j] db show ?thesis by (auto simp: same_but_count_def keeps_database_def)
  next
    case (ev_close i dbId b)
    then have "i \<noteq> j" using w by auto
    from ev_close obtain c where c: "st_clients st i = Some c" and no: "\<not> c_hasTransaction c"
      by (auto simp: Client_CloseDatabase_def bind_eq_Some_conv split: if_splits)
    show ?thesis
    proof (cases "Client_GetDatabase c dbId")
      case None
      with ev_close c no db show ?thesis by (simp add: Client_CloseDatabase_def)
    next
      case (Some q)
      from CloseDatabase_steps [OF ev_close(2) c Some] obtain e d L where d: "st_databases st q = Some d"
        and L: "Database_ReleaseLocks (db_locks d) i (dbl_locks e) = Some L"
        and r: "Database_Release q ((set_db q (d\<lparr>db_locks := L, db_queuedReads := erase_client_reads i (db_queuedReads d)\<rparr>) st)
          \<lparr>st_clients := (st_clients st)(i \<mapsto> set_entry (unat dbId) (e\<lparr>dbl_locks := [], dbl_database := None\<rparr>) c)\<rparr>) = Some st'" .
      let ?d = "d\<lparr>db_locks := L, db_queuedReads := erase_client_reads i (db_queuedReads d)\<rparr>"
      let ?db = "if p = q then ?d else db"
      have dbp: "st_databases ((set_db q ?d st)\<lparr>st_clients := (st_clients st)(i \<mapsto> set_entry (unat dbId)
          (e\<lparr>dbl_locks := [], dbl_database := None\<rparr>) c)\<rparr>) p = Some ?db" using db by simp
      have "1 < db_useCount ?db" if "p = q"
      proof -
        have "i \<in> users (st_clients st) q" using c GetDatabase_open [OF Some] by (auto simp: users_def)
        then have "card {i, j} \<le> card (users (st_clients st) q)" using j that by (intro card_mono) auto
        with \<open>i \<noteq> j\<close> have "2 \<le> card (users (st_clients st) q)" by simp
        with inv d that show ?thesis by (simp add: server_inv_def database_ok_def)
      qed
      from Release_keeps [OF r dbp this] dbp obtain x where "st_databases st' p = Some (?db\<lparr>db_useCount := x\<rparr>)"
        unfolding same_but_count_def by force
      moreover have "table_grants L j l v" if "p = q" "table_grants (db_locks db) j l v" for l v
        using keeps_grants_other [of "\<lambda>_. True" i "db_locks d" L j l v, OF ReleaseLocks_frame [OF L] _ \<open>i \<noteq> j\<close>] ok that d db by auto
      ultimately show ?thesis using d db by (auto simp: keeps_database_def)
    qed
  next
    case (ev_delayed_close q d)
    with in_use [OF inv j] db show ?thesis by (auto simp: Database_Close_def)
  qed (use db in auto)
qed

section \<open>MVCC snapshots\<close>

lemma mvcc_in_use:
  assumes "server_inv st" "j \<in> mvcc_users (st_clients st) p" "st_databases st p = Some db"
  shows "ds_mvccSnapshot (db_store db) \<noteq> None" "ds_mvccUseCount (db_store db) \<noteq> 0"
proof -
  have "0 < card (mvcc_users (st_clients st) p)" using assms(2) card_gt_0_iff finite_clients by blast
  then show "ds_mvccSnapshot (db_store db) \<noteq> None" "ds_mvccUseCount (db_store db) \<noteq> 0"
    using assms(1,3) by (auto simp: server_inv_def database_ok_def mvcc_ok_def)
qed

lemma store_change_snapshot: "store_change s s' \<Longrightarrow> ds_snapshot s' = ds_snapshot s"
  by (auto simp: store_change_def Database_BeginMVCC_def Database_EndMVCC_def Let_def dest!: store_reads_heap)

text \<open>A snapshot that is in use before and after an event is the same one.\<close>

lemma store_change_mvcc:
  assumes "store_change s s'" "ds_mvccUseCount s \<noteq> 0" "ds_mvccSnapshot s' \<noteq> None"
  shows "ds_mvccSnapshot s' = ds_mvccSnapshot s"
  using assms by (auto simp: store_change_def Database_BeginMVCC_def Database_EndMVCC_def Let_def
      dest!: store_reads_heap split: if_splits)

definition store_changes :: "bool \<Rightarrow> DbStore \<Rightarrow> DbStore \<Rightarrow> bool" where
  "store_changes mvcc = (\<lambda>s s'. store_change s s' \<and> (mvcc \<longrightarrow> ds_mvccSnapshot s' = ds_mvccSnapshot s))\<^sup>*\<^sup>*"

lemma events_keep:
  assumes "server_events env w st st'" "server_inv st" "w \<noteq> Some j" "active (st_clients st') j"
    and "j \<in> users (st_clients st) p" "st_databases st p = Some db"
  shows "map_option client_shape (st_clients st' j) = map_option client_shape (st_clients st j)
    \<and> (\<exists>db'. st_databases st' p = Some db' \<and> (\<forall>l v. table_grants (db_locks db) j l v \<longrightarrow> table_grants (db_locks db') j l v)
         \<and> store_changes (j \<in> mvcc_users (st_clients st) p) (db_store db) (db_store db'))"
  using assms(1,4)
proof (induction rule: rtranclp_induct)
  case base
  show ?case using assms(6) by (auto simp: store_changes_def)
next
  case (step b c)
  have invb: "server_inv b" by (rule server_events_inv [OF step.hyps(1) assms(2)])
  have invc: "server_inv c" by (rule server_event_inv [OF step.hyps(2) invb])
  note shape = event_shape [OF step.hyps(2) invb assms(3) step.prems]
  have "active (st_clients b) j" using step.prems shape_users(3) [of "st_clients c" j "st_clients b", OF shape] by simp
  from step.IH [OF this] obtain d where
    sb: "map_option client_shape (st_clients b j) = map_option client_shape (st_clients st j)"
    and d: "st_databases b p = Some d" "\<And>l v. table_grants (db_locks db) j l v \<Longrightarrow> table_grants (db_locks d) j l v"
      "store_changes (j \<in> mvcc_users (st_clients st) p) (db_store db) (db_store d)" by blast
  note same = shape_users [of "st_clients b" j "st_clients st", OF sb]
  have "j \<in> users (st_clients b) p" using assms(5) same by simp
  from event_keeps [OF step.hyps(2) invb assms(3) step.prems this d(1)] obtain e where
    e: "st_databases c p = Some e" "keeps_database j d e" by blast
  have "ds_mvccSnapshot (db_store e) = ds_mvccSnapshot (db_store d)" if j: "j \<in> mvcc_users (st_clients st) p"
  proof -
    have jb: "j \<in> mvcc_users (st_clients b) p" "j \<in> mvcc_users (st_clients c) p"
      using j same shape_users(2) [of "st_clients c" j "st_clients b", OF shape] by simp_all
    show ?thesis
      using e(2) mvcc_in_use [OF invb jb(1) d(1)] mvcc_in_use(1) [OF invc jb(2) e(1)]
      by (intro store_change_mvcc) (simp_all add: keeps_database_def)
  qed
  then have "store_changes (j \<in> mvcc_users (st_clients st) p) (db_store db) (db_store e)"
    using d(3) e(2) by (auto simp: store_changes_def keeps_database_def intro: rtranclp.rtrancl_into_rtrancl)
  moreover have "\<forall>l v. table_grants (db_locks db) j l v \<longrightarrow> table_grants (db_locks e) j l v"
    using d(2) e(2) by (simp add: keeps_database_def)
  ultimately show ?case using e(1) sb shape by auto
qed

section \<open>All databases\<close>

text \<open>The content of a database that was opened by an event.\<close>

definition initial_store :: "Env \<Rightarrow> Database \<Rightarrow> bool" where
  "initial_store env db = (\<exists>s. store_change s (db_store db)
     \<and> (if db_fileDatabase db then \<exists>n m r. Database_LoadFromFile (env_createFile env n) m = (r, Some s)
        else Database_InitializeInMemory = Some s))"

definition database_event :: "Env \<Rightarrow> Database option \<Rightarrow> Database \<Rightarrow> bool" where
  "database_event env d db' = (case d of
     Some db \<Rightarrow> db_fileDatabase db' = db_fileDatabase db \<and> store_change (db_store db) (db_store db')
   | None \<Rightarrow> initial_store env db')"

definition fresh_store :: "Env \<Rightarrow> Database \<Rightarrow> bool" where
  "fresh_store env db = (if db_fileDatabase db
     then \<exists>n m r. Database_LoadFromFile (env_createFile env n) m = (r, Some (db_store db))
     else Database_InitializeInMemory = Some (db_store db))"

definition opened_event :: "Env \<Rightarrow> Database option \<Rightarrow> Database \<Rightarrow> bool" where
  "opened_event env d db' = (case d of
     Some db \<Rightarrow> db_fileDatabase db' = db_fileDatabase db \<and> db_store db' = db_store db
   | None \<Rightarrow> fresh_store env db')"

lemma opened_event_refl [simp]: "opened_event env (Some db) db"
  by (simp add: opened_event_def)

lemma opened_then_changed:
  assumes "opened_event env d db" "db_fileDatabase db' = db_fileDatabase db" "store_change (db_store db) (db_store db')"
  shows "database_event env d db'"
  using assms by (auto simp: opened_event_def database_event_def initial_store_def fresh_store_def split: option.splits)

lemma opened_database_event: "opened_event env d db \<Longrightarrow> database_event env d db"
  using opened_then_changed [of env d db db] by simp

lemma open_unknown_event:
  assumes "open_unknown env n m st = Some (r, q, st1)" "st_databases st (st_nextPtr st) = None" "st_databases st1 p = Some db'"
  shows "opened_event env (st_databases st p) db'"
  using assms
  by (auto simp: open_unknown_def Let_def bind_eq_Some_conv opened_event_def fresh_store_def new_database_def
      split: if_splits option.splits prod.splits; blast)

lemma Database_Open_event:
  assumes o: "Database_Open env n m st = Some (r, q, st1)" and inv: "server_inv st" and db': "st_databases st1 p = Some db'"
  shows "opened_event env (st_databases st p) db'"
proof -
  have new: "st_databases st (st_nextPtr st) = None" using inv by (auto simp: server_inv_def)
  have new': "st_databases (Database_Close a st) (st_nextPtr (Database_Close a st)) = None" for a
    using new by (simp add: Database_Close_def)
  have close: "opened_event env (st_databases st p) db'"
    if "open_unknown env n m (Database_Close a st) = Some (r, q, st1)" for a
  proof (cases "p = st_nextPtr st")
    case True
    with open_unknown_event [OF that new' db'] new show ?thesis by (simp add: Database_Close_def split: if_splits)
  next
    case False
    then have "st_databases st1 p = st_databases (Database_Close a st) p"
      using that by (auto simp: open_unknown_def Let_def bind_eq_Some_conv Database_Close_def split: if_splits option.splits prod.splits)
    then have "st_databases st p = Some db'" using db' by (auto simp: Database_Close_def split: if_splits)
    then show ?thesis by simp
  qed
  show ?thesis
    using o db' close open_unknown_event [OF _ new db', of env _ m r q]
    by (auto simp: Database_Open_def bind_eq_Some_conv opened_event_def split: option.splits prod.splits if_splits)
qed

lemma Release_event:
  assumes "Database_Release q st = Some st'" "st_databases st' p = Some db'"
  obtains db where "st_databases st p = Some db" "db_fileDatabase db' = db_fileDatabase db" "db_store db' = db_store db"
  using assms by (auto simp: Database_Release_def Database_Close_def Let_def bind_eq_Some_conv split: if_splits)

text \<open>Every database after an event is one from before it whose current snapshot is the same, or a new one.\<close>

lemma event_databases:
  assumes ev: "server_event env w st st'" and inv: "server_inv st" and db': "st_databases st' p = Some db'"
  shows "database_event env (st_databases st p) db'"
  using ev
proof cases
  case ev_quiet
  then have "rel_option (quiet_db (active (st_clients st)) w) (st_databases st p) (st_databases st' p)" by (simp add: quiet_def)
  with db' show ?thesis by (cases "st_databases st p") (auto simp: database_event_def quiet_db_def store_change_def)
next
  case (ev_queue q d qs)
  then show ?thesis using db' by (cases "p = q") (auto simp: database_event_def)
next
  case (ev_begin i c prio)
  then have "distinct (open_ptrs (c_openDatabases c))" using inv by (simp add: server_inv_def client_ok_def)
  with ev_begin db' show ?thesis
    by (auto simp: Client_BeginTransaction_def bind_eq_Some_conv update_databases_def database_event_def store_change_def
        dest!: begin_mvcc_effect split: if_splits)
next
  case (ev_abort i rel b)
  then obtain c where c: "st_clients st i = Some c" by (auto simp: Client_AbortTransaction_def bind_eq_Some_conv)
  show ?thesis
  proof (cases "c_hasTransaction c")
    case False
    with ev_abort c db' show ?thesis by (auto simp: Client_AbortTransaction_def database_event_def)
  next
    case True
    from ev_abort c True obtain es st1 where es: "abort_entries i rel (c_openDatabases c) st = Some (es, st1)"
      and st': "st' = set_client i (c\<lparr>c_openDatabases := es, c_hasTransaction := False\<rparr>) st1"
      by (auto simp: Client_AbortTransaction_def bind_eq_Some_conv)
    have "distinct (open_ptrs (c_openDatabases c))" using inv c by (simp add: server_inv_def client_ok_def)
    from abort_entries_effect [OF es this, where act = "\<lambda>_. True"] obtain P M L where
      st1: "st1 = update_databases P (abort_database i M L) st" by blast
    with db' st' show ?thesis
      by (auto simp: update_databases_def abort_database_def database_event_def store_change_def split: if_splits)
  qed
next
  case (ev_open i n m r q st1 c mvcc k)
  from ev_open(5) db' obtain d where d: "st_databases st1 p = Some d" "db_fileDatabase db' = db_fileDatabase d"
      "store_change (db_store d) (db_store db')"
    by (auto simp: Client_OpenDatabase_def update_store_def Let_def bind_eq_Some_conv store_change_def split: if_splits)
  from opened_then_changed [OF Database_Open_event [OF ev_open(2) inv d(1)] d(2,3)] show ?thesis .
next
  case (ev_open_release n m r q st1)
  from Release_event [OF ev_open_release(2) db'] obtain d where
    d: "st_databases st1 p = Some d" "db_fileDatabase db' = db_fileDatabase d" "db_store db' = db_store d" .
  show ?thesis by (rule opened_then_changed [OF Database_Open_event [OF ev_open_release(1) inv d(1)] d(2)]) (simp add: d(3))
next
  case (ev_not_opened n m r)
  from Database_Open_event [OF ev_not_opened inv db'] show ?thesis by (rule opened_database_event)
next
  case (ev_close i dbId b)
  then obtain c where c: "st_clients st i = Some c" and no: "\<not> c_hasTransaction c"
    by (auto simp: Client_CloseDatabase_def bind_eq_Some_conv split: if_splits)
  show ?thesis
  proof (cases "Client_GetDatabase c dbId")
    case None
    with ev_close c no db' show ?thesis by (auto simp: Client_CloseDatabase_def database_event_def)
  next
    case (Some q)
    from CloseDatabase_steps [OF ev_close(2) c Some] obtain e d L where d: "st_databases st q = Some d"
      and r: "Database_Release q ((set_db q (d\<lparr>db_locks := L, db_queuedReads := erase_client_reads i (db_queuedReads d)\<rparr>) st)
          \<lparr>st_clients := (st_clients st)(i \<mapsto> set_entry (unat dbId) (e\<lparr>dbl_locks := [], dbl_database := None\<rparr>) c)\<rparr>) = Some st'" .
    from Release_event [OF r db'] obtain x where "st_databases ((set_db q (d\<lparr>db_locks := L, db_queuedReads := erase_client_reads i
        (db_queuedReads d)\<rparr>) st)\<lparr>st_clients := (st_clients st)(i \<mapsto> set_entry (unat dbId) (e\<lparr>dbl_locks := [], dbl_database := None\<rparr>) c)\<rparr>) p = Some x"
        "db_fileDatabase db' = db_fileDatabase x" "db_store db' = db_store x" .
    with d show ?thesis by (auto simp: database_event_def split: if_splits)
  qed
next
  case (ev_delayed_close q d)
  with db' show ?thesis by (auto simp: Database_Close_def database_event_def split: if_splits)
qed (use db' in \<open>auto simp: database_event_def\<close>)

end
