(* ===== verification/Server_Content.thy ===== *)
theory Server_Content
  imports Server_Isolation Cache_Properties
begin

text \<open>
  The content of the databases while the server runs: reading never changes it, databases in memory stay
  well-formed, and every state of such a database is a version of its history that starts with the initial
  content. From this follow what clients read inside an MVCC transaction and the correctness of their caches.
\<close>

section \<open>Reading\<close>

lemma Cluster_GetLoadedBlob_loads:
  assumes "heap_wf h" "cl_status (hp_clusters h a) = LOADED" "ok_cluster f c0 h a" "Cluster_GetLoadedBlob f a k h = Some (r, h')"
  shows "loads f c0 h h'"
  using assms Cluster_GetLoadedBlob_read [OF assms(1-3), of k]
  by (cases "k = NextFreeBlobId") (auto simp: Cluster_GetLoadedBlob_def)

lemma Segment_GetLoadedBlob_loads:
  assumes "heap_wf h" "sg_status (hp_segments h s) = LOADED" "ok_segment f c0 h s" "Segment_GetLoadedBlob f s c k h = Some (r, h')"
  shows "loads f c0 h h'"
proof (cases "c = NextFreeClusterId \<and> k = NextFreeBlobId")
  case True
  with assms(4) show ?thesis by (simp add: Segment_GetLoadedBlob_def)
next
  case False
  with assms(4) obtain r1 h1 where h1: "Segment_GetLoadedCluster f s c h = Some (r1, h1)"
    and r: "(case r1 of None \<Rightarrow> Some (None, h1) | Some a \<Rightarrow> Cluster_GetLoadedBlob f a k h1) = Some (r, h')"
    by (auto simp: Segment_GetLoadedBlob_def bind_eq_Some_conv)
  from Segment_GetLoadedCluster_read [OF assms(1-3), of c] h1 have l1: "loads f c0 h h1"
    and a: "\<And>a. r1 = Some a \<Longrightarrow> cl_status (hp_clusters h1 a) = LOADED \<and> ok_cluster f c0 h1 a" by auto
  have "loads f c0 h1 h'"
    using r a Cluster_GetLoadedBlob_loads [OF loads_wf [OF l1 assms(1)]] by (cases r1) auto
  with l1 show ?thesis by (rule rtranclp_trans)
qed

lemma Snapshot_GetLoadedBlob_loads:
  assumes "heap_wf h" "snap_wf h sn" "ok_snapshot f c0 h sn" "Snapshot_GetLoadedBlob f sn l h = Some (r, h')"
  shows "loads f c0 h h'"
proof (cases "segment l = NextFreeSegmentId \<and> cluster l = NextFreeClusterId \<and> blob l = NextFreeBlobId")
  case True
  with assms(4) show ?thesis by (simp add: Snapshot_GetLoadedBlob_def)
next
  case False
  with assms(4) obtain r1 h1 where h1: "Snapshot_GetLoadedSegment f sn (segment l) h = Some (r1, h1)"
    and r: "(case r1 of None \<Rightarrow> Some (None, h1) | Some s \<Rightarrow> Segment_GetLoadedBlob f s (cluster l) (blob l) h1) = Some (r, h')"
    by (auto simp: Snapshot_GetLoadedBlob_def bind_eq_Some_conv)
  from Snapshot_GetLoadedSegment_read [OF assms(1-3), of "segment l"] h1 have l1: "loads f c0 h h1"
    and s: "\<And>s. r1 = Some s \<Longrightarrow> sg_status (hp_segments h1 s) = LOADED \<and> ok_segment f c0 h1 s" by auto
  have "loads f c0 h1 h'"
    using r s Segment_GetLoadedBlob_loads [OF loads_wf [OF l1 assms(1)]] by (cases r1) auto
  with l1 show ?thesis by (rule rtranclp_trans)
qed

lemma Snapshot_GetLoadedCluster_loads:
  assumes "heap_wf h" "snap_wf h sn" "ok_snapshot f c0 h sn" "Snapshot_GetLoadedCluster f sn g c h = Some (r, h')"
  shows "loads f c0 h h'"
proof -
  from assms(4) obtain r1 h1 where h1: "Snapshot_GetLoadedSegment f sn g h = Some (r1, h1)"
    and r: "(case r1 of None \<Rightarrow> Some (None, h1) | Some s \<Rightarrow> Segment_GetLoadedCluster f s c h1) = Some (r, h')"
    by (auto simp: Snapshot_GetLoadedCluster_def bind_eq_Some_conv)
  from Snapshot_GetLoadedSegment_read [OF assms(1-3), of g] h1 have l1: "loads f c0 h h1"
    and s: "\<And>s. r1 = Some s \<Longrightarrow> sg_status (hp_segments h1 s) = LOADED \<and> ok_segment f c0 h1 s" by auto
  have "loads f c0 h1 h'"
  proof (cases r1)
    case (Some x)
    with r s Segment_GetLoadedCluster_read [OF loads_wf [OF l1 assms(1)], of x f c0 c] show ?thesis by auto
  qed (use r in auto)
  with l1 show ?thesis by (rule rtranclp_trans)
qed

lemma store_read_loads:
  assumes "store_read s s'" "store_ok s"
  obtains h where "s' = s\<lparr>ds_heap := h\<rparr>" "loads (ds_file s) (sn_commitId (ds_snapshot s)) (ds_heap s) h"
proof -
  have ok: "heap_wf (ds_heap s)" "snap_wf (ds_heap s) sn" "ok_snapshot (ds_file s) (sn_commitId (ds_snapshot s)) (ds_heap s) sn"
    if "read_snapshot s mvcc = Some sn" for mvcc sn
    using store_ok_snapshot [OF assms(2) that] by (auto simp: snapshot_ok_def)
  from assms(1) show thesis
  proof cases
    case (read_blob l mvcc r)
    then show thesis using that Snapshot_GetLoadedBlob_loads [OF ok] by (auto simp: Database_GetLoadedBlob_def bind_eq_Some_conv)
  next
    case (read_cluster g c mvcc r)
    then show thesis using that Snapshot_GetLoadedCluster_loads [OF ok] by (auto simp: Database_GetLoadedCluster_def bind_eq_Some_conv)
  next
    case (read_segment g mvcc r)
    then show thesis using that Snapshot_GetLoadedSegment_read [OF ok, where k = g]
      by (fastforce simp: Database_GetLoadedSegment_def bind_eq_Some_conv)
  qed
qed

lemma end_mvcc_ok: "store_ok s \<Longrightarrow> store_ok (Database_EndMVCC s)"
  by (auto simp: store_ok_def Database_EndMVCC_def Let_def split: option.splits)

lemma mvcc_frame:
  "ds_file (Database_BeginMVCC s) = ds_file s" "ds_heap (Database_BeginMVCC s) = ds_heap s"
  "ds_freeList (Database_BeginMVCC s) = ds_freeList s" "ds_snapshot (Database_BeginMVCC s) = ds_snapshot s"
  "ds_file (Database_EndMVCC s) = ds_file s" "ds_heap (Database_EndMVCC s) = ds_heap s"
  "ds_freeList (Database_EndMVCC s) = ds_freeList s" "ds_snapshot (Database_EndMVCC s) = ds_snapshot s"
  by (simp_all add: Database_BeginMVCC_def Database_EndMVCC_def Let_def)

text \<open>The content of a database does not depend on what is loaded, and reads keep the invariant.\<close>

definition same_content :: "DbStore \<Rightarrow> DbStore \<Rightarrow> bool" where
  "same_content s s' = (ds_file s' = ds_file s \<and> ds_freeList s' = ds_freeList s \<and> ds_snapshot s' = ds_snapshot s
     \<and> store_view s' False = store_view s False)"

lemma store_reads_content:
  assumes "store_reads s s'" "store_ok s"
  shows "store_ok s' \<and> same_content s s' \<and> ds_mvccSnapshot s' = ds_mvccSnapshot s \<and> store_view s' True = store_view s True"
  using assms(1)
proof (induction rule: rtranclp_induct)
  case base
  show ?case using assms(2) by (simp add: same_content_def)
next
  case (step t u)
  then have ok: "store_ok t" by blast
  obtain h where h: "u = t\<lparr>ds_heap := h\<rparr>" "loads (ds_file t) (sn_commitId (ds_snapshot t)) (ds_heap t) h"
    by (rule store_read_loads [OF step.hyps(2) ok])
  with step.IH store_ok_loads [OF ok h(2)] store_view_loads [OF ok h(2)] show ?case by (simp add: same_content_def)
qed

lemma store_change_content:
  assumes "store_change s s'" "store_ok s"
  shows "store_ok s'" "same_content s s'"
    and "ds_mvccSnapshot s' = ds_mvccSnapshot s \<Longrightarrow> store_view s' True = store_view s True"
    and "store_view s' True \<in> {None, store_view s True, store_view s False}"
proof -
  have "store_ok s' \<and> same_content s s' \<and> (ds_mvccSnapshot s' = ds_mvccSnapshot s \<longrightarrow> store_view s' True = store_view s True)
    \<and> store_view s' True \<in> {None, store_view s True, store_view s False}"
  proof (cases "store_reads s s'")
    case True
    with store_reads_content [OF True assms(2)] show ?thesis by simp
  next
    case False
    with assms(1) have "s' = Database_BeginMVCC s \<or> s' = Database_EndMVCC s" by (simp add: store_change_def)
    then show ?thesis
    proof
      assume s': "s' = Database_BeginMVCC s"
      then have "store_ok s'" using begin_mvcc_ok [OF assms(2)] by simp
      then show ?thesis
        by (auto simp: s' same_content_def store_view_def read_snapshot_def mvcc_frame Database_BeginMVCC_def Let_def)
    next
      assume s': "s' = Database_EndMVCC s"
      then have "store_ok s'" using end_mvcc_ok [OF assms(2)] by simp
      then show ?thesis
        by (auto simp: s' same_content_def store_view_def read_snapshot_def mvcc_frame Database_EndMVCC_def Let_def)
    qed
  qed
  then show "store_ok s'" "same_content s s'" "ds_mvccSnapshot s' = ds_mvccSnapshot s \<Longrightarrow> store_view s' True = store_view s True"
    "store_view s' True \<in> {None, store_view s True, store_view s False}" by blast+
qed

text \<open>While a client uses the MVCC snapshot of a database its content stays the same.\<close>

lemma store_changes_content:
  assumes "store_changes mvcc s s'" "store_ok s"
  shows "store_ok s' \<and> same_content s s' \<and> (mvcc \<longrightarrow> store_view s' True = store_view s True)"
  using assms(1) unfolding store_changes_def
proof (induction rule: rtranclp_induct)
  case base
  show ?case using assms(2) by (simp add: same_content_def)
next
  case (step t u)
  then have "store_ok t" by blast
  from store_change_content(1-3) [OF _ this, of u] step show ?case by (simp add: same_content_def)
qed

section \<open>Databases in memory\<close>

definition memory_ok :: "DbStore \<Rightarrow> bool" where
  "memory_ok s = (ds_freeList s = None \<and> ds_file s = [] \<and> store_ok s)"

text \<open>Nothing can be missing in memory, since there is no file to load it from.\<close>

lemma load_empty_file [simp]: "LoadMemoryBlock [] r \<bind> load_table = None"
  by (simp add: LoadMemoryBlock_def read_at_def load_table_def)

lemma good_table_empty [simp]: "\<not> good_table [] c good r"
  by (auto simp: good_table_def LoadMemoryBlock_def read_at_def load_table_def)

lemma memory_loaded:
  assumes "memory_ok s"
  shows "path_loaded (ds_heap s) (ds_snapshot s) u"
proof -
  from assms have ok: "ok_snapshot [] (sn_commitId (ds_snapshot s)) (ds_heap s) (ds_snapshot s)"
    by (auto simp: memory_ok_def store_ok_def snapshot_ok_def Let_def)
  have seg: "sg_status (hp_segments (ds_heap s) g) = LOADED \<and> (\<forall>a \<in> cluster_ptrs (ds_heap s) g. cl_status (hp_clusters (ds_heap s) a) = LOADED)"
    if "map_of (sn_segments (ds_snapshot s)) k = Some g" for k g
    using ok_snapshotD [OF ok that] by (auto simp: ok_segment_def ok_cluster_def split: if_splits)
  then show ?thesis
    by (fastforce simp: path_loaded_def segment_loaded_def cluster_loaded_def cluster_ptrs_def Let_def dest: map_of_ptr)
qed

section \<open>Validated entries\<close>

lemma validate_entries_checked:
  "validate_entries db owns us bc = Some (TC_SUCCESS, bc') \<Longrightarrow> \<forall>u \<in> set us. entry_checked db u"
proof (induction us arbitrary: bc)
  case (Cons u us)
  then show ?case
    by (auto simp: validate_entry_def bind_eq_Some_conv dest: check_entry_success split: if_splits)
qed simp

lemma validate_messages_checked:
  "validate_messages db owns mvcc ms bc = Some (TC_SUCCESS, bc') \<Longrightarrow> \<forall>u \<in> set (commit_entries ms). entry_checked db u"
proof (induction ms arbitrary: bc)
  case (Cons m ms)
  then show ?case
    using validate_entries_checked by (fastforce simp: bind_eq_Some_conv split: if_splits)
qed simp

lemma checked_wf: "entry_checked db u \<Longrightarrow> entry_wf u"
  by (auto simp: entry_checked_def entry_wf_def Let_def)

section \<open>The history of a database in memory\<close>

definition current_view :: "DbStore \<Rightarrow> snap_view" where
  "current_view s = snapshot_view (ds_file s) (ds_heap s) (ds_snapshot s)"

lemma store_view_current: "store_view s False = Some (current_view s)"
  by (simp add: store_view_def read_snapshot_def current_view_def)

lemma current_view_commit: "dv_commit (current_view s) = sn_commitId (ds_snapshot s)"
  by (simp add: current_view_def snapshot_view_def)

lemma same_content_current: "same_content s s' \<Longrightarrow> current_view s' = current_view s"
  by (simp add: same_content_def store_view_current)

text \<open>After at most \<open>n\<close> commits: the current content is a version that developed from the initial content, and the
  MVCC snapshot is an earlier version.\<close>

definition memory_inv :: "nat \<Rightarrow> DbStore \<Rightarrow> bool" where
  "memory_inv n s = (memory_ok s \<and> unat (sn_commitId (ds_snapshot s)) \<le> n + 1 \<and> later initial_view (current_view s)
     \<and> (\<forall>v. store_view s True = Some v \<longrightarrow> later initial_view v \<and> later v (current_view s)))"

lemma memory_inv_initial: "Database_InitializeInMemory = Some s \<Longrightarrow> memory_inv n s"
  using memory_store_ok memory_store_facts memory_store_view
  by (auto simp: initialize_in_memory memory_inv_def memory_ok_def current_view_def store_view_def read_snapshot_def
      memory_store_def intro: later_refl)

lemma memory_inv_change:
  assumes "memory_inv n s" "store_change s s'"
  shows "memory_inv n s'"
proof -
  have ok: "store_ok s" using assms(1) by (simp add: memory_inv_def memory_ok_def)
  note c = store_change_content [OF assms(2) ok]
  have "later initial_view v \<and> later v (current_view s)" if "store_view s' True = Some v" for v
    using c(4) that assms(1) by (auto simp: memory_inv_def store_view_current intro: later_refl)
  then show ?thesis
    using assms(1) c(1,2) same_content_current [OF c(2)] by (auto simp: memory_inv_def memory_ok_def same_content_def)
qed

lemma memory_inv_mono: "memory_inv n s \<Longrightarrow> n \<le> m \<Longrightarrow> memory_inv m s"
  by (auto simp: memory_inv_def)

text \<open>The number of commits up to which a commit id is never reused.\<close>

definition max_commits :: nat where
  "max_commits = 2 ^ 64 - 4"

lemma commit_room:
  assumes "unat c \<le> n + 1" "n < max_commits"
  shows "c + 1 < max_commit_id - 1" "c < c + 1" "unat (c + 1) = unat c + 1"
proof -
  have m: "unat (max_commit_id - 1) = 18446744073709551614"
    by (simp add: max_commit_id_def unsigned_minus_1_eq_mask mask_eq_exp_minus_1)
  have "unat c < 18446744073709551613" using assms by (simp add: max_commits_def)
  then show u: "unat (c + 1) = unat c + 1" by (simp add: unat_word_ariths)
  with \<open>unat c < _\<close> m show "c + 1 < max_commit_id - 1" "c < c + 1" by (simp_all add: word_less_nat_alt)
qed

lemma memory_inv_commit:
  assumes inv: "memory_inv n s" and n: "n < max_commits" and wf: "\<forall>u \<in> set (commit_entries ms). entry_wf u"
    and r: "Database_CalculateCommitResult srt ms s = Some r" "CommitResult_ApplyToDatabase r s = Some (k, s')"
  shows "memory_inv (Suc n) s' \<and> current_view s' = commit_view (commit_entries ms) (current_view s)
    \<and> store_view s' True = store_view s True"
proof -
  let ?c = "sn_commitId (ds_snapshot s)"
  from inv have ok: "store_ok s" and mem: "memory_ok s" and free: "ds_freeList s = None" and c: "unat ?c \<le> n + 1"
    by (auto simp: memory_inv_def memory_ok_def)
  note room = commit_room [OF c n]
  have u: "\<forall>u \<in> set (commit_entries ms). path_loaded (ds_heap s) (ds_snapshot s) u \<and> entry_wf u"
    using memory_loaded [OF mem] wf by blast
  from in_memory_commit [OF ok free u, of srt] r room(1)
  have v: "store_view s' False = Some (fold spec_update (commit_entries ms) (next_view (current_view s)))"
    "store_view s' True = store_view s True" "store_ok s'" by (auto simp: store_view_current)
  then have cv: "current_view s' = commit_view (commit_entries ms) (current_view s)"
    by (simp add: store_view_current commit_view_def)
  have l: "later w (current_view s')" if "later w (current_view s)" for w
    using later_commit [OF that, of "commit_entries ms"] room(2) unfolding cv by (simp add: current_view_commit)
  have "sn_commitId (ds_snapshot s') = ?c + 1"
    using arg_cong [OF cv, of dv_commit] by (simp add: current_view_commit commit_view_def next_view_commit)
  moreover have "ds_freeList s' = None \<and> ds_file s' = []"
  proof -
    obtain cs :: CommitState where "Database_CalculateCommitResult srt ms s = Some \<lparr>cr_heap = cs_heap cs, cr_snapshot = cs_snapshot cs,
         cr_freeList = None, cr_delta = None, cr_deleted = cs_deleted cs\<rparr>" by (rule memory_commit [OF ok free u, where srt = srt])
    with r mem show ?thesis by (auto simp: CommitResult_ApplyToDatabase_def memory_ok_def)
  qed
  ultimately show ?thesis
    using inv v(2,3) cv l c room(3) by (auto simp: memory_inv_def memory_ok_def)
qed

section \<open>Runs of the server\<close>

definition content_inv :: "nat \<Rightarrow> ServerState \<Rightarrow> bool" where
  "content_inv n st = (\<forall>p db. st_databases st p = Some db \<longrightarrow> \<not> db_fileDatabase db \<longrightarrow> memory_inv n (db_store db))"

lemma event_content:
  assumes "server_event env w st st'" "server_inv st" "content_inv n st"
  shows "content_inv n st'"
  unfolding content_inv_def
proof (intro allI impI)
  fix p db' assume db': "st_databases st' p = Some db'" "\<not> db_fileDatabase db'"
  from event_databases [OF assms(1,2) db'(1)] show "memory_inv n (db_store db')"
  proof (cases "st_databases st p")
    case None
    with event_databases [OF assms(1,2) db'(1)] db'(2) obtain s where "Database_InitializeInMemory = Some s" "store_change s (db_store db')"
      by (auto simp: database_event_def initial_store_def)
    then show ?thesis by (intro memory_inv_change [OF memory_inv_initial])
  next
    case (Some db)
    with event_databases [OF assms(1,2) db'(1)] have "store_change (db_store db) (db_store db')" "\<not> db_fileDatabase db"
      using db'(2) by (simp_all add: database_event_def)
    with Some assms(3) have "memory_inv n (db_store db)" by (simp add: content_inv_def)
    then show ?thesis by (rule memory_inv_change) fact
  qed
qed

lemma events_content:
  "server_events env w st st' \<Longrightarrow> server_inv st \<Longrightarrow> content_inv n st \<Longrightarrow> server_inv st' \<and> content_inv n st'"
  by (induction rule: rtranclp_induct) (auto intro: server_event_inv event_content)

text \<open>A commit to a database in memory is a version of its history.\<close>

lemma committed_memory:
  assumes "committed srt i p db db'" "memory_inv n (db_store db)" "n < max_commits"
  obtains ms created where "valid_commit i db ms created" "memory_inv (Suc n) (db_store db')"
    "current_view (db_store db') = commit_view (commit_entries ms) (current_view (db_store db))"
    "store_view (db_store db') True = store_view (db_store db) True" "db_fileDatabase db' = db_fileDatabase db"
  using assms(1)
proof (rule committedE)
  fix ms created res k store L cs cs'
  assume v: "valid_commit i db ms created" and r: "Database_CalculateCommitResult srt ms (db_store db) = Some res"
      "CommitResult_ApplyToDatabase res (db_store db) = Some (k, store)" and db': "db' = db\<lparr>db_store := store, db_locks := L\<rparr>"
  have "\<forall>u \<in> set (commit_entries ms). entry_wf u"
    using validate_messages_checked v checked_wf unfolding valid_commit_def by blast
  from memory_inv_commit [OF assms(2,3) this r] that [OF v] show thesis by (simp add: db')
qed

lemma commit_event_database:
  assumes "commit_event srt i st st'" "st_databases st' p = Some db'"
  obtains "st_databases st p = Some db'" | db where "st_databases st p = Some db" "committed srt i p db db'"
proof -
  from assms(1) obtain dbs cs where st': "st' = st\<lparr>st_databases := dbs, st_clients := cs\<rparr>"
    and d: "\<forall>p. dbs p = st_databases st p
      \<or> i \<in> users (st_clients st) p \<and> (\<exists>db db'. st_databases st p = Some db \<and> dbs p = Some db' \<and> committed srt i p db db')"
    unfolding commit_event_def by blast
  from spec [OF d, of p] assms(2) st' that show thesis by auto
qed

lemma commit_content:
  assumes "commit_event srt i st st'" "content_inv n st" "n < max_commits"
  shows "content_inv (Suc n) st'"
  unfolding content_inv_def
proof (intro allI impI)
  fix p db' assume db': "st_databases st' p = Some db'" "\<not> db_fileDatabase db'"
  from assms(1) db'(1) consider "st_databases st p = Some db'"
    | db where "st_databases st p = Some db" "committed srt i p db db'"
    by (rule commit_event_database)
  then show "memory_inv (Suc n) (db_store db')"
  proof cases
    case 1
    with assms(2) db'(2) have "memory_inv n (db_store db')" by (simp add: content_inv_def)
    then show ?thesis by (rule memory_inv_mono) simp
  next
    case 2
    then have f: "db_fileDatabase db = db_fileDatabase db'" by (auto elim: committedE)
    with 2 assms(2) db'(2) have "memory_inv n (db_store db)" by (simp add: content_inv_def)
    from committed_memory [OF 2(2) this assms(3)] show ?thesis by blast
  qed
qed

lemma content_mono: "content_inv n st \<Longrightarrow> n \<le> m \<Longrightarrow> content_inv m st"
  by (auto simp: content_inv_def intro: memory_inv_mono)

lemma moves_content:
  assumes "server_moves env srt w st st'" "server_inv st" "content_inv n st" "n < max_commits"
  shows "content_inv (Suc n) st'"
  using assms(1) unfolding server_moves_def
proof
  assume "server_events env w st st'"
  with events_content assms(2,3) content_mono show ?thesis by (meson le_SucI le_refl)
next
  assume "\<exists>i st1 st2. w = Some i \<and> quiet w st st1 \<and> commit_event srt i st1 st2 \<and> server_events env w st2 st'"
  then obtain i st1 st2 where q: "quiet w st st1" and c: "commit_event srt i st1 st2" and e: "server_events env w st2 st'" by blast
  from events_content [OF events_quiet [OF q] assms(2,3)] have "server_inv st1" "content_inv n st1" by blast+
  with commit_event_inv [OF c] commit_content [OF c _ assms(4)] events_content [OF e] show ?thesis by blast
qed

text \<open>The server after \<open>n\<close> steps.\<close>

inductive server_run_of :: "Env \<Rightarrow> (BlockReference list \<Rightarrow> BlockReference list) \<Rightarrow> int \<Rightarrow> nat \<Rightarrow> ServerState \<Rightarrow> bool"
  for env srt closeDelay where
  run_start: "server_run_of env srt closeDelay 0 (Server_new closeDelay)"
| run_next: "server_run_of env srt closeDelay n st \<Longrightarrow> server_step env srt st st' \<Longrightarrow> server_run_of env srt closeDelay (Suc n) st'"

lemma run_reachable: "server_run_of env srt d n st \<Longrightarrow> server_reachable env srt d st"
  by (induction rule: server_run_of.induct) (auto intro: server_reachable.intros)

lemma run_content: "server_run_of env srt d n st \<Longrightarrow> n \<le> max_commits \<Longrightarrow> content_inv n st"
proof (induction rule: server_run_of.induct)
  case run_start
  show ?case by (simp add: content_inv_def Server_new_def)
next
  case (run_next n st st')
  have inv: "server_inv st" by (rule reachable_inv [OF run_reachable [OF run_next.hyps(1)]])
  from server_step_moves [OF run_next.hyps(2) inv] obtain w where "server_moves env srt w st st'" by blast
  from moves_content [OF this inv run_next.IH] run_next.prems show ?case by simp
qed

end
