(* ===== verification/Commit_Locks.thy ===== *)
theory Commit_Locks
  imports Server_Content
begin

text \<open>
  A commit that passed the validation changes only what its client has locked or created: a blob on which
  another client holds a lock keeps its content, and the lock is not taken away by the implicit locks of the commit.
\<close>

section \<open>What an entry of a commit can change\<close>

definition affects :: "BlobData \<Rightarrow> BlobLocation \<Rightarrow> bool" where
  "affects u l = (let loc = bd_location u in segment loc = segment l
     \<and> (cluster loc = SegmentDeleteId \<or> cluster loc = cluster l \<and> (blob loc = ClusterDeleteId \<or> blob loc = blob l)))"

lemma spec_cluster_update_frame:
  assumes "blob (bd_location u) \<noteq> b" "cv_blobs c b = Some x"
  shows "cv_blobs (spec_cluster_update k u (touch_cluster k (Some c))) b = Some x"
  using assms by (cases c) (auto simp: spec_cluster_update_def Let_def)

lemma spec_segment_update_frame:
  assumes "cluster (bd_location u) = i \<longrightarrow> blob (bd_location u) \<noteq> ClusterDeleteId \<and> blob (bd_location u) \<noteq> b"
    and "sv_clusters s i = Some c" "cv_blobs c b = Some x"
  shows "\<exists>c'. sv_clusters (spec_segment_update k u (touch_segment k (Some s))) i = Some c' \<and> cv_blobs c' b = Some x"
proof -
  have t: "sv_clusters (touch_segment k (Some s)) = sv_clusters s" by (cases s) simp
  show ?thesis
    using assms t spec_cluster_update_frame [of u b c x k] by (auto simp: spec_segment_update_def Let_def)
qed

lemma spec_update_frame:
  assumes "view_blob v l = Some x" "\<not> affects u l"
  shows "view_blob (spec_update u v) l = Some x"
proof -
  from assms(1) obtain s c where s: "dv_segments v (segment l) = Some s" "sv_clusters s (cluster l) = Some c" "cv_blobs c (blob l) = Some x"
    by (auto simp: view_blob_def bind_eq_Some_conv)
  show ?thesis
  proof (cases "segment (bd_location u) = segment l")
    case False
    with s show ?thesis by (auto simp: view_blob_def spec_update_def Let_def)
  next
    case True
    with assms(2) have "cluster (bd_location u) \<noteq> SegmentDeleteId"
      "cluster (bd_location u) = cluster l \<longrightarrow> blob (bd_location u) \<noteq> ClusterDeleteId \<and> blob (bd_location u) \<noteq> blob l"
      by (auto simp: affects_def Let_def)
    with True s spec_segment_update_frame [OF this(2) s(2,3), of "dv_commit v"] show ?thesis
      by (auto simp: view_blob_def spec_update_def Let_def)
  qed
qed

lemma commit_view_frame:
  assumes "view_blob v l = Some x" "\<forall>u \<in> set us. \<not> affects u l"
  shows "view_blob (commit_view us v) l = Some x"
proof -
  have "view_blob (next_view v) l = Some x" using assms(1) by (simp add: view_blob_def next_view_def)
  then have "view_blob (fold spec_update us w) l = Some x" if "view_blob w l = Some x" for w
    using assms(2) that by (induction us arbitrary: w) (auto intro: spec_update_frame)
  then show ?thesis using \<open>view_blob (next_view v) l = Some x\<close> by (simp add: commit_view_def)
qed

section \<open>The ids the server looks at\<close>

lemma store_okD:
  assumes "store_ok s"
  shows "heap_wf (ds_heap s)" "snap_wf (ds_heap s) (ds_snapshot s)"
    "ok_snapshot (ds_file s) (sn_commitId (ds_snapshot s)) (ds_heap s) (ds_snapshot s)"
  using assms by (auto simp: store_ok_def snapshot_ok_def Let_def)

lemma read_current [simp]: "read_snapshot s False = Some (ds_snapshot s)"
  by (simp add: read_snapshot_def)

lemma dom_children: "dom (children (map_of m) f) \<subseteq> set (map fst m)"
proof -
  have "dom (children (map_of m) f) \<subseteq> dom (map_of m)" by (auto simp: children_def bind_eq_Some_conv)
  then show ?thesis by (simp add: dom_map_of_conv_image_fst)
qed

lemma loaded_segment:
  assumes "store_ok s" "dv_segments (current_view s) g = Some sv"
  obtains a h where "Database_GetLoadedSegment g False s = Some (Some a, s\<lparr>ds_heap := h\<rparr>)"
    "sg_nextFreeClusterId (hp_segments h a) = sv_next sv" "dom (sv_clusters sv) \<subseteq> set (map fst (sg_clusters (hp_segments h a)))"
proof -
  note ok = store_okD [OF assms(1)]
  from Snapshot_GetLoadedSegment_read [OF ok, of g] obtain r h where r: "Snapshot_GetLoadedSegment (ds_file s) (ds_snapshot s) g (ds_heap s) = Some (r, h)"
    "r = map_of (sn_segments (ds_snapshot s)) g"
    and x: "\<And>a. r = Some a \<Longrightarrow> sg_status (hp_segments h a) = LOADED \<and> segment_at (ds_file s) h a = segment_at (ds_file s) (ds_heap s) a" by blast
  from assms(2) obtain a where a: "map_of (sn_segments (ds_snapshot s)) g = Some a" "segment_at (ds_file s) (ds_heap s) a = Some sv"
    by (auto simp: current_view_def snapshot_view_def children_def bind_eq_Some_conv)
  with r x have l: "sg_status (hp_segments h a) = LOADED" "segment_at (ds_file s) h a = Some sv" by auto
  then have sv: "sv_next sv = sg_nextFreeClusterId (hp_segments h a)"
    "sv_clusters sv = children (map_of (sg_clusters (hp_segments h a))) (cluster_at (ds_file s) h)"
    by (auto simp: segment_at_def Let_def)
  show thesis
  proof (rule that)
    show "Database_GetLoadedSegment g False s = Some (Some a, s\<lparr>ds_heap := h\<rparr>)"
      using r a by (simp add: Database_GetLoadedSegment_def)
    show "dom (sv_clusters sv) \<subseteq> set (map fst (sg_clusters (hp_segments h a)))" by (simp only: sv(2) dom_children)
  qed (use l sv in auto)
qed

lemma info_segment:
  assumes "store_ok s" "dv_segments (current_view s) g = Some sv"
  shows "info_nextFreeClusterId (db_info_of s) g = Some (sv_next sv)"
    and "\<exists>cs. view_segment (db_view_of s) g = Some cs \<and> dom (sv_clusters sv) \<subseteq> set cs"
proof -
  obtain a h where l: "Database_GetLoadedSegment g False s = Some (Some a, s\<lparr>ds_heap := h\<rparr>)"
    "sg_nextFreeClusterId (hp_segments h a) = sv_next sv" "dom (sv_clusters sv) \<subseteq> set (map fst (sg_clusters (hp_segments h a)))"
    by (rule loaded_segment [OF assms])
  then show "info_nextFreeClusterId (db_info_of s) g = Some (sv_next sv)" by (simp add: db_info_of_def)
  show "\<exists>cs. view_segment (db_view_of s) g = Some cs \<and> dom (sv_clusters sv) \<subseteq> set cs"
    using l(1,3) by (simp add: db_view_of_def)
qed

lemma info_cluster:
  assumes "store_ok s" "view_cluster_at (current_view s) g i = Some cv"
  shows "\<exists>bs. view_cluster (db_view_of s) g i = Some bs \<and> dom (cv_blobs cv) \<subseteq> set bs"
proof -
  note ok = store_okD [OF assms(1)]
  let ?f = "ds_file s"
  from Snapshot_GetLoadedSegment_read [OF ok, of g] obtain r h where r: "Snapshot_GetLoadedSegment ?f (ds_snapshot s) g (ds_heap s) = Some (r, h)"
    "r = map_of (sn_segments (ds_snapshot s)) g" and l: "loads ?f (sn_commitId (ds_snapshot s)) (ds_heap s) h"
    and x: "\<And>a. r = Some a \<Longrightarrow> sg_status (hp_segments h a) = LOADED \<and> ok_segment ?f (sn_commitId (ds_snapshot s)) h a
       \<and> segment_at ?f h a = segment_at ?f (ds_heap s) a" by blast
  from assms(2) obtain a sv where a: "map_of (sn_segments (ds_snapshot s)) g = Some a" "segment_at ?f (ds_heap s) a = Some sv"
    "sv_clusters sv i = Some cv"
    by (auto simp: view_cluster_at_def current_view_def snapshot_view_def children_def bind_eq_Some_conv)
  with r x have s: "sg_status (hp_segments h a) = LOADED" "ok_segment ?f (sn_commitId (ds_snapshot s)) h a" "segment_at ?f h a = Some sv" by auto
  from Segment_GetLoadedCluster_read [OF loads_wf [OF l ok(1)] s(1,2), of i] obtain q h2 where
    q: "Segment_GetLoadedCluster ?f a i h = Some (q, h2)" "q = map_of (sg_clusters (hp_segments h a)) i"
    and y: "\<And>b. q = Some b \<Longrightarrow> cl_status (hp_clusters h2 b) = LOADED \<and> cluster_at ?f h2 b = cluster_at ?f h b" by blast
  from s a obtain b where b: "q = Some b" "cluster_at ?f h b = Some cv"
    by (auto simp: segment_at_def children_def Let_def bind_eq_Some_conv q(2))
  with y have "cl_status (hp_clusters h2 b) = LOADED" "cluster_at ?f h2 b = Some cv" by auto
  then have "cv_blobs cv = children (map_of (cl_blobs (hp_clusters h2 b))) (blob_at ?f h2)" by (auto simp: cluster_at_def Let_def)
  then have "dom (cv_blobs cv) \<subseteq> set (map fst (cl_blobs (hp_clusters h2 b)))" by (simp only: dom_children)
  then show ?thesis using r(1) a(1) r(2) q(1) b(1) by (simp add: db_view_of_def Database_GetLoadedCluster_def Snapshot_GetLoadedCluster_def)
qed

section \<open>Created ranges contain nothing that exists\<close>

text \<open>Clusters that exist below the next free ids, and the blobs in them.\<close>

definition established :: "snap_view \<Rightarrow> segment_id \<Rightarrow> cluster_id \<Rightarrow> bool" where
  "established v g i = (case dv_segments v g of None \<Rightarrow> False
     | Some sg \<Rightarrow> sv_clusters sg i \<noteq> None \<and> g < dv_next v \<and> i < sv_next sg)"

definition existing_blob :: "snap_view \<Rightarrow> BlobLocation \<Rightarrow> bool" where
  "existing_blob v l = (established v (segment l) (cluster l) \<and> view_blob v l \<noteq> None \<and> blob l \<le> MaxBlobId)"

definition range_safe :: "snap_view \<Rightarrow> BlobLocationRange \<Rightarrow> bool" where
  "range_safe v r = ((\<forall>l. existing_blob v l \<longrightarrow> \<not> in_range r l)
     \<and> (IsCreatedCluster r \<longrightarrow> \<not> established v (segment (rg_begin r)) (cluster (rg_begin r)))
     \<and> (\<not> IsCreatedSegment r \<longrightarrow> \<not> IsCreatedCluster r \<longrightarrow>
          segment (rg_end r) = segment (rg_begin r) \<and> cluster (rg_end r) = cluster (rg_begin r)))"

abbreviation ranges_safe :: "snap_view \<Rightarrow> BlobLocationRange list \<Rightarrow> bool" where
  "ranges_safe v rs \<equiv> \<forall>r \<in> set rs. range_safe v r"

lemma word_between: "(a :: 'a::len word) \<le> x \<Longrightarrow> x < a + 1 \<Longrightarrow> x = a"
  using inc_le [of a x] by (metis leD order_le_imp_less_or_eq)

lemma in_cluster_range:
  assumes "in_range \<lparr>rg_begin = BlobLocation g i b, rg_end = BlobLocation g (i + 1) 0\<rparr> l"
  shows "segment l = g \<and> cluster l = i"
  using assms word_between [of i "cluster l"]
  by (cases l) (auto simp: in_range_def location_le_iff location_less_iff)

lemma in_segment_range:
  assumes "in_range \<lparr>rg_begin = BlobLocation g i b, rg_end = BlobLocation (g + 1) 0 0\<rparr> l"
  shows "segment l = g"
  using assms word_between [of g "segment l"]
  by (cases l) (auto simp: in_range_def location_le_iff location_less_iff)

lemma in_blob_range_eq: "in_range (Range_blob g i b) l \<Longrightarrow> l = BlobLocation g i b"
  using word_between [of b "blob l"]
  by (cases l) (auto simp: in_range_def Range_blob_def location_le_iff location_less_iff)

lemma range_safe_blob:
  assumes "\<not> existing_blob v (BlobLocation g i b)"
  shows "range_safe v (Range_blob g i b)"
proof -
  have "i \<noteq> i + 1" by simp
  then have "\<not> IsCreatedCluster (Range_blob g i b)" by (simp add: IsCreatedCluster_def Range_blob_def)
  moreover have "\<not> in_range (Range_blob g i b) l" if "existing_blob v l" for l
    using that assms in_blob_range_eq [of g i b l] by auto
  moreover have "segment (rg_end (Range_blob g i b)) = segment (rg_begin (Range_blob g i b))"
    "cluster (rg_end (Range_blob g i b)) = cluster (rg_begin (Range_blob g i b))" by (simp_all add: Range_blob_def)
  ultimately show ?thesis by (simp add: range_safe_def)
qed

lemma EnterNewCluster_safe:
  assumes "ranges_safe v rs" "\<not> established v g i"
  shows "ranges_safe v (EnterNewCluster g i rs)"
proof -
  have "range_safe v (Range_blob g i 0)" using assms(2) by (intro range_safe_blob) (simp add: existing_blob_def)
  moreover have "range_safe v \<lparr>rg_begin = BlobLocation g i (MaxBlobId + 1), rg_end = BlobLocation g (i + 1) 0\<rparr>"
    using assms(2) in_cluster_range by (auto simp: range_safe_def existing_blob_def IsCreatedCluster_def)
  ultimately show ?thesis using assms(1) by (auto simp: EnterNewCluster_def)
qed

lemma EnterNewSegment_safe:
  assumes "ranges_safe v rs" "\<forall>i. \<not> established v g i"
  shows "ranges_safe v (EnterNewSegment g rs)"
proof -
  have "range_safe v \<lparr>rg_begin = BlobLocation g (MaxClusterId + 1) 0, rg_end = BlobLocation (g + 1) 0 0\<rparr>"
    using assms(2) in_segment_range by (auto simp: range_safe_def existing_blob_def IsCreatedSegment_def)
  with EnterNewCluster_safe [OF assms(1), of g 0] assms(2) show ?thesis by (auto simp: EnterNewSegment_def)
qed

lemma enter_clusters_safe:
  "ranges_safe v rs \<Longrightarrow> \<forall>i \<ge> c. \<not> established v g i \<Longrightarrow> ranges_safe v (enter_clusters g c n rs)"
proof (induction g c n rs rule: enter_clusters.induct)
  case (1 g c n rs)
  show ?case
  proof (cases "c < n")
    case True
    then have "c \<le> c + 1" using less_less_successor [of c n] by simp
    then have "\<forall>i \<ge> c + 1. \<not> established v g i" using "1.prems"(2) by (meson order_trans)
    with 1 True EnterNewCluster_safe [of rs v g c] show ?thesis by (subst enter_clusters.simps) simp
  qed (use 1 in \<open>subst enter_clusters.simps, simp\<close>)
qed

lemma enter_segments_safe:
  "ranges_safe v rs \<Longrightarrow> \<forall>g \<ge> c. \<forall>i. \<not> established v g i \<Longrightarrow> ranges_safe v (enter_segments c n rs)"
proof (induction c n rs rule: enter_segments.induct)
  case (1 c n rs)
  show ?case
  proof (cases "c < n")
    case True
    then have "c \<le> c + 1" using less_less_successor [of c n] by simp
    then have "\<forall>g \<ge> c + 1. \<forall>i. \<not> established v g i" using "1.prems"(2) by (meson order_trans)
    with 1 True EnterNewSegment_safe [of rs v c] show ?thesis by (subst enter_segments.simps) simp
  qed (use 1 in \<open>subst enter_segments.simps, simp\<close>)
qed

lemma Ranges_Enter_safe:
  assumes "ranges_safe v rs" "\<not> existing_blob v (BlobLocation g i b)"
  shows "ranges_safe v (Ranges_Enter (Range_blob g i b) rs)"
proof (cases "rs \<noteq> [] \<and> rg_end (last rs) = rg_begin (Range_blob g i b)")
  case False
  with assms range_safe_blob show ?thesis by (auto simp: Ranges_Enter_def)
next
  case True
  let ?r = "last rs" and ?e = "BlobLocation g i (b + 1)"
  have r: "range_safe v ?r" "rg_end ?r = BlobLocation g i b" using True assms(1) by (auto simp: Range_blob_def)
  have "in_range ?r l \<or> l = BlobLocation g i b" if "in_range (?r\<lparr>rg_end := ?e\<rparr>) l" for l
    using that r(2) in_blob_range_eq [of g i b l] by (cases "BlobLocation g i b \<le> l") (auto simp: in_range_def Range_blob_def not_le)
  then have "range_safe v (?r\<lparr>rg_end := ?e\<rparr>)"
    using r assms(2) by (auto simp: range_safe_def IsCreatedCluster_def IsCreatedSegment_def)
  with True assms(1) show ?thesis by (auto simp: Ranges_Enter_def Range_blob_def dest: in_set_butlastD)
qed

lemma existing_blob_view:
  assumes "store_ok s" "existing_blob (current_view s) l"
  shows "\<exists>bs. view_cluster (db_view_of s) (segment l) (cluster l) = Some bs \<and> blob l \<in> set bs"
proof -
  from assms(2) obtain cv where "view_cluster_at (current_view s) (segment l) (cluster l) = Some cv" "blob l \<in> dom (cv_blobs cv)"
    by (auto simp: existing_blob_def view_blob_def view_cluster_at_def bind_eq_Some_conv)
  with info_cluster [OF assms(1)] show ?thesis by blast
qed

lemma TryCreateBlob_safe:
  assumes "TryCreateBlob l bc = (ok, bc')" "ranges_safe v (bc_ranges bc)" "\<not> existing_blob v l"
  shows "ranges_safe v (bc_ranges bc')"
proof -
  have "existing_blob v (BlobLocation (segment l) (cluster l) (blob l)) = existing_blob v l" by simp
  with Ranges_Enter_safe [OF assms(2), of "segment l" "cluster l" "blob l"] assms show ?thesis
    by (auto simp: TryCreateBlob_def split: option.splits if_splits)
qed

lemma owns_or_creates_safe:
  assumes ok: "store_ok s" and o: "owns_or_creates (db_view_of s) owns bc l = (b, bc')"
    and safe: "ranges_safe (current_view s) (bc_ranges bc)"
  shows "ranges_safe (current_view s) (bc_ranges bc')"
proof (cases "owns l \<or> Ranges_Encompasses (bc_ranges bc) l")
  case True
  with o safe show ?thesis by (auto simp: owns_or_creates_def EncompassesWithBlobCreation_def split: if_splits)
next
  case False
  show ?thesis
  proof (cases "EncompassesCreatedCluster (bc_ranges bc) (segment l) (cluster l)")
    case True
    then have "\<not> established (current_view s) (segment l) (cluster l)"
      using safe by (auto simp: EncompassesCreatedCluster_def list_ex_iff range_safe_def)
    then have "\<not> existing_blob (current_view s) l" by (simp add: existing_blob_def)
    from TryCreateBlob_safe [OF _ safe this] False True o show ?thesis
      by (simp add: owns_or_creates_def EncompassesWithBlobCreation_def)
  next
    case no: False
    show ?thesis
    proof (cases "existing_blob (current_view s) l")
      case True
      from existing_blob_view [OF ok this] False no o safe show ?thesis
        by (auto simp: owns_or_creates_def EncompassesWithBlobCreation_def)
    next
      case False
      from TryCreateBlob_safe [OF _ safe this] \<open>\<not> (owns l \<or> _)\<close> no o safe show ?thesis
        by (auto simp: owns_or_creates_def EncompassesWithBlobCreation_def split: option.splits if_splits)
    qed
  qed
qed

lemma all_locs_safe:
  "all_locs (owns_or_creates (db_view_of s) owns) ls bc = (b, bc') \<Longrightarrow> store_ok s
     \<Longrightarrow> ranges_safe (current_view s) (bc_ranges bc) \<Longrightarrow> ranges_safe (current_view s) (bc_ranges bc')"
proof (induction ls arbitrary: bc)
  case (Cons l ls)
  obtain c bc1 where 1: "owns_or_creates (db_view_of s) owns bc l = (c, bc1)" by fastforce
  from owns_or_creates_safe [OF Cons.prems(2) 1 Cons.prems(3)] Cons.IH [of bc1] Cons.prems 1 show ?case
    by (auto split: if_splits)
qed simp

lemma not_established_above:
  assumes "store_ok s"
    and "(case info_nextFreeClusterId (db_info_of s) g of Some n \<Rightarrow> Some n | None \<Rightarrow> d) = Some m"
  shows "\<forall>i \<ge> m. \<not> established (current_view s) g i"
proof (cases "dv_segments (current_view s) g")
  case (Some sv)
  with info_segment(1) [OF assms(1) Some] assms(2) have "m = sv_next sv" by simp
  with Some show ?thesis by (auto simp: established_def)
qed (simp add: established_def)

lemma check_entry_safe:
  assumes ok: "store_ok s" and c: "check_entry (db_info_of s) u bc = (code, bc')"
    and safe: "ranges_safe (current_view s) (bc_ranges bc)"
  shows "ranges_safe (current_view s) (bc_ranges bc')"
proof -
  let ?l = "bd_location u" and ?v = "current_view s" and ?db = "db_info_of s"
  have next_seg: "\<forall>g \<ge> info_nextFreeSegmentId ?db. \<forall>i. \<not> established ?v g i"
    by (auto simp: established_def db_info_of_def current_view_def snapshot_view_def split: option.splits)
  have seg: "ranges_safe ?v (bc_ranges bc')" if "check_next_segment ?db u bc = (code, bc')"
    using that safe enter_segments_safe [OF safe next_seg] by (auto simp: check_next_segment_def Let_def split: if_splits)
  have clu: "ranges_safe ?v (bc_ranges bc')" if "check_next_cluster ?db u bc = (code, bc')"
  proof (cases "case info_nextFreeClusterId ?db (segment ?l) of Some n \<Rightarrow> Some n
      | None \<Rightarrow> if Ranges_Encompasses (bc_ranges bc) ?l then Some 1 else None")
    case None
    with that safe show ?thesis by (auto simp: check_next_cluster_def Let_def split: if_splits)
  next
    case (Some n)
    from enter_clusters_safe [OF safe not_established_above [OF ok Some]] that safe Some show ?thesis
      by (auto simp: check_next_cluster_def Let_def split: if_splits)
  qed
  have blb: "bc_ranges bc' = bc_ranges bc" if "check_next_blob ?db u bc = (code, bc')"
    using that by (auto simp: check_next_blob_def NextFreeBlobIdCommitted_def Let_def split: if_splits option.splits)
  show ?thesis using c safe seg clu blb by (auto simp: check_entry_def Let_def split: if_splits)
qed

lemma validate_entry_safe:
  assumes "validate_entry (db_info_of s) owns u bc = Some (TC_SUCCESS, bc')" "store_ok s" "ranges_safe (current_view s) (bc_ranges bc)"
  shows "ranges_safe (current_view s) (bc_ranges bc')"
proof -
  have v: "info_view (db_info_of s) = db_view_of s" by (simp add: db_info_of_def)
  from assms(1) obtain bc1 where all: "AllLocksForLocation (db_view_of s) (EncompassesCreatedSegment (bc_ranges bc))
        (EncompassesCreatedCluster (bc_ranges bc)) (bd_location u) (owns_or_creates (db_view_of s) owns) bc = Some (True, bc1)"
    and c: "check_entry (db_info_of s) u bc1 = (TC_SUCCESS, bc')"
    by (auto simp: validate_entry_def v split: bind_splits if_splits)
  from AllLocksForLocation_visits_some [OF all] all_locs_safe assms(2,3) have "ranges_safe (current_view s) (bc_ranges bc1)" by blast
  with check_entry_safe [OF assms(2) c] show ?thesis by blast
qed

section \<open>Entries that change an existing blob need its lock\<close>

lemma all_clusters_visits_blobs:
  assumes "all_clusters db seg p cs s = Some (True, s')"
  shows "\<exists>ls. all_locs p ls s = (True, s')
     \<and> (\<forall>c \<in> set cs. \<exists>bs. view_cluster db seg c = Some bs \<and> (\<forall>b \<in> set bs. BlobLocation seg c b \<in> set ls))"
  using assms
proof (induction cs arbitrary: s)
  case Nil
  then show ?case by (intro exI [of _ "[]"]) simp
next
  case (Cons c cs)
  let ?special = "[BlobLocation seg c ClusterDeleteId, BlobLocation seg c NextFreeBlobId, BlobLocation seg c BlobListId]"
  from Cons.prems obtain blobs s1 where v: "view_cluster db seg c = Some blobs"
    and s1: "all_locs p (?special @ map (BlobLocation seg c) blobs) s = (True, s1)"
    and rest: "all_clusters db seg p cs s1 = Some (True, s')"
    by (auto simp del: all_locs.simps split: option.splits prod.splits bool.splits)
  from Cons.IH [OF rest] obtain ls where ls: "all_locs p ls s1 = (True, s')"
    "\<forall>c \<in> set cs. \<exists>bs. view_cluster db seg c = Some bs \<and> (\<forall>b \<in> set bs. BlobLocation seg c b \<in> set ls)" by blast
  have "all_locs p ((?special @ map (BlobLocation seg c) blobs) @ ls) s = (True, s')"
    using s1 ls(1) by (simp only: all_locs_append prod.case bool.case)
  then show ?case using v ls(2) by (intro exI [of _ "(?special @ map (BlobLocation seg c) blobs) @ ls"]) auto
qed

lemma AllLocks_visits_existing:
  assumes all: "AllLocksForLocation (db_view_of s) cs cc (bd_location u) p bc = Some (True, bc1)"
    and ok: "store_ok s" and l: "existing_blob (current_view s) l" and a: "affects u l" and c: "entry_checked db u"
  shows "\<exists>ls. all_locs p ls bc = (True, bc1) \<and> l \<in> set ls"
proof -
  let ?u = "bd_location u" and ?db = "db_view_of s"
  obtain bs where bs: "view_cluster ?db (segment l) (cluster l) = Some bs" "blob l \<in> set bs"
    using existing_blob_view [OF ok l] by blast
  have reg: "blob l \<noteq> ClusterDeleteId" "blob l \<noteq> NextFreeBlobId"
    using regular_blob_id_not_special [of "blob l"] l by (simp_all add: existing_blob_def)
  have eq: "BlobLocation (segment l) (cluster l) (blob l) = l" by simp
  have seg: "segment ?u = segment l" using a by (simp add: affects_def Let_def)
  consider "cluster ?u = SegmentDeleteId" "blob ?u = ClusterDeleteId"
    | "cluster ?u \<noteq> SegmentDeleteId" "cluster ?u = cluster l" "blob ?u = ClusterDeleteId"
    | "?u = l"
    using a c by (cases l; cases ?u) (auto simp: affects_def entry_checked_def Let_def)
  then show ?thesis
  proof cases
    case 1
    from l obtain sg where sg: "dv_segments (current_view s) (segment l) = Some sg" "cluster l \<in> dom (sv_clusters sg)"
      by (auto simp: existing_blob_def established_def split: option.splits)
    from info_segment(2) [OF ok sg(1)] sg(2) obtain ks where ks: "view_segment ?db (segment l) = Some ks" "cluster l \<in> set ks" by blast
    let ?hd = "[?u, BlobLocation (segment ?u) NextFreeClusterId NextFreeBlobId,
        BlobLocation (segment ?u) ClusterListId BlobListId, SegmentListLocation]"
    from all 1 ks(1) seg obtain s1 where h1: "all_locs p ?hd bc = (True, s1)"
      and h2: "all_clusters ?db (segment ?u) p ks s1 = Some (True, bc1)"
      by (auto simp: AllLocksForLocation_def Let_def simp del: all_locs.simps split: prod.splits bool.splits)
    from all_clusters_visits_blobs [OF h2] ks(2) obtain ls bs' where "all_locs p ls s1 = (True, bc1)"
      "view_cluster ?db (segment ?u) (cluster l) = Some bs'" "\<forall>b \<in> set bs'. BlobLocation (segment ?u) (cluster l) b \<in> set ls" by blast
    with h1 bs seg eq have "all_locs p (?hd @ ls) bc = (True, bc1)" "l \<in> set (?hd @ ls)"
      by (simp_all only: all_locs_append prod.case bool.case) auto
    then show ?thesis by blast
  next
    case 2
    with all bs seg show ?thesis
      by (intro exI [of _ "[?u, BlobLocation (segment ?u) (cluster ?u) NextFreeBlobId, BlobLocation (segment ?u) (cluster ?u) BlobListId,
          BlobLocation (segment ?u) ClusterListId BlobListId] @ map (BlobLocation (segment ?u) (cluster ?u)) bs"])
        (auto simp: AllLocksForLocation_def Let_def simp del: all_locs.simps intro!: image_eqI [of _ _ "blob l"])
  next
    case 3
    with all reg show ?thesis
      by (intro exI [of _ "[l]"]) (simp add: AllLocksForLocation_def Let_def del: all_locs.simps)
  qed
qed

lemma validate_entry_owns:
  assumes v: "validate_entry (db_info_of s) owns u bc = Some (TC_SUCCESS, bc')" and ok: "store_ok s"
    and safe: "ranges_safe (current_view s) (bc_ranges bc)" "ranges_wf (bc_ranges bc)"
    and l: "existing_blob (current_view s) l" "affects u l"
  shows "owns l"
proof -
  have w: "info_view (db_info_of s) = db_view_of s" by (simp add: db_info_of_def)
  from v obtain bc1 where all: "AllLocksForLocation (db_view_of s) (EncompassesCreatedSegment (bc_ranges bc))
        (EncompassesCreatedCluster (bc_ranges bc)) (bd_location u) (owns_or_creates (db_view_of s) owns) bc = Some (True, bc1)"
    and c: "check_entry (db_info_of s) u bc1 = (TC_SUCCESS, bc')"
    by (auto simp: validate_entry_def w split: bind_splits if_splits)
  from AllLocks_visits_existing [OF all ok l check_entry_success [OF c]] obtain ls where
    ls: "all_locs (owns_or_creates (db_view_of s) owns) ls bc = (True, bc1)" "l \<in> set ls" by blast
  have "owns l \<or> Ranges_Encompasses (bc_ranges bc1) l" using all_locs_covers [OF ls(1) safe(2)] ls(2) by blast
  moreover have "\<not> Ranges_Encompasses (bc_ranges bc1) l"
    using all_locs_safe [OF ls(1) ok safe(1)] l(1) by (auto simp: Ranges_Encompasses_def list_ex_iff range_safe_def)
  ultimately show ?thesis by blast
qed

lemma validate_entries_owns:
  assumes "validate_entries (db_info_of s) owns us bc = Some (TC_SUCCESS, bc')" "store_ok s"
    and "ranges_safe (current_view s) (bc_ranges bc)" "ranges_wf (bc_ranges bc)"
  shows "ranges_safe (current_view s) (bc_ranges bc') \<and> ranges_wf (bc_ranges bc')
    \<and> (\<forall>u \<in> set us. \<forall>l. existing_blob (current_view s) l \<longrightarrow> affects u l \<longrightarrow> owns l)"
  using assms
proof (induction us arbitrary: bc)
  case (Cons u us)
  from Cons.prems(1) obtain bc1 where 1: "validate_entry (db_info_of s) owns u bc = Some (TC_SUCCESS, bc1)"
    "validate_entries (db_info_of s) owns us bc1 = Some (TC_SUCCESS, bc')"
    by (auto simp: bind_eq_Some_conv split: if_splits)
  from Cons.IH [OF 1(2) Cons.prems(2) validate_entry_safe [OF 1(1) Cons.prems(2,3)] validate_entry_covers(2) [OF 1(1) Cons.prems(4)]]
    validate_entry_owns [OF 1(1) Cons.prems(2-4)] show ?case by auto
qed simp

lemma validate_messages_owns:
  assumes "validate_messages (db_info_of s) owns mvcc ms bc = Some (TC_SUCCESS, bc')" "store_ok s"
    and "ranges_safe (current_view s) (bc_ranges bc)" "ranges_wf (bc_ranges bc)"
  shows "ranges_safe (current_view s) (bc_ranges bc') \<and> ranges_wf (bc_ranges bc')
    \<and> (\<forall>u \<in> set (commit_entries ms). \<forall>l. existing_blob (current_view s) l \<longrightarrow> affects u l \<longrightarrow> owns l)"
  using assms
proof (induction ms arbitrary: bc)
  case (Cons m ms)
  from Cons.prems(1) obtain bc1 where 1: "validate_entries (db_info_of s) owns (tc_blobs m) bc = Some (TC_SUCCESS, bc1)"
    "validate_messages (db_info_of s) owns mvcc ms bc1 = Some (TC_SUCCESS, bc')"
    by (auto simp: bind_eq_Some_conv split: if_splits)
  from validate_entries_owns [OF 1(1) Cons.prems(2-4)] Cons.IH [OF 1(2) Cons.prems(2)] show ?case by auto
qed simp

section \<open>The locks of other clients\<close>

lemma blob_range_bounds: "l \<in> set (blob_range g i b e) \<Longrightarrow> b \<le> e \<Longrightarrow> segment l = g \<and> cluster l = i \<and> b \<le> blob l \<and> blob l < e"
proof (induction g i b e rule: blob_range.induct)
  case (1 g i b e)
  show ?case
  proof (cases "b = e")
    case False
    with 1 have lt: "b < e" by simp
    then have "b + 1 \<le> e" by (rule inc_le)
    moreover have "b \<le> b + 1" using less_less_successor [OF lt] by simp
    ultimately show ?thesis using 1 False lt by (auto simp: blob_range.simps [of g i b e])
  next
    case True
    with "1.prems"(1) show ?thesis by (subst (asm) blob_range.simps) simp
  qed
qed

lemma created_not_existing:
  assumes "range_safe v r" "rg_begin r \<le> rg_end r" "existing_blob v l"
  shows "l \<notin> set (created_locations r)"
proof
  assume l: "l \<in> set (created_locations r)"
  have reg: "blob l \<noteq> NextFreeBlobId" "blob l \<noteq> ClusterDeleteId" "blob l \<noteq> BlobListId"
    using regular_blob_id_not_special assms(3) by (auto simp: existing_blob_def)
  with l have n: "\<not> IsCreatedSegment r" "\<not> IsCreatedCluster r"
    and b: "l \<in> set (blob_range (segment (rg_begin r)) (cluster (rg_begin r)) (blob (rg_begin r)) (blob (rg_end r)))"
    by (auto simp: created_locations_def Let_def split: if_splits)
  with assms(1) have same: "segment (rg_end r) = segment (rg_begin r)" "cluster (rg_end r) = cluster (rg_begin r)"
    by (simp_all add: range_safe_def)
  have "blob (rg_begin r) \<le> blob (rg_end r)"
    using assms(2) same by (cases "rg_begin r"; cases "rg_end r") (simp add: location_le_iff)
  from blob_range_bounds [OF b this] same have "in_range r l"
    by (cases l; cases "rg_begin r"; cases "rg_end r") (auto simp: in_range_def location_le_iff location_less_iff)
  with assms(1,3) show False by (simp add: range_safe_def)
qed

lemma acquire_other_locations:
  "fold (Database_AcquireClientLock revoke i w) ls (L, cs) = (L', cs') \<Longrightarrow> l \<notin> set ls \<Longrightarrow> L' l = L l"
proof (induction ls arbitrary: L cs)
  case (Cons k ls)
  obtain M ds where m: "Database_AcquireClientLock revoke i w k (L, cs) = (M, ds)" by fastforce
  then have "M l = L l" using Cons.prems(2) by (auto simp: Database_AcquireClientLock_def split: option.splits prod.splits)
  with Cons m show ?case by simp
qed simp

text \<open>A blob on which another client holds a lock is not changed by a commit, and the lock stays.\<close>

lemma committed_respects_locks:
  assumes c: "committed srt i p db db'" and inv: "memory_inv n (db_store db)" "n < max_commits" and ok: "table_ok (db_locks db)"
    and j: "j \<noteq> i" "table_grants (db_locks db) j l w" and l: "existing_blob (current_view (db_store db)) l"
  shows "view_blob (current_view (db_store db')) l = view_blob (current_view (db_store db)) l \<and> table_grants (db_locks db') j l w"
proof -
  from c obtain ms created res k store L cs cs' where v: "valid_commit i db ms created"
    and r: "Database_CalculateCommitResult srt ms (db_store db) = Some res" "CommitResult_ApplyToDatabase res (db_store db) = Some (k, store)"
    and acq: "Database_AcquireImplicitWriteLocks (RevokeStickyLock p) i
         (implicit_locks (Database_ClientOwnsWriteLock (db_locks db) i) (bc_ranges created)) (db_locks db, cs) = (L, cs')"
    and db': "db' = db\<lparr>db_store := store, db_locks := L\<rparr>"
    by (rule committedE)
  have sok: "store_ok (db_store db)" using inv(1) by (simp add: memory_inv_def memory_ok_def)
  from validate_messages_owns [OF v [unfolded valid_commit_def] sok] have
    safe: "ranges_safe (current_view (db_store db)) (bc_ranges created)" "ranges_wf (bc_ranges created)"
    and owns: "\<And>u. u \<in> set (commit_entries ms) \<Longrightarrow> affects u l \<Longrightarrow> Database_ClientOwnsWriteLock (db_locks db) i l"
    using l by (auto simp: BlobCreationRanges_new_def ranges_wf_def)
  have "\<not> Database_ClientOwnsWriteLock (db_locks db) i l"
    using table_exclusive [OF ok _ j(2)] j(1) by (auto simp: owns_write_iff_grants)
  with owns have "\<forall>u \<in> set (commit_entries ms). \<not> affects u l" by blast
  moreover have "\<forall>u \<in> set (commit_entries ms). entry_wf u"
    using validate_messages_checked [OF v [unfolded valid_commit_def]] checked_wf by blast
  moreover obtain x where x: "view_blob (current_view (db_store db)) l = Some x" using l by (auto simp: existing_blob_def)
  ultimately have "view_blob (current_view store) l = Some x"
    using memory_inv_commit [OF inv _ r] commit_view_frame [OF x] by simp
  moreover have "L l = db_locks db l"
  proof -
    have "l \<notin> set (implicit_locks (Database_ClientOwnsWriteLock (db_locks db) i) (bc_ranges created))"
      using created_not_existing [OF _ _ l] safe by (auto simp: implicit_locks_def ranges_wf_def)
    from acquire_other_locations [OF acq [unfolded Database_AcquireImplicitWriteLocks_def] this] show ?thesis .
  qed
  ultimately show ?thesis using j(2) x by (simp add: db' table_grants_def)
qed

lemma commit_event_respects:
  assumes "commit_event srt i st st'" "st_databases st p = Some db"
    and "memory_inv n (db_store db)" "n < max_commits" "table_ok (db_locks db)" "j \<noteq> i"
  shows "\<exists>db'. st_databases st' p = Some db' \<and> store_view (db_store db') True = store_view (db_store db) True
    \<and> (\<forall>l w. table_grants (db_locks db) j l w \<longrightarrow> existing_blob (current_view (db_store db)) l \<longrightarrow>
         view_blob (current_view (db_store db')) l = view_blob (current_view (db_store db)) l \<and> table_grants (db_locks db') j l w)"
proof -
  from assms(1) obtain dbs cs where st': "st' = st\<lparr>st_databases := dbs, st_clients := cs\<rparr>"
    and d: "\<forall>p. dbs p = st_databases st p
      \<or> i \<in> users (st_clients st) p \<and> (\<exists>db db'. st_databases st p = Some db \<and> dbs p = Some db' \<and> committed srt i p db db')"
    unfolding commit_event_def by blast
  from spec [OF d, of p] assms(2) consider "dbs p = Some db" | db' where "dbs p = Some db'" "committed srt i p db db'" by auto
  then show ?thesis
  proof cases
    case 1
    with st' show ?thesis by simp
  next
    case 2
    with committed_respects_locks [OF 2(2) assms(3-5,6)] committed_memory [OF 2(2) assms(3,4)] st' show ?thesis
      by (auto elim: committed_memory [OF 2(2) assms(3,4)])
  qed
qed

end
