(* ===== verification/Server_Runs.thy ===== *)
theory Server_Runs
  imports Commit_Locks "HOL-Library.Code_Target_Nat"
begin

text \<open>
  Concrete runs of the server: sequences of messages and the states they lead to, evaluated. The witnesses of the
  properties of the server are states of these runs.
\<close>

section \<open>Messages\<close>

definition sample_env :: Env where
  "sample_env = \<lparr>env_resolvePath = (\<lambda>_. None), env_isSame = (\<lambda>a b. a = b),
     env_createFile = (\<lambda>_ _. (False, ERROR_OTHER, []))\<rparr>"

definition sample_sort :: "BlockReference list \<Rightarrow> BlockReference list" where
  "sample_sort rs = rs"

definition server_run :: "Message list \<Rightarrow> ServerState option" where
  "server_run ms = Server_ProcessMessages sample_env sample_sort ms (Server_new 0)"

definition msg_open :: "client_id \<Rightarrow> Message list" where
  "msg_open i = [Msg_ConnectionOpened i, Msg_DatabaseOpen \<lparr>do_clientId = i, do_databaseName = ''mem:a'',
     do_openMode = CreateIfNotExist, do_mvcc = False\<rparr>]"

definition msg_begin :: "client_id \<Rightarrow> TxnMode \<Rightarrow> Message" where
  "msg_begin i m = Msg_TransactionBegin \<lparr>tb_clientId = i, tb_transactionPriority = 0, tb_databases = [(0, m)]\<rparr>"

definition msg_read :: "client_id \<Rightarrow> LockMode \<Rightarrow> int \<Rightarrow> BlobLocation \<Rightarrow> Message" where
  "msg_read i m timeout l = Msg_BlobsRead \<lparr>br_clientId = i, br_databaseId = 0, br_lockMode = m,
     br_lockTimeoutMs = timeout, br_blobs = [\<lparr>ba_location = l, ba_cacheCommitId = 0\<rparr>]\<rparr>"

definition msg_commit :: "client_id \<Rightarrow> bool \<Rightarrow> (BlobLocation \<times> byte list) list \<Rightarrow> Message" where
  "msg_commit i follow es = Msg_TransactionCommit \<lparr>tc_clientId = i, tc_databaseId = 0, tc_hasFollowMessage = follow,
     tc_blobs = map (\<lambda>(l, bs). \<lparr>bd_location = l, bd_blobSize = of_nat (length bs), bd_data = bs\<rparr>) es\<rparr>"

section \<open>Reaching a state\<close>

lemma ProcessMessages_run:
  "server_run_of env srt d n st \<Longrightarrow> Server_ProcessMessages env srt ms st = Some st'
     \<Longrightarrow> server_run_of env srt d (n + length ms) st'"
proof (induction ms arbitrary: n st)
  case (Cons m ms)
  then obtain st1 where st1: "Server_ProcessMessage env srt m st = Some st1" "Server_ProcessMessages env srt ms st1 = Some st'"
    by (auto simp: bind_eq_Some_conv)
  from Cons.IH [OF run_next [OF Cons.prems(1) step_message [OF st1(1)]] st1(2)] show ?case by simp
qed simp

lemma server_run_of_run: "server_run ms = Some st \<Longrightarrow> server_run_of sample_env sample_sort 0 (length ms) st"
  unfolding server_run_def using ProcessMessages_run [OF run_start] by fastforce

lemma server_run_reachable: "server_run ms = Some st \<Longrightarrow> server_reachable sample_env sample_sort 0 st"
  by (rule run_reachable [OF server_run_of_run])

section \<open>Membership, evaluated\<close>

definition opened_by :: "clients \<Rightarrow> client_id \<Rightarrow> db_ptr \<Rightarrow> bool" where
  "opened_by cs i p = (case cs i of None \<Rightarrow> False | Some c \<Rightarrow> p \<in> set (open_ptrs (c_openDatabases c)))"

definition reads_snapshot :: "clients \<Rightarrow> client_id \<Rightarrow> db_ptr \<Rightarrow> bool" where
  "reads_snapshot cs i p = (case cs i of None \<Rightarrow> False
     | Some c \<Rightarrow> c_hasTransaction c \<and> p \<in> set (mvcc_ptrs (c_openDatabases c)))"

lemma in_users [simp]: "i \<in> users cs p \<longleftrightarrow> opened_by cs i p" "i \<in> mvcc_users cs p \<longleftrightarrow> reads_snapshot cs i p"
  by (auto simp: users_def mvcc_users_def opened_by_def reads_snapshot_def split: option.splits)

section \<open>Runs\<close>

abbreviation blob0 :: BlobLocation where
  "blob0 \<equiv> BlobLocation 0 0 0"

abbreviation next_segment :: BlobLocation where
  "next_segment \<equiv> BlobLocation NextFreeSegmentId NextFreeClusterId NextFreeBlobId"

text \<open>Client 1 holds a read lock of a blob, client 2 the lock that allows it to create segments; then client 2 commits.\<close>

definition two_writers :: "Message list" where
  "two_writers = concat [msg_open 1, msg_open 2, [msg_begin 1 Txn_Update, msg_read 1 LM_Read (- 1) blob0,
     msg_begin 2 Txn_Update, msg_read 2 LM_Write (- 1) next_segment]]"

definition commit_segment :: Message where
  "commit_segment = msg_commit 2 False [(next_segment, [1, 0, 0, 0])]"

fun two_writers_facts :: "ServerState \<Rightarrow> Database \<Rightarrow> bool" where
  "two_writers_facts st db = (opened_by (st_clients st) 1 0 \<and> opened_by (st_clients st) 2 0 \<and> \<not> db_fileDatabase db
     \<and> db_useCount db = 2 \<and> table_grants (db_locks db) 1 blob0 False \<and> Database_ClientOwnsWriteLock (db_locks db) 2 next_segment
     \<and> existing_blob (current_view (db_store db)) blob0 \<and> view_blob (current_view (db_store db)) blob0 = Some (BlobView 1 []))"

lemma two_writers_evaluated:
  "(case server_run two_writers of None \<Rightarrow> False
    | Some st \<Rightarrow> (case st_databases st 0 of None \<Rightarrow> False | Some db \<Rightarrow> two_writers_facts st db))"
  by code_simp

lemma commit_segment_evaluated:
  "(case server_run two_writers \<bind> Server_ProcessMessage sample_env sample_sort commit_segment of
      None \<Rightarrow> False | Some st' \<Rightarrow> active (st_clients st') 1)"
  by code_simp

lemma two_writers_run:
  obtains st st' db where "server_run two_writers = Some st" "Server_ProcessMessage sample_env sample_sort commit_segment st = Some st'"
    "st_databases st 0 = Some db" "two_writers_facts st db" "active (st_clients st') 1"
  using two_writers_evaluated commit_segment_evaluated by (auto split: option.splits simp del: two_writers_facts.simps)

text \<open>Client 1 reads a snapshot while client 2 overwrites the blob.\<close>

definition snapshot_reader :: "Message list" where
  "snapshot_reader = concat [msg_open 1, msg_open 2, [msg_begin 1 Txn_MVCC, msg_begin 2 Txn_Update,
     msg_read 2 LM_Write (- 1) blob0]]"

definition overwrite_blob :: Message where
  "overwrite_blob = msg_commit 2 False [(blob0, [7, 8])]"

fun snapshot_reader_facts :: "ServerState \<Rightarrow> Database \<Rightarrow> bool" where
  "snapshot_reader_facts st db = (reads_snapshot (st_clients st) 1 0 \<and> \<not> db_fileDatabase db \<and> ds_mvccUseCount (db_store db) = 1
     \<and> opened_by (st_clients st) 1 0 \<and> (case store_view (db_store db) True of None \<Rightarrow> False | Some v \<Rightarrow> view_blob v blob0 = Some (BlobView 1 [])))"

lemma snapshot_reader_evaluated:
  "(case server_run snapshot_reader of None \<Rightarrow> False
    | Some st \<Rightarrow> (case st_databases st 0 of None \<Rightarrow> False | Some db \<Rightarrow> snapshot_reader_facts st db))"
  by code_simp

lemma overwrite_blob_evaluated:
  "(case server_run snapshot_reader \<bind> Server_ProcessMessage sample_env sample_sort overwrite_blob of
      None \<Rightarrow> False | Some st' \<Rightarrow> active (st_clients st') 1)"
  by code_simp

lemma snapshot_reader_run:
  obtains st st' db where "server_run snapshot_reader = Some st" "Server_ProcessMessage sample_env sample_sort overwrite_blob st = Some st'"
    "st_databases st 0 = Some db" "snapshot_reader_facts st db" "active (st_clients st') 1"
  using snapshot_reader_evaluated overwrite_blob_evaluated by (auto split: option.splits simp del: snapshot_reader_facts.simps)

text \<open>Client 2 waits for a lock of client 1.\<close>

definition waiting_client :: "Message list" where
  "waiting_client = concat [msg_open 1, msg_open 2, [msg_begin 1 Txn_Update, msg_read 1 LM_Write (- 1) blob0,
     msg_begin 2 Txn_Update, msg_read 2 LM_Read (- 1) blob0]]"

lemma waiting_client_evaluated:
  "(case server_run waiting_client of None \<Rightarrow> False | Some st \<Rightarrow> (case st_databases st 0 of None \<Rightarrow> False
    | Some db \<Rightarrow> map (\<lambda>q. br_clientId (qm_message q)) (db_queuedReads db) = [2]))"
  by code_simp

lemma abort_evaluated:
  "(case server_run waiting_client \<bind> Server_ProcessMessage sample_env sample_sort (Msg_TransactionAbort 2) of
      None \<Rightarrow> False | Some st \<Rightarrow> (case st_databases st 0 of None \<Rightarrow> False | Some db \<Rightarrow> True))"
  by code_simp

end
