(* ===== verification/Server_Properties.thy ===== *)
theory Server_Properties
  imports Server_Runs
begin

text \<open>
  The properties of the server as a whole, in every state it can reach: locks, reference counts, MVCC
  snapshots and waiting requests; and what the message of one client can change for the others.
\<close>

section \<open>Invariants\<close>

text \<open>C10: in every reachable state a write lock excludes every other access: if a client owns the write lock of a
  location, no other client has a read or write lock on it, whatever was acquired, revoked, released or
  created by commits before.\<close>

theorem locks_exclusive:
  assumes "server_reachable env srt closeDelay st" "st_databases st p = Some db"
    and "Database_ClientOwnsWriteLock (db_locks db) i l" "j \<noteq> i"
  shows "\<not> table_grants (db_locks db) j l w"
proof -
  have "table_ok (db_locks db)" using reachable_inv [OF assms(1)] assms(2) by (simp add: server_inv_def database_ok_def)
  with table_exclusive assms(3,4) show ?thesis unfolding owns_write_iff_grants by blast
qed

theorem locks_exclusive_witness:
  "\<exists>st db. server_run two_writers = Some st \<and> st_databases st 0 = Some db
     \<and> Database_ClientOwnsWriteLock (db_locks db) 2 next_segment \<and> \<not> table_grants (db_locks db) 1 next_segment False"
proof (rule two_writers_run)
  fix st st' db assume r: "server_run two_writers = Some st" "st_databases st 0 = Some db" "two_writers_facts st db"
  then have o: "Database_ClientOwnsWriteLock (db_locks db) 2 next_segment" by simp
  show ?thesis using r(1,2) o locks_exclusive [OF server_run_reachable [OF r(1)] r(2) o, of 1] by auto
qed

text \<open>C13: in every reachable state the use count of an opened database is the number of clients that have it opened, and every
  database a client has opened exists: no client holds a reference to a database that was closed, and no database
  stays open without a client for lack of a release.\<close>

theorem reference_counts_exact:
  assumes "server_reachable env srt closeDelay st"
  shows "(\<forall>p db. st_databases st p = Some db \<longrightarrow> db_useCount db = int (card (users (st_clients st) p)))
    \<and> (\<forall>i c p. st_clients st i = Some c \<and> Client_HasDatabaseOpened c p \<longrightarrow> st_databases st p \<noteq> None)"
  using reachable_inv [OF assms] by (auto simp: server_inv_def database_ok_def client_ok_def HasDatabaseOpened_iff)

theorem reference_counts_exact_witness:
  "\<exists>st db. server_run two_writers = Some st \<and> st_databases st 0 = Some db \<and> db_useCount db = 2
     \<and> card (users (st_clients st) 0) = 2"
proof (rule two_writers_run)
  fix st st' db assume r: "server_run two_writers = Some st" "st_databases st 0 = Some db" "two_writers_facts st db"
  have "db_useCount db = int (card (users (st_clients st) 0))"
    using reference_counts_exact [OF server_run_reachable [OF r(1)]] r(2) by blast
  with r show ?thesis by auto
qed

text \<open>C14: the MVCC snapshot of a database exists exactly as long as some client inside a transaction reads it, and its use count
  is the number of these clients; in particular a client in MVCC mode never reads a snapshot that was dropped.\<close>

theorem mvcc_snapshot_while_used:
  assumes "server_reachable env srt closeDelay st" "st_databases st p = Some db"
  shows "ds_mvccUseCount (db_store db) = int (card (mvcc_users (st_clients st) p))
    \<and> (ds_mvccSnapshot (db_store db) = None \<longleftrightarrow> mvcc_users (st_clients st) p = {})"
  using reachable_inv [OF assms(1)] assms(2) by (auto simp: server_inv_def database_ok_def mvcc_ok_def)

theorem mvcc_snapshot_while_used_witness:
  "\<exists>st db. server_run snapshot_reader = Some st \<and> st_databases st 0 = Some db
     \<and> card (mvcc_users (st_clients st) 0) = 1 \<and> ds_mvccSnapshot (db_store db) \<noteq> None"
proof (rule snapshot_reader_run)
  fix st st' db assume r: "server_run snapshot_reader = Some st" "st_databases st 0 = Some db" "snapshot_reader_facts st db"
  note m = mvcc_snapshot_while_used [OF server_run_reachable [OF r(1)] r(2)]
  have "1 \<in> mvcc_users (st_clients st) 0" using r(3) by simp
  with m r show ?thesis by auto
qed

text \<open>C15: every request that waits for a lock belongs to a connected client that is inside a transaction and has the database
  opened, so that it can be answered when the lock becomes free.\<close>

theorem waiting_requests_belong_to_transactions:
  assumes "server_reachable env srt closeDelay st" "st_databases st p = Some db" "q \<in> set (db_queuedReads db)"
  shows "\<exists>c. st_clients st (br_clientId (qm_message q)) = Some c \<and> Client_IsInsideTransaction c
    \<and> Client_GetDatabase c (br_databaseId (qm_message q)) = Some p"
  using reachable_inv [OF assms(1)] assms(2,3)
  by (auto simp: server_inv_def database_ok_def queue_ok_def Client_IsInsideTransaction_def)

theorem waiting_requests_belong_to_transactions_witness:
  "\<exists>st c. server_run waiting_client = Some st \<and> st_clients st 2 = Some c \<and> Client_IsInsideTransaction c"
proof -
  obtain st db where r: "server_run waiting_client = Some st" "st_databases st 0 = Some db"
    "map (\<lambda>q. br_clientId (qm_message q)) (db_queuedReads db) = [2]"
    using waiting_client_evaluated by (auto split: option.splits)
  then obtain q where "q \<in> set (db_queuedReads db)" "br_clientId (qm_message q) = 2" by (cases "db_queuedReads db") auto
  with waiting_requests_belong_to_transactions [OF server_run_reachable [OF r(1)] r(2)] r(1) show ?thesis by fastforce
qed

text \<open>C11: every step of the server, the handling of a message, a due task or the passing of time, is a sequence of the abstract
  events (acquiring locks and reading, beginning and aborting transactions, opening and closing databases, queueing
  requests) with at most one atomic commit, and every state it reaches satisfies the invariant of the server.\<close>

theorem server_step_refines_events:
  assumes "server_reachable env srt closeDelay st" "server_step env srt st st'"
  shows "(\<exists>w. server_moves env srt w st st') \<and> server_inv st'"
  using server_step_moves [OF assms(2) reachable_inv [OF assms(1)]] reachable_inv [OF reachable_step [OF assms]] by blast

theorem server_step_refines_events_witness:
  "\<exists>st st'. server_run two_writers = Some st \<and> Server_ProcessMessage sample_env sample_sort commit_segment st = Some st'
     \<and> (\<exists>w. server_moves sample_env sample_sort w st st') \<and> server_inv st'"
proof (rule two_writers_run)
  fix st st' assume r: "server_run two_writers = Some st" "Server_ProcessMessage sample_env sample_sort commit_segment st = Some st'"
  from server_step_refines_events [OF server_run_reachable [OF r(1)] step_message [OF r(2)]] r show ?thesis by blast
qed

text \<open>C12: the content of a database in memory is always a version of its history: it developed from the initial content by commits of
  increasing id, the MVCC snapshot is one of its earlier versions, and its heap satisfies the invariant of the store, as
  long as the commit ids do not wrap around, which takes more than \<open>2 ^ 64 - 4\<close> steps of the server.\<close>

theorem memory_content_is_history:
  assumes "server_run_of env srt d n st" "n \<le> max_commits" "st_databases st p = Some db" "\<not> db_fileDatabase db"
  shows "store_ok (db_store db) \<and> later initial_view (current_view (db_store db))
    \<and> unat (sn_commitId (ds_snapshot (db_store db))) \<le> n + 1
    \<and> (\<forall>v. store_view (db_store db) True = Some v \<longrightarrow> later initial_view v \<and> later v (current_view (db_store db)))"
  using run_content [OF assms(1,2)] assms(3,4) by (simp add: content_inv_def memory_inv_def memory_ok_def)

theorem memory_content_is_history_witness:
  "\<exists>st db. server_run snapshot_reader = Some st \<and> st_databases st 0 = Some db \<and> later initial_view (current_view (db_store db))
     \<and> (\<exists>v. store_view (db_store db) True = Some v \<and> later v (current_view (db_store db)))"
proof (rule snapshot_reader_run)
  fix st st' db assume r: "server_run snapshot_reader = Some st" "st_databases st 0 = Some db" "snapshot_reader_facts st db"
  have len: "length snapshot_reader \<le> max_commits" by (simp add: snapshot_reader_def msg_open_def max_commits_def)
  from memory_content_is_history [OF server_run_of_run [OF r(1)] len r(2)] r show ?thesis by (auto split: option.splits)
qed

section \<open>The end of a transaction\<close>

lemma events_shape:
  assumes "server_events env w st st'" "server_inv st" "w \<noteq> Some j" "active (st_clients st') j"
  shows "map_option client_shape (st_clients st' j) = map_option client_shape (st_clients st j)"
  using assms(1,4)
proof (induction rule: rtranclp_induct)
  case (step b c)
  have "server_inv b" by (rule server_events_inv [OF step.hyps(1) assms(2)])
  note s = event_shape [OF step.hyps(2) this assms(3) step.prems]
  have "active (st_clients b) j" using step.prems shape_users(3) [of "st_clients c" j "st_clients b", OF s] by simp
  with step.IH s show ?case by simp
qed simp

lemma inactive_stays:
  assumes "server_events env None st st'" "server_inv st" "\<not> active (st_clients st) i"
  shows "\<not> active (st_clients st') i"
proof
  assume a: "active (st_clients st') i"
  from events_shape [OF assms(1,2) _ a] have "map_option client_shape (st_clients st' i) = map_option client_shape (st_clients st i)"
    by simp
  from shape_users(3) [of "st_clients st'" i "st_clients st", OF this] a assms(3) show False by simp
qed

text \<open>C16: after the abort of a transaction, also one that could not be committed, the client is outside every transaction: none of
  its requests waits any more, in any database, and no MVCC snapshot is kept for it.\<close>

theorem abort_ends_transaction:
  assumes "server_reachable env srt closeDelay st" "Server_AbortTransaction i rel st = Some st'"
  shows "\<not> active (st_clients st') i \<and> (\<forall>p. i \<notin> mvcc_users (st_clients st') p)
    \<and> (\<forall>p db. st_databases st' p = Some db \<longrightarrow> (\<forall>q \<in> set (db_queuedReads db). br_clientId (qm_message q) \<noteq> i))"
proof -
  have inv: "server_inv st" by (rule reachable_inv [OF assms(1)])
  from assms(2) obtain b st1 where a: "Client_AbortTransaction i rel st = Some (b, st1)"
    and r: "st' = st1 \<or> (\<exists>ns. process_databases i ns st1 = Some st')"
    by (auto simp: Server_AbortTransaction_def Server_ClientTransactionEnded_def bind_eq_Some_conv split: if_splits)
  have inv1: "server_inv st1" by (rule server_event_inv [OF ev_abort [OF a, of undefined None] inv])
  have "\<not> active (st_clients st1) i" using a by (auto simp: Client_AbortTransaction_def active_def bind_eq_Some_conv split: if_splits)
  with r inv1 have no: "\<not> active (st_clients st') i"
    using process_databases_events [of i _ st1 st' undefined None] inactive_stays [of undefined st1 st' i] by blast
  have "server_inv st'" using AbortTransaction_events [OF assms(2) inv] server_events_inv [OF _ inv] by blast
  with no show ?thesis
    by (fastforce simp: server_inv_def database_ok_def queue_ok_def active_def mvcc_users_def)
qed

theorem abort_ends_transaction_witness:
  "\<exists>st st' db. server_run waiting_client = Some st \<and> Server_AbortTransaction 2 False st = Some st'
     \<and> st_databases st' 0 = Some db \<and> 2 \<notin> (br_clientId \<circ> qm_message) ` set (db_queuedReads db)"
proof -
  obtain st st' db where r: "server_run waiting_client = Some st" "Server_AbortTransaction 2 False st = Some st'" "st_databases st' 0 = Some db"
    using abort_evaluated by (auto simp: Server_HandleTransactionAbort_def bind_eq_Some_conv split: option.splits)
  from abort_ends_transaction [OF server_run_reachable [OF r(1)] r(2)] r show ?thesis by fastforce
qed

section \<open>Isolation\<close>

text \<open>What the events of another client leave of the database \<open>p\<close> for client \<open>j\<close>.\<close>

definition reads_kept :: "client_id \<Rightarrow> db_ptr \<Rightarrow> ServerState \<Rightarrow> Database \<Rightarrow> Database \<Rightarrow> bool" where
  "reads_kept j p st db db' =
     ((j \<in> mvcc_users (st_clients st) p \<longrightarrow> store_view (db_store db') True = store_view (db_store db) True)
    \<and> (\<forall>l v. table_grants (db_locks db) j l v \<longrightarrow> existing_blob (current_view (db_store db)) l \<longrightarrow>
         view_blob (current_view (db_store db')) l = view_blob (current_view (db_store db)) l \<and> table_grants (db_locks db') j l v))"

lemma events_reads_kept:
  assumes e: "server_events env w a b" and inv: "server_inv a" and w: "w \<noteq> Some j" "active (st_clients b) j"
    and j: "j \<in> users (st_clients a) p" and d: "st_databases a p = Some d" "store_ok (db_store d)"
  obtains d' where "st_databases b p = Some d'" "reads_kept j p a d d'" "\<forall>l v. table_grants (db_locks d) j l v \<longrightarrow> table_grants (db_locks d') j l v"
    "current_view (db_store d') = current_view (db_store d)"
    "j \<in> users (st_clients b) p" "j \<in> mvcc_users (st_clients b) p \<longleftrightarrow> j \<in> mvcc_users (st_clients a) p" "active (st_clients a) j"
proof -
  from events_keep [OF e inv w j d(1)] obtain d' where
    sh: "map_option client_shape (st_clients b j) = map_option client_shape (st_clients a j)"
    and d': "st_databases b p = Some d'" "\<forall>l v. table_grants (db_locks d) j l v \<longrightarrow> table_grants (db_locks d') j l v"
      "store_changes (j \<in> mvcc_users (st_clients a) p) (db_store d) (db_store d')" by blast
  from store_changes_content [OF d'(3) d(2)] have c: "same_content (db_store d) (db_store d')"
    "j \<in> mvcc_users (st_clients a) p \<longrightarrow> store_view (db_store d') True = store_view (db_store d) True" by blast+
  note cv = same_content_current [OF c(1)]
  show thesis
    using that [OF d'(1) _ d'(2) cv] shape_users(1,2) [of "st_clients b" j "st_clients a" p, OF sh] shape_users(3) [of "st_clients b" j "st_clients a", OF sh] d'(2) c(2) j w(2) cv
    unfolding reads_kept_def by auto
qed

lemma step_keeps:
  assumes run: "server_run_of env srt d n st" "n < max_commits" and m: "Server_ProcessMessage env srt m st = Some st'"
    and j: "message_client m \<noteq> j" "active (st_clients st') j" "j \<in> users (st_clients st) p"
    and db: "st_databases st p = Some db" "\<not> db_fileDatabase db"
  shows "\<exists>db'. st_databases st' p = Some db' \<and> reads_kept j p st db db'"
proof -
  let ?i = "message_client m"
  have inv: "server_inv st" by (rule reachable_inv [OF run_reachable [OF run(1)]])
  have cont: "content_inv n st" using run_content [OF run(1)] run(2) by simp
  have w: "Some ?i \<noteq> Some j" using j(1) by simp
  have ok: "store_ok (db_store e)" if "memory_inv k (db_store e)" for k e using that by (simp add: memory_inv_def memory_ok_def)
  have mem: "memory_inv n (db_store db)" using cont db by (simp add: content_inv_def)
  from ProcessMessage_moves [OF m inv] show ?thesis unfolding server_moves_def
  proof (elim disjE exE conjE)
    assume e: "server_events env (Some ?i) st st'"
    show ?thesis by (rule events_reads_kept [OF e inv w j(2,3) db(1) ok [OF mem]]) blast
  next
    fix i st1 st2
    assume i: "Some ?i = Some i" and q: "quiet (Some ?i) st st1" and c: "commit_event srt i st1 st2"
      and e: "server_events env (Some ?i) st2 st'"
    have ij: "j \<noteq> i" using i j(1) by simp
    note eq = events_quiet [OF q]
    have inv1: "server_inv st1" "content_inv n st1" using events_content [OF eq inv cont] by blast+
    have inv2: "server_inv st2" by (rule commit_event_inv [OF c inv1(1)])
    have cont2: "content_inv (Suc n) st2" by (rule commit_content [OF c inv1(2) run(2)])
    from c have sh: "map_option client_shape (st_clients st2 j) = map_option client_shape (st_clients st1 j)"
      by (auto simp: commit_event_def same_clients_def)
    note u2 = shape_users(1,2) [of "st_clients st2" j "st_clients st1" p, OF sh] shape_users(3) [of "st_clients st2" j "st_clients st1", OF sh]
    have "active (st_clients st2) j"
      using j(2) shape_users(3) [of "st_clients st'" j "st_clients st2", OF events_shape [OF e inv2 w j(2)]] by simp
    then have act1: "active (st_clients st1) j" using u2 by simp
    obtain d1 where d1: "st_databases st1 p = Some d1" "reads_kept j p st db d1" "current_view (db_store d1) = current_view (db_store db)"
      and u1: "j \<in> users (st_clients st1) p" "j \<in> mvcc_users (st_clients st1) p \<longleftrightarrow> j \<in> mvcc_users (st_clients st) p"
      by (rule events_reads_kept [OF eq inv w act1 j(3) db(1) ok [OF mem]]) blast
    have "\<not> db_fileDatabase d1" using q db d1(1) by (auto simp: quiet_def quiet_db_def dest!: spec [of _ p])
    then have mem1: "memory_inv n (db_store d1)" using inv1(2) d1(1) by (simp add: content_inv_def)
    have "table_ok (db_locks d1)" using inv1(1) d1(1) by (simp add: server_inv_def database_ok_def)
    from commit_event_respects [OF c d1(1) mem1 run(2) this ij] obtain d2 where
      d2: "st_databases st2 p = Some d2" "reads_kept j p st1 d1 d2" by (auto simp: reads_kept_def)
    have "\<not> db_fileDatabase d2"
      using c d2(1) by (rule commit_event_database) (use d1(1) \<open>\<not> db_fileDatabase d1\<close> in \<open>auto elim: committedE\<close>)
    then have mem2: "memory_inv (Suc n) (db_store d2)" using cont2 d2(1) by (simp add: content_inv_def)
    obtain d3 where d3: "st_databases st' p = Some d3" "reads_kept j p st2 d2 d3"
      "\<forall>l v. table_grants (db_locks d2) j l v \<longrightarrow> table_grants (db_locks d3) j l v" "current_view (db_store d3) = current_view (db_store d2)"
      by (rule events_reads_kept [OF e inv2 w j(2) _ d2(1) ok [OF mem2]]) (use u2 u1 in auto)
    have "view_blob (current_view (db_store d3)) l = view_blob (current_view (db_store db)) l \<and> table_grants (db_locks d3) j l v"
      if l: "table_grants (db_locks db) j l v" "existing_blob (current_view (db_store db)) l" for l v
    proof -
      have "table_grants (db_locks d1) j l v" using d1(2) l unfolding reads_kept_def by blast
      with d2(2) l(2) have "view_blob (current_view (db_store d2)) l = view_blob (current_view (db_store db)) l"
        "table_grants (db_locks d2) j l v" by (simp_all add: reads_kept_def d1(3))
      with d3(3,4) show ?thesis by simp
    qed
    moreover have "store_view (db_store d3) True = store_view (db_store db) True" if "j \<in> mvcc_users (st_clients st) p"
      using that d1(2) d2(2) d3(2) u1(2) u2(2) unfolding reads_kept_def by metis
    ultimately have "reads_kept j p st db d3" unfolding reads_kept_def by blast
    with d3(1) show ?thesis by blast
  qed
qed

text \<open>C8: a client that holds a lock of an existing blob of a database in memory keeps both while it stays in its transaction: no message
  of another client, whatever it commits, deletes or acquires, changes the blob or takes the lock away.\<close>

theorem locked_blob_stable:
  assumes "server_run_of env srt d n st" "n < max_commits" and "Server_ProcessMessage env srt m st = Some st'"
    and "message_client m \<noteq> j" "active (st_clients st') j" "j \<in> users (st_clients st) p"
    and "st_databases st p = Some db" "\<not> db_fileDatabase db"
    and "table_grants (db_locks db) j l w" "existing_blob (current_view (db_store db)) l"
  shows "\<exists>db'. st_databases st' p = Some db' \<and> table_grants (db_locks db') j l w
    \<and> view_blob (current_view (db_store db')) l = view_blob (current_view (db_store db)) l"
  using step_keeps [OF assms(1-8)] assms(9,10) unfolding reads_kept_def by blast

theorem locked_blob_stable_witness:
  "\<exists>st st' db'. server_run two_writers = Some st \<and> Server_ProcessMessage sample_env sample_sort commit_segment st = Some st'
     \<and> st_databases st' 0 = Some db' \<and> table_grants (db_locks db') 1 blob0 False
     \<and> view_blob (current_view (db_store db')) blob0 = Some (BlobView 1 [])"
proof (rule two_writers_run)
  fix st st' db assume r: "server_run two_writers = Some st" "Server_ProcessMessage sample_env sample_sort commit_segment st = Some st'"
    "st_databases st 0 = Some db" "two_writers_facts st db" "active (st_clients st') 1"
  have len: "length two_writers < max_commits" by (simp add: two_writers_def msg_open_def max_commits_def)
  have other: "message_client commit_segment \<noteq> 1" by (simp add: commit_segment_def msg_commit_def)
  from locked_blob_stable [OF server_run_of_run [OF r(1)] len r(2) other r(5) _ r(3), of blob0 False] r
  show ?thesis by auto
qed



end
