(* ===== verification/Server_Findings.thy ===== *)
theory Server_Findings
  imports Server_Runs
begin

text \<open>
  Runs of the server in which it does not do what it means to: a client id that comes back, the same location
  created twice by one commit, the messages of an aborted commit, a lock timeout that runs early.
\<close>

section \<open>A client id that is used again\<close>

definition reconnect :: "Message list" where
  "reconnect = msg_open 1 @ [Msg_ConnectionClosed 1]"

lemma reconnect_evaluated:
  "(case server_run reconnect of None \<Rightarrow> False
    | Some st \<Rightarrow> (case Server_ProcessMessage sample_env sample_sort (Msg_ConnectionOpened 1) st of None \<Rightarrow> True | Some st' \<Rightarrow> False))"
  by code_simp

text \<open>Nothing ever removes a client, so that a connection with the id of a closed one, which the sockets number modulo
  \<open>2 ^ 16\<close>, makes the server fail its assertion.\<close>

theorem client_id_not_reusable:
  "\<exists>st. server_run reconnect = Some st \<and> Server_ProcessMessage sample_env sample_sort (Msg_ConnectionOpened 1) st = None"
  using reconnect_evaluated by (auto split: option.splits)

section \<open>The same location created twice\<close>

definition create_twice :: "Message list" where
  "create_twice = msg_open 1 @ [msg_begin 1 Txn_Update, msg_read 1 LM_Write (- 1) next_segment,
     msg_commit 1 False [(next_segment, [2, 0, 0, 0]), (next_segment, [2, 0, 0, 0])]]"

lemma create_twice_evaluated:
  "(case server_run create_twice of None \<Rightarrow> False
    | Some st \<Rightarrow> (case Server_ProcessMessage sample_env sample_sort (msg_begin 1 Txn_Update) st of None \<Rightarrow> True | Some st' \<Rightarrow> False))"
  by code_simp

text \<open>A commit with the same next free segment id twice is accepted, but the locks of the segment it creates are entered twice into
  the client's list, and the assertion fails when they are released at the beginning of the next transaction.\<close>

theorem locks_of_created_segment_twice:
  "\<exists>st. server_run create_twice = Some st \<and> Server_ProcessMessage sample_env sample_sort (msg_begin 1 Txn_Update) st = None"
  using create_twice_evaluated by (auto split: option.splits)

section \<open>The messages of an aborted commit\<close>

definition aborted_commit :: "Message list" where
  "aborted_commit = msg_open 1 @ [msg_begin 1 Txn_Update, msg_read 1 LM_Write (- 1) blob0,
     msg_commit 1 True [(blob0, [7, 8])], Msg_TransactionAbort 1,
     msg_begin 1 Txn_Update, msg_read 1 LM_Write (- 1) blob0, msg_commit 1 False []]"

text \<open>The messages of a commit that was aborted before its last message are committed with the next transaction, here with one
  that writes nothing.\<close>

theorem aborted_commit_survives:
  "(case server_run aborted_commit of None \<Rightarrow> False | Some st \<Rightarrow> (case st_databases st 0 of None \<Rightarrow> False
     | Some db \<Rightarrow> view_blob (current_view (db_store db)) blob0 = Some (BlobView 2 [7, 8])))"
  by code_simp

section \<open>A lock timeout that runs early\<close>

definition timed_request :: "Message list" where
  "timed_request = concat [msg_open 1, msg_open 2, [msg_begin 1 Txn_Update, msg_read 1 LM_Write (- 1) blob0,
     msg_begin 2 Txn_Update, msg_read 2 LM_Read 100 blob0]]"

definition half_ms_early :: "ServerState \<Rightarrow> ServerState" where
  "half_ms_early st = st\<lparr>st_now := 99500000\<rparr>"

text \<open>A lock timeout task that is due in less than a millisecond runs at once and finds the request not expired; no task is left
  then, and the request waits without a timeout.\<close>

theorem early_timeout_lost:
  "(case server_run timed_request \<bind> (\<lambda>st. run_next_task (half_ms_early st)) of None \<Rightarrow> False
    | Some st \<Rightarrow> st_tasks st = [] \<and> (case st_databases st 0 of None \<Rightarrow> False
     | Some db \<Rightarrow> map (\<lambda>q. (br_clientId (qm_message q), qm_lockTimeoutTime q)) (db_queuedReads db) = [(2, Some 100000000)]))"
  by code_simp

end
