(* ===== verification/Client_Transaction.thy ===== *)
theory Client_Transaction
  imports Messages "HOL-Library.Product_Lexorder" "HOL-Library.Monad_Syntax"
begin

text \<open>
  The state a client keeps of its transaction in one database: the locks it holds (ClientLib/HeldLocks.cpp) and
  what it has written, created and deleted (\<open>Transaction::State::DatabaseState\<close> of ClientLib/Transaction.cpp), up to
  the messages of the commit. The ordered containers of the standard library are sorted lists of pairs
  (\<open>std::map\<close>) and sets whose iteration is \<open>sorted_list_of_set\<close> (\<open>std::set\<close>).
\<close>

section \<open>Ordered containers\<close>

definition map_put :: "'k::linorder \<Rightarrow> 'v \<Rightarrow> ('k \<times> 'v) list \<Rightarrow> ('k \<times> 'v) list" where
  "map_put k v m = insort_key fst (k, v) (filter (\<lambda>e. fst e \<noteq> k) m)"

definition map_erase :: "'k \<Rightarrow> ('k \<times> 'v) list \<Rightarrow> ('k \<times> 'v) list" where
  "map_erase k m = filter (\<lambda>e. fst e \<noteq> k) m"

text \<open>Erasing and iterating from \<open>lower_bound(lo)\<close> to \<open>upper_bound(hi)\<close>.\<close>

definition in_interval :: "'k::linorder \<Rightarrow> 'k \<Rightarrow> 'k \<Rightarrow> bool" where
  "in_interval lo hi k = (lo \<le> k \<and> k \<le> hi)"

definition map_erase_range :: "'k::linorder \<Rightarrow> 'k \<Rightarrow> ('k \<times> 'v) list \<Rightarrow> ('k \<times> 'v) list" where
  "map_erase_range lo hi m = filter (\<lambda>e. \<not> in_interval lo hi (fst e)) m"

definition set_erase_range :: "'k::linorder \<Rightarrow> 'k \<Rightarrow> 'k set \<Rightarrow> 'k set" where
  "set_erase_range lo hi A = {k \<in> A. \<not> in_interval lo hi k}"

definition set_range :: "'k::linorder \<Rightarrow> 'k \<Rightarrow> 'k set \<Rightarrow> 'k list" where
  "set_range lo hi A = sorted_list_of_set {k \<in> A. in_interval lo hi k}"

definition map_sorted :: "('k::linorder \<times> 'v) list \<Rightarrow> bool" where
  "map_sorted m = sorted_wrt (<) (map fst m)"

lemma map_sorted_distinct: "map_sorted m \<Longrightarrow> distinct (map fst m)"
  by (simp add: map_sorted_def strict_sorted_iff)

lemma map_sorted_filter: "map_sorted m \<Longrightarrow> map_sorted (filter P m)"
  unfolding map_sorted_def by (induction m) auto

lemma map_fst_insort: "map fst (insort_key fst e m) = insort (fst e) (map fst m)"
  by (induction m) auto

lemma map_sorted_put: "map_sorted m \<Longrightarrow> map_sorted (map_put k v m)"
proof -
  assume m: "map_sorted m"
  have "k \<notin> set (map fst (filter (\<lambda>e. fst e \<noteq> k) m))" by auto
  with map_sorted_filter [OF m, of "\<lambda>e. fst e \<noteq> k"] show ?thesis
    unfolding map_put_def map_sorted_def map_fst_insort strict_sorted_iff by (simp add: sorted_insort distinct_insort)
qed

lemma map_sorted_erase: "map_sorted m \<Longrightarrow> map_sorted (map_erase k m)" "map_sorted m \<Longrightarrow> map_sorted (map_erase_range lo hi m)"
  by (simp_all add: map_erase_def map_erase_range_def map_sorted_filter)

lemma map_of_insort: "k \<notin> fst ` set m \<Longrightarrow> map_of (insort_key fst (k, v) m) = (map_of m)(k \<mapsto> v)"
  by (induction m) (auto simp: fun_eq_iff)

lemma map_of_put: "map_of (map_put k v m) = (map_of m)(k \<mapsto> v)"
proof -
  have "k \<notin> fst ` set (filter (\<lambda>e. fst e \<noteq> k) m)" by auto
  then have "map_of (map_put k v m) = (map_of (filter (\<lambda>e. fst e \<noteq> k) m))(k \<mapsto> v)"
    unfolding map_put_def by (rule map_of_insort)
  moreover have "map_of (filter (\<lambda>e. fst e \<noteq> k) m) x = map_of m x" if "x \<noteq> k" for x
    using that by (induction m) auto
  ultimately show ?thesis by (auto simp: fun_eq_iff)
qed

lemma map_of_filter_keys: "map_of (filter (\<lambda>e. P (fst e)) m) = (\<lambda>k. if P k then map_of m k else None)"
  by (induction m) (auto simp: fun_eq_iff)

lemma map_of_erase:
  "map_of (map_erase k m) = (map_of m)(k := None)"
  "map_of (map_erase_range lo hi m) = (\<lambda>k. if in_interval lo hi k then None else map_of m k)"
  using map_of_filter_keys [of "\<lambda>x. x \<noteq> k" m] map_of_filter_keys [of "\<lambda>x. \<not> in_interval lo hi x" m]
  by (auto simp: map_erase_def map_erase_range_def fun_eq_iff)

lemma set_erase_range_iff [simp]: "k \<in> set_erase_range lo hi A \<longleftrightarrow> k \<in> A \<and> \<not> in_interval lo hi k"
  by (simp add: set_erase_range_def)

lemma set_set_range: "finite A \<Longrightarrow> set (set_range lo hi A) = {k \<in> A. in_interval lo hi k}"
  by (simp add: set_range_def)

section \<open>Held locks\<close>

record HeldLocks =
  hl_read :: "BlobLocation set"
  hl_write :: "BlobLocation set"

definition HeldLocks_new :: HeldLocks where
  "HeldLocks_new = \<lparr>hl_read = {}, hl_write = {}\<rparr>"

fun keep_lock :: "HeldLocks \<Rightarrow> BlobLocation \<Rightarrow> HeldLocks \<Rightarrow> HeldLocks" where
  "keep_lock all l h =
     (if l \<in> hl_read all then h\<lparr>hl_read := insert l (hl_read h)\<rparr>
      else if l \<in> hl_write all then h\<lparr>hl_write := insert l (hl_write h)\<rparr>
      else h)"

fun drop_lock :: "BlobLocation \<Rightarrow> HeldLocks \<Rightarrow> HeldLocks" where
  "drop_lock l h = h\<lparr>hl_read := hl_read h - {l}, hl_write := hl_write h - {l}\<rparr>"

definition HeldLocks_UpdateLocks :: "bool \<Rightarrow> BlobLocation list \<Rightarrow> HeldLocks \<Rightarrow> HeldLocks" where
  "HeldLocks_UpdateLocks keep ls h =
     (if keep then fold (keep_lock h) ls HeldLocks_new else fold drop_lock ls h)"

definition HeldLocks_ReleaseLockRange :: "BlobLocation \<Rightarrow> BlobLocation \<Rightarrow> HeldLocks \<Rightarrow> HeldLocks" where
  "HeldLocks_ReleaseLockRange lo hi h =
     \<lparr>hl_read = set_erase_range lo hi (hl_read h), hl_write = set_erase_range lo hi (hl_write h)\<rparr>"

section \<open>The state of a transaction in a database\<close>

record DatabaseState =
  tx_heldLocks :: HeldLocks
  tx_writtenBlobs :: "(BlobLocation \<times> byte list) list"
  tx_deletedBlobs :: "BlobLocation set"
  tx_createdBlobs :: "BlobLocation set"
  tx_deletedClusters :: "(segment_id \<times> cluster_id) set"
  tx_createdClusters :: "(segment_id \<times> cluster_id) set"
  tx_deletedSegments :: "segment_id set"
  tx_createdSegments :: "segment_id set"

definition DatabaseState_new :: "HeldLocks option \<Rightarrow> DatabaseState" where
  "DatabaseState_new stickyLocks = \<lparr>tx_heldLocks = (case stickyLocks of None \<Rightarrow> HeldLocks_new | Some h \<Rightarrow> h),
     tx_writtenBlobs = [], tx_deletedBlobs = {}, tx_createdBlobs = {}, tx_deletedClusters = {}, tx_createdClusters = {},
     tx_deletedSegments = {}, tx_createdSegments = {}\<rparr>"

text \<open>The exceptions of include/blobs/Exception.hpp; \<open>EX_Exception\<close> stands for the plain \<open>Exception\<close> with a text.\<close>

datatype ClientException = EX_Exception | EX_BlobDeleted | EX_ClusterDeleted | EX_SegmentDeleted
  | EX_CannotWriteLockInMVCC | EX_BlobTooLarge | EX_BlobDoesNotExist | EX_ClusterDoesNotExist | EX_SegmentDoesNotExist
  | EX_BlobAlreadyExists | EX_LockTimeout | EX_Deadlock | EX_BlobLimitReached | EX_ClusterLimitReached | EX_SegmentLimitReached
  | EX_TransactionAlreadyOpen | EX_InternalCommitError | EX_DbCloseDuringTxn | EX_DbNotOpen | EX_DbAlreadyOpen
  | EX_TooManyDbsOpen | EX_DbDoesNotExist | EX_DbAlreadyExists | EX_OverwriteOpenedDatabase | EX_IllegalDatabasePath

definition EnsureSegmentNotDeleted :: "DatabaseState \<Rightarrow> segment_id \<Rightarrow> ClientException option" where
  "EnsureSegmentNotDeleted t s = (if s \<in> tx_deletedSegments t then Some EX_SegmentDeleted else None)"

definition EnsureClusterNotDeleted :: "DatabaseState \<Rightarrow> segment_id \<Rightarrow> cluster_id \<Rightarrow> ClientException option" where
  "EnsureClusterNotDeleted t s c =
     (case EnsureSegmentNotDeleted t s of
        Some e \<Rightarrow> Some e
      | None \<Rightarrow> if (s, c) \<in> tx_deletedClusters t then Some EX_ClusterDeleted else None)"

definition EnsureBlobNotDeleted :: "DatabaseState \<Rightarrow> BlobLocation \<Rightarrow> ClientException option" where
  "EnsureBlobNotDeleted t l =
     (case EnsureClusterNotDeleted t (segment l) (cluster l) of
        Some e \<Rightarrow> Some e
      | None \<Rightarrow> if l \<in> tx_deletedBlobs t then Some EX_BlobDeleted else None)"

definition IsSegmentDeleted :: "DatabaseState \<Rightarrow> segment_id \<Rightarrow> bool" where
  "IsSegmentDeleted t s = (s \<in> tx_deletedSegments t)"

definition IsClusterDeleted :: "DatabaseState \<Rightarrow> segment_id \<Rightarrow> cluster_id \<Rightarrow> bool" where
  "IsClusterDeleted t s c = (IsSegmentDeleted t s \<or> (s, c) \<in> tx_deletedClusters t)"

definition IsBlobDeleted :: "DatabaseState \<Rightarrow> BlobLocation \<Rightarrow> bool" where
  "IsBlobDeleted t l = (IsClusterDeleted t (segment l) (cluster l) \<or> l \<in> tx_deletedBlobs t)"

definition IsSegmentCreated :: "DatabaseState \<Rightarrow> segment_id \<Rightarrow> bool" where
  "IsSegmentCreated t s = (s \<in> tx_createdSegments t)"

definition IsClusterCreated :: "DatabaseState \<Rightarrow> segment_id \<Rightarrow> cluster_id \<Rightarrow> bool" where
  "IsClusterCreated t s c = ((s, c) \<in> tx_createdClusters t \<or> IsSegmentCreated t s)"

definition IsBlobCreated :: "DatabaseState \<Rightarrow> BlobLocation \<Rightarrow> bool" where
  "IsBlobCreated t l = (l \<in> tx_createdBlobs t \<or> IsClusterCreated t (segment l) (cluster l))"

section \<open>Operations\<close>

text \<open>Read, write and no lock; the delete mode only occurs in requests.\<close>

definition lock_type :: "HeldLocks \<Rightarrow> BlobLocation \<Rightarrow> LockMode" where
  "lock_type h l = (if l \<in> hl_write h then LM_Write else if l \<in> hl_read h then LM_Read else LM_None)"

definition acquired_lock :: "BlobLocation \<Rightarrow> LockMode \<Rightarrow> HeldLocks \<Rightarrow> HeldLocks" where
  "acquired_lock l m h =
     (if m = LM_Read then h\<lparr>hl_read := insert l (hl_read h)\<rparr>
      else if m = LM_Write then h\<lparr>hl_write := insert l (hl_write h)\<rparr>
      else h)"

definition tx_AcquiredLock :: "BlobLocation \<Rightarrow> LockMode \<Rightarrow> DatabaseState \<Rightarrow> DatabaseState" where
  "tx_AcquiredLock l m t = t\<lparr>tx_heldLocks := acquired_lock l m (tx_heldLocks t)\<rparr>"

definition tx_WriteBlob :: "BlobLocation \<Rightarrow> byte list \<Rightarrow> DatabaseState \<Rightarrow> DatabaseState" where
  "tx_WriteBlob l bs t = t\<lparr>tx_writtenBlobs := map_put l bs (tx_writtenBlobs t)\<rparr>"

text \<open>\<open>None\<close> is a failed assertion.\<close>

definition tx_CreateBlob :: "BlobLocation \<Rightarrow> DatabaseState \<Rightarrow> DatabaseState option" where
  "tx_CreateBlob l t =
     (if IsClusterDeleted t (segment l) (cluster l) then None
      else Some (if l \<in> tx_deletedBlobs t then t\<lparr>tx_deletedBlobs := tx_deletedBlobs t - {l}\<rparr>
                 else t\<lparr>tx_createdBlobs := insert l (tx_createdBlobs t)\<rparr>))"

definition tx_CreateCluster :: "segment_id \<Rightarrow> cluster_id \<Rightarrow> DatabaseState \<Rightarrow> DatabaseState option" where
  "tx_CreateCluster s c t =
     (if IsClusterDeleted t s c then None else Some (t\<lparr>tx_createdClusters := insert (s, c) (tx_createdClusters t)\<rparr>))"

definition tx_CreateSegment :: "segment_id \<Rightarrow> DatabaseState \<Rightarrow> DatabaseState option" where
  "tx_CreateSegment s t =
     (if IsSegmentDeleted t s then None else Some (t\<lparr>tx_createdSegments := insert s (tx_createdSegments t)\<rparr>))"

definition tx_DeleteBlob :: "BlobLocation \<Rightarrow> DatabaseState \<Rightarrow> ClientException + DatabaseState" where
  "tx_DeleteBlob l t =
     (case EnsureBlobNotDeleted t l of
        Some e \<Rightarrow> Inl e
      | None \<Rightarrow> Inr (t\<lparr>tx_writtenBlobs := map_erase l (tx_writtenBlobs t),
                       tx_createdBlobs := tx_createdBlobs t - {l},
                       tx_deletedBlobs := insert l (tx_deletedBlobs t)\<rparr>))"

definition cluster_first :: "segment_id \<Rightarrow> cluster_id \<Rightarrow> BlobLocation" where
  "cluster_first s c = BlobLocation s c 0"

definition cluster_last :: "segment_id \<Rightarrow> cluster_id \<Rightarrow> BlobLocation" where
  "cluster_last s c = BlobLocation s c (- 1)"

definition segment_first :: "segment_id \<Rightarrow> BlobLocation" where
  "segment_first s = BlobLocation s 0 0"

definition segment_last :: "segment_id \<Rightarrow> BlobLocation" where
  "segment_last s = BlobLocation s (- 1) (- 1)"

definition tx_DeleteCluster :: "segment_id \<Rightarrow> cluster_id \<Rightarrow> DatabaseState \<Rightarrow> ClientException + DatabaseState" where
  "tx_DeleteCluster s c t =
     (case EnsureClusterNotDeleted t s c of
        Some e \<Rightarrow> Inl e
      | None \<Rightarrow> let lo = cluster_first s c; hi = cluster_last s c in
          Inr (t\<lparr>tx_writtenBlobs := map_erase_range lo hi (tx_writtenBlobs t),
                 tx_createdBlobs := set_erase_range lo hi (tx_createdBlobs t),
                 tx_deletedBlobs := set_erase_range lo hi (tx_deletedBlobs t),
                 tx_createdClusters := tx_createdClusters t - {(s, c)},
                 tx_deletedClusters := insert (s, c) (tx_deletedClusters t)\<rparr>))"

definition tx_DeleteSegment :: "segment_id \<Rightarrow> DatabaseState \<Rightarrow> ClientException + DatabaseState" where
  "tx_DeleteSegment s t =
     (case EnsureSegmentNotDeleted t s of
        Some e \<Rightarrow> Inl e
      | None \<Rightarrow> let lo = segment_first s; hi = segment_last s in
          Inr (t\<lparr>tx_writtenBlobs := map_erase_range lo hi (tx_writtenBlobs t),
                 tx_createdBlobs := set_erase_range lo hi (tx_createdBlobs t),
                 tx_deletedBlobs := set_erase_range lo hi (tx_deletedBlobs t),
                 tx_createdClusters := set_erase_range (s, 0) (s, - 1) (tx_createdClusters t),
                 tx_deletedClusters := set_erase_range (s, 0) (s, - 1) (tx_deletedClusters t),
                 tx_createdSegments := tx_createdSegments t - {s},
                 tx_deletedSegments := insert s (tx_deletedSegments t)\<rparr>))"

definition tx_ReadBlob :: "DatabaseState \<Rightarrow> BlobLocation \<Rightarrow> ClientException + byte list option" where
  "tx_ReadBlob t l =
     (case EnsureBlobNotDeleted t l of Some e \<Rightarrow> Inl e | None \<Rightarrow> Inr (map_of (tx_writtenBlobs t) l))"

section \<open>Id lists\<close>

fun push_created :: "blob_id list \<Rightarrow> bool \<Rightarrow> blob_id list \<Rightarrow> bool \<times> blob_id list" where
  "push_created [] needsSort blobs = (needsSort, blobs)"
| "push_created (b # bs) needsSort blobs =
     push_created bs (needsSort \<or> blobs \<noteq> [] \<and> last blobs > b) (blobs @ [b])"

definition MergeBlobIdList :: "segment_id \<Rightarrow> cluster_id \<Rightarrow> DatabaseState \<Rightarrow> blob_id list \<Rightarrow> blob_id list option" where
  "MergeBlobIdList s c t blobs =
     (if IsClusterDeleted t s c then None
      else let kept = filter (\<lambda>b. BlobLocation s c b \<notin> tx_deletedBlobs t) blobs;
               created = map blob (set_range (cluster_first s c) (cluster_last s c) (tx_createdBlobs t));
               (needsSort, merged) = push_created created False kept
           in Some (if needsSort then sort merged else merged))"

definition MergeClusterIdList :: "segment_id \<Rightarrow> DatabaseState \<Rightarrow> cluster_id list \<Rightarrow> cluster_id list option" where
  "MergeClusterIdList s t clusters =
     (if IsSegmentDeleted t s then None
      else Some (filter (\<lambda>c. (s, c) \<notin> tx_deletedClusters t) clusters
                 @ map snd (set_range (s, 0) (s, - 1) (tx_createdClusters t))))"

definition MergeSegmentIdList :: "DatabaseState \<Rightarrow> segment_id list \<Rightarrow> segment_id list" where
  "MergeSegmentIdList t segments =
     filter (\<lambda>s. s \<notin> tx_deletedSegments t) segments @ sorted_list_of_set (tx_createdSegments t)"

section \<open>The writes of a commit\<close>

record BlobToSend =
  bts_location :: BlobLocation
  bts_data :: "byte list option"
  bts_blobSize :: blob_size

definition BlobToSend_DataSize :: "BlobToSend \<Rightarrow> nat" where
  "BlobToSend_DataSize w = (case bts_data w of None \<Rightarrow> 0 | Some bs \<Rightarrow> length bs)"

text \<open>The comparator of \<open>GetSortedWritesToTransmit\<close>: creations first.\<close>

definition write_before :: "BlobToSend \<Rightarrow> BlobToSend \<Rightarrow> bool" where
  "write_before a b = (let x = bts_location a; y = bts_location b in
     if segment x = NextFreeSegmentId then True
     else if segment y = NextFreeSegmentId then False
     else if segment x \<noteq> segment y then segment x < segment y
     else if cluster x = NextFreeClusterId then True
     else if cluster y = NextFreeClusterId then False
     else if cluster x \<noteq> cluster y then cluster x < cluster y
     else if blob x = NextFreeBlobId then True
     else if blob y = NextFreeBlobId then False
     else blob x < blob y)"

text \<open>\<open>std::stable_sort\<close>, as insertion from the right in front of the elements that are not before the new one.\<close>

fun insert_stable :: "('a \<Rightarrow> 'a \<Rightarrow> bool) \<Rightarrow> 'a \<Rightarrow> 'a list \<Rightarrow> 'a list" where
  "insert_stable isBefore x [] = [x]"
| "insert_stable isBefore x (y # ys) = (if isBefore y x then y # insert_stable isBefore x ys else x # y # ys)"

definition stable_sort_by :: "('a \<Rightarrow> 'a \<Rightarrow> bool) \<Rightarrow> 'a list \<Rightarrow> 'a list" where
  "stable_sort_by isBefore xs = foldr (insert_stable isBefore) xs []"

definition written_to_send :: "BlobLocation \<times> byte list \<Rightarrow> BlobToSend" where
  "written_to_send w = \<lparr>bts_location = fst w, bts_data = Some (snd w), bts_blobSize = of_nat (length (snd w))\<rparr>"

definition delete_blob_to_send :: "BlobLocation \<Rightarrow> BlobToSend" where
  "delete_blob_to_send l = \<lparr>bts_location = l, bts_data = None, bts_blobSize = DeleteBlobSize\<rparr>"

definition delete_cluster_to_send :: "segment_id \<times> cluster_id \<Rightarrow> BlobToSend" where
  "delete_cluster_to_send sc = \<lparr>bts_location = BlobLocation (fst sc) (snd sc) ClusterDeleteId, bts_data = None, bts_blobSize = 0\<rparr>"

definition delete_segment_to_send :: "segment_id \<Rightarrow> BlobToSend" where
  "delete_segment_to_send s = \<lparr>bts_location = BlobLocation s SegmentDeleteId ClusterDeleteId, bts_data = None, bts_blobSize = 0\<rparr>"

definition GetSortedWritesToTransmit :: "DatabaseState \<Rightarrow> BlobToSend list" where
  "GetSortedWritesToTransmit t =
     stable_sort_by write_before (map written_to_send (tx_writtenBlobs t))
     @ map delete_blob_to_send (sorted_list_of_set (tx_deletedBlobs t))
     @ map delete_cluster_to_send (sorted_list_of_set (tx_deletedClusters t))
     @ map delete_segment_to_send (sorted_list_of_set (tx_deletedSegments t))"

section \<open>The messages of a commit\<close>

text \<open>\<open>sizeof(TransactionCommit)\<close> and \<open>sizeof(BlobData)\<close> with the alignment of their fields.\<close>

definition TransactionCommit_CalculateMessageSize :: "nat \<Rightarrow> nat \<Rightarrow> message_size" where
  "TransactionCommit_CalculateMessageSize totalBlobsSize nBlobsCommitted =
     (if nBlobsCommitted > 65535 then 0
      else let totalMessageSize = 12 + nBlobsCommitted * 16 + totalBlobsSize in
        if totalMessageSize \<le> unat (- 1 :: message_size) then of_nat totalMessageSize else 0)"

definition TransactionCommit_IsValidMessageSize :: "nat \<Rightarrow> nat \<Rightarrow> bool" where
  "TransactionCommit_IsValidMessageSize totalBlobsSize nBlobsCommitted =
     (TransactionCommit_CalculateMessageSize totalBlobsSize nBlobsCommitted \<noteq> 0)"

fun take_message :: "nat \<Rightarrow> nat \<Rightarrow> BlobToSend list \<Rightarrow> BlobToSend list \<times> BlobToSend list" where
  "take_message totalBlobSize nBlobs [] = ([], [])"
| "take_message totalBlobSize nBlobs (w # ws) =
     (if TransactionCommit_IsValidMessageSize (totalBlobSize + BlobToSend_DataSize w) (nBlobs + 1)
      then case take_message (totalBlobSize + BlobToSend_DataSize w) (nBlobs + 1) ws of (xs, ys) \<Rightarrow> (w # xs, ys)
      else ([], w # ws))"

definition write_entry :: "BlobToSend \<Rightarrow> BlobData" where
  "write_entry w = \<lparr>bd_location = bts_location w, bd_blobSize = bts_blobSize w,
     bd_data = (case bts_data w of None \<Rightarrow> [] | Some bs \<Rightarrow> bs)\<rparr>"

text \<open>The client id of a message is filled in by the connection it arrives on.\<close>

definition commit_message :: "database_id \<Rightarrow> BlobToSend list \<Rightarrow> TransactionCommit" where
  "commit_message dbId ws = \<lparr>tc_clientId = 0, tc_databaseId = dbId, tc_hasFollowMessage = False, tc_blobs = map write_entry ws\<rparr>"

lemma take_message_split: "take_message n k ws = (xs, ys) \<Longrightarrow> ws = xs @ ys"
  by (induction ws arbitrary: n k xs) (auto split: if_splits prod.splits)

text \<open>\<open>None\<close>: the assertion that a message holds at least one blob fails.\<close>

function split_messages :: "database_id \<Rightarrow> BlobToSend list \<Rightarrow> TransactionCommit list option" where
  "split_messages dbId ws =
     (if ws = [] then Some []
      else let (xs, ys) = take_message 0 0 ws in
        if xs = [] then None else map_option (Cons (commit_message dbId xs)) (split_messages dbId ys))"
  by auto
termination
proof (relation "measure (length \<circ> snd)")
  fix dbId :: database_id and ws :: "BlobToSend list" and p xs ys
  assume "p = take_message 0 0 ws" "(xs, ys) = p" "xs \<noteq> []"
  with take_message_split [of 0 0 ws xs ys] show "((dbId, ys), dbId, ws) \<in> measure (length \<circ> snd)" by auto
qed simp

declare split_messages.simps [simp del]

definition DatabaseState_ConstructCommitMessages :: "database_id \<Rightarrow> DatabaseState \<Rightarrow> TransactionCommit list option" where
  "DatabaseState_ConstructCommitMessages dbId t = split_messages dbId (GetSortedWritesToTransmit t)"

fun construct_all :: "(database_id \<times> DatabaseState) list \<Rightarrow> TransactionCommit list option" where
  "construct_all [] = Some []"
| "construct_all ((dbId, t) # ts) = do {
     ms \<leftarrow> DatabaseState_ConstructCommitMessages dbId t;
     rest \<leftarrow> construct_all ts;
     Some (ms @ rest) }"

fun set_follow :: "TransactionCommit list \<Rightarrow> TransactionCommit list" where
  "set_follow [] = []"
| "set_follow (m # ms) = m\<lparr>tc_hasFollowMessage := (ms \<noteq> [])\<rparr> # set_follow ms"

definition State_ConstructCommitMessages ::
  "(database_id \<times> DatabaseState) list \<Rightarrow> database_id list \<Rightarrow> TransactionCommit list option" where
  "State_ConstructCommitMessages forDatabase openedDatabases = do {
     ms \<leftarrow> construct_all forDatabase;
     if ms \<noteq> [] then Some (set_follow ms)
     else case openedDatabases of [] \<Rightarrow> None | dbId # _ \<Rightarrow> Some [commit_message dbId []] }"

section \<open>After a commit\<close>

definition release_deleted_segment :: "segment_id \<Rightarrow> HeldLocks \<Rightarrow> HeldLocks" where
  "release_deleted_segment s = HeldLocks_ReleaseLockRange (segment_first s) (segment_last s)"

definition release_deleted_cluster :: "segment_id \<times> cluster_id \<Rightarrow> HeldLocks \<Rightarrow> HeldLocks" where
  "release_deleted_cluster sc = HeldLocks_ReleaseLockRange (cluster_first (fst sc) (snd sc)) (cluster_last (fst sc) (snd sc))"

definition release_deleted_blob :: "BlobLocation \<Rightarrow> HeldLocks \<Rightarrow> HeldLocks" where
  "release_deleted_blob l = HeldLocks_ReleaseLockRange l (BlobLocation (segment l) (cluster l) (blob l + 1))"

definition tx_ReleaseDeletedBlobLocks :: "DatabaseState \<Rightarrow> DatabaseState" where
  "tx_ReleaseDeletedBlobLocks t = t\<lparr>tx_heldLocks :=
     fold release_deleted_blob (sorted_list_of_set (tx_deletedBlobs t))
      (fold release_deleted_cluster (sorted_list_of_set (tx_deletedClusters t))
       (fold release_deleted_segment (sorted_list_of_set (tx_deletedSegments t)) (tx_heldLocks t)))\<rparr>"

text \<open>The id lists that a commit makes outdated and that are removed from the cache.\<close>

definition blob_list_of :: "BlobLocation \<Rightarrow> BlobLocation" where
  "blob_list_of l = BlobLocation (segment l) (cluster l) BlobListId"

definition cluster_list_of :: "segment_id \<Rightarrow> BlobLocation" where
  "cluster_list_of s = BlobLocation s ClusterListId BlobListId"

definition segment_list :: BlobLocation where
  "segment_list = BlobLocation SegmentListId ClusterListId BlobListId"

definition ModifiedIdLists :: "DatabaseState \<Rightarrow> BlobLocation set" where
  "ModifiedIdLists t = blob_list_of ` tx_createdBlobs t \<union> blob_list_of ` tx_deletedBlobs t
     \<union> (cluster_list_of \<circ> fst) ` tx_createdClusters t \<union> (cluster_list_of \<circ> fst) ` tx_deletedClusters t
     \<union> (if tx_deletedSegments t \<noteq> {} \<or> tx_createdSegments t \<noteq> {} then {segment_list} else {})"

end
