(* ===== verification/Client_Commit.thy ===== *)
theory Client_Commit
  imports Client_Transaction Cache_Properties
begin

text \<open>
  What the server makes of the writes a client transmits: the content of every blob after the commit is what the
  client read in its transaction. The effect of an entry on one blob of the content is followed as a cell.
\<close>

section \<open>A single blob under the entries of a commit\<close>

text \<open>Whether its segment and its cluster exist, and its data.\<close>

record cell =
  ce_segment :: bool
  ce_cluster :: bool
  ce_data :: "byte list option"

definition view_data :: "snap_view \<Rightarrow> BlobLocation \<Rightarrow> byte list option" where
  "view_data v l = map_option bv_data (view_blob v l)"

definition view_cell :: "BlobLocation \<Rightarrow> snap_view \<Rightarrow> cell" where
  "view_cell l v = \<lparr>ce_segment = (dv_segments v (segment l) \<noteq> None),
     ce_cluster = (view_cluster_at v (segment l) (cluster l) \<noteq> None), ce_data = view_data v l\<rparr>"

definition touch_segment_cell :: "BlobLocation \<Rightarrow> cell \<Rightarrow> cell" where
  "touch_segment_cell l x = (if ce_segment x then x
     else \<lparr>ce_segment = True, ce_cluster = (cluster l = 0), ce_data = (if cluster l = 0 \<and> blob l = 0 then Some [] else None)\<rparr>)"

definition touch_cluster_cell :: "BlobLocation \<Rightarrow> cell \<Rightarrow> cell" where
  "touch_cluster_cell l x = (if ce_cluster x then x
     else x\<lparr>ce_cluster := True, ce_data := (if blob l = 0 then Some [] else None)\<rparr>)"

definition cell_update :: "BlobLocation \<Rightarrow> BlobData \<Rightarrow> cell \<Rightarrow> cell" where
  "cell_update l u x = (let k = bd_location u in
     if segment k = NextFreeSegmentId \<or> segment k \<noteq> segment l then x
     else if cluster k = SegmentDeleteId then \<lparr>ce_segment = False, ce_cluster = False, ce_data = None\<rparr>
     else let x = touch_segment_cell l x in
       if cluster k = NextFreeClusterId \<or> cluster k \<noteq> cluster l then x
       else if blob k = ClusterDeleteId then x\<lparr>ce_cluster := False, ce_data := None\<rparr>
       else let x = touch_cluster_cell l x in
         if blob k = NextFreeBlobId \<or> blob k \<noteq> blob l then x
         else x\<lparr>ce_data := (if bd_blobSize u = DeleteBlobSize then None else Some (bd_data u))\<rparr>)"

lemma view_data_cases:
  "view_data v l = (case dv_segments v (segment l) of None \<Rightarrow> None
     | Some s \<Rightarrow> (case sv_clusters s (cluster l) of None \<Rightarrow> None
       | Some c \<Rightarrow> map_option bv_data (cv_blobs c (blob l))))"
  by (simp add: view_data_def view_blob_def split: option.splits)

lemma touch_segment_Some: "touch_segment k (Some s) = SegmentView k (sv_next s) (sv_clusters s)"
  by (cases s) simp

lemma touch_cluster_Some: "touch_cluster k (Some c) = ClusterView k (cv_next c) (cv_blobs c)"
  by (cases c) simp

lemma view_cell_update:
  assumes "segment l \<noteq> NextFreeSegmentId" "cluster l \<noteq> NextFreeClusterId" "blob l \<noteq> NextFreeBlobId"
  shows "view_cell l (spec_update u v) = cell_update l u (view_cell l v)"
proof (cases "segment (bd_location u) = segment l")
  case False
  then show ?thesis
    by (auto simp: view_cell_def cell_update_def spec_update_def Let_def view_cluster_at_def view_data_cases)
next
  case seg: True
  show ?thesis
  proof (cases "cluster (bd_location u) = SegmentDeleteId")
    case True
    then show ?thesis using seg assms
      by (simp add: view_cell_def cell_update_def spec_update_def Let_def view_cluster_at_def view_data_cases)
  next
    case nd: False
    show ?thesis
    proof (cases "dv_segments v (segment l)")
      case None
      then show ?thesis using seg nd assms
        by (auto simp: view_cell_def cell_update_def spec_update_def spec_segment_update_def spec_cluster_update_def Let_def
            view_cluster_at_def view_data_cases touch_segment_cell_def touch_cluster_cell_def)
    next
      case (Some s)
      then show ?thesis using seg nd assms
        by (cases "sv_clusters s (cluster l)")
          (auto simp: view_cell_def cell_update_def spec_update_def spec_segment_update_def spec_cluster_update_def Let_def
            view_cluster_at_def view_data_cases touch_segment_cell_def touch_cluster_cell_def touch_segment_Some touch_cluster_Some)
    qed
  qed
qed

text \<open>Entries that neither write nor delete the blob, nor create it on the way.\<close>

definition cell_wf :: "cell \<Rightarrow> bool" where
  "cell_wf x = ((ce_data x \<noteq> None \<longrightarrow> ce_cluster x) \<and> (ce_cluster x \<longrightarrow> ce_segment x))"

definition touches_segment :: "BlobLocation \<Rightarrow> BlobData \<Rightarrow> bool" where
  "touches_segment l u = (let k = bd_location u in
     segment k \<noteq> NextFreeSegmentId \<and> segment k = segment l \<and> cluster k \<noteq> SegmentDeleteId)"

definition touches_cluster :: "BlobLocation \<Rightarrow> BlobData \<Rightarrow> bool" where
  "touches_cluster l u = (let k = bd_location u in
     touches_segment l u \<and> cluster k \<noteq> NextFreeClusterId \<and> cluster k = cluster l)"

definition harmless :: "BlobLocation \<Rightarrow> BlobData \<Rightarrow> bool" where
  "harmless l u = (let k = bd_location u in
     (segment k = segment l \<longrightarrow> cluster k \<noteq> SegmentDeleteId)
   \<and> (segment k = segment l \<and> cluster k = cluster l \<longrightarrow> blob k \<noteq> ClusterDeleteId \<and> blob k \<noteq> blob l))"

definition covered_cell :: "BlobLocation \<Rightarrow> BlobData list \<Rightarrow> cell \<Rightarrow> bool" where
  "covered_cell l us x = (blob l \<noteq> 0
     \<or> (list_ex (touches_segment l) us \<longrightarrow> ce_segment x \<or> cluster l \<noteq> 0) \<and> (list_ex (touches_cluster l) us \<longrightarrow> ce_cluster x))"

lemma harmless_step:
  assumes "cell_wf x" "harmless l u" "covered_cell l [u] x"
  shows "ce_data (cell_update l u x) = ce_data x" "cell_wf (cell_update l u x)"
    and "ce_segment x \<Longrightarrow> ce_segment (cell_update l u x)" "ce_cluster x \<Longrightarrow> ce_cluster (cell_update l u x)"
  using assms
  by (auto simp: cell_update_def cell_wf_def harmless_def covered_cell_def touches_segment_def touches_cluster_def Let_def
      touch_segment_cell_def touch_cluster_cell_def)

lemma harmless_fold:
  "cell_wf x \<Longrightarrow> \<forall>u \<in> set us. harmless l u \<Longrightarrow> covered_cell l us x \<Longrightarrow> ce_data (fold (cell_update l) us x) = ce_data x"
proof (induction us arbitrary: x)
  case (Cons u us)
  have u: "harmless l u" "covered_cell l [u] x" using Cons.prems by (auto simp: covered_cell_def)
  note s = harmless_step [OF Cons.prems(1) u]
  have "covered_cell l us (cell_update l u x)" using Cons.prems(3) s(3,4) by (auto simp: covered_cell_def)
  with Cons.IH [OF s(2) _ this] Cons.prems(2) s(1) show ?case by simp
qed simp

lemma decided_fold:
  assumes "\<And>y. cell_update l u y = z" "cell_wf z" "\<forall>u \<in> set vs. harmless l u" "covered_cell l vs z"
  shows "ce_data (fold (cell_update l) (us @ u # vs) x) = ce_data z"
  using harmless_fold [OF assms(2-4)] assms(1) by simp

lemma fold_view_cell:
  assumes "segment l \<noteq> NextFreeSegmentId" "cluster l \<noteq> NextFreeClusterId" "blob l \<noteq> NextFreeBlobId"
  shows "view_cell l (fold spec_update us v) = fold (cell_update l) us (view_cell l v)"
  using view_cell_update [OF assms] by (induction us arbitrary: v) auto

lemma view_cell_wf [simp]: "cell_wf (view_cell l v)"
  by (auto simp: cell_wf_def view_cell_def view_data_cases view_cluster_at_def split: option.splits)

section \<open>Sorting\<close>

lemma mset_insert_stable: "mset (insert_stable before x ys) = add_mset x (mset ys)"
  by (induction ys) auto

lemma mset_stable_sort: "mset (stable_sort_by before xs) = mset xs"
  by (induction xs) (auto simp: stable_sort_by_def mset_insert_stable)

lemma set_stable_sort [simp]: "set (stable_sort_by before xs) = set xs"
  by (rule mset_eq_setD [OF mset_stable_sort])

lemma distinct_stable_sort: "distinct xs \<Longrightarrow> distinct (stable_sort_by before xs)"
  using mset_eq_imp_distinct_iff [OF mset_stable_sort] by blast

text \<open>On writes to different locations the comparator is a linear order.\<close>

definition creation_order :: "BlobLocation \<Rightarrow> bool \<times> segment_id \<times> bool \<times> cluster_id \<times> bool \<times> blob_id" where
  "creation_order l = (segment l \<noteq> NextFreeSegmentId, segment l, cluster l \<noteq> NextFreeClusterId, cluster l,
     blob l \<noteq> NextFreeBlobId, blob l)"

definition special_alone :: "BlobLocation \<Rightarrow> bool" where
  "special_alone l = ((segment l = NextFreeSegmentId \<longrightarrow> cluster l = NextFreeClusterId \<and> blob l = NextFreeBlobId)
     \<and> (cluster l = NextFreeClusterId \<longrightarrow> blob l = NextFreeBlobId))"

lemma write_before_order:
  assumes "special_alone (bts_location a)" "special_alone (bts_location b)" "bts_location a \<noteq> bts_location b"
  shows "write_before a b \<longleftrightarrow> creation_order (bts_location a) < creation_order (bts_location b)"
  using assms
  by (cases "bts_location a"; cases "bts_location b")
    (auto simp: write_before_def creation_order_def special_alone_def less_prod_def' Let_def)

lemma sorted_insert_stable:
  assumes "sorted_wrt (\<lambda>a b. key a < key b) ys" "\<forall>y \<in> set ys. (before y x \<longleftrightarrow> key y < key x) \<and> key y \<noteq> (key x :: 'k::linorder)"
  shows "sorted_wrt (\<lambda>a b. key a < key b) (insert_stable before x ys)"
  using assms
proof (induction ys)
  case (Cons y ys)
  have set: "set (insert_stable before x ys) = insert x (set ys)" by (metis mset_insert_stable set_mset_add_mset_insert set_mset_mset)
  from Cons show ?case by (auto simp: set dest: order.strict_trans not_less_iff_gr_or_eq [THEN iffD1])
qed simp

lemma sorted_stable_sort:
  assumes "\<And>x y. x \<in> set xs \<Longrightarrow> y \<in> set xs \<Longrightarrow> x \<noteq> y \<Longrightarrow> (before x y \<longleftrightarrow> key x < key y) \<and> key x \<noteq> (key y :: 'k::linorder)" "distinct xs"
  shows "sorted_wrt (\<lambda>a b. key a < key b) (stable_sort_by before xs)"
  using assms
proof (induction xs)
  case (Cons x xs)
  have "sorted_wrt (\<lambda>a b. key a < key b) (stable_sort_by before xs)" using Cons by simp
  moreover have "stable_sort_by before (x # xs) = insert_stable before x (stable_sort_by before xs)" by (simp add: stable_sort_by_def)
  moreover have "\<forall>y \<in> set (stable_sort_by before xs). (before y x \<longleftrightarrow> key y < key x) \<and> key y \<noteq> key x"
  proof
    fix y assume "y \<in> set (stable_sort_by before xs)"
    with Cons.prems(2) have "y \<in> set xs" "y \<noteq> x" by auto
    then show "(before y x \<longleftrightarrow> key y < key x) \<and> key y \<noteq> key x" using Cons.prems(1) [of y x] by simp
  qed
  ultimately show ?case using sorted_insert_stable [of key "stable_sort_by before xs" before x] by simp
qed (simp add: stable_sort_by_def)

section \<open>Consistent transactions\<close>

definition write_location :: "BlobLocation \<Rightarrow> bool" where
  "write_location l = (special_alone l
     \<and> (segment l \<le> MaxSegmentId \<or> segment l = NextFreeSegmentId)
     \<and> (cluster l \<le> MaxClusterId \<or> cluster l = NextFreeClusterId)
     \<and> (blob l \<le> MaxBlobId \<or> blob l = NextFreeBlobId))"

definition ordinary_location :: "BlobLocation \<Rightarrow> bool" where
  "ordinary_location l = (segment l \<le> MaxSegmentId \<and> cluster l \<le> MaxClusterId \<and> blob l \<le> MaxBlobId)"

text \<open>Everything written, created or deleted is in a place that is not deleted as a whole, and nothing is written and deleted.\<close>

definition tx_written_ok :: "DatabaseState \<Rightarrow> bool" where
  "tx_written_ok t = (map_sorted (tx_writtenBlobs t)
     \<and> (\<forall>l bs. (l, bs) \<in> set (tx_writtenBlobs t) \<longrightarrow> write_location l \<and> length bs \<le> unat MaxBlobSize \<and> \<not> IsBlobDeleted t l))"

definition tx_finite :: "DatabaseState \<Rightarrow> bool" where
  "tx_finite t = (finite (tx_deletedBlobs t) \<and> finite (tx_createdBlobs t) \<and> finite (tx_deletedClusters t)
     \<and> finite (tx_createdClusters t) \<and> finite (tx_deletedSegments t) \<and> finite (tx_createdSegments t))"

definition tx_blobs_ok :: "DatabaseState \<Rightarrow> bool" where
  "tx_blobs_ok t = ((\<forall>l. l \<in> tx_deletedBlobs t \<longrightarrow> ordinary_location l \<and> \<not> IsClusterDeleted t (segment l) (cluster l))
     \<and> (\<forall>l. l \<in> tx_createdBlobs t \<longrightarrow> ordinary_location l \<and> \<not> IsBlobDeleted t l))"

definition tx_clusters_ok :: "DatabaseState \<Rightarrow> bool" where
  "tx_clusters_ok t = ((\<forall>s c. (s, c) \<in> tx_deletedClusters t \<longrightarrow> s \<le> MaxSegmentId \<and> c \<le> MaxClusterId \<and> \<not> IsSegmentDeleted t s)
     \<and> (\<forall>s c. (s, c) \<in> tx_createdClusters t \<longrightarrow> s \<le> MaxSegmentId \<and> c \<le> MaxClusterId \<and> \<not> IsClusterDeleted t s c))"

definition tx_segments_ok :: "DatabaseState \<Rightarrow> bool" where
  "tx_segments_ok t = ((\<forall>s. s \<in> tx_deletedSegments t \<longrightarrow> s \<le> MaxSegmentId)
     \<and> (\<forall>s. s \<in> tx_createdSegments t \<longrightarrow> s \<le> MaxSegmentId \<and> \<not> IsSegmentDeleted t s))"

definition tx_ok :: "DatabaseState \<Rightarrow> bool" where
  "tx_ok t = (tx_written_ok t \<and> tx_finite t \<and> tx_blobs_ok t \<and> tx_clusters_ok t \<and> tx_segments_ok t)"

lemmas tx_defs = tx_ok_def tx_written_ok_def tx_finite_def tx_blobs_ok_def tx_clusters_ok_def tx_segments_ok_def IsBlobDeleted_def IsClusterDeleted_def IsSegmentDeleted_def

lemma tx_ok_new: "tx_ok (DatabaseState_new h)"
  by (simp add: tx_defs DatabaseState_new_def map_sorted_def)

lemma tx_ok_lock: "tx_ok t \<Longrightarrow> tx_ok (tx_AcquiredLock l m t)"
  by (simp add: tx_AcquiredLock_def tx_defs)

lemma set_map_put: "set (map_put k v m) = insert (k, v) {e \<in> set m. fst e \<noteq> k}"
  by (simp add: map_put_def set_insort_key)

lemma set_map_erase: "set (map_erase k m) = {e \<in> set m. fst e \<noteq> k}"
  "set (map_erase_range lo hi m) = {e \<in> set m. \<not> in_interval lo hi (fst e)}"
  by (auto simp: map_erase_def map_erase_range_def)

lemma finite_erase_range: "finite A \<Longrightarrow> finite (set_erase_range lo hi A)"
  by (simp add: set_erase_range_def)

lemma word_extremes: "(0 < (x :: 'a::len word) \<or> 0 = x)" "x < - 1 \<or> x = - 1"
  using word_gt_0 [of x] word_n1_ge [of x] by (auto simp: order.strict_iff_order)

lemma in_cluster_interval: "in_interval (cluster_first s c) (cluster_last s c) l \<longleftrightarrow> segment l = s \<and> cluster l = c"
  by (cases l) (auto simp: in_interval_def cluster_first_def cluster_last_def location_le_iff)

lemma in_segment_interval: "in_interval (segment_first s) (segment_last s) l \<longleftrightarrow> segment l = s"
  by (cases l) (use word_extremes in \<open>auto simp: in_interval_def segment_first_def segment_last_def location_le_iff\<close>)

lemma in_pair_interval: "in_interval (s, 0 :: 'a::len word) (s, - 1) p \<longleftrightarrow> fst p = (s :: 'b::linorder)"
  by (cases p) (auto simp: in_interval_def less_eq_prod_def)

lemmas interval_simps = in_cluster_interval in_segment_interval in_pair_interval

lemma Ensure_iff:
  "EnsureSegmentNotDeleted t s = None \<longleftrightarrow> \<not> IsSegmentDeleted t s"
  "EnsureClusterNotDeleted t s c = None \<longleftrightarrow> \<not> IsClusterDeleted t s c"
  "EnsureBlobNotDeleted t l = None \<longleftrightarrow> \<not> IsBlobDeleted t l"
  by (auto simp: EnsureSegmentNotDeleted_def EnsureClusterNotDeleted_def EnsureBlobNotDeleted_def IsBlobDeleted_def
      IsClusterDeleted_def IsSegmentDeleted_def split: option.splits)

lemma tx_ok_write:
  assumes "tx_ok t" "write_location l" "length bs \<le> unat MaxBlobSize" "EnsureBlobNotDeleted t l = None"
  shows "tx_ok (tx_WriteBlob l bs t)"
  using assms by (auto simp: Ensure_iff tx_WriteBlob_def tx_defs set_map_put map_sorted_put)

lemma tx_ok_create_blob:
  assumes "tx_CreateBlob l t = Some t'" "tx_ok t" "ordinary_location l"
  shows "tx_ok t'"
  using assms unfolding tx_ok_def by (intro conjI; auto simp: tx_CreateBlob_def tx_defs split: if_splits)

lemma tx_ok_create_cluster:
  assumes "tx_CreateCluster s c t = Some t'" "tx_ok t" "s \<le> MaxSegmentId" "c \<le> MaxClusterId"
  shows "tx_ok t'"
  using assms unfolding tx_ok_def by (intro conjI; auto simp: tx_CreateCluster_def tx_defs split: if_splits)

lemma tx_ok_create_segment:
  assumes "tx_CreateSegment s t = Some t'" "tx_ok t" "s \<le> MaxSegmentId"
  shows "tx_ok t'"
  using assms unfolding tx_ok_def by (intro conjI; auto simp: tx_CreateSegment_def tx_defs split: if_splits)

lemma tx_ok_delete_blob:
  assumes "tx_DeleteBlob l t = Inr t'" "tx_ok t" "ordinary_location l"
  shows "tx_ok t'"
proof -
  from assms(1) have n: "\<not> IsBlobDeleted t l" and t': "t' = t\<lparr>tx_writtenBlobs := map_erase l (tx_writtenBlobs t),
       tx_createdBlobs := tx_createdBlobs t - {l}, tx_deletedBlobs := insert l (tx_deletedBlobs t)\<rparr>"
    by (auto simp: tx_DeleteBlob_def Ensure_iff split: option.splits)
  show ?thesis using n assms(2,3) unfolding t' tx_ok_def by (intro conjI; auto simp: tx_defs set_map_erase map_sorted_erase)
qed

lemma tx_ok_delete_cluster:
  assumes "tx_DeleteCluster s c t = Inr t'" "tx_ok t" "s \<le> MaxSegmentId" "c \<le> MaxClusterId"
  shows "tx_ok t'"
proof -
  let ?lo = "cluster_first s c" and ?hi = "cluster_last s c"
  from assms(1) have n: "\<not> IsClusterDeleted t s c" and t': "t' = t\<lparr>tx_writtenBlobs := map_erase_range ?lo ?hi (tx_writtenBlobs t),
       tx_createdBlobs := set_erase_range ?lo ?hi (tx_createdBlobs t), tx_deletedBlobs := set_erase_range ?lo ?hi (tx_deletedBlobs t),
       tx_createdClusters := tx_createdClusters t - {(s, c)}, tx_deletedClusters := insert (s, c) (tx_deletedClusters t)\<rparr>"
    by (auto simp: tx_DeleteCluster_def Ensure_iff Let_def split: option.splits)
  show ?thesis
    using n assms(2-4) unfolding t' tx_ok_def
    by (intro conjI; auto simp: tx_defs set_map_erase map_sorted_erase finite_erase_range interval_simps)
qed

lemma tx_ok_delete_segment:
  assumes "tx_DeleteSegment s t = Inr t'" "tx_ok t" "s \<le> MaxSegmentId"
  shows "tx_ok t'"
proof -
  let ?lo = "segment_first s" and ?hi = "segment_last s"
  from assms(1) have n: "\<not> IsSegmentDeleted t s" and t': "t' = t\<lparr>tx_writtenBlobs := map_erase_range ?lo ?hi (tx_writtenBlobs t),
       tx_createdBlobs := set_erase_range ?lo ?hi (tx_createdBlobs t), tx_deletedBlobs := set_erase_range ?lo ?hi (tx_deletedBlobs t),
       tx_createdClusters := set_erase_range (s, 0) (s, - 1) (tx_createdClusters t),
       tx_deletedClusters := set_erase_range (s, 0) (s, - 1) (tx_deletedClusters t),
       tx_createdSegments := tx_createdSegments t - {s}, tx_deletedSegments := insert s (tx_deletedSegments t)\<rparr>"
    by (auto simp: tx_DeleteSegment_def Ensure_iff Let_def split: option.splits)
  show ?thesis
    using n assms(2,3) unfolding t' tx_ok_def
    by (intro conjI; auto simp: tx_defs set_map_erase map_sorted_erase finite_erase_range interval_simps)
qed

section \<open>The entries of a commit\<close>

lemma split_messages_entries:
  "split_messages dbId ws = Some ms \<Longrightarrow> concat (map tc_blobs ms) = map write_entry ws"
proof (induction dbId ws arbitrary: ms rule: split_messages.induct)
  case (1 dbId ws)
  obtain xs ys where t: "take_message 0 0 ws = (xs, ys)" by fastforce
  show ?case
  proof (cases "ws = []")
    case False
    with 1(2) t obtain rest where "xs \<noteq> []" "split_messages dbId ys = Some rest" "ms = commit_message dbId xs # rest"
      by (subst (asm) split_messages.simps) (auto split: if_splits)
    with 1(1) [OF False t [symmetric]] take_message_split [OF t] show ?thesis by (simp add: commit_message_def)
  qed (use 1(2) in \<open>simp add: split_messages.simps\<close>)
qed

definition transmitted :: "DatabaseState \<Rightarrow> BlobData list" where
  "transmitted t = map write_entry (GetSortedWritesToTransmit t)"

text \<open>Segments and clusters that the server would create with an empty blob 0 because of an entry.\<close>

definition handled :: "DatabaseState \<Rightarrow> BlobLocation \<Rightarrow> bool" where
  "handled t l = (IsBlobDeleted t l \<or> l \<in> fst ` set (tx_writtenBlobs t))"

definition tx_complete :: "snap_view \<Rightarrow> DatabaseState \<Rightarrow> bool" where
  "tx_complete v t = (
     (\<forall>k \<in> fst ` set (tx_writtenBlobs t) \<union> tx_deletedBlobs t. segment k \<noteq> NextFreeSegmentId \<longrightarrow>
        (dv_segments v (segment k) = None \<longrightarrow> handled t (BlobLocation (segment k) 0 0))
      \<and> (cluster k \<noteq> NextFreeClusterId \<longrightarrow> view_cluster_at v (segment k) (cluster k) = None
           \<longrightarrow> handled t (BlobLocation (segment k) (cluster k) 0)))
   \<and> (\<forall>p \<in> tx_deletedClusters t. dv_segments v (fst p) = None \<longrightarrow> handled t (BlobLocation (fst p) 0 0)))"

lemma regular_ids:
  "b \<le> MaxBlobId \<Longrightarrow> b \<noteq> NextFreeBlobId" "b \<le> MaxBlobId \<Longrightarrow> b \<noteq> ClusterDeleteId"
  "c \<le> MaxClusterId \<Longrightarrow> c \<noteq> NextFreeClusterId" "c \<le> MaxClusterId \<Longrightarrow> c \<noteq> SegmentDeleteId"
  "s \<le> MaxSegmentId \<Longrightarrow> s \<noteq> NextFreeSegmentId"
  using regular_blob_id_not_special regular_cluster_id_not_special regular_segment_id_not_special by blast+

lemma write_location_ids:
  "write_location l \<Longrightarrow> cluster l \<noteq> SegmentDeleteId \<and> blob l \<noteq> ClusterDeleteId"
  using regular_ids by (auto simp: write_location_def special_alone_def)

definition written_entry :: "BlobLocation \<times> byte list \<Rightarrow> BlobData" where
  "written_entry w = write_entry (written_to_send w)"

lemma bd_to_send [simp]:
  "bd_location (written_entry w) = fst w" "bd_data (written_entry w) = snd w" "bd_blobSize (written_entry w) = of_nat (length (snd w))"
  "bd_location (write_entry (delete_blob_to_send l)) = l" "bd_blobSize (write_entry (delete_blob_to_send l)) = DeleteBlobSize"
  "bd_location (write_entry (delete_cluster_to_send (s, c))) = BlobLocation s c ClusterDeleteId"
  "bd_location (write_entry (delete_segment_to_send s)) = BlobLocation s SegmentDeleteId ClusterDeleteId"
  by (simp_all add: written_entry_def write_entry_def written_to_send_def delete_blob_to_send_def delete_cluster_to_send_def
      delete_segment_to_send_def)

lemma size_not_delete: "n \<le> unat MaxBlobSize \<Longrightarrow> (of_nat n :: blob_size) \<noteq> DeleteBlobSize"
proof
  assume n: "n \<le> unat MaxBlobSize" and eq: "(of_nat n :: blob_size) = DeleteBlobSize"
  have m: "unat MaxBlobSize = 4294967039" "unat DeleteBlobSize = 4294967040" by (simp_all add: config_defs)
  then have "unat (of_nat n :: blob_size) = n" using n by (simp add: unsigned_of_nat take_bit_nat_eq_self)
  with eq n m show False by simp
qed

lemma insert_stable_map: "insert_stable before (f x) (map f ys) = map f (insert_stable (\<lambda>a b. before (f a) (f b)) x ys)"
  by (induction ys) auto

lemma stable_sort_map: "stable_sort_by before (map f xs) = map f (stable_sort_by (\<lambda>a b. before (f a) (f b)) xs)"
  by (induction xs) (simp_all add: stable_sort_by_def insert_stable_map)

definition sorted_writes :: "DatabaseState \<Rightarrow> (BlobLocation \<times> byte list) list" where
  "sorted_writes t = stable_sort_by (\<lambda>a b. write_before (written_to_send a) (written_to_send b)) (tx_writtenBlobs t)"

lemma mset_sorted_writes: "mset (sorted_writes t) = mset (tx_writtenBlobs t)"
  by (simp add: sorted_writes_def mset_stable_sort)

lemma set_sorted_writes [simp]: "set (sorted_writes t) = set (tx_writtenBlobs t)"
  by (rule mset_eq_setD [OF mset_sorted_writes])

abbreviation blob_deletions :: "DatabaseState \<Rightarrow> BlobData list" where
  "blob_deletions t \<equiv> map (write_entry \<circ> delete_blob_to_send) (sorted_list_of_set (tx_deletedBlobs t))"

abbreviation cluster_deletions :: "DatabaseState \<Rightarrow> BlobData list" where
  "cluster_deletions t \<equiv> map (write_entry \<circ> delete_cluster_to_send) (sorted_list_of_set (tx_deletedClusters t))"

abbreviation segment_deletions :: "DatabaseState \<Rightarrow> BlobData list" where
  "segment_deletions t \<equiv> map (write_entry \<circ> delete_segment_to_send) (sorted_list_of_set (tx_deletedSegments t))"

lemma transmitted_parts:
  "transmitted t = map written_entry (sorted_writes t) @ blob_deletions t @ cluster_deletions t @ segment_deletions t"
  unfolding transmitted_def GetSortedWritesToTransmit_def sorted_writes_def stable_sort_map written_entry_def
  by (simp only: map_append map_map comp_def)

lemma sorted_list_of_set_split:
  assumes "finite A" "x \<in> A"
  obtains as bs where "sorted_list_of_set A = as @ x # bs" "set as \<subseteq> A - {x}" "set bs \<subseteq> A - {x}"
proof -
  have x: "x \<in> set (sorted_list_of_set A)" "distinct (sorted_list_of_set A)" using assms by auto
  from split_list [OF x(1)] obtain as bs where s: "sorted_list_of_set A = as @ x # bs" by blast
  have "set (as @ x # bs) = A" unfolding s [symmetric] using assms(1) by simp
  with x(2) s that show thesis by auto
qed

section \<open>What is committed is what was read\<close>

lemma tx_ok_written:
  assumes "tx_ok t" "w \<in> set (tx_writtenBlobs t)"
  shows "write_location (fst w)" "length (snd w) \<le> unat MaxBlobSize" "\<not> IsBlobDeleted t (fst w)"
  using assms by (cases w; auto simp: tx_ok_def tx_written_ok_def)+

lemma tx_ok_deleted_cluster:
  assumes "tx_ok t" "(s, c) \<in> tx_deletedClusters t"
  shows "c \<noteq> SegmentDeleteId"
  using assms regular_ids(4) [of c] by (auto simp: tx_ok_def tx_clusters_ok_def)

lemma deleted_segment_cell:
  assumes ok: "tx_ok t" and d: "segment l \<in> tx_deletedSegments t" and l: "segment l \<noteq> NextFreeSegmentId"
  shows "ce_data (fold (cell_update l) (transmitted t) x) = None"
proof -
  let ?z = "\<lparr>ce_segment = False, ce_cluster = False, ce_data = None\<rparr>" and ?u = "write_entry (delete_segment_to_send (segment l))"
  have fin: "finite (tx_deletedSegments t)" using ok by (simp add: tx_defs)
  obtain as bs where
    s: "sorted_list_of_set (tx_deletedSegments t) = as @ segment l # bs" and bs: "set bs \<subseteq> tx_deletedSegments t - {segment l}"
    by (rule sorted_list_of_set_split [OF fin d])
  let ?vs = "map (write_entry \<circ> delete_segment_to_send) bs"
  have parts: "transmitted t = (map written_entry (sorted_writes t) @ blob_deletions t @ cluster_deletions t
      @ map (write_entry \<circ> delete_segment_to_send) as) @ ?u # ?vs"
    unfolding transmitted_parts s by simp
  have "ce_data (fold (cell_update l) (transmitted t) x) = ce_data ?z"
    unfolding parts
  proof (rule decided_fold)
    show "cell_update l ?u y = ?z" for y using l by (simp add: cell_update_def)
    show "cell_wf ?z" by (simp add: cell_wf_def)
    show "\<forall>u \<in> set ?vs. harmless l u" using bs by (auto simp: harmless_def)
    show "covered_cell l ?vs ?z"
      by (auto simp: covered_cell_def list_ex_iff touches_segment_def touches_cluster_def)
  qed
  then show ?thesis by simp
qed

lemma deleted_cluster_cell:
  assumes ok: "tx_ok t" and d: "(segment l, cluster l) \<in> tx_deletedClusters t"
    and l: "segment l \<noteq> NextFreeSegmentId" "cluster l \<noteq> NextFreeClusterId" "cluster l \<noteq> SegmentDeleteId"
  shows "ce_data (fold (cell_update l) (transmitted t) x) = None"
proof -
  let ?z = "\<lparr>ce_segment = True, ce_cluster = False, ce_data = None\<rparr>"
  let ?u = "write_entry (delete_cluster_to_send (segment l, cluster l))"
  have fin: "finite (tx_deletedClusters t)" "finite (tx_deletedSegments t)" and seg: "segment l \<notin> tx_deletedSegments t"
    using ok d by (auto simp: tx_defs)
  obtain as bs where s: "sorted_list_of_set (tx_deletedClusters t) = as @ (segment l, cluster l) # bs"
    and bs: "set bs \<subseteq> tx_deletedClusters t - {(segment l, cluster l)}"
    by (rule sorted_list_of_set_split [OF fin(1) d])
  let ?vs = "map (write_entry \<circ> delete_cluster_to_send) bs @ segment_deletions t"
  have parts: "transmitted t = (map written_entry (sorted_writes t) @ blob_deletions t
      @ map (write_entry \<circ> delete_cluster_to_send) as) @ ?u # ?vs"
    unfolding transmitted_parts s by simp
  have regular: "c \<noteq> SegmentDeleteId" if "(s, c) \<in> set bs" for s c
    using that bs tx_ok_deleted_cluster [OF ok] by blast
  have "ce_data (fold (cell_update l) (transmitted t) x) = ce_data ?z"
    unfolding parts
  proof (rule decided_fold)
    show "cell_update l ?u y = ?z" for y using l by (simp add: cell_update_def Let_def touch_segment_cell_def)
    show "cell_wf ?z" by (simp add: cell_wf_def)
    show "\<forall>u \<in> set ?vs. harmless l u" using bs seg fin regular by (auto simp: harmless_def)
    show "covered_cell l ?vs ?z"
      using bs fin by (auto simp: covered_cell_def list_ex_iff touches_segment_def touches_cluster_def Let_def)
  qed
  then show ?thesis by simp
qed

text \<open>An entry for the blob itself, followed by deletions of other blobs, clusters and segments.\<close>

lemma decided_blob:
  assumes ok: "tx_ok t" and n: "\<not> IsClusterDeleted t (segment l) (cluster l)" and l: "ordinary_location l"
    and parts: "transmitted t = us @ u # map written_entry ws @ map (write_entry \<circ> delete_blob_to_send) bs @ cluster_deletions t @ segment_deletions t"
    and u: "bd_location u = l" and rest: "\<forall>w \<in> set ws. write_location (fst w) \<and> fst w \<noteq> l" "\<forall>k \<in> set bs. ordinary_location k \<and> k \<noteq> l"
  shows "ce_data (fold (cell_update l) (transmitted t) x) = (if bd_blobSize u = DeleteBlobSize then None else Some (bd_data u))"
proof -
  let ?d = "if bd_blobSize u = DeleteBlobSize then None else Some (bd_data u)"
  let ?z = "\<lparr>ce_segment = True, ce_cluster = True, ce_data = ?d\<rparr>"
  have seg: "segment l \<notin> tx_deletedSegments t" and clu: "(segment l, cluster l) \<notin> tx_deletedClusters t"
    and fin: "finite (tx_deletedClusters t)" "finite (tx_deletedSegments t)"
    using n ok by (auto simp: tx_defs)
  have ids: "segment l \<noteq> NextFreeSegmentId" "cluster l \<noteq> NextFreeClusterId" "cluster l \<noteq> SegmentDeleteId" "blob l \<noteq> NextFreeBlobId"
      "blob l \<noteq> ClusterDeleteId"
    using l regular_ids by (auto simp: ordinary_location_def)
  have regular: "c \<noteq> SegmentDeleteId" if "(s, c) \<in> tx_deletedClusters t" for s c
    using that tx_ok_deleted_cluster [OF ok] by blast
  have other: "harmless l (written_entry w)" if "w \<in> set ws" for w
  proof -
    have "write_location (fst w)" "fst w \<noteq> l" using rest(1) that by blast+
    moreover then have "\<not> (segment (fst w) = segment l \<and> cluster (fst w) = cluster l \<and> blob (fst w) = blob l)"
      using BlobLocation.expand by blast
    ultimately show ?thesis using write_location_ids by (auto simp: harmless_def Let_def)
  qed
  have deletions: "harmless l (write_entry (delete_blob_to_send k))" if "k \<in> set bs" for k
  proof -
    have "ordinary_location k" "k \<noteq> l" using rest(2) that by blast+
    moreover then have "\<not> (segment k = segment l \<and> cluster k = cluster l \<and> blob k = blob l)"
      using BlobLocation.expand by blast
    ultimately show ?thesis using regular_ids by (auto simp: harmless_def ordinary_location_def Let_def)
  qed
  have "ce_data (fold (cell_update l) (transmitted t) x) = ce_data ?z"
    unfolding parts
  proof (rule decided_fold)
    show "cell_update l u y = ?z" for y
      using u ids by (simp add: cell_update_def Let_def touch_segment_cell_def touch_cluster_cell_def)
    show "cell_wf ?z" by (simp add: cell_wf_def)
    show "\<forall>u \<in> set (map written_entry ws @ map (write_entry \<circ> delete_blob_to_send) bs @ cluster_deletions t @ segment_deletions t). harmless l u"
      using other deletions seg clu fin regular by (auto simp: harmless_def)
    show "covered_cell l (map written_entry ws @ map (write_entry \<circ> delete_blob_to_send) bs @ cluster_deletions t @ segment_deletions t) ?z"
      by (simp add: covered_cell_def)
  qed
  then show ?thesis by simp
qed

lemma deleted_blob_cell:
  assumes ok: "tx_ok t" and d: "l \<in> tx_deletedBlobs t"
  shows "ce_data (fold (cell_update l) (transmitted t) x) = None"
proof -
  have fin: "finite (tx_deletedBlobs t)" and l: "ordinary_location l" "\<not> IsClusterDeleted t (segment l) (cluster l)"
    using ok d by (auto simp: tx_ok_def tx_finite_def tx_blobs_ok_def)
  obtain as bs where s: "sorted_list_of_set (tx_deletedBlobs t) = as @ l # bs" and bs: "set bs \<subseteq> tx_deletedBlobs t - {l}"
    by (rule sorted_list_of_set_split [OF fin d])
  have "transmitted t = (map written_entry (sorted_writes t) @ map (write_entry \<circ> delete_blob_to_send) as)
      @ write_entry (delete_blob_to_send l) # map written_entry [] @ map (write_entry \<circ> delete_blob_to_send) bs @ cluster_deletions t @ segment_deletions t"
    unfolding transmitted_parts s by simp
  from decided_blob [OF ok l(2,1) this] bs ok show ?thesis by (auto simp: tx_ok_def tx_blobs_ok_def)
qed

lemma written_blob_cell:
  assumes ok: "tx_ok t" and w: "map_of (tx_writtenBlobs t) l = Some bs" and l: "ordinary_location l"
  shows "ce_data (fold (cell_update l) (transmitted t) x) = Some bs"
proof -
  have inw: "(l, bs) \<in> set (tx_writtenBlobs t)" using w by (rule map_of_SomeD)
  have n: "\<not> IsBlobDeleted t l" and len: "length bs \<le> unat MaxBlobSize" and dist: "distinct (map fst (tx_writtenBlobs t))"
    using ok inw map_sorted_distinct by (auto simp: tx_ok_def tx_written_ok_def)
  have "distinct (map fst (sorted_writes t))"
    using dist mset_sorted_writes by (metis mset_eq_imp_distinct_iff mset_map)
  moreover have "(l, bs) \<in> set (sorted_writes t)" using inw by simp
  ultimately obtain as cs where s: "sorted_writes t = as @ (l, bs) # cs" and cs: "\<forall>w \<in> set cs. fst w \<noteq> l"
    by (metis (no_types, lifting) distinct.simps(2) distinct_append image_eqI list.set_map list.simps(9) map_append split_list fst_conv)
  have wl: "write_location (fst w)" if "w \<in> set cs" for w
  proof -
    have "w \<in> set (sorted_writes t)" using that s by simp
    then show ?thesis using tx_ok_written [OF ok] by simp
  qed
  have "transmitted t = map written_entry as @ written_entry (l, bs) # map written_entry cs
      @ map (write_entry \<circ> delete_blob_to_send) (sorted_list_of_set (tx_deletedBlobs t)) @ cluster_deletions t @ segment_deletions t"
    unfolding transmitted_parts s by simp
  from decided_blob [OF ok _ l this] n cs wl ok show ?thesis
    using size_not_delete [OF len] by (auto simp: IsBlobDeleted_def tx_ok_def tx_blobs_ok_def tx_finite_def)
qed

lemma transmittedE:
  assumes "u \<in> set (transmitted t)" "tx_ok t"
  obtains w where "w \<in> set (tx_writtenBlobs t)" "u = written_entry w"
    | k where "k \<in> tx_deletedBlobs t" "u = write_entry (delete_blob_to_send k)"
    | s c where "(s, c) \<in> tx_deletedClusters t" "u = write_entry (delete_cluster_to_send (s, c))"
    | s where "s \<in> tx_deletedSegments t" "u = write_entry (delete_segment_to_send s)"
proof -
  have "finite (tx_deletedBlobs t)" "finite (tx_deletedClusters t)" "finite (tx_deletedSegments t)"
    using assms(2) by (simp_all add: tx_ok_def tx_finite_def)
  with assms(1) that show thesis unfolding transmitted_parts by auto
qed

lemma transmitted_touches:
  assumes "u \<in> set (transmitted t)" "tx_ok t" "touches_segment l u"
  shows "(\<exists>k \<in> fst ` set (tx_writtenBlobs t) \<union> tx_deletedBlobs t. bd_location u = k) \<or> (\<exists>c. (segment l, c) \<in> tx_deletedClusters t
     \<and> bd_location u = BlobLocation (segment l) c ClusterDeleteId)"
  using assms(1,2) by (rule transmittedE) (use assms(3) in \<open>auto simp: touches_segment_def\<close>)

lemma untouched_blob_cell:
  assumes ok: "tx_ok t" and l: "ordinary_location l" and n: "\<not> handled t l" and c: "tx_complete v t"
  shows "ce_data (fold (cell_update l) (transmitted t) (view_cell l v)) = view_data v l"
proof -
  have nd: "l \<notin> tx_deletedBlobs t" "(segment l, cluster l) \<notin> tx_deletedClusters t" "segment l \<notin> tx_deletedSegments t"
    and nw: "\<And>w. w \<in> set (tx_writtenBlobs t) \<Longrightarrow> fst w \<noteq> l"
    using n by (auto simp: handled_def IsBlobDeleted_def IsClusterDeleted_def IsSegmentDeleted_def)
  have fin: "finite (tx_deletedBlobs t)" "finite (tx_deletedClusters t)" "finite (tx_deletedSegments t)"
    using ok by (simp_all add: tx_ok_def tx_finite_def)
  have deleted: "k \<noteq> l \<and> ordinary_location k" if "k \<in> tx_deletedBlobs t" for k
    using that nd ok by (auto simp: tx_ok_def tx_blobs_ok_def)
  have same: "k = l" if "segment k = segment l" "cluster k = cluster l" "blob k = blob l" for k
    using that by (intro BlobLocation.expand) simp
  have harmless: "harmless l u" if u: "u \<in> set (transmitted t)" for u
  proof -
    from u ok show ?thesis
    proof (cases rule: transmittedE)
      case (1 w)
      with write_location_ids [OF tx_ok_written(1) [OF ok 1(1)]] nw [OF 1(1)] same [of "fst w"] show ?thesis by (auto simp: harmless_def Let_def)
    next
      case (2 k)
      with deleted same regular_ids show ?thesis by (auto simp: harmless_def ordinary_location_def Let_def)
    next
      case (3 s c)
      with nd tx_ok_deleted_cluster [OF ok] show ?thesis by (auto simp: harmless_def)
    next
      case (4 s)
      with nd show ?thesis by (auto simp: harmless_def)
    qed
  qed
  have "covered_cell l (transmitted t) (view_cell l v)"
  proof (cases "blob l = 0")
    case zero: True
    have "dv_segments v (segment l) \<noteq> None" if u: "u \<in> set (transmitted t)" "touches_segment l u" and z: "cluster l = 0" for u
    proof
      assume none: "dv_segments v (segment l) = None"
      from transmitted_touches [OF u(1) ok u(2)] u(2)
      have "(\<exists>k \<in> fst ` set (tx_writtenBlobs t) \<union> tx_deletedBlobs t. segment k \<noteq> NextFreeSegmentId \<and> segment k = segment l)
          \<or> (\<exists>c. (segment l, c) \<in> tx_deletedClusters t)"
        unfolding touches_segment_def Let_def by blast
      with c none have "handled t (BlobLocation (segment l) 0 0)" unfolding tx_complete_def by (metis fst_conv)
      with n zero z show False by (metis BlobLocation.collapse)
    qed
    moreover have "view_cluster_at v (segment l) (cluster l) \<noteq> None" if u: "u \<in> set (transmitted t)" "touches_cluster l u" for u
    proof
      assume none: "view_cluster_at v (segment l) (cluster l) = None"
      have "\<exists>k \<in> fst ` set (tx_writtenBlobs t) \<union> tx_deletedBlobs t. segment k \<noteq> NextFreeSegmentId \<and> segment k = segment l
          \<and> cluster k \<noteq> NextFreeClusterId \<and> cluster k = cluster l"
        using transmitted_touches [OF u(1) ok, of l] u(2) nd(2)
        by (intro bexI [of _ "bd_location u"]) (auto simp: touches_cluster_def touches_segment_def Let_def)
      with c none have "handled t (BlobLocation (segment l) (cluster l) 0)" unfolding tx_complete_def by metis
      with n zero show False by (metis BlobLocation.collapse)
    qed
    ultimately show ?thesis by (auto simp: covered_cell_def list_ex_iff view_cell_def)
  qed (simp add: covered_cell_def)
  with harmless_fold [of "view_cell l v" "transmitted t" l] harmless
  have "ce_data (fold (cell_update l) (transmitted t) (view_cell l v)) = ce_data (view_cell l v)" by simp
  then show ?thesis by (simp only: view_cell_def cell.simps)
qed

lemma view_cell_next [simp]: "view_cell l (next_view v) = view_cell l v"
  by (simp add: view_cell_def view_data_def view_blob_def view_cluster_at_def next_view_def)

text \<open>The content of a blob as the client reads it inside its transaction, on top of the content \<open>v\<close> of the server.\<close>

definition transaction_content :: "DatabaseState \<Rightarrow> snap_view \<Rightarrow> BlobLocation \<Rightarrow> byte list option" where
  "transaction_content t v l =
     (case tx_ReadBlob t l of Inl e \<Rightarrow> None | Inr None \<Rightarrow> view_data v l | Inr (Some bs) \<Rightarrow> Some bs)"

lemma transmitted_content:
  assumes ok: "tx_ok t" and c: "tx_complete v t" and l: "ordinary_location l"
  shows "view_data (commit_view (transmitted t) v) l = transaction_content t v l"
proof -
  have ids: "segment l \<noteq> NextFreeSegmentId" "cluster l \<noteq> NextFreeClusterId" "cluster l \<noteq> SegmentDeleteId" "blob l \<noteq> NextFreeBlobId"
    using l regular_ids by (auto simp: ordinary_location_def)
  have data: "view_data (commit_view (transmitted t) v) l = ce_data (fold (cell_update l) (transmitted t) (view_cell l v))"
    using arg_cong [OF fold_view_cell [OF ids(1,2,4), of "transmitted t" "next_view v"], of ce_data]
    by (simp add: commit_view_def view_cell_def [of l "fold _ _ _"])
  show ?thesis
  proof (cases "IsBlobDeleted t l")
    case True
    then have "ce_data (fold (cell_update l) (transmitted t) (view_cell l v)) = None"
      using deleted_segment_cell [OF ok _ ids(1)] deleted_cluster_cell [OF ok _ ids(1-3)] deleted_blob_cell [OF ok]
      by (auto simp: IsBlobDeleted_def IsClusterDeleted_def IsSegmentDeleted_def)
    with True Ensure_iff(3) [of t l] data show ?thesis by (auto simp: transaction_content_def tx_ReadBlob_def split: option.splits)
  next
    case False
    then have r: "tx_ReadBlob t l = Inr (map_of (tx_writtenBlobs t) l)" using Ensure_iff(3) [of t l] by (simp add: tx_ReadBlob_def)
    show ?thesis
    proof (cases "map_of (tx_writtenBlobs t) l")
      case None
      with False have "\<not> handled t l" by (simp add: handled_def map_of_eq_None_iff)
      from untouched_blob_cell [OF ok l this c] None r data show ?thesis by (simp add: transaction_content_def)
    next
      case (Some bs)
      with written_blob_cell [OF ok Some l] r data show ?thesis by (simp add: transaction_content_def)
    qed
  qed
qed

section \<open>The sizes of the messages\<close>

lemma valid_message_size:
  "TransactionCommit_IsValidMessageSize n k \<longleftrightarrow> k \<le> 65535 \<and> 12 + k * 16 + n \<le> 4294967295"
proof -
  have "(of_nat m :: message_size) \<noteq> 0" if "0 < m" "m \<le> 4294967295" for m
  proof -
    have "unat (of_nat m :: message_size) = m" using that by (simp add: unsigned_of_nat take_bit_nat_eq_self)
    with that show ?thesis by auto
  qed
  moreover have "unat (- 1 :: message_size) = 4294967295" by (simp add: unsigned_minus_1_eq_mask mask_eq_exp_minus_1)
  ultimately show ?thesis
    by (auto simp: TransactionCommit_IsValidMessageSize_def TransactionCommit_CalculateMessageSize_def Let_def
        simp del: of_nat_add of_nat_mult)
qed

lemma take_message_valid:
  "take_message n k ws = (xs, ys) \<Longrightarrow> xs = [] \<or> TransactionCommit_IsValidMessageSize (n + sum_list (map BlobToSend_DataSize xs)) (k + length xs)"
proof (induction ws arbitrary: n k xs)
  case (Cons w ws)
  show ?case
  proof (cases "TransactionCommit_IsValidMessageSize (n + BlobToSend_DataSize w) (k + 1)")
    case True
    with Cons.prems obtain zs where zs: "take_message (n + BlobToSend_DataSize w) (k + 1) ws = (zs, ys)" "xs = w # zs"
      by (auto split: prod.splits)
    from Cons.IH [OF zs(1)] True zs(2) show ?thesis by (auto simp: add.assoc)
  qed (use Cons.prems in auto)
qed simp

lemma take_message_nonempty:
  assumes "take_message 0 0 (w # ws) = (xs, ys)" "BlobToSend_DataSize w \<le> unat MaxBlobSize"
  shows "xs \<noteq> []"
proof -
  have "unat MaxBlobSize = 4294967039" by (simp add: config_defs)
  with assms show ?thesis by (auto simp: valid_message_size split: if_splits prod.splits)
qed

definition message_fits :: "TransactionCommit \<Rightarrow> bool" where
  "message_fits m = (tc_blobs m \<noteq> []
     \<and> TransactionCommit_IsValidMessageSize (sum_list (map (length \<circ> bd_data) (tc_blobs m))) (length (tc_blobs m)))"

lemma length_write_entry [simp]: "length (bd_data (write_entry w)) = BlobToSend_DataSize w"
  by (simp add: write_entry_def BlobToSend_DataSize_def split: option.splits)

lemma split_messages_fit:
  "\<forall>w \<in> set ws. BlobToSend_DataSize w \<le> unat MaxBlobSize \<Longrightarrow> \<exists>ms. split_messages dbId ws = Some ms
     \<and> (\<forall>m \<in> set ms. message_fits m \<and> tc_databaseId m = dbId \<and> \<not> tc_hasFollowMessage m)"
proof (induction dbId ws rule: split_messages.induct)
  case (1 dbId ws)
  show ?case
  proof (cases ws)
    case Nil
    then show ?thesis by (simp add: split_messages.simps)
  next
    case (Cons w vs)
    obtain xs ys where t: "take_message 0 0 ws = (xs, ys)" by fastforce
    have ne: "xs \<noteq> []" using t Cons 1(2) by (intro take_message_nonempty [of w vs xs ys]) auto
    have ys: "\<forall>w \<in> set ys. BlobToSend_DataSize w \<le> unat MaxBlobSize" using 1(2) take_message_split [OF t] by simp
    from 1(1) [OF _ t [symmetric] refl ne ys] Cons obtain ms where ms: "split_messages dbId ys = Some ms"
      "\<forall>m \<in> set ms. message_fits m \<and> tc_databaseId m = dbId \<and> \<not> tc_hasFollowMessage m" by auto
    have "message_fits (commit_message dbId xs)"
      using take_message_valid [OF t] ne by (simp add: message_fits_def commit_message_def comp_def)
    moreover have "split_messages dbId ws = Some (commit_message dbId xs # ms)"
      using Cons t ne ms(1) by (subst split_messages.simps) simp
    ultimately show ?thesis using ms(2) by (auto simp: commit_message_def)
  qed
qed

lemma tx_ok_sizes:
  assumes "tx_ok t" "w \<in> set (GetSortedWritesToTransmit t)"
  shows "BlobToSend_DataSize w \<le> unat MaxBlobSize"
  using assms tx_ok_written(2) [OF assms(1)]
  by (auto simp: GetSortedWritesToTransmit_def BlobToSend_DataSize_def written_to_send_def delete_blob_to_send_def
      delete_cluster_to_send_def delete_segment_to_send_def)

lemma construct_messages:
  assumes "tx_ok t"
  obtains ms where "DatabaseState_ConstructCommitMessages dbId t = Some ms" "commit_entries ms = transmitted t"
    "\<forall>m \<in> set ms. message_fits m \<and> tc_databaseId m = dbId"
proof -
  from split_messages_fit [of "GetSortedWritesToTransmit t" dbId] tx_ok_sizes [OF assms] obtain ms where
    "split_messages dbId (GetSortedWritesToTransmit t) = Some ms" "\<forall>m \<in> set ms. message_fits m \<and> tc_databaseId m = dbId" by blast
  with that split_messages_entries show thesis by (simp add: DatabaseState_ConstructCommitMessages_def transmitted_def)
qed

lemma construct_all_fit:
  "\<forall>(d, t) \<in> set ts. tx_ok t \<Longrightarrow> \<exists>ms. construct_all ts = Some ms \<and> (\<forall>m \<in> set ms. message_fits m \<and> tc_databaseId m \<in> fst ` set ts)
     \<and> commit_entries ms = concat (map (\<lambda>p. transmitted (snd p)) ts)"
proof (induction ts)
  case (Cons p ts)
  obtain d t where p: "p = (d, t)" by fastforce
  with Cons.prems have "tx_ok t" by simp
  then obtain ms where ms: "DatabaseState_ConstructCommitMessages d t = Some ms" "commit_entries ms = transmitted t"
    "\<forall>m \<in> set ms. message_fits m \<and> tc_databaseId m = d" by (rule construct_messages)
  from Cons obtain ns where "construct_all ts = Some ns" "\<forall>m \<in> set ns. message_fits m \<and> tc_databaseId m \<in> fst ` set ts"
    "commit_entries ns = concat (map (\<lambda>p. transmitted (snd p)) ts)" by auto
  with ms p show ?case by auto
qed simp

lemma set_follow_props:
  "length (set_follow ms) = length ms" "commit_entries (set_follow ms) = commit_entries ms"
  "i < length ms \<Longrightarrow> tc_hasFollowMessage (set_follow ms ! i) = (Suc i < length ms)"
  "i < length ms \<Longrightarrow> tc_blobs (set_follow ms ! i) = tc_blobs (ms ! i) \<and> tc_databaseId (set_follow ms ! i) = tc_databaseId (ms ! i)"
proof -
  show "length (set_follow ms) = length ms" "commit_entries (set_follow ms) = commit_entries ms" by (induction ms) auto
  show "i < length ms \<Longrightarrow> tc_hasFollowMessage (set_follow ms ! i) = (Suc i < length ms)"
    "i < length ms \<Longrightarrow> tc_blobs (set_follow ms ! i) = tc_blobs (ms ! i) \<and> tc_databaseId (set_follow ms ! i) = tc_databaseId (ms ! i)"
    by (induction ms arbitrary: i) (auto simp: nth_Cons split: nat.splits)
qed

section \<open>Merged id lists\<close>

lemma push_created_append: "push_created cs n bs = (n', m) \<Longrightarrow> m = bs @ cs"
  by (induction cs n bs rule: push_created.induct) auto

lemma push_created_True: "fst (push_created cs True bs)"
  by (induction cs arbitrary: bs) auto

lemma push_created_sorted: "push_created cs n bs = (False, m) \<Longrightarrow> sorted bs \<Longrightarrow> sorted m"
proof (induction cs n bs rule: push_created.induct)
  case (2 b cs n bs)
  have no: "\<not> (bs \<noteq> [] \<and> last bs > b)"
  proof
    assume "bs \<noteq> [] \<and> last bs > b"
    then have "push_created cs True (bs @ [b]) = (False, m)" using 2(2) by simp
    with push_created_True [of cs "bs @ [b]"] show False by simp
  qed
  have "x \<le> b" if "x \<in> set bs" for x
  proof -
    from that obtain i where "i < length bs" "x = bs ! i" by (auto simp: in_set_conv_nth)
    then have "x \<le> last bs" using 2(3) by (cases bs) (auto simp: last_conv_nth simp del: last.simps intro: sorted_nth_mono)
    moreover have "last bs \<le> b" using no that by (cases "bs = []") auto
    ultimately show ?thesis by simp
  qed
  then have "sorted (bs @ [b])" using 2(3) by (simp add: sorted_append)
  with 2(1,2) show ?case by simp
qed simp

definition blob_ids_in :: "segment_id \<Rightarrow> cluster_id \<Rightarrow> BlobLocation set \<Rightarrow> blob_id set" where
  "blob_ids_in s c A = {b. BlobLocation s c b \<in> A}"

lemma cluster_range_blobs:
  assumes "finite A"
  shows "set (map blob (set_range (cluster_first s c) (cluster_last s c) A)) = blob_ids_in s c A"
    "sorted_wrt (<) (map blob (set_range (cluster_first s c) (cluster_last s c) A))"
proof -
  let ?B = "{k \<in> A. in_interval (cluster_first s c) (cluster_last s c) k}"
  have fin: "finite ?B" using assms by simp
  have eq: "?B = BlobLocation s c ` blob_ids_in s c A"
    by (auto simp: in_cluster_interval blob_ids_in_def image_iff) (metis BlobLocation.collapse)
  show "set (map blob (set_range (cluster_first s c) (cluster_last s c) A)) = blob_ids_in s c A"
    using assms by (simp add: set_range_def) (simp add: eq image_image)
  have "sorted_wrt (<) (sorted_list_of_set ?B)" by (rule strict_sorted_list_of_set)
  then show "sorted_wrt (<) (map blob (set_range (cluster_first s c) (cluster_last s c) A))"
    unfolding set_range_def sorted_wrt_map
  proof (rule sorted_wrt_mono_rel [rotated])
    fix x y assume m: "x \<in> set (sorted_list_of_set ?B)" "y \<in> set (sorted_list_of_set ?B)" "x < y"
    then have "segment x = s \<and> cluster x = c \<and> segment y = s \<and> cluster y = c" using fin by (simp add: in_cluster_interval)
    with m(3) show "blob x < blob y" by (cases x; cases y) (simp add: location_less_iff)
  qed
qed

lemma merged_blobs:
  assumes "finite (tx_createdBlobs t)" "\<not> IsClusterDeleted t s c" "sorted_wrt (<) ids"
    and "set ids \<inter> blob_ids_in s c (tx_createdBlobs t) = {}"
  shows "MergeBlobIdList s c t ids
     = Some (sorted_list_of_set (set ids - blob_ids_in s c (tx_deletedBlobs t) \<union> blob_ids_in s c (tx_createdBlobs t)))"
proof -
  let ?kept = "filter (\<lambda>b. BlobLocation s c b \<notin> tx_deletedBlobs t) ids"
  let ?created = "map blob (set_range (cluster_first s c) (cluster_last s c) (tx_createdBlobs t))"
  obtain n m where p: "push_created ?created False ?kept = (n, m)" by fastforce
  note created = cluster_range_blobs [OF assms(1), of s c]
  have kept: "sorted ?kept" "distinct ?kept" using assms(3) sorted_filter [of "\<lambda>x. x" ids] by (simp_all add: strict_sorted_iff)
  have m: "m = ?kept @ ?created" by (rule push_created_append [OF p])
  let ?r = "if n then sort m else m"
  have "sorted ?r" using push_created_sorted [of ?created False ?kept m] p kept(1) by auto
  moreover have "distinct ?r"
  proof -
    have "distinct ?created" using created(2) by (simp add: strict_sorted_iff)
    moreover have "set ?kept \<inter> set ?created = {}" unfolding created(1) using assms(4) by auto
    ultimately have "distinct m" unfolding m using kept(2) by (simp only: distinct_append)
    then show ?thesis by simp
  qed
  moreover have "set ?r = set ids - blob_ids_in s c (tx_deletedBlobs t) \<union> blob_ids_in s c (tx_createdBlobs t)"
  proof -
    have "set m = set ?kept \<union> set ?created" unfolding m by simp
    also have "\<dots> = set ids - blob_ids_in s c (tx_deletedBlobs t) \<union> blob_ids_in s c (tx_createdBlobs t)"
      unfolding created(1) by (auto simp: blob_ids_in_def)
    finally show ?thesis by simp
  qed
  ultimately have "sorted ?r" "distinct ?r"
    and r: "set ids - blob_ids_in s c (tx_deletedBlobs t) \<union> blob_ids_in s c (tx_createdBlobs t) = set ?r" by simp_all
  then have "sorted_list_of_set (set ?r) = ?r" by (intro sorted_list_of_set.idem_if_sorted_distinct)
  then have "?r = sorted_list_of_set (set ids - blob_ids_in s c (tx_deletedBlobs t) \<union> blob_ids_in s c (tx_createdBlobs t))"
    unfolding r by (rule sym)
  then show ?thesis using assms(2) p by (simp add: MergeBlobIdList_def)
qed

end
