(* ===== verification/Client_Session.thy ===== *)
theory Client_Session
  imports Client_Transaction Server_Handlers
begin

text \<open>
  The state of a client session (ClientLib/Session.cpp and the state classes it owns): the connections to
  servers (ClientLib/Network.cpp), the opened databases with their caches and sticky locks (ClientLib/Database.cpp)
  and the running transactions, one for each connection (ClientLib/Transaction.cpp). The session lock is held by
  every operation, so that operations are atomic. A \<open>Database*\<close> is the pair of the connection and the id under
  which \<open>openedDatabases\<close> holds it; pointers into the cache are the bytes they point to.
\<close>

section \<open>Operations of the client\<close>

text \<open>An operation returns, throws an exception, or stops: an assertion fails or a message it waits for never arrives.\<close>

datatype ('s, 'a) outcome = Returns 'a 's | Throws ClientException 's | Stops

fun andThen :: "('s, 'a) outcome \<Rightarrow> ('a \<Rightarrow> 's \<Rightarrow> ('s, 'b) outcome) \<Rightarrow> ('s, 'b) outcome" where
  "andThen (Returns x s) f = f x s"
| "andThen (Throws e s) f = Throws e s"
| "andThen Stops f = Stops"

definition throw_if :: "bool \<Rightarrow> ClientException \<Rightarrow> 's \<Rightarrow> ('s, unit) outcome" where
  "throw_if b e s = (if b then Throws e s else Returns () s)"

definition throw_some :: "ClientException option \<Rightarrow> 's \<Rightarrow> ('s, unit) outcome" where
  "throw_some e s = (case e of None \<Rightarrow> Returns () s | Some e \<Rightarrow> Throws e s)"

definition asserted :: "'a option \<Rightarrow> 's \<Rightarrow> ('s, 'a) outcome" where
  "asserted r s = (case r of None \<Rightarrow> Stops | Some x \<Rightarrow> Returns x s)"

section \<open>The cache of a database\<close>

type_synonym transaction_id = uint64_t

record CachedBlob =
  cb_data :: "byte list"
  cb_lastUpdated :: commit_id
  cb_transactionId :: transaction_id

type_synonym BlobCache = "BlobLocation \<Rightarrow> CachedBlob option"

definition BlobCache_Set :: "BlobLocation \<Rightarrow> byte list \<Rightarrow> commit_id \<Rightarrow> transaction_id \<Rightarrow> BlobCache \<Rightarrow> BlobCache" where
  "BlobCache_Set l bs k i cache = cache(l \<mapsto> \<lparr>cb_data = bs, cb_lastUpdated = k, cb_transactionId = i\<rparr>)"

definition BlobCache_Update :: "BlobLocation \<Rightarrow> byte list \<Rightarrow> commit_id \<Rightarrow> transaction_id \<Rightarrow> BlobCache \<Rightarrow> BlobCache" where
  "BlobCache_Update = BlobCache_Set"

definition BlobCache_UpdateTxnIdForHeldLocks :: "HeldLocks \<Rightarrow> transaction_id \<Rightarrow> BlobCache \<Rightarrow> BlobCache" where
  "BlobCache_UpdateTxnIdForHeldLocks locks i cache =
     (\<lambda>l. map_option (\<lambda>b. if l \<in> hl_read locks \<or> l \<in> hl_write locks then b\<lparr>cb_transactionId := i\<rparr> else b) (cache l))"

definition BlobCache_RemoveBlob :: "BlobLocation \<Rightarrow> BlobCache \<Rightarrow> BlobCache" where
  "BlobCache_RemoveBlob l cache = cache(l := None)"

definition BlobCache_RemoveCluster :: "segment_id \<Rightarrow> cluster_id \<Rightarrow> BlobCache \<Rightarrow> BlobCache" where
  "BlobCache_RemoveCluster s c cache = (\<lambda>l. if segment l = s \<and> cluster l = c then None else cache l)"

definition BlobCache_RemoveSegment :: "segment_id \<Rightarrow> BlobCache \<Rightarrow> BlobCache" where
  "BlobCache_RemoveSegment s cache = (\<lambda>l. if segment l = s then None else cache l)"

section \<open>The state of a session\<close>

type_synonym connection_id = uint16_t

record ClientDatabase =
  cdb_name :: string
  cdb_cache :: BlobCache
  cdb_stickyLocks :: "HeldLocks option"
  cdb_mvccActive :: bool
  cdb_mvccSetting :: bool
  cdb_useStickyLocks :: bool
  cdb_lockTimeoutMs :: int

text \<open>\<open>Transaction::State\<close>: the states of the databases that the transaction has accessed.\<close>

record Transaction =
  tr_id :: transaction_id
  tr_forDatabase :: "(database_id \<times> DatabaseState) list"

record Connection =
  con_host :: string
  con_port :: int
  con_client :: bool
  con_useCount :: uint32_t

record 'n Session =
  ss_channel :: 'n
  ss_connections :: "Connection list"
  ss_active :: "(connection_id \<times> Transaction) list"
  ss_nextId :: transaction_id
  ss_priority :: int
  ss_lockTimeoutMs :: int
  ss_useStickyLocks :: bool
  ss_databases :: "connection_id \<Rightarrow> (database_id \<times> ClientDatabase) list"

definition Session_new :: "'n \<Rightarrow> 'n Session" where
  "Session_new n = \<lparr>ss_channel = n, ss_connections = [], ss_active = [], ss_nextId = 0, ss_priority = 0,
     ss_lockTimeoutMs = - 1, ss_useStickyLocks = True, ss_databases = (\<lambda>_. [])\<rparr>"

type_synonym db_handle = "connection_id \<times> database_id"

definition get_database :: "db_handle \<Rightarrow> 'n Session \<Rightarrow> ClientDatabase option" where
  "get_database d s = map_of (ss_databases s (fst d)) (snd d)"

definition put_database :: "db_handle \<Rightarrow> ClientDatabase \<Rightarrow> 'n Session \<Rightarrow> 'n Session" where
  "put_database d db s = s\<lparr>ss_databases := (ss_databases s)(fst d := map_put (snd d) db (ss_databases s (fst d)))\<rparr>"

definition update_database :: "db_handle \<Rightarrow> (ClientDatabase \<Rightarrow> ClientDatabase) \<Rightarrow> 'n Session \<Rightarrow> 'n Session" where
  "update_database d f s = (case get_database d s of None \<Rightarrow> s | Some db \<Rightarrow> put_database d (f db) s)"

definition database_of :: "db_handle \<Rightarrow> 'n Session \<Rightarrow> ('n Session, ClientDatabase) outcome" where
  "database_of d s = asserted (get_database d s) s"

section \<open>Messages\<close>

text \<open>The connections are not part of the library: creating, closing, sending and waiting are operations on a state \<open>'n\<close>.
  A connection that cannot be created and a message that never arrives are \<open>None\<close>.\<close>

datatype Reply = Reply_Message Response | Reply_NetworkException | Reply_ConnectionClosed

record 'n Channel =
  ch_create :: "connection_id \<Rightarrow> string \<Rightarrow> int \<Rightarrow> 'n \<Rightarrow> 'n option"
  ch_close :: "connection_id \<Rightarrow> 'n \<Rightarrow> 'n"
  ch_send :: "connection_id \<Rightarrow> Message \<Rightarrow> 'n \<Rightarrow> 'n"
  ch_await :: "connection_id \<Rightarrow> 'n \<Rightarrow> (Reply \<times> 'n) option"

definition send_message :: "'n Channel \<Rightarrow> connection_id \<Rightarrow> Message \<Rightarrow> 'n Session \<Rightarrow> 'n Session" where
  "send_message ch c m s = s\<lparr>ss_channel := ch_send ch c m (ss_channel s)\<rparr>"

definition await_reply :: "'n Channel \<Rightarrow> connection_id \<Rightarrow> 'n Session \<Rightarrow> ('n Session, Reply) outcome" where
  "await_reply ch c s = (case ch_await ch c (ss_channel s) of
     None \<Rightarrow> Stops | Some (r, n) \<Rightarrow> Returns r (s\<lparr>ss_channel := n\<rparr>))"

definition Network_AwaitMessage :: "'n Channel \<Rightarrow> connection_id \<Rightarrow> 'n Session \<Rightarrow> ('n Session, Reply) outcome" where
  "Network_AwaitMessage ch c s = andThen (await_reply ch c s) (\<lambda>r s.
     if r = Reply_NetworkException then Throws EX_Exception s else Returns r s)"

text \<open>\<open>ExpectMessage<T>\<close>: a message of another type than \<open>T\<close> is an exception.\<close>

definition Network_ExpectMessage ::
  "'n Channel \<Rightarrow> (Response \<Rightarrow> bool) \<Rightarrow> connection_id \<Rightarrow> 'n Session \<Rightarrow> ('n Session, Response) outcome" where
  "Network_ExpectMessage ch is_type c s = andThen (Network_AwaitMessage ch c s) (\<lambda>r s.
     case r of Reply_Message m \<Rightarrow> if is_type m then Returns m s else Throws EX_Exception s | _ \<Rightarrow> Throws EX_Exception s)"

fun is_BlobsReadResponse :: "Response \<Rightarrow> bool" where
  "is_BlobsReadResponse (BlobsReadResponse _ _) = True"
| "is_BlobsReadResponse (BlobsReadError _) = True"
| "is_BlobsReadResponse _ = False"

fun is_TransactionBeginResponse :: "Response \<Rightarrow> bool" where
  "is_TransactionBeginResponse (TransactionBeginResponse _) = True"
| "is_TransactionBeginResponse (TransactionBeginError _) = True"
| "is_TransactionBeginResponse _ = False"

fun is_DatabaseOpenResponse :: "Response \<Rightarrow> bool" where
  "is_DatabaseOpenResponse (DatabaseOpenResponse _ _) = True"
| "is_DatabaseOpenResponse _ = False"

section \<open>Connections\<close>

definition MAX_CONNECTIONS :: nat where
  "MAX_CONNECTIONS = unat (- 1 :: connection_id) - 1"

definition same_server :: "string \<Rightarrow> int \<Rightarrow> Connection \<Rightarrow> bool" where
  "same_server host port con = (con_host con = host \<and> con_port con = port)"

definition Network_Get :: "'n Channel \<Rightarrow> string \<Rightarrow> int \<Rightarrow> 'n Session \<Rightarrow> ('n Session, connection_id) outcome" where
  "Network_Get ch host port s =
     (if port > 65535 then Throws EX_Exception s
      else let cons = ss_connections s; i = length (takeWhile (\<lambda>con. \<not> same_server host port con) cons) in
        if i < length cons
        then if con_client (cons ! i)
             then Returns (of_nat i) (s\<lparr>ss_connections := cons[i := (cons ! i)\<lparr>con_useCount := con_useCount (cons ! i) + 1\<rparr>]\<rparr>)
             else case ch_create ch (of_nat i) host port (ss_channel s) of
                    None \<Rightarrow> Throws EX_Exception s
                  | Some n \<Rightarrow> Returns (of_nat i) (s\<lparr>ss_channel := n, ss_connections :=
                      cons[i := (cons ! i)\<lparr>con_client := True, con_useCount := con_useCount (cons ! i) + 1\<rparr>]\<rparr>)
        else if length cons = MAX_CONNECTIONS then Throws EX_Exception s
        else case ch_create ch (of_nat i) host port (ss_channel s) of
               None \<Rightarrow> Throws EX_Exception s
             | Some n \<Rightarrow> Returns (of_nat i) (s\<lparr>ss_channel := n, ss_connections :=
                 cons @ [\<lparr>con_host = host, con_port = port, con_client = True, con_useCount = 1\<rparr>]\<rparr>))"

definition close_client :: "'n Channel \<Rightarrow> connection_id \<Rightarrow> 'n Session \<Rightarrow> 'n Session" where
  "close_client ch c s = (let cons = ss_connections s; i = unat c in
     s\<lparr>ss_channel := ch_close ch c (ss_channel s), ss_connections := cons[i := (cons ! i)\<lparr>con_client := False\<rparr>]\<rparr>)"

definition drop_use :: "connection_id \<Rightarrow> 'n Session \<Rightarrow> 'n Session" where
  "drop_use c s = (let cons = ss_connections s; i = unat c in
     s\<lparr>ss_connections := cons[i := (cons ! i)\<lparr>con_useCount := con_useCount (cons ! i) - 1\<rparr>]\<rparr>)"

definition Network_Release :: "'n Channel \<Rightarrow> connection_id \<Rightarrow> 'n Session \<Rightarrow> ('n Session, unit) outcome" where
  "Network_Release ch c s =
     (if \<not> (unat c < length (ss_connections s) \<and> con_useCount (ss_connections s ! unat c) > 0) then Stops
      else let s = drop_use c s in
        Returns () (if con_useCount (ss_connections s ! unat c) = 0 then close_client ch c s else s))"

definition Network_ServerClosedConnection :: "'n Channel \<Rightarrow> connection_id \<Rightarrow> 'n Session \<Rightarrow> ('n Session, unit) outcome" where
  "Network_ServerClosedConnection ch c s =
     (if \<not> unat c < length (ss_connections s) then Stops else Returns () (close_client ch c (drop_use c s)))"

text \<open>\<open>Network::Get(connectionId)\<close>: the check that the connection is open, before it is used.\<close>

definition Network_Client :: "connection_id \<Rightarrow> 'n Session \<Rightarrow> ('n Session, unit) outcome" where
  "Network_Client c s =
     (if \<not> unat c < length (ss_connections s) then Stops
      else if \<not> con_client (ss_connections s ! unat c) then Throws EX_Exception s
      else Returns () s)"

section \<open>Connection strings\<close>

definition is_digit :: "char \<Rightarrow> bool" where
  "is_digit c = ((of_char (CHR ''0'') :: nat) \<le> of_char c \<and> (of_char c :: nat) \<le> of_char (CHR ''9''))"

definition digit_value :: "char \<Rightarrow> int" where
  "digit_value c = of_char c - of_char (CHR ''0'')"

definition digits_value :: "string \<Rightarrow> int" where
  "digits_value ds = foldl (\<lambda>n c. 10 * n + digit_value c) 0 ds"

text \<open>\<open>std::from_chars\<close> for an \<open>int\<close>: the value, which is not changed when no digits are found or the number is out of
  range, and the characters that are left.\<close>

definition from_chars :: "string \<Rightarrow> int \<Rightarrow> int \<times> string" where
  "from_chars s value =
     (let negative = (s \<noteq> [] \<and> hd s = CHR ''-'');
          r = (if negative then tl s else s);
          ds = takeWhile is_digit r;
          n = (if negative then - digits_value ds else digits_value ds)
      in if ds = [] then (value, s)
         else (if - (2 ^ 31) \<le> n \<and> n < 2 ^ 31 then n else value, dropWhile is_digit r))"

definition default_port :: int where
  "default_port = 8108"

definition parse_connection_string :: "string \<Rightarrow> ClientException + string \<times> string \<times> int" where
  "parse_connection_string cs =
     (if CHR ''/'' \<notin> set cs then Inl EX_Exception
      else let hostName = takeWhile (\<lambda>c. c \<noteq> CHR ''/'') cs;
               databaseName = tl (dropWhile (\<lambda>c. c \<noteq> CHR ''/'') cs) in
        if CHR '':'' \<in> set hostName
        then let portString = tl (dropWhile (\<lambda>c. c \<noteq> CHR '':'') hostName);
                 hostName = takeWhile (\<lambda>c. c \<noteq> CHR '':'') hostName;
                 (port, rest) = from_chars portString default_port in
          if rest \<noteq> [] then Inl EX_Exception else Inr (hostName, databaseName, port)
        else Inr (hostName, databaseName, default_port))"

section \<open>Transactions\<close>

definition Transaction_Get :: "connection_id \<Rightarrow> 'n Session \<Rightarrow> Transaction option" where
  "Transaction_Get c s = map_of (ss_active s) c"

definition Transaction_Create :: "connection_id \<Rightarrow> 'n Session \<Rightarrow> 'n Session" where
  "Transaction_Create c s = s\<lparr>ss_active := map_put c \<lparr>tr_id = ss_nextId s, tr_forDatabase = []\<rparr> (ss_active s),
     ss_nextId := ss_nextId s + 1\<rparr>"

definition Transaction_IsRunning :: "'n Session \<Rightarrow> bool" where
  "Transaction_IsRunning s = (ss_active s \<noteq> [])"

text \<open>\<open>State::GetDatabaseState\<close>, and \<open>State::AccessDatabaseState\<close>, which creates the state of a database when it is not there.\<close>

definition GetDatabaseState :: "db_handle \<Rightarrow> 'n Session \<Rightarrow> DatabaseState option" where
  "GetDatabaseState d s = (case Transaction_Get (fst d) s of None \<Rightarrow> None | Some tr \<Rightarrow> map_of (tr_forDatabase tr) (snd d))"

definition AccessDatabaseState :: "db_handle \<Rightarrow> 'n Session \<Rightarrow> DatabaseState" where
  "AccessDatabaseState d s = (case GetDatabaseState d s of None \<Rightarrow> DatabaseState_new None | Some t \<Rightarrow> t)"

definition put_state :: "db_handle \<Rightarrow> DatabaseState \<Rightarrow> 'n Session \<Rightarrow> 'n Session" where
  "put_state d t s = (case Transaction_Get (fst d) s of
     None \<Rightarrow> s
   | Some tr \<Rightarrow> s\<lparr>ss_active := map_put (fst d) (tr\<lparr>tr_forDatabase := map_put (snd d) t (tr_forDatabase tr)\<rparr>) (ss_active s)\<rparr>)"

definition update_state :: "db_handle \<Rightarrow> (DatabaseState \<Rightarrow> DatabaseState) \<Rightarrow> 'n Session \<Rightarrow> 'n Session" where
  "update_state d f s = put_state d (f (AccessDatabaseState d s)) s"

definition Transaction_GetLockType :: "db_handle \<Rightarrow> BlobLocation \<Rightarrow> 'n Session \<Rightarrow> LockMode" where
  "Transaction_GetLockType d l s = (case GetDatabaseState d s of None \<Rightarrow> LM_None | Some t \<Rightarrow> lock_type (tx_heldLocks t) l)"

definition Transaction_AcquiredLock :: "db_handle \<Rightarrow> BlobLocation \<Rightarrow> LockMode \<Rightarrow> 'n Session \<Rightarrow> 'n Session" where
  "Transaction_AcquiredLock d l m = update_state d (tx_AcquiredLock l m)"

definition Transaction_EnsureBlobNotDeleted :: "db_handle \<Rightarrow> BlobLocation \<Rightarrow> 'n Session \<Rightarrow> ('n Session, unit) outcome" where
  "Transaction_EnsureBlobNotDeleted d l s =
     throw_some (EnsureBlobNotDeleted (AccessDatabaseState d s) l) (update_state d (\<lambda>t. t) s)"

definition Transaction_WriteBlob :: "db_handle \<Rightarrow> BlobLocation \<Rightarrow> byte list \<Rightarrow> 'n Session \<Rightarrow> 'n Session" where
  "Transaction_WriteBlob d l bs = update_state d (tx_WriteBlob l bs)"

definition create_in_state :: "db_handle \<Rightarrow> (DatabaseState \<Rightarrow> DatabaseState option) \<Rightarrow> 'n Session \<Rightarrow> ('n Session, unit) outcome" where
  "create_in_state d f s = (case f (AccessDatabaseState d s) of None \<Rightarrow> Stops | Some t \<Rightarrow> Returns () (put_state d t s))"

definition delete_in_state ::
  "db_handle \<Rightarrow> (DatabaseState \<Rightarrow> ClientException + DatabaseState) \<Rightarrow> 'n Session \<Rightarrow> ('n Session, unit) outcome" where
  "delete_in_state d f s = (case f (AccessDatabaseState d s) of
     Inl e \<Rightarrow> Throws e (update_state d (\<lambda>t. t) s) | Inr t \<Rightarrow> Returns () (put_state d t s))"

definition Transaction_ReadBlob :: "db_handle \<Rightarrow> BlobLocation \<Rightarrow> 'n Session \<Rightarrow> ('n Session, byte list option) outcome" where
  "Transaction_ReadBlob d l s = (case GetDatabaseState d s of
     None \<Rightarrow> Returns None s
   | Some t \<Rightarrow> (case tx_ReadBlob t l of Inl e \<Rightarrow> Throws e s | Inr r \<Rightarrow> Returns r s))"

text \<open>\<open>Transaction::UseStickyLocks(database, stickyLocks)\<close> and \<open>Database::ApplyStickyLocksToTansaction\<close>.\<close>

definition ApplyStickyLocks :: "db_handle \<Rightarrow> Transaction \<Rightarrow> 'n Session \<Rightarrow> ('n Session, unit) outcome" where
  "ApplyStickyLocks d tr s = andThen (database_of d s) (\<lambda>db s.
     case cdb_stickyLocks db of
       None \<Rightarrow> Returns () s
     | Some locks \<Rightarrow>
         if GetDatabaseState d s \<noteq> None then Stops
         else Returns () (put_state d (DatabaseState_new (Some locks))
           (put_database d (db\<lparr>cdb_cache := BlobCache_UpdateTxnIdForHeldLocks locks (tr_id tr) (cdb_cache db),
                              cdb_stickyLocks := None\<rparr>) s)))"

fun transfer_sticky_locks :: "connection_id \<Rightarrow> (database_id \<times> DatabaseState) list \<Rightarrow> 'n Session \<Rightarrow> ('n Session, unit) outcome" where
  "transfer_sticky_locks c [] s = Returns () s"
| "transfer_sticky_locks c ((i, t) # ts) s = andThen (database_of (c, i) s) (\<lambda>db s.
     if cdb_stickyLocks db \<noteq> None then Stops
     else transfer_sticky_locks c ts (put_database (c, i) (db\<lparr>cdb_stickyLocks := Some (tx_heldLocks t)\<rparr>) s))"

fun transfer_all :: "(connection_id \<times> Transaction) list \<Rightarrow> 'n Session \<Rightarrow> ('n Session, unit) outcome" where
  "transfer_all [] s = Returns () s"
| "transfer_all ((c, tr) # trs) s = andThen (transfer_sticky_locks c (tr_forDatabase tr) s) (\<lambda>_. transfer_all trs)"

definition TransferAndClearState :: "'n Session \<Rightarrow> ('n Session, unit) outcome" where
  "TransferAndClearState s = andThen (transfer_all (ss_active s) s) (\<lambda>_ s. Returns () (s\<lparr>ss_active := []\<rparr>))"

end
