(* ===== verification/Client_Database.thy ===== *)
theory Client_Database
  imports Client_Session
begin

text \<open>
  The operations of a client on a database (ClientLib/Database.cpp) and on its transactions
  (\<open>Transaction::Commit\<close> and \<open>Abort\<close> of ClientLib/Transaction.cpp). Every operation is given the interface of the
  connections and the state of the session.
\<close>

section \<open>Starting a transaction\<close>

fun txn_mode :: "bool \<Rightarrow> bool \<Rightarrow> TxnMode" where
  "txn_mode keepStickyLocks mvcc =
     (if mvcc then Txn_MVCC else if keepStickyLocks then Txn_UpdateKeepStickyLocks else Txn_Update)"

definition FixMVCC :: "ClientDatabase \<Rightarrow> ClientDatabase" where
  "FixMVCC db = db\<lparr>cdb_mvccActive := cdb_mvccSetting db\<rparr>"

definition fix_all :: "connection_id \<Rightarrow> 'n Session \<Rightarrow> 'n Session" where
  "fix_all c s = s\<lparr>ss_databases := (ss_databases s)(c := map (\<lambda>(i, db). (i, FixMVCC db)) (ss_databases s c))\<rparr>"

definition begin_message :: "connection_id \<Rightarrow> 'n Session \<Rightarrow> Message" where
  "begin_message c s = Msg_TransactionBegin \<lparr>tb_clientId = 0, tb_transactionPriority = ss_priority s,
     tb_databases = map (\<lambda>(i, db). (i, txn_mode (cdb_useStickyLocks db) (cdb_mvccActive db))) (ss_databases s c)\<rparr>"

fun update_sticky_locks :: "connection_id \<Rightarrow> (database_id \<times> bool \<times> BlobLocation list) list \<Rightarrow> 'n Session \<Rightarrow> ('n Session, unit) outcome" where
  "update_sticky_locks c [] s = Returns () s"
| "update_sticky_locks c ((i, keep, ls) # es) s =
     (case get_database (c, i) s of
        None \<Rightarrow> Throws EX_Exception s
      | Some db \<Rightarrow> update_sticky_locks c es
          (put_database (c, i) (db\<lparr>cdb_stickyLocks := map_option (HeldLocks_UpdateLocks keep ls) (cdb_stickyLocks db)\<rparr>) s))"

definition use_transaction :: "db_handle \<Rightarrow> Transaction \<Rightarrow> 'n Session \<Rightarrow> ('n Session, transaction_id) outcome" where
  "use_transaction d tr s = andThen (ApplyStickyLocks d tr s) (\<lambda>_. Returns (tr_id tr))"

definition start_transaction :: "db_handle \<Rightarrow> 'n Session \<Rightarrow> ('n Session, transaction_id) outcome" where
  "start_transaction d s = (let s = Transaction_Create (fst d) s in
     case Transaction_Get (fst d) s of None \<Rightarrow> Stops | Some tr \<Rightarrow> use_transaction d tr s)"

definition GetTransaction :: "'n Channel \<Rightarrow> db_handle \<Rightarrow> 'n Session \<Rightarrow> ('n Session, transaction_id) outcome" where
  "GetTransaction ch d s =
     (case Transaction_Get (fst d) s of
        Some tr \<Rightarrow> use_transaction d tr s
      | None \<Rightarrow> andThen (Network_Client (fst d) s) (\<lambda>_ s.
          if \<not> length (ss_databases s (fst d)) < 255 then Stops
          else let s = fix_all (fst d) s; s = send_message ch (fst d) (begin_message (fst d) s) s in
            andThen (Network_ExpectMessage ch is_TransactionBeginResponse (fst d) s) (\<lambda>m s.
              case m of
                TransactionBeginResponse es \<Rightarrow> andThen (update_sticky_locks (fst d) es s) (\<lambda>_. start_transaction d)
              | TransactionBeginError TB_ERROR_ALREADY_IN_TRANSACTION \<Rightarrow> Throws EX_TransactionAlreadyOpen s
              | _ \<Rightarrow> Stops)))"

section \<open>Errors of a read\<close>

fun abort_others :: "'n Channel \<Rightarrow> connection_id \<Rightarrow> (connection_id \<times> Transaction) list \<Rightarrow> 'n Session \<Rightarrow> ('n Session, unit) outcome" where
  "abort_others ch c [] s = Returns () s"
| "abort_others ch c ((k, tr) # trs) s =
     (if k = c then abort_others ch c trs s
      else andThen (Network_Client k s) (\<lambda>_ s. abort_others ch c trs (send_message ch k (Msg_TransactionAbort 0) s)))"

definition AbortDeadlock :: "'n Channel \<Rightarrow> connection_id \<Rightarrow> 'n Session \<Rightarrow> ('n Session, unit) outcome" where
  "AbortDeadlock ch c s = andThen (abort_others ch c (ss_active s) s) (\<lambda>_. TransferAndClearState)"

fun HandleReadBlobErrorResponse :: "'n Channel \<Rightarrow> connection_id \<Rightarrow> ReadCode \<Rightarrow> 'n Session \<Rightarrow> ('n Session, 'a) outcome" where
  "HandleReadBlobErrorResponse ch c BR_BLOB_DOES_NOT_EXIST s = Throws EX_BlobDoesNotExist s"
| "HandleReadBlobErrorResponse ch c BR_CLUSTER_DOES_NOT_EXIST s = Throws EX_ClusterDoesNotExist s"
| "HandleReadBlobErrorResponse ch c BR_SEGMENT_DOES_NOT_EXIST s = Throws EX_SegmentDoesNotExist s"
| "HandleReadBlobErrorResponse ch c BR_DATABASE_NOT_OPENED s = Throws EX_Exception s"
| "HandleReadBlobErrorResponse ch c BR_NO_TRANSACTION_IN_PROGRESS s = Throws EX_Exception s"
| "HandleReadBlobErrorResponse ch c BR_LOCK_TIMEOUT s = Throws EX_LockTimeout s"
| "HandleReadBlobErrorResponse ch c BR_DEADLOCK s =
     (if Transaction_Get c s = None then Stops else andThen (AbortDeadlock ch c s) (\<lambda>_. Throws EX_Deadlock))"
| "HandleReadBlobErrorResponse ch c _ s = Throws EX_Exception s"

section \<open>Reading\<close>

definition lock_rank :: "LockMode \<Rightarrow> nat" where
  "lock_rank m = (case m of LM_None \<Rightarrow> 0 | LM_Read \<Rightarrow> 1 | LM_Write \<Rightarrow> 2 | LM_Delete \<Rightarrow> 3)"

definition read_message :: "database_id \<Rightarrow> LockMode \<Rightarrow> int \<Rightarrow> BlobAddress list \<Rightarrow> Message" where
  "read_message i m timeout bs = Msg_BlobsRead \<lparr>br_clientId = 0, br_databaseId = i, br_lockMode = m,
     br_lockTimeoutMs = timeout, br_blobs = bs\<rparr>"

text \<open>Sending a request and waiting for the first answer.\<close>

definition request_blobs ::
  "'n Channel \<Rightarrow> db_handle \<Rightarrow> LockMode \<Rightarrow> int \<Rightarrow> BlobAddress list \<Rightarrow> 'n Session \<Rightarrow> ('n Session, Response) outcome" where
  "request_blobs ch d m timeout bs s =
     andThen (Network_Client (fst d) s) (\<lambda>_ s.
       Network_ExpectMessage ch is_BlobsReadResponse (fst d) (send_message ch (fst d) (read_message (snd d) m timeout bs) s))"

definition WriteLockNoContent :: "'n Channel \<Rightarrow> db_handle \<Rightarrow> BlobLocation \<Rightarrow> 'n Session \<Rightarrow> ('n Session, unit) outcome" where
  "WriteLockNoContent ch d l s =
     andThen (GetTransaction ch d s) (\<lambda>_ s.
     andThen (database_of d s) (\<lambda>db s.
     if cdb_mvccActive db then Throws EX_CannotWriteLockInMVCC s
     else andThen (request_blobs ch d LM_Delete (cdb_lockTimeoutMs db) [\<lparr>ba_location = l, ba_cacheCommitId = 0\<rparr>] s) (\<lambda>m s.
       case m of
         BlobsReadResponse [(l', k, bs)] False \<Rightarrow>
           if bs = [] \<and> k = 0 then Returns () (Transaction_AcquiredLock d l LM_Write s) else Stops
       | BlobsReadError e \<Rightarrow> HandleReadBlobErrorResponse ch (fst d) e s
       | _ \<Rightarrow> Stops)))"

definition DirtyReadBlobInternal :: "'n Channel \<Rightarrow> db_handle \<Rightarrow> BlobLocation \<Rightarrow> 'n Session \<Rightarrow> ('n Session, byte list) outcome" where
  "DirtyReadBlobInternal ch d l s =
     andThen (request_blobs ch d LM_None (- 1) [\<lparr>ba_location = l, ba_cacheCommitId = 0\<rparr>] s) (\<lambda>m s.
       case m of
         BlobsReadResponse [(l', k, bs)] False \<Rightarrow> Returns bs s
       | BlobsReadError e \<Rightarrow> HandleReadBlobErrorResponse ch (fst d) e s
       | _ \<Rightarrow> Stops)"

definition cached_commit :: "CachedBlob option \<Rightarrow> commit_id" where
  "cached_commit cached = (case cached of None \<Rightarrow> 0 | Some b \<Rightarrow> cb_lastUpdated b)"

text \<open>Storing what the server answered; the version in the cache is used when the server has no newer one.\<close>

definition receive_blob ::
  "db_handle \<Rightarrow> LockMode \<Rightarrow> transaction_id \<Rightarrow> BlobAddress \<Rightarrow> response_blob \<Rightarrow> 'n Session \<Rightarrow> ('n Session, byte list) outcome" where
  "receive_blob d lock txn a r s =
     (case r of (l', k, bs) \<Rightarrow>
        andThen (database_of d s) (\<lambda>db s.
          let l = ba_location a;
              cache = (if k \<noteq> ba_cacheCommitId a then BlobCache_Set l bs k txn (cdb_cache db) else cdb_cache db);
              s = Transaction_AcquiredLock d l lock (put_database d (db\<lparr>cdb_cache := cache\<rparr>) s) in
          case cache l of None \<Rightarrow> Stops | Some b \<Rightarrow> Returns (cb_data b) s))"

definition ReadFromServer ::
  "'n Channel \<Rightarrow> db_handle \<Rightarrow> BlobLocation \<Rightarrow> LockMode \<Rightarrow> transaction_id \<Rightarrow> 'n Session \<Rightarrow> ('n Session, byte list) outcome" where
  "ReadFromServer ch d l lock txn s =
     andThen (database_of d s) (\<lambda>db s.
     let a = \<lparr>ba_location = l, ba_cacheCommitId = cached_commit (cdb_cache db l)\<rparr> in
     andThen (request_blobs ch d lock (cdb_lockTimeoutMs db) [a] s) (\<lambda>m s.
       case m of
         BlobsReadResponse [r] False \<Rightarrow> receive_blob d lock txn a r s
       | BlobsReadError e \<Rightarrow> HandleReadBlobErrorResponse ch (fst d) e s
       | _ \<Rightarrow> Stops))"

definition ReadBlobInternal ::
  "'n Channel \<Rightarrow> db_handle \<Rightarrow> BlobLocation \<Rightarrow> LockMode \<Rightarrow> 'n Session \<Rightarrow> ('n Session, byte list) outcome" where
  "ReadBlobInternal ch d l lock s =
     (if lock = LM_None then DirtyReadBlobInternal ch d l s
      else andThen (GetTransaction ch d s) (\<lambda>txn s.
        andThen (database_of d s) (\<lambda>db s.
        if lock = LM_Write \<and> cdb_mvccActive db then Throws EX_CannotWriteLockInMVCC s
        else andThen (Transaction_ReadBlob d l s) (\<lambda>written s.
          case written of
            Some bs \<Rightarrow> Returns bs s
          | None \<Rightarrow>
              let currentLock = Transaction_GetLockType d l s in
              case cdb_cache db l of
                Some b \<Rightarrow>
                  if cb_transactionId b = txn \<and> lock_rank currentLock \<ge> lock_rank lock then Returns (cb_data b) s
                  else if cb_transactionId b = txn \<and> currentLock = LM_Read
                  then andThen (WriteLockNoContent ch d l s) (\<lambda>_. Returns (cb_data b))
                  else ReadFromServer ch d l lock txn s
              | None \<Rightarrow> ReadFromServer ch d l lock txn s))))"

definition check_ids :: "segment_id \<Rightarrow> cluster_id \<Rightarrow> blob_id \<Rightarrow> bool" where
  "check_ids s c b = (s \<le> MaxSegmentId \<and> c \<le> MaxClusterId \<and> b \<le> MaxBlobId)"

definition cdb_ReadBlob ::
  "'n Channel \<Rightarrow> db_handle \<Rightarrow> segment_id \<Rightarrow> cluster_id \<Rightarrow> blob_id \<Rightarrow> LockMode \<Rightarrow> 'n Session \<Rightarrow> ('n Session, byte list) outcome" where
  "cdb_ReadBlob ch d s c b lock st =
     (if \<not> check_ids s c b then Throws EX_Exception st else ReadBlobInternal ch d (BlobLocation s c b) lock st)"

definition set_lock_timeout :: "db_handle \<Rightarrow> int \<Rightarrow> 'n Session \<Rightarrow> 'n Session" where
  "set_lock_timeout d t = update_database d (\<lambda>db. db\<lparr>cdb_lockTimeoutMs := t\<rparr>)"

text \<open>The timeout is reset however the read ends.\<close>

definition cdb_TryReadBlob ::
  "'n Channel \<Rightarrow> db_handle \<Rightarrow> segment_id \<Rightarrow> cluster_id \<Rightarrow> blob_id \<Rightarrow> LockMode \<Rightarrow> 'n Session \<Rightarrow> ('n Session, bool) outcome" where
  "cdb_TryReadBlob ch d s c b lock st =
     (if lock = LM_None then Returns False st
      else andThen (database_of d st) (\<lambda>db st.
        let saved = cdb_lockTimeoutMs db in
        case cdb_ReadBlob ch d s c b lock (set_lock_timeout d 0 st) of
          Returns _ st \<Rightarrow> Returns True (set_lock_timeout d saved st)
        | Throws e st \<Rightarrow> if e = EX_LockTimeout then Returns False (set_lock_timeout d saved st)
                          else Throws e (set_lock_timeout d saved st)
        | Stops \<Rightarrow> Stops))"

section \<open>Writing\<close>

definition WriteBlobInternal :: "'n Channel \<Rightarrow> db_handle \<Rightarrow> BlobLocation \<Rightarrow> byte list \<Rightarrow> 'n Session \<Rightarrow> ('n Session, unit) outcome" where
  "WriteBlobInternal ch d l bs s =
     andThen (GetTransaction ch d s) (\<lambda>_ s.
     andThen (Transaction_EnsureBlobNotDeleted d l s) (\<lambda>_ s.
     andThen (if Transaction_GetLockType d l s \<noteq> LM_Write then WriteLockNoContent ch d l s else Returns () s) (\<lambda>_ s.
       Returns () (Transaction_WriteBlob d l bs s))))"

definition cdb_WriteBlob ::
  "'n Channel \<Rightarrow> db_handle \<Rightarrow> segment_id \<Rightarrow> cluster_id \<Rightarrow> blob_id \<Rightarrow> byte list \<Rightarrow> 'n Session \<Rightarrow> ('n Session, unit) outcome" where
  "cdb_WriteBlob ch d s c b bs st =
     (if \<not> check_ids s c b then Throws EX_Exception st
      else if length bs > unat MaxBlobSize then Throws EX_BlobTooLarge st
      else WriteBlobInternal ch d (BlobLocation s c b) bs st)"

section \<open>Id lists\<close>

definition u32_list :: "byte list \<Rightarrow> uint32_t list" where
  "u32_list bs = map (\<lambda>i. u32_of (take 4 (drop (4 * i) bs))) [0..<length bs div 4]"

text \<open>The ids from \<open>begin\<close> up to \<open>end\<close>, counted with wrap-around as the loop does.\<close>

definition id_range :: "uint32_t \<Rightarrow> uint32_t \<Rightarrow> uint32_t list" where
  "id_range b e = map (\<lambda>i. b + of_nat i) [0..<unat (e - b)]"

fun ids_of_ranges :: "uint32_t list \<Rightarrow> uint32_t list" where
  "ids_of_ranges (b # e # rs) = id_range b e @ ids_of_ranges rs"
| "ids_of_ranges _ = []"

definition list_ids :: "byte list \<Rightarrow> uint32_t list" where
  "list_ids bs = ids_of_ranges (u32_list bs)"

definition optional_transaction :: "'n Channel \<Rightarrow> db_handle \<Rightarrow> LockMode \<Rightarrow> 'n Session \<Rightarrow> ('n Session, unit) outcome" where
  "optional_transaction ch d lock s =
     (if lock = LM_None then Returns () s else andThen (GetTransaction ch d s) (\<lambda>_. Returns ()))"

text \<open>Reading an id list unless the object was created in the transaction, and merging it with the changes of the transaction.\<close>

definition read_ids ::
  "'n Channel \<Rightarrow> db_handle \<Rightarrow> BlobLocation \<Rightarrow> LockMode \<Rightarrow> bool \<Rightarrow> 'n Session \<Rightarrow> ('n Session, uint32_t list) outcome" where
  "read_ids ch d l lock created s =
     (if created then Returns [] s else andThen (ReadBlobInternal ch d l lock s) (\<lambda>bs. Returns (list_ids bs)))"

definition merge_ids ::
  "db_handle \<Rightarrow> LockMode \<Rightarrow> (DatabaseState \<Rightarrow> uint32_t list \<Rightarrow> uint32_t list option) \<Rightarrow> uint32_t list \<Rightarrow> 'n Session
     \<Rightarrow> ('n Session, uint32_t list) outcome" where
  "merge_ids d lock merge ids s =
     (if lock = LM_None then Returns ids s
      else case GetDatabaseState d s of None \<Rightarrow> Returns ids s | Some t \<Rightarrow> asserted (merge t ids) s)"

text \<open>\<open>IsCreatedCluster\<close> and \<open>IsCreatedSegment\<close> access the state of the database and create it thereby.\<close>

definition created_in_state :: "db_handle \<Rightarrow> LockMode \<Rightarrow> (DatabaseState \<Rightarrow> bool) \<Rightarrow> 'n Session \<Rightarrow> ('n Session, bool) outcome" where
  "created_in_state d lock P s =
     (if lock = LM_None then Returns False s
      else Returns (P (AccessDatabaseState d s)) (update_state d (\<lambda>t. t) s))"

definition cdb_GetAllBlobs ::
  "'n Channel \<Rightarrow> db_handle \<Rightarrow> segment_id \<Rightarrow> cluster_id \<Rightarrow> LockMode \<Rightarrow> 'n Session \<Rightarrow> ('n Session, blob_id list) outcome" where
  "cdb_GetAllBlobs ch d s c lock st =
     (if s > MaxSegmentId \<or> c > MaxClusterId then Throws EX_Exception st
      else andThen (optional_transaction ch d lock st) (\<lambda>_ st.
        andThen (created_in_state d lock (\<lambda>t. IsClusterCreated t s c) st) (\<lambda>created st.
        andThen (read_ids ch d (BlobLocation s c BlobListId) lock created st)
          (merge_ids d lock (MergeBlobIdList s c)))))"

definition cdb_GetAllClusters ::
  "'n Channel \<Rightarrow> db_handle \<Rightarrow> segment_id \<Rightarrow> LockMode \<Rightarrow> 'n Session \<Rightarrow> ('n Session, cluster_id list) outcome" where
  "cdb_GetAllClusters ch d s lock st =
     (if s > MaxSegmentId then Throws EX_Exception st
      else andThen (optional_transaction ch d lock st) (\<lambda>_ st.
        andThen (created_in_state d lock (\<lambda>t. IsSegmentCreated t s) st) (\<lambda>created st.
        andThen (read_ids ch d (cluster_list_of s) lock created st)
          (merge_ids d lock (MergeClusterIdList s)))))"

definition cdb_GetAllSegments :: "'n Channel \<Rightarrow> db_handle \<Rightarrow> LockMode \<Rightarrow> 'n Session \<Rightarrow> ('n Session, segment_id list) outcome" where
  "cdb_GetAllSegments ch d lock st =
     andThen (optional_transaction ch d lock st) (\<lambda>_ st.
     andThen (read_ids ch d segment_list lock False st) (merge_ids d lock (\<lambda>t ids. Some (MergeSegmentIdList t ids))))"

section \<open>Creating\<close>

definition read_id :: "'n Channel \<Rightarrow> db_handle \<Rightarrow> BlobLocation \<Rightarrow> 'n Session \<Rightarrow> ('n Session, uint32_t) outcome" where
  "read_id ch d l s = andThen (ReadBlobInternal ch d l LM_Write s) (\<lambda>bs s.
     if length bs \<noteq> 4 then Stops else Returns (u32_of bs) s)"

definition AcquiredWriteLocks :: "db_handle \<Rightarrow> BlobLocation list \<Rightarrow> 'n Session \<Rightarrow> 'n Session" where
  "AcquiredWriteLocks d ls s = fold (\<lambda>l. Transaction_AcquiredLock d l LM_Write) ls s"

definition next_blob :: "segment_id \<Rightarrow> cluster_id \<Rightarrow> BlobLocation" where
  "next_blob s c = BlobLocation s c NextFreeBlobId"

definition next_cluster :: "segment_id \<Rightarrow> BlobLocation" where
  "next_cluster s = BlobLocation s NextFreeClusterId NextFreeBlobId"

definition next_segment_location :: BlobLocation where
  "next_segment_location = BlobLocation NextFreeSegmentId NextFreeClusterId NextFreeBlobId"

definition CreateBlobInternal :: "'n Channel \<Rightarrow> db_handle \<Rightarrow> segment_id \<Rightarrow> cluster_id \<Rightarrow> 'n Session \<Rightarrow> ('n Session, blob_id) outcome" where
  "CreateBlobInternal ch d s c st =
     andThen (read_id ch d (next_blob s c) st) (\<lambda>b st.
     let st = AcquiredWriteLocks d [BlobLocation s c BlobListId] st; l = BlobLocation s c b in
     if b > MaxBlobId then Throws EX_BlobLimitReached st
     else andThen (WriteBlobInternal ch d (next_blob s c) (u32_bytes (b + 1)) st) (\<lambda>_ st.
       andThen (create_in_state d (tx_CreateBlob l) (AcquiredWriteLocks d [l] st)) (\<lambda>_. Returns b)))"

text \<open>The binary search for the id in the list of all blobs, which is in ascending order.\<close>

definition blob_exists :: "blob_id \<Rightarrow> blob_id list \<Rightarrow> bool" where
  "blob_exists b ids = (case dropWhile (\<lambda>x. x < b) ids of [] \<Rightarrow> False | x # _ \<Rightarrow> x = b)"

definition CreateBlobInternalAt ::
  "'n Channel \<Rightarrow> db_handle \<Rightarrow> segment_id \<Rightarrow> cluster_id \<Rightarrow> blob_id \<Rightarrow> 'n Session \<Rightarrow> ('n Session, unit) outcome" where
  "CreateBlobInternalAt ch d s c b st =
     andThen (read_id ch d (next_blob s c) st) (\<lambda>next st.
     let st = AcquiredWriteLocks d [BlobLocation s c BlobListId] st; l = BlobLocation s c b in
     andThen (if b \<ge> next then Returns (b + 1) st
              else andThen (cdb_GetAllBlobs ch d s c LM_Read st) (\<lambda>ids st.
                if blob_exists b ids then Throws EX_BlobAlreadyExists st else Returns next st)) (\<lambda>next st.
     andThen (WriteBlobInternal ch d (next_blob s c) (u32_bytes next) st) (\<lambda>_ st.
       create_in_state d (tx_CreateBlob l) (AcquiredWriteLocks d [l] st))))"

definition cdb_CreateBlob ::
  "'n Channel \<Rightarrow> db_handle \<Rightarrow> segment_id \<Rightarrow> cluster_id \<Rightarrow> byte list \<Rightarrow> 'n Session \<Rightarrow> ('n Session, blob_id) outcome" where
  "cdb_CreateBlob ch d s c bs st =
     (if length bs > unat MaxBlobSize then Throws EX_BlobTooLarge st
      else if s > MaxSegmentId \<or> c > MaxClusterId then Throws EX_Exception st
      else andThen (CreateBlobInternal ch d s c st) (\<lambda>b st.
        andThen (WriteBlobInternal ch d (BlobLocation s c b) bs st) (\<lambda>_. Returns b)))"

definition cdb_CreateBlobAt ::
  "'n Channel \<Rightarrow> db_handle \<Rightarrow> segment_id \<Rightarrow> cluster_id \<Rightarrow> blob_id \<Rightarrow> byte list \<Rightarrow> 'n Session \<Rightarrow> ('n Session, unit) outcome" where
  "cdb_CreateBlobAt ch d s c b bs st =
     (if length bs > unat MaxBlobSize then Throws EX_BlobTooLarge st
      else if \<not> check_ids s c b then Throws EX_Exception st
      else andThen (CreateBlobInternalAt ch d s c b st) (\<lambda>_. WriteBlobInternal ch d (BlobLocation s c b) bs))"

definition cdb_CreateCluster :: "'n Channel \<Rightarrow> db_handle \<Rightarrow> segment_id \<Rightarrow> 'n Session \<Rightarrow> ('n Session, cluster_id) outcome" where
  "cdb_CreateCluster ch d s st =
     (if s > MaxSegmentId then Throws EX_Exception st
      else andThen (read_id ch d (next_cluster s) st) (\<lambda>c st.
        let st = AcquiredWriteLocks d [cluster_list_of s] st in
        if c > MaxClusterId then Throws EX_ClusterLimitReached st
        else andThen (WriteBlobInternal ch d (next_cluster s) (u32_bytes (c + 1)) st) (\<lambda>_ st.
          let st = AcquiredWriteLocks d [next_blob s c, BlobLocation s c ClusterDeleteId, BlobLocation s c BlobListId] st in
          andThen (create_in_state d (tx_CreateCluster s c) st) (\<lambda>_ st.
          andThen (WriteBlobInternal ch d (next_blob s c) (u32_bytes 0) st) (\<lambda>_ st.
          andThen (cdb_CreateBlob ch d s c [] st) (\<lambda>_. Returns c))))))"

definition cdb_CreateSegment :: "'n Channel \<Rightarrow> db_handle \<Rightarrow> 'n Session \<Rightarrow> ('n Session, segment_id) outcome" where
  "cdb_CreateSegment ch d st =
     andThen (read_id ch d next_segment_location st) (\<lambda>s st.
     let st = AcquiredWriteLocks d [segment_list] st in
     if s > MaxSegmentId then Throws EX_SegmentLimitReached st
     else andThen (WriteBlobInternal ch d next_segment_location (u32_bytes (s + 1)) st) (\<lambda>_ st.
       let st = AcquiredWriteLocks d [next_cluster s, BlobLocation s SegmentDeleteId ClusterDeleteId, cluster_list_of s] st in
       andThen (create_in_state d (tx_CreateSegment s) st) (\<lambda>_ st.
       andThen (WriteBlobInternal ch d (next_cluster s) (u32_bytes 0) st) (\<lambda>_ st.
       andThen (cdb_CreateCluster ch d s st) (\<lambda>_. Returns s)))))"

section \<open>Deleting\<close>

definition need_write_lock :: "'n Channel \<Rightarrow> db_handle \<Rightarrow> BlobLocation \<Rightarrow> BlobLocation list \<Rightarrow> 'n Session \<Rightarrow> ('n Session, unit) outcome" where
  "need_write_lock ch d l implied s =
     (if Transaction_GetLockType d l s = LM_Write then Returns () s
      else andThen (WriteLockNoContent ch d l s) (\<lambda>_ s. Returns () (AcquiredWriteLocks d implied s)))"

definition update_cache :: "db_handle \<Rightarrow> (BlobCache \<Rightarrow> BlobCache) \<Rightarrow> 'n Session \<Rightarrow> 'n Session" where
  "update_cache d f = update_database d (\<lambda>db. db\<lparr>cdb_cache := f (cdb_cache db)\<rparr>)"

definition cdb_DeleteBlob ::
  "'n Channel \<Rightarrow> db_handle \<Rightarrow> segment_id \<Rightarrow> cluster_id \<Rightarrow> blob_id \<Rightarrow> 'n Session \<Rightarrow> ('n Session, unit) outcome" where
  "cdb_DeleteBlob ch d s c b st = (let l = BlobLocation s c b in
     andThen (GetTransaction ch d st) (\<lambda>_ st.
     andThen (need_write_lock ch d (BlobLocation s c BlobListId) [] st) (\<lambda>_ st.
     andThen (need_write_lock ch d l [] st) (\<lambda>_ st.
     andThen (delete_in_state d (tx_DeleteBlob l) st) (\<lambda>_ st.
       Returns () (update_cache d (BlobCache_RemoveBlob l) st))))))"

definition cdb_DeleteCluster :: "'n Channel \<Rightarrow> db_handle \<Rightarrow> segment_id \<Rightarrow> cluster_id \<Rightarrow> 'n Session \<Rightarrow> ('n Session, unit) outcome" where
  "cdb_DeleteCluster ch d s c st =
     andThen (GetTransaction ch d st) (\<lambda>_ st.
     andThen (need_write_lock ch d (BlobLocation s c ClusterDeleteId) [cluster_list_of s] st) (\<lambda>_ st.
     andThen (delete_in_state d (tx_DeleteCluster s c) st) (\<lambda>_ st.
       Returns () (update_cache d (BlobCache_RemoveCluster s c) st))))"

definition cdb_DeleteSegment :: "'n Channel \<Rightarrow> db_handle \<Rightarrow> segment_id \<Rightarrow> 'n Session \<Rightarrow> ('n Session, unit) outcome" where
  "cdb_DeleteSegment ch d s st =
     andThen (GetTransaction ch d st) (\<lambda>_ st.
     andThen (need_write_lock ch d (BlobLocation s SegmentDeleteId ClusterDeleteId) [segment_list] st) (\<lambda>_ st.
     andThen (delete_in_state d (tx_DeleteSegment s) st) (\<lambda>_ st.
       Returns () (update_cache d (BlobCache_RemoveSegment s) st))))"

end
