(* ===== verification/Client_Requests.thy ===== *)
theory Client_Requests
  imports Client_Database
begin

text \<open>
  Requests for several blobs (\<open>ReadBlobs\<close> and \<open>WriteBlobs\<close> of ClientLib/Database.cpp, ClientLib/MultiBlobRequest.cpp),
  committing and aborting (ClientLib/Transaction.cpp), opening and closing databases (ClientLib/Database.cpp).
\<close>

section \<open>Requests for several blobs\<close>

text \<open>An entry of a \<open>MultiBlobRequest\<close>: the location and the data it points to.\<close>

record BlobEntry =
  be_location :: BlobLocation
  be_data :: "byte list"

definition MAX_BLOBS_PER_REQUEST :: nat where
  "MAX_BLOBS_PER_REQUEST = 255"

definition MultiBlobRequest_Create :: "nat \<Rightarrow> ClientException + BlobEntry list" where
  "MultiBlobRequest_Create nBlobs =
     (if nBlobs > MAX_BLOBS_PER_REQUEST then Inl EX_Exception
      else Inr (replicate nBlobs \<lparr>be_location = BlobLocation 0 0 0, be_data = []\<rparr>))"

fun set_range_locations :: "segment_id \<Rightarrow> cluster_id \<Rightarrow> blob_id \<Rightarrow> BlobEntry list \<Rightarrow> BlobEntry list" where
  "set_range_locations s c b [] = []"
| "set_range_locations s c b (e # es) = e\<lparr>be_location := BlobLocation s c b\<rparr> # set_range_locations s c (b + 1) es"

definition MultiBlobRequest_SetBlobRange ::
  "segment_id \<Rightarrow> cluster_id \<Rightarrow> blob_id \<Rightarrow> BlobEntry list \<Rightarrow> ClientException + BlobEntry list" where
  "MultiBlobRequest_SetBlobRange s c startBlob entries =
     (if unat startBlob + length entries \<ge> unat MaxBlobId then Inl EX_Exception
      else Inr (set_range_locations s c startBlob entries))"

definition valid_location :: "BlobLocation \<Rightarrow> bool" where
  "valid_location l = check_ids (segment l) (cluster l) (blob l)"

section \<open>Reading several blobs\<close>

text \<open>What is known of an entry before the request: its content, or the address to request.\<close>

fun prepare_reads ::
  "db_handle \<Rightarrow> LockMode \<Rightarrow> transaction_id \<Rightarrow> BlobLocation list \<Rightarrow> 'n Session \<Rightarrow> ('n Session, (byte list + BlobAddress) list) outcome" where
  "prepare_reads d lock txn [] s = Returns [] s"
| "prepare_reads d lock txn (l # ls) s =
     andThen (if lock = LM_None then Returns (Inr \<lparr>ba_location = l, ba_cacheCommitId = 0\<rparr>) s
              else andThen (Transaction_ReadBlob d l s) (\<lambda>written s.
                andThen (database_of d s) (\<lambda>db s.
                case written of
                  Some bs \<Rightarrow> Returns (Inl bs) s
                | None \<Rightarrow> (case cdb_cache db l of
                    Some b \<Rightarrow> if cb_transactionId b = txn \<and> lock_rank (Transaction_GetLockType d l s) \<ge> lock_rank lock
                              then Returns (Inl (cb_data b)) s
                              else Returns (Inr \<lparr>ba_location = l, ba_cacheCommitId = cb_lastUpdated b\<rparr>) s
                  | None \<Rightarrow> Returns (Inr \<lparr>ba_location = l, ba_cacheCommitId = 0\<rparr>) s)))) (\<lambda>x s.
     andThen (prepare_reads d lock txn ls s) (\<lambda>xs. Returns (x # xs)))"

fun addresses_to_load :: "(byte list + BlobAddress) list \<Rightarrow> BlobAddress list" where
  "addresses_to_load [] = []"
| "addresses_to_load (Inl bs # xs) = addresses_to_load xs"
| "addresses_to_load (Inr a # xs) = a # addresses_to_load xs"

text \<open>The blobs of one answer, in the order they were requested; more blobs than requested fail an assertion.\<close>

fun receive_blobs ::
  "db_handle \<Rightarrow> LockMode \<Rightarrow> transaction_id \<Rightarrow> response_blob list \<Rightarrow> BlobAddress list \<Rightarrow> 'n Session
     \<Rightarrow> ('n Session, byte list list \<times> BlobAddress list) outcome" where
  "receive_blobs d lock txn [] as s = Returns ([], as) s"
| "receive_blobs d lock txn (r # rs) [] s = Stops"
| "receive_blobs d lock txn (r # rs) (a # as) s =
     (if fst r \<noteq> ba_location a then Stops
      else andThen (if lock = LM_None then Returns (snd (snd r)) s else receive_blob d lock txn a r s) (\<lambda>bs s.
        andThen (receive_blobs d lock txn rs as s) (\<lambda>(bss, as) s. Returns (bs # bss, as) s)))"

text \<open>The loop over the messages of an answer ends when the server sends one without a follow flag; \<open>None\<close> is a loop that does
  not end. The blobs received so far are passed along.\<close>

partial_function (option) receive_messages ::
  "'n Channel \<Rightarrow> db_handle \<Rightarrow> LockMode \<Rightarrow> transaction_id \<Rightarrow> BlobAddress list \<Rightarrow> byte list list \<Rightarrow> 'n Session
     \<Rightarrow> ('n Session, byte list list) outcome option" where
  "receive_messages ch d lock txn as done s =
     (case Network_ExpectMessage ch is_BlobsReadResponse (fst d) s of
        Returns m s \<Rightarrow> (case m of
            BlobsReadResponse rs follow \<Rightarrow> (case receive_blobs d lock txn rs as s of
                Returns p s \<Rightarrow> if follow then receive_messages ch d lock txn (snd p) (done @ fst p) s
                               else Some (Returns (done @ fst p) s)
              | Throws e s \<Rightarrow> Some (Throws e s)
              | Stops \<Rightarrow> Some Stops)
          | BlobsReadError e \<Rightarrow> Some (HandleReadBlobErrorResponse ch (fst d) e s)
          | _ \<Rightarrow> Some Stops)
      | Throws e s \<Rightarrow> Some (Throws e s)
      | Stops \<Rightarrow> Some Stops)"

text \<open>The loaded contents go to the entries that were requested; an entry without an answer keeps a null pointer, here no data.\<close>

fun fill_entries :: "(byte list + BlobAddress) list \<Rightarrow> byte list list \<Rightarrow> byte list list" where
  "fill_entries [] bss = []"
| "fill_entries (Inl bs # xs) bss = bs # fill_entries xs bss"
| "fill_entries (Inr a # xs) [] = [] # fill_entries xs []"
| "fill_entries (Inr a # xs) (bs # bss) = bs # fill_entries xs bss"

definition cdb_ReadBlobs ::
  "'n Channel \<Rightarrow> db_handle \<Rightarrow> BlobLocation list \<Rightarrow> LockMode \<Rightarrow> 'n Session \<Rightarrow> ('n Session, byte list list) outcome option" where
  "cdb_ReadBlobs ch d ls lock s =
     (if length ls > MAX_BLOBS_PER_REQUEST then Some (Throws EX_Exception s)
      else if \<not> list_all valid_location ls then Some (Throws EX_Exception s)
      else case andThen (if lock = LM_None then Returns 0 s else GetTransaction ch d s) (\<lambda>txn s.
             andThen (database_of d s) (\<lambda>db s.
             if lock = LM_Write \<and> cdb_mvccActive db then Throws EX_CannotWriteLockInMVCC s
             else andThen (prepare_reads d lock txn ls s) (\<lambda>xs. Returns (txn, cdb_lockTimeoutMs db, xs)))) of
        Stops \<Rightarrow> Some Stops
      | Throws e s \<Rightarrow> Some (Throws e s)
      | Returns p s \<Rightarrow> (case p of (txn, timeout, xs) \<Rightarrow>
          let as = addresses_to_load xs in
          if as = [] then Some (Returns (fill_entries xs []) s)
          else case Network_Client (fst d) s of
              Stops \<Rightarrow> Some Stops
            | Throws e s \<Rightarrow> Some (Throws e s)
            | Returns _ s \<Rightarrow>
                map_option (\<lambda>r. andThen r (\<lambda>bss. Returns (fill_entries xs bss)))
                  (receive_messages ch d lock txn as [] (send_message ch (fst d) (read_message (snd d) lock timeout as) s))))"

section \<open>Writing several blobs\<close>

fun missing_write_locks :: "db_handle \<Rightarrow> BlobLocation list \<Rightarrow> 'n Session \<Rightarrow> ('n Session, BlobLocation list) outcome" where
  "missing_write_locks d [] s = Returns [] s"
| "missing_write_locks d (l # ls) s =
     andThen (Transaction_EnsureBlobNotDeleted d l s) (\<lambda>_ s.
     andThen (missing_write_locks d ls s) (\<lambda>missing s.
       Returns (if Transaction_GetLockType d l s \<noteq> LM_Write then l # missing else missing) s))"

definition empty_answer :: "BlobLocation \<Rightarrow> response_blob \<Rightarrow> bool" where
  "empty_answer l r = (case r of (l', k, bs) \<Rightarrow> l' = l \<and> bs = [] \<and> k = 0)"

definition acquire_write_locks :: "'n Channel \<Rightarrow> db_handle \<Rightarrow> int \<Rightarrow> BlobLocation list \<Rightarrow> 'n Session \<Rightarrow> ('n Session, unit) outcome" where
  "acquire_write_locks ch d timeout ls s =
     (if ls = [] then Returns () s
      else andThen (request_blobs ch d LM_Delete timeout (map (\<lambda>l. \<lparr>ba_location = l, ba_cacheCommitId = 0\<rparr>) ls) s) (\<lambda>m s.
        case m of
          BlobsReadResponse rs follow \<Rightarrow>
            if length rs \<noteq> length ls \<or> follow then Throws EX_Exception s
            else if list_all2 empty_answer ls rs then Returns () (AcquiredWriteLocks d ls s)
            else Stops
        | BlobsReadError e \<Rightarrow> HandleReadBlobErrorResponse ch (fst d) e s
        | _ \<Rightarrow> Stops))"

definition cdb_WriteBlobs :: "'n Channel \<Rightarrow> db_handle \<Rightarrow> BlobEntry list \<Rightarrow> 'n Session \<Rightarrow> ('n Session, unit) outcome" where
  "cdb_WriteBlobs ch d es s =
     (if length es > MAX_BLOBS_PER_REQUEST then Throws EX_Exception s
      else case find (\<lambda>e. \<not> valid_location (be_location e) \<or> length (be_data e) > unat MaxBlobSize) es of
        Some e \<Rightarrow> Throws (if \<not> valid_location (be_location e) then EX_Exception else EX_BlobTooLarge) s
      | None \<Rightarrow> andThen (GetTransaction ch d s) (\<lambda>_ s.
          andThen (database_of d s) (\<lambda>db s.
          if cdb_mvccActive db then Throws EX_CannotWriteLockInMVCC s
          else andThen (missing_write_locks d (map be_location es) s) (\<lambda>ls s.
            andThen (acquire_write_locks ch d (cdb_lockTimeoutMs db) ls s) (\<lambda>_ s.
              Returns () (fold (\<lambda>e. Transaction_WriteBlob d (be_location e) (be_data e)) es s))))))"

section \<open>Committing\<close>

fun send_all :: "'n Channel \<Rightarrow> connection_id \<Rightarrow> TransactionCommit list \<Rightarrow> 'n Session \<Rightarrow> 'n Session" where
  "send_all ch c [] s = s"
| "send_all ch c (m # ms) s = send_all ch c ms (send_message ch c (Msg_TransactionCommit m) s)"

fun send_commits :: "'n Channel \<Rightarrow> (connection_id \<times> Transaction) list \<Rightarrow> 'n Session \<Rightarrow> ('n Session, unit) outcome" where
  "send_commits ch [] s = Returns () s"
| "send_commits ch ((c, tr) # trs) s =
     andThen (asserted (State_ConstructCommitMessages (tr_forDatabase tr) (map fst (ss_databases s c))) s) (\<lambda>ms s.
     andThen (Network_Client c s) (\<lambda>_ s. send_commits ch trs (send_all ch c ms s)))"

text \<open>The written data moves into the cache, which leaves empty vectors behind.\<close>

definition update_committed :: "connection_id \<Rightarrow> transaction_id \<Rightarrow> database_id \<times> commit_id \<Rightarrow> 'n Session \<Rightarrow> 'n Session" where
  "update_committed c txn entry s =
     (case entry of (i, k) \<Rightarrow>
        case GetDatabaseState (c, i) s of
          None \<Rightarrow> s
        | Some t \<Rightarrow> put_state (c, i) (t\<lparr>tx_writtenBlobs := map (\<lambda>(l, bs). (l, [])) (tx_writtenBlobs t)\<rparr>)
            (update_cache (c, i) (fold (\<lambda>(l, bs). BlobCache_Update l bs k txn) (tx_writtenBlobs t)) s))"

fun await_commits :: "'n Channel \<Rightarrow> (connection_id \<times> Transaction) list \<Rightarrow> 'n Session \<Rightarrow> ('n Session, unit) outcome" where
  "await_commits ch [] s = Returns () s"
| "await_commits ch ((c, tr) # trs) s = andThen (await_reply ch c s) (\<lambda>r s.
     case r of
       Reply_Message (TransactionCommitResponse es) \<Rightarrow> await_commits ch trs (fold (update_committed c (tr_id tr)) es s)
     | Reply_Message (TransactionCommitError e) \<Rightarrow> Throws EX_InternalCommitError s
     | _ \<Rightarrow> Stops)"

definition clear_id_lists :: "DatabaseState \<Rightarrow> BlobCache \<Rightarrow> BlobCache" where
  "clear_id_lists t cache = (\<lambda>l. if l \<in> ModifiedIdLists t then None else cache l)"

fun finish_databases :: "connection_id \<Rightarrow> (database_id \<times> DatabaseState) list \<Rightarrow> 'n Session \<Rightarrow> 'n Session" where
  "finish_databases c [] s = s"
| "finish_databases c ((i, t) # ts) s =
     finish_databases c ts (update_cache (c, i) (clear_id_lists t) (update_state (c, i) tx_ReleaseDeletedBlobLocks s))"

fun finish_transactions :: "(connection_id \<times> Transaction) list \<Rightarrow> 'n Session \<Rightarrow> 'n Session" where
  "finish_transactions [] s = s"
| "finish_transactions ((c, tr) # trs) s = finish_transactions trs (finish_databases c (tr_forDatabase tr) s)"

definition txn_Commit :: "'n Channel \<Rightarrow> 'n Session \<Rightarrow> ('n Session, bool) outcome" where
  "txn_Commit ch s =
     (if \<not> Transaction_IsRunning s then Returns False s
      else andThen (send_commits ch (ss_active s) s) (\<lambda>_ s.
        andThen (await_commits ch (ss_active s) s) (\<lambda>_ s.
        andThen (TransferAndClearState (finish_transactions (ss_active s) s)) (\<lambda>_. Returns True))))"

fun send_aborts :: "'n Channel \<Rightarrow> (connection_id \<times> Transaction) list \<Rightarrow> 'n Session \<Rightarrow> ('n Session, unit) outcome" where
  "send_aborts ch [] s = Returns () s"
| "send_aborts ch ((c, tr) # trs) s =
     andThen (Network_Client c s) (\<lambda>_ s. send_aborts ch trs (send_message ch c (Msg_TransactionAbort 0) s))"

definition txn_Abort :: "'n Channel \<Rightarrow> 'n Session \<Rightarrow> ('n Session, bool) outcome" where
  "txn_Abort ch s =
     (if \<not> Transaction_IsRunning s then Returns False s
      else andThen (send_aborts ch (ss_active s) s) (\<lambda>_ s.
        andThen (TransferAndClearState s) (\<lambda>_. Returns True)))"

definition txn_UseStickyLocks :: "bool \<Rightarrow> 'n Session \<Rightarrow> bool \<times> 'n Session" where
  "txn_UseStickyLocks use s = (ss_useStickyLocks s, s\<lparr>ss_useStickyLocks := use\<rparr>)"

definition txn_SetLockTimeout :: "int \<Rightarrow> 'n Session \<Rightarrow> int \<times> 'n Session" where
  "txn_SetLockTimeout t s = (ss_lockTimeoutMs s, s\<lparr>ss_lockTimeoutMs := t\<rparr>)"

definition txn_SetPriority :: "int \<Rightarrow> 'n Session \<Rightarrow> int \<times> 'n Session" where
  "txn_SetPriority p s = (ss_priority s, s\<lparr>ss_priority := p\<rparr>)"

section \<open>Opening and closing\<close>

text \<open>The constructor of \<open>Database\<close>; \<open>emplace\<close> does not replace a database that is opened under the same id.\<close>

definition ClientDatabase_new :: "string \<Rightarrow> bool \<Rightarrow> 'n Session \<Rightarrow> ClientDatabase" where
  "ClientDatabase_new name useMVCC s = \<lparr>cdb_name = name, cdb_cache = (\<lambda>_. None), cdb_stickyLocks = None, cdb_mvccActive = useMVCC,
     cdb_mvccSetting = useMVCC, cdb_useStickyLocks = ss_useStickyLocks s, cdb_lockTimeoutMs = ss_lockTimeoutMs s\<rparr>"

definition emplace_database :: "db_handle \<Rightarrow> ClientDatabase \<Rightarrow> 'n Session \<Rightarrow> 'n Session" where
  "emplace_database d db s = (if get_database d s = None then put_database d db s else s)"

fun open_exception :: "OpenResult \<Rightarrow> ClientException" where
  "open_exception DATABASE_OPEN_FAILED = EX_Exception"
| "open_exception ILLEGAL_DATABASE_PATH = EX_IllegalDatabasePath"
| "open_exception DATABASE_ALREADY_OPEN = EX_DbAlreadyOpen"
| "open_exception TOO_MANY_DATABASES_OPEN = EX_TooManyDbsOpen"
| "open_exception DATABASE_DOES_NOT_EXIST = EX_DbDoesNotExist"
| "open_exception DATABASE_ALREADY_EXISTS = EX_DbAlreadyExists"
| "open_exception CANNOT_OVERWRITE_OPEN_DATABASE = EX_OverwriteOpenedDatabase"
| "open_exception OPEN_SUCCESS = EX_Exception"

definition cdb_Open ::
  "'n Channel \<Rightarrow> string \<Rightarrow> string \<Rightarrow> OpenMode \<Rightarrow> int \<Rightarrow> bool \<Rightarrow> 'n Session \<Rightarrow> ('n Session, db_handle) outcome" where
  "cdb_Open ch hostName databaseName openMode port mvcc s =
     andThen (Network_Get ch hostName port s) (\<lambda>c s.
     andThen (Network_Client c s) (\<lambda>_ s.
     andThen (Network_ExpectMessage ch is_DatabaseOpenResponse c (send_message ch c (Msg_DatabaseOpen
         \<lparr>do_clientId = 0, do_databaseName = databaseName, do_openMode = openMode, do_mvcc = mvcc\<rparr>) s)) (\<lambda>m s.
       case m of
         DatabaseOpenResponse result i \<Rightarrow>
           if result = OPEN_SUCCESS then Returns (c, i) (emplace_database (c, i) (ClientDatabase_new databaseName mvcc s) s)
           else andThen (Network_Release ch c s) (\<lambda>_. Throws (open_exception result))
       | _ \<Rightarrow> Stops)))"

definition cdb_OpenString ::
  "'n Channel \<Rightarrow> string \<Rightarrow> OpenMode \<Rightarrow> bool \<Rightarrow> 'n Session \<Rightarrow> ('n Session, db_handle) outcome" where
  "cdb_OpenString ch connectionString openMode mvcc s =
     (case parse_connection_string connectionString of
        Inl e \<Rightarrow> Throws e s
      | Inr (hostName, databaseName, port) \<Rightarrow> cdb_Open ch hostName databaseName openMode port mvcc s)"

definition EraseDatabase :: "db_handle \<Rightarrow> 'n Session \<Rightarrow> 'n Session" where
  "EraseDatabase d s = s\<lparr>ss_databases := (ss_databases s)(fst d := map_erase (snd d) (ss_databases s (fst d)))\<rparr>"

definition cdb_Close :: "'n Channel \<Rightarrow> db_handle \<Rightarrow> 'n Session \<Rightarrow> ('n Session, unit) outcome" where
  "cdb_Close ch d s =
     (if Transaction_IsRunning s then Throws EX_DbCloseDuringTxn s
      else andThen (Network_Client (fst d) s) (\<lambda>_ s.
        andThen (Network_AwaitMessage ch (fst d) (send_message ch (fst d) (Msg_DatabaseClose 0 (snd d)) s)) (\<lambda>r s.
        andThen (case r of
            Reply_Message (DatabaseCloseResponse CL_SUCCESS) \<Rightarrow> Network_Release ch (fst d) s
          | Reply_Message (DatabaseCloseResponse CL_DATABASE_NOT_OPEN) \<Rightarrow> Throws EX_DbNotOpen s
          | Reply_Message (DatabaseCloseResponse CL_TRANSACTION_IN_PROGRESS) \<Rightarrow> Stops
          | Reply_ConnectionClosed \<Rightarrow> Network_ServerClosedConnection ch (fst d) s
          | _ \<Rightarrow> Throws EX_Exception s) (\<lambda>_ s.
        Returns () (EraseDatabase d s)))))"

definition cdb_SetMVCC :: "db_handle \<Rightarrow> bool \<Rightarrow> 'n Session \<Rightarrow> ('n Session, bool) outcome" where
  "cdb_SetMVCC d enable s = andThen (database_of d s) (\<lambda>db s.
     Returns (cdb_mvccSetting db) (put_database d (db\<lparr>cdb_mvccSetting := enable\<rparr>) s))"

definition cdb_UseStickyLocks :: "db_handle \<Rightarrow> bool \<Rightarrow> 'n Session \<Rightarrow> ('n Session, bool) outcome" where
  "cdb_UseStickyLocks d use s = andThen (database_of d s) (\<lambda>db s.
     Returns (cdb_useStickyLocks db) (put_database d (db\<lparr>cdb_useStickyLocks := use\<rparr>) s))"

definition cdb_SetLockTimeout :: "db_handle \<Rightarrow> int \<Rightarrow> 'n Session \<Rightarrow> ('n Session, int) outcome" where
  "cdb_SetLockTimeout d t s = andThen (database_of d s) (\<lambda>db s.
     Returns (cdb_lockTimeoutMs db) (put_database d (db\<lparr>cdb_lockTimeoutMs := t\<rparr>) s))"

end
