(* ===== verification/Client_Logic.thy ===== *)
theory Client_Logic
  imports Client_Commit Client_Requests
begin

text \<open>
  Reasoning about the operations of a client: what holds when an operation returns and when it throws
  (\<open>ends\<close>), the operations on the state of the session, and the invariant \<open>session_ok\<close>, which every operation of the
  client preserves (\<open>client_step\<close>, \<open>client_reachable\<close>).
\<close>

section \<open>How an operation ends\<close>

text \<open>\<open>Q\<close> holds of the result and the session when the operation returns, \<open>R\<close> of the session when it throws.\<close>

definition ends :: "('a \<Rightarrow> 's \<Rightarrow> bool) \<Rightarrow> ('s \<Rightarrow> bool) \<Rightarrow> ('s, 'a) outcome \<Rightarrow> bool" where
  "ends Q R r = (case r of Returns x s \<Rightarrow> Q x s | Throws e s \<Rightarrow> R s | Stops \<Rightarrow> True)"

named_theorems ends_intros

lemma ends_simps [simp]:
  "ends Q R (Returns x s) = Q x s" "ends Q R (Throws e s) = R s" "ends Q R Stops"
  by (simp_all add: ends_def)

lemma ends_andThen [ends_intros]:
  "ends Q R r \<Longrightarrow> (\<And>x s. Q x s \<Longrightarrow> ends Q' R (f x s)) \<Longrightarrow> ends Q' R (andThen r f)"
  by (cases r) auto

lemma ends_mono: "ends Q R r \<Longrightarrow> (\<And>x s. Q x s \<Longrightarrow> Q' x s) \<Longrightarrow> (\<And>s. R s \<Longrightarrow> R' s) \<Longrightarrow> ends Q' R' r"
  by (cases r) auto

lemma andThen_Returns:
  "andThen r f = Returns y t \<longleftrightarrow> (\<exists>x s. r = Returns x s \<and> f x s = Returns y t)"
  by (cases r) auto

definition final_state :: "('s, 'a) outcome \<Rightarrow> 's option" where
  "final_state r = (case r of Returns x s \<Rightarrow> Some s | Throws e s \<Rightarrow> Some s | Stops \<Rightarrow> None)"

lemma ends_final: "ends (\<lambda>_. P) P r \<Longrightarrow> final_state r = Some s \<Longrightarrow> P s"
  by (cases r) (auto simp: final_state_def)

section \<open>The state of a session\<close>

lemma get_put_database [simp]:
  "get_database d (put_database d db s) = Some db" "d' \<noteq> d \<Longrightarrow> get_database d' (put_database d db s) = get_database d' s"
  by (cases d; cases d'; auto simp: get_database_def put_database_def map_of_put)+

lemma active_kept [simp]:
  "ss_active (put_database d db s) = ss_active s" "ss_active (update_database d f s) = ss_active s"
  "ss_active (send_message ch c m s) = ss_active s" "ss_active (fix_all c s) = ss_active s"
  by (simp_all add: put_database_def update_database_def send_message_def fix_all_def split: option.splits)

lemma databases_kept [simp]:
  "ss_databases (send_message ch c m s) = ss_databases s" "ss_databases (put_state d t s) = ss_databases s"
  by (simp_all add: send_message_def put_state_def split: option.splits)

lemma get_database_kept [simp]:
  "get_database d (send_message ch c m s) = get_database d s" "get_database d (put_state d' t s) = get_database d s"
  "get_database d (update_state d' f s) = get_database d s"
  by (simp_all add: get_database_def update_state_def)

lemma Transaction_Get_kept [simp]:
  "Transaction_Get c (put_database d db s) = Transaction_Get c s" "Transaction_Get c (send_message ch k m s) = Transaction_Get c s"
  "Transaction_Get c (update_database d f s) = Transaction_Get c s"
  by (simp_all add: Transaction_Get_def)

lemma Transaction_Get_put_state:
  "Transaction_Get c (put_state d t s) = (case Transaction_Get c s of None \<Rightarrow> None
     | Some tr \<Rightarrow> Some (if c = fst d then tr\<lparr>tr_forDatabase := map_put (snd d) t (tr_forDatabase tr)\<rparr> else tr))"
  by (auto simp: Transaction_Get_def put_state_def map_of_put split: option.splits)

lemma GetDatabaseState_kept [simp]:
  "GetDatabaseState d (put_database d' db s) = GetDatabaseState d s" "GetDatabaseState d (send_message ch c m s) = GetDatabaseState d s"
  "GetDatabaseState d (update_database d' f s) = GetDatabaseState d s"
  by (simp_all add: GetDatabaseState_def)

lemma GetDatabaseState_put [simp]:
  "Transaction_Get (fst d) s \<noteq> None \<Longrightarrow> GetDatabaseState d (put_state d t s) = Some t"
  by (auto simp: GetDatabaseState_def Transaction_Get_put_state map_of_put split: option.splits)

lemma AccessDatabaseState_put [simp]:
  "Transaction_Get (fst d) s \<noteq> None \<Longrightarrow> AccessDatabaseState d (put_state d t s) = t"
  "Transaction_Get (fst d) s \<noteq> None \<Longrightarrow> AccessDatabaseState d (update_state d f s) = f (AccessDatabaseState d s)"
  by (simp_all add: AccessDatabaseState_def update_state_def)

lemma AccessDatabaseState_kept [simp]:
  "AccessDatabaseState d (put_database d' db s) = AccessDatabaseState d s"
  "AccessDatabaseState d (send_message ch c m s) = AccessDatabaseState d s"
  "AccessDatabaseState d (update_database d' f s) = AccessDatabaseState d s"
  by (simp_all add: AccessDatabaseState_def)

lemma Transaction_Get_update_state [simp]:
  "Transaction_Get c (put_state d t s) = None \<longleftrightarrow> Transaction_Get c s = None"
  "Transaction_Get c (update_state d f s) = None \<longleftrightarrow> Transaction_Get c s = None"
  by (auto simp: update_state_def Transaction_Get_put_state split: option.splits)

text \<open>The transaction runs and the sticky locks of the database have been given to it.\<close>

definition tx_ready :: "db_handle \<Rightarrow> 'n Session \<Rightarrow> bool" where
  "tx_ready d s = (Transaction_Get (fst d) s \<noteq> None \<and> (\<exists>db. get_database d s = Some db \<and> cdb_stickyLocks db = None))"

lemma tx_ready_put [simp]: "tx_ready d (put_database d db s) = (Transaction_Get (fst d) s \<noteq> None \<and> cdb_stickyLocks db = None)"
  by (simp add: tx_ready_def)

lemma tx_ready_kept [simp]:
  "tx_ready d (send_message ch c m s) = tx_ready d s" "tx_ready d (put_state d' t s) = tx_ready d s"
  "tx_ready d (update_state d' f s) = tx_ready d s"
  by (simp_all add: tx_ready_def)

lemma tx_ready_GetTransaction:
  "tx_ready d s \<Longrightarrow> GetTransaction ch d s = Returns (tr_id (the (Transaction_Get (fst d) s))) s"
  by (auto simp: tx_ready_def GetTransaction_def use_transaction_def ApplyStickyLocks_def database_of_def asserted_def)

section \<open>The invariant of a session\<close>

definition session_ok :: "'n Session \<Rightarrow> bool" where
  "session_ok s = (\<forall>c tr i t. (c, tr) \<in> set (ss_active s) \<longrightarrow> (i, t) \<in> set (tr_forDatabase tr) \<longrightarrow> tx_ok t)"

lemma session_ok_active: "ss_active s' = ss_active s \<Longrightarrow> session_ok s \<Longrightarrow> session_ok s'"
  by (simp add: session_ok_def)

lemma session_ok_kept [simp]:
  "session_ok (put_database d db s) = session_ok s" "session_ok (update_database d f s) = session_ok s"
  "session_ok (send_message ch c m s) = session_ok s" "session_ok (fix_all c s) = session_ok s"
  "session_ok (s\<lparr>ss_channel := n\<rparr>) = session_ok s" "session_ok (s\<lparr>ss_connections := cons\<rparr>) = session_ok s"
  by (simp_all add: session_ok_def)

lemma session_ok_state: "session_ok s \<Longrightarrow> GetDatabaseState d s = Some t \<Longrightarrow> tx_ok t"
  by (auto simp: session_ok_def GetDatabaseState_def Transaction_Get_def dest!: map_of_SomeD split: option.splits)

lemma session_ok_access: "session_ok s \<Longrightarrow> tx_ok (AccessDatabaseState d s)"
  by (auto simp: AccessDatabaseState_def tx_ok_new session_ok_state split: option.splits)

lemma session_ok_put: "session_ok s \<Longrightarrow> tx_ok t \<Longrightarrow> session_ok (put_state d t s)"
  unfolding session_ok_def put_state_def
  by (auto simp: set_map_put Transaction_Get_def dest!: map_of_SomeD split: option.splits)

lemma session_ok_update: "session_ok s \<Longrightarrow> tx_ok (f (AccessDatabaseState d s)) \<Longrightarrow> session_ok (update_state d f s)"
  by (simp add: update_state_def session_ok_put)

lemma session_ok_acquired: "session_ok s \<Longrightarrow> session_ok (Transaction_AcquiredLock d l m s)"
  by (simp add: Transaction_AcquiredLock_def session_ok_update session_ok_access tx_ok_lock)

lemma session_ok_write_locks: "session_ok s \<Longrightarrow> session_ok (AcquiredWriteLocks d ls s)"
  unfolding AcquiredWriteLocks_def by (induction ls arbitrary: s) (simp_all add: session_ok_acquired)

section \<open>Messages and errors\<close>

text \<open>The changes of a transaction in a database, whatever locks it holds.\<close>

definition tx_open :: "db_handle \<Rightarrow> DatabaseState \<Rightarrow> 'n Session \<Rightarrow> bool" where
  "tx_open d t s = (session_ok s \<and> tx_ready d s \<and> (\<exists>h. AccessDatabaseState d s = t\<lparr>tx_heldLocks := h\<rparr>))"

lemma tx_open_ok: "tx_open d t s \<Longrightarrow> session_ok s"
  by (simp add: tx_open_def)

lemma tx_open_channel: "tx_open d t s \<Longrightarrow> tx_open d t (s\<lparr>ss_channel := n\<rparr>)"
  by (simp add: tx_open_def tx_ready_def AccessDatabaseState_def GetDatabaseState_def Transaction_Get_def get_database_def)

lemma tx_open_send: "tx_open d t s \<Longrightarrow> tx_open d t (send_message ch c m s)"
  by (simp add: send_message_def tx_open_channel)

lemma session_ok_send: "session_ok s \<Longrightarrow> session_ok (send_message ch c m s)"
  by simp

text \<open>What only the state of the channel changes.\<close>

definition channel_blind :: "('n Session \<Rightarrow> bool) \<Rightarrow> bool" where
  "channel_blind P = (\<forall>s n. P s \<longrightarrow> P (s\<lparr>ss_channel := n\<rparr>) \<and> session_ok s)"

lemma channel_blind_ok [simp, intro]: "channel_blind session_ok" "channel_blind (tx_open d t)"
  by (auto simp: channel_blind_def tx_open_channel intro: tx_open_ok)

lemma ends_await: "channel_blind P \<Longrightarrow> P s \<Longrightarrow> ends (\<lambda>_. P) session_ok (await_reply ch c s)"
  by (auto simp: await_reply_def channel_blind_def split: option.splits)

lemma ends_Network_Await: "channel_blind P \<Longrightarrow> P s \<Longrightarrow> ends (\<lambda>_. P) session_ok (Network_AwaitMessage ch c s)"
  unfolding Network_AwaitMessage_def by (rule ends_andThen, erule (1) ends_await) (auto simp: channel_blind_def)

lemma ends_Network_Expect: "channel_blind P \<Longrightarrow> P s \<Longrightarrow> ends (\<lambda>_. P) session_ok (Network_ExpectMessage ch f c s)"
  unfolding Network_ExpectMessage_def
  by (rule ends_andThen, erule (1) ends_Network_Await) (auto simp: channel_blind_def split: Reply.splits)

lemma ends_Network_Client: "channel_blind P \<Longrightarrow> P s \<Longrightarrow> ends (\<lambda>_. P) session_ok (Network_Client c s)"
  by (auto simp: Network_Client_def channel_blind_def)

lemma ends_request_blobs: "channel_blind P \<Longrightarrow> P s \<Longrightarrow> ends (\<lambda>_. P) session_ok (request_blobs ch d m k bs s)"
  unfolding request_blobs_def
  by (rule ends_andThen, erule (1) ends_Network_Client, rule ends_Network_Expect) (auto simp: channel_blind_def send_message_def)

lemma ends_transfer:
  "session_ok s \<Longrightarrow> ends (\<lambda>_. session_ok) session_ok (transfer_sticky_locks c ts s)"
  by (induction ts arbitrary: s)
    (auto intro!: ends_andThen [where Q = "\<lambda>_. session_ok"] simp: database_of_def asserted_def split: option.splits)

lemma ends_transfer_all: "session_ok s \<Longrightarrow> ends (\<lambda>_. session_ok) session_ok (transfer_all trs s)"
  by (induction trs arbitrary: s) (auto intro!: ends_andThen [where Q = "\<lambda>_. session_ok"] ends_transfer)

lemma ends_TransferAndClear: "session_ok s \<Longrightarrow> ends (\<lambda>_ s. session_ok s \<and> ss_active s = []) session_ok (TransferAndClearState s)"
  unfolding TransferAndClearState_def
  by (rule ends_andThen, erule ends_transfer_all) (simp add: session_ok_def)

lemma ends_abort_others: "session_ok s \<Longrightarrow> ends (\<lambda>_. session_ok) session_ok (abort_others ch c trs s)"
  by (induction trs arbitrary: s) (auto intro!: ends_andThen [OF ends_Network_Client [OF channel_blind_ok(1)]] session_ok_send)

lemma ends_AbortDeadlock: "session_ok s \<Longrightarrow> ends (\<lambda>_. session_ok) session_ok (AbortDeadlock ch c s)"
  unfolding AbortDeadlock_def
  by (rule ends_andThen, erule ends_abort_others) (auto intro: ends_mono [OF ends_TransferAndClear])

lemma ends_HandleError: "session_ok s \<Longrightarrow> ends Q session_ok (HandleReadBlobErrorResponse ch c e s)"
  by (cases e) (auto intro!: ends_andThen [OF ends_AbortDeadlock])

section \<open>Starting a transaction\<close>

lemma ends_database_of: "P s \<Longrightarrow> ends (\<lambda>db s. P s \<and> get_database d s = Some db) R (database_of d s)"
  by (auto simp: database_of_def asserted_def split: option.splits)

lemma ends_use_transaction:
  "session_ok s \<Longrightarrow> Transaction_Get (fst d) s \<noteq> None \<Longrightarrow> ends (\<lambda>_ s. session_ok s \<and> tx_ready d s) session_ok (use_transaction d tr s)"
  unfolding use_transaction_def ApplyStickyLocks_def
  by (cases "get_database d s"; cases "cdb_stickyLocks (the (get_database d s))")
    (simp_all add: database_of_def asserted_def session_ok_put tx_ok_new tx_ready_def [of d s])

lemma ends_update_sticky: "session_ok s \<Longrightarrow> ends (\<lambda>_. session_ok) session_ok (update_sticky_locks c es s)"
  by (induction c es s rule: update_sticky_locks.induct) (auto split: option.splits)

lemma ends_start_transaction:
  "session_ok s \<Longrightarrow> ends (\<lambda>_ s. session_ok s \<and> tx_ready d s) session_ok (start_transaction d s)"
proof -
  assume s: "session_ok s"
  have "session_ok (Transaction_Create (fst d) s)"
    using s by (auto simp: Transaction_Create_def session_ok_def set_map_put)
  then show ?thesis
    by (auto simp: start_transaction_def Let_def intro!: ends_use_transaction split: option.splits)
qed

lemma ends_GetTransaction: "session_ok s \<Longrightarrow> ends (\<lambda>_ s. session_ok s \<and> tx_ready d s) session_ok (GetTransaction ch d s)"
proof (cases "Transaction_Get (fst d) s")
  case None
  assume s: "session_ok s"
  let ?s = "\<lambda>s. send_message ch (fst d) (begin_message (fst d) (fix_all (fst d) s)) (fix_all (fst d) s)"
  have "ends (\<lambda>_ s. session_ok s \<and> tx_ready d s) session_ok (andThen (Network_ExpectMessage ch is_TransactionBeginResponse (fst d) (?s s)) (\<lambda>m s.
         case m of
           TransactionBeginResponse es \<Rightarrow> andThen (update_sticky_locks (fst d) es s) (\<lambda>_. start_transaction d)
         | TransactionBeginError TB_ERROR_ALREADY_IN_TRANSACTION \<Rightarrow> Throws EX_TransactionAlreadyOpen s
         | _ \<Rightarrow> Stops))" if "session_ok s" for s
    by (rule ends_andThen [OF ends_Network_Expect [OF channel_blind_ok(1)]])
      (auto simp: that intro!: ends_andThen [OF ends_update_sticky] ends_start_transaction split: Response.splits BeginCode.splits)
  then show ?thesis unfolding GetTransaction_def None
    by (auto intro!: ends_andThen [OF ends_Network_Client [OF channel_blind_ok(1) s]] simp: Let_def)
qed (auto simp: GetTransaction_def intro: ends_use_transaction)

lemma tx_open_access: "session_ok s \<and> tx_ready d s \<Longrightarrow> tx_open d (AccessDatabaseState d s) s"
  unfolding tx_open_def by (metis DatabaseState.surjective DatabaseState.update_convs(1))

lemma tx_open_GetTransaction:
  "tx_open d t s \<Longrightarrow> GetTransaction ch d s = Returns (tr_id (the (Transaction_Get (fst d) s))) s"
  by (simp add: tx_open_def tx_ready_GetTransaction)

end
