(* ===== verification/Client_Invariant.thy ===== *)
theory Client_Invariant
  imports Client_Logic
begin

text \<open>
  Every operation of a client keeps the invariant of the session, whether it returns or throws. The operations are
  collected into the step relation \<open>client_step\<close>.
\<close>

section \<open>Reading and locking\<close>

lemma Ensure_kept [simp]:
  "EnsureBlobNotDeleted (t\<lparr>tx_heldLocks := h\<rparr>) l = EnsureBlobNotDeleted t l"
  "EnsureBlobNotDeleted (tx_WriteBlob k bs t) l = EnsureBlobNotDeleted t l"
  by (simp_all add: EnsureBlobNotDeleted_def EnsureClusterNotDeleted_def EnsureSegmentNotDeleted_def tx_WriteBlob_def)

abbreviation keeps_ok :: "('n Session, 'a) outcome \<Rightarrow> bool" where
  "keeps_ok \<equiv> ends (\<lambda>_. session_ok) session_ok"

lemma keeps_andThen: "keeps_ok r \<Longrightarrow> (\<And>x s. session_ok s \<Longrightarrow> ends Q session_ok (f x s)) \<Longrightarrow> ends Q session_ok (andThen r f)"
  by (rule ends_andThen)

lemmas ok_channel = ends_await [OF channel_blind_ok(1)] ends_Network_Await [OF channel_blind_ok(1)]
  ends_Network_Expect [OF channel_blind_ok(1)] ends_Network_Client [OF channel_blind_ok(1)] ends_request_blobs [OF channel_blind_ok(1)]

lemma ok_GetTransaction: "session_ok s \<Longrightarrow> keeps_ok (GetTransaction ch d s)"
  by (rule ends_mono [OF ends_GetTransaction]) auto

lemma ok_database_of: "session_ok s \<Longrightarrow> keeps_ok (database_of d s)"
  by (simp add: database_of_def asserted_def split: option.splits)

lemma tx_open_acquired: "tx_open d t s \<Longrightarrow> tx_open d t (Transaction_AcquiredLock d l m s)"
  unfolding Transaction_AcquiredLock_def tx_open_def
  by (auto simp: session_ok_update session_ok_access tx_ok_lock tx_ready_def [of d s], auto simp: tx_AcquiredLock_def)

lemma tx_open_write_locks: "tx_open d t s \<Longrightarrow> tx_open d t (AcquiredWriteLocks d ls s)"
  unfolding AcquiredWriteLocks_def by (induction ls arbitrary: s) (simp_all add: tx_open_acquired)

lemma open_WriteLock:
  assumes "tx_open d t s"
  shows "ends (\<lambda>_. tx_open d t) session_ok (WriteLockNoContent ch d l s)"
  unfolding WriteLockNoContent_def tx_open_GetTransaction [OF assms] andThen.simps
  by (rule ends_andThen [OF ends_database_of [of "tx_open d t"]])
    (auto simp: assms tx_open_ok tx_open_acquired intro!: ends_andThen [OF ends_request_blobs [OF channel_blind_ok(2)]] ends_HandleError
      split: Response.splits list.splits prod.splits bool.splits)

lemma ok_WriteLock: "session_ok s \<Longrightarrow> keeps_ok (WriteLockNoContent ch d l s)"
  unfolding WriteLockNoContent_def
  by (intro keeps_andThen ok_GetTransaction ok_database_of)
    (auto intro!: keeps_andThen ok_channel ends_HandleError session_ok_acquired
      split: Response.splits list.splits prod.splits bool.splits)

lemma ok_receive_blob: "session_ok s \<Longrightarrow> keeps_ok (receive_blob d lock txn a r s)"
  unfolding receive_blob_def
  by (auto intro!: keeps_andThen ok_database_of simp: Let_def session_ok_acquired split: prod.splits option.splits)

lemma ok_DirtyRead: "session_ok s \<Longrightarrow> keeps_ok (DirtyReadBlobInternal ch d l s)"
  unfolding DirtyReadBlobInternal_def
  by (auto intro!: keeps_andThen ok_channel ends_HandleError split: Response.splits list.splits prod.splits bool.splits)

lemma ok_ReadFromServer: "session_ok s \<Longrightarrow> keeps_ok (ReadFromServer ch d l lock txn s)"
  unfolding ReadFromServer_def Let_def
  by (auto intro!: keeps_andThen ok_database_of ok_channel ok_receive_blob ends_HandleError
      split: Response.splits list.splits prod.splits bool.splits)

lemma ok_Transaction_ReadBlob: "session_ok s \<Longrightarrow> keeps_ok (Transaction_ReadBlob d l s)"
  by (auto simp: Transaction_ReadBlob_def split: option.splits sum.splits)

lemma ok_ReadBlobInternal: "session_ok s \<Longrightarrow> keeps_ok (ReadBlobInternal ch d l lock s)"
  unfolding ReadBlobInternal_def Let_def
  by (auto intro!: keeps_andThen ok_GetTransaction ok_database_of ok_Transaction_ReadBlob ok_DirtyRead ok_ReadFromServer ok_WriteLock
      split: option.splits)

lemma ok_cdb_ReadBlob: "session_ok s \<Longrightarrow> keeps_ok (cdb_ReadBlob ch d i c b lock s)"
  by (simp add: cdb_ReadBlob_def ok_ReadBlobInternal)

lemma session_ok_timeout [simp]: "session_ok (set_lock_timeout d k s) = session_ok s"
  by (simp add: set_lock_timeout_def)

lemma ok_cdb_TryReadBlob: "session_ok s \<Longrightarrow> keeps_ok (cdb_TryReadBlob ch d i c b lock s)"
proof -
  have "keeps_ok (case cdb_ReadBlob ch d i c b lock (set_lock_timeout d 0 s) of
          Returns _ s \<Rightarrow> Returns True (set_lock_timeout d k s)
        | Throws e s \<Rightarrow> if e = EX_LockTimeout then Returns False (set_lock_timeout d k s) else Throws e (set_lock_timeout d k s)
        | Stops \<Rightarrow> Stops)" if "session_ok s" for s k
    using ok_cdb_ReadBlob [of "set_lock_timeout d 0 s" ch d i c b lock] that
    by (cases "cdb_ReadBlob ch d i c b lock (set_lock_timeout d 0 s)") auto
  moreover assume "session_ok s"
  ultimately show ?thesis by (auto simp: cdb_TryReadBlob_def Let_def intro!: keeps_andThen ok_database_of)
qed

section \<open>Writing\<close>

lemma write_location_regular: "i \<le> MaxSegmentId \<Longrightarrow> c \<le> MaxClusterId \<Longrightarrow> b \<le> MaxBlobId \<Longrightarrow> write_location (BlobLocation i c b)"
  using regular_ids by (auto simp: write_location_def special_alone_def)

lemma write_location_next:
  "i \<le> MaxSegmentId \<Longrightarrow> c \<le> MaxClusterId \<Longrightarrow> write_location (next_blob i c)" "i \<le> MaxSegmentId \<Longrightarrow> write_location (next_cluster i)"
  "write_location next_segment_location"
  using regular_ids by (auto simp: write_location_def special_alone_def next_blob_def next_cluster_def next_segment_location_def)

lemma session_ok_write:
  "tx_open d t s \<Longrightarrow> EnsureBlobNotDeleted t l = None \<Longrightarrow> write_location l \<Longrightarrow> length bs \<le> unat MaxBlobSize
     \<Longrightarrow> session_ok (Transaction_WriteBlob d l bs s)"
proof -
  assume l: "write_location l" "length bs \<le> unat MaxBlobSize" and "tx_open d t s" "EnsureBlobNotDeleted t l = None"
  then have s: "session_ok s" and n: "EnsureBlobNotDeleted (AccessDatabaseState d s) l = None"
    by (auto simp: tx_open_def)
  show ?thesis unfolding Transaction_WriteBlob_def
    by (rule session_ok_update [OF s]) (rule tx_ok_write [OF session_ok_access [OF s] l n])
qed

lemma ends_EnsureBlobNotDeleted:
  assumes "session_ok s" "tx_ready d s"
  shows "ends (\<lambda>_ s'. \<exists>t. tx_open d t s' \<and> EnsureBlobNotDeleted t l = None) session_ok (Transaction_EnsureBlobNotDeleted d l s)"
proof -
  have "session_ok (update_state d (\<lambda>t. t) s)" by (simp add: assms session_ok_update session_ok_access)
  moreover have "AccessDatabaseState d (update_state d (\<lambda>t. t) s) = AccessDatabaseState d s"
    using assms(2) by (simp add: tx_ready_def)
  ultimately show ?thesis using assms tx_open_access [of "update_state d (\<lambda>t. t) s" d]
    by (auto simp: Transaction_EnsureBlobNotDeleted_def throw_some_def split: option.splits)
qed

lemma ok_WriteBlobInternal:
  assumes "session_ok s" "write_location l" "length bs \<le> unat MaxBlobSize"
  shows "keeps_ok (WriteBlobInternal ch d l bs s)"
proof -
  have "keeps_ok (andThen (if Transaction_GetLockType d l s \<noteq> LM_Write then WriteLockNoContent ch d l s else Returns () s) (\<lambda>_ s.
       Returns () (Transaction_WriteBlob d l bs s)))" if "tx_open d t s" "EnsureBlobNotDeleted t l = None" for t s
    by (rule ends_andThen [where Q = "\<lambda>_. tx_open d t"])
      (simp_all add: that(1) open_WriteLock [OF that(1)] session_ok_write [OF _ that(2) assms(2,3)])
  then show ?thesis unfolding WriteBlobInternal_def
    by (auto intro!: ends_andThen [OF ends_GetTransaction [OF assms(1)]] ends_andThen [OF ends_EnsureBlobNotDeleted])
qed

lemma ok_cdb_WriteBlob: "session_ok s \<Longrightarrow> keeps_ok (cdb_WriteBlob ch d i c b bs s)"
  by (auto simp: cdb_WriteBlob_def check_ids_def intro!: ok_WriteBlobInternal write_location_regular)

section \<open>Id lists, creating and deleting\<close>

lemma ok_create: "session_ok s \<Longrightarrow> (\<And>t'. f (AccessDatabaseState d s) = Some t' \<Longrightarrow> tx_ok t') \<Longrightarrow> keeps_ok (create_in_state d f s)"
  by (auto simp: create_in_state_def session_ok_put split: option.splits)

lemma session_ok_touch: "session_ok s \<Longrightarrow> session_ok (update_state d (\<lambda>t. t) s)"
  by (simp add: session_ok_update session_ok_access)

lemma ok_delete: "session_ok s \<Longrightarrow> (\<And>t'. f (AccessDatabaseState d s) = Inr t' \<Longrightarrow> tx_ok t') \<Longrightarrow> keeps_ok (delete_in_state d f s)"
  by (auto simp: delete_in_state_def session_ok_put session_ok_touch split: sum.splits)

lemma ok_optional_transaction: "session_ok s \<Longrightarrow> keeps_ok (optional_transaction ch d lock s)"
  by (auto simp: optional_transaction_def intro!: keeps_andThen ok_GetTransaction)

lemma ok_created_in_state: "session_ok s \<Longrightarrow> keeps_ok (created_in_state d lock P s)"
  by (simp add: created_in_state_def session_ok_touch)

lemma ok_read_ids: "session_ok s \<Longrightarrow> keeps_ok (read_ids ch d l lock created s)"
  by (auto simp: read_ids_def intro!: keeps_andThen ok_ReadBlobInternal)

lemma ok_merge_ids: "session_ok s \<Longrightarrow> keeps_ok (merge_ids d lock merge ids s)"
  by (simp add: merge_ids_def asserted_def split: option.splits)

lemmas ok_lists = ok_optional_transaction ok_created_in_state ok_read_ids ok_merge_ids

lemma ok_cdb_GetAllBlobs: "session_ok s \<Longrightarrow> keeps_ok (cdb_GetAllBlobs ch d i c lock s)"
  by (auto simp: cdb_GetAllBlobs_def intro!: keeps_andThen ok_lists)

lemma ok_cdb_GetAllClusters: "session_ok s \<Longrightarrow> keeps_ok (cdb_GetAllClusters ch d i lock s)"
  by (auto simp: cdb_GetAllClusters_def intro!: keeps_andThen ok_lists)

lemma ok_cdb_GetAllSegments: "session_ok s \<Longrightarrow> keeps_ok (cdb_GetAllSegments ch d lock s)"
  by (auto simp: cdb_GetAllSegments_def intro!: keeps_andThen ok_lists)

lemma ok_read_id: "session_ok s \<Longrightarrow> keeps_ok (read_id ch d l s)"
  by (auto simp: read_id_def intro!: keeps_andThen ok_ReadBlobInternal)

lemma length_u32_bytes_fits: "length (u32_bytes x) \<le> unat MaxBlobSize"
  by (simp add: length_u32_bytes config_defs)

lemma ok_CreateBlobInternal:
  assumes "session_ok s" "i \<le> MaxSegmentId" "c \<le> MaxClusterId"
  shows "ends (\<lambda>b s. session_ok s \<and> b \<le> MaxBlobId) session_ok (CreateBlobInternal ch d i c s)"
  unfolding CreateBlobInternal_def Let_def
  by (auto simp: assms session_ok_write_locks write_location_next length_u32_bytes_fits ordinary_location_def session_ok_access
      intro!: keeps_andThen ok_read_id ok_WriteBlobInternal ok_create elim!: tx_ok_create_blob)

lemma ok_CreateBlobInternalAt:
  assumes "session_ok s" "i \<le> MaxSegmentId" "c \<le> MaxClusterId" "b \<le> MaxBlobId"
  shows "keeps_ok (CreateBlobInternalAt ch d i c b s)"
  unfolding CreateBlobInternalAt_def Let_def
  by (auto simp: assms session_ok_write_locks write_location_next length_u32_bytes_fits ordinary_location_def session_ok_access
      intro!: keeps_andThen ok_read_id ok_WriteBlobInternal ok_cdb_GetAllBlobs ok_create elim!: tx_ok_create_blob)

lemma ok_cdb_CreateBlob: "session_ok s \<Longrightarrow> keeps_ok (cdb_CreateBlob ch d i c bs s)"
proof -
  assume s: "session_ok s"
  have "keeps_ok (andThen (CreateBlobInternal ch d i c s) (\<lambda>b s.
      andThen (WriteBlobInternal ch d (BlobLocation i c b) bs s) (\<lambda>_. Returns b)))"
    if "i \<le> MaxSegmentId" "c \<le> MaxClusterId" "length bs \<le> unat MaxBlobSize"
    by (rule ends_andThen [OF ok_CreateBlobInternal [OF s that(1,2)]])
      (auto simp: that intro!: keeps_andThen ok_WriteBlobInternal write_location_regular)
  then show ?thesis by (simp add: cdb_CreateBlob_def s not_less)
qed

lemma ok_cdb_CreateBlobAt: "session_ok s \<Longrightarrow> keeps_ok (cdb_CreateBlobAt ch d i c b bs s)"
  unfolding cdb_CreateBlobAt_def check_ids_def
  by (auto intro!: keeps_andThen ok_CreateBlobInternalAt ok_WriteBlobInternal write_location_regular)

lemma ok_cdb_CreateCluster: "session_ok s \<Longrightarrow> keeps_ok (cdb_CreateCluster ch d i s)"
  unfolding cdb_CreateCluster_def Let_def
  by (auto simp: session_ok_write_locks write_location_next length_u32_bytes_fits session_ok_access
      intro!: keeps_andThen ok_read_id ok_WriteBlobInternal ok_create ok_cdb_CreateBlob elim!: tx_ok_create_cluster)

lemma ok_cdb_CreateSegment: "session_ok s \<Longrightarrow> keeps_ok (cdb_CreateSegment ch d s)"
  unfolding cdb_CreateSegment_def Let_def
  by (auto simp: session_ok_write_locks write_location_next length_u32_bytes_fits session_ok_access
      intro!: keeps_andThen ok_read_id ok_WriteBlobInternal ok_create ok_cdb_CreateCluster elim!: tx_ok_create_segment)

lemma ok_need_write_lock: "session_ok s \<Longrightarrow> keeps_ok (need_write_lock ch d l ls s)"
  by (auto simp: need_write_lock_def session_ok_write_locks intro!: keeps_andThen ok_WriteLock)

lemma session_ok_cache [simp]: "session_ok (update_cache d f s) = session_ok s"
  by (simp add: update_cache_def)

lemma ok_cdb_DeleteBlob: "session_ok s \<Longrightarrow> check_ids i c b \<Longrightarrow> keeps_ok (cdb_DeleteBlob ch d i c b s)"
  unfolding cdb_DeleteBlob_def Let_def check_ids_def
  by (auto simp: session_ok_access ordinary_location_def
      intro!: keeps_andThen ok_GetTransaction ok_need_write_lock ok_delete elim!: tx_ok_delete_blob)

lemma ok_cdb_DeleteCluster: "session_ok s \<Longrightarrow> i \<le> MaxSegmentId \<Longrightarrow> c \<le> MaxClusterId \<Longrightarrow> keeps_ok (cdb_DeleteCluster ch d i c s)"
  unfolding cdb_DeleteCluster_def
  by (auto simp: session_ok_access intro!: keeps_andThen ok_GetTransaction ok_need_write_lock ok_delete elim!: tx_ok_delete_cluster)

lemma ok_cdb_DeleteSegment: "session_ok s \<Longrightarrow> i \<le> MaxSegmentId \<Longrightarrow> keeps_ok (cdb_DeleteSegment ch d i s)"
  unfolding cdb_DeleteSegment_def
  by (auto simp: session_ok_access intro!: keeps_andThen ok_GetTransaction ok_need_write_lock ok_delete elim!: tx_ok_delete_segment)

section \<open>Requests for several blobs\<close>

lemma ok_prepare_reads: "session_ok s \<Longrightarrow> keeps_ok (prepare_reads d lock txn ls s)"
  by (induction ls arbitrary: s)
    (auto intro!: keeps_andThen ok_Transaction_ReadBlob ok_database_of split: option.splits)

lemma ok_receive_blobs: "session_ok s \<Longrightarrow> keeps_ok (receive_blobs d lock txn rs as s)"
  by (induction d lock txn rs as s rule: receive_blobs.induct) (auto intro!: keeps_andThen ok_receive_blob)

lemma ok_receive_messages:
  assumes "receive_messages ch d lock txn as done s = Some r" "session_ok s"
  shows "keeps_ok r"
proof (rule receive_messages.raw_induct [OF _ assms(1), of "\<lambda>ch d lock txn as done s r. session_ok s \<longrightarrow> keeps_ok r",
      THEN mp, OF _ assms(2)])
  fix rm ch d lock txn as "done" and s :: "'a Session" and r
  assume IH: "\<And>ch d lock txn as done (s :: 'a Session) r. rm ch d lock txn as done s = Some r \<Longrightarrow> session_ok s \<longrightarrow> keeps_ok r"
    and r: "(case Network_ExpectMessage ch is_BlobsReadResponse (fst d) s of
        Returns m s \<Rightarrow> (case m of
            BlobsReadResponse rs follow \<Rightarrow> (case receive_blobs d lock txn rs as s of
                Returns p s \<Rightarrow> if follow then rm ch d lock txn (snd p) (done @ fst p) s else Some (Returns (done @ fst p) s)
              | Throws e s \<Rightarrow> Some (Throws e s)
              | Stops \<Rightarrow> Some Stops)
          | BlobsReadError e \<Rightarrow> Some (HandleReadBlobErrorResponse ch (fst d) e s)
          | _ \<Rightarrow> Some Stops)
      | Throws e s \<Rightarrow> Some (Throws e s)
      | Stops \<Rightarrow> Some Stops) = Some r"
  show "session_ok s \<longrightarrow> keeps_ok r"
  proof
    assume s: "session_ok s"
    show "keeps_ok r"
    proof (cases "Network_ExpectMessage ch is_BlobsReadResponse (fst d) s")
      case (Returns m s1)
      then have s1: "session_ok s1" using ok_channel(3) [OF s, of ch is_BlobsReadResponse "fst d"] by simp
      show ?thesis
      proof (cases m)
        case (BlobsReadResponse rs follow)
        then show ?thesis using r Returns IH ok_receive_blobs [OF s1, of d lock txn rs as]
          by (auto split: outcome.splits if_splits)
      qed (use r Returns s1 ends_HandleError in auto)
    qed (use r ok_channel(3) [OF s, of ch is_BlobsReadResponse "fst d"] in auto)
  qed
qed

lemma ok_cdb_ReadBlobs:
  assumes "session_ok s" "cdb_ReadBlobs ch d ls lock s = Some r"
  shows "keeps_ok r"
proof -
  let ?start = "andThen (if lock = LM_None then Returns 0 s else GetTransaction ch d s) (\<lambda>txn s.
             andThen (database_of d s) (\<lambda>db s.
             if lock = LM_Write \<and> cdb_mvccActive db then Throws EX_CannotWriteLockInMVCC s
             else andThen (prepare_reads d lock txn ls s) (\<lambda>xs. Returns (txn, cdb_lockTimeoutMs db, xs))))"
  have start: "keeps_ok ?start"
    using assms(1) by (auto intro!: keeps_andThen ok_GetTransaction ok_database_of ok_prepare_reads)
  consider "length ls > MAX_BLOBS_PER_REQUEST \<or> \<not> list_all valid_location ls" | "length ls \<le> MAX_BLOBS_PER_REQUEST" "list_all valid_location ls" by linarith
  then show ?thesis
  proof cases
    case 1
    with assms show ?thesis by (auto simp: cdb_ReadBlobs_def split: if_splits)
  next
    case 2
    have r: "(case ?start of
        Stops \<Rightarrow> Some Stops
      | Throws e s \<Rightarrow> Some (Throws e s)
      | Returns p s \<Rightarrow> (case p of (txn, timeout, xs) \<Rightarrow>
          let as = addresses_to_load xs in
          if as = [] then Some (Returns (fill_entries xs []) s)
          else case Network_Client (fst d) s of
              Stops \<Rightarrow> Some Stops
            | Throws e s \<Rightarrow> Some (Throws e s)
            | Returns _ s \<Rightarrow> map_option (\<lambda>r. andThen r (\<lambda>bss. Returns (fill_entries xs bss)))
                (receive_messages ch d lock txn as [] (send_message ch (fst d) (read_message (snd d) lock timeout as) s)))) = Some r"
      using assms(2) 2 by (simp only: cdb_ReadBlobs_def not_less if_False if_not_P not_not)
    show ?thesis
    proof (cases ?start)
      case (Returns p s1)
      obtain txn timeout xs where p: "p = (txn, timeout, xs)" by (cases p)
      from Returns start have s1: "session_ok s1" by simp
      show ?thesis
      proof (cases "Network_Client (fst d) s1")
        case Ret: (Returns u s2)
        with ok_channel(4) [OF s1, of "fst d"] have "session_ok s2" by simp
        then show ?thesis using r Returns p Ret s1 2(1) assms(1)
          by (auto simp: Let_def intro!: keeps_andThen dest!: ok_receive_messages split: if_splits)
      qed (use r Returns p s1 ok_channel(4) [OF s1, of "fst d"] in \<open>auto simp: Let_def split: if_splits\<close>)
    qed (use r start in auto)
  qed
qed

lemma ends_missing_write_locks:
  assumes "tx_open d t s"
  shows "ends (\<lambda>_ s. tx_open d t s \<and> (\<forall>l \<in> set ls. EnsureBlobNotDeleted t l = None)) session_ok (missing_write_locks d ls s)"
  using assms
proof (induction ls arbitrary: s)
  case (Cons l ls)
  from Cons.prems have s: "session_ok s" "tx_ready d s" by (simp_all add: tx_open_def)
  from Cons.prems have e: "EnsureBlobNotDeleted (AccessDatabaseState d s) l = EnsureBlobNotDeleted t l"
    by (auto simp: tx_open_def)
  have o: "tx_open d t (update_state d (\<lambda>t. t) s)"
    using Cons.prems by (auto simp: tx_open_def session_ok_touch tx_ready_def [of d s])
  have "ends (\<lambda>_ s. tx_open d t s \<and> EnsureBlobNotDeleted t l = None) session_ok (Transaction_EnsureBlobNotDeleted d l s)"
    using o tx_open_ok [OF o] by (auto simp: Transaction_EnsureBlobNotDeleted_def throw_some_def e split: option.splits)
  then show ?case
    by (auto intro!: ends_andThen [where Q = "\<lambda>_ s. tx_open d t s \<and> EnsureBlobNotDeleted t l = None"]
        ends_andThen [OF Cons.IH])
qed simp

lemma open_acquire_write_locks: "tx_open d t s \<Longrightarrow> ends (\<lambda>_. tx_open d t) session_ok (acquire_write_locks ch d k ls s)"
  unfolding acquire_write_locks_def
  by (auto intro!: ends_andThen [OF ends_request_blobs [OF channel_blind_ok(2)]] ends_HandleError tx_open_write_locks tx_open_ok
      split: Response.splits)

text \<open>What is deleted does not change by writing.\<close>

definition tx_writable :: "db_handle \<Rightarrow> BlobLocation list \<Rightarrow> 'n Session \<Rightarrow> bool" where
  "tx_writable d ls s = (session_ok s \<and> tx_ready d s \<and> (\<forall>l \<in> set ls. EnsureBlobNotDeleted (AccessDatabaseState d s) l = None))"

lemma tx_writable_write:
  assumes "tx_writable d ls s" "l \<in> set ls" "write_location l" "length bs \<le> unat MaxBlobSize"
  shows "tx_writable d ls (Transaction_WriteBlob d l bs s)"
proof -
  have "session_ok (Transaction_WriteBlob d l bs s)" 
    using assms session_ok_write [OF tx_open_access [of s d]] by (auto simp: tx_writable_def)
  with assms(1) show ?thesis
    by (auto simp: tx_writable_def Transaction_WriteBlob_def tx_ready_def [of d s])
qed

lemma tx_writable_write_all:
  "tx_writable d ls s \<Longrightarrow> \<forall>e \<in> set es. be_location e \<in> set ls \<and> write_location (be_location e) \<and> length (be_data e) \<le> unat MaxBlobSize
     \<Longrightarrow> tx_writable d ls (fold (\<lambda>e. Transaction_WriteBlob d (be_location e) (be_data e)) es s)"
  by (induction es arbitrary: s) (auto simp: tx_writable_write)

lemma ok_cdb_WriteBlobs:
  assumes "session_ok s"
  shows "keeps_ok (cdb_WriteBlobs ch d es s)"
proof -
  let ?ls = "map be_location es"
  have "keeps_ok (andThen (missing_write_locks d ?ls s) (\<lambda>ls s. andThen (acquire_write_locks ch d k ls s) (\<lambda>_ s.
          Returns () (fold (\<lambda>e. Transaction_WriteBlob d (be_location e) (be_data e)) es s))))"
    if s: "tx_open d t s" and v: "\<forall>e \<in> set es. valid_location (be_location e) \<and> length (be_data e) \<le> unat MaxBlobSize" for k t s
  proof (rule ends_andThen [OF ends_missing_write_locks [OF s]])
    fix ls and s' :: "'a Session"
    assume s': "tx_open d t s' \<and> (\<forall>l \<in> set ?ls. EnsureBlobNotDeleted t l = None)"
    have "tx_writable d ?ls u" if "tx_open d t u" for u :: "'a Session"
      using that s' by (auto simp: tx_writable_def tx_open_def)
    moreover have "write_location (be_location e)" if "e \<in> set es" for e
      using v that write_location_regular [of "segment (be_location e)" "cluster (be_location e)" "blob (be_location e)"]
      by (auto simp: valid_location_def check_ids_def)
    ultimately have w: "session_ok (fold (\<lambda>e. Transaction_WriteBlob d (be_location e) (be_data e)) es u)"
      if "tx_open d t u" for u :: "'a Session"
      using that v tx_writable_write_all [of d ?ls u es] by (auto simp: tx_writable_def [of d ?ls])
    show "keeps_ok (andThen (acquire_write_locks ch d k ls s') (\<lambda>_ s.
          Returns () (fold (\<lambda>e. Transaction_WriteBlob d (be_location e) (be_data e)) es s)))"
      by (rule ends_andThen [OF open_acquire_write_locks [of d t]]) (use s' w in auto)
  qed
  note w = this
  have "keeps_ok (andThen (GetTransaction ch d s) (\<lambda>_ s. andThen (database_of d s) (\<lambda>db s.
          if cdb_mvccActive db then Throws EX_CannotWriteLockInMVCC s
          else andThen (missing_write_locks d ?ls s) (\<lambda>ls s. andThen (acquire_write_locks ch d (cdb_lockTimeoutMs db) ls s) (\<lambda>_ s.
          Returns () (fold (\<lambda>e. Transaction_WriteBlob d (be_location e) (be_data e)) es s))))))"
    if "find (\<lambda>e. \<not> valid_location (be_location e) \<or> length (be_data e) > unat MaxBlobSize) es = None"
    using that
    by (auto intro!: ends_andThen [OF ends_GetTransaction [OF assms]] ends_andThen [OF ends_database_of [where P = "\<lambda>s. session_ok s \<and> tx_ready d s"]]
        w [OF tx_open_access]
        simp: find_None_iff not_less)
  then show ?thesis using assms by (auto simp: cdb_WriteBlobs_def split: option.splits)
qed

section \<open>Committing and aborting\<close>

lemma session_ok_send_all: "session_ok s \<Longrightarrow> session_ok (send_all ch c ms s)"
  by (induction ms arbitrary: s) simp_all

lemma ok_send_commits: "session_ok s \<Longrightarrow> keeps_ok (send_commits ch trs s)"
  by (induction trs arbitrary: s)
    (auto intro!: keeps_andThen ok_channel simp: asserted_def session_ok_send_all split: option.splits)

lemma tx_ok_moved: "tx_ok t \<Longrightarrow> tx_ok (t\<lparr>tx_writtenBlobs := map (\<lambda>(l, bs). (l, [])) (tx_writtenBlobs t)\<rparr>)"
proof -
  assume t: "tx_ok t"
  have "fst \<circ> (\<lambda>(l :: BlobLocation, bs :: byte list). (l, [] :: byte list)) = fst" by (auto simp: fun_eq_iff)
  with t show ?thesis by (auto simp: tx_defs map_sorted_def)
qed

lemma session_ok_committed: "session_ok s \<Longrightarrow> session_ok (update_committed c i e s)"
  by (auto simp: update_committed_def session_ok_put tx_ok_moved session_ok_state split: prod.splits option.splits)

lemma session_ok_all_committed: "session_ok s \<Longrightarrow> session_ok (fold (update_committed c i) es s)"
  by (induction es arbitrary: s) (simp_all add: session_ok_committed)

lemma ok_await_commits: "session_ok s \<Longrightarrow> keeps_ok (await_commits ch trs s)"
  by (induction trs arbitrary: s)
    (auto intro!: keeps_andThen ok_channel simp: session_ok_all_committed split: Reply.splits Response.splits)

lemma session_ok_finish: "session_ok s \<Longrightarrow> session_ok (finish_databases c ts s)"
proof (induction ts arbitrary: s)
  case (Cons p ts)
  have "tx_ok (tx_ReleaseDeletedBlobLocks t)" if "tx_ok t" for t
    using that by (simp add: tx_ReleaseDeletedBlobLocks_def tx_defs)
  then show ?case using Cons by (cases p) (simp add: session_ok_update session_ok_access)
qed simp

lemma session_ok_finish_all: "session_ok s \<Longrightarrow> session_ok (finish_transactions trs s)"
  by (induction trs arbitrary: s) (auto simp: session_ok_finish)

lemma ok_TransferAndClear: "session_ok s \<Longrightarrow> keeps_ok (TransferAndClearState s)"
  by (rule ends_mono [OF ends_TransferAndClear]) auto

lemma ok_txn_Commit: "session_ok s \<Longrightarrow> keeps_ok (txn_Commit ch s)"
  unfolding txn_Commit_def
  by (auto intro!: keeps_andThen ok_send_commits ok_await_commits ok_TransferAndClear session_ok_finish_all)

lemma ok_send_aborts: "session_ok s \<Longrightarrow> keeps_ok (send_aborts ch trs s)"
  by (induction trs arbitrary: s) (auto intro!: keeps_andThen ok_channel)

lemma ok_txn_Abort: "session_ok s \<Longrightarrow> keeps_ok (txn_Abort ch s)"
  unfolding txn_Abort_def by (auto intro!: keeps_andThen ok_send_aborts ok_TransferAndClear)

section \<open>Opening and closing\<close>

lemma ok_Network_Get: "session_ok s \<Longrightarrow> keeps_ok (Network_Get ch host port s)"
  by (auto simp: Network_Get_def Let_def session_ok_def split: option.splits)

lemma ok_Network_Release: "session_ok s \<Longrightarrow> keeps_ok (Network_Release ch c s)" "session_ok s \<Longrightarrow> keeps_ok (Network_ServerClosedConnection ch c s)"
  by (auto simp: Network_Release_def Network_ServerClosedConnection_def drop_use_def close_client_def Let_def session_ok_def)

lemma ok_cdb_Open: "session_ok s \<Longrightarrow> keeps_ok (cdb_Open ch host name m port mvcc s)"
  unfolding cdb_Open_def
  by (auto intro!: keeps_andThen ok_Network_Get ok_Network_Release ok_channel simp: emplace_database_def split: Response.splits)

lemma ok_cdb_OpenString: "session_ok s \<Longrightarrow> keeps_ok (cdb_OpenString ch cs m mvcc s)"
  by (auto simp: cdb_OpenString_def ok_cdb_Open split: sum.splits)

lemma ok_close_reply:
  assumes "session_ok s"
  shows "keeps_ok (case r of
            Reply_Message (DatabaseCloseResponse CL_SUCCESS) \<Rightarrow> Network_Release ch c s
          | Reply_Message (DatabaseCloseResponse CL_DATABASE_NOT_OPEN) \<Rightarrow> Throws EX_DbNotOpen s
          | Reply_Message (DatabaseCloseResponse CL_TRANSACTION_IN_PROGRESS) \<Rightarrow> Stops
          | Reply_ConnectionClosed \<Rightarrow> Network_ServerClosedConnection ch c s
          | _ \<Rightarrow> Throws EX_Exception s)"
proof (cases r)
  case (Reply_Message m)
  then show ?thesis
  proof (cases m)
    case (DatabaseCloseResponse k)
    with Reply_Message show ?thesis by (cases k) (simp_all add: assms ok_Network_Release)
  qed (simp_all add: assms)
qed (simp_all add: assms ok_Network_Release)

lemma session_ok_erase: "session_ok s \<Longrightarrow> session_ok (EraseDatabase d s)"
  by (simp add: EraseDatabase_def session_ok_def)

lemma ok_cdb_Close:
  assumes "session_ok s"
  shows "keeps_ok (cdb_Close ch d s)"
proof (cases "Transaction_IsRunning s")
  case False
  show ?thesis unfolding cdb_Close_def if_not_P [OF False]
    by (intro keeps_andThen ok_channel ok_close_reply session_ok_send) (simp_all add: assms session_ok_erase)
qed (simp add: cdb_Close_def assms)

lemma ok_settings:
  "session_ok s \<Longrightarrow> keeps_ok (cdb_SetMVCC d b s)" "session_ok s \<Longrightarrow> keeps_ok (cdb_UseStickyLocks d b s)"
  "session_ok s \<Longrightarrow> keeps_ok (cdb_SetLockTimeout d k s)" "session_ok (snd (txn_UseStickyLocks b s)) = session_ok s"
  "session_ok (snd (txn_SetLockTimeout k s)) = session_ok s" "session_ok (snd (txn_SetPriority k s)) = session_ok s"
  by (auto simp: cdb_SetMVCC_def cdb_UseStickyLocks_def cdb_SetLockTimeout_def txn_UseStickyLocks_def txn_SetLockTimeout_def
      txn_SetPriority_def session_ok_def database_of_def asserted_def put_database_def split: option.splits)

section \<open>The steps of a client\<close>

text \<open>The public operations, ended in any way but a failed assertion. The ids of what is deleted are not checked by
  the source; a client has to give valid ones.\<close>

inductive client_step :: "'n Channel \<Rightarrow> 'n Session \<Rightarrow> 'n Session \<Rightarrow> bool" for ch where
  step_Open: "final_state (cdb_Open ch host name m port mvcc s) = Some s' \<Longrightarrow> client_step ch s s'"
| step_OpenString: "final_state (cdb_OpenString ch cs m mvcc s) = Some s' \<Longrightarrow> client_step ch s s'"
| step_Close: "final_state (cdb_Close ch d s) = Some s' \<Longrightarrow> client_step ch s s'"
| step_ReadBlob: "final_state (cdb_ReadBlob ch d i c b lock s) = Some s' \<Longrightarrow> client_step ch s s'"
| step_TryReadBlob: "final_state (cdb_TryReadBlob ch d i c b lock s) = Some s' \<Longrightarrow> client_step ch s s'"
| step_ReadBlobs: "cdb_ReadBlobs ch d ls lock s = Some r \<Longrightarrow> final_state r = Some s' \<Longrightarrow> client_step ch s s'"
| step_WriteBlob: "final_state (cdb_WriteBlob ch d i c b bs s) = Some s' \<Longrightarrow> client_step ch s s'"
| step_WriteBlobs: "final_state (cdb_WriteBlobs ch d es s) = Some s' \<Longrightarrow> client_step ch s s'"
| step_CreateBlob: "final_state (cdb_CreateBlob ch d i c bs s) = Some s' \<Longrightarrow> client_step ch s s'"
| step_CreateBlobAt: "final_state (cdb_CreateBlobAt ch d i c b bs s) = Some s' \<Longrightarrow> client_step ch s s'"
| step_CreateCluster: "final_state (cdb_CreateCluster ch d i s) = Some s' \<Longrightarrow> client_step ch s s'"
| step_CreateSegment: "final_state (cdb_CreateSegment ch d s) = Some s' \<Longrightarrow> client_step ch s s'"
| step_DeleteBlob: "check_ids i c b \<Longrightarrow> final_state (cdb_DeleteBlob ch d i c b s) = Some s' \<Longrightarrow> client_step ch s s'"
| step_DeleteCluster: "i \<le> MaxSegmentId \<Longrightarrow> c \<le> MaxClusterId \<Longrightarrow> final_state (cdb_DeleteCluster ch d i c s) = Some s' \<Longrightarrow> client_step ch s s'"
| step_DeleteSegment: "i \<le> MaxSegmentId \<Longrightarrow> final_state (cdb_DeleteSegment ch d i s) = Some s' \<Longrightarrow> client_step ch s s'"
| step_GetAllBlobs: "final_state (cdb_GetAllBlobs ch d i c lock s) = Some s' \<Longrightarrow> client_step ch s s'"
| step_GetAllClusters: "final_state (cdb_GetAllClusters ch d i lock s) = Some s' \<Longrightarrow> client_step ch s s'"
| step_GetAllSegments: "final_state (cdb_GetAllSegments ch d lock s) = Some s' \<Longrightarrow> client_step ch s s'"
| step_Commit: "final_state (txn_Commit ch s) = Some s' \<Longrightarrow> client_step ch s s'"
| step_Abort: "final_state (txn_Abort ch s) = Some s' \<Longrightarrow> client_step ch s s'"
| step_SetMVCC: "final_state (cdb_SetMVCC d e s) = Some s' \<Longrightarrow> client_step ch s s'"
| step_StickyLocks: "final_state (cdb_UseStickyLocks d e s) = Some s' \<Longrightarrow> client_step ch s s'"
| step_LockTimeout: "final_state (cdb_SetLockTimeout d k s) = Some s' \<Longrightarrow> client_step ch s s'"
| step_default_StickyLocks: "client_step ch s (snd (txn_UseStickyLocks e s))"
| step_default_LockTimeout: "client_step ch s (snd (txn_SetLockTimeout k s))"
| step_Priority: "client_step ch s (snd (txn_SetPriority k s))"
| step_channel: "client_step ch s (s\<lparr>ss_channel := n\<rparr>)"

lemmas ok_operations = ok_cdb_Open ok_cdb_OpenString ok_cdb_Close ok_cdb_ReadBlob ok_cdb_TryReadBlob ok_cdb_ReadBlobs ok_cdb_WriteBlob
  ok_cdb_WriteBlobs ok_cdb_CreateBlob ok_cdb_CreateBlobAt ok_cdb_CreateCluster ok_cdb_CreateSegment ok_cdb_DeleteBlob ok_cdb_DeleteCluster
  ok_cdb_DeleteSegment ok_cdb_GetAllBlobs ok_cdb_GetAllClusters ok_cdb_GetAllSegments ok_txn_Commit ok_txn_Abort ok_settings(1-3)

lemma client_step_ok: "client_step ch s s' \<Longrightarrow> session_ok s \<Longrightarrow> session_ok s'"
  by (induction rule: client_step.induct) (auto elim!: ends_final [rotated] intro: ok_operations simp: ok_settings)

inductive client_reachable :: "'n Channel \<Rightarrow> 'n Session \<Rightarrow> bool" for ch where
  client_start: "client_reachable ch (Session_new n)"
| client_next: "client_reachable ch s \<Longrightarrow> client_step ch s s' \<Longrightarrow> client_reachable ch s'"

lemma client_reachable_ok: "client_reachable ch s \<Longrightarrow> session_ok s"
proof (induction rule: client_reachable.induct)
  case (client_start n)
  show ?case by (simp add: Session_new_def session_ok_def)
qed (rule client_step_ok)

end
