(* ===== verification/Client_Runs.thy ===== *)
theory Client_Runs
  imports Client_Invariant Server_Runs
begin

text \<open>
  Concrete runs of a client. The connection is a script: it keeps the messages the client has sent and gives the answers
  of a list, which for the runs with a server are the answers that the server of Server\_Handlers sends.
\<close>

definition script_channel :: "(Message list \<times> Response list) Channel" where
  "script_channel = \<lparr>ch_create = (\<lambda>c host port n. Some n), ch_close = (\<lambda>c n. n),
     ch_send = (\<lambda>c m (ms, rs). (ms @ [m], rs)),
     ch_await = (\<lambda>c n. case n of (ms, []) \<Rightarrow> None | (ms, r # rs) \<Rightarrow> Some (Reply_Message r, (ms, rs)))\<rparr>"

type_synonym scripted = "(Message list \<times> Response list) Session"

definition scripted_session :: "Response list \<Rightarrow> scripted option" where
  "scripted_session rs =
     final_state (cdb_OpenString script_channel ''localhost/mem:a'' CreateIfNotExist False (Session_new ([], rs)))"

section \<open>A session with one write\<close>

definition write_answers :: "Response list" where
  "write_answers = [DatabaseOpenResponse OPEN_SUCCESS 0, TransactionBeginResponse [(0, True, [])],
     BlobsReadResponse [(blob0, 0, [])] False]"

definition sample_session :: "scripted option" where
  "sample_session = do { s \<leftarrow> scripted_session write_answers; final_state (cdb_WriteBlob script_channel (0, 0) 0 0 0 [7, 8] s) }"

definition sample_tx :: DatabaseState where
  "sample_tx = DatabaseState_new (Some \<lparr>hl_read = {}, hl_write = {blob0}\<rparr>)\<lparr>tx_writtenBlobs := [(blob0, [7, 8])]\<rparr>"

lemma sample_session_evaluated:
  "(case sample_session of None \<Rightarrow> False | Some s \<Rightarrow> map_of (ss_active s) 0 = Some \<lparr>tr_id = 0, tr_forDatabase = [(0, sample_tx)]\<rparr>
     \<and> map fst (ss_databases s 0) = [0])"
  by code_simp

lemma sample_write_evaluated:
  "(case scripted_session write_answers of None \<Rightarrow> False | Some s \<Rightarrow>
     (case cdb_WriteBlob script_channel (0, 0) 0 0 0 [7, 8] s of Returns _ s' \<Rightarrow> True | _ \<Rightarrow> False))"
  by code_simp

lemma scripted_session_reachable: "scripted_session rs = Some s \<Longrightarrow> client_reachable script_channel s"
  unfolding scripted_session_def by (rule client_next [OF client_start step_OpenString])

lemma sample_session_facts:
  obtains s where "client_reachable script_channel s" "Transaction_Get 0 s = Some \<lparr>tr_id = 0, tr_forDatabase = [(0, sample_tx)]\<rparr>"
    "ss_databases s 0 \<noteq> []" "map fst (ss_databases s 0) = [0]" "GetDatabaseState (0, 0) s = Some sample_tx"
proof -
  from sample_session_evaluated obtain s where s: "sample_session = Some s"
    "map_of (ss_active s) 0 = Some \<lparr>tr_id = 0, tr_forDatabase = [(0, sample_tx)]\<rparr>" "map fst (ss_databases s 0) = [0]"
    by (auto split: option.splits)
  from s(1) have "client_reachable script_channel s"
    unfolding sample_session_def
    by (auto simp: bind_eq_Some_conv intro: client_next scripted_session_reachable step_WriteBlob)
  moreover from s(3) have "ss_databases s 0 \<noteq> []" by auto
  ultimately show thesis using s that by (simp add: GetDatabaseState_def Transaction_Get_def)
qed

lemma sample_write_facts:
  obtains s s' where "client_reachable script_channel s" "cdb_WriteBlob script_channel (0, 0) 0 0 0 [7, 8] s = Returns () s'"
  using sample_write_evaluated scripted_session_reachable by (auto split: option.splits outcome.splits)

section \<open>A session with a deletion\<close>

definition delete_answers :: "Response list" where
  "delete_answers = [DatabaseOpenResponse OPEN_SUCCESS 0, TransactionBeginResponse [(0, True, [])],
     BlobsReadResponse [(BlobLocation 0 0 BlobListId, 0, [])] False, BlobsReadResponse [(blob0, 0, [])] False]"

lemma sample_delete_evaluated:
  "(case scripted_session delete_answers of None \<Rightarrow> False | Some s \<Rightarrow>
     (case cdb_DeleteBlob script_channel (0, 0) 0 0 0 s of Returns _ s' \<Rightarrow> True | _ \<Rightarrow> False))"
  by code_simp

lemma sample_delete_facts:
  obtains s s' where "client_reachable script_channel s" "cdb_DeleteBlob script_channel (0, 0) 0 0 0 s = Returns () s'"
  using sample_delete_evaluated scripted_session_reachable by (auto split: option.splits outcome.splits)

section \<open>A client that reads an outdated blob\<close>

text \<open>Client 1 reads the blob and aborts, which leaves it a read lock and the blob in its cache. Client 2 writes the blob and
  commits, which takes the lock away. Client 1 writes the blob, aborts, and reads it again.\<close>

definition stale_messages :: "Message list" where
  "stale_messages = concat [msg_open 1, [msg_begin 1 Txn_UpdateKeepStickyLocks, msg_read 1 LM_Read (- 1) blob0, Msg_TransactionAbort 1],
     msg_open 2, [msg_begin 2 Txn_UpdateKeepStickyLocks, msg_read 2 LM_Write (- 1) blob0, msg_commit 2 False [(blob0, [9])],
     msg_begin 1 Txn_UpdateKeepStickyLocks, msg_read 1 LM_Delete (- 1) blob0, Msg_TransactionAbort 1,
     msg_begin 1 Txn_UpdateKeepStickyLocks]]"

definition stale_answers :: "Response list" where
  "stale_answers = [DatabaseOpenResponse OPEN_SUCCESS 0, TransactionBeginResponse [(0, True, [])],
     BlobsReadResponse [(blob0, 1, [])] False, TransactionBeginResponse [(0, True, [])],
     BlobsReadResponse [(blob0, 0, [])] False, TransactionBeginResponse [(0, False, [])]]"

definition stale_session :: "scripted option" where
  "stale_session = do {
     s \<leftarrow> scripted_session stale_answers;
     s \<leftarrow> final_state (cdb_ReadBlob script_channel (0, 0) 0 0 0 LM_Read s);
     s \<leftarrow> final_state (txn_Abort script_channel s);
     s \<leftarrow> final_state (cdb_WriteBlob script_channel (0, 0) 0 0 0 [5] s);
     final_state (txn_Abort script_channel s) }"

text \<open>The client that a message is from is known to the server by the connection.\<close>

fun stamped :: "client_id \<Rightarrow> Message \<Rightarrow> Message" where
  "stamped i (Msg_DatabaseOpen m) = Msg_DatabaseOpen (m\<lparr>do_clientId := i\<rparr>)"
| "stamped i (Msg_DatabaseClose _ d) = Msg_DatabaseClose i d"
| "stamped i (Msg_BlobsRead m) = Msg_BlobsRead (m\<lparr>br_clientId := i\<rparr>)"
| "stamped i (Msg_TransactionBegin m) = Msg_TransactionBegin (m\<lparr>tb_clientId := i\<rparr>)"
| "stamped i (Msg_TransactionAbort _) = Msg_TransactionAbort i"
| "stamped i (Msg_TransactionCommit m) = Msg_TransactionCommit (m\<lparr>tc_clientId := i\<rparr>)"
| "stamped i m = m"

definition messages_of :: "client_id \<Rightarrow> Message list \<Rightarrow> Message list" where
  "messages_of i ms = filter (\<lambda>m. message_client m = i) ms"

definition answers_to :: "client_id \<Rightarrow> ServerState \<Rightarrow> Response list" where
  "answers_to i st = map snd (filter (\<lambda>p. fst p = i) (st_sent st))"

text \<open>The server up to the second transaction of client 1; the answers after that are to a lock that nobody else holds, and
  to the beginning of a transaction for which nothing was revoked.\<close>

lemma stale_server_evaluated:
  "(case server_run (take 11 stale_messages) of None \<Rightarrow> False | Some st \<Rightarrow> answers_to 1 st = take 4 stale_answers
     \<and> (case st_databases st 0 of None \<Rightarrow> False | Some db \<Rightarrow> view_blob (current_view (db_store db)) blob0 = Some (BlobView 2 [9])
        \<and> Database_CanClientAcquireLock (CanRevokeStickyLock (st_clients st)) (db_locks db) 1 blob0 True))"
  by code_simp

text \<open>A blob in the cache of a database with a sticky lock on it is read without asking the server for it.\<close>

lemma sticky_cache_read:
  assumes "ss_active s = []" "ss_databases s 0 = [(0, db)]" "cdb_stickyLocks db = Some \<lparr>hl_read = {}, hl_write = {blob0}\<rparr>"
    "cdb_cache db blob0 = Some b" "ss_connections s = [con]" "con_client con" "ss_channel s = (ms, [TransactionBeginResponse [(0, False, [])]])"
    "\<not> cdb_mvccSetting db"
  shows "\<exists>s'. cdb_ReadBlob script_channel (0, 0) 0 0 0 LM_Read s = Returns (cb_data b) s' \<and> Transaction_GetLockType (0, 0) blob0 s' = LM_Write
     \<and> fst (ss_channel s') = ms @ [begin_message 0 (fix_all 0 s)]"
  using assms
  by (simp add: cdb_ReadBlob_def check_ids_def config_defs ReadBlobInternal_def GetTransaction_def Transaction_Get_def Network_Client_def
      fix_all_def send_message_def script_channel_def Network_ExpectMessage_def Network_AwaitMessage_def await_reply_def Let_def
      get_database_def put_database_def map_put_def HeldLocks_UpdateLocks_def start_transaction_def Transaction_Create_def
      use_transaction_def ApplyStickyLocks_def database_of_def asserted_def GetDatabaseState_def put_state_def FixMVCC_def
      Transaction_ReadBlob_def tx_ReadBlob_def EnsureBlobNotDeleted_def EnsureClusterNotDeleted_def EnsureSegmentNotDeleted_def DatabaseState_new_def
      BlobCache_UpdateTxnIdForHeldLocks_def Transaction_GetLockType_def lock_type_def lock_rank_def)

fun stale_facts :: "scripted \<Rightarrow> bool" where
  "stale_facts s = (ss_active s = [] \<and> map fst (ss_databases s 0) = [0] \<and> (case ss_databases s 0 of [] \<Rightarrow> False | (i, db) # _ \<Rightarrow>
       cdb_stickyLocks db = Some \<lparr>hl_read = {}, hl_write = {blob0}\<rparr> \<and> map_option cb_data (cdb_cache db blob0) = Some [] \<and> \<not> cdb_mvccSetting db)
     \<and> map con_client (ss_connections s) = [True] \<and> snd (ss_channel s) = [TransactionBeginResponse [(0, False, [])]]
     \<and> map (stamped 1) (fst (ss_channel s) @ [begin_message 0 (fix_all 0 s)]) = tl (messages_of 1 stale_messages))"

lemma stale_session_evaluated: "(case stale_session of None \<Rightarrow> False | Some s \<Rightarrow> stale_facts s)"
  by code_simp

lemma stale_read:
  obtains s s' where "stale_session = Some s" "cdb_ReadBlob script_channel (0, 0) 0 0 0 LM_Read s = Returns [] s'"
    "Transaction_GetLockType (0, 0) blob0 s' = LM_Write" "map (stamped 1) (fst (ss_channel s')) = tl (messages_of 1 stale_messages)"
proof -
  from stale_session_evaluated obtain s where s: "stale_session = Some s" "stale_facts s" by (auto split: option.splits simp del: stale_facts.simps)
  then obtain db con ms b where "ss_databases s 0 = [(0, db)]" "ss_connections s = [con]" "con_client con"
    "ss_channel s = (ms, [TransactionBeginResponse [(0, False, [])]])" "cdb_cache db blob0 = Some b" "cb_data b = []" "ss_active s = []"
    "cdb_stickyLocks db = Some \<lparr>hl_read = {}, hl_write = {blob0}\<rparr>" "\<not> cdb_mvccSetting db"
    by (cases "ss_channel s") (auto simp: map_eq_Cons_conv)
  with sticky_cache_read [of s db b con ms] s show thesis by (auto intro!: that)
qed

end
