(* ===== verification/Message_Memory.thy ===== *)
theory Message_Memory
  imports File_Format Blob_Location "HOL-Library.Monad_Syntax"
begin

text \<open>
  The memory of a network message as a byte list. The structs of Network/message/ that follow a message in memory
  are read and written through pointers into it; a pointer is an offset into the message. Each struct has a
  layout: its size, how its fields are stored into its bytes and how they are loaded. Bytes that no field covers keep
  their old content. \<open>None\<close> stands for an access outside of the allocated memory.
\<close>

section \<open>Structs\<close>

record 'a struct_layout =
  sl_size :: nat
  sl_store :: "'a \<Rightarrow> byte list \<Rightarrow> byte list"
  sl_load :: "byte list \<Rightarrow> 'a"

definition load_struct :: "'a struct_layout \<Rightarrow> nat \<Rightarrow> byte list \<Rightarrow> 'a option" where
  "load_struct L pos buf = (if pos + sl_size L \<le> length buf then Some (sl_load L (get pos (sl_size L) buf)) else None)"

definition store_struct :: "'a struct_layout \<Rightarrow> nat \<Rightarrow> 'a \<Rightarrow> byte list \<Rightarrow> byte list option" where
  "store_struct L pos x buf =
     (if pos + sl_size L \<le> length buf then Some (put pos (sl_store L x (get pos (sl_size L) buf)) buf) else None)"

definition read_bytes :: "nat \<Rightarrow> nat \<Rightarrow> byte list \<Rightarrow> byte list option" where
  "read_bytes pos n buf = (if pos + n \<le> length buf then Some (get pos n buf) else None)"

definition write_bytes :: "nat \<Rightarrow> byte list \<Rightarrow> byte list \<Rightarrow> byte list option" where
  "write_bytes pos bs buf = (if pos + length bs \<le> length buf then Some (put pos bs buf) else None)"

text \<open>The loop \<open>for (auto& entry : ...)\<close> over an array: \<open>pos\<close> and \<open>end\<close> are pointers, and a loop whose pointer misses the
  end leaves the memory.\<close>

fun store_array :: "'a struct_layout \<Rightarrow> nat \<Rightarrow> 'a list \<Rightarrow> byte list \<Rightarrow> byte list option" where
  "store_array L pos [] buf = Some buf"
| "store_array L pos (x # xs) buf = do {
     buf \<leftarrow> store_struct L pos x buf;
     store_array L (pos + sl_size L) xs buf }"

partial_function (option) load_array :: "'a struct_layout \<Rightarrow> nat \<Rightarrow> nat \<Rightarrow> byte list \<Rightarrow> 'a list option" where
  "load_array L pos stop buf =
     (if pos = stop then Some []
      else load_struct L pos buf \<bind> (\<lambda>x. load_array L (pos + sl_size L) stop buf \<bind> (\<lambda>xs. Some (x # xs))))"

declare load_array.simps [code]

section \<open>Untouched bytes\<close>

lemma length_get [codec_simps]: "length (get p n buf) = min n (length buf - p)"
  by (simp add: get_def)

text \<open>Nothing but the bytes from \<open>lo\<close> to \<open>hi\<close> changes.\<close>

definition same_outside :: "nat \<Rightarrow> nat \<Rightarrow> byte list \<Rightarrow> byte list \<Rightarrow> bool" where
  "same_outside lo hi buf buf' = (length buf' = length buf
     \<and> (\<forall>p n. p + n \<le> lo \<or> hi \<le> p \<longrightarrow> get p n buf' = get p n buf))"

lemma same_outside_refl [simp]: "same_outside lo hi buf buf"
  by (simp add: same_outside_def)

lemma same_outside_trans:
  "same_outside lo hi a b \<Longrightarrow> same_outside lo hi b c \<Longrightarrow> same_outside lo hi a c"
  by (simp add: same_outside_def)

lemma same_outside_mono:
  "same_outside lo hi a b \<Longrightarrow> lo' \<le> lo \<Longrightarrow> hi \<le> hi' \<Longrightarrow> same_outside lo' hi' a b"
  unfolding same_outside_def by (meson order_trans)

lemma same_outside_put:
  assumes "lo \<le> pos" "pos + length bs \<le> hi" "pos + length bs \<le> length buf"
  shows "same_outside lo hi buf (put pos bs buf)"
  using assms unfolding same_outside_def
  by (auto simp: length_put intro: get_put_before get_put_after)

lemma same_outside_length: "same_outside lo hi a b \<Longrightarrow> length b = length a"
  by (simp add: same_outside_def)

lemma same_outside_get:
  "same_outside lo hi a b \<Longrightarrow> p + n \<le> lo \<or> hi \<le> p \<Longrightarrow> get p n b = get p n a"
  by (auto simp: same_outside_def)

section \<open>Arrays of structs\<close>

text \<open>What the messages need of a layout.\<close>

locale struct_memory =
  fixes L :: "'a struct_layout"
  assumes size_pos: "0 < sl_size L"
    and length_store: "length s = sl_size L \<Longrightarrow> length (sl_store L x s) = sl_size L"
    and load_store: "length s = sl_size L \<Longrightarrow> sl_load L (sl_store L x s) = x"
begin

lemma store_struct_ok:
  assumes "pos + sl_size L \<le> length buf"
  obtains buf' where "store_struct L pos x buf = Some buf'" "same_outside pos (pos + sl_size L) buf buf'"
    "load_struct L pos buf' = Some x"
proof -
  let ?s = "sl_store L x (get pos (sl_size L) buf)"
  have s: "length ?s = sl_size L" "sl_load L ?s = x"
    using assms by (auto intro!: length_store load_store simp: length_get)
  show ?thesis
    by (rule that [of "put pos ?s buf"]) (use assms s in
      \<open>auto simp: store_struct_def load_struct_def get_put_same length_put intro!: same_outside_put\<close>)
qed

lemma load_struct_same:
  "same_outside lo hi a b \<Longrightarrow> pos + sl_size L \<le> lo \<or> hi \<le> pos \<Longrightarrow> load_struct L pos b = load_struct L pos a"
  by (auto simp: load_struct_def same_outside_length same_outside_get)

lemma store_array_ok:
  assumes "pos + sl_size L * length xs \<le> length buf"
  shows "\<exists>buf'. store_array L pos xs buf = Some buf' \<and> same_outside pos (pos + sl_size L * length xs) buf buf'
    \<and> load_array L pos (pos + sl_size L * length xs) buf' = Some xs"
  using assms
proof (induction xs arbitrary: pos buf)
  case Nil
  then show ?case by (simp add: load_array.simps [of L pos])
next
  case (Cons x xs)
  let ?n = "sl_size L" and ?hi = "pos + sl_size L * length (x # xs)"
  obtain b1 where b1: "store_struct L pos x buf = Some b1" "same_outside pos (pos + ?n) buf b1" "load_struct L pos b1 = Some x"
    using store_struct_ok [of pos buf x] Cons.prems by auto
  from Cons.prems b1(2) have "pos + ?n + ?n * length xs \<le> length b1" by (simp add: same_outside_length)
  from Cons.IH [OF this] obtain b2 where b2: "store_array L (pos + ?n) xs b1 = Some b2"
    "same_outside (pos + ?n) ?hi b1 b2" "load_array L (pos + ?n) ?hi b2 = Some xs" by (auto simp: ac_simps)
  have "load_struct L pos b2 = Some x" using load_struct_same [OF b2(2)] b1(3) by simp
  moreover have "pos \<noteq> ?hi" using size_pos by simp
  moreover have "same_outside pos ?hi buf b2"
    by (rule same_outside_trans [OF same_outside_mono [OF b1(2)] same_outside_mono [OF b2(2)]]) auto
  ultimately show ?case using b1(1) b2 by (simp add: load_array.simps [of L pos])
qed

lemma load_array_same:
  assumes "same_outside lo hi a b" "pos + sl_size L * n \<le> lo \<or> hi \<le> pos"
  shows "load_array L pos (pos + sl_size L * n) b = load_array L pos (pos + sl_size L * n) a"
  using assms(2)
proof (induction n arbitrary: pos)
  case (Suc n)
  have "load_array L (pos + sl_size L) (pos + sl_size L * Suc n) b = load_array L (pos + sl_size L) (pos + sl_size L * Suc n) a"
    using Suc.IH [of "pos + sl_size L"] Suc.prems by (auto simp: ac_simps)
  moreover have "load_struct L pos b = load_struct L pos a" using Suc.prems by (intro load_struct_same [OF assms(1)]) auto
  ultimately show ?case by (simp add: load_array.simps [of L pos])
qed (simp add: load_array.simps [of L])

text \<open>Headers from \<open>h\<close> on and the data that belongs to them from \<open>d\<close> on, one after the other.\<close>

fun place_blobs :: "nat \<Rightarrow> nat \<Rightarrow> ('a \<times> byte list) list \<Rightarrow> byte list \<Rightarrow> byte list option" where
  "place_blobs h d [] buf = Some buf"
| "place_blobs h d ((x, bs) # es) buf = do {
     buf \<leftarrow> store_struct L h x buf;
     buf \<leftarrow> write_bytes d bs buf;
     place_blobs (h + sl_size L) (d + length bs) es buf }"

fun holds_blobs :: "nat \<Rightarrow> nat \<Rightarrow> ('a \<times> byte list) list \<Rightarrow> byte list \<Rightarrow> bool" where
  "holds_blobs h d [] buf \<longleftrightarrow> True"
| "holds_blobs h d ((x, bs) # es) buf \<longleftrightarrow> load_struct L h buf = Some x \<and> read_bytes d (length bs) buf = Some bs
     \<and> holds_blobs (h + sl_size L) (d + length bs) es buf"

definition data_length :: "('a \<times> byte list) list \<Rightarrow> nat" where
  "data_length es = (\<Sum>e\<leftarrow>es. length (snd e))"

definition same_beside :: "nat \<Rightarrow> nat \<Rightarrow> ('a \<times> byte list) list \<Rightarrow> byte list \<Rightarrow> byte list \<Rightarrow> bool" where
  "same_beside h d es buf buf' = (length buf' = length buf \<and>
     (\<forall>p n. p + n \<le> h \<or> (h + sl_size L * length es \<le> p \<and> p + n \<le> d) \<or> d + data_length es \<le> p \<longrightarrow> get p n buf' = get p n buf))"

lemma place_blobs_ok:
  assumes "h + sl_size L * length es \<le> d" "d + data_length es \<le> length buf"
  shows "\<exists>buf'. place_blobs h d es buf = Some buf' \<and> same_beside h d es buf buf' \<and> holds_blobs h d es buf'"
  using assms
proof (induction es arbitrary: h d buf)
  case Nil
  then show ?case by (simp add: same_beside_def)
next
  case (Cons e es)
  obtain x bs where e: "e = (x, bs)" by (cases e)
  let ?n = "sl_size L" and ?total = "data_length es"
  have fits: "h + ?n + ?n * length es \<le> d" "d + length bs + ?total \<le> length buf" using Cons.prems by (simp_all add: e data_length_def)
  obtain b1 where b1: "store_struct L h x buf = Some b1" "same_outside h (h + ?n) buf b1" "load_struct L h b1 = Some x"
    using store_struct_ok [of h buf x] fits by auto
  define b2 where "b2 = put d bs b1"
  have l1: "length b1 = length buf" using b1(2) by (rule same_outside_length)
  have w: "write_bytes d bs b1 = Some b2" using fits l1 by (simp add: write_bytes_def b2_def)
  have b2: "same_outside d (d + length bs) b1 b2" unfolding b2_def by (rule same_outside_put) (use fits l1 in auto)
  have "length b2 = length buf" using b2 l1 by (simp add: same_outside_length)
  with Cons.IH [of "h + ?n" "d + length bs" b2] fits
  obtain b3 where b3: "place_blobs (h + ?n) (d + length bs) es b2 = Some b3" "holds_blobs (h + ?n) (d + length bs) es b3"
    "same_beside (h + ?n) (d + length bs) es b2 b3" by auto
  have kept: "get p n b3 = get p n b2" if "p + n \<le> h + ?n \<or> (h + ?n + ?n * length es \<le> p \<and> p + n \<le> d + length bs) \<or> d + length bs + ?total \<le> p" for p n
    using b3(3) that unfolding same_beside_def by blast
  have l3: "length b3 = length buf" using b3(3) \<open>length b2 = length buf\<close> by (simp add: same_beside_def)
  have "get h ?n b3 = get h ?n b1" using kept [of h ?n] same_outside_get [OF b2, of h ?n] fits by simp
  then have "load_struct L h b3 = Some x" using b1(3) l1 l3 by (simp add: load_struct_def split: if_splits)
  moreover have "read_bytes d (length bs) b3 = Some bs"
    using kept [of d "length bs"] fits l1 l3 by (simp add: read_bytes_def b2_def get_put_same)
  moreover have "get p n b3 = get p n buf"
    if "p + n \<le> h \<or> (h + ?n * length (e # es) \<le> p \<and> p + n \<le> d) \<or> d + data_length (e # es) \<le> p" for p n
    using that kept [of p n] same_outside_get [OF b2, of p n] same_outside_get [OF b1(2), of p n] fits by (auto simp: e data_length_def)
  ultimately show ?case using b1(1) w b3 l3 by (simp add: e same_beside_def)
qed

lemma holds_blobs_same:
  assumes "holds_blobs h d es a" "same_outside lo hi a b" "hi \<le> h" "hi \<le> d"
  shows "holds_blobs h d es b"
  using assms(1,3,4)
proof (induction es arbitrary: h d)
  case (Cons e es)
  obtain x bs where e: "e = (x, bs)" by (cases e)
  have "load_struct L h b = Some x" using Cons.prems load_struct_same [OF assms(2), of h] by (simp add: e)
  moreover have "read_bytes d (length bs) b = Some bs"
    using Cons.prems same_outside_get [OF assms(2), of d "length bs"] same_outside_length [OF assms(2)] by (simp add: e read_bytes_def split: if_splits)
  moreover have "holds_blobs (h + sl_size L) (d + length bs) es b" by (rule Cons.IH) (use Cons.prems in \<open>auto simp: e\<close>)
  ultimately show ?case by (simp add: e)
qed simp

end

end
