(* ===== verification/Message_Layout.thy ===== *)
theory Message_Layout
  imports Message_Memory Client_Transaction Server_Reads
begin

text \<open>
  How the messages of Network/message/ lie in memory, byte by byte, and how sender and receiver walk through them.
  Offsets are those of the structs with the alignment of their fields. A message is created in uninitialised memory,
  the function \<open>mem\<close>. The receiving loops are partial functions: an iterator that misses the end leaves the memory.
\<close>

section \<open>Structs that follow a message\<close>

definition u16_bytes :: "uint16_t \<Rightarrow> byte list" where
  "u16_bytes w = nat_bytes 2 (unat w)"

definition u16_of :: "byte list \<Rightarrow> uint16_t" where
  "u16_of bs = of_nat (bytes_nat bs)"

definition bool_byte :: "bool \<Rightarrow> byte" where
  "bool_byte b = (if b then 1 else 0)"

abbreviation byte_at :: "nat \<Rightarrow> byte list \<Rightarrow> byte" where
  "byte_at pos buf \<equiv> hd (get pos 1 buf)"

definition store_location :: "BlobLocation \<Rightarrow> byte list \<Rightarrow> byte list" where
  "store_location l s = put 8 (u32_bytes (blob l)) (put 4 (u32_bytes (cluster l)) (put 0 (u32_bytes (segment l)) s))"

definition load_location :: "byte list \<Rightarrow> BlobLocation" where
  "load_location s = BlobLocation (u32_of (get 0 4 s)) (u32_of (get 4 4 s)) (u32_of (get 8 4 s))"

definition location_layout :: "BlobLocation struct_layout" where
  "location_layout = \<lparr>sl_size = 12, sl_store = store_location, sl_load = load_location\<rparr>"

definition commit_blob_layout :: "(BlobLocation \<times> blob_size) struct_layout" where
  "commit_blob_layout = \<lparr>sl_size = 16,
     sl_store = (\<lambda>(l, n) s. put 12 (u32_bytes n) (store_location l s)),
     sl_load = (\<lambda>s. (load_location s, u32_of (get 12 4 s)))\<rparr>"

definition response_blob_layout :: "(BlobLocation \<times> blob_size \<times> commit_id) struct_layout" where
  "response_blob_layout = \<lparr>sl_size = 24,
     sl_store = (\<lambda>(l, n, k) s. put 16 (u64_bytes k) (put 12 (u32_bytes n) (store_location l s))),
     sl_load = (\<lambda>s. (load_location s, u32_of (get 12 4 s), u64_of (get 16 8 s)))\<rparr>"

definition blob_address_layout :: "BlobAddress struct_layout" where
  "blob_address_layout = \<lparr>sl_size = 24,
     sl_store = (\<lambda>a s. put 16 (u64_bytes (ba_cacheCommitId a)) (store_location (ba_location a) s)),
     sl_load = (\<lambda>s. \<lparr>ba_location = load_location s, ba_cacheCommitId = u64_of (get 16 8 s)\<rparr>)\<rparr>"

definition sticky_locks_layout :: "(database_id \<times> bool \<times> uint16_t) struct_layout" where
  "sticky_locks_layout = \<lparr>sl_size = 4,
     sl_store = (\<lambda>(d, keep, n) s. put 2 (u16_bytes n) (put 1 [bool_byte keep] (put 0 [d] s))),
     sl_load = (\<lambda>s. (byte_at 0 s, byte_at 1 s \<noteq> 0, u16_of (get 2 2 s)))\<rparr>"

fun txn_mode_byte :: "TxnMode \<Rightarrow> byte" where
  "txn_mode_byte Txn_UpdateKeepStickyLocks = 0"
| "txn_mode_byte Txn_Update = 1"
| "txn_mode_byte Txn_MVCC = 2"

definition txn_mode_of :: "byte \<Rightarrow> TxnMode" where
  "txn_mode_of b = (if b = 0 then Txn_UpdateKeepStickyLocks else if b = 2 then Txn_MVCC else Txn_Update)"

definition txn_mode_layout :: "(database_id \<times> TxnMode) struct_layout" where
  "txn_mode_layout = \<lparr>sl_size = 2,
     sl_store = (\<lambda>(d, m) s. put 1 [txn_mode_byte m] (put 0 [d] s)),
     sl_load = (\<lambda>s. (byte_at 0 s, txn_mode_of (byte_at 1 s)))\<rparr>"

definition database_commit_layout :: "(database_id \<times> commit_id) struct_layout" where
  "database_commit_layout = \<lparr>sl_size = 16,
     sl_store = (\<lambda>(d, k) s. put 8 (u64_bytes k) (put 0 [d] s)),
     sl_load = (\<lambda>s. (byte_at 0 s, u64_of (get 8 8 s)))\<rparr>"

lemmas layout_defs = location_layout_def commit_blob_layout_def response_blob_layout_def blob_address_layout_def
  sticky_locks_layout_def txn_mode_layout_def database_commit_layout_def

lemma length_u16_bytes [codec_simps]: "length (u16_bytes w) = 2"
  by (simp add: u16_bytes_def length_nat_bytes)

lemma u16_roundtrip [codec_simps]: "u16_of (u16_bytes w) = w"
  using unsigned_less [of w, where ?'a = nat] by (simp add: u16_of_def u16_bytes_def bytes_nat_bytes)

lemma bool_byte_iff [simp]: "bool_byte b \<noteq> 0 \<longleftrightarrow> b" "bool_byte b = 0 \<longleftrightarrow> \<not> b"
  by (simp_all add: bool_byte_def)

lemma txn_mode_roundtrip [codec_simps]: "txn_mode_of (txn_mode_byte m) = m"
  by (cases m) (simp_all add: txn_mode_of_def)

lemma length_store_location [codec_simps]: "12 \<le> length s \<Longrightarrow> length (store_location l s) = length s"
  by (simp add: store_location_def codec_simps)

lemma load_location_put [codec_simps]:
  "12 \<le> pos \<Longrightarrow> pos \<le> length s \<Longrightarrow> load_location (put pos bs s) = load_location s"
  by (simp add: load_location_def get_put_before)

lemma load_store_location: "12 \<le> length s \<Longrightarrow> load_location (store_location l s) = l"
  by (simp add: store_location_def load_location_def codec_simps get_put_same get_put_before get_put_after)

lemmas memory_simps = codec_simps get_put_same get_put_before get_put_after load_store_location

interpretation location_memory: struct_memory location_layout
  by unfold_locales (simp_all add: location_layout_def load_store_location codec_simps)

interpretation commit_blob_memory: struct_memory commit_blob_layout
  by unfold_locales (auto simp: commit_blob_layout_def load_store_location memory_simps split: prod.splits)

interpretation response_blob_memory: struct_memory response_blob_layout
  by unfold_locales (auto simp: response_blob_layout_def load_store_location memory_simps split: prod.splits)

interpretation blob_address_memory: struct_memory blob_address_layout
  by unfold_locales (auto simp: blob_address_layout_def load_store_location memory_simps)

interpretation sticky_locks_memory: struct_memory sticky_locks_layout
  by unfold_locales (auto simp: sticky_locks_layout_def memory_simps split: prod.splits)

interpretation txn_mode_memory: struct_memory txn_mode_layout
  by unfold_locales (auto simp: txn_mode_layout_def memory_simps split: prod.splits)

interpretation database_commit_memory: struct_memory database_commit_layout
  by unfold_locales (auto simp: database_commit_layout_def memory_simps split: prod.splits)

section \<open>The header of every message\<close>

datatype MessageType = T_DatabaseOpen | T_DatabaseOpenResponse | T_DatabaseClose | T_DatabaseCloseResponse
  | T_BlobsRead | T_BlobsReadResponse | T_TransactionBegin | T_TransactionBeginResponse | T_TransactionAbort
  | T_TransactionCommit | T_TransactionCommitResponse | T_TransactionSetMode
  | T_ConnectionOpened | T_ConnectionClosed | T_NetworkException

fun type_byte :: "MessageType \<Rightarrow> byte" where
  "type_byte T_DatabaseOpen = 0" | "type_byte T_DatabaseOpenResponse = 1" | "type_byte T_DatabaseClose = 2"
| "type_byte T_DatabaseCloseResponse = 3" | "type_byte T_BlobsRead = 4" | "type_byte T_BlobsReadResponse = 5"
| "type_byte T_TransactionBegin = 6" | "type_byte T_TransactionBeginResponse = 7" | "type_byte T_TransactionAbort = 8"
| "type_byte T_TransactionCommit = 9" | "type_byte T_TransactionCommitResponse = 10" | "type_byte T_TransactionSetMode = 11"
| "type_byte T_ConnectionOpened = 12" | "type_byte T_ConnectionClosed = 13" | "type_byte T_NetworkException = 14"

text \<open>\<open>new char[n]\<close>, and the constructor of \<open>Message\<close>: the size, the type and the client id 0.\<close>

definition new_memory :: "(nat \<Rightarrow> byte) \<Rightarrow> nat \<Rightarrow> byte list" where
  "new_memory mem n = map mem [0..<n]"

definition Message_new :: "message_size \<Rightarrow> MessageType \<Rightarrow> byte list \<Rightarrow> byte list" where
  "Message_new messageSize t buf = put 6 (u16_bytes 0) (put 4 [type_byte t] (put 0 (u32_bytes messageSize) buf))"

definition msg_size :: "byte list \<Rightarrow> nat" where
  "msg_size buf = unat (u32_of (get 0 4 buf))"

definition msg_clientId :: "byte list \<Rightarrow> client_id" where
  "msg_clientId buf = u16_of (get 6 2 buf)"

definition MessagePointer_Is :: "MessageType \<Rightarrow> byte list \<Rightarrow> bool" where
  "MessagePointer_Is t buf = (byte_at 4 buf = type_byte t)"

section \<open>TransactionCommit\<close>

definition TransactionCommit_Create ::
  "(nat \<Rightarrow> byte) \<Rightarrow> database_id \<Rightarrow> nat \<Rightarrow> nat \<Rightarrow> bool \<Rightarrow> byte list option" where
  "TransactionCommit_Create mem databaseId totalBlobsSize nBlobsCommitted hasFollowMessage =
     (let messageSize = TransactionCommit_CalculateMessageSize totalBlobsSize nBlobsCommitted in
      if messageSize = 0 then None
      else Some (put 8 [bool_byte hasFollowMessage] (put 9 [databaseId] (put 10 (u16_bytes (of_nat nBlobsCommitted))
        (Message_new messageSize T_TransactionCommit (new_memory mem (unat messageSize)))))))"

text \<open>An iterator: the header it points to and the position of its data.\<close>

record BlobDataIterator =
  bdi_header :: nat
  bdi_dataPos :: nat

definition commit_headerEnd :: "byte list \<Rightarrow> nat" where
  "commit_headerEnd buf = 12 + unat (u16_of (get 10 2 buf)) * 16"

definition TransactionCommit_begin :: "byte list \<Rightarrow> BlobDataIterator" where
  "TransactionCommit_begin buf = \<lparr>bdi_header = 12, bdi_dataPos = commit_headerEnd buf\<rparr>"

definition TransactionCommit_end :: "byte list \<Rightarrow> BlobDataIterator" where
  "TransactionCommit_end buf = \<lparr>bdi_header = commit_headerEnd buf, bdi_dataPos = msg_size buf\<rparr>"

definition BlobDataIterator_eq :: "BlobDataIterator \<Rightarrow> BlobDataIterator \<Rightarrow> bool" where
  "BlobDataIterator_eq i j = (bdi_header i = bdi_header j)"

definition BlobDataIterator_deref :: "BlobDataIterator \<Rightarrow> byte list \<Rightarrow> (BlobLocation \<times> blob_size) option" where
  "BlobDataIterator_deref i buf = load_struct commit_blob_layout (bdi_header i) buf"

definition BlobDataIterator_next :: "BlobDataIterator \<Rightarrow> byte list \<Rightarrow> BlobDataIterator option" where
  "BlobDataIterator_next i buf = do {
     (l, blobSize) \<leftarrow> BlobDataIterator_deref i buf;
     let actualBlobSize = (if blobSize = DeleteBlobSize then 0 else blobSize);
     Some \<lparr>bdi_header = bdi_header i + 16, bdi_dataPos = bdi_dataPos i + unat actualBlobSize\<rparr> }"

definition BlobDataIterator_ReadData :: "BlobDataIterator \<Rightarrow> byte list \<Rightarrow> byte list option" where
  "BlobDataIterator_ReadData i buf = do {
     (l, blobSize) \<leftarrow> BlobDataIterator_deref i buf;
     read_bytes (bdi_dataPos i) (unat blobSize) buf }"

definition BlobDataIterator_WriteData :: "BlobDataIterator \<Rightarrow> byte list \<Rightarrow> byte list \<Rightarrow> byte list option" where
  "BlobDataIterator_WriteData i bs buf = do {
     (l, blobSize) \<leftarrow> BlobDataIterator_deref i buf;
     write_bytes (bdi_dataPos i) (take (min (length bs) (unat blobSize)) bs) buf }"

text \<open>The loop of the client that fills a message, and the message it sends.\<close>

fun fill_commit :: "BlobToSend list \<Rightarrow> BlobDataIterator \<Rightarrow> byte list \<Rightarrow> (BlobDataIterator \<times> byte list) option" where
  "fill_commit [] i buf = Some (i, buf)"
| "fill_commit (w # ws) i buf = do {
     buf \<leftarrow> store_struct commit_blob_layout (bdi_header i) (bts_location w, bts_blobSize w) buf;
     buf \<leftarrow> (if BlobToSend_DataSize w > 0
             then BlobDataIterator_WriteData i (case bts_data w of None \<Rightarrow> [] | Some bs \<Rightarrow> bs) buf else Some buf);
     i \<leftarrow> BlobDataIterator_next i buf;
     fill_commit ws i buf }"

definition build_commit :: "(nat \<Rightarrow> byte) \<Rightarrow> database_id \<Rightarrow> BlobToSend list \<Rightarrow> byte list option" where
  "build_commit mem dbId ws = do {
     buf \<leftarrow> TransactionCommit_Create mem dbId (\<Sum>w\<leftarrow>ws. BlobToSend_DataSize w) (length ws) False;
     (i, buf) \<leftarrow> fill_commit ws (TransactionCommit_begin buf) buf;
     if BlobDataIterator_eq i (TransactionCommit_end buf) then Some buf else None }"

definition mark_follow :: "bool \<Rightarrow> byte list \<Rightarrow> byte list" where
  "mark_follow hasFollowMessage buf = put 8 [bool_byte hasFollowMessage] buf"

text \<open>The loops of the server over the entries of a message; the data of a deleted blob is not read.\<close>

partial_function (option) read_commit_blobs ::
  "BlobDataIterator \<Rightarrow> BlobDataIterator \<Rightarrow> byte list \<Rightarrow> BlobData list option" where
  "read_commit_blobs i stop buf =
     (if BlobDataIterator_eq i stop then Some []
      else BlobDataIterator_deref i buf \<bind> (\<lambda>(l, blobSize).
        (if blobSize = DeleteBlobSize then Some [] else BlobDataIterator_ReadData i buf) \<bind> (\<lambda>bs.
        BlobDataIterator_next i buf \<bind> (\<lambda>j.
        read_commit_blobs j stop buf \<bind> (\<lambda>us.
        Some (\<lparr>bd_location = l, bd_blobSize = blobSize, bd_data = bs\<rparr> # us))))))"

declare read_commit_blobs.simps [code]

definition received_commit :: "byte list \<Rightarrow> TransactionCommit option" where
  "received_commit buf = do {
     us \<leftarrow> read_commit_blobs (TransactionCommit_begin buf) (TransactionCommit_end buf) buf;
     Some \<lparr>tc_clientId = msg_clientId buf, tc_databaseId = byte_at 9 buf, tc_hasFollowMessage = (byte_at 8 buf \<noteq> 0),
           tc_blobs = us\<rparr> }"

section \<open>BlobsReadResponse\<close>

fun result_byte :: "ReadCode \<Rightarrow> byte" where
  "result_byte BR_BLOB_DOES_NOT_EXIST = 1" | "result_byte BR_CLUSTER_DOES_NOT_EXIST = 2" | "result_byte BR_SEGMENT_DOES_NOT_EXIST = 3"
| "result_byte BR_DATABASE_NOT_OPENED = 4" | "result_byte BR_NO_TRANSACTION_IN_PROGRESS = 5"
| "result_byte BR_CANNOT_WRITE_LOCK_IN_MVCC = 6" | "result_byte BR_LOCK_TIMEOUT = 7" | "result_byte BR_DEADLOCK = 8"

definition BlobsReadResponse_Create :: "(nat \<Rightarrow> byte) \<Rightarrow> nat \<Rightarrow> 8 word \<Rightarrow> byte list option" where
  "BlobsReadResponse_Create mem totalBlobsSize nBlobs =
     (let messageSize = 12 + 24 * unat nBlobs + totalBlobsSize in
      if messageSize > unat (- 1 :: message_size) then None
      else Some (put 8 [0] (put 9 [nBlobs] (put 10 [bool_byte False]
        (Message_new (of_nat messageSize) T_BlobsReadResponse (new_memory mem messageSize))))))"

definition BlobsReadResponse_CreateError :: "(nat \<Rightarrow> byte) \<Rightarrow> ReadCode \<Rightarrow> byte list \<Rightarrow> byte list option" where
  "BlobsReadResponse_CreateError mem result errorDetails =
     (let messageSize = 12 + length errorDetails in
      if messageSize > unat (- 1 :: message_size) then None
      else Some (put 12 errorDetails (put 8 [result_byte result] (put 9 [0] (put 10 [bool_byte False]
        (Message_new (of_nat messageSize) T_BlobsReadResponse (new_memory mem messageSize)))))))"

definition BlobsReadResponse_GetErrorDetails :: "byte list \<Rightarrow> byte list option" where
  "BlobsReadResponse_GetErrorDetails buf = (if byte_at 8 buf = 0 then None else read_bytes 12 (msg_size buf - 12) buf)"

record ResponseIterator =
  ri_pos :: nat
  ri_dataPos :: nat

definition response_dataBegin :: "byte list \<Rightarrow> nat" where
  "response_dataBegin buf = 12 + unat (byte_at 9 buf) * 24"

definition BlobsReadResponse_begin :: "byte list \<Rightarrow> ResponseIterator" where
  "BlobsReadResponse_begin buf = \<lparr>ri_pos = 12, ri_dataPos = response_dataBegin buf\<rparr>"

definition BlobsReadResponse_end :: "byte list \<Rightarrow> ResponseIterator" where
  "BlobsReadResponse_end buf = \<lparr>ri_pos = response_dataBegin buf, ri_dataPos = response_dataBegin buf\<rparr>"

definition ResponseIterator_eq :: "ResponseIterator \<Rightarrow> ResponseIterator \<Rightarrow> bool" where
  "ResponseIterator_eq i j = (ri_pos i = ri_pos j)"

definition ResponseIterator_deref :: "ResponseIterator \<Rightarrow> byte list \<Rightarrow> (BlobLocation \<times> blob_size \<times> commit_id) option" where
  "ResponseIterator_deref i buf = load_struct response_blob_layout (ri_pos i) buf"

definition ResponseIterator_SetBlob ::
  "ResponseIterator \<Rightarrow> BlobLocation \<Rightarrow> commit_id \<Rightarrow> byte list \<Rightarrow> blob_size \<Rightarrow> byte list \<Rightarrow> byte list option" where
  "ResponseIterator_SetBlob i location commitId bs blobSize buf = do {
     buf \<leftarrow> store_struct response_blob_layout (ri_pos i) (location, blobSize, commitId) buf;
     if unat blobSize \<le> length bs then write_bytes (ri_dataPos i) (take (unat blobSize) bs) buf else None }"

definition ResponseIterator_GetData :: "ResponseIterator \<Rightarrow> nat \<Rightarrow> byte list \<Rightarrow> byte list option" where
  "ResponseIterator_GetData i n buf = read_bytes (ri_dataPos i) n buf"

definition ResponseIterator_next :: "ResponseIterator \<Rightarrow> byte list \<Rightarrow> ResponseIterator option" where
  "ResponseIterator_next i buf = do {
     (l, blobSize, k) \<leftarrow> ResponseIterator_deref i buf;
     Some \<lparr>ri_pos = ri_pos i + 24, ri_dataPos = ri_dataPos i + unat blobSize\<rparr> }"

text \<open>The loop of the server over the chunk and the requested locations, and the message it sends.\<close>

fun fill_response :: "(BlobAddress \<times> answer) list \<Rightarrow> ResponseIterator \<Rightarrow> byte list \<Rightarrow> byte list option" where
  "fill_response [] i buf = Some buf"
| "fill_response ((r, a) # ras) i buf = do {
     buf \<leftarrow> (case a of
         None \<Rightarrow> ResponseIterator_SetBlob i (ba_location r) (ba_cacheCommitId r) [] 0 buf
       | Some (commitId, content) \<Rightarrow> ResponseIterator_SetBlob i (ba_location r) commitId content (of_nat (length content)) buf);
     i \<leftarrow> ResponseIterator_next i buf;
     fill_response ras i buf }"

definition build_response :: "(nat \<Rightarrow> byte) \<Rightarrow> BlobAddress list \<Rightarrow> answer list \<Rightarrow> bool \<Rightarrow> byte list option" where
  "build_response mem rs chunk hasFollowMessage = do {
     buf \<leftarrow> BlobsReadResponse_Create mem (\<Sum>a\<leftarrow>chunk. Server_BlobSize a) (of_nat (length chunk));
     buf \<leftarrow> fill_response (zip rs chunk) (BlobsReadResponse_begin buf) buf;
     Some (put 10 [bool_byte hasFollowMessage] buf) }"

fun build_responses :: "(nat \<Rightarrow> byte) \<Rightarrow> BlobAddress list \<Rightarrow> answer list list \<Rightarrow> byte list list option" where
  "build_responses mem rs [] = Some []"
| "build_responses mem rs (chunk # chunks) = do {
     buf \<leftarrow> build_response mem (take (length chunk) rs) chunk (chunks \<noteq> []);
     bufs \<leftarrow> build_responses mem (drop (length chunk) rs) chunks;
     Some (buf # bufs) }"

text \<open>The loop of the client over the blobs of an answer.\<close>

partial_function (option) read_response_blobs ::
  "ResponseIterator \<Rightarrow> ResponseIterator \<Rightarrow> byte list \<Rightarrow> response_blob list option" where
  "read_response_blobs i stop buf =
     (if ResponseIterator_eq i stop then Some []
      else ResponseIterator_deref i buf \<bind> (\<lambda>(l, blobSize, k).
        ResponseIterator_GetData i (unat blobSize) buf \<bind> (\<lambda>bs.
        ResponseIterator_next i buf \<bind> (\<lambda>j.
        read_response_blobs j stop buf \<bind> (\<lambda>rs. Some ((l, k, bs) # rs))))))"

declare read_response_blobs.simps [code]

definition received_response :: "byte list \<Rightarrow> Response option" where
  "received_response buf =
     (if byte_at 8 buf = 0
      then map_option (\<lambda>rs. BlobsReadResponse rs (byte_at 10 buf \<noteq> 0))
             (read_response_blobs (BlobsReadResponse_begin buf) (BlobsReadResponse_end buf) buf)
      else map_option BlobsReadError (find (\<lambda>code. result_byte code = byte_at 8 buf)
             [BR_BLOB_DOES_NOT_EXIST, BR_CLUSTER_DOES_NOT_EXIST, BR_SEGMENT_DOES_NOT_EXIST, BR_DATABASE_NOT_OPENED,
              BR_NO_TRANSACTION_IN_PROGRESS, BR_CANNOT_WRITE_LOCK_IN_MVCC, BR_LOCK_TIMEOUT, BR_DEADLOCK]))"

section \<open>TransactionBegin and TransactionBeginResponse\<close>

definition TransactionBegin_Create :: "(nat \<Rightarrow> byte) \<Rightarrow> int \<Rightarrow> nat \<Rightarrow> byte list option" where
  "TransactionBegin_Create mem transactionPriority nDatabases =
     (if nDatabases < 255
      then let messageSize = 12 + 2 * nDatabases in
        Some (put 8 (u16_bytes (word_of_int transactionPriority))
          (Message_new (of_nat messageSize) T_TransactionBegin (new_memory mem messageSize)))
      else None)"

definition build_begin :: "(nat \<Rightarrow> byte) \<Rightarrow> int \<Rightarrow> (database_id \<times> TxnMode) list \<Rightarrow> byte list option" where
  "build_begin mem transactionPriority ds = do {
     buf \<leftarrow> TransactionBegin_Create mem transactionPriority (length ds);
     store_array txn_mode_layout 12 ds buf }"

definition received_begin :: "byte list \<Rightarrow> TransactionBegin option" where
  "received_begin buf = do {
     ds \<leftarrow> load_array txn_mode_layout 12 (msg_size buf) buf;
     Some \<lparr>tb_clientId = msg_clientId buf, tb_transactionPriority = sint (u16_of (get 8 2 buf)), tb_databases = ds\<rparr> }"

definition TransactionBeginResponse_Create :: "(nat \<Rightarrow> byte) \<Rightarrow> nat \<Rightarrow> uint16_t \<Rightarrow> byte list option" where
  "TransactionBeginResponse_Create mem nDatabases nLocks =
     (if nDatabases \<le> 255
      then let messageSize = 12 + nDatabases * 4 + unat nLocks * 12 in
        Some (put 8 [0] (Message_new (of_nat messageSize) T_TransactionBeginResponse (new_memory mem messageSize)))
      else None)"

text \<open>\<open>operator++\<close>: the next entry follows the locks of this one.\<close>

definition begin_response_next :: "nat \<Rightarrow> byte list \<Rightarrow> nat option" where
  "begin_response_next pos buf = do {
     (d, keep, nLocks) \<leftarrow> load_struct sticky_locks_layout pos buf;
     Some (pos + 4 + unat nLocks * 12) }"

fun fill_begin_response :: "(database_id \<times> bool \<times> BlobLocation list) list \<Rightarrow> nat \<Rightarrow> byte list \<Rightarrow> byte list option" where
  "fill_begin_response [] writePos buf = Some buf"
| "fill_begin_response ((d, keep, ls) # es) writePos buf = do {
     buf \<leftarrow> store_struct sticky_locks_layout writePos (d, keep, of_nat (length ls)) buf;
     nextPos \<leftarrow> begin_response_next writePos buf;
     buf \<leftarrow> store_array location_layout (writePos + 4) ls buf;
     fill_begin_response es nextPos buf }"

definition build_begin_response ::
  "(nat \<Rightarrow> byte) \<Rightarrow> nat \<Rightarrow> nat \<Rightarrow> (database_id \<times> bool \<times> BlobLocation list) list \<Rightarrow> byte list option" where
  "build_begin_response mem nDatabases totalLocks es = do {
     buf \<leftarrow> TransactionBeginResponse_Create mem nDatabases (of_nat totalLocks);
     fill_begin_response es 12 buf }"

partial_function (option) read_begin_response ::
  "nat \<Rightarrow> nat \<Rightarrow> byte list \<Rightarrow> (database_id \<times> bool \<times> BlobLocation list) list option" where
  "read_begin_response pos stop buf =
     (if pos = stop then Some []
      else load_struct sticky_locks_layout pos buf \<bind> (\<lambda>(d, keep, nLocks).
        load_array location_layout (pos + 4) (pos + 4 + unat nLocks * 12) buf \<bind> (\<lambda>ls.
        begin_response_next pos buf \<bind> (\<lambda>nextPos.
        read_begin_response nextPos stop buf \<bind> (\<lambda>es. Some ((d, keep, ls) # es))))))"

declare read_begin_response.simps [code]

definition received_begin_response :: "byte list \<Rightarrow> Response option" where
  "received_begin_response buf =
     (if byte_at 8 buf = 0 then map_option TransactionBeginResponse (read_begin_response 12 (msg_size buf) buf) else None)"

section \<open>TransactionCommitResponse and BlobsRead\<close>

definition TransactionCommitResponse_Create :: "(nat \<Rightarrow> byte) \<Rightarrow> nat \<Rightarrow> byte list option" where
  "TransactionCommitResponse_Create mem nDatabases =
     (if nDatabases \<le> 256
      then let messageSize = 12 + 16 * nDatabases in
        Some (put 8 [0] (Message_new (of_nat messageSize) T_TransactionCommitResponse (new_memory mem messageSize)))
      else None)"

definition build_commit_response :: "(nat \<Rightarrow> byte) \<Rightarrow> (database_id \<times> commit_id) list \<Rightarrow> byte list option" where
  "build_commit_response mem ks = do {
     buf \<leftarrow> TransactionCommitResponse_Create mem (length ks);
     store_array database_commit_layout 12 ks buf }"

definition received_commit_response :: "byte list \<Rightarrow> Response option" where
  "received_commit_response buf =
     (if byte_at 8 buf = 0
      then map_option TransactionCommitResponse (load_array database_commit_layout 12 (msg_size buf) buf) else None)"

fun lock_mode_byte :: "LockMode \<Rightarrow> byte" where
  "lock_mode_byte LM_None = 0" | "lock_mode_byte LM_Read = 1" | "lock_mode_byte LM_Write = 2" | "lock_mode_byte LM_Delete = 3"

definition lock_mode_of :: "byte \<Rightarrow> LockMode option" where
  "lock_mode_of b = find (\<lambda>m. lock_mode_byte m = b) [LM_None, LM_Read, LM_Write, LM_Delete]"

definition BlobsRead_Create :: "(nat \<Rightarrow> byte) \<Rightarrow> database_id \<Rightarrow> 8 word \<Rightarrow> LockMode \<Rightarrow> int \<Rightarrow> byte list" where
  "BlobsRead_Create mem databaseId nBlobsRequested lockMode lockTimeoutMs =
     (let messageSize = 16 + unat nBlobsRequested * 24 in
      put 8 [databaseId] (put 9 [nBlobsRequested] (put 10 [lock_mode_byte lockMode] (put 12 (u32_bytes (word_of_int lockTimeoutMs))
        (Message_new (of_nat messageSize) T_BlobsRead (new_memory mem messageSize))))))"

definition build_read :: "(nat \<Rightarrow> byte) \<Rightarrow> database_id \<Rightarrow> LockMode \<Rightarrow> int \<Rightarrow> BlobAddress list \<Rightarrow> byte list option" where
  "build_read mem databaseId lockMode lockTimeoutMs rs =
     store_array blob_address_layout 16 rs (BlobsRead_Create mem databaseId (of_nat (length rs)) lockMode lockTimeoutMs)"

definition received_read :: "byte list \<Rightarrow> BlobsRead option" where
  "received_read buf = do {
     m \<leftarrow> lock_mode_of (byte_at 10 buf);
     rs \<leftarrow> load_array blob_address_layout 16 (16 + unat (byte_at 9 buf) * 24) buf;
     Some \<lparr>br_clientId = msg_clientId buf, br_databaseId = byte_at 8 buf, br_lockMode = m,
           br_lockTimeoutMs = sint (u32_of (get 12 4 buf)), br_blobs = rs\<rparr> }"

section \<open>Messages that end with a text\<close>

definition trailing_text :: "nat \<Rightarrow> byte list \<Rightarrow> byte list option" where
  "trailing_text pos buf = read_bytes pos (msg_size buf - pos) buf"

definition text_message :: "(nat \<Rightarrow> byte) \<Rightarrow> MessageType \<Rightarrow> nat \<Rightarrow> byte list \<Rightarrow> byte list option" where
  "text_message mem t pos bs =
     (let messageSize = of_nat (pos + length bs) in
      write_bytes pos bs (Message_new messageSize t (new_memory mem (unat messageSize))))"

definition ConnectionOpened_Create :: "(nat \<Rightarrow> byte) \<Rightarrow> client_id \<Rightarrow> byte list \<Rightarrow> byte list option" where
  "ConnectionOpened_Create mem clientId remoteIp =
     map_option (put 6 (u16_bytes clientId)) (text_message mem T_ConnectionOpened 8 remoteIp)"

definition ConnectionOpened_GetRemoteIp :: "byte list \<Rightarrow> byte list option" where
  "ConnectionOpened_GetRemoteIp = trailing_text 8"

definition NetworkException_Create :: "(nat \<Rightarrow> byte) \<Rightarrow> byte list \<Rightarrow> byte list option" where
  "NetworkException_Create mem exceptionMessage = text_message mem T_NetworkException 8 exceptionMessage"

definition NetworkException_GetExceptionMessage :: "byte list \<Rightarrow> byte list option" where
  "NetworkException_GetExceptionMessage = trailing_text 8"

fun open_mode_byte :: "OpenMode \<Rightarrow> byte" where
  "open_mode_byte CreateIfNotExist = 0" | "open_mode_byte OpenFailIfNotExist = 1"
| "open_mode_byte CreateFailIfExist = 2" | "open_mode_byte CreateAlways = 3"

definition DatabaseOpen_Create :: "(nat \<Rightarrow> byte) \<Rightarrow> byte list \<Rightarrow> OpenMode \<Rightarrow> bool \<Rightarrow> byte list option" where
  "DatabaseOpen_Create mem databaseName openMode mvcc =
     map_option (\<lambda>buf. put 8 [open_mode_byte openMode] (put 9 [bool_byte mvcc] buf))
       (text_message mem T_DatabaseOpen 12 databaseName)"

definition DatabaseOpen_GetDatabaseName :: "byte list \<Rightarrow> byte list option" where
  "DatabaseOpen_GetDatabaseName = trailing_text 12"

section \<open>Messages without a trailing part\<close>

definition plain_message :: "(nat \<Rightarrow> byte) \<Rightarrow> MessageType \<Rightarrow> nat \<Rightarrow> byte list \<Rightarrow> byte list" where
  "plain_message mem t n bs = put 8 bs (Message_new (of_nat n) t (new_memory mem n))"

fun open_result_byte :: "OpenResult \<Rightarrow> byte" where
  "open_result_byte OPEN_SUCCESS = 0" | "open_result_byte DATABASE_OPEN_FAILED = 1" | "open_result_byte ILLEGAL_DATABASE_PATH = 2"
| "open_result_byte DATABASE_ALREADY_OPEN = 3" | "open_result_byte TOO_MANY_DATABASES_OPEN = 4"
| "open_result_byte DATABASE_DOES_NOT_EXIST = 5" | "open_result_byte DATABASE_ALREADY_EXISTS = 6"
| "open_result_byte CANNOT_OVERWRITE_OPEN_DATABASE = 7"

fun close_result_byte :: "CloseCode \<Rightarrow> byte" where
  "close_result_byte CL_SUCCESS = 0" | "close_result_byte CL_TRANSACTION_IN_PROGRESS = 1" | "close_result_byte CL_DATABASE_NOT_OPEN = 2"

fun begin_result_byte :: "BeginCode \<Rightarrow> byte" where
  "begin_result_byte TB_ERROR_ALREADY_IN_TRANSACTION = 1" | "begin_result_byte TB_ERROR_INVALID_DATABASE = 2"

fun commit_result_byte :: "CommitCode \<Rightarrow> byte" where
  "commit_result_byte TC_SUCCESS = 0" | "commit_result_byte TC_DATABASE_NOT_OPENED = 1"
| "commit_result_byte TC_DATABASE_ORDER_VIOLATED = 2" | "commit_result_byte TC_MISSING_WRITE_LOCK = 3"
| "commit_result_byte TC_NO_TRANSACTION_IN_PROGRESS = 4" | "commit_result_byte TC_SEGMENT_DOES_NOT_EXIST = 5"
| "commit_result_byte TC_CLUSTER_DOES_NOT_EXIST = 6" | "commit_result_byte TC_BLOB_DOES_NOT_EXIST = 7"
| "commit_result_byte TC_ILLEGAL_NEXT_FREE_BLOB_ID = 8" | "commit_result_byte TC_ILLEGAL_NEXT_FREE_CLUSTER_ID = 9"
| "commit_result_byte TC_ILLEGAL_NEXT_FREE_SEGMENT_ID = 10" | "commit_result_byte TC_CANNOT_COMMIT_MVCC_DATABASE = 11"

definition DatabaseOpenResponse_Create :: "(nat \<Rightarrow> byte) \<Rightarrow> OpenResult \<Rightarrow> database_id \<Rightarrow> byte list" where
  "DatabaseOpenResponse_Create mem result dbId = plain_message mem T_DatabaseOpenResponse 12 [open_result_byte result, dbId]"

definition DatabaseClose_Create :: "(nat \<Rightarrow> byte) \<Rightarrow> database_id \<Rightarrow> byte list" where
  "DatabaseClose_Create mem databaseId = plain_message mem T_DatabaseClose 12 [databaseId]"

definition DatabaseCloseResponse_Create :: "(nat \<Rightarrow> byte) \<Rightarrow> CloseCode \<Rightarrow> byte list" where
  "DatabaseCloseResponse_Create mem result = plain_message mem T_DatabaseCloseResponse 12 [close_result_byte result]"

definition TransactionBeginResponse_CreateError :: "(nat \<Rightarrow> byte) \<Rightarrow> BeginCode \<Rightarrow> byte list" where
  "TransactionBeginResponse_CreateError mem result = plain_message mem T_TransactionBeginResponse 12 [begin_result_byte result]"

definition TransactionCommitResponse_CreateError :: "(nat \<Rightarrow> byte) \<Rightarrow> CommitCode \<Rightarrow> byte list" where
  "TransactionCommitResponse_CreateError mem result = plain_message mem T_TransactionCommitResponse 12 [commit_result_byte result]"

definition TransactionAbort_Create :: "(nat \<Rightarrow> byte) \<Rightarrow> byte list" where
  "TransactionAbort_Create mem = plain_message mem T_TransactionAbort 8 []"

definition ConnectionClosed_Create :: "(nat \<Rightarrow> byte) \<Rightarrow> client_id \<Rightarrow> byte list" where
  "ConnectionClosed_Create mem clientId = put 6 (u16_bytes clientId) (plain_message mem T_ConnectionClosed 8 [])"

end
