(* ===== verification/Layout_Properties.thy ===== *)
theory Layout_Properties
  imports Message_Layout Client_Commit Read_Properties
begin

text \<open>
  The messages that the sender lays out in memory are read back by the receiver as the messages the rest of the
  development works on, and no access leaves the memory that was allocated.
\<close>

section \<open>Headers\<close>

lemma length_new_memory [simp]: "length (new_memory mem n) = n"
  by (simp add: new_memory_def)

lemma length_Message_new [simp]: "8 \<le> length buf \<Longrightarrow> length (Message_new n t buf) = length buf"
  by (simp add: Message_new_def codec_simps)

lemma Message_new_fields:
  assumes "8 \<le> length buf"
  shows "msg_size (Message_new n t buf) = unat n" "msg_clientId (Message_new n t buf) = 0"
    "MessagePointer_Is t (Message_new n t buf)"
  using assms by (simp_all add: Message_new_def msg_size_def msg_clientId_def MessagePointer_Is_def memory_simps)

text \<open>Writing behind the header keeps its fields.\<close>

lemma header_put:
  assumes "8 \<le> pos" "pos \<le> length buf"
  shows "msg_size (put pos bs buf) = msg_size buf" "msg_clientId (put pos bs buf) = msg_clientId buf"
    "MessagePointer_Is t (put pos bs buf) = MessagePointer_Is t buf"
  using assms by (simp_all add: msg_size_def msg_clientId_def MessagePointer_Is_def get_put_before)

lemma header_same:
  assumes "\<And>p n. p + n \<le> 8 \<Longrightarrow> get p n b = get p n a"
  shows "msg_size b = msg_size a" "msg_clientId b = msg_clientId a" "MessagePointer_Is t b = MessagePointer_Is t a"
  using assms by (simp_all add: msg_size_def msg_clientId_def MessagePointer_Is_def)

lemma uint_size: "n \<le> 4294967295 \<Longrightarrow> unat (of_nat n :: message_size) = n"
  by (simp add: unsigned_of_nat take_bit_nat_eq_self)

lemma max_message_size: "unat (- 1 :: message_size) = 4294967295"
  by (simp add: unsigned_minus_1_eq_mask mask_eq_exp_minus_1)

text \<open>Messages of a fixed size: the receiver finds the fields where the sender put them, and different results are
  different bytes.\<close>

lemma plain_message_fields:
  assumes "8 + length bs \<le> n" "n \<le> 4294967295"
  shows "length (plain_message mem t n bs) = n" "msg_size (plain_message mem t n bs) = n"
    "msg_clientId (plain_message mem t n bs) = 0" "MessagePointer_Is t (plain_message mem t n bs)"
    "get 8 (length bs) (plain_message mem t n bs) = bs"
proof -
  define b0 where "b0 = Message_new (of_nat n) t (new_memory mem n)"
  have n: "unat (of_nat n :: message_size) = n" using assms(2) by (simp add: unsigned_of_nat take_bit_nat_eq_self)
  have "length b0 = n" "msg_size b0 = n" "msg_clientId b0 = 0" "MessagePointer_Is t b0"
    using assms n by (simp_all add: b0_def Message_new_fields)
  with assms(1) show "length (plain_message mem t n bs) = n" "msg_size (plain_message mem t n bs) = n"
    "msg_clientId (plain_message mem t n bs) = 0" "MessagePointer_Is t (plain_message mem t n bs)"
    "get 8 (length bs) (plain_message mem t n bs) = bs"
    by (simp_all add: plain_message_def b0_def [symmetric] header_put codec_simps get_put_same)
qed

lemma result_bytes_distinct:
  "open_result_byte a = open_result_byte b \<longleftrightarrow> a = b" "close_result_byte c = close_result_byte d \<longleftrightarrow> c = d"
  "begin_result_byte e = begin_result_byte f \<longleftrightarrow> e = f" "commit_result_byte g = commit_result_byte h \<longleftrightarrow> g = h"
  "type_byte t = type_byte u \<longleftrightarrow> t = u" "open_mode_byte m = open_mode_byte n \<longleftrightarrow> m = n"
proof -
  show "open_result_byte a = open_result_byte b \<longleftrightarrow> a = b" by (cases a; cases b) simp_all
  show "close_result_byte c = close_result_byte d \<longleftrightarrow> c = d" by (cases c; cases d) simp_all
  show "begin_result_byte e = begin_result_byte f \<longleftrightarrow> e = f" by (cases e; cases f) simp_all
  show "commit_result_byte g = commit_result_byte h \<longleftrightarrow> g = h" by (cases g; cases h) simp_all
  show "type_byte t = type_byte u \<longleftrightarrow> t = u" by (cases t; cases u) simp_all
  show "open_mode_byte m = open_mode_byte n \<longleftrightarrow> m = n" by (cases m; cases n) simp_all
qed

lemma connection_closed_client: "msg_clientId (ConnectionClosed_Create mem clientId) = clientId"
  by (simp add: ConnectionClosed_Create_def msg_clientId_def get_put_same codec_simps plain_message_fields)

text \<open>Texts behind a message.\<close>

lemma text_message_ok:
  assumes "8 \<le> pos" "pos + length bs \<le> 4294967295"
  shows "\<exists>buf. text_message mem t pos bs = Some buf \<and> length buf = pos + length bs \<and> trailing_text pos buf = Some bs
    \<and> MessagePointer_Is t buf"
proof -
  define b0 where "b0 = Message_new (of_nat (pos + length bs)) t (new_memory mem (pos + length bs))"
  have l0: "length b0 = pos + length bs" using assms(1) by (simp add: b0_def)
  have h0: "msg_size b0 = length b0" "MessagePointer_Is t b0"
    unfolding b0_def using assms uint_size [OF assms(2)] by (simp_all add: Message_new_fields)
  have "text_message mem t pos bs = Some (put pos bs b0)"
    using l0 uint_size [OF assms(2)] by (simp add: text_message_def write_bytes_def Let_def b0_def)
  then show ?thesis
    by (intro exI [of _ "put pos bs b0"]) (use l0 h0 assms(1) in \<open>simp add: trailing_text_def read_bytes_def header_put codec_simps get_put_same\<close>)
qed

lemma database_name_roundtrip:
  assumes "length databaseName \<le> 4294967283"
  shows "\<exists>buf. DatabaseOpen_Create mem databaseName openMode mvcc = Some buf \<and> DatabaseOpen_GetDatabaseName buf = Some databaseName"
proof -
  obtain buf where "text_message mem T_DatabaseOpen 12 databaseName = Some buf" "length buf = 12 + length databaseName"
    "trailing_text 12 buf = Some databaseName" using text_message_ok [of 12 databaseName mem T_DatabaseOpen] assms by auto
  then show ?thesis
    by (auto simp: DatabaseOpen_Create_def DatabaseOpen_GetDatabaseName_def trailing_text_def read_bytes_def header_put
        get_put_after codec_simps split: if_splits)
qed

lemma remote_ip_roundtrip:
  assumes "length remoteIp \<le> 4294967287"
  shows "\<exists>buf. ConnectionOpened_Create mem clientId remoteIp = Some buf \<and> ConnectionOpened_GetRemoteIp buf = Some remoteIp
    \<and> msg_clientId buf = clientId"
proof -
  obtain buf where "text_message mem T_ConnectionOpened 8 remoteIp = Some buf" "length buf = 8 + length remoteIp"
    "trailing_text 8 buf = Some remoteIp" using text_message_ok [of 8 remoteIp mem T_ConnectionOpened] assms by auto
  then show ?thesis
    by (auto simp: ConnectionOpened_Create_def ConnectionOpened_GetRemoteIp_def trailing_text_def read_bytes_def msg_size_def
        msg_clientId_def memory_simps split: if_splits)
qed

lemma exception_message_roundtrip:
  assumes "length exceptionMessage \<le> 4294967287"
  shows "\<exists>buf. NetworkException_Create mem exceptionMessage = Some buf
    \<and> NetworkException_GetExceptionMessage buf = Some exceptionMessage"
  using text_message_ok [of 8 exceptionMessage mem T_NetworkException] assms
  by (auto simp: NetworkException_Create_def NetworkException_GetExceptionMessage_def)

section \<open>The messages of a commit\<close>

definition send_ok :: "BlobToSend \<Rightarrow> bool" where
  "send_ok w = (case bts_data w of None \<Rightarrow> bts_blobSize w = 0 \<or> bts_blobSize w = DeleteBlobSize
     | Some bs \<Rightarrow> length bs \<le> unat MaxBlobSize \<and> bts_blobSize w = of_nat (length bs))"

definition sent_blob :: "BlobToSend \<Rightarrow> (BlobLocation \<times> blob_size) \<times> byte list" where
  "sent_blob w = ((bts_location w, bts_blobSize w), case bts_data w of None \<Rightarrow> [] | Some bs \<Rightarrow> bs)"

lemma send_ok_size:
  assumes "send_ok w" "bts_data w = Some bs"
  shows "unat (bts_blobSize w) = length bs" "bts_blobSize w \<noteq> DeleteBlobSize"
proof -
  have "length bs \<le> unat MaxBlobSize" "bts_blobSize w = of_nat (length bs)" using assms by (simp_all add: send_ok_def)
  moreover have "unat MaxBlobSize = 4294967039" "unat DeleteBlobSize = 4294967040" by (simp_all add: config_defs)
  ultimately show "unat (bts_blobSize w) = length bs" by (simp add: unsigned_of_nat take_bit_nat_eq_self)
  with \<open>length bs \<le> unat MaxBlobSize\<close> \<open>unat MaxBlobSize = _\<close> \<open>unat DeleteBlobSize = _\<close> show "bts_blobSize w \<noteq> DeleteBlobSize" by auto
qed

lemma sent_length:
  assumes "send_ok w"
  shows "length (snd (sent_blob w)) = BlobToSend_DataSize w"
    "unat (if bts_blobSize w = DeleteBlobSize then 0 else bts_blobSize w) = BlobToSend_DataSize w"
  using assms send_ok_size [OF assms]
  by (auto simp: sent_blob_def BlobToSend_DataSize_def send_ok_def split: option.splits)

lemma commit_next:
  assumes "load_struct commit_blob_layout h buf = Some (fst (sent_blob w))" "send_ok w"
  shows "BlobDataIterator_next \<lparr>bdi_header = h, bdi_dataPos = d\<rparr> buf
    = Some \<lparr>bdi_header = h + 16, bdi_dataPos = d + BlobToSend_DataSize w\<rparr>"
  using assms sent_length(2) [OF assms(2)]
  by (simp add: BlobDataIterator_next_def BlobDataIterator_deref_def sent_blob_def)

lemma commit_size [simp]: "sl_size commit_blob_layout = 16"
  by (simp add: commit_blob_layout_def)

lemma fill_commit_place:
  assumes "commit_blob_memory.place_blobs h d (map sent_blob ws) buf = Some buf'" "\<forall>w \<in> set ws. send_ok w"
    "h + 16 * length ws \<le> d" "d + (\<Sum>w\<leftarrow>ws. BlobToSend_DataSize w) \<le> length buf"
  shows "fill_commit ws \<lparr>bdi_header = h, bdi_dataPos = d\<rparr> buf
    = Some (\<lparr>bdi_header = h + 16 * length ws, bdi_dataPos = d + (\<Sum>w\<leftarrow>ws. BlobToSend_DataSize w)\<rparr>, buf')"
  using assms
proof (induction ws arbitrary: h d buf)
  case (Cons w ws)
  let ?i = "\<lparr>bdi_header = h, bdi_dataPos = d\<rparr>"
  have ok: "send_ok w" using Cons.prems(2) by simp
  obtain x bs where e: "sent_blob w = (x, bs)" by fastforce
  then have x: "x = (bts_location w, bts_blobSize w)" "bs = (case bts_data w of None \<Rightarrow> [] | Some bs \<Rightarrow> bs)"
    by (simp_all add: sent_blob_def)
  obtain b1 where b1: "store_struct commit_blob_layout h x buf = Some b1" "same_outside h (h + 16) buf b1"
    "load_struct commit_blob_layout h b1 = Some x"
    using commit_blob_memory.store_struct_ok [of h buf x] Cons.prems by auto
  obtain b2 where b2: "write_bytes d bs b1 = Some b2"
    "commit_blob_memory.place_blobs (h + 16) (d + length bs) (map sent_blob ws) b2 = Some buf'"
    using Cons.prems(1) b1(1) e by (auto simp: bind_eq_Some_conv)
  have len: "length bs = BlobToSend_DataSize w" using sent_length(1) [OF ok] e by simp
  from b2(1) have b2': "b2 = put d bs b1" "d + length bs \<le> length b1" by (auto simp: write_bytes_def split: if_splits)
  have wr: "(if BlobToSend_DataSize w > 0 then BlobDataIterator_WriteData ?i bs b1 else Some b1) = Some b2"
  proof (cases "bts_data w")
    case None
    then show ?thesis using x b2' by (simp add: BlobToSend_DataSize_def)
  next
    case (Some cs)
    with x b1(3) b2(1) send_ok_size [OF ok Some] show ?thesis
      by (auto simp: BlobDataIterator_WriteData_def BlobDataIterator_deref_def BlobToSend_DataSize_def write_bytes_def)
  qed
  have same: "same_outside d (d + length bs) b1 b2" unfolding b2'(1) by (rule same_outside_put) (use b2' in auto)
  have "load_struct commit_blob_layout h b2 = Some x"
    using commit_blob_memory.load_struct_same [OF same, of h] b1(3) Cons.prems(3) by simp
  then have "BlobDataIterator_next ?i b2 = Some \<lparr>bdi_header = h + 16, bdi_dataPos = d + BlobToSend_DataSize w\<rparr>"
    by (intro commit_next [OF _ ok]) (simp add: e)
  moreover have "length b2 = length buf" using same b1(2) by (simp add: same_outside_length)
  then have "fill_commit ws \<lparr>bdi_header = h + 16, bdi_dataPos = d + length bs\<rparr> b2
    = Some (\<lparr>bdi_header = h + 16 + 16 * length ws, bdi_dataPos = d + length bs + (\<Sum>w\<leftarrow>ws. BlobToSend_DataSize w)\<rparr>, buf')"
    using Cons.prems len by (intro Cons.IH [OF b2(2)]) auto
  ultimately show ?case using b1(1) wr x len by (cases "0 < BlobToSend_DataSize w") (simp_all add: add.assoc)
qed simp

lemma read_commit_holds:
  assumes "commit_blob_memory.holds_blobs h d (map sent_blob ws) buf" "\<forall>w \<in> set ws. send_ok w" "bdi_header stop = h + 16 * length ws"
  shows "read_commit_blobs \<lparr>bdi_header = h, bdi_dataPos = d\<rparr> stop buf = Some (map write_entry ws)"
  using assms
proof (induction ws arbitrary: h d)
  case Nil
  then show ?case by (simp add: read_commit_blobs.simps BlobDataIterator_eq_def)
next
  case (Cons w ws)
  have ok: "send_ok w" using Cons.prems(2) by simp
  have len: "length (snd (sent_blob w)) = BlobToSend_DataSize w" by (rule sent_length(1) [OF ok])
  have held: "load_struct commit_blob_layout h buf = Some (fst (sent_blob w))"
    "read_bytes d (BlobToSend_DataSize w) buf = Some (snd (sent_blob w))"
    "commit_blob_memory.holds_blobs (h + 16) (d + BlobToSend_DataSize w) (map sent_blob ws) buf"
    using Cons.prems(1) len by (cases "sent_blob w"; simp)+
  have rest: "read_commit_blobs \<lparr>bdi_header = h + 16, bdi_dataPos = d + BlobToSend_DataSize w\<rparr> stop buf = Some (map write_entry ws)"
    by (rule Cons.IH [OF held(3)]) (use Cons.prems in auto)
  have data: "(if bts_blobSize w = DeleteBlobSize then Some [] else BlobDataIterator_ReadData \<lparr>bdi_header = h, bdi_dataPos = d\<rparr> buf)
      = Some (bd_data (write_entry w))"
    using held(1,2) sent_length(2) [OF ok] ok
    by (auto simp: BlobDataIterator_ReadData_def BlobDataIterator_deref_def sent_blob_def write_entry_def send_ok_def
        split: option.splits if_splits dest: send_ok_size [OF ok])
  have "fst (sent_blob w) = (bts_location w, bts_blobSize w)" by (simp add: sent_blob_def)
  with held(1) rest data commit_next [OF held(1) ok, of d] Cons.prems(3) show ?case
    by (subst read_commit_blobs.simps) (simp add: BlobDataIterator_eq_def BlobDataIterator_deref_def write_entry_def)
qed

lemma TransactionCommit_Create_ok:
  assumes valid: "TransactionCommit_IsValidMessageSize m n"
  obtains buf where "TransactionCommit_Create mem dbId m n follow = Some buf" "length buf = 12 + 16 * n + m"
    "msg_size buf = length buf" "msg_clientId buf = 0" "MessagePointer_Is T_TransactionCommit buf"
    "get 9 1 buf = [dbId]" "commit_headerEnd buf = 12 + 16 * n"
proof -
  let ?messageSize = "TransactionCommit_CalculateMessageSize m n"
  have n: "n \<le> 65535" "12 + n * 16 + m \<le> 4294967295" using valid by (simp_all add: valid_message_size)
  then have messageSize: "unat ?messageSize = 12 + 16 * n + m" "?messageSize \<noteq> 0"
    using valid by (auto simp: TransactionCommit_CalculateMessageSize_def TransactionCommit_IsValidMessageSize_def Let_def
        unsigned_of_nat take_bit_nat_eq_self unsigned_minus_1_eq_mask mask_eq_exp_minus_1 simp del: of_nat_add of_nat_mult)
  have n16: "unat (of_nat n :: uint16_t) = n" using n(1) by (simp add: unsigned_of_nat take_bit_nat_eq_self)
  define b0 where "b0 = Message_new ?messageSize T_TransactionCommit (new_memory mem (unat ?messageSize))"
  define b1 where "b1 = put 8 [bool_byte follow] (put 9 [dbId] (put 10 (u16_bytes (of_nat n)) b0))"
  have l0: "length b0 = 12 + 16 * n + m" using messageSize by (simp add: b0_def)
  have h0: "msg_size b0 = length b0" "msg_clientId b0 = 0" "MessagePointer_Is T_TransactionCommit b0"
    using l0 messageSize by (simp_all add: b0_def Message_new_fields)
  have "commit_headerEnd b1 = 12 + 16 * n"
    using l0 by (simp add: b1_def commit_headerEnd_def memory_simps n16)
  with that [of b1] messageSize(2) l0 h0 show thesis
    by (simp add: TransactionCommit_Create_def b1_def b0_def [symmetric] Let_def header_put memory_simps)
qed

lemma received_commit_holds:
  assumes "commit_blob_memory.holds_blobs 12 (12 + 16 * length ws) (map sent_blob ws) buf" "\<forall>w \<in> set ws. send_ok w"
    "commit_headerEnd buf = 12 + 16 * length ws" "get 8 1 buf = [bool_byte follow]" "get 9 1 buf = [dbId]" "msg_clientId buf = 0"
  shows "received_commit buf = Some ((commit_message dbId ws)\<lparr>tc_hasFollowMessage := follow\<rparr>)"
proof -
  have "read_commit_blobs (TransactionCommit_begin buf) (TransactionCommit_end buf) buf = Some (map write_entry ws)"
    unfolding TransactionCommit_begin_def assms(3)
    by (rule read_commit_holds [OF assms(1,2)]) (simp add: TransactionCommit_end_def assms(3))
  then show ?thesis using assms by (simp add: received_commit_def commit_message_def)
qed

lemma build_commit_ok:
  assumes ok: "\<forall>w \<in> set ws. send_ok w"
    and valid: "TransactionCommit_IsValidMessageSize (\<Sum>w\<leftarrow>ws. BlobToSend_DataSize w) (length ws)"
  obtains buf where "build_commit mem dbId ws = Some buf" "length buf = msg_size buf"
    "MessagePointer_Is T_TransactionCommit (mark_follow follow buf)"
    "received_commit (mark_follow follow buf) = Some ((commit_message dbId ws)\<lparr>tc_hasFollowMessage := follow\<rparr>)"
proof -
  let ?n = "length ws" and ?total = "\<Sum>w\<leftarrow>ws. BlobToSend_DataSize w" and ?d = "12 + 16 * length ws"
  obtain b1 where create: "TransactionCommit_Create mem dbId ?total ?n False = Some b1" and l1: "length b1 = ?d + ?total"
    and h1: "msg_size b1 = length b1" "msg_clientId b1 = 0" "MessagePointer_Is T_TransactionCommit b1"
      "get 9 1 b1 = [dbId]" "commit_headerEnd b1 = ?d"
    using TransactionCommit_Create_ok [OF valid] by metis
  have "length (map sent_blob ws) = ?n" "commit_blob_memory.data_length (map sent_blob ws) = ?total"
    using ok sent_length(1) by (auto simp: commit_blob_memory.data_length_def comp_def intro!: arg_cong [where f = sum_list] map_cong)
  with commit_blob_memory.place_blobs_ok [of 12 "map sent_blob ws" ?d b1] l1
  obtain b2 where b2: "commit_blob_memory.place_blobs 12 ?d (map sent_blob ws) b1 = Some b2"
    "commit_blob_memory.same_beside 12 ?d (map sent_blob ws) b1 b2" "commit_blob_memory.holds_blobs 12 ?d (map sent_blob ws) b2" by auto
  have kept: "get p k b2 = get p k b1" if "p + k \<le> 12" for p k
    using b2(2) that by (simp add: commit_blob_memory.same_beside_def)
  have l2: "length b2 = length b1" using b2(2) by (simp add: commit_blob_memory.same_beside_def)
  have "fill_commit ws (TransactionCommit_begin b1) b1 = Some (\<lparr>bdi_header = ?d, bdi_dataPos = ?d + ?total\<rparr>, b2)"
    using fill_commit_place [OF b2(1) ok] l1 by (simp add: TransactionCommit_begin_def h1)
  moreover have h2: "commit_headerEnd b2 = ?d" "get 9 1 b2 = [dbId]"
    using kept [of 9 1] kept [of 10 2] h1 by (simp_all add: commit_headerEnd_def)
  ultimately have build: "build_commit mem dbId ws = Some b2"
    using create by (simp add: build_commit_def BlobDataIterator_eq_def TransactionCommit_end_def)
  have h2': "msg_size b2 = length b2" "msg_clientId b2 = 0" "MessagePointer_Is T_TransactionCommit b2"
    using header_same [of b2 b1] kept h1 l2 by simp_all
  define b3 where "b3 = mark_follow follow b2"
  have out: "same_outside 8 9 b2 b3" unfolding b3_def mark_follow_def by (rule same_outside_put) (use l1 l2 in auto)
  have h3: "get 8 1 b3 = [bool_byte follow]" "get 9 1 b3 = [dbId]" "commit_headerEnd b3 = ?d" "msg_clientId b3 = 0"
    "MessagePointer_Is T_TransactionCommit b3"
    using l1 l2 h2 h2' same_outside_get [OF out] header_same [of b3 b2]
    by (simp_all add: commit_headerEnd_def) (simp add: b3_def mark_follow_def get_put_same)
  have "commit_blob_memory.holds_blobs 12 ?d (map sent_blob ws) b3"
    by (rule commit_blob_memory.holds_blobs_same [OF b2(3) out]) simp_all
  then have "received_commit b3 = Some ((commit_message dbId ws)\<lparr>tc_hasFollowMessage := follow\<rparr>)"
    using ok h3 by (intro received_commit_holds) auto
  with that [OF build] h2'(1) h3(5) show thesis by (simp add: b3_def)
qed

lemma split_messages_parts:
  "split_messages dbId ws = Some ms \<Longrightarrow> m \<in> set ms \<Longrightarrow> \<exists>xs. m = commit_message dbId xs \<and> set xs \<subseteq> set ws
     \<and> TransactionCommit_IsValidMessageSize (\<Sum>w\<leftarrow>xs. BlobToSend_DataSize w) (length xs)"
proof (induction dbId ws arbitrary: ms rule: split_messages.induct)
  case (1 dbId ws)
  obtain xs ys where t: "take_message 0 0 ws = (xs, ys)" by fastforce
  from 1(2,3) have ne: "ws \<noteq> []" by (auto simp: split_messages.simps)
  from 1(2) ne t obtain ns where ns: "xs \<noteq> []" "split_messages dbId ys = Some ns" "ms = commit_message dbId xs # ns"
    by (subst (asm) split_messages.simps) (auto split: if_splits)
  show ?case
  proof (cases "m = commit_message dbId xs")
    case True
    then show ?thesis using take_message_valid [OF t] ns(1) take_message_split [OF t] by auto
  next
    case False
    then have "m \<in> set ns" using 1(3) ns(3) by simp
    from 1(1) [OF ne t [symmetric] refl ns(1,2) this] take_message_split [OF t] show ?thesis by auto
  qed
qed

lemma tx_ok_send:
  assumes "tx_ok t" "w \<in> set (GetSortedWritesToTransmit t)"
  shows "send_ok w"
  using assms tx_ok_written(2) [OF assms(1)]
  by (auto simp: GetSortedWritesToTransmit_def send_ok_def written_to_send_def delete_blob_to_send_def
      delete_cluster_to_send_def delete_segment_to_send_def)

text \<open>C29: every message of a commit that the client lays out in its buffer, whatever was in that memory before, fills it exactly
  and is recognised and read by the server as the message with the same entries: location, size and data of every blob,
  and the deletion marker for deleted blobs, without an access outside of the message.\<close>

theorem commit_message_layout:
  assumes "tx_ok t" "DatabaseState_ConstructCommitMessages dbId t = Some ms" "m \<in> set ms"
  shows "\<exists>ws. m = commit_message dbId ws \<and> (\<forall>mem follow. \<exists>buf. build_commit mem dbId ws = Some buf \<and> length buf = msg_size buf
    \<and> MessagePointer_Is T_TransactionCommit (mark_follow follow buf)
    \<and> received_commit (mark_follow follow buf) = Some (m\<lparr>tc_hasFollowMessage := follow\<rparr>))"
proof -
  from assms(2,3) obtain ws where ws: "m = commit_message dbId ws" "set ws \<subseteq> set (GetSortedWritesToTransmit t)"
    "TransactionCommit_IsValidMessageSize (\<Sum>w\<leftarrow>ws. BlobToSend_DataSize w) (length ws)"
    unfolding DatabaseState_ConstructCommitMessages_def by (blast dest: split_messages_parts)
  have "\<forall>w \<in> set ws. send_ok w" using ws(2) tx_ok_send [OF assms(1)] by blast
  with ws(3) have "\<exists>buf. build_commit mem dbId ws = Some buf \<and> length buf = msg_size buf
    \<and> MessagePointer_Is T_TransactionCommit (mark_follow follow buf)
    \<and> received_commit (mark_follow follow buf) = Some (m\<lparr>tc_hasFollowMessage := follow\<rparr>)" for mem follow
    using build_commit_ok [of ws mem dbId follow] ws(1) by metis
  then show ?thesis using ws(1) by blast
qed

definition sample_writes :: DatabaseState where
  "sample_writes = tx_WriteBlob (BlobLocation 1 2 3) [7, 8] (tx_WriteBlob (BlobLocation 1 2 4) [] (DatabaseState_new None))"

theorem commit_message_layout_witness:
  "\<exists>ms. DatabaseState_ConstructCommitMessages 5 sample_writes = Some ms \<and> ms \<noteq> []
    \<and> (\<forall>m \<in> set ms. \<exists>ws buf. build_commit (\<lambda>_. 99) 5 ws = Some buf \<and> received_commit (mark_follow True buf) = Some (m\<lparr>tc_hasFollowMessage := True\<rparr>))"
proof -
  have ok: "tx_ok sample_writes"
    unfolding sample_writes_def
    by (intro tx_ok_write tx_ok_new) (simp_all add: write_location_def special_alone_def config_defs Ensure_iff IsBlobDeleted_def
        IsClusterDeleted_def IsSegmentDeleted_def DatabaseState_new_def tx_WriteBlob_def word_le_nat_alt)
  obtain ms where ms: "DatabaseState_ConstructCommitMessages 5 sample_writes = Some ms" "commit_entries ms = transmitted sample_writes"
    using construct_messages [OF ok] by metis
  moreover have "written_to_send (BlobLocation 1 2 3, [7, 8]) \<in> set (GetSortedWritesToTransmit sample_writes)"
    unfolding GetSortedWritesToTransmit_def by (simp add: sample_writes_def tx_WriteBlob_def set_map_put)
  then have "transmitted sample_writes \<noteq> []" by (auto simp: transmitted_def)
  ultimately show ?thesis using commit_message_layout [OF ok ms(1)] by (intro exI [of _ ms]) (auto, metis)
qed

section \<open>The answers to a read\<close>

definition answered_blob :: "BlobAddress \<times> answer \<Rightarrow> (BlobLocation \<times> blob_size \<times> commit_id) \<times> byte list" where
  "answered_blob p = (case set_response_blob (fst p) (snd p) of (l, k, bs) \<Rightarrow> ((l, of_nat (length bs), k), bs))"

lemma response_size [simp]: "sl_size response_blob_layout = 24"
  by (simp add: response_blob_layout_def)

lemma length_answered: "length (snd (answered_blob (r, a))) = Server_BlobSize a"
  by (simp add: answered_blob_def set_response_blob_def Server_BlobSize_def split: option.splits prod.splits)

lemma SetBlob_answered:
  assumes "answered_blob (r, a) = (x, bs)" "Server_BlobSize a \<le> 4294967295"
  shows "(case a of None \<Rightarrow> ResponseIterator_SetBlob i (ba_location r) (ba_cacheCommitId r) [] 0 buf
      | Some (commitId, content) \<Rightarrow> ResponseIterator_SetBlob i (ba_location r) commitId content (of_nat (length content)) buf)
    = store_struct response_blob_layout (ri_pos i) x buf \<bind> write_bytes (ri_dataPos i) bs"
  using assms uint_size
  by (auto simp: answered_blob_def set_response_blob_def Server_BlobSize_def ResponseIterator_SetBlob_def split: option.splits prod.splits)

lemma response_next:
  assumes "load_struct response_blob_layout h buf = Some (fst (answered_blob (r, a)))" "Server_BlobSize a \<le> 4294967295"
  shows "ResponseIterator_next \<lparr>ri_pos = h, ri_dataPos = d\<rparr> buf = Some \<lparr>ri_pos = h + 24, ri_dataPos = d + Server_BlobSize a\<rparr>"
  using assms uint_size [OF assms(2)] length_answered [of r a]
  by (auto simp: ResponseIterator_next_def ResponseIterator_deref_def answered_blob_def split: prod.splits)

lemma fill_response_place:
  assumes "response_blob_memory.place_blobs h d (map answered_blob ras) buf = Some buf'"
    "\<forall>p \<in> set ras. Server_BlobSize (snd p) \<le> 4294967295" "h + 24 * length ras \<le> d"
  shows "fill_response ras \<lparr>ri_pos = h, ri_dataPos = d\<rparr> buf = Some buf'"
  using assms
proof (induction ras arbitrary: h d buf)
  case (Cons p ras)
  obtain r a where p: "p = (r, a)" by fastforce
  obtain x bs where e: "answered_blob (r, a) = (x, bs)" by fastforce
  have fits: "Server_BlobSize a \<le> 4294967295" using Cons.prems(2) p by simp
  obtain b1 b2 where b: "store_struct response_blob_layout h x buf = Some b1" "write_bytes d bs b1 = Some b2"
    "response_blob_memory.place_blobs (h + 24) (d + length bs) (map answered_blob ras) b2 = Some buf'"
    using Cons.prems(1) e p by (auto simp: bind_eq_Some_conv)
  have b2: "b2 = put d bs b1" "d + length bs \<le> length b1" using b(2) by (auto simp: write_bytes_def split: if_splits)
  have "h + 24 \<le> length buf" using b(1) by (auto simp: store_struct_def split: if_splits)
  then have "load_struct response_blob_layout h b1 = Some x"
    using response_blob_memory.store_struct_ok [of h buf x] b(1) by auto
  then have "load_struct response_blob_layout h b2 = Some x"
    using response_blob_memory.load_struct_same [of d "d + length bs" b1 b2 h] Cons.prems(3) b2 same_outside_put [of d d bs "d + length bs" b1] by simp
  with response_next [of h b2 r a d] fits e
  have "ResponseIterator_next \<lparr>ri_pos = h, ri_dataPos = d\<rparr> b2 = Some \<lparr>ri_pos = h + 24, ri_dataPos = d + length bs\<rparr>"
    using length_answered [of r a] by simp
  moreover have "fill_response ras \<lparr>ri_pos = h + 24, ri_dataPos = d + length bs\<rparr> b2 = Some buf'"
    by (rule Cons.IH [OF b(3)]) (use Cons.prems in auto)
  ultimately show ?case using SetBlob_answered [OF e fits] b(1,2) by (simp add: p)
qed simp

lemma read_response_holds:
  assumes "response_blob_memory.holds_blobs h d (map answered_blob ras) buf" "\<forall>p \<in> set ras. Server_BlobSize (snd p) \<le> 4294967295"
    "ri_pos stop = h + 24 * length ras"
  shows "read_response_blobs \<lparr>ri_pos = h, ri_dataPos = d\<rparr> stop buf = Some (map (\<lambda>p. set_response_blob (fst p) (snd p)) ras)"
  using assms
proof (induction ras arbitrary: h d)
  case Nil
  then show ?case by (simp add: read_response_blobs.simps ResponseIterator_eq_def)
next
  case (Cons p ras)
  obtain r a where p: "p = (r, a)" by fastforce
  obtain l k bs where s: "set_response_blob r a = (l, k, bs)" by (metis prod_cases3)
  have e: "answered_blob (r, a) = ((l, of_nat (length bs), k), bs)" by (simp add: answered_blob_def s)
  then have len: "length bs = Server_BlobSize a" using length_answered [of r a] by simp
  have fits: "Server_BlobSize a \<le> 4294967295" using Cons.prems(2) p by simp
  have held: "load_struct response_blob_layout h buf = Some (l, of_nat (length bs), k)" "read_bytes d (length bs) buf = Some bs"
    "response_blob_memory.holds_blobs (h + 24) (d + length bs) (map answered_blob ras) buf"
    using Cons.prems(1) by (simp_all add: p e)
  have "ResponseIterator_next \<lparr>ri_pos = h, ri_dataPos = d\<rparr> buf = Some \<lparr>ri_pos = h + 24, ri_dataPos = d + length bs\<rparr>"
    using response_next [of h buf r a d] held(1) e fits len by simp
  moreover have "read_response_blobs \<lparr>ri_pos = h + 24, ri_dataPos = d + length bs\<rparr> stop buf
      = Some (map (\<lambda>p. set_response_blob (fst p) (snd p)) ras)"
    by (rule Cons.IH [OF held(3)]) (use Cons.prems in auto)
  moreover have "unat (of_nat (length bs) :: blob_size) = length bs" using fits len uint_size by simp
  ultimately show ?case using held Cons.prems(3)
    by (subst read_response_blobs.simps)
      (simp add: p s ResponseIterator_eq_def ResponseIterator_deref_def ResponseIterator_GetData_def)
qed

lemma build_response_ok:
  assumes n: "length chunk < 256" "length rs = length chunk"
    and size: "12 + 24 * length chunk + (\<Sum>a\<leftarrow>chunk. Server_BlobSize a) \<le> 4294967295"
  shows "\<exists>buf. build_response mem rs chunk follow = Some buf
    \<and> received_response buf = Some (BlobsReadResponse (map2 set_response_blob rs chunk) follow)"
proof -
  let ?n = "length chunk" and ?total = "\<Sum>a\<leftarrow>chunk. Server_BlobSize a" and ?d = "12 + 24 * length chunk"
  let ?ras = "zip rs chunk"
  have n8: "unat (of_nat ?n :: 8 word) = ?n" using n(1) by (simp add: unsigned_of_nat take_bit_nat_eq_self)
  define b0 where "b0 = Message_new (of_nat (?d + ?total)) T_BlobsReadResponse (new_memory mem (?d + ?total))"
  define b1 where "b1 = put 8 [0] (put 9 [of_nat ?n] (put 10 [bool_byte False] b0))"
  have l0: "length b0 = ?d + ?total" by (simp add: b0_def)
  then have l1: "length b1 = ?d + ?total" by (simp add: b1_def codec_simps)
  have create: "BlobsReadResponse_Create mem ?total (of_nat ?n) = Some b1"
    using size n8 by (simp add: BlobsReadResponse_Create_def Let_def max_message_size b1_def b0_def mult.commute)
  have h1: "get 8 1 b1 = [0]" "get 9 1 b1 = [of_nat ?n]" using l0 by (simp_all add: b1_def codec_simps get_put_same get_put_after)
  have parts: "length (map answered_blob ?ras) = ?n" "response_blob_memory.data_length (map answered_blob ?ras) = ?total"
    using n(2) length_answered
    by (auto simp: response_blob_memory.data_length_def comp_def intro!: arg_cong [where f = sum_list] nth_equalityI)
  with response_blob_memory.place_blobs_ok [of 12 "map answered_blob ?ras" ?d b1] l1
  obtain b2 where b2: "response_blob_memory.place_blobs 12 ?d (map answered_blob ?ras) b1 = Some b2"
    "response_blob_memory.same_beside 12 ?d (map answered_blob ?ras) b1 b2"
    "response_blob_memory.holds_blobs 12 ?d (map answered_blob ?ras) b2" by auto
  have kept: "get p k b2 = get p k b1" if "p + k \<le> 12" for p k
    using b2(2) that by (simp add: response_blob_memory.same_beside_def)
  have l2: "length b2 = length b1" using b2(2) by (simp add: response_blob_memory.same_beside_def)
  have "Server_BlobSize a \<le> ?total" if "a \<in> set chunk" for a using that by (simp add: member_le_sum_list)
  then have small: "\<forall>p \<in> set ?ras. Server_BlobSize (snd p) \<le> 4294967295"
    using size by (fastforce dest: set_zip_rightD)
  have "fill_response ?ras (BlobsReadResponse_begin b1) b1 = Some b2"
    using fill_response_place [OF b2(1) small] n(2) h1 n8 by (simp add: BlobsReadResponse_begin_def response_dataBegin_def mult.commute)
  then have build: "build_response mem rs chunk follow = Some (put 10 [bool_byte follow] b2)"
    using create by (simp add: build_response_def)
  define b3 where "b3 = put 10 [bool_byte follow] b2"
  have out: "same_outside 10 11 b2 b3" unfolding b3_def by (rule same_outside_put) (use l1 l2 in auto)
  have h3: "get 8 1 b3 = [0]" "get 9 1 b3 = [of_nat ?n]" "get 10 1 b3 = [bool_byte follow]"
    using l1 l2 h1 kept [of 8 1] kept [of 9 1] same_outside_get [OF out, of 8 1] same_outside_get [OF out, of 9 1]
    by (simp_all add: b3_def get_put_same)
  have "response_blob_memory.holds_blobs 12 ?d (map answered_blob ?ras) b3"
    by (rule response_blob_memory.holds_blobs_same [OF b2(3) out]) simp_all
  then have "read_response_blobs (BlobsReadResponse_begin b3) (BlobsReadResponse_end b3) b3 = Some (map2 set_response_blob rs chunk)"
    using read_response_holds [of 12 ?d ?ras b3 "BlobsReadResponse_end b3"] small n(2) h3 n8
    by (simp add: BlobsReadResponse_begin_def BlobsReadResponse_end_def response_dataBegin_def mult.commute case_prod_unfold)
  then show ?thesis using build h3 by (simp add: received_response_def b3_def [symmetric])
qed

text \<open>C30: the messages of an answer, whatever was in their memory before, are read by the client as the messages the server
  means to send: every requested location with the commit id and the content of its blob, in order, and the
  follow flag on all but the last.\<close>

theorem answer_layout:
  assumes "length as < 256" "length rs = length as" "split_response as = Some chunks"
  shows "\<exists>bufs. build_responses mem rs chunks = Some bufs \<and> map received_response bufs = map Some (response_messages rs chunks)"
proof -
  have chunks: "concat chunks = as" "\<forall>c \<in> set chunks. 12 + 24 * length c + (\<Sum>a\<leftarrow>c. Server_BlobSize a) \<le> 4294967295 \<and> length c < 256"
    using response_chunks [OF assms(1,3)] by (auto simp: BlobsReadResponse_FitsIntoMessage_def)
  have "length rs = length (concat chunks)" using assms(2) chunks(1) by simp
  then show ?thesis using chunks(2)
  proof (induction chunks arbitrary: rs)
    case (Cons c cs)
    have "length (take (length c) rs) = length c" using Cons.prems(1) by simp
    with Cons.prems(2) obtain buf where "build_response mem (take (length c) rs) c (cs \<noteq> []) = Some buf"
      "received_response buf = Some (BlobsReadResponse (map2 set_response_blob (take (length c) rs) c) (cs \<noteq> []))"
      using build_response_ok [of c "take (length c) rs" mem "cs \<noteq> []"] by auto
    moreover obtain bufs where "build_responses mem (drop (length c) rs) cs = Some bufs"
      "map received_response bufs = map Some (response_messages (drop (length c) rs) cs)"
      using Cons.IH [of "drop (length c) rs"] Cons.prems by auto
    ultimately show ?case by simp
  qed simp
qed

theorem answer_layout_witness:
  "\<exists>chunks bufs. split_response [Some (3, [1, 2]), None] = Some chunks
     \<and> build_responses (\<lambda>_. 99) [\<lparr>ba_location = BlobLocation 0 0 1, ba_cacheCommitId = 0\<rparr>,
          \<lparr>ba_location = BlobLocation 0 0 2, ba_cacheCommitId = 7\<rparr>] chunks = Some bufs
     \<and> map received_response bufs = map Some (response_messages [\<lparr>ba_location = BlobLocation 0 0 1, ba_cacheCommitId = 0\<rparr>,
          \<lparr>ba_location = BlobLocation 0 0 2, ba_cacheCommitId = 7\<rparr>] chunks)"
proof -
  have "\<forall>a \<in> set [Some (3 :: commit_id, [1 :: byte, 2]), None]. fits_alone a"
    by (simp add: fits_alone_def BlobsReadResponse_FitsIntoMessage_def Server_BlobSize_def)
  from split_response_total [OF this] obtain chunks where c: "split_response [Some (3, [1, 2]), None] = Some chunks" by blast
  from answer_layout [OF _ _ c, of "[\<lparr>ba_location = BlobLocation 0 0 1, ba_cacheCommitId = 0\<rparr>,
      \<lparr>ba_location = BlobLocation 0 0 2, ba_cacheCommitId = 7\<rparr>]" "\<lambda>_. 99"] c show ?thesis by auto
qed

text \<open>An answer that reports an error carries its result and its details.\<close>

lemma error_roundtrip:
  assumes "length errorDetails \<le> 4294967283"
  shows "\<exists>buf. BlobsReadResponse_CreateError mem code errorDetails = Some buf
    \<and> received_response buf = Some (BlobsReadError code) \<and> BlobsReadResponse_GetErrorDetails buf = Some errorDetails"
proof -
  define b0 where "b0 = Message_new (of_nat (12 + length errorDetails)) T_BlobsReadResponse (new_memory mem (12 + length errorDetails))"
  define b1 where "b1 = put 8 [result_byte code] (put 9 [0] (put 10 [bool_byte False] b0))"
  have l0: "length b0 = 12 + length errorDetails" by (simp add: b0_def)
  have m0: "msg_size b0 = length b0" using l0 uint_size [of "12 + length errorDetails"] assms unfolding b0_def by (simp add: Message_new_fields del: of_nat_add)
  have l1: "length b1 = length b0" "msg_size b1 = length b0" "get 8 1 b1 = [result_byte code]"
    using l0 m0 by (simp_all add: b1_def codec_simps header_put get_put_same)
  have "BlobsReadResponse_CreateError mem code errorDetails = Some (put 12 errorDetails b1)"
    using assms by (simp add: BlobsReadResponse_CreateError_def Let_def max_message_size b1_def b0_def)
  moreover have "get 8 1 (put 12 errorDetails b1) = [result_byte code]" "msg_size (put 12 errorDetails b1) = length b0"
    using l0 l1 by (simp_all add: get_put_before header_put)
  moreover have "result_byte code \<noteq> 0" by (cases code) auto
  ultimately show ?thesis using l0 l1
    by (cases code) (auto simp: received_response_def BlobsReadResponse_GetErrorDetails_def read_bytes_def codec_simps get_put_same)
qed

section \<open>Arrays behind a message\<close>

lemma location_size [simp]: "sl_size location_layout = 12" "sl_size sticky_locks_layout = 4" "sl_size txn_mode_layout = 2"
  "sl_size database_commit_layout = 16" "sl_size blob_address_layout = 24"
  by (simp_all add: layout_defs)

lemma begin_roundtrip:
  assumes "length ds < 255" "- 32768 \<le> prio" "prio < 32768"
  shows "\<exists>buf. build_begin mem prio ds = Some buf
    \<and> received_begin buf = Some \<lparr>tb_clientId = 0, tb_transactionPriority = prio, tb_databases = ds\<rparr>"
proof -
  let ?n = "12 + 2 * length ds"
  define b0 where "b0 = Message_new (of_nat ?n) T_TransactionBegin (new_memory mem ?n)"
  define b1 where "b1 = put 8 (u16_bytes (word_of_int prio)) b0"
  have l0: "length b0 = ?n" "msg_size b0 = ?n" "msg_clientId b0 = 0"
    using uint_size [of ?n] assms(1) by (simp_all add: b0_def Message_new_fields)
  have l1: "length b1 = ?n" "msg_size b1 = ?n" "msg_clientId b1 = 0" "get 8 2 b1 = u16_bytes (word_of_int prio)"
    using l0 by (simp_all add: b1_def codec_simps header_put get_put_same)
  obtain b2 where b2: "store_array txn_mode_layout 12 ds b1 = Some b2" "same_outside 12 ?n b1 b2"
    "load_array txn_mode_layout 12 ?n b2 = Some ds" using txn_mode_memory.store_array_ok [of 12 ds b1] l1 by auto
  have "msg_size b2 = ?n" "msg_clientId b2 = 0" "get 8 2 b2 = u16_bytes (word_of_int prio)"
    using header_same [of b2 b1] same_outside_get [OF b2(2)] l1 by simp_all
  moreover have "sint (word_of_int prio :: uint16_t) = prio" using assms(2,3) by (simp add: signed_of_int signed_take_bit_int_eq_self)
  ultimately show ?thesis using assms(1) b2
    by (simp add: build_begin_def TransactionBegin_Create_def Let_def received_begin_def codec_simps b1_def b0_def)
qed

lemma commit_response_roundtrip:
  assumes "length ks \<le> 256"
  shows "\<exists>buf. build_commit_response mem ks = Some buf \<and> received_commit_response buf = Some (TransactionCommitResponse ks)"
proof -
  let ?n = "12 + 16 * length ks"
  define b0 where "b0 = Message_new (of_nat ?n) T_TransactionCommitResponse (new_memory mem ?n)"
  define b1 where "b1 = put 8 [0] b0"
  have l0: "length b0 = ?n" "msg_size b0 = ?n" using uint_size [of ?n] assms by (simp_all add: b0_def Message_new_fields)
  have l1: "length b1 = ?n" "msg_size b1 = ?n" "get 8 1 b1 = [0]" using l0 by (simp_all add: b1_def codec_simps header_put get_put_same)
  obtain b2 where b2: "store_array database_commit_layout 12 ks b1 = Some b2" "same_outside 12 ?n b1 b2"
    "load_array database_commit_layout 12 ?n b2 = Some ks" using database_commit_memory.store_array_ok [of 12 ks b1] l1 by auto
  have "msg_size b2 = ?n" "get 8 1 b2 = [0]" using header_same [of b2 b1] same_outside_get [OF b2(2)] l1 by simp_all
  then show ?thesis using assms b2
    by (simp add: build_commit_response_def TransactionCommitResponse_Create_def Let_def received_commit_response_def b1_def b0_def)
qed

lemma lock_mode_roundtrip: "lock_mode_of (lock_mode_byte m) = Some m"
  by (cases m) (simp_all add: lock_mode_of_def)

lemma read_roundtrip:
  assumes "length rs < 256" "- 2147483648 \<le> timeout" "timeout < 2147483648"
  shows "\<exists>buf. build_read mem dbId mode timeout rs = Some buf
    \<and> received_read buf = Some \<lparr>br_clientId = 0, br_databaseId = dbId, br_lockMode = mode, br_lockTimeoutMs = timeout, br_blobs = rs\<rparr>"
proof -
  let ?n = "16 + 24 * length rs"
  have n8: "unat (of_nat (length rs) :: 8 word) = length rs" using assms(1) by (simp add: unsigned_of_nat take_bit_nat_eq_self)
  define b0 where "b0 = Message_new (of_nat ?n) T_BlobsRead (new_memory mem ?n)"
  define b1 where "b1 = put 8 [dbId] (put 9 [of_nat (length rs)] (put 10 [lock_mode_byte mode] (put 12 (u32_bytes (word_of_int timeout)) b0)))"
  have l0: "length b0 = ?n" "msg_clientId b0 = 0" by (simp_all add: b0_def Message_new_fields)
  have l1: "length b1 = ?n" "msg_clientId b1 = 0" "get 8 1 b1 = [dbId]" "get 9 1 b1 = [of_nat (length rs)]"
    "get 10 1 b1 = [lock_mode_byte mode]" "get 12 4 b1 = u32_bytes (word_of_int timeout)"
    using l0 by (simp_all add: b1_def header_put memory_simps)
  have create: "BlobsRead_Create mem dbId (of_nat (length rs)) mode timeout = b1"
    using n8 by (simp add: BlobsRead_Create_def Let_def b1_def b0_def mult.commute)
  obtain b2 where b2: "store_array blob_address_layout 16 rs b1 = Some b2" "same_outside 16 ?n b1 b2"
    "load_array blob_address_layout 16 ?n b2 = Some rs" using blob_address_memory.store_array_ok [of 16 rs b1] l1 by auto
  have "get p k b2 = get p k b1" if "p + k \<le> 16" for p k using same_outside_get [OF b2(2)] that by simp
  then have "msg_clientId b2 = 0" "get 8 1 b2 = [dbId]" "get 9 1 b2 = [of_nat (length rs)]"
    "get 10 1 b2 = [lock_mode_byte mode]" "get 12 4 b2 = u32_bytes (word_of_int timeout)"
    using header_same [of b2 b1] l1 by simp_all
  moreover have "sint (word_of_int timeout :: uint32_t) = timeout"
    using assms(2,3) by (simp add: signed_of_int signed_take_bit_int_eq_self)
  ultimately show ?thesis using b2 create n8
    by (simp add: build_read_def received_read_def lock_mode_roundtrip codec_simps mult.commute)
qed

section \<open>The locks sent at the begin of a transaction\<close>

abbreviation entries_size :: "(database_id \<times> bool \<times> BlobLocation list) list \<Rightarrow> nat" where
  "entries_size es \<equiv> (\<Sum>(d, keep, ls)\<leftarrow>es. 4 + 12 * length ls)"

lemma fill_begin_response_ok:
  assumes "pos + entries_size es \<le> length buf" "\<forall>(d, keep, ls) \<in> set es. length ls \<le> 65535"
  shows "\<exists>buf'. fill_begin_response es pos buf = Some buf' \<and> same_outside pos (pos + entries_size es) buf buf'
    \<and> read_begin_response pos (pos + entries_size es) buf' = Some es"
  using assms
proof (induction es arbitrary: pos buf)
  case Nil
  then show ?case by (simp add: read_begin_response.simps [of pos])
next
  case (Cons e es)
  obtain d keep ls where e: "e = (d, keep, ls)" by (cases e)
  let ?x = "(d, keep, of_nat (length ls))" and ?next = "pos + 4 + 12 * length ls" and ?hi = "pos + entries_size (e # es)"
  have n: "unat (of_nat (length ls) :: uint16_t) = length ls"
    using Cons.prems(2) by (simp add: e unsigned_of_nat take_bit_nat_eq_self)
  have fits: "?next + entries_size es \<le> length buf" "?next + entries_size es = ?hi" using Cons.prems(1) by (simp_all add: e)
  obtain b1 where b1: "store_struct sticky_locks_layout pos ?x buf = Some b1" "same_outside pos (pos + 4) buf b1"
    "load_struct sticky_locks_layout pos b1 = Some ?x"
    using sticky_locks_memory.store_struct_ok [of pos buf ?x] fits by auto
  have l1: "length b1 = length buf" using b1(2) by (rule same_outside_length)
  obtain b2 where b2: "store_array location_layout (pos + 4) ls b1 = Some b2" "same_outside (pos + 4) ?next b1 b2"
    "load_array location_layout (pos + 4) ?next b2 = Some ls"
    using location_memory.store_array_ok [of "pos + 4" ls b1] fits l1 by auto
  have l2: "length b2 = length buf" using b2(2) l1 by (simp add: same_outside_length)
  obtain b3 where b3: "fill_begin_response es ?next b2 = Some b3" "same_outside ?next ?hi b2 b3"
    "read_begin_response ?next ?hi b3 = Some es"
    using Cons.IH [of ?next b2] Cons.prems(2) fits l2 by auto
  have "load_struct sticky_locks_layout pos b3 = Some ?x"
    using b1(3) sticky_locks_memory.load_struct_same [OF b2(2), of pos] sticky_locks_memory.load_struct_same [OF b3(2), of pos] by simp
  moreover have "load_array location_layout (pos + 4) ?next b3 = Some ls"
    using b2(3) location_memory.load_array_same [OF b3(2), of "pos + 4" "length ls"] by simp
  moreover have "same_outside pos ?hi buf b3"
    by (rule same_outside_trans [OF same_outside_mono [OF b1(2)] same_outside_trans [OF same_outside_mono [OF b2(2)] same_outside_mono [OF b3(2)]]])
      (simp_all add: e)
  moreover have "pos \<noteq> ?hi" by (simp add: e)
  ultimately show ?case using b1(1,3) b2(1) b3(1,3) n
    by (subst read_begin_response.simps) (simp add: e begin_response_next_def mult.commute)
qed

lemma begin_entries_locks:
  "begin_response_entries n es = Some (rs, es') \<Longrightarrow> response_locks es = Some t \<Longrightarrow>
     length rs = length (filter (\<lambda>e. dbl_database e \<noteq> None) es) \<and> t = (\<Sum>(d, keep, ls)\<leftarrow>rs. length ls)"
proof (induction n es arbitrary: rs es' t rule: begin_response_entries.induct)
  case (2 n e es)
  show ?case
  proof (cases "dbl_database e = None")
    case True
    then have "response_locks (e # es) = response_locks es" by (simp add: response_locks_def)
    with 2(4) have t: "response_locks es = Some t" by simp
    obtain es1 where "begin_response_entries (Suc n) es = Some (rs, es1)" using 2(3) True by auto
    from 2(1) [OF True this t] True show ?thesis by simp
  next
    case False
    from 2(3) False obtain e1 ss es1 where e1: "DatabaseLocks_ApplyRevokedLocks e = Some e1"
      "begin_response_entries (Suc n) es = Some (ss, es1)"
      "rs = (of_nat n, length (dbl_locks e1) \<le> length (dbl_revokedLocks e1),
         if length (dbl_locks e1) \<le> length (dbl_revokedLocks e1) then dbl_locks e1 else dbl_revokedLocks e1) # ss"
      by (auto simp: Let_def bind_eq_Some_conv)
    from 2(4) False obtain u where u: "response_locks es = Some u"
      "t = min (length (dbl_locks e) - length (dbl_revokedLocks e)) (length (dbl_revokedLocks e)) + u"
      by (auto simp: response_locks_def split: if_splits)
    have "length (dbl_locks e1) + length (dbl_revokedLocks e1) = length (dbl_locks e)" "dbl_revokedLocks e1 = dbl_revokedLocks e"
      using e1(1) by (auto simp: DatabaseLocks_ApplyRevokedLocks_def Let_def split: if_splits)
    moreover from 2(2) [OF False e1(1) refl e1(2) u(1)]
    have "length ss = length (filter (\<lambda>e. dbl_database e \<noteq> None) es)" "u = (\<Sum>(d, keep, ls)\<leftarrow>ss. length ls)" by auto
    ultimately show ?thesis using False e1(3) u(2) by auto
  qed
qed (simp add: response_locks_def)

text \<open>C31: the memory the server allocates for the answer to a transaction begin is filled exactly by the entries of the opened
  databases: the locks counted beforehand are the locks written, no write leaves the message, and the client reads
  back the same entries.\<close>

theorem begin_response_layout:
  assumes "length (c_openDatabases c) \<le> 255" "st_clients st i = Some c" "response_locks (c_openDatabases c) = Some totalLocks"
    "Client_ConstructTransactionBeginResponse i st = Some (TransactionBeginResponse es, st')"
  shows "\<exists>buf. build_begin_response mem (Client_GetOpenDatabaseCount c) totalLocks es = Some buf
    \<and> length buf = 12 + entries_size es \<and> received_begin_response buf = Some (TransactionBeginResponse es)"
proof -
  from assms(2-4) obtain es' where es: "begin_response_entries 0 (c_openDatabases c) = Some (es, es')" "totalLocks \<le> 65535"
    by (auto simp: Client_ConstructTransactionBeginResponse_def bind_eq_Some_conv split: if_splits)
  from begin_entries_locks [OF es(1) assms(3)]
  have count: "length es = Client_GetOpenDatabaseCount c" "totalLocks = (\<Sum>(d, keep, ls)\<leftarrow>es. length ls)"
    by (simp_all add: Client_GetOpenDatabaseCount_def)
  have "Client_GetOpenDatabaseCount c \<le> 255"
    using order_trans [OF length_filter_le assms(1)] by (simp add: Client_GetOpenDatabaseCount_def del: not_None_eq)
  moreover have total: "entries_size es = length es * 4 + totalLocks * 12"
    unfolding count(2) by (induction es) auto
  have n16: "unat (of_nat totalLocks :: uint16_t) = totalLocks" using es(2) by (simp add: unsigned_of_nat take_bit_nat_eq_self)
  let ?n = "12 + length es * 4 + totalLocks * 12"
  define b0 where "b0 = Message_new (of_nat ?n) T_TransactionBeginResponse (new_memory mem ?n)"
  define b1 where "b1 = put 8 [0] b0"
  ultimately have create: "TransactionBeginResponse_Create mem (Client_GetOpenDatabaseCount c) (of_nat totalLocks) = Some b1"
    by (simp add: TransactionBeginResponse_Create_def Let_def n16 b1_def b0_def count(1) [symmetric])
  have "?n \<le> 4294967295" using es(2) count(1) \<open>Client_GetOpenDatabaseCount c \<le> 255\<close> by simp
  then have l0: "length b0 = ?n" "msg_size b0 = ?n" using uint_size [of ?n] by (simp_all add: b0_def Message_new_fields)
  have l1: "length b1 = ?n" "msg_size b1 = ?n" "get 8 1 b1 = [0]" using l0 by (simp_all add: b1_def codec_simps header_put get_put_same)
  have "length ls \<le> totalLocks" if "(d, keep, ls) \<in> set es" for d keep ls
    unfolding count(2) using that by (force intro: member_le_sum_list)
  then have "\<forall>(d, keep, ls) \<in> set es. length ls \<le> 65535" using es(2) by fastforce
  then obtain b2 where b2: "fill_begin_response es 12 b1 = Some b2" "same_outside 12 (12 + entries_size es) b1 b2"
    "read_begin_response 12 (12 + entries_size es) b2 = Some es"
    using fill_begin_response_ok [of 12 es b1] l1 total by auto
  have "msg_size b2 = ?n" "get 8 1 b2 = [0]" "length b2 = ?n"
    using header_same [of b2 b1] same_outside_get [OF b2(2)] same_outside_length [OF b2(2)] l1 by simp_all
  then show ?thesis using create b2 total
    by (simp add: build_begin_response_def received_begin_response_def add.assoc)
qed

definition sample_begin :: Client where
  "sample_begin = Client_new\<lparr>c_openDatabases := [\<lparr>dbl_database = Some 7,
     dbl_locks = [BlobLocation 0 0 1, BlobLocation 0 0 2, BlobLocation 0 0 3], dbl_revokedLocks = [BlobLocation 0 0 2],
     dbl_isMVCC = False\<rparr>]\<rparr>"

theorem begin_response_layout_witness:
  "\<exists>st' buf. Client_ConstructTransactionBeginResponse 3 ((Server_new 0)\<lparr>st_clients := [3 \<mapsto> sample_begin]\<rparr>)
       = Some (TransactionBeginResponse [(0, False, [BlobLocation 0 0 2])], st')
     \<and> build_begin_response (\<lambda>_. 99) 1 1 [(0, False, [BlobLocation 0 0 2])] = Some buf \<and> length buf = 28
     \<and> received_begin_response buf = Some (TransactionBeginResponse [(0, False, [BlobLocation 0 0 2])])"
proof -
  let ?st = "(Server_new 0)\<lparr>st_clients := [3 \<mapsto> sample_begin]\<rparr>" and ?es = "[(0 :: database_id, False, [BlobLocation 0 0 2])]"
  obtain st' where c: "Client_ConstructTransactionBeginResponse 3 ?st = Some (TransactionBeginResponse ?es, st')"
    by (simp add: Client_ConstructTransactionBeginResponse_def sample_begin_def response_locks_def DatabaseLocks_ApplyRevokedLocks_def Let_def)
  have s: "length (c_openDatabases sample_begin) \<le> 255" "st_clients ?st 3 = Some sample_begin"
    "response_locks (c_openDatabases sample_begin) = Some 1" "Client_GetOpenDatabaseCount sample_begin = 1"
    by (simp_all add: sample_begin_def response_locks_def Client_GetOpenDatabaseCount_def)
  from begin_response_layout [OF s(1-3) c, of "\<lambda>_. 99"] s(4) c show ?thesis by auto
qed

end
