(* ===== verification/Message_Socket.thy ===== *)
theory Message_Socket
  imports Message_Layout
begin

text \<open>
  The two directions of a connection, Network/DuplexMessageSocket.cpp: the receiver cuts the stream of bytes into messages, and the
  sender passes the messages of its queue to the system and continues where the system stopped. The system calls of
  Windows are the events of the model: a completed receive brings the next bytes of the stream, a completed send says
  how many of the bytes it was given went out. \<open>None\<close> stands for an access outside of allocated memory or an event that cannot occur.
\<close>

section \<open>Receiving\<close>

text \<open>The bytes kept at the start of the receive buffer, and the memory of the incomplete message with \<open>writeOffset\<close>.\<close>

record Receive =
  rc_kept :: "byte list"
  rc_message :: "(byte list \<times> nat) option"

definition Receive_new :: Receive where
  "Receive_new = \<lparr>rc_kept = [], rc_message = None\<rparr>"

lemma copy_progress: "msg_size m \<noteq> msg_size (put k (take (msg_size m - k) bs) m) \<Longrightarrow> k \<noteq> msg_size m"
  by auto

function process_data :: "(nat \<Rightarrow> byte) \<Rightarrow> byte list \<Rightarrow> (byte list \<times> nat) option \<Rightarrow> (byte list list \<times> Receive) option" where
  "process_data mem dataToProcess message =
     (if dataToProcess = [] then Some ([], \<lparr>rc_kept = [], rc_message = message\<rparr>)
      else case message of
        Some (m, writeOffset) \<Rightarrow>
          if msg_size m < writeOffset then None
          else let bytesToCopy = min (length dataToProcess) (msg_size m - writeOffset) in
            write_bytes writeOffset (take bytesToCopy dataToProcess) m \<bind> (\<lambda>m'.
            if writeOffset + bytesToCopy = msg_size m'
            then map_option (\<lambda>(ms, st). (m' # ms, st)) (process_data mem (drop bytesToCopy dataToProcess) None)
            else process_data mem (drop bytesToCopy dataToProcess) (Some (m', writeOffset + bytesToCopy)))
      | None \<Rightarrow>
          if length dataToProcess \<ge> 4
          then let messageSize = unat (u32_of (take 4 dataToProcess)) in
            write_bytes 0 (take 4 dataToProcess) (new_memory mem messageSize) \<bind> (\<lambda>m.
            process_data mem (drop 4 dataToProcess) (Some (m, 4)))
          else Some ([], \<lparr>rc_kept = dataToProcess, rc_message = None\<rparr>))"
  by pat_completeness auto
termination
  by (relation "measure (\<lambda>(mem, bs, m). 2 * length bs + (if m = None then 0 else 1))")
    (auto simp: write_bytes_def min_def not_less split: if_splits dest!: copy_progress)

declare process_data.simps [simp del]

definition ProcessReceivedData :: "(nat \<Rightarrow> byte) \<Rightarrow> byte list \<Rightarrow> Receive \<Rightarrow> (byte list list \<times> Receive) option" where
  "ProcessReceivedData mem received st = process_data mem (rc_kept st @ received) (rc_message st)"

text \<open>Completed receives one after the other: the messages handed to \<open>HandleMessageReceived\<close>.\<close>

fun receive_all :: "(nat \<Rightarrow> byte) \<Rightarrow> byte list list \<Rightarrow> Receive \<Rightarrow> (byte list list \<times> Receive) option" where
  "receive_all mem [] st = Some ([], st)"
| "receive_all mem (bs # bss) st = do {
     (ms, st) \<leftarrow> ProcessReceivedData mem bs st;
     (ms', st) \<leftarrow> receive_all mem bss st;
     Some (ms @ ms', st) }"

section \<open>Sending\<close>

text \<open>\<open>sk_outstanding\<close>: the bytes of every send that has been passed to the system and not been reported as completed;
  \<open>sk_notifications\<close>: the posted packets that tell the network thread of new messages; \<open>sk_wire\<close>: everything that was sent.\<close>

record Socket =
  sk_queue :: "byte list list"
  sk_buffers :: "byte list list"
  sk_outstanding :: "byte list list"
  sk_notifications :: nat
  sk_associated :: bool
  sk_started :: bool
  sk_wire :: "byte list"

definition Socket_new :: Socket where
  "Socket_new = \<lparr>sk_queue = [], sk_buffers = [], sk_outstanding = [], sk_notifications = 0, sk_associated = False,
     sk_started = False, sk_wire = []\<rparr>"

definition WSASend :: "Socket \<Rightarrow> Socket" where
  "WSASend s = s\<lparr>sk_outstanding := sk_outstanding s @ [concat (sk_buffers s)]\<rparr>"

definition SendData :: "Socket \<Rightarrow> Socket" where
  "SendData s = (if sk_queue s = [] then s else WSASend (s\<lparr>sk_buffers := sk_buffers s @ sk_queue s\<rparr>))"

text \<open>Messages that went out completely leave the buffers and the queue; \<open>pop_front\<close> of an empty queue is undefined.\<close>

fun drop_sent :: "nat \<Rightarrow> byte list list \<Rightarrow> byte list list \<Rightarrow> (nat \<times> byte list list \<times> byte list list) option" where
  "drop_sent n [] queue = Some (n, [], queue)"
| "drop_sent n (b # bs) queue =
     (if n \<ge> length b then case queue of [] \<Rightarrow> None | m # ms \<Rightarrow> drop_sent (n - length b) bs ms
      else Some (n, b # bs, queue))"

definition ProcessSentData :: "nat \<Rightarrow> Socket \<Rightarrow> Socket option" where
  "ProcessSentData bytesTransferred s = do {
     (n, bs, queue) \<leftarrow> drop_sent bytesTransferred (sk_buffers s) (sk_queue s);
     let bs = (case bs of [] \<Rightarrow> [] | b # bs' \<Rightarrow> drop n b # bs');
     let bs = bs @ drop (length bs) queue;
     let s = s\<lparr>sk_queue := queue, sk_buffers := bs\<rparr>;
     Some (if bs = [] then s else WSASend s) }"

definition EnqueueMessage :: "byte list \<Rightarrow> Socket \<Rightarrow> Socket" where
  "EnqueueMessage m s = s\<lparr>sk_queue := sk_queue s @ [m],
     sk_notifications := sk_notifications s + (if sk_queue s = [] \<and> sk_associated s then 1 else 0)\<rparr>"

text \<open>\<open>InitializeMessageSocket\<close> in its two steps as far as sending is concerned, and the events that follow.\<close>

datatype SocketEvent = Associate | StartSending | Enqueue "byte list" | Notified | Sent nat

fun HandleSocketEvent :: "SocketEvent \<Rightarrow> Socket \<Rightarrow> Socket option" where
  "HandleSocketEvent Associate s = (if sk_associated s then None else Some (s\<lparr>sk_associated := True\<rparr>))"
| "HandleSocketEvent StartSending s =
     (if sk_associated s \<and> \<not> sk_started s then Some (SendData (s\<lparr>sk_started := True\<rparr>)) else None)"
| "HandleSocketEvent (Enqueue m) s = Some (EnqueueMessage m s)"
| "HandleSocketEvent Notified s =
     (if sk_started s \<and> sk_notifications s > 0 then Some (SendData (s\<lparr>sk_notifications := sk_notifications s - 1\<rparr>)) else None)"
| "HandleSocketEvent (Sent n) s =
     (case sk_outstanding s of
        [] \<Rightarrow> None
      | r # rs \<Rightarrow> if sk_started s \<and> 0 < n \<and> n \<le> length r
          then ProcessSentData n (s\<lparr>sk_outstanding := rs, sk_wire := sk_wire s @ take n r\<rparr>) else None)"

fun run_socket :: "SocketEvent list \<Rightarrow> Socket \<Rightarrow> Socket option" where
  "run_socket [] s = Some s"
| "run_socket (e # es) s = HandleSocketEvent e s \<bind> run_socket es"

fun enqueued :: "SocketEvent list \<Rightarrow> byte list list" where
  "enqueued [] = []"
| "enqueued (Enqueue m # es) = m # enqueued es"
| "enqueued (e # es) = enqueued es"

section \<open>The connections of the server\<close>

text \<open>The ids of the connected clients and the id that was given away last. The search for a free id wraps around.\<close>

record Clients =
  cl_ids :: "client_id set"
  cl_lastId :: client_id

definition Clients_new :: Clients where
  "Clients_new = \<lparr>cl_ids = {}, cl_lastId = 0\<rparr>"

partial_function (option) next_free_id :: "client_id set \<Rightarrow> client_id \<Rightarrow> client_id option" where
  "next_free_id ids lastId =
     (let i = lastId + 1 in if i \<in> ids then next_free_id ids i else Some i)"

declare next_free_id.simps [code]

definition Clients_Add :: "Clients \<Rightarrow> (client_id \<times> Clients) option" where
  "Clients_Add cs =
     (if card (cl_ids cs) < 65535
      then map_option (\<lambda>i. (i, \<lparr>cl_ids = insert i (cl_ids cs), cl_lastId = i\<rparr>)) (next_free_id (cl_ids cs) (cl_lastId cs))
      else None)"

definition Clients_Remove :: "client_id \<Rightarrow> Clients \<Rightarrow> Clients" where
  "Clients_Remove i cs = cs\<lparr>cl_ids := cl_ids cs - {i}\<rparr>"

definition Clients_Clear :: "Clients \<Rightarrow> Clients" where
  "Clients_Clear cs = cs\<lparr>cl_ids := {}\<rparr>"

definition Clients_QueueClientMessage ::
  "client_id \<Rightarrow> byte list \<Rightarrow> Clients \<Rightarrow> (client_id \<Rightarrow> Socket) \<Rightarrow> bool \<times> (client_id \<Rightarrow> Socket)" where
  "Clients_QueueClientMessage i m cs sockets =
     (if i \<in> cl_ids cs then (True, sockets(i := EnqueueMessage m (sockets i))) else (False, sockets))"

text \<open>\<open>ProcessReceivedMessage\<close> marks a received message with the client it came from.\<close>

definition ProcessReceivedMessage :: "client_id \<Rightarrow> byte list \<Rightarrow> byte list option" where
  "ProcessReceivedMessage i m = write_bytes 6 (u16_bytes i) m"

end
