(* ===== verification/Socket_Properties.thy ===== *)
theory Socket_Properties
  imports Message_Socket
begin

text \<open>
  A connection delivers the messages that were sent, each once, complete and in order, however the bytes are split by the
  system on their way.
\<close>

section \<open>Receiving\<close>

definition frame_ok :: "byte list \<Rightarrow> bool" where
  "frame_ok m = (8 \<le> length m \<and> msg_size m = length m)"

text \<open>What a receiver has of the message that is not complete yet.\<close>

definition pending :: "Receive \<Rightarrow> byte list" where
  "pending st = (case rc_message st of None \<Rightarrow> rc_kept st | Some (m, writeOffset) \<Rightarrow> take writeOffset m)"

definition receive_ok :: "Receive \<Rightarrow> bool" where
  "receive_ok st = (case rc_message st of None \<Rightarrow> length (rc_kept st) < 4
     | Some (m, writeOffset) \<Rightarrow> rc_kept st = [] \<and> 4 \<le> writeOffset \<and> writeOffset < length m \<and> msg_size m = length m)"

definition message_part :: "(byte list \<times> nat) option \<Rightarrow> byte list" where
  "message_part message = (case message of None \<Rightarrow> [] | Some (m, writeOffset) \<Rightarrow> take writeOffset m)"

definition message_ok :: "(byte list \<times> nat) option \<Rightarrow> bool" where
  "message_ok message = (case message of None \<Rightarrow> True
     | Some (m, writeOffset) \<Rightarrow> 4 \<le> writeOffset \<and> writeOffset < length m \<and> msg_size m = length m)"

lemma msg_size_take: "msg_size m = unat (u32_of (take 4 m))"
  by (simp add: msg_size_def get_def)

lemma take_concat_frame:
  assumes "frame_ok f" "n \<le> length f" "xs @ ys = concat (f # fs)" "n \<le> length xs"
  shows "take n xs = take n f"
proof -
  have "take n (xs @ ys) = take n f" using assms(2) by (simp add: assms(3))
  with assms(4) show ?thesis by simp
qed

lemma copy_frame:
  assumes "frame_ok f" "take k m @ bs @ future = concat (f # fs)" "4 \<le> k" "k < length m" "msg_size m = length m"
  shows "length f = length m"
    and "n \<le> length bs \<Longrightarrow> k + n \<le> length m \<Longrightarrow> take (k + n) (put k (take n bs) m) = take (k + n) f"
    and "n \<le> length bs \<Longrightarrow> k + n \<le> length m \<Longrightarrow> msg_size (put k (take n bs) m) = length m"
proof -
  have "take 4 (take k m) = take 4 f"
    using assms by (intro take_concat_frame [of f 4 "take k m" "bs @ future" fs]) (auto simp: frame_ok_def)
  then have "take 4 m = take 4 f" using assms(3) by (simp add: min_def)
  then show len: "length f = length m" using assms(1,5) by (simp add: frame_ok_def msg_size_take)
  show "take (k + n) (put k (take n bs) m) = take (k + n) f" if "n \<le> length bs" "k + n \<le> length m"
  proof -
    have "take (k + n) (take k m @ take n bs) = take (k + n) f"
      using assms that len by (intro take_concat_frame [of f "k + n" "take k m @ take n bs" "drop n bs @ future" fs]) (auto simp flip: append_assoc, simp)
    then show ?thesis using that assms(4) by (simp add: put_def)
  qed
  show "msg_size (put k (take n bs) m) = length m" if "n \<le> length bs" "k + n \<le> length m"
    using that assms(3-5) by (simp add: msg_size_def get_put_before)
qed

text \<open>A stream of messages is cut at their ends; \<open>future\<close> has not been received yet.\<close>

lemma process_data_frames:
  assumes "message_part message @ bs @ future = concat fs" "\<forall>f \<in> set fs. frame_ok f" "message_ok message"
  shows "\<exists>ms fs' st. process_data mem bs message = Some (ms, st) \<and> fs = ms @ fs' \<and> receive_ok st \<and> pending st @ future = concat fs'"
  using assms
proof (induction mem bs message arbitrary: fs rule: process_data.induct)
  case (1 mem bs message)
  show ?case
  proof (cases "bs = []")
    case True
    then show ?thesis using 1(4-6)
      by (intro exI [of _ "[]"] exI [of _ fs]) (auto simp: process_data.simps receive_ok_def pending_def message_part_def message_ok_def split: option.splits)
  next
    case ne: False
    then obtain f gs where fs: "fs = f # gs" using 1(4) by (cases fs) auto
    have f: "frame_ok f" using 1(5) fs by simp
    show ?thesis
    proof (cases message)
      case None
      show ?thesis
      proof (cases "4 \<le> length bs")
        case False
        then show ?thesis using ne None 1(4)
          by (intro exI [of _ "[]"] exI [of _ fs]) (auto simp: process_data.simps [of mem bs] receive_ok_def pending_def message_part_def)
      next
        case True
        let ?n = "unat (u32_of (take 4 bs))" and ?m = "put 0 (take 4 bs) (new_memory mem (unat (u32_of (take 4 bs))))"
        have "take 4 bs = take 4 f"
          using f True 1(4) fs None by (intro take_concat_frame [of f 4 bs future gs]) (auto simp: frame_ok_def message_part_def)
        then have n: "?n = length f" using f by (simp add: frame_ok_def msg_size_take)
        have l: "8 \<le> ?n" using f n by (simp add: frame_ok_def)
        then have m: "write_bytes 0 (take 4 bs) (new_memory mem ?n) = Some ?m" "length ?m = ?n" "take 4 ?m = take 4 bs" "msg_size ?m = ?n"
          using True by (simp_all add: write_bytes_def put_def new_memory_def msg_size_take)
        have "message_part (Some (?m, 4)) @ drop 4 bs @ future = concat fs" using 1(4) None m(3) by (simp add: message_part_def flip: append_assoc)
        moreover have "message_ok (Some (?m, 4))" using m l by (simp add: message_ok_def)
        ultimately show ?thesis using 1(1) [OF ne None True refl m(1)] 1(5) ne None True m(1)
          by (simp add: process_data.simps [of mem bs])
      qed
    next
      case (Some p)
      obtain m k where p: "p = (m, k)" by fastforce
      let ?n = "min (length bs) (msg_size m - k)" and ?m = "put k (take (min (length bs) (msg_size m - k)) bs) m"
      have ok: "4 \<le> k" "k < length m" "msg_size m = length m" using 1(6) Some p by (simp_all add: message_ok_def)
      have st: "take k m @ bs @ future = concat (f # gs)" using 1(4) Some p fs by (simp add: message_part_def)
      note cf = copy_frame [OF f st ok]
      have n: "?n \<le> length bs" "k + ?n \<le> length m" using ok by auto
      have w: "write_bytes k (take ?n bs) m = Some ?m" "length ?m = length m" using n by (simp_all add: write_bytes_def length_put)
      have tk: "take (k + ?n) ?m = take (k + ?n) f" "msg_size ?m = length m" using cf(2,3) [OF n] by simp_all
      have split: "take ?n bs @ drop ?n bs @ future = bs @ future" by (metis append_assoc append_take_drop_id)
      have "take (k + ?n) ?m = take k m @ take ?n bs" using n ok by (simp add: put_def)
      then have rest: "take (k + ?n) ?m @ drop ?n bs @ future = concat (f # gs)" by (simp only: append_assoc split st)
      show ?thesis
      proof (cases "k + ?n = msg_size ?m")
        case True
        then have "?m = f" using tk w cf(1) by simp
        with rest True tk(2) w(2) have "message_part None @ drop ?n bs @ future = concat gs" by (simp add: message_part_def)
        with 1(2) [OF ne Some p [symmetric] _ refl w(1) True, of gs] 1(5) fs
        obtain ms fs' st where "process_data mem (drop ?n bs) None = Some (ms, st)" "gs = ms @ fs'" "receive_ok st"
          "pending st @ future = concat fs'" using ok by (auto simp: message_ok_def)
        then show ?thesis using ne Some p w(1) True \<open>?m = f\<close> ok fs
          by (intro exI [of _ "f # ms"] exI [of _ fs'] exI [of _ st]) (simp add: process_data.simps [of mem bs] Let_def)
      next
        case False
        then have "message_ok (Some (?m, k + ?n))" using n w tk ok by (simp add: message_ok_def)
        moreover have "message_part (Some (?m, k + ?n)) @ drop ?n bs @ future = concat fs" using rest fs by (simp add: message_part_def)
        ultimately show ?thesis using 1(3) [OF ne Some p [symmetric] _ refl w(1) False, of fs] 1(5) ne Some p w(1) False ok
          by (simp add: process_data.simps [of mem bs] Let_def)
      qed
    qed
  qed
qed

lemma receive_step:
  assumes "pending st @ bs @ future = concat fs" "\<forall>f \<in> set fs. frame_ok f" "receive_ok st"
  obtains ms fs' st' where "ProcessReceivedData mem bs st = Some (ms, st')" "fs = ms @ fs'" "receive_ok st'"
    "pending st' @ future = concat fs'"
proof -
  have "message_part (rc_message st) @ (rc_kept st @ bs) @ future = concat fs" "message_ok (rc_message st)"
    using assms(1,3) by (auto simp: pending_def message_part_def message_ok_def receive_ok_def split: option.splits)
  from process_data_frames [OF this(1) assms(2) this(2), of mem] that show thesis
    unfolding ProcessReceivedData_def by blast
qed

lemma receive_all_frames:
  assumes "pending st @ concat bss @ future = concat fs" "\<forall>f \<in> set fs. frame_ok f" "receive_ok st"
  shows "\<exists>ms fs' st'. receive_all mem bss st = Some (ms, st') \<and> fs = ms @ fs' \<and> receive_ok st' \<and> pending st' @ future = concat fs'"
  using assms
proof (induction bss arbitrary: st fs)
  case (Cons bs bss)
  from Cons.prems(1) have "pending st @ bs @ concat bss @ future = concat fs" by simp
  from receive_step [OF this Cons.prems(2,3), of mem] obtain ms gs st1 where s: "ProcessReceivedData mem bs st = Some (ms, st1)"
    "fs = ms @ gs" "receive_ok st1" "pending st1 @ concat bss @ future = concat gs" by blast
  with Cons.IH [OF s(4) _ s(3)] Cons.prems(2) obtain ms' fs' st' where "receive_all mem bss st1 = Some (ms', st')" "gs = ms' @ fs'"
    "receive_ok st'" "pending st' @ future = concat fs'" by auto
  with s(1,2) show ?case by auto
qed auto

text \<open>No complete message is left behind.\<close>

lemma pending_incomplete:
  assumes "receive_ok st" "pending st @ future = concat (f # fs)" "frame_ok f"
  shows "length (pending st) < length f"
proof (cases "rc_message st")
  case None
  then show ?thesis using assms by (simp add: receive_ok_def pending_def frame_ok_def)
next
  case (Some p)
  obtain m k where p: "p = (m, k)" by fastforce
  have ok: "4 \<le> k" "k < length m" "msg_size m = length m" "pending st = take k m" using assms(1) Some p
    by (simp_all add: receive_ok_def pending_def)
  then show ?thesis using copy_frame(1) [of f k m "[]" future fs] assms(2,3) by simp
qed

lemma pending_nothing:
  assumes "receive_ok st" "pending st = []"
  shows "st = Receive_new"
  using assms by (cases st) (auto simp: receive_ok_def pending_def Receive_new_def split: option.splits)

text \<open>A size field that is smaller than itself makes the receiver write outside of the message it allocates.\<close>

lemma short_size_overruns:
  assumes "4 \<le> length bs" "unat (u32_of (take 4 bs)) < 4"
  shows "ProcessReceivedData mem bs Receive_new = None"
  using assms by (auto simp: ProcessReceivedData_def Receive_new_def process_data.simps [of mem bs] write_bytes_def new_memory_def)

section \<open>Sending\<close>

text \<open>A socket after its initialisation: the buffers are the unsent parts of the messages at the front of the queue, exactly these
  bytes are with the system, and a notification is posted exactly when messages wait that are not with the system.\<close>

definition unsent_of :: "byte list list \<Rightarrow> byte list list \<Rightarrow> byte list" where
  "unsent_of bs queue = concat bs @ concat (drop (length bs) queue)"

definition buffers_ok :: "byte list list \<Rightarrow> byte list list \<Rightarrow> bool" where
  "buffers_ok bs queue = (length bs \<le> length queue \<and> (bs \<noteq> [] \<longrightarrow> hd bs \<noteq> [] \<and> tl bs = tl (take (length bs) queue)
     \<and> (\<exists>sent. hd queue = sent @ hd bs)))"

definition socket_ok :: "Socket \<Rightarrow> bool" where
  "socket_ok s = (sk_associated s \<and> sk_started s \<and> buffers_ok (sk_buffers s) (sk_queue s) \<and> [] \<notin> set (sk_queue s)
     \<and> sk_outstanding s = (if sk_buffers s = [] then [] else [concat (sk_buffers s)])
     \<and> sk_notifications s = (if sk_buffers s = [] \<and> sk_queue s \<noteq> [] then 1 else 0))"

abbreviation unsent :: "Socket \<Rightarrow> byte list" where
  "unsent s \<equiv> unsent_of (sk_buffers s) (sk_queue s)"

lemma drop_sent_ok:
  assumes "buffers_ok bs queue" "[] \<notin> set queue" "n \<le> length (concat bs)"
  shows "\<exists>n' bs' queue'. drop_sent n bs queue = Some (n', bs', queue') \<and> buffers_ok bs' queue' \<and> set queue' \<subseteq> set queue
    \<and> concat (case bs' of [] \<Rightarrow> [] | b # cs \<Rightarrow> drop n' b # cs) = drop n (concat bs) \<and> (bs' = [] \<longrightarrow> n' = 0) \<and> (bs' \<noteq> [] \<longrightarrow> n' < length (hd bs'))
    \<and> drop (length bs') queue' = drop (length bs) queue"
  using assms
proof (induction n bs queue rule: drop_sent.induct)
  case (2 n b bs queue)
  obtain m ms where q: "queue = m # ms" using 2(2) by (cases queue) (auto simp: buffers_ok_def)
  show ?case
  proof (cases "length b \<le> n")
    case True
    have "buffers_ok bs ms"
    proof (cases bs)
      case (Cons c cs)
      then obtain k ks where "ms = k # ks" using 2(2) q by (cases ms) (auto simp: buffers_ok_def)
      with 2(2,3) Cons q show ?thesis by (auto simp: buffers_ok_def)
    qed (simp add: buffers_ok_def)
    moreover have "[] \<notin> set ms" "n - length b \<le> length (concat bs)" using 2(3,4) True q by auto
    ultimately obtain n' bs' queue' where "drop_sent (n - length b) bs ms = Some (n', bs', queue')"
      "buffers_ok bs' queue'" "set queue' \<subseteq> set ms" "concat (case bs' of [] \<Rightarrow> [] | b # cs \<Rightarrow> drop n' b # cs) = drop (n - length b) (concat bs)"
      "bs' = [] \<longrightarrow> n' = 0" "bs' \<noteq> [] \<longrightarrow> n' < length (hd bs')" "drop (length bs') queue' = drop (length bs) ms" using 2(1) [OF True q] by blast
    with True q show ?thesis by (intro exI [of _ n'] exI [of _ bs'] exI [of _ queue']) auto
  next
    case False
    then show ?thesis using 2(2) by auto
  qed
qed (auto simp: buffers_ok_def)

lemma ProcessSentData_ok:
  assumes "buffers_ok (sk_buffers s) (sk_queue s)" "[] \<notin> set (sk_queue s)" "n \<le> length (concat (sk_buffers s))"
    "sk_outstanding s = []" "sk_notifications s = 0" "sk_associated s" "sk_started s"
  obtains s' where "ProcessSentData n s = Some s'" "socket_ok s'" "unsent s' = drop n (concat (sk_buffers s)) @ concat (drop (length (sk_buffers s)) (sk_queue s))"
    "sk_wire s' = sk_wire s" "length (sk_buffers s') = length (sk_queue s')"
proof -
  from drop_sent_ok [OF assms(1-3)] obtain k bs queue where d: "drop_sent n (sk_buffers s) (sk_queue s) = Some (k, bs, queue)"
    "buffers_ok bs queue" "set queue \<subseteq> set (sk_queue s)"
    "concat (case bs of [] \<Rightarrow> [] | b # cs \<Rightarrow> drop k b # cs) = drop n (concat (sk_buffers s))"
    "bs \<noteq> [] \<longrightarrow> k < length (hd bs)" "drop (length bs) queue = drop (length (sk_buffers s)) (sk_queue s)" by blast
  define cs where "cs = (case bs of [] \<Rightarrow> [] | b # bs' \<Rightarrow> drop k b # bs')"
  have len: "length cs = length bs" by (simp add: cs_def split: list.splits)
  define bs' where "bs' = cs @ drop (length bs) queue"
  have len': "length bs' = length queue" using d(2) by (simp add: bs'_def len buffers_ok_def)
  have ne: "[] \<notin> set queue" using d(3) assms(2) by auto
  have "buffers_ok bs' queue"
  proof (cases bs)
    case Nil
    then show ?thesis using ne by (cases queue) (auto simp: bs'_def cs_def buffers_ok_def)
  next
    case (Cons b as)
    then obtain m ms sent where q: "queue = m # ms" "m = sent @ b" "as = take (length as) ms" "length as \<le> length ms"
      using d(2) by (cases queue) (auto simp: buffers_ok_def)
    have "tl bs' = ms" using append_take_drop_id [of "length as" ms] q(3) Cons q(1) by (simp add: bs'_def cs_def)
    moreover have "\<exists>t. sent @ b = t @ drop k b" by (rule exI [of _ "sent @ take k b"]) simp
    ultimately show ?thesis using d(5) len' Cons q(1,2) by (auto simp: buffers_ok_def bs'_def cs_def)
  qed
  moreover have "bs' = [] \<longleftrightarrow> queue = []" using len' by (metis length_0_conv)
  moreover have "ProcessSentData n s = Some (let t = s\<lparr>sk_queue := queue, sk_buffers := bs'\<rparr> in if bs' = [] then t else WSASend t)"
    by (simp only: ProcessSentData_def d(1) Option.bind.bind_lunit prod.case Let_def cs_def [symmetric] len bs'_def [symmetric])
  moreover have "concat bs' = drop n (concat (sk_buffers s)) @ concat (drop (length (sk_buffers s)) (sk_queue s))"
    using d(4,6) by (simp add: bs'_def cs_def)
  ultimately show thesis using that assms(4-7) ne len'
    by (auto simp: socket_ok_def WSASend_def unsent_of_def Let_def split: if_splits)
qed

lemma socket_step:
  assumes "socket_ok s" "HandleSocketEvent e s = Some s'" "[] \<notin> set (enqueued [e])"
  shows "socket_ok s' \<and> sk_wire s' @ unsent s' = sk_wire s @ unsent s @ concat (enqueued [e])"
proof (cases e)
  case (Enqueue m)
  have l: "length (sk_buffers s) \<le> length (sk_queue s)" using assms(1) by (simp add: socket_ok_def buffers_ok_def)
  then have "take (length (sk_buffers s)) (sk_queue s @ [m]) = take (length (sk_buffers s)) (sk_queue s)" by simp
  then have "buffers_ok (sk_buffers s) (sk_queue s @ [m])" using assms(1) l
    by (cases "sk_queue s") (simp_all add: socket_ok_def buffers_ok_def)
  with l show ?thesis using assms Enqueue by (auto simp: socket_ok_def EnqueueMessage_def unsent_of_def split: if_splits)
next
  case Notified
  with assms(1,2) have n: "sk_buffers s = []" "sk_queue s \<noteq> []" "sk_outstanding s = []" "sk_notifications s = 1"
    "s' = SendData (s\<lparr>sk_notifications := 0\<rparr>)" by (auto simp: socket_ok_def split: if_splits)
  then have "buffers_ok (sk_queue s) (sk_queue s)" using assms(1) by (cases "sk_queue s") (auto simp: socket_ok_def buffers_ok_def)
  then show ?thesis using n assms(1) Notified by (auto simp: socket_ok_def SendData_def WSASend_def unsent_of_def)
next
  case (Sent n)
  with assms(1,2) have o: "sk_outstanding s = [concat (sk_buffers s)]" "0 < n" "n \<le> length (concat (sk_buffers s))" "sk_notifications s = 0"
    "ProcessSentData n (s\<lparr>sk_outstanding := [], sk_wire := sk_wire s @ take n (concat (sk_buffers s))\<rparr>) = Some s'"
    by (auto simp: socket_ok_def split: if_splits list.splits)
  define t where "t = s\<lparr>sk_outstanding := [], sk_wire := sk_wire s @ take n (concat (sk_buffers s))\<rparr>"
  obtain s2 where "ProcessSentData n t = Some s2" "socket_ok s2"
    "unsent s2 = drop n (concat (sk_buffers t)) @ concat (drop (length (sk_buffers t)) (sk_queue t))" "sk_wire s2 = sk_wire t"
    by (rule ProcessSentData_ok [of t n]) (use assms(1) o in \<open>auto simp: t_def socket_ok_def\<close>)
  then show ?thesis using o(5) Sent append_take_drop_id [of n "concat (sk_buffers s)"]
    by (simp add: t_def unsent_of_def)
qed (use assms in \<open>auto simp: socket_ok_def\<close>)

lemma socket_run:
  assumes "socket_ok s" "run_socket es s = Some s'" "[] \<notin> set (enqueued es)"
  shows "socket_ok s' \<and> sk_wire s' @ unsent s' = sk_wire s @ unsent s @ concat (enqueued es)"
  using assms
proof (induction es arbitrary: s)
  case (Cons e es)
  obtain t where t: "HandleSocketEvent e s = Some t" "run_socket es t = Some s'" using Cons.prems(2) by (auto simp: bind_eq_Some_conv)
  have e: "enqueued (e # es) = enqueued [e] @ enqueued es" by (cases e) auto
  with Cons.prems(3) have ne: "[] \<notin> set (enqueued [e])" "[] \<notin> set (enqueued es)" by auto
  from socket_step [OF Cons.prems(1) t(1) ne(1)] Cons.IH [OF _ t(2) ne(2)] show ?case by (auto simp: e)
qed simp

lemma run_socket_append: "run_socket (xs @ ys) s = run_socket xs s \<bind> run_socket ys"
  by (induction xs arbitrary: s) (auto split: bind_splits)

lemma enqueue_before_start:
  "run_socket (map Enqueue qs) (Socket_new\<lparr>sk_queue := ps\<rparr>) = Some (Socket_new\<lparr>sk_queue := ps @ qs\<rparr>)"
  by (induction qs arbitrary: ps) (simp_all add: EnqueueMessage_def Socket_new_def)

lemma started_socket:
  assumes "[] \<notin> set qs"
  obtains s where "run_socket (map Enqueue qs @ [Associate, StartSending]) Socket_new = Some s" "socket_ok s" "sk_wire s = []" "unsent s = concat qs"
proof -
  let ?s = "SendData (Socket_new\<lparr>sk_queue := qs, sk_associated := True, sk_started := True\<rparr>)"
  have "run_socket (map Enqueue qs @ [Associate, StartSending]) Socket_new = Some ?s"
    using enqueue_before_start [of qs "[]"] by (simp add: run_socket_append) (simp add: Socket_new_def)
  moreover have "socket_ok ?s" "sk_wire ?s = []" "unsent ?s = concat qs"
    using assms by (cases qs; auto simp: socket_ok_def SendData_def WSASend_def Socket_new_def unsent_of_def buffers_ok_def)+
  ultimately show thesis by (rule that)
qed

lemma socket_ok_empty: "socket_ok s \<Longrightarrow> sk_queue s = [] \<longleftrightarrow> unsent s = []"
  by (cases "sk_buffers s"; cases "sk_queue s") (auto simp: socket_ok_def unsent_of_def buffers_ok_def)

lemma concat_eq_Nil: "concat xs = [] \<Longrightarrow> [] \<notin> set xs \<Longrightarrow> xs = []"
  by (cases xs) auto

lemma run_from_start:
  assumes "run_socket (map Enqueue qs @ [Associate, StartSending] @ es) Socket_new = Some s" "[] \<notin> set (qs @ enqueued es)"
  shows "socket_ok s" "sk_wire s @ unsent s = concat (qs @ enqueued es)"
proof -
  have q: "[] \<notin> set qs" using assms(2) by simp
  obtain t where t: "run_socket (map Enqueue qs @ [Associate, StartSending]) Socket_new = Some t" "socket_ok t" "sk_wire t = []" "unsent t = concat qs"
    using started_socket [OF q] by metis
  then have "run_socket es t = Some s" using assms(1) run_socket_append [of "map Enqueue qs @ [Associate, StartSending]" es] by simp
  from socket_run [OF t(2) this] assms(2) t(3,4) show "socket_ok s" "sk_wire s @ unsent s = concat (qs @ enqueued es)" by simp_all
qed


definition sample_message :: "byte list" where
  "sample_message = plain_message (\<lambda>_. 0) T_DatabaseClose 12 [5]"


lemma sent_handled:
  assumes "socket_ok s" "sk_outstanding s = [r]" "0 < n" "n \<le> length r"
  shows "HandleSocketEvent (Sent n) s \<noteq> None"
proof -
  define t where "t = s\<lparr>sk_outstanding := [], sk_wire := sk_wire s @ take n r\<rparr>"
  have r: "r = concat (sk_buffers s)" using assms(1,2) by (auto simp: socket_ok_def split: if_splits)
  obtain u where "ProcessSentData n t = Some u"
    by (rule ProcessSentData_ok [of t n]) (use assms r in \<open>auto simp: t_def socket_ok_def split: if_splits\<close>)
  moreover have "sk_started s" using assms(1) by (simp add: socket_ok_def)
  ultimately show ?thesis using assms(2-4) by (simp add: t_def)
qed

lemma notified_starts:
  assumes "socket_ok s"
  obtains t where "t = s \<or> HandleSocketEvent Notified s = Some t" "socket_ok t" "sk_queue t = [] \<or> sk_buffers t \<noteq> []"
proof (cases "sk_queue s = [] \<or> sk_buffers s \<noteq> []")
  case False
  then obtain t where t: "HandleSocketEvent Notified s = Some t" "sk_buffers t = sk_queue s" "sk_queue t = sk_queue s"
    using assms by (simp add: socket_ok_def SendData_def WSASend_def)
  with socket_step [OF assms t(1)] False that [of t] show thesis by simp
qed (use that assms in auto)

text \<open>A send that completes as a whole takes its messages out of the queue.\<close>

lemma completed_send:
  assumes "socket_ok s" "sk_buffers s \<noteq> []"
  obtains t where "HandleSocketEvent (Sent (length (concat (sk_buffers s)))) s = Some t" "socket_ok t"
    "unsent t = concat (drop (length (sk_buffers s)) (sk_queue s))" "length (sk_buffers t) = length (sk_queue t)"
proof -
  let ?n = "length (concat (sk_buffers s))"
  define u where "u = s\<lparr>sk_outstanding := [], sk_wire := sk_wire s @ concat (sk_buffers s)\<rparr>"
  have n: "0 < ?n" using assms by (cases "sk_buffers s") (auto simp: socket_ok_def buffers_ok_def)
  obtain t where "ProcessSentData ?n u = Some t" "socket_ok t"
    "unsent t = drop ?n (concat (sk_buffers u)) @ concat (drop (length (sk_buffers u)) (sk_queue u))" "length (sk_buffers t) = length (sk_queue t)"
    by (rule ProcessSentData_ok [of u ?n]) (use assms in \<open>auto simp: u_def socket_ok_def\<close>)
  with that [of t] assms n show thesis by (simp add: u_def socket_ok_def)
qed

lemma completed_sends:
  assumes "socket_ok s" "sk_queue s = [] \<or> sk_buffers s \<noteq> []"
  obtains es t where "length es \<le> 2" "enqueued es = []" "run_socket es s = Some t" "sk_queue t = []"
proof (cases "sk_queue s = []")
  case True
  then show thesis using that [of "[]" s] by simp
next
  case False
  with assms obtain t where t: "HandleSocketEvent (Sent (length (concat (sk_buffers s)))) s = Some t" "socket_ok t"
    "length (sk_buffers t) = length (sk_queue t)" using completed_send [of s] by metis
  show thesis
  proof (cases "sk_queue t = []")
    case True
    with t(1) that [of "[Sent (length (concat (sk_buffers s)))]" t] show thesis by simp
  next
    case False
    with t(3) have "sk_buffers t \<noteq> []" by auto
    with t(2) obtain u where u: "HandleSocketEvent (Sent (length (concat (sk_buffers t)))) t = Some u" "socket_ok u"
      "unsent u = concat (drop (length (sk_buffers t)) (sk_queue t))" using completed_send [of t] by metis
    then have "sk_queue u = []" using t(3) socket_ok_empty [OF u(2)] by simp
    with t(1) u(1) that [of "[Sent (length (concat (sk_buffers s))), Sent (length (concat (sk_buffers t)))]" u] show thesis by simp
  qed
qed



text \<open>The client's socket is connected in the network thread while the main thread may enqueue its first message. A message that is
  enqueued between the two steps of the initialisation is passed to the system twice, and the second completion works on a
  message that has been deleted already.\<close>

lemma client_start_race:
  assumes "m \<noteq> []"
  shows "\<exists>s. run_socket [Associate, Enqueue m, StartSending, Notified, Sent (length m)] Socket_new = Some s
    \<and> sk_queue s = [] \<and> sk_buffers s = [m] \<and> sk_outstanding s = [m @ m, m] \<and> HandleSocketEvent (Sent (2 * length m)) s = None"
  using assms by (simp add: Socket_new_def EnqueueMessage_def SendData_def WSASend_def ProcessSentData_def)

section \<open>The connections of the server\<close>

lemma next_free_id_found:
  assumes "lastId + of_nat (Suc k) \<notin> ids"
  shows "\<exists>i. next_free_id ids lastId = Some i \<and> i \<notin> ids"
  using assms
proof (induction k arbitrary: lastId)
  case 0
  then show ?case by (simp add: next_free_id.simps [of ids lastId])
next
  case (Suc k)
  have "lastId + 1 + of_nat (Suc k) = lastId + of_nat (Suc (Suc k))" by (simp add: ac_simps)
  with Suc have "\<exists>i. next_free_id ids (lastId + 1) = Some i \<and> i \<notin> ids" by metis
  then show ?case by (cases "lastId + 1 \<in> ids") (simp_all add: next_free_id.simps [of ids lastId])
qed

text \<open>While fewer than 65535 clients are connected, a new client gets an id that no connected client has.\<close>

lemma new_client_id_free:
  assumes "card (cl_ids cs) < 65535"
  obtains i where "Clients_Add cs = Some (i, \<lparr>cl_ids = insert i (cl_ids cs), cl_lastId = i\<rparr>)" "i \<notin> cl_ids cs"
proof -
  have "card (UNIV :: client_id set) = 65536" by (simp add: card_word)
  with assms have "cl_ids cs \<noteq> UNIV" by auto
  then obtain j where j: "j \<notin> cl_ids cs" by auto
  define k where "k = unat (j - cl_lastId cs - 1)"
  have "cl_lastId cs + of_nat (Suc k) = j" by (simp add: k_def)
  with j next_free_id_found [of "cl_lastId cs" k "cl_ids cs"] obtain i where "next_free_id (cl_ids cs) (cl_lastId cs) = Some i" "i \<notin> cl_ids cs" by auto
  with that assms show thesis by (simp add: Clients_Add_def)
qed

lemma received_client_id:
  assumes "8 \<le> length m"
  obtains m' where "ProcessReceivedMessage i m = Some m'" "msg_clientId m' = i" "msg_size m' = msg_size m" "length m' = length m"
proof -
  have "ProcessReceivedMessage i m = Some (put 6 (u16_bytes i) m)"
    using assms by (simp add: ProcessReceivedMessage_def write_bytes_def codec_simps)
  moreover have "msg_clientId (put 6 (u16_bytes i) m) = i" "msg_size (put 6 (u16_bytes i) m) = msg_size m" "length (put 6 (u16_bytes i) m) = length m"
    using assms by (simp_all add: msg_clientId_def msg_size_def memory_simps)
  ultimately show thesis by (rule that)
qed

end
