(* ===== verification/Session_Lock.thy ===== *)
theory Session_Lock
  imports Client_Session
begin

text \<open>
  The lock and the handles of a session (ClientLib/Session.cpp). The lock is modelled with the interleaving of the
  threads that share the session: each access to the mutex or to \<open>lockedBy\<close> is a step of its own. It is what makes the
  operations of Client\_Session and of the theories above it atomic; the destructor of a database is the one that runs
  without it. The handles count the references to a session, and \<open>globalSession\<close> is one of them.
\<close>

section \<open>The lock of a session\<close>

text \<open>A thread is identified by a number, and a LockHandle by the thread on whose stack it lives and a number.\<close>

type_synonym thread = nat
type_synonym lock_handle = nat

text \<open>What remains to be done once a handle has been unlocked: nothing, the end of its destructor, or the construction
  from another handle in a move assignment.\<close>

datatype after_unlock = Keep | Destroyed | MovedFrom lock_handle

datatype program_point =
    Running
  | AtLock lock_handle
  | AtStore lock_handle
  | AtUnlock lock_handle after_unlock
  | AtErase

record SessionLock =
  sl_mutex :: "thread option"
  sl_lockedBy :: "thread option"
  sl_handles :: "thread \<Rightarrow> lock_handle \<Rightarrow> bool option"
  sl_at :: "thread \<Rightarrow> program_point"

definition SessionLock_new :: SessionLock where
  "SessionLock_new = \<lparr>sl_mutex = None, sl_lockedBy = None, sl_handles = (\<lambda>t h. None), sl_at = (\<lambda>t. Running)\<rparr>"

definition OwnsLock :: "thread \<Rightarrow> SessionLock \<Rightarrow> bool" where
  "OwnsLock t s = (sl_lockedBy s = Some t)"

definition set_lock_handle :: "thread \<Rightarrow> lock_handle \<Rightarrow> bool option \<Rightarrow> SessionLock \<Rightarrow> SessionLock" where
  "set_lock_handle t h v s = s\<lparr>sl_handles := (sl_handles s)(t := (sl_handles s t)(h := v))\<rparr>"

definition goto_point :: "thread \<Rightarrow> program_point \<Rightarrow> SessionLock \<Rightarrow> SessionLock" where
  "goto_point t p s = s\<lparr>sl_at := (sl_at s)(t := p)\<rparr>"

definition LockHandle_empty :: "thread \<Rightarrow> lock_handle \<Rightarrow> SessionLock \<Rightarrow> SessionLock" where
  "LockHandle_empty t h s = set_lock_handle t h (Some False) s"

text \<open>The constructor that locks: a thread that owns the lock gets an empty handle, any other goes on to the mutex.\<close>

definition LockHandle_Lock :: "thread \<Rightarrow> lock_handle \<Rightarrow> SessionLock \<Rightarrow> SessionLock" where
  "LockHandle_Lock t h s =
     (if OwnsLock t s then set_lock_handle t h (Some False) s else goto_point t (AtLock h) s)"

definition LockHandle_mutex_lock :: "thread \<Rightarrow> lock_handle \<Rightarrow> SessionLock \<Rightarrow> SessionLock option" where
  "LockHandle_mutex_lock t h s =
     (if sl_mutex s = None then Some (goto_point t (AtStore h) (s\<lparr>sl_mutex := Some t\<rparr>)) else None)"

definition LockHandle_store_owner :: "thread \<Rightarrow> lock_handle \<Rightarrow> SessionLock \<Rightarrow> SessionLock" where
  "LockHandle_store_owner t h s =
     goto_point t Running (set_lock_handle t h (Some True) (s\<lparr>sl_lockedBy := Some t\<rparr>))"

definition LockHandle_move :: "thread \<Rightarrow> lock_handle \<Rightarrow> lock_handle \<Rightarrow> SessionLock \<Rightarrow> SessionLock" where
  "LockHandle_move t h other s =
     set_lock_handle t other (Some False) (set_lock_handle t h (sl_handles s t other) s)"

definition after_unlocked :: "thread \<Rightarrow> lock_handle \<Rightarrow> after_unlock \<Rightarrow> SessionLock \<Rightarrow> SessionLock" where
  "after_unlocked t h k s =
     (case k of Keep \<Rightarrow> s | Destroyed \<Rightarrow> set_lock_handle t h None s | MovedFrom other \<Rightarrow> LockHandle_move t h other s)"

text \<open>\<open>Unlock()\<close>: only a handle that is not empty resets \<open>lockedBy\<close> and, in its next step, unlocks the mutex.\<close>

definition LockHandle_Unlock :: "thread \<Rightarrow> lock_handle \<Rightarrow> after_unlock \<Rightarrow> SessionLock \<Rightarrow> SessionLock" where
  "LockHandle_Unlock t h k s =
     (if sl_handles s t h = Some True then goto_point t (AtUnlock h k) (s\<lparr>sl_lockedBy := None\<rparr>)
      else after_unlocked t h k s)"

text \<open>Unlocking a mutex that another thread holds is undefined.\<close>

definition LockHandle_mutex_unlock :: "thread \<Rightarrow> lock_handle \<Rightarrow> after_unlock \<Rightarrow> SessionLock \<Rightarrow> SessionLock option" where
  "LockHandle_mutex_unlock t h k s =
     (if sl_mutex s = Some t
      then Some (after_unlocked t h k (goto_point t Running (set_lock_handle t h (Some False) (s\<lparr>sl_mutex := None\<rparr>))))
      else None)"

text \<open>The destructor of a database asserts that the lock is not owned; then it changes the map of the databases.\<close>

definition Database_destructor :: "thread \<Rightarrow> SessionLock \<Rightarrow> SessionLock option" where
  "Database_destructor t s = (if OwnsLock t s then None else Some (goto_point t AtErase s))"

datatype lock_op =
    NewEmpty lock_handle
  | NewLocked lock_handle
  | MoveNew lock_handle lock_handle
  | MoveAssign lock_handle lock_handle
  | CallUnlock lock_handle
  | Destroy lock_handle
  | DeleteDatabase

definition lock_call_possible :: "thread \<Rightarrow> lock_op \<Rightarrow> SessionLock \<Rightarrow> bool" where
  "lock_call_possible t c s =
     (case c of
        NewEmpty h \<Rightarrow> sl_handles s t h = None
      | NewLocked h \<Rightarrow> sl_handles s t h = None
      | MoveNew h other \<Rightarrow> sl_handles s t h = None \<and> sl_handles s t other \<noteq> None
      | MoveAssign h other \<Rightarrow> sl_handles s t h \<noteq> None \<and> sl_handles s t other \<noteq> None
      | CallUnlock h \<Rightarrow> sl_handles s t h \<noteq> None
      | Destroy h \<Rightarrow> sl_handles s t h \<noteq> None
      | DeleteDatabase \<Rightarrow> True)"

fun lock_call :: "thread \<Rightarrow> lock_op \<Rightarrow> SessionLock \<Rightarrow> SessionLock option" where
  "lock_call t (NewEmpty h) s = Some (LockHandle_empty t h s)"
| "lock_call t (NewLocked h) s = Some (LockHandle_Lock t h s)"
| "lock_call t (MoveNew h other) s = Some (LockHandle_move t h other s)"
| "lock_call t (MoveAssign h other) s = Some (LockHandle_Unlock t h (MovedFrom other) s)"
| "lock_call t (CallUnlock h) s = Some (LockHandle_Unlock t h Keep s)"
| "lock_call t (Destroy h) s = Some (LockHandle_Unlock t h Destroyed s)"
| "lock_call t DeleteDatabase s = Database_destructor t s"

text \<open>A step of a thread inside a call; a thread that waits for the mutex has none while it is taken.\<close>

definition lock_continue :: "thread \<Rightarrow> SessionLock \<Rightarrow> SessionLock option" where
  "lock_continue t s =
     (case sl_at s t of
        Running \<Rightarrow> None
      | AtLock h \<Rightarrow> LockHandle_mutex_lock t h s
      | AtStore h \<Rightarrow> Some (LockHandle_store_owner t h s)
      | AtUnlock h k \<Rightarrow> LockHandle_mutex_unlock t h k s
      | AtErase \<Rightarrow> Some (goto_point t Running s))"

inductive lock_reachable :: "SessionLock \<Rightarrow> bool" where
  start: "lock_reachable SessionLock_new"
| call: "lock_reachable s \<Longrightarrow> sl_at s t = Running \<Longrightarrow> lock_call_possible t c s \<Longrightarrow> lock_call t c s = Some s'
    \<Longrightarrow> lock_reachable s'"
| continue: "lock_reachable s \<Longrightarrow> lock_continue t s = Some s' \<Longrightarrow> lock_reachable s'"

section \<open>The handles of sessions\<close>

text \<open>A handle object holds the address of a session or null. A session that has no reference count does not exist
  (any more); using it stops the program. Handle 0 is \<open>globalSession\<close>.\<close>

type_synonym session_ref = nat
type_synonym session_handle = nat

record Handles =
  sh_refCount :: "session_ref \<Rightarrow> uint32_t option"
  sh_handles :: "session_handle \<Rightarrow> session_ref option option"

definition globalSession :: session_handle where
  "globalSession = 0"

definition Handles_new :: Handles where
  "Handles_new = \<lparr>sh_refCount = (\<lambda>s. None), sh_handles = [globalSession \<mapsto> None]\<rparr>"

definition set_handle :: "session_handle \<Rightarrow> session_ref option option \<Rightarrow> Handles \<Rightarrow> Handles" where
  "set_handle h v st = st\<lparr>sh_handles := (sh_handles st)(h := v)\<rparr>"

definition Session_Remember :: "session_ref \<Rightarrow> Handles \<Rightarrow> (Handles, unit) outcome" where
  "Session_Remember s st =
     (case sh_refCount st s of
        None \<Rightarrow> Stops
      | Some n \<Rightarrow> Returns () (st\<lparr>sh_refCount := (sh_refCount st)(s := Some (n + 1))\<rparr>))"

definition Session_Release :: "session_ref \<Rightarrow> Handles \<Rightarrow> (Handles, bool) outcome" where
  "Session_Release s st =
     (case sh_refCount st s of
        None \<Rightarrow> Stops
      | Some n \<Rightarrow>
          if n - 1 = 0 then Returns True (st\<lparr>sh_refCount := (sh_refCount st)(s := None)\<rparr>)
          else Returns False (st\<lparr>sh_refCount := (sh_refCount st)(s := Some (n - 1))\<rparr>))"

definition Handle_default :: "session_handle \<Rightarrow> Handles \<Rightarrow> (Handles, unit) outcome" where
  "Handle_default h st = Returns () (set_handle h (Some None) st)"

definition Handle_copy :: "session_handle \<Rightarrow> session_handle \<Rightarrow> Handles \<Rightarrow> (Handles, unit) outcome" where
  "Handle_copy h other st =
     (let st = set_handle h (sh_handles st other) st in
      case sh_handles st other of
        Some (Some s) \<Rightarrow> Session_Remember s st
      | _ \<Rightarrow> Returns () st)"

definition Handle_move :: "session_handle \<Rightarrow> session_handle \<Rightarrow> Handles \<Rightarrow> (Handles, unit) outcome" where
  "Handle_move h other st =
     Returns () (set_handle other (Some None) (set_handle h (sh_handles st other) st))"

text \<open>The body of the destructor; it leaves the memory of the handle as it is.\<close>

definition Handle_destructor :: "session_handle \<Rightarrow> Handles \<Rightarrow> (Handles, unit) outcome" where
  "Handle_destructor h st =
     (case sh_handles st h of
        Some (Some s) \<Rightarrow> andThen (Session_Release s st) (\<lambda>_ st. Returns () st)
      | _ \<Rightarrow> Returns () st)"

definition Handle_destroy :: "session_handle \<Rightarrow> Handles \<Rightarrow> (Handles, unit) outcome" where
  "Handle_destroy h st = andThen (Handle_destructor h st) (\<lambda>_ st. Returns () (set_handle h None st))"

definition Handle_copy_assign :: "session_handle \<Rightarrow> session_handle \<Rightarrow> Handles \<Rightarrow> (Handles, unit) outcome" where
  "Handle_copy_assign h other st = andThen (Handle_destructor h st) (\<lambda>_. Handle_copy h other)"

definition Handle_move_assign :: "session_handle \<Rightarrow> session_handle \<Rightarrow> Handles \<Rightarrow> (Handles, unit) outcome" where
  "Handle_move_assign h other st = andThen (Handle_destructor h st) (\<lambda>_. Handle_move h other)"

definition Handle_Reset :: "session_handle \<Rightarrow> Handles \<Rightarrow> (Handles, bool) outcome" where
  "Handle_Reset h st =
     (case sh_handles st h of
        Some (Some s) \<Rightarrow> andThen (Session_Release s st) (\<lambda>deleted st. Returns deleted (set_handle h (Some None) st))
      | _ \<Rightarrow> Returns False st)"

definition Session_Create :: "session_ref \<Rightarrow> session_handle \<Rightarrow> Handles \<Rightarrow> (Handles, unit) outcome" where
  "Session_Create s h st = Returns () (set_handle h (Some (Some s)) (st\<lparr>sh_refCount := (sh_refCount st)(s := Some 1)\<rparr>))"

definition is_set :: "session_handle \<Rightarrow> Handles \<Rightarrow> bool" where
  "is_set h st = (case sh_handles st h of Some (Some s) \<Rightarrow> True | _ \<Rightarrow> False)"

definition Session_GetGlobalSession :: "session_handle \<Rightarrow> Handles \<Rightarrow> (Handles, unit) outcome" where
  "Session_GetGlobalSession h st =
     andThen (throw_if (\<not> is_set globalSession st) EX_Exception st) (\<lambda>_. Handle_copy h globalSession)"

text \<open>\<open>tmp\<close> is the temporary that \<open>Create\<close> returns.\<close>

definition Session_Initialize :: "session_ref \<Rightarrow> session_handle \<Rightarrow> Handles \<Rightarrow> (Handles, unit) outcome" where
  "Session_Initialize s tmp st =
     andThen (throw_if (is_set globalSession st) EX_Exception st) (\<lambda>_ st.
     andThen (Session_Create s tmp st) (\<lambda>_ st.
     andThen (Handle_move_assign globalSession tmp st) (\<lambda>_ st. Handle_destroy tmp st)))"

definition Session_Shutdown :: "Handles \<Rightarrow> (Handles, unit) outcome" where
  "Session_Shutdown st =
     (if is_set globalSession st
      then andThen (Handle_Reset globalSession st) (\<lambda>deleted st. throw_if (\<not> deleted) EX_Exception st)
      else Returns () st)"

datatype handle_op =
    CallDefault session_handle
  | CallCopy session_handle session_handle
  | CallMove session_handle session_handle
  | CallDestroy session_handle
  | CallCopyAssign session_handle session_handle
  | CallMoveAssign session_handle session_handle
  | CallReset session_handle
  | CallCreate session_ref session_handle
  | CallGetGlobalSession session_handle
  | CallInitialize session_ref session_handle
  | CallShutdown

text \<open>A constructor gets fresh memory, the other operations an existing handle; \<open>globalSession\<close> lives as long as the program.\<close>

fun handle_call_possible :: "handle_op \<Rightarrow> Handles \<Rightarrow> bool" where
  "handle_call_possible (CallDefault h) st = (sh_handles st h = None)"
| "handle_call_possible (CallCopy h other) st = (sh_handles st h = None \<and> sh_handles st other \<noteq> None)"
| "handle_call_possible (CallMove h other) st = (sh_handles st h = None \<and> sh_handles st other \<noteq> None)"
| "handle_call_possible (CallDestroy h) st = (sh_handles st h \<noteq> None \<and> h \<noteq> globalSession)"
| "handle_call_possible (CallCopyAssign h other) st = (sh_handles st h \<noteq> None \<and> sh_handles st other \<noteq> None)"
| "handle_call_possible (CallMoveAssign h other) st = (sh_handles st h \<noteq> None \<and> sh_handles st other \<noteq> None)"
| "handle_call_possible (CallReset h) st = (sh_handles st h \<noteq> None)"
| "handle_call_possible (CallCreate s h) st = (sh_refCount st s = None \<and> sh_handles st h = None)"
| "handle_call_possible (CallGetGlobalSession h) st = (sh_handles st h = None)"
| "handle_call_possible (CallInitialize s tmp) st = (sh_refCount st s = None \<and> sh_handles st tmp = None)"
| "handle_call_possible CallShutdown st = True"

fun handle_call :: "handle_op \<Rightarrow> Handles \<Rightarrow> (Handles, unit) outcome" where
  "handle_call (CallDefault h) st = Handle_default h st"
| "handle_call (CallCopy h other) st = Handle_copy h other st"
| "handle_call (CallMove h other) st = Handle_move h other st"
| "handle_call (CallDestroy h) st = Handle_destroy h st"
| "handle_call (CallCopyAssign h other) st = Handle_copy_assign h other st"
| "handle_call (CallMoveAssign h other) st = Handle_move_assign h other st"
| "handle_call (CallReset h) st = andThen (Handle_Reset h st) (\<lambda>_ st. Returns () st)"
| "handle_call (CallCreate s h) st = Session_Create s h st"
| "handle_call (CallGetGlobalSession h) st = Session_GetGlobalSession h st"
| "handle_call (CallInitialize s tmp) st = Session_Initialize s tmp st"
| "handle_call CallShutdown st = Session_Shutdown st"

text \<open>Memory bounds the handles: there are fewer than the reference count can count.\<close>

inductive handles_reachable :: "Handles \<Rightarrow> bool" where
  start: "handles_reachable Handles_new"
| call: "handles_reachable st \<Longrightarrow> handle_call_possible c st
    \<Longrightarrow> handle_call c st = Returns () st' \<or> handle_call c st = Throws e st'
    \<Longrightarrow> card (dom (sh_handles st')) < 2 ^ 32 \<Longrightarrow> handles_reachable st'"

end
