(* ===== verification/Session_Properties.thy ===== *)
theory Session_Properties
  imports Session_Lock
begin

text \<open>
  The properties of Session\_Lock: the lock of a session excludes all threads but one in every interleaving and never
  waits for itself, and a session lives exactly as long as a handle refers to it.
\<close>

section \<open>The invariant of the lock\<close>

definition holds_lock :: "SessionLock \<Rightarrow> thread \<Rightarrow> lock_handle \<Rightarrow> bool" where
  "holds_lock s t h = (sl_handles s t h = Some True)"

definition thread_inv :: "SessionLock \<Rightarrow> thread \<Rightarrow> bool" where
  "thread_inv s t =
     (case sl_at s t of
        Running \<Rightarrow> (\<forall>h. holds_lock s t h \<longrightarrow> sl_lockedBy s = Some t)
      | AtLock h \<Rightarrow> sl_handles s t h = None \<and> (\<forall>h. \<not> holds_lock s t h)
      | AtStore h \<Rightarrow> sl_handles s t h = None \<and> (\<forall>h. \<not> holds_lock s t h) \<and> sl_mutex s = Some t
      | AtUnlock h k \<Rightarrow> holds_lock s t h \<and> sl_lockedBy s = None \<and> (\<forall>h'. k = MovedFrom h' \<longrightarrow> sl_handles s t h' \<noteq> None)
      | AtErase \<Rightarrow> (\<forall>h. \<not> holds_lock s t h))"

definition lock_inv :: "SessionLock \<Rightarrow> bool" where
  "lock_inv s =
     ((\<forall>t h. holds_lock s t h \<longrightarrow> sl_mutex s = Some t) \<and>
      (\<forall>t h h'. holds_lock s t h \<longrightarrow> holds_lock s t h' \<longrightarrow> h = h') \<and>
      (\<forall>t. sl_lockedBy s = Some t \<longrightarrow> (\<exists>h. holds_lock s t h)) \<and>
      (\<forall>t. sl_mutex s = Some t \<longrightarrow> (\<exists>h. sl_at s t = AtStore h) \<or> (\<exists>h. holds_lock s t h)) \<and>
      (\<forall>t. thread_inv s t))"

lemmas lock_simps = holds_lock_def thread_inv_def set_lock_handle_def goto_point_def OwnsLock_def

lemma lock_inv_new: "lock_inv SessionLock_new"
  by (simp add: lock_inv_def SessionLock_new_def lock_simps)

lemma lock_invD:
  assumes "lock_inv s"
  shows "holds_lock s t h \<Longrightarrow> sl_mutex s = Some t"
    and "holds_lock s t h \<Longrightarrow> holds_lock s u h' \<Longrightarrow> u = t \<and> h' = h"
    and "sl_lockedBy s = Some t \<Longrightarrow> \<exists>h. holds_lock s t h"
    and "sl_mutex s = Some t \<Longrightarrow> (\<exists>h. sl_at s t = AtStore h) \<or> (\<exists>h. holds_lock s t h)"
    and "thread_inv s t"
proof -
  show "holds_lock s t h \<Longrightarrow> holds_lock s u h' \<Longrightarrow> u = t \<and> h' = h"
    using assms unfolding lock_inv_def by (metis option.inject)
qed (use assms in \<open>auto simp: lock_inv_def\<close>)

lemma lock_invI:
  assumes "\<And>t h. holds_lock s t h \<Longrightarrow> sl_mutex s = Some t"
    and "\<And>t h h'. holds_lock s t h \<Longrightarrow> holds_lock s t h' \<Longrightarrow> h = h'"
    and "\<And>t. sl_lockedBy s = Some t \<Longrightarrow> \<exists>h. holds_lock s t h"
    and "\<And>t. sl_mutex s = Some t \<Longrightarrow> (\<exists>h. sl_at s t = AtStore h) \<or> (\<exists>h. holds_lock s t h)"
    and "\<And>t. thread_inv s t"
  shows "lock_inv s"
  unfolding lock_inv_def using assms by blast

text \<open>A change that leaves the mutex, its owner and the holding handles as they are.\<close>

lemma lock_inv_frame:
  assumes inv: "lock_inv s"
    and m: "sl_mutex s' = sl_mutex s" and l: "sl_lockedBy s' = sl_lockedBy s"
    and h: "\<And>u g. holds_lock s' u g = holds_lock s u g"
    and a: "\<And>u g. sl_at s u = AtStore g \<Longrightarrow> sl_at s' u = AtStore g"
    and i: "\<And>u. thread_inv s' u"
  shows "lock_inv s'"
proof (rule lock_invI)
  show "sl_mutex s' = Some t" if "holds_lock s' t g" for t g
    using that lock_invD(1) [OF inv] unfolding m h by blast
  show "g = g'" if "holds_lock s' t g" "holds_lock s' t g'" for t g g'
    using that lock_invD(2) [OF inv, of t g t g'] unfolding h by blast
  show "\<exists>g. holds_lock s' t g" if "sl_lockedBy s' = Some t" for t
    using that lock_invD(3) [OF inv] unfolding l h by blast
  show "(\<exists>g. sl_at s' t = AtStore g) \<or> (\<exists>g. holds_lock s' t g)" if "sl_mutex s' = Some t" for t
    using that lock_invD(4) [OF inv, of t] a unfolding m h by blast
qed (rule i)

text \<open>Setting a handle that does not hold the lock to a value that does not either.\<close>

lemma lock_inv_set_handle:
  assumes "lock_inv s" "\<not> holds_lock s t h" "v \<noteq> Some True"
    and "v = None \<longrightarrow> (\<forall>g. sl_at s t \<noteq> AtUnlock g (MovedFrom h))" "sl_at s t = AtLock h \<or> sl_at s t = AtStore h \<longrightarrow> v = None"
  shows "lock_inv (set_lock_handle t h v s)"
proof -
  have h: "holds_lock (set_lock_handle t h v s) u g = holds_lock s u g" for u g
    using assms(2,3) by (auto simp: lock_simps)
  have i: "thread_inv (set_lock_handle t h v s) u" for u
    using lock_invD(5) [OF assms(1), of u] assms(4,5) h
    by (auto simp: thread_inv_def set_lock_handle_def split: program_point.splits)
  have f: "sl_mutex (set_lock_handle t h v s) = sl_mutex s" "sl_lockedBy (set_lock_handle t h v s) = sl_lockedBy s"
    "sl_at (set_lock_handle t h v s) = sl_at s"
    by (simp_all add: set_lock_handle_def)
  show ?thesis
    by (rule lock_inv_frame [OF assms(1) f(1,2) h _ i]) (simp add: f(3))
qed

lemma lock_inv_move:
  assumes "lock_inv s" "sl_at s t = Running" "\<not> holds_lock s t h" "sl_handles s t other \<noteq> None"
  shows "lock_inv (LockHandle_move t h other s)"
proof (cases "holds_lock s t other")
  case False
  then have "lock_inv (set_lock_handle t h (sl_handles s t other) s)"
    using assms by (intro lock_inv_set_handle) (auto simp: holds_lock_def)
  then show ?thesis
    unfolding LockHandle_move_def using False assms
    by (intro lock_inv_set_handle) (auto simp: lock_simps)
next
  case True
  have o: "holds_lock s u g = (u = t \<and> g = other)" for u g
    using True lock_invD(2) [OF assms(1) True, of u g] by blast
  have "h \<noteq> other" using True assms(3) by blast
  moreover have e: "(sl_handles s u g = Some True) = (u = t \<and> g = other)" for u g
    using o unfolding holds_lock_def .
  ultimately have h: "holds_lock (LockHandle_move t h other s) u g = (u = t \<and> g = h)" for u g
    by (simp add: holds_lock_def LockHandle_move_def set_lock_handle_def e)
  have l: "sl_lockedBy s = Some t"
    using True assms(2) lock_invD(5) [OF assms(1), of t] by (auto simp: thread_inv_def)
  have "thread_inv (LockHandle_move t h other s) u" for u
    using lock_invD(5) [OF assms(1), of u] assms(2)
    by (simp add: thread_inv_def h o l split: program_point.splits)
      (auto simp: LockHandle_move_def set_lock_handle_def l)
  moreover have "sl_mutex (LockHandle_move t h other s) = Some t" "sl_lockedBy (LockHandle_move t h other s) = Some t"
    using lock_invD(1) [OF assms(1) True] l by (simp_all add: LockHandle_move_def set_lock_handle_def)
  ultimately show ?thesis
    by (intro lock_invI) (simp_all add: h)
qed

lemma lock_inv_goto:
  assumes "lock_inv s" "sl_at s t = Running" "\<forall>h. \<not> holds_lock s t h"
    and "p = AtErase \<or> p = AtLock g \<and> sl_handles s t g = None"
  shows "lock_inv (goto_point t p s)"
proof -
  have h: "holds_lock (goto_point t p s) u g = holds_lock s u g" for u g by (simp add: lock_simps)
  have i: "thread_inv (goto_point t p s) u" for u
    using lock_invD(5) [OF assms(1), of u] assms(2-4) h
    by (auto simp: thread_inv_def goto_point_def split: program_point.splits)
  have f: "sl_mutex (goto_point t p s) = sl_mutex s" "sl_lockedBy (goto_point t p s) = sl_lockedBy s"
    "\<And>u g. sl_at s u = AtStore g \<Longrightarrow> sl_at (goto_point t p s) u = AtStore g"
    using assms(2) by (auto simp: goto_point_def)
  show ?thesis
    by (rule lock_inv_frame [OF assms(1) f(1,2) h _ i]) (rule f(3))
qed

lemma running_owns:
  assumes "lock_inv s" "sl_at s t = Running"
  shows "OwnsLock t s \<longleftrightarrow> (\<exists>h. holds_lock s t h)"
  using lock_invD(3) [OF assms(1), of t] lock_invD(5) [OF assms(1), of t] assms(2)
  by (auto simp: OwnsLock_def thread_inv_def)

lemma lock_inv_after_unlocked:
  assumes "lock_inv s" "sl_at s t = Running" "\<not> holds_lock s t h" "\<And>h'. k = MovedFrom h' \<Longrightarrow> sl_handles s t h' \<noteq> None"
  shows "lock_inv (after_unlocked t h k s)"
  using assms lock_inv_move [OF assms(1-3)]
  by (cases k) (auto simp: after_unlocked_def intro!: lock_inv_set_handle)

lemma lock_inv_begin_unlock:
  assumes inv: "lock_inv s" and r: "sl_at s t = Running" and t: "holds_lock s t h"
    and k: "\<And>h'. k = MovedFrom h' \<Longrightarrow> sl_handles s t h' \<noteq> None"
  shows "lock_inv (goto_point t (AtUnlock h k) (s\<lparr>sl_lockedBy := None\<rparr>))" (is "lock_inv ?s")
proof (rule lock_invI)
  have h: "holds_lock ?s u g = holds_lock s u g" for u g by (simp add: lock_simps)
  have o: "holds_lock s u g = (u = t \<and> g = h)" for u g
    using t lock_invD(2) [OF inv t, of u g] by blast
  have m: "sl_mutex s = Some t" by (rule lock_invD(1) [OF inv t])
  show "sl_mutex ?s = Some u" if "holds_lock ?s u g" for u g
    using that m by (simp add: h o) (simp add: goto_point_def)
  show "g = g'" if "holds_lock ?s u g" "holds_lock ?s u g'" for u g g'
    using that by (simp add: h o)
  show "\<exists>g. holds_lock ?s u g" if "sl_lockedBy ?s = Some u" for u
    using that by (simp add: goto_point_def)
  show "(\<exists>g. sl_at ?s u = AtStore g) \<or> (\<exists>g. holds_lock ?s u g)" if "sl_mutex ?s = Some u" for u
    using that m by (simp add: h o) (simp add: goto_point_def)
  show "thread_inv ?s u" for u
  proof (cases "u = t")
    case True
    then show ?thesis using k t h by (simp add: thread_inv_def goto_point_def holds_lock_def)
  next
    case False
    then have "\<not> holds_lock s u g" for g by (simp add: o)
    then show ?thesis
      using False lock_invD(5) [OF inv, of u] h
      by (simp add: thread_inv_def split: program_point.splits) (auto simp: goto_point_def)
  qed
qed

lemma lock_inv_Unlock:
  assumes "lock_inv s" "sl_at s t = Running" "\<And>h'. k = MovedFrom h' \<Longrightarrow> sl_handles s t h' \<noteq> None"
  shows "lock_inv (LockHandle_Unlock t h k s)"
  using lock_inv_begin_unlock [OF assms(1,2) _ assms(3)] lock_inv_after_unlocked [OF assms(1,2) _ assms(3)]
  by (auto simp: LockHandle_Unlock_def holds_lock_def)

lemma lock_inv_call:
  assumes "lock_inv s" "sl_at s t = Running" "lock_call_possible t c s" "lock_call t c s = Some s'"
  shows "lock_inv s'"
proof (cases c)
  case (NewEmpty h)
  then show ?thesis
    using assms by (auto simp: LockHandle_empty_def lock_call_possible_def holds_lock_def intro!: lock_inv_set_handle)
next
  case (NewLocked h)
  then show ?thesis
    using assms running_owns [OF assms(1,2)]
    by (auto simp: LockHandle_Lock_def lock_call_possible_def holds_lock_def split: if_splits
        intro!: lock_inv_set_handle lock_inv_goto)
next
  case (MoveNew h other)
  then show ?thesis
    using assms by (auto simp: lock_call_possible_def holds_lock_def intro!: lock_inv_move)
next
  case DeleteDatabase
  then show ?thesis
    using assms running_owns [OF assms(1,2)]
    by (auto simp: Database_destructor_def split: if_splits intro!: lock_inv_goto)
qed (use assms in \<open>auto simp: lock_call_possible_def intro!: lock_inv_Unlock\<close>)

lemma lock_inv_mutex_lock:
  assumes inv: "lock_inv s" and at: "sl_at s t = AtLock h" and m: "sl_mutex s = None"
  shows "lock_inv (goto_point t (AtStore h) (s\<lparr>sl_mutex := Some t\<rparr>))" (is "lock_inv ?s")
proof (rule lock_invI)
  have n: "\<not> holds_lock s u g" for u g
    using lock_invD(1) [OF inv, of u g] m by auto
  have h: "\<not> holds_lock ?s u g" for u g using n by (simp add: lock_simps)
  show "sl_mutex ?s = Some u" "g = g'" if "holds_lock ?s u g" for u g g' using that h by simp_all
  show "\<exists>g. holds_lock ?s u g" if "sl_lockedBy ?s = Some u" for u
    using that lock_invD(3) [OF inv, of u] n by (simp add: goto_point_def)
  show "(\<exists>g. sl_at ?s u = AtStore g) \<or> (\<exists>g. holds_lock ?s u g)" if "sl_mutex ?s = Some u" for u
    using that by (simp add: goto_point_def)
  show "thread_inv ?s u" for u
  proof (cases "u = t")
    case True
    then show ?thesis using lock_invD(5) [OF inv, of t] at h by (simp add: thread_inv_def) (simp add: goto_point_def)
  next
    case False
    then show ?thesis
      using lock_invD(5) [OF inv, of u] h n m by (simp add: thread_inv_def goto_point_def split: program_point.splits)
  qed
qed

lemma lock_inv_store_owner:
  assumes inv: "lock_inv s" and at: "sl_at s t = AtStore h"
  shows "lock_inv (LockHandle_store_owner t h s)" (is "lock_inv ?s")
proof (rule lock_invI)
  have m: "sl_mutex s = Some t" and nt: "\<not> holds_lock s t g" for g
    using lock_invD(5) [OF inv, of t] at by (auto simp: thread_inv_def)
  have n: "\<not> holds_lock s u g" for u g
    using lock_invD(1) [OF inv, of u g] m nt by auto
  have h: "holds_lock ?s u g = (u = t \<and> g = h)" for u g
    using n by (auto simp: LockHandle_store_owner_def lock_simps)
  have m': "sl_mutex ?s = Some t" "sl_lockedBy ?s = Some t"
    using m by (simp_all add: LockHandle_store_owner_def goto_point_def set_lock_handle_def)
  show "sl_mutex ?s = Some u" if "holds_lock ?s u g" for u g using that m' by (simp add: h)
  show "g = g'" if "holds_lock ?s u g" "holds_lock ?s u g'" for u g g' using that by (simp add: h)
  show "\<exists>g. holds_lock ?s u g" if "sl_lockedBy ?s = Some u" for u
    using that m' h [of u h] by auto
  show "(\<exists>g. sl_at ?s u = AtStore g) \<or> (\<exists>g. holds_lock ?s u g)" if "sl_mutex ?s = Some u" for u
    using that m' h [of u h] by auto
  show "thread_inv ?s u" for u
  proof (cases "u = t")
    case True
    then show ?thesis using m' by (simp add: thread_inv_def) (simp add: LockHandle_store_owner_def goto_point_def)
  next
    case False
    then show ?thesis
      using lock_invD(5) [OF inv, of u] n m
      by (simp add: thread_inv_def h split: program_point.splits)
        (auto simp: LockHandle_store_owner_def goto_point_def set_lock_handle_def)
  qed
qed

lemma lock_inv_mutex_unlock:
  assumes inv: "lock_inv s" and at: "sl_at s t = AtUnlock h k"
  shows "lock_inv (goto_point t Running (set_lock_handle t h (Some False) (s\<lparr>sl_mutex := None\<rparr>)))" (is "lock_inv ?s")
proof (rule lock_invI)
  have t: "holds_lock s t h" and l: "sl_lockedBy s = None"
    using lock_invD(5) [OF inv, of t] at by (auto simp: thread_inv_def)
  have o: "holds_lock s u g = (u = t \<and> g = h)" for u g
    using t lock_invD(2) [OF inv t, of u g] by blast
  have m: "sl_mutex s = Some t" by (rule lock_invD(1) [OF inv t])
  have h: "\<not> holds_lock ?s u g" for u g
    using o [of u g] by (auto simp: lock_simps)
  have m': "sl_mutex ?s = None" "sl_lockedBy ?s = None"
    using l by (simp_all add: goto_point_def set_lock_handle_def)
  show "sl_mutex ?s = Some u" "g = g'" if "holds_lock ?s u g" for u g g' using that h by simp_all
  show "\<exists>g. holds_lock ?s u g" if "sl_lockedBy ?s = Some u" for u using that m' by simp
  show "(\<exists>g. sl_at ?s u = AtStore g) \<or> (\<exists>g. holds_lock ?s u g)" if "sl_mutex ?s = Some u" for u
    using that m' by simp
  show "thread_inv ?s u" for u
  proof (cases "u = t")
    case True
    then show ?thesis using h by (simp add: thread_inv_def) (simp add: goto_point_def)
  next
    case False
    then show ?thesis
      using lock_invD(5) [OF inv, of u] m o h
      by (simp add: thread_inv_def split: program_point.splits) (auto simp: goto_point_def set_lock_handle_def)
  qed
qed

lemma lock_inv_erased:
  assumes inv: "lock_inv s" and at: "sl_at s t = AtErase"
  shows "lock_inv (goto_point t Running s)"
proof -
  have h: "holds_lock (goto_point t Running s) u g = holds_lock s u g" for u g by (simp add: lock_simps)
  have i: "thread_inv (goto_point t Running s) u" for u
    using lock_invD(5) [OF inv, of u] lock_invD(5) [OF inv, of t] at h
    by (auto simp: thread_inv_def goto_point_def split: program_point.splits)
  have f: "sl_mutex (goto_point t Running s) = sl_mutex s" "sl_lockedBy (goto_point t Running s) = sl_lockedBy s"
    "\<And>u g. sl_at s u = AtStore g \<Longrightarrow> sl_at (goto_point t Running s) u = AtStore g"
    using at by (auto simp: goto_point_def)
  show ?thesis
    by (rule lock_inv_frame [OF inv f(1,2) h _ i]) (rule f(3))
qed

lemma lock_inv_continue:
  assumes inv: "lock_inv s" and step: "lock_continue t s = Some s'"
  shows "lock_inv s'"
proof (cases "sl_at s t")
  case (AtUnlock h k)
  let ?u = "goto_point t Running (set_lock_handle t h (Some False) (s\<lparr>sl_mutex := None\<rparr>))"
  have s': "s' = after_unlocked t h k ?u"
    using step AtUnlock by (simp add: lock_continue_def LockHandle_mutex_unlock_def split: if_splits)
  have k: "sl_handles ?u t h' \<noteq> None" if "k = MovedFrom h'" for h'
    using that lock_invD(5) [OF inv, of t] AtUnlock by (auto simp: thread_inv_def goto_point_def set_lock_handle_def)
  show ?thesis
    unfolding s' by (rule lock_inv_after_unlocked [OF lock_inv_mutex_unlock [OF inv AtUnlock]])
      (use k in \<open>auto simp: lock_simps\<close>)
qed (use assms in \<open>auto simp: lock_continue_def LockHandle_mutex_lock_def split: if_splits
    intro: lock_inv_mutex_lock lock_inv_store_owner lock_inv_erased\<close>)

lemma lock_reachable_inv: "lock_reachable s \<Longrightarrow> lock_inv s"
  by (induction rule: lock_reachable.induct) (auto intro: lock_inv_new lock_inv_call lock_inv_continue)

section \<open>Runs of threads\<close>

text \<open>A schedule: the thread that moves, and the call it begins or None when it goes on with the one it is in.\<close>

fun lock_run :: "(thread \<times> lock_op option) list \<Rightarrow> SessionLock \<Rightarrow> SessionLock option" where
  "lock_run [] s = Some s"
| "lock_run ((t, c) # es) s =
     (case (case c of
              None \<Rightarrow> lock_continue t s
            | Some c \<Rightarrow> if sl_at s t = Running \<and> lock_call_possible t c s then lock_call t c s else None) of
        None \<Rightarrow> None
      | Some s \<Rightarrow> lock_run es s)"

lemma lock_run_reachable:
  "lock_reachable s \<Longrightarrow> lock_run es s = Some s' \<Longrightarrow> lock_reachable s'"
proof (induction es s rule: lock_run.induct)
  case (2 t c es s)
  then show ?case
    by (cases c) (auto split: option.splits if_splits
        intro: lock_reachable.call lock_reachable.continue)
qed simp

definition waits_only_for_others :: "SessionLock \<Rightarrow> thread \<Rightarrow> bool" where
  "waits_only_for_others s t =
     (\<exists>u. u \<noteq> t \<and> sl_mutex s = Some u \<and>
        (lock_continue u s \<noteq> None \<or> sl_at s u = Running \<and> (\<exists>g. holds_lock s u g)))"

lemma lock_waiting:
  assumes inv: "lock_inv s" and at: "sl_at s t = AtLock h" and w: "lock_continue t s = None"
  shows "waits_only_for_others s t"
proof -
  obtain u where m: "sl_mutex s = Some u"
    using at w by (auto simp: lock_continue_def LockHandle_mutex_lock_def split: if_splits)
  have t: "\<not> holds_lock s t g" for g
    using lock_invD(5) [OF inv, of t] at by (simp add: thread_inv_def)
  have u: "(\<exists>g. sl_at s u = AtStore g) \<or> (\<exists>g. holds_lock s u g)"
    by (rule lock_invD(4) [OF inv m])
  then have "u \<noteq> t" using t at by auto
  moreover have "lock_continue u s \<noteq> None \<or> sl_at s u = Running \<and> (\<exists>g. holds_lock s u g)"
    using u lock_invD(5) [OF inv, of u] m
    by (cases "sl_at s u") (auto simp: lock_continue_def thread_inv_def LockHandle_mutex_unlock_def)
  ultimately show ?thesis
    using m by (auto simp: waits_only_for_others_def)
qed

text \<open>C25: In every interleaving of the threads that share a session at most one lock handle of one thread holds the lock; a
  thread outside of the lock's own functions owns the lock exactly when it has such a handle, so its nested Lock() returns
  at once with an empty handle; a handle that is being unlocked belongs to the owner of the mutex; and a thread waits
  only for another one that can go on.\<close>

theorem session_lock_exclusive:
  assumes "lock_reachable s"
  shows "(\<forall>t h u g. holds_lock s t h \<and> holds_lock s u g \<longrightarrow> u = t \<and> g = h)
    \<and> (\<forall>t. sl_at s t = Running \<longrightarrow> OwnsLock t s = (\<exists>h. holds_lock s t h))
    \<and> (\<forall>t h. OwnsLock t s \<longrightarrow> LockHandle_Lock t h s = LockHandle_empty t h s)
    \<and> (\<forall>t h k. sl_at s t = AtUnlock h k \<longrightarrow> LockHandle_mutex_unlock t h k s \<noteq> None)
    \<and> (\<forall>t h. sl_at s t = AtLock h \<and> lock_continue t s = None \<longrightarrow> waits_only_for_others s t)"
proof (intro conjI allI impI)
  have inv: "lock_inv s" by (rule lock_reachable_inv [OF assms])
  show "u = t" "g = h" if "holds_lock s t h \<and> holds_lock s u g" for t h u g
    using that lock_invD(2) [OF inv, of t h u g] by simp_all
  show "OwnsLock t s = (\<exists>h. holds_lock s t h)" if "sl_at s t = Running" for t
    by (rule running_owns [OF inv that])
  show "LockHandle_Lock t h s = LockHandle_empty t h s" if "OwnsLock t s" for t h
    using that by (simp add: LockHandle_Lock_def LockHandle_empty_def)
  show "LockHandle_mutex_unlock t h k s \<noteq> None" if "sl_at s t = AtUnlock h k" for t h k
    using that lock_invD(5) [OF inv, of t] lock_invD(1) [OF inv, of t h]
    by (simp add: thread_inv_def LockHandle_mutex_unlock_def)
  show "waits_only_for_others s t" if "sl_at s t = AtLock h \<and> lock_continue t s = None" for t h
    using that lock_waiting [OF inv] by blast
qed

definition contended_lock :: SessionLock where
  "contended_lock = the (lock_run [(1, Some (NewLocked 0)), (2, Some (NewLocked 0)), (1, None), (1, None)] SessionLock_new)"

lemmas lock_run_simps = SessionLock_new_def lock_call_possible_def LockHandle_Lock_def OwnsLock_def goto_point_def
  lock_continue_def LockHandle_mutex_lock_def LockHandle_store_owner_def set_lock_handle_def LockHandle_Unlock_def
  LockHandle_mutex_unlock_def after_unlocked_def Database_destructor_def

lemma contended_lock_reachable: "lock_reachable contended_lock"
proof (rule lock_run_reachable [OF lock_reachable.start])
  show "lock_run [(1, Some (NewLocked 0)), (2, Some (NewLocked 0)), (1, None), (1, None)] SessionLock_new = Some contended_lock"
    by (simp add: contended_lock_def lock_run_simps)
qed

theorem session_lock_exclusive_witness: "waits_only_for_others contended_lock 2"
proof -
  have "sl_at contended_lock 2 = AtLock 0 \<and> lock_continue 2 contended_lock = None"
    by (simp add: contended_lock_def lock_run_simps)
  then show ?thesis
    using session_lock_exclusive [OF contended_lock_reachable] by blast
qed

text \<open>Database::Close unlocks the session before it deletes the database, and the destructor changes the map of the opened
  databases: two threads that close databases of a session change the map at the same time, and one can do so while another
  thread owns the lock.\<close>

lemma database_erased_without_lock:
  "\<exists>s. lock_reachable s \<and> sl_at s 1 = AtErase \<and> OwnsLock 2 s"
  "\<exists>s. lock_reachable s \<and> sl_at s 1 = AtErase \<and> sl_at s 2 = AtErase"
proof -
  let ?close = "\<lambda>t. [(t, Some (NewLocked 0)), (t, None), (t, None), (t, Some (CallUnlock 0)), (t, None), (t, Some DeleteDatabase)]"
  let ?s = "the (lock_run (?close 1 @ [(2, Some (NewLocked 0)), (2, None), (2, None)]) SessionLock_new)"
  have "lock_run (?close 1 @ [(2, Some (NewLocked 0)), (2, None), (2, None)]) SessionLock_new = Some ?s"
    by (simp add: lock_run_simps)
  then have "lock_reachable ?s" by (rule lock_run_reachable [OF lock_reachable.start])
  moreover have "sl_at ?s 1 = AtErase \<and> OwnsLock 2 ?s" by (simp add: lock_run_simps)
  ultimately show "\<exists>s. lock_reachable s \<and> sl_at s 1 = AtErase \<and> OwnsLock 2 s" by blast
  let ?s = "the (lock_run (?close 1 @ ?close 2) SessionLock_new)"
  have "lock_run (?close 1 @ ?close 2) SessionLock_new = Some ?s"
    by (simp add: lock_run_simps)
  then have "lock_reachable ?s" by (rule lock_run_reachable [OF lock_reachable.start])
  moreover have "sl_at ?s 1 = AtErase \<and> sl_at ?s 2 = AtErase" by (simp add: lock_run_simps)
  ultimately show "\<exists>s. lock_reachable s \<and> sl_at s 1 = AtErase \<and> sl_at s 2 = AtErase" by blast
qed

section \<open>The counting of handles\<close>

definition referring :: "Handles \<Rightarrow> session_ref \<Rightarrow> session_handle set" where
  "referring st s = {h. sh_handles st h = Some (Some s)}"

definition handles_inv :: "Handles \<Rightarrow> bool" where
  "handles_inv st =
     (finite (dom (sh_handles st)) \<and> sh_handles st globalSession \<noteq> None \<and>
      (\<forall>s. sh_refCount st s = (if referring st s = {} then None else Some (of_nat (card (referring st s))))))"

definition set_count :: "session_ref \<Rightarrow> uint32_t option \<Rightarrow> Handles \<Rightarrow> Handles" where
  "set_count s n st = st\<lparr>sh_refCount := (sh_refCount st)(s := n)\<rparr>"

lemma set_handle_simps [simp]:
  "sh_handles (set_handle h v st) = (sh_handles st)(h := v)"
  "sh_refCount (set_handle h v st) = sh_refCount st"
  "set_handle h v (set_handle h w st) = set_handle h v st"
  "sh_handles (set_count s n st) = sh_handles st"
  "sh_refCount (set_count s n st) = (sh_refCount st)(s := n)"
  by (simp_all add: set_handle_def set_count_def)

lemma set_handle_count: "set_handle h v (set_count s n st) = set_count s n (set_handle h v st)"
  by (simp add: set_handle_def set_count_def)

lemma set_handle_same: "sh_handles st h = v \<Longrightarrow> set_handle h v st = st"
  by (auto simp: set_handle_def)

lemma referring_set_count [simp]: "referring (set_count s n st) = referring st"
  by (rule ext) (simp add: referring_def)

lemma referring_set_handle [simp]:
  "referring (set_handle h v st) s = (if v = Some (Some s) then insert h (referring st s) else referring st s - {h})"
  by (auto simp: referring_def)

lemma in_referring [simp]: "h \<in> referring st s \<longleftrightarrow> sh_handles st h = Some (Some s)"
  by (simp add: referring_def)

lemma handles_inv_finite:
  assumes "handles_inv st"
  shows "finite (referring st s)" "card (referring st s) \<le> card (dom (sh_handles st))"
proof -
  have "referring st s \<subseteq> dom (sh_handles st)" by auto
  then show "finite (referring st s)" "card (referring st s) \<le> card (dom (sh_handles st))"
    using assms by (auto simp: handles_inv_def intro: finite_subset card_mono)
qed

lemma handles_invD:
  assumes "handles_inv st"
  shows "sh_refCount st s = (if referring st s = {} then None else Some (of_nat (card (referring st s))))"
    and "sh_handles st globalSession \<noteq> None"
  using assms by (simp_all add: handles_inv_def)

lemma handles_inv_null:
  assumes "handles_inv st" "sh_handles st h = None \<or> sh_handles st h = Some None" "v = Some None \<or> v = None \<and> h \<noteq> globalSession"
  shows "handles_inv (set_handle h v st)"
proof -
  have "referring st s - {h} = referring st s" for s using assms(2) by auto
  then show ?thesis using assms by (auto simp: handles_inv_def)
qed

lemma handles_inv_add:
  assumes "handles_inv st" "\<forall>s. sh_handles st h \<noteq> Some (Some s)"
    and "case sh_refCount st s of None \<Rightarrow> n = 1 | Some m \<Rightarrow> n = m + 1"
  shows "handles_inv (set_count s (Some n) (set_handle h (Some (Some s)) st))"
proof -
  have "referring st s' - {h} = referring st s'" for s' using assms(2) by auto
  moreover have "n = of_nat (card (insert h (referring st s)))"
    using assms handles_invD(1) [OF assms(1), of s] handles_inv_finite(1) [OF assms(1), of s]
    by (simp split: if_splits add: add.commute)
  ultimately show ?thesis using assms(1) by (auto simp: handles_inv_def)
qed

lemma handles_inv_move:
  assumes "handles_inv (set_handle h (Some None) st)" "sh_handles st other \<noteq> None"
  shows "handles_inv (set_handle other (Some None) (set_handle h (sh_handles st other) st))"
proof (cases "h = other \<or> sh_handles st other = Some None")
  case True
  then show ?thesis
    using assms handles_inv_null [OF assms(1), of other "Some None"] by auto
next
  case False
  then obtain s where s: "sh_handles st other = Some (Some s)" using assms(2) by (cases "sh_handles st other") auto
  let ?st = "set_handle h (Some None) st"
  let ?st' = "set_handle other (Some None) (set_handle h (sh_handles st other) st)"
  have o: "other \<in> referring ?st s" "h \<notin> referring ?st s" using False s by auto
  have r: "referring ?st' s' = (if s' = s then insert h (referring ?st s - {other}) else referring ?st s')" for s'
    using s False by auto
  have "card (referring ?st' s) = card (referring ?st s)"
    using o handles_inv_finite(1) [OF assms(1), of s] unfolding r
    by (simp only: simp_thms if_True card_insert_disjoint finite_Diff Diff_iff not_False_eq_True card_Suc_Diff1)
  moreover have "referring ?st' s \<noteq> {}" "referring ?st s \<noteq> {}" using r [of s] o by auto
  ultimately have "sh_refCount ?st' s' = (if referring ?st' s' = {} then None else Some (of_nat (card (referring ?st' s'))))" for s'
    using handles_invD(1) [OF assms(1), of s'] r [of s'] by (cases "s' = s") (simp_all del: referring_set_handle)
  moreover have "finite (dom (sh_handles ?st'))" "sh_handles ?st' globalSession \<noteq> None"
    using assms by (auto simp: handles_inv_def)
  ultimately show ?thesis
    unfolding handles_inv_def by blast
qed

lemma session_release_inv:
  assumes inv: "handles_inv st" and h: "sh_handles st h = Some (Some s)" and b: "card (dom (sh_handles st)) < 2 ^ 32"
  shows "\<exists>n. Session_Release s st = Returns (referring st s = {h}) (set_count s n st)
    \<and> (n = None) = (referring st s = {h}) \<and> handles_inv (set_handle h (Some None) (set_count s n st))"
proof -
  let ?k = "card (referring st s)" and ?n = "if referring st s = {h} then None else Some (of_nat (card (referring st s - {h})) :: uint32_t)"
  have f: "finite (referring st s)" and m: "h \<in> referring st s" using handles_inv_finite [OF inv] h by simp_all
  have k: "?k = Suc (card (referring st s - {h}))" by (rule card.remove [OF f m])
  have c: "sh_refCount st s = Some (of_nat ?k)" using handles_invD(1) [OF inv, of s] m by (auto simp del: in_referring)
  have "card (referring st s - {h}) < 2 ^ 32"
    using k handles_inv_finite(2) [OF inv, of s] b by linarith
  then have z: "of_nat (card (referring st s - {h})) = (0 :: uint32_t) \<longleftrightarrow> card (referring st s - {h}) = 0"
    by (simp add: word_of_nat_eq_0_iff nat_dvd_not_less) (auto dest: nat_dvd_not_less)
  have e: "card (referring st s - {h}) = 0 \<longleftrightarrow> referring st s = {h}"
    using f m by (metis card_eq_0_iff finite_Diff insert_Diff insert_absorb Diff_cancel)
  have w: "of_nat ?k - 1 = (of_nat (card (referring st s - {h})) :: uint32_t)" unfolding k by simp
  have "Session_Release s st = Returns (referring st s = {h}) (set_count s ?n st)"
    using c w z e by (simp add: Session_Release_def set_count_def)
  moreover have "handles_inv (set_handle h (Some None) (set_count s ?n st))"
  proof -
    have "h \<notin> referring st s'" if "s' \<noteq> s" for s' using that h by auto
    then have "referring st s' - {h} = referring st s'" if "s' \<noteq> s" for s' using that by blast
    moreover have "referring st s - {h} = {} \<longleftrightarrow> referring st s = {h}" using m by blast
    ultimately have "sh_refCount (set_handle h (Some None) (set_count s ?n st)) s' =
        (if referring (set_handle h (Some None) (set_count s ?n st)) s' = {} then None
         else Some (of_nat (card (referring (set_handle h (Some None) (set_count s ?n st)) s'))))" for s'
      using handles_invD(1) [OF inv, of s'] by (cases "s' = s") simp_all
    then show ?thesis using inv unfolding handles_inv_def by simp
  qed
  ultimately show ?thesis by (intro exI [of _ ?n]) simp
qed

definition handles_bounded :: "Handles \<Rightarrow> bool" where
  "handles_bounded st = (card (dom (sh_handles st)) < 2 ^ 32)"

lemma destructor_inv:
  assumes "handles_inv st" "sh_handles st h \<noteq> None" "handles_bounded st"
  shows "\<exists>st'. Handle_destructor h st = Returns () st' \<and> sh_handles st' = sh_handles st
    \<and> handles_inv (set_handle h (Some None) st')
    \<and> (\<forall>s. sh_handles st h = Some (Some s) \<longrightarrow> (sh_refCount st' s = None) = (referring st s = {h}))"
proof (cases "sh_handles st h")
  case (Some v)
  show ?thesis
  proof (cases v)
    case None
    then show ?thesis
      using Some handles_inv_null [OF assms(1), of h "Some None"] by (simp add: Handle_destructor_def)
  next
    case (Some s)
    then have h: "sh_handles st h = Some (Some s)" using \<open>sh_handles st h = Some v\<close> by simp
    obtain n where n: "Session_Release s st = Returns (referring st s = {h}) (set_count s n st)"
      "(n = None) = (referring st s = {h})" "handles_inv (set_handle h (Some None) (set_count s n st))"
      using session_release_inv [OF assms(1) h] assms(3) unfolding handles_bounded_def by blast
    then show ?thesis
      using h by (intro exI [of _ "set_count s n st"]) (simp add: Handle_destructor_def)
  qed
qed (use assms(2) in simp)

lemma copy_inv:
  assumes inv: "handles_inv (set_handle h (Some None) st)" and o: "sh_handles st other \<noteq> None"
  shows "if h = other \<and> (\<exists>s. sh_handles st h = Some (Some s) \<and> sh_refCount st s = None) then Handle_copy h other st = Stops
    else \<exists>st'. Handle_copy h other st = Returns () st' \<and> handles_inv st'"
proof (cases "\<exists>s. sh_handles st other = Some (Some s)")
  case True
  then obtain s where s: "sh_handles st other = Some (Some s)" by blast
  have c: "Handle_copy h other st = Session_Remember s (set_handle h (Some (Some s)) st)"
    by (simp add: Handle_copy_def s)
  show ?thesis
  proof (cases "sh_refCount st s")
    case None
    have "h = other"
    proof (rule ccontr)
      assume "h \<noteq> other"
      then have "other \<in> referring (set_handle h (Some None) st) s" using s by simp
      then show False using handles_invD(1) [OF inv, of s] None by (auto simp del: referring_set_handle split: if_splits)
    qed
    then show ?thesis using c s None by (auto simp: Session_Remember_def)
  next
    case (Some n)
    have "handles_inv (set_count s (Some (n + 1)) (set_handle h (Some (Some s)) (set_handle h (Some None) st)))"
      using Some by (intro handles_inv_add [OF inv]) simp_all
    then show ?thesis
      using c s Some by (auto simp: Session_Remember_def set_count_def)
  qed
next
  case False
  then have "sh_handles st other = Some None" using o by auto
  then show ?thesis using inv by (auto simp: Handle_copy_def)
qed

lemma move_inv:
  assumes "handles_inv (set_handle h (Some None) st)" "sh_handles st other \<noteq> None"
  shows "\<exists>st'. Handle_move h other st = Returns () st' \<and> handles_inv st'"
  using handles_inv_move [OF assms] by (simp add: Handle_move_def)

lemma reset_inv:
  assumes "handles_inv st" "handles_bounded st"
  shows "\<exists>b st'. Handle_Reset h st = Returns b st' \<and> handles_inv st'"
proof (cases "\<exists>s. sh_handles st h = Some (Some s)")
  case True
  then obtain s where h: "sh_handles st h = Some (Some s)" by blast
  then show ?thesis
    using session_release_inv [OF assms(1) h] assms(2) by (auto simp: Handle_Reset_def handles_bounded_def)
next
  case False
  then show ?thesis using assms(1) by (auto simp: Handle_Reset_def split: option.splits)
qed

lemma create_inv:
  assumes "handles_inv st" "sh_refCount st s = None" "sh_handles st h = None"
  shows "handles_inv (set_handle h (Some (Some s)) (st\<lparr>sh_refCount := (sh_refCount st)(s \<mapsto> 1)\<rparr>))"
  using handles_inv_add [of st h 1 s] assms by (cases st) (simp add: set_handle_def set_count_def)

definition copies_last_handle_to_itself :: "handle_op \<Rightarrow> Handles \<Rightarrow> bool" where
  "copies_last_handle_to_itself c st = (\<exists>h s. c = CallCopyAssign h h \<and> referring st s = {h})"

definition ends_well :: "(Handles, 'a) outcome \<Rightarrow> bool" where
  "ends_well r = (case r of Returns x st \<Rightarrow> handles_inv st | Throws e st \<Rightarrow> handles_inv st | Stops \<Rightarrow> False)"

lemma copy_assign_inv:
  assumes "handles_inv st" "handles_bounded st" "sh_handles st h \<noteq> None" "sh_handles st other \<noteq> None"
  shows "if copies_last_handle_to_itself (CallCopyAssign h other) st then Handle_copy_assign h other st = Stops
    else ends_well (Handle_copy_assign h other st)"
proof -
  obtain st' where d: "Handle_destructor h st = Returns () st'" "sh_handles st' = sh_handles st"
    "handles_inv (set_handle h (Some None) st')"
    "\<And>s. sh_handles st h = Some (Some s) \<Longrightarrow> (sh_refCount st' s = None) = (referring st s = {h})"
    using destructor_inv [OF assms(1,3,2)] by blast
  have "copies_last_handle_to_itself (CallCopyAssign h other) st
      \<longleftrightarrow> h = other \<and> (\<exists>s. sh_handles st' h = Some (Some s) \<and> sh_refCount st' s = None)"
    using d(2,4) by (auto simp: copies_last_handle_to_itself_def set_eq_iff)
  then show ?thesis
    using copy_inv [OF d(3), of other] assms(4) d(1,2)
    by (auto simp: Handle_copy_assign_def ends_well_def split: if_splits)
qed

lemma ends_well_copy:
  assumes "handles_inv st" "sh_handles st h = None" "sh_handles st other \<noteq> None"
  shows "ends_well (Handle_copy h other st)"
  using copy_inv [OF handles_inv_null [OF assms(1)], of h other] assms(2,3) by (auto simp: ends_well_def)

lemma initialize_inv:
  assumes inv: "handles_inv st" and tmp: "sh_handles st tmp = None" and s: "sh_refCount st s = None"
  shows "ends_well (Session_Initialize s tmp st)"
proof (cases "is_set globalSession st")
  case True
  then show ?thesis using inv by (simp add: Session_Initialize_def throw_if_def ends_well_def)
next
  case False
  let ?st = "set_handle tmp (Some (Some s)) (st\<lparr>sh_refCount := (sh_refCount st)(s \<mapsto> 1)\<rparr>)"
  have g: "sh_handles st globalSession = Some None"
    using False handles_invD(2) [OF inv] by (auto simp: is_set_def split: option.splits)
  have n: "globalSession \<noteq> tmp" using g tmp by auto
  have i: "handles_inv ?st" by (rule create_inv [OF inv s tmp])
  have g': "sh_handles ?st globalSession = Some None" using g n by (simp add: set_handle_def)
  obtain st' where m: "Handle_move globalSession tmp ?st = Returns () st'" "handles_inv st'"
    using move_inv [OF handles_inv_null [OF i], of globalSession tmp] g' by auto
  have t: "sh_handles st' tmp = Some None" using m(1) by (auto simp: Handle_move_def)
  have "Session_Initialize s tmp st = Returns () (set_handle tmp None st')"
    using False m(1) g' t by (simp add: Session_Initialize_def throw_if_def Session_Create_def Handle_move_assign_def
        Handle_destructor_def Handle_destroy_def)
  then show ?thesis
    using handles_inv_null [OF m(2), of tmp None] t n by (simp add: ends_well_def)
qed

lemma handle_call_inv:
  assumes inv: "handles_inv st" and b: "handles_bounded st" and p: "handle_call_possible c st"
  shows "if copies_last_handle_to_itself c st then handle_call c st = Stops else ends_well (handle_call c st)"
proof (cases c)
  case (CallDefault h)
  then show ?thesis
    using p handles_inv_null [OF inv] by (simp add: copies_last_handle_to_itself_def ends_well_def Handle_default_def)
next
  case (CallCopy h other)
  then show ?thesis using p ends_well_copy [OF inv] by (simp add: copies_last_handle_to_itself_def)
next
  case (CallMove h other)
  then show ?thesis
    using p move_inv [OF handles_inv_null [OF inv], of h other] by (auto simp: copies_last_handle_to_itself_def ends_well_def)
next
  case (CallDestroy h)
  then obtain st' where d: "Handle_destructor h st = Returns () st'" "handles_inv (set_handle h (Some None) st')"
    using destructor_inv [OF inv _ b, of h] p by auto
  then show ?thesis
    using p CallDestroy handles_inv_null [OF d(2), of h None]
    by (auto simp: copies_last_handle_to_itself_def ends_well_def Handle_destroy_def)
next
  case (CallCopyAssign h other)
  then show ?thesis using copy_assign_inv [OF inv b, of h other] p by simp
next
  case (CallMoveAssign h other)
  then obtain st' where d: "Handle_destructor h st = Returns () st'" "sh_handles st' = sh_handles st"
    "handles_inv (set_handle h (Some None) st')"
    using destructor_inv [OF inv _ b, of h] p by auto
  then show ?thesis
    using p CallMoveAssign move_inv [OF d(3), of other]
    by (auto simp: copies_last_handle_to_itself_def ends_well_def Handle_move_assign_def)
next
  case (CallReset h)
  then show ?thesis
    using reset_inv [OF inv b, of h] by (auto simp: copies_last_handle_to_itself_def ends_well_def)
next
  case (CallCreate s h)
  then show ?thesis
    using p create_inv [OF inv] by (simp add: copies_last_handle_to_itself_def ends_well_def Session_Create_def)
next
  case (CallGetGlobalSession h)
  then show ?thesis
    using p inv ends_well_copy [OF inv, of h globalSession] handles_invD(2) [OF inv]
    by (auto simp: copies_last_handle_to_itself_def Session_GetGlobalSession_def throw_if_def ends_well_def)
next
  case (CallInitialize s tmp)
  then show ?thesis
    using p initialize_inv [OF inv] by (simp add: copies_last_handle_to_itself_def)
next
  case CallShutdown
  obtain d st' where "Handle_Reset globalSession st = Returns d st'" "handles_inv st'"
    using reset_inv [OF inv b] by blast
  then show ?thesis
    using CallShutdown inv by (simp add: copies_last_handle_to_itself_def Session_Shutdown_def throw_if_def ends_well_def)
qed

lemma handles_reachable_inv: "handles_reachable st \<Longrightarrow> handles_inv st \<and> handles_bounded st"
proof (induction rule: handles_reachable.induct)
  case start
  have "referring Handles_new s = {}" for s by (auto simp: referring_def Handles_new_def)
  then show ?case by (simp add: handles_inv_def handles_bounded_def) (simp add: Handles_new_def)
next
  case (call st c st' e)
  then show ?case
    using handle_call_inv [of st c] by (auto simp: handles_bounded_def ends_well_def split: if_splits)
qed

text \<open>C26: A session exists exactly as long as a handle refers to it, and its reference count is the number of these handles. No
  operation on the handles or on the global session uses a deleted session, with one exception: the copy assignment of the
  only handle of a session to itself deletes the session and uses it afterwards.\<close>

theorem session_lives_while_referred:
  assumes "handles_reachable st"
  shows "(\<forall>s. sh_refCount st s = (if referring st s = {} then None else Some (of_nat (card (referring st s)))))
    \<and> (\<forall>c. handle_call_possible c st \<longrightarrow> (handle_call c st = Stops) = copies_last_handle_to_itself c st)"
proof (intro conjI allI impI)
  have inv: "handles_inv st" "handles_bounded st" using handles_reachable_inv [OF assms] by simp_all
  show "sh_refCount st s = (if referring st s = {} then None else Some (of_nat (card (referring st s))))" for s
    by (rule handles_invD(1) [OF inv(1)])
  show "(handle_call c st = Stops) = copies_last_handle_to_itself c st" if "handle_call_possible c st" for c
    using handle_call_inv [OF inv that] by (auto simp: ends_well_def split: if_splits)
qed

definition one_handle :: Handles where
  "one_handle = \<lparr>sh_refCount = [7 \<mapsto> 1], sh_handles = [globalSession \<mapsto> None, 1 \<mapsto> Some 7]\<rparr>"

lemma one_handle_reachable: "handles_reachable one_handle"
proof (rule handles_reachable.call [OF handles_reachable.start])
  show "handle_call_possible (CallCreate 7 1) Handles_new"
    by (simp add: Handles_new_def globalSession_def)
  have "handle_call (CallCreate 7 1) Handles_new = Returns () one_handle"
    by (simp add: Handles_new_def globalSession_def Session_Create_def set_handle_def one_handle_def)
  then show "handle_call (CallCreate 7 1) Handles_new = Returns () one_handle \<or>
      handle_call (CallCreate 7 1) Handles_new = Throws EX_Exception one_handle" by simp
  show "card (dom (sh_handles one_handle)) < 2 ^ 32"
    by (simp add: one_handle_def globalSession_def)
qed

theorem session_lives_while_referred_witness:
  "sh_refCount one_handle 7 = Some 1 \<and> handle_call (CallCopyAssign 1 1) one_handle = Stops
    \<and> handle_call (CallMoveAssign 1 1) one_handle \<noteq> Stops"
proof -
  have r: "referring one_handle 7 = {1}" by (auto simp: referring_def one_handle_def globalSession_def split: if_splits)
  then have "copies_last_handle_to_itself (CallCopyAssign 1 1) one_handle" "\<not> copies_last_handle_to_itself (CallMoveAssign 1 1) one_handle"
    unfolding copies_last_handle_to_itself_def by blast+
  moreover have "handle_call_possible (CallCopyAssign 1 1) one_handle" "handle_call_possible (CallMoveAssign 1 1) one_handle"
    by (simp_all add: one_handle_def globalSession_def)
  moreover have "sh_refCount one_handle 7 = Some 1"
    using session_lives_while_referred [OF one_handle_reachable] r by simp
  ultimately show ?thesis
    using session_lives_while_referred [OF one_handle_reachable] by blast
qed

text \<open>The global session: it is initialised once, \<open>Shutdown\<close> throws while other handles refer to it but releases it all the
  same, so that a second \<open>Shutdown\<close> returns although the session is still in use.\<close>

lemma shutdown_while_used:
  assumes r: "handles_reachable st" and g: "sh_handles st globalSession = Some (Some s)"
    and o: "sh_handles st h = Some (Some s)" "h \<noteq> globalSession"
  shows "\<exists>st'. Session_Shutdown st = Throws EX_Exception st' \<and> sh_refCount st' s \<noteq> None \<and> Session_Shutdown st' = Returns () st'"
proof -
  have "handles_inv st" "card (dom (sh_handles st)) < 2 ^ 32"
    using handles_reachable_inv [OF r] by (simp_all add: handles_bounded_def)
  then obtain n where n: "Session_Release s st = Returns (referring st s = {globalSession}) (set_count s n st)"
    "(n = None) = (referring st s = {globalSession})"
    using session_release_inv [of st globalSession s] g by blast
  have "referring st s \<noteq> {globalSession}" using o by (auto simp: set_eq_iff)
  then show ?thesis
    using n g by (auto simp: Session_Shutdown_def is_set_def Handle_Reset_def throw_if_def)
qed

end
