(* ===== verification/Spec2Isabelle.thy ===== *)
theory Spec2Isabelle
  imports Commit_Properties Storage_Properties Lock_Properties Cache_Properties Server_Properties Server_Findings
    Client_Properties Layout_Properties Socket_Properties Session_Properties
begin

text \<open>
  Verification of blobs.db, a database of binary objects: its server and its client library.

  \<^bold>\<open>The program.\<close> Clients connect to a server over sockets, open databases, begin a transaction, read
  blobs (which takes read, write or delete locks on them), and commit new versions of blobs. A database
  is a tree: segments contain clusters, clusters contain blobs; the ids below 256 of the last places of
  each id range are reserved, for the lists of ids and the next free ids. A database lives in memory or
  in a file. In a file every blob, cluster, segment and the snapshot of a commit is a block; a commit
  writes new blocks only, into space that the free list of the previous commit does not use, and finally
  rewrites the file header, which names the current root. Clients that opened a database in MVCC mode read the
  snapshot that was current when the first of them began a transaction. The server is one thread that handles
  messages and timer tasks one after the other.

  \<^bold>\<open>Layers and theories\<close> (all source files under src/ServerLib unless said otherwise).

  \<^item> Prelude (shared lemmas), Config (src/ClientLib/include/blobs/Config.hpp, ids as words),
    Blob\_Location (src/Network/common/BlobLocation.cpp), Sorted\_Flat\_Map
    (include/server/sorted\_flat\_map.hpp), Messages (src/Network/include/network/message).
  \<^item> Locks: Lock (Lock.cpp), Lock\_Util (include/server/LockUtil.hpp: which locations a request locks),
    Lock\_Table (the lock part of Database.cpp: acquire, release, queueing, deadlocks, timeouts). The
    locale \<open>sticky_lock_interface\<close> is the interface StickyLockHandler.
  \<^item> Storage: File\_Format (the blocks as byte lists), Free\_List (FreeList of Database.cpp and
    MemoryBlockDelta.cpp; locale \<open>block_allocator\<close>), File\_Backend (FileBackend.cpp, the system calls being
    parameters), Memory\_Blocks (Blob.cpp, Cluster.cpp, Segment.cpp: objects behind \<open>shared_ptr\<close> live in the
    maps of a record \<open>Heap\<close>, so that sharing between snapshots is visible), Db\_Snapshot (Database::Snapshot and
    Deleted.cpp), Database\_Store (opening, commits and MVCC of Database.cpp).
  \<^item> Abstraction: Storage\_View maps the heap and the file below a snapshot to a tree of values
    (\<open>snapshot_view\<close>); Storage\_Load and Storage\_Update prove what delayed loading and updates do to that tree;
    Commit\_Refinement and Commit\_Correct lift this to a whole commit and to the writes of the file;
    Initial\_Database proves the invariant \<open>store_ok\<close> of a new database, in memory and in a file.
  \<^item> Commit validation: Blob\_Location\_Ranges (BlobLocationRanges.cpp), Commit\_Validation
    (Server::ValidateCommitMessages).
  \<^item> Server: Server\_State (clients, opened databases, tasks, sent messages), Server\_Client (Client.cpp),
    Server\_Reads (the answers to reads of Server.cpp), Server\_Handlers (all handlers of Server.cpp, and
    \<open>server_step\<close>, the step relation of the whole server: one message, one due task or time passing).
  \<^item> The server as a whole: Server\_Frame (what handlers leave alone), Server\_Events (an abstract event relation
    and the invariant \<open>server_inv\<close> of locks, reference counts, MVCC snapshots and waiting requests, which every event and
    commit preserves), Server\_Refinement (every step is a sequence of events with at most one commit), Server\_Isolation
    (what the events of one client leave to the others), Server\_Content (the content of databases in memory along a
    run), Commit\_Locks (a commit changes no blob another client has locked), Server\_Runs (concrete runs, for the
    witnesses), Server\_Properties, and Server\_Findings (runs that end in what the source does not intend).
  \<^item> Client library (src/ClientLib): Client\_Transaction (HeldLocks.cpp and the state of a transaction in
    Transaction.cpp, up to the messages of a commit), Client\_Session (Session.cpp, Network.cpp and the state classes: the
    connections, opened databases with their caches and sticky locks, running transactions), Client\_Database (reading,
    writing, id lists, creating and deleting of Database.cpp), Client\_Requests (MultiBlobRequest.cpp, commit, abort, open and
    close). Operations take the state of a session and return, throw or stop (\<open>outcome\<close>); the connections are a record
    \<open>Channel\<close> of operations on a state of their own. Client\_Commit proves what the messages of a commit do to the
    content of the database, Client\_Logic and Client\_Invariant prove
    what operations keep when they return and when they throw (\<open>client_step\<close>, \<open>client_reachable\<close>), Client\_Runs evaluates
    concrete runs, Client\_Properties holds the theorems, among them that the server's commit of a client's messages gives
    every blob the content that the client read in its transaction.
  \<^item> Sharing of a session between threads (Session.cpp): Session\_Lock holds the lock of a session with each access to its mutex
    as a step of its own (\<open>lock_reachable\<close>), and the reference counts of session handles with the global session
    (\<open>handles_reachable\<close>; each operation is one step, since the count is atomic and a handle is not shared). Session\_Properties proves
    the mutual exclusion on which the atomic operations of the client theories rest, and that a session lives as long as its handles.
  \<^item> Network (src/Network): Message\_Memory (structs and arrays in the bytes of a message; locale \<open>struct_memory\<close> for what the
    structs have in common, interpreted on every one of them), Message\_Layout (the sources in message/: how each message is created in
    uninitialised memory, and the iterators and loops that fill and read it), Message\_Socket (DuplexMessageSocket.cpp: cutting received bytes into messages,
    the send queue, its notifications and partial sends; the client ids of SocketServer.cpp). Layout\_Properties proves that
    the receiver reads what the sender laid out, which justifies the records of Messages; Socket\_Properties proves that a connection delivers messages
    once and in order.
  \<^item> Properties: Commit\_Properties, Storage\_Properties, Lock\_Properties, Read\_Properties,
    Cache\_Properties, Server\_Properties, Client\_Properties, Session\_Properties, Layout\_Properties and Socket\_Properties hold the main theorems, each after a text that states it.

  \<^bold>\<open>Conventions.\<close> Classes are records, enums datatypes, ids and offsets words of their width. The result
  \<open>None\<close> of an operation is a failed assertion, an exception that ends the server, or a loop that does not end;
  errors the source returns are values. \<open>std::unordered_map\<close> is a map, since the source never depends on its order;
  where it iterates over one (the databases of a commit), the model iterates over the list of databases.
  \<open>std::sort\<close>, the files and paths are parameters with their specification (\<open>std_sort\<close>, \<open>ReadFile_spec\<close>,
  \<open>WriteFile_spec\<close>, the record \<open>Env\<close>). Times are integers in nanoseconds.

  \<^bold>\<open>Recursion and fuel.\<close> No definition uses fuel: loops over data are structural, the binary search,
  the encoding of ranges, the splitting of a commit into messages and the processing of received bytes have termination proofs, and the loops that may run for ever (reading
  from the file, splitting an answer, receiving the messages of an answer, the iterators over a message, the search for a free client id) are
  \<open>partial_function (option)\<close>, where not returning is \<open>None\<close>; that they return is proved, except for receiving the messages of an answer, which depends on the server.

  \<^bold>\<open>Not modelled.\<close> The system calls of sockets, accepting and closing connections, completion ports, receive queues and threads (the server handles one
  message at a time, the lock of a session, which is modelled, makes the operations of a client atomic, and the events of a connection are those of its network thread
  and the messages other threads enqueue), the buffers that returned pointers point into, the overloads for wide strings, path resolution, configuration, logging and printing,
  the entry points of the DLLs and the tests. The scheduler is modelled as the order in which it runs its tasks.
\<close>

end
